(* ===== verification/Prelude.thy ===== *)
theory Prelude
  imports Main "HOL-Library.AList" "HOL-Library.Char_ord" "HOL-Library.List_Lexorder"
begin

text \<open>
  What every component shares: the pieces of the Go language and of its standard library that
  the repository is written against (panics, errors and \<^verbatim>\<open>errors.Is\<close>, \<^verbatim>\<open>context.Context\<close>,
  \<^verbatim>\<open>map\<close> values, \<^verbatim>\<open>strings.EqualFold\<close>, \<^verbatim>\<open>strings.ToLower\<close>, \<^verbatim>\<open>strings.Join\<close>,
  \<^verbatim>\<open>strconv.Quote\<close>), with the lemmas about them that the component proofs use.
  Nothing here has an entry in the source map: it is the vocabulary of the model.
\<close>

named_theorems go_unfold \<open>definitions that unfold into code paths\<close>
named_theorems status_defs \<open>the literal status strings\<close>

section \<open>Panics\<close>

text \<open>
  Code that may panic returns an outcome: the value, or the panic value as \<^verbatim>\<open>%v\<close> prints it.
  A panic is not the end of the program: deferred functions still run and \<^verbatim>\<open>recover\<close> may
  turn it back into a value, so the state travels with both cases.
\<close>

datatype 'a outcome = Return 'a | Panic string

definition andThen ::
  "'a outcome \<times> 's \<Rightarrow> ('a \<Rightarrow> 's \<Rightarrow> 'b outcome \<times> 's) \<Rightarrow> 'b outcome \<times> 's" where
  "andThen m k = (case m of (Panic p, s) \<Rightarrow> (Panic p, s) | (Return a, s) \<Rightarrow> k a s)"

lemma andThen_simps [simp]:
  "andThen (Return a, s) k = k a s"
  "andThen (Panic p, s) k = (Panic p, s)"
  by (simp_all add: andThen_def)

lemma andThen_assoc:
  "andThen (andThen m k) l = andThen m (\<lambda>a s. andThen (k a s) l)"
  by (cases m; cases "fst m") (auto simp: andThen_def)

lemma snd_andThen_Return: "snd (andThen m (\<lambda>v s'. (Return (h v), s'))) = snd m"
  by (cases m; cases "fst m") auto

lemma map_outcome_eq_Return: "map_outcome f m = Return b \<longleftrightarrow> (\<exists>a. m = Return a \<and> b = f a)"
  by (cases m) auto

text \<open>The value of an outcome that is known not to be a panic.\<close>

fun returned :: "'a outcome \<Rightarrow> 'a option" where
  "returned (Return a) = Some a"
| "returned (Panic p) = None"

fun panics :: "'a outcome \<Rightarrow> bool" where
  "panics (Return a) = False"
| "panics (Panic p) = True"

section \<open>Errors\<close>

text \<open>
  An \<^verbatim>\<open>error\<close> value. \<open>ErrSentinel\<close> is a package-level \<^verbatim>\<open>errors.New\<close> value, known by the
  variable that holds it; \<open>ErrNew\<close> is any other leaf error, known by its text; \<open>ErrWrap\<close> is
  an error that wraps others (\<^verbatim>\<open>%w\<close>), with its whole text.
\<close>

datatype goerr =
    ErrCanceled
  | ErrDeadlineExceeded
  | ErrSentinel string string
  | ErrNew string
  | ErrWrap string "goerr list"

fun errorText :: "goerr \<Rightarrow> string" where
  "errorText ErrCanceled = ''context canceled''"
| "errorText ErrDeadlineExceeded = ''context deadline exceeded''"
| "errorText (ErrSentinel name m) = m"
| "errorText (ErrNew m) = m"
| "errorText (ErrWrap m es) = m"

text \<open>\<^verbatim>\<open>errors.Is\<close>: the error itself or anything it wraps.\<close>

fun errorsIs :: "goerr \<Rightarrow> goerr \<Rightarrow> bool" where
  "errorsIs (ErrWrap m es) target =
     (ErrWrap m es = target \<or> list_ex (\<lambda>e. errorsIs e target) es)"
| "errorsIs e target = (e = target)"

lemma errorsIs_refl [simp]: "errorsIs e e"
  by (cases e) simp_all

section \<open>Time and contexts\<close>

text \<open>
  Instants and durations are nanoseconds. A \<^verbatim>\<open>context.Context\<close> is its done channel, given as
  the instant at which it closes and the error it then reports (\<open>None\<close>: never), and the four
  values the repository puts on it: the invocation, the scope, the span of a trace (its trace id,
  span id and trace state), and the authenticated principal. Which instant an outside cancellation has is the caller's
  choice, so a statement about every context is a statement about every schedule of
  cancellations.
\<close>

record principal =
  pr_Name :: string
  pr_Roles :: "string list"
  pr_Claims :: "(string \<times> string) list"

record ctx =
  done_at :: "(int \<times> goerr) option"
  carries_invocation :: bool
  carries_scope :: bool
  carries_span :: "(string \<times> string \<times> string) option"
  carries_principal :: "principal option"

definition background :: ctx where
  "background = \<lparr>done_at = None, carries_invocation = False, carries_scope = False,
     carries_span = None, carries_principal = None\<rparr>"

definition ctxErr :: "ctx \<Rightarrow> int \<Rightarrow> goerr option" where
  "ctxErr c now = (case done_at c of
       None \<Rightarrow> None
     | Some (t, e) \<Rightarrow> if t \<le> now then Some e else None)"

text \<open>
  \<^verbatim>\<open>context.WithTimeout\<close>: the child is done when the parent is, with the parent's error, or
  at its own deadline, whichever comes first.
\<close>

definition withTimeout :: "ctx \<Rightarrow> int \<Rightarrow> int \<Rightarrow> ctx" where
  "withTimeout c now d = (case done_at c of
       None \<Rightarrow> c\<lparr>done_at := Some (now + d, ErrDeadlineExceeded)\<rparr>
     | Some (t, e) \<Rightarrow>
         if t \<le> now + d then c else c\<lparr>done_at := Some (now + d, ErrDeadlineExceeded)\<rparr>)"

definition withoutCancel :: "ctx \<Rightarrow> ctx" where
  "withoutCancel c = c\<lparr>done_at := None\<rparr>"

lemma ctxErr_background [simp]: "ctxErr background now = None"
  by (simp add: ctxErr_def background_def)

lemma ctxErr_mono: "ctxErr c t = Some e \<Longrightarrow> t \<le> u \<Longrightarrow> ctxErr c u = Some e"
  by (auto simp: ctxErr_def split: option.splits if_splits)

text \<open>A live parent's child is done exactly when the child's own deadline has passed.\<close>

lemma ctxErr_withTimeout:
  assumes "ctxErr c u = None"
  shows "ctxErr (withTimeout c now d) u =
    (if now + d \<le> u then Some ErrDeadlineExceeded else None)"
  using assms by (auto simp: ctxErr_def withTimeout_def split: option.splits if_splits prod.splits)

section \<open>Strings\<close>

definition toLowerChar :: "char \<Rightarrow> char" where
  "toLowerChar c =
     (if CHR ''A'' \<le> c \<and> c \<le> CHR ''Z'' then char_of (of_char c + (32 :: nat)) else c)"

definition toLower :: "string \<Rightarrow> string" where
  "toLower s = map toLowerChar s"

text \<open>\<^verbatim>\<open>strings.EqualFold\<close>, on the ASCII names that metadata keys and headers are.\<close>

definition equalFold :: "string \<Rightarrow> string \<Rightarrow> bool" where
  "equalFold a b \<longleftrightarrow> toLower a = toLower b"

lemma equalFold_refl [simp]: "equalFold a a"
  by (simp add: equalFold_def)

lemma equalFold_sym: "equalFold a b \<Longrightarrow> equalFold b a"
  by (simp add: equalFold_def)

lemma equalFold_trans: "equalFold a b \<Longrightarrow> equalFold b c \<Longrightarrow> equalFold a c"
  by (simp add: equalFold_def)

fun join :: "string \<Rightarrow> string list \<Rightarrow> string" where
  "join sep [] = []"
| "join sep [x] = x"
| "join sep (x # y # xs) = x @ sep @ join sep (y # xs)"

lemma join_Cons: "join sep (x # xs) = (if xs = [] then x else x @ sep @ join sep xs)"
  by (cases xs) simp_all

definition hexDigit :: "nat \<Rightarrow> char" where
  "hexDigit n = ''0123456789abcdef'' ! (n mod 16)"

text \<open>\<^verbatim>\<open>%q\<close> (\<^verbatim>\<open>strconv.Quote\<close>); bytes beyond ASCII are those of printable text.\<close>

definition quoteChar :: "char \<Rightarrow> string" where
  "quoteChar c = (let n = (of_char c :: nat) in
     if c = CHR 0x22 then [CHR 0x5C, CHR 0x22]
     else if c = CHR 0x5C then [CHR 0x5C, CHR 0x5C]
     else if n = 7 then [CHR 0x5C, CHR ''a'']
     else if n = 8 then [CHR 0x5C, CHR ''b'']
     else if n = 9 then [CHR 0x5C, CHR ''t'']
     else if n = 10 then [CHR 0x5C, CHR ''n'']
     else if n = 11 then [CHR 0x5C, CHR ''v'']
     else if n = 12 then [CHR 0x5C, CHR ''f'']
     else if n = 13 then [CHR 0x5C, CHR ''r'']
     else if n < 32 \<or> n = 127
       then [CHR 0x5C, CHR ''x'', hexDigit (n div 16), hexDigit n]
     else [c])"

definition goQuote :: "string \<Rightarrow> string" where
  "goQuote s = [CHR 0x22] @ concat (map quoteChar s) @ [CHR 0x22]"

section \<open>Maps\<close>

text \<open>
  A Go map is the list of its entries in the order one \<^verbatim>\<open>range\<close> visits them, with distinct
  keys (\<open>goMap\<close>). Go visits a map in an unspecified order, so a statement about every such
  list covers every order. Reading a missing key gives the zero value (\<open>goIndex\<close>); a nil map
  and an empty one are both the empty list.
\<close>

type_synonym headers = "(string \<times> string) list"

definition goMap :: "('k \<times> 'v) list \<Rightarrow> bool" where
  "goMap m \<longleftrightarrow> distinct (map fst m)"

definition goIndex :: "('k \<times> 'v) list \<Rightarrow> 'k \<Rightarrow> 'v \<Rightarrow> 'v" where
  "goIndex m k zero = (case map_of m k of None \<Rightarrow> zero | Some v \<Rightarrow> v)"

definition hasKey :: "('k \<times> 'v) list \<Rightarrow> 'k \<Rightarrow> bool" where
  "hasKey m k \<longleftrightarrow> map_of m k \<noteq> None"

definition hasKeyFold :: "headers \<Rightarrow> string \<Rightarrow> bool" where
  "hasKeyFold m key \<longleftrightarrow> list_ex (\<lambda>(name, value). equalFold name key) m"

lemma goMap_Nil [simp]: "goMap []"
  by (simp add: goMap_def)

lemma goMap_update [simp]: "goMap m \<Longrightarrow> goMap (AList.update k v m)"
  by (simp add: goMap_def distinct_update)

lemma goMap_delete [simp]: "goMap m \<Longrightarrow> goMap (AList.delete k m)"
  by (simp add: goMap_def distinct_delete)

lemma goMap_Cons: "goMap (x # m) \<longleftrightarrow> fst x \<notin> fst ` set m \<and> goMap m"
  by (simp add: goMap_def)

lemma map_of_alist_update [simp]: "map_of (AList.update k v m) k' = (if k' = k then Some v else map_of m k')"
  by (simp add: update_conv')

lemma map_of_alist_delete [simp]: "map_of (AList.delete k m) k' = (if k' = k then None else map_of m k')"
  by (simp add: delete_conv')

lemma goIndex_update [simp]: "goIndex (AList.update k v m) k' z = (if k' = k then v else goIndex m k' z)"
  by (simp add: goIndex_def)

lemma hasKey_update [simp]: "hasKey (AList.update k v m) k' \<longleftrightarrow> k' = k \<or> hasKey m k'"
  by (simp add: hasKey_def)

lemma hasKey_delete [simp]: "hasKey (AList.delete k m) k' \<longleftrightarrow> k' \<noteq> k \<and> hasKey m k'"
  by (simp add: hasKey_def)

lemma hasKey_iff: "hasKey m k \<longleftrightarrow> k \<in> fst ` set m"
  by (induction m) (auto simp: hasKey_def)

lemma map_of_permute:
  assumes "goMap m" and "set m' = set m" and "goMap m'"
  shows "map_of m' k = map_of m k"
proof -
  have "map_of m' k = Some v \<longleftrightarrow> map_of m k = Some v" for v
    using assms by (simp add: goMap_def)
  then show ?thesis by (cases "map_of m k"; cases "map_of m' k") auto
qed

end
