(* ===== verification/Status.thy ===== *)
theory Status
  imports Prelude
begin

text \<open>
  The status vocabulary (\<^verbatim>\<open>status.go\<close>) and the two tables that carry it onto a transport:
  \<^verbatim>\<open>httpstatus/mapping.go\<close> and \<^verbatim>\<open>grpcstatus/mapping.go\<close>. A status is a string, so an
  application may use its own; the two class tables are Go maps from status to \<^verbatim>\<open>bool\<close>.
\<close>

section \<open>The vocabulary (status.go)\<close>

type_synonym status = string

definition StatusOk :: status where [status_defs]: "StatusOk = ''ok''"
definition StatusCreated :: status where [status_defs]: "StatusCreated = ''created''"
definition StatusAccepted :: status where [status_defs]: "StatusAccepted = ''accepted''"
definition StatusUpdated :: status where [status_defs]: "StatusUpdated = ''updated''"
definition StatusDeleted :: status where [status_defs]: "StatusDeleted = ''deleted''"
definition StatusIgnored :: status where [status_defs]: "StatusIgnored = ''ignored''"
definition StatusBadRequest :: status where [status_defs]: "StatusBadRequest = ''bad-request''"
definition StatusValidationError :: status where
  [status_defs]: "StatusValidationError = ''validation-error''"
definition StatusUnauthorized :: status where [status_defs]: "StatusUnauthorized = ''unauthorized''"
definition StatusForbidden :: status where [status_defs]: "StatusForbidden = ''forbidden''"
definition StatusNotFound :: status where [status_defs]: "StatusNotFound = ''not-found''"
definition StatusConflict :: status where [status_defs]: "StatusConflict = ''conflict''"
definition StatusTooManyRequests :: status where
  [status_defs]: "StatusTooManyRequests = ''too-many-requests''"
definition StatusTimeout :: status where [status_defs]: "StatusTimeout = ''timeout''"
definition StatusNotImplemented :: status where
  [status_defs]: "StatusNotImplemented = ''not-implemented''"
definition StatusServiceUnavailable :: status where
  [status_defs]: "StatusServiceUnavailable = ''service-unavailable''"
definition StatusUnexpectedError :: status where
  [status_defs]: "StatusUnexpectedError = ''unexpected-error''"

definition successStatuses :: "(status \<times> bool) list" where
  "successStatuses =
    [(StatusOk, True), (StatusCreated, True), (StatusAccepted, True), (StatusUpdated, True),
     (StatusDeleted, True), (StatusIgnored, True)]"

definition failureStatuses :: "(status \<times> bool) list" where
  "failureStatuses =
    [(StatusBadRequest, True), (StatusValidationError, True), (StatusUnauthorized, True),
     (StatusForbidden, True), (StatusNotFound, True), (StatusConflict, True),
     (StatusTooManyRequests, True), (StatusTimeout, True), (StatusNotImplemented, True),
     (StatusServiceUnavailable, True), (StatusUnexpectedError, True)]"

definition IsSuccess :: "status \<Rightarrow> bool" where
  "IsSuccess s = goIndex successStatuses s False"

definition IsFailure :: "status \<Rightarrow> bool" where
  "IsFailure s = goIndex failureStatuses s False"

definition IsKnown :: "status \<Rightarrow> bool" where
  "IsKnown s \<longleftrightarrow> IsSuccess s \<or> IsFailure s"

definition vocabulary :: "status list" where
  "vocabulary = map fst successStatuses @ map fst failureStatuses"

lemma vocabulary_distinct: "distinct vocabulary"
  by code_simp

text \<open>Every two statuses of the vocabulary differ, as rewrite rules in both directions.\<close>

lemma vocabulary_distinct_rev: "distinct (rev vocabulary)"
  using vocabulary_distinct by simp

lemmas status_neq [simp] =
  vocabulary_distinct [unfolded vocabulary_def successStatuses_def failureStatuses_def, simplified]
  vocabulary_distinct_rev
    [unfolded vocabulary_def successStatuses_def failureStatuses_def, simplified]

lemma IsSuccess_iff:
  "IsSuccess s \<longleftrightarrow> s \<in> {StatusOk, StatusCreated, StatusAccepted, StatusUpdated, StatusDeleted,
     StatusIgnored}"
  by (auto simp: IsSuccess_def successStatuses_def goIndex_def)

lemma IsFailure_iff:
  "IsFailure s \<longleftrightarrow> s \<in> {StatusBadRequest, StatusValidationError, StatusUnauthorized,
     StatusForbidden, StatusNotFound, StatusConflict, StatusTooManyRequests, StatusTimeout,
     StatusNotImplemented, StatusServiceUnavailable, StatusUnexpectedError}"
  by (auto simp: IsFailure_def failureStatuses_def goIndex_def)

lemma status_class_disjoint: "IsSuccess s \<Longrightarrow> \<not> IsFailure s"
  by (auto simp: IsSuccess_iff IsFailure_iff)

lemma failure_not_success [simp]: "IsFailure s \<Longrightarrow> \<not> IsSuccess s"
  using status_class_disjoint by blast

lemma IsSuccess_consts [simp]:
  "IsSuccess StatusOk" "IsSuccess StatusCreated" "IsSuccess StatusAccepted"
  "IsSuccess StatusUpdated" "IsSuccess StatusDeleted" "IsSuccess StatusIgnored"
  by (simp_all add: IsSuccess_iff)

lemma IsFailure_consts [simp]:
  "IsFailure StatusBadRequest" "IsFailure StatusValidationError" "IsFailure StatusUnauthorized"
  "IsFailure StatusForbidden" "IsFailure StatusNotFound" "IsFailure StatusConflict"
  "IsFailure StatusTooManyRequests" "IsFailure StatusTimeout" "IsFailure StatusNotImplemented"
  "IsFailure StatusServiceUnavailable" "IsFailure StatusUnexpectedError"
  by (simp_all add: IsFailure_iff)

section \<open>HTTP (httpstatus/mapping.go)\<close>

text \<open>
  \<^verbatim>\<open>isSuccessful ...bool\<close> is variadic: the list of the flags passed, usually none or one.
\<close>

definition ToHTTP :: "status \<Rightarrow> bool list \<Rightarrow> int" where
  "ToHTTP status isSuccessful =
    (if status = StatusOk \<or> status = StatusIgnored then 200
     else if status = StatusCreated then 201
     else if status = StatusAccepted then 202
     else if status = StatusUpdated \<or> status = StatusDeleted then 204
     else if status = StatusBadRequest then 400
     else if status = StatusUnauthorized then 401
     else if status = StatusForbidden then 403
     else if status = StatusNotFound then 404
     else if status = StatusConflict then 409
     else if status = StatusValidationError then 422
     else if status = StatusTooManyRequests then 429
     else if status = StatusNotImplemented then 501
     else if status = StatusServiceUnavailable then 503
     else if status = StatusTimeout then 504
     else if status = StatusUnexpectedError then 500
     else (case isSuccessful of
             [] \<Rightarrow> 500
           | b # _ \<Rightarrow> if b then 200 else 500))"

definition FromHTTP :: "int \<Rightarrow> status" where
  "FromHTTP code =
    (if code = 200 then StatusOk
     else if code = 201 then StatusCreated
     else if code = 202 then StatusAccepted
     else if code = 204 then StatusDeleted
     else if code = 400 then StatusBadRequest
     else if code = 401 then StatusUnauthorized
     else if code = 403 then StatusForbidden
     else if code = 404 then StatusNotFound
     else if code = 408 then StatusTimeout
     else if code = 409 then StatusConflict
     else if code = 422 then StatusValidationError
     else if code = 429 then StatusTooManyRequests
     else if code = 501 then StatusNotImplemented
     else if code = 502 \<or> code = 503 then StatusServiceUnavailable
     else if code = 504 then StatusTimeout
     else StatusUnexpectedError)"

section \<open>gRPC (grpcstatus/mapping.go)\<close>

definition codeOK :: int where "codeOK = 0"
definition codeCancelled :: int where "codeCancelled = 1"
definition codeInvalidArgument :: int where "codeInvalidArgument = 3"
definition codeDeadlineExceeded :: int where "codeDeadlineExceeded = 4"
definition codeNotFound :: int where "codeNotFound = 5"
definition codeAlreadyExists :: int where "codeAlreadyExists = 6"
definition codePermissionDenied :: int where "codePermissionDenied = 7"
definition codeResourceExhausted :: int where "codeResourceExhausted = 8"
definition codeUnimplemented :: int where "codeUnimplemented = 12"
definition codeInternal :: int where "codeInternal = 13"
definition codeUnavailable :: int where "codeUnavailable = 14"
definition codeDataLoss :: int where "codeDataLoss = 15"
definition codeUnauthenticated :: int where "codeUnauthenticated = 16"

lemmas grpc_code_defs = codeOK_def codeCancelled_def codeInvalidArgument_def
  codeDeadlineExceeded_def codeNotFound_def codeAlreadyExists_def codePermissionDenied_def
  codeResourceExhausted_def codeUnimplemented_def codeInternal_def codeUnavailable_def
  codeDataLoss_def codeUnauthenticated_def

definition ToGRPC :: "status \<Rightarrow> bool list \<Rightarrow> int" where
  "ToGRPC status isSuccessful =
    (if status \<in> {StatusOk, StatusIgnored, StatusCreated, StatusAccepted, StatusUpdated,
         StatusDeleted} then codeOK
     else if status = StatusBadRequest \<or> status = StatusValidationError then codeInvalidArgument
     else if status = StatusUnauthorized then codeUnauthenticated
     else if status = StatusForbidden then codePermissionDenied
     else if status = StatusNotFound then codeNotFound
     else if status = StatusConflict then codeAlreadyExists
     else if status = StatusNotImplemented then codeUnimplemented
     else if status = StatusServiceUnavailable then codeUnavailable
     else if status = StatusTooManyRequests then codeResourceExhausted
     else if status = StatusTimeout then codeDeadlineExceeded
     else if status = StatusUnexpectedError then codeInternal
     else (case isSuccessful of
             [] \<Rightarrow> codeInternal
           | b # _ \<Rightarrow> if b then codeOK else codeInternal))"

definition FromGRPC :: "int \<Rightarrow> status" where
  "FromGRPC code =
    (if code = codeOK then StatusOk
     else if code = codeInvalidArgument then StatusBadRequest
     else if code = codeUnauthenticated then StatusUnauthorized
     else if code = codePermissionDenied then StatusForbidden
     else if code = codeNotFound then StatusNotFound
     else if code = codeAlreadyExists then StatusConflict
     else if code = codeUnimplemented then StatusNotImplemented
     else if code = codeUnavailable then StatusServiceUnavailable
     else if code = codeResourceExhausted then StatusTooManyRequests
     else if code = codeDeadlineExceeded then StatusTimeout
     else if code = codeCancelled then StatusServiceUnavailable
     else if code = codeDataLoss \<or> code = codeInternal then StatusUnexpectedError
     else StatusUnexpectedError)"

section \<open>Properties\<close>

text \<open>
  What a receiver knows of success: the status's own class for the vocabulary, the flag for an
  application-defined status.
\<close>

definition effectiveSuccess :: "status \<Rightarrow> bool list \<Rightarrow> bool" where
  "effectiveSuccess s fl = (if IsKnown s then IsSuccess s else fl \<noteq> [] \<and> hd fl)"

lemma known_cases:
  "IsKnown s \<Longrightarrow> s \<in> {StatusOk, StatusCreated, StatusAccepted, StatusUpdated, StatusDeleted,
     StatusIgnored, StatusBadRequest, StatusValidationError, StatusUnauthorized, StatusForbidden,
     StatusNotFound, StatusConflict, StatusTooManyRequests, StatusTimeout, StatusNotImplemented,
     StatusServiceUnavailable, StatusUnexpectedError}"
  by (auto simp: IsKnown_def IsSuccess_iff IsFailure_iff)

lemma ToHTTP_unknown: "\<not> IsKnown s \<Longrightarrow> ToHTTP s fl = (if fl \<noteq> [] \<and> hd fl then 200 else 500)"
  by (auto simp: ToHTTP_def IsKnown_def IsSuccess_iff IsFailure_iff split: list.splits)

lemma ToGRPC_unknown:
  "\<not> IsKnown s \<Longrightarrow> ToGRPC s fl = (if fl \<noteq> [] \<and> hd fl then codeOK else codeInternal)"
  by (auto simp: ToGRPC_def IsKnown_def IsSuccess_iff IsFailure_iff split: list.splits)

lemma http_class:
  "IsSuccess (FromHTTP (ToHTTP s fl)) = effectiveSuccess s fl"
  "IsFailure (FromHTTP (ToHTTP s fl)) = (\<not> effectiveSuccess s fl)"
proof -
  have "IsSuccess (FromHTTP (ToHTTP s fl)) = effectiveSuccess s fl \<and>
        IsFailure (FromHTTP (ToHTTP s fl)) = (\<not> effectiveSuccess s fl)"
  proof (cases "IsKnown s")
    case True
    from known_cases [OF this] True show ?thesis
      by (auto simp: effectiveSuccess_def ToHTTP_def FromHTTP_def IsSuccess_iff IsFailure_iff)
  next
    case False
    then show ?thesis
      by (auto simp: ToHTTP_unknown effectiveSuccess_def FromHTTP_def IsSuccess_iff IsFailure_iff)
  qed
  then show "IsSuccess (FromHTTP (ToHTTP s fl)) = effectiveSuccess s fl"
    and "IsFailure (FromHTTP (ToHTTP s fl)) = (\<not> effectiveSuccess s fl)" by auto
qed

lemma grpc_class:
  "IsSuccess (FromGRPC (ToGRPC s fl)) = effectiveSuccess s fl"
  "IsFailure (FromGRPC (ToGRPC s fl)) = (\<not> effectiveSuccess s fl)"
proof -
  have "IsSuccess (FromGRPC (ToGRPC s fl)) = effectiveSuccess s fl \<and>
        IsFailure (FromGRPC (ToGRPC s fl)) = (\<not> effectiveSuccess s fl)"
  proof (cases "IsKnown s")
    case True
    from known_cases [OF this] True show ?thesis
      by (auto simp: effectiveSuccess_def ToGRPC_def FromGRPC_def IsSuccess_iff IsFailure_iff
          grpc_code_defs)
  next
    case False
    then show ?thesis
      by (auto simp: ToGRPC_unknown effectiveSuccess_def FromGRPC_def IsSuccess_iff IsFailure_iff
          grpc_code_defs)
  qed
  then show "IsSuccess (FromGRPC (ToGRPC s fl)) = effectiveSuccess s fl"
    and "IsFailure (FromGRPC (ToGRPC s fl)) = (\<not> effectiveSuccess s fl)" by auto
qed

text \<open>A receiver that maps a status onto HTTP or gRPC and back reads the same
  success class the sender meant: for a vocabulary status its own class, for an
  application-defined status the isSuccessful flag, and failure when no flag was given.\<close>

theorem transports_preserve_class:
  "IsSuccess (FromHTTP (ToHTTP s fl)) = effectiveSuccess s fl \<and>
   IsFailure (FromHTTP (ToHTTP s fl)) = (\<not> effectiveSuccess s fl) \<and>
   IsSuccess (FromGRPC (ToGRPC s fl)) = effectiveSuccess s fl \<and>
   IsFailure (FromGRPC (ToGRPC s fl)) = (\<not> effectiveSuccess s fl)"
  by (simp add: http_class grpc_class)

lemma FromHTTP_generic: "FromHTTP 200 = StatusOk" "FromHTTP 500 = StatusUnexpectedError"
  by (simp_all add: FromHTTP_def)

lemma http_roundtrip_known:
  "IsKnown s \<Longrightarrow> FromHTTP (ToHTTP s fl) =
     (if s = StatusIgnored then StatusOk else if s = StatusUpdated then StatusDeleted else s)"
  by (drule known_cases) (auto simp: ToHTTP_def FromHTTP_def)

text \<open>Mapping a status to an HTTP code and back gives the status itself, except
  that ignored reads back as ok and updated as deleted (each pair shares a code), and an
  application-defined status reads back as ok or unexpected-error by its flag.\<close>

theorem http_status_roundtrip:
  "FromHTTP (ToHTTP s fl) =
    (if IsKnown s then
       if s = StatusIgnored then StatusOk else if s = StatusUpdated then StatusDeleted else s
     else if fl \<noteq> [] \<and> hd fl then StatusOk else StatusUnexpectedError)"
proof (cases "IsKnown s")
  case True
  then show ?thesis by (simp only: http_roundtrip_known if_True)
next
  case False
  then show ?thesis by (simp add: ToHTTP_unknown FromHTTP_generic)
qed

end
