(* ===== verification/Wire.thy ===== *)
theory Wire
  imports Status
begin

text \<open>
  The transport-neutral wire contract: the request and response envelopes, the RFC 9457 problem
  document and its registry (\<^verbatim>\<open>wire/envelope.go\<close>, \<^verbatim>\<open>wire/problem.go\<close>), and the reserved
  metadata names with the readers of the topic and the version (\<^verbatim>\<open>wire/metadata.go\<close>).
\<close>

section \<open>Envelopes and problem documents (wire/envelope.go)\<close>

record request =
  rq_Topic :: string
  rq_Headers :: headers
  rq_Body :: string

record response =
  rs_StatusCode :: string
  rs_Headers :: headers
  rs_Body :: string
  rs_IsSuccessful :: "bool option"

record problem_error =
  pe_Message :: string
  pe_Field :: string
  pe_Code :: string

record error_payload =
  ep_Type :: string
  ep_Title :: string
  ep_Status :: "int option"
  ep_Detail :: string
  ep_Instance :: string
  ep_BenzeneStatus :: string
  ep_Errors :: "problem_error list"

section \<open>The problem registry (wire/problem.go)\<close>

record problem_row =
  pr_slug :: string
  pr_title :: string
  pr_status :: int

definition ProblemBase :: string where
  "ProblemBase = ''https://benzene.app/problems/''"

definition problemRegistry :: "(string \<times> problem_row) list" where
  "problemRegistry =
    [(''bad-request'', \<lparr>pr_slug = ''bad-request'', pr_title = ''Bad request'', pr_status = 400\<rparr>),
     (''unauthorized'', \<lparr>pr_slug = ''unauthorized'', pr_title = ''Unauthorized'', pr_status = 401\<rparr>),
     (''forbidden'', \<lparr>pr_slug = ''forbidden'', pr_title = ''Forbidden'', pr_status = 403\<rparr>),
     (''not-found'', \<lparr>pr_slug = ''not-found'', pr_title = ''Not found'', pr_status = 404\<rparr>),
     (''conflict'', \<lparr>pr_slug = ''conflict'', pr_title = ''Conflict'', pr_status = 409\<rparr>),
     (''validation-error'',
        \<lparr>pr_slug = ''validation-error'', pr_title = ''Validation failed'', pr_status = 422\<rparr>),
     (''too-many-requests'',
        \<lparr>pr_slug = ''too-many-requests'', pr_title = ''Too many requests'', pr_status = 429\<rparr>),
     (''unexpected-error'',
        \<lparr>pr_slug = ''unexpected-error'', pr_title = ''Unexpected error'', pr_status = 500\<rparr>),
     (''not-implemented'',
        \<lparr>pr_slug = ''not-implemented'', pr_title = ''Not implemented'', pr_status = 501\<rparr>),
     (''service-unavailable'',
        \<lparr>pr_slug = ''service-unavailable'', pr_title = ''Service unavailable'', pr_status = 503\<rparr>),
     (''timeout'', \<lparr>pr_slug = ''timeout'', pr_title = ''Timeout'', pr_status = 504\<rparr>)]"

definition ProblemType :: "string \<Rightarrow> string" where
  "ProblemType status = (case map_of problemRegistry status of
      None \<Rightarrow> ''''
    | Some row \<Rightarrow> ProblemBase @ pr_slug row)"

definition ProblemTitle :: "string \<Rightarrow> string" where
  "ProblemTitle status =
     pr_title (goIndex problemRegistry status \<lparr>pr_slug = '''', pr_title = '''', pr_status = 0\<rparr>)"

definition ProblemHTTPStatus :: "string \<Rightarrow> int" where
  "ProblemHTTPStatus status = (case map_of problemRegistry status of
      None \<Rightarrow> 500
    | Some row \<Rightarrow> pr_status row)"

section \<open>Building and reading problem documents (wire/envelope.go)\<close>

definition NewProblem :: "string \<Rightarrow> problem_error list \<Rightarrow> error_payload" where
  "NewProblem status errors = \<lparr>
     ep_Type = ProblemType status,
     ep_Title = ProblemTitle status,
     ep_Status = None,
     ep_Detail = join '', '' (map pe_Message errors),
     ep_Instance = '''',
     ep_BenzeneStatus = status,
     ep_Errors = errors\<rparr>"

definition messageOnly :: "string \<Rightarrow> problem_error" where
  "messageOnly m = \<lparr>pe_Message = m, pe_Field = '''', pe_Code = ''''\<rparr>"

definition NewErrorPayload :: "string \<Rightarrow> string list \<Rightarrow> error_payload" where
  "NewErrorPayload status errors = NewProblem status (map messageOnly errors)"

definition Problems :: "error_payload \<Rightarrow> problem_error list" where
  "Problems e =
    (if ep_Errors e \<noteq> [] then filter (\<lambda>item. pe_Message item \<noteq> '''') (ep_Errors e)
     else if ep_Detail e \<noteq> '''' then [messageOnly (ep_Detail e)]
     else [])"

definition Messages :: "error_payload \<Rightarrow> string list" where
  "Messages e =
    (if ep_Errors e \<noteq> [] then
       map pe_Message (filter (\<lambda>item. pe_Message item \<noteq> '''') (ep_Errors e))
     else if ep_Detail e \<noteq> '''' then [ep_Detail e]
     else [])"

lemma Messages_Problems: "Messages e = map pe_Message (Problems e)"
  by (simp add: Messages_def Problems_def messageOnly_def)

lemma Problems_NewProblem:
  "Problems (NewProblem status errors) = filter (\<lambda>item. pe_Message item \<noteq> '''') errors"
  by (cases errors) (simp_all add: Problems_def NewProblem_def)

section \<open>Reserved names (wire/metadata.go)\<close>

definition DefaultTopicKey :: string where "DefaultTopicKey = ''topic''"
definition DefaultCorrelationKey :: string where "DefaultCorrelationKey = ''x-correlation-id''"
definition EmbeddedHeadersKey :: string where "EmbeddedHeadersKey = ''benzene-headers''"
definition DefaultVersionKey :: string where "DefaultVersionKey = ''benzene-version''"

record reserved_names =
  rn_TopicKey :: string
  rn_CorrelationKey :: string
  rn_VersionKey :: string

definition names_Topic :: "reserved_names \<Rightarrow> string" where
  "names_Topic n = (if rn_TopicKey n \<noteq> '''' then rn_TopicKey n else DefaultTopicKey)"

definition names_Correlation :: "reserved_names \<Rightarrow> string" where
  "names_Correlation n =
     (if rn_CorrelationKey n \<noteq> '''' then rn_CorrelationKey n else DefaultCorrelationKey)"

definition names_Version :: "reserved_names \<Rightarrow> string" where
  "names_Version n = (if rn_VersionKey n \<noteq> '''' then rn_VersionKey n else DefaultVersionKey)"

text \<open>The range over the headers stops at the first entry that matches.\<close>

fun ResolveVersion :: "headers \<Rightarrow> string \<Rightarrow> string" where
  "ResolveVersion [] key = ''''"
| "ResolveVersion ((name, value) # rest) key =
     (if value \<noteq> '''' \<and> equalFold name key then value else ResolveVersion rest key)"

text \<open>The loop of \<open>ResolveMetadataTopic\<close>, with its two accumulators.\<close>

fun resolveMetadata :: "headers \<Rightarrow> string \<Rightarrow> string \<Rightarrow> headers \<Rightarrow> string \<times> headers" where
  "resolveMetadata [] topicKey topic hs = (topic, hs)"
| "resolveMetadata ((name, value) # rest) topicKey topic hs =
     (if topic = '''' \<and> equalFold name topicKey
      then resolveMetadata rest topicKey value hs
      else resolveMetadata rest topicKey topic (AList.update name value hs))"

definition ResolveMetadataTopic :: "headers \<Rightarrow> string \<Rightarrow> string \<times> headers" where
  "ResolveMetadataTopic metadata topicKey = resolveMetadata metadata topicKey '''' []"

section \<open>Lemmas\<close>

text \<open>The registry has a row for exactly the failure statuses.\<close>

lemma problemRegistry_None: "map_of problemRegistry s = None \<longleftrightarrow> \<not> IsFailure s"
  by (auto simp: problemRegistry_def IsFailure_iff map_of_eq_None_iff status_defs)

lemma failure_rows:
  "list_all (\<lambda>s. ProblemHTTPStatus s = ToHTTP s [] \<and> ProblemType s = ProblemBase @ s)
     (map fst failureStatuses)"
  by code_simp

lemma IsFailure_mem: "IsFailure s \<Longrightarrow> s \<in> set (map fst failureStatuses)"
  by (simp add: IsFailure_iff failureStatuses_def)

lemma ProblemHTTPStatus_failure: "IsFailure s \<Longrightarrow> ProblemHTTPStatus s = ToHTTP s []"
  using failure_rows IsFailure_mem unfolding list_all_iff by blast

lemma ProblemHTTPStatus_other: "\<not> IsFailure s \<Longrightarrow> ProblemHTTPStatus s = 500"
  using problemRegistry_None [of s] by (simp add: ProblemHTTPStatus_def)

lemma ToHTTP_application: "\<not> IsKnown s \<Longrightarrow> ToHTTP s [] = 500"
  by (simp add: ToHTTP_unknown)

lemma ProblemType_failure: "IsFailure s \<Longrightarrow> ProblemType s = ProblemBase @ s"
  using failure_rows IsFailure_mem unfolding list_all_iff by blast

lemma ProblemType_other: "\<not> IsFailure s \<Longrightarrow> ProblemType s = ''''"
  using problemRegistry_None [of s] by (simp add: ProblemType_def)

text \<open>Reading the version: any enumeration of the headers gives the same answer.\<close>

lemma ResolveVersion_match:
  assumes "(n, v) \<in> set hs" and "v \<noteq> ''''" and "equalFold n key"
    and "\<And>n' v'. (n', v') \<in> set hs \<Longrightarrow> v' \<noteq> '''' \<Longrightarrow> equalFold n' key \<Longrightarrow> v' = v"
  shows "ResolveVersion hs key = v"
  using assms(1,4)
proof (induction hs)
  case (Cons e rest)
  obtain name x where e: "e = (name, x)" by (cases e)
  show ?case
  proof (cases "x \<noteq> '''' \<and> equalFold name key")
    case True
    then show ?thesis using Cons.prems(2) [of name x] by (simp add: e)
  next
    case False
    with Cons.prems(1) assms(2,3) have "(n, v) \<in> set rest" by (auto simp: e)
    then have "ResolveVersion rest key = v" by (rule Cons.IH) (rule Cons.prems(2), auto)
    with False show ?thesis by (auto simp: e)
  qed
qed simp

lemma ResolveVersion_none:
  "(\<And>n v. (n, v) \<in> set hs \<Longrightarrow> equalFold n key \<Longrightarrow> v = '''') \<Longrightarrow> ResolveVersion hs key = ''''"
  by (induction hs key rule: ResolveVersion.induct) auto

text \<open>Reading the topic: what the loop keeps once the topic entry is behind it.\<close>

lemma AList_update_fresh: "k \<notin> fst ` set m \<Longrightarrow> AList.update k v m = m @ [(k, v)]"
  by (induction m) auto

lemma resolveMetadata_headers:
  "goMap (hs @ m) \<Longrightarrow> \<not> hasKeyFold m key \<Longrightarrow> resolveMetadata m key topic hs = (topic, hs @ m)"
proof (induction m key topic hs rule: resolveMetadata.induct)
  case (2 name "value" rest topicKey topic hs)
  have fresh: "AList.update name value hs = hs @ [(name, value)]"
    using "2.prems"(1) by (intro AList_update_fresh) (auto simp: goMap_def)
  from "2.prems"(2) have nf: "\<not> equalFold name topicKey" and rest: "\<not> hasKeyFold rest topicKey"
    by (simp_all add: hasKeyFold_def)
  have "goMap (AList.update name value hs @ rest)"
    using "2.prems"(1) by (simp add: fresh)
  with "2.IH"(2) nf rest show ?case by (simp add: fresh)
qed simp

lemma resolveMetadata_topic:
  assumes "goMap (hs @ pre @ (k, t) # post)" and "equalFold k key"
    and "\<not> hasKeyFold pre key" and "\<not> hasKeyFold post key"
  shows "resolveMetadata (pre @ (k, t) # post) key '''' hs = (t, hs @ pre @ post)"
  using assms
proof (induction pre arbitrary: hs)
  case Nil
  then have "goMap (hs @ post)" by (auto simp: goMap_def)
  with Nil show ?case by (simp add: resolveMetadata_headers)
next
  case (Cons e pre)
  obtain name "value" where e: "e = (name, value)" by (cases e)
  have fresh: "AList.update name value hs = hs @ [(name, value)]"
    using Cons.prems(1) by (intro AList_update_fresh) (auto simp: goMap_def e)
  have "\<not> equalFold name key" and "\<not> hasKeyFold pre key"
    using Cons.prems(3) by (simp_all add: hasKeyFold_def e)
  then show ?case
    using Cons.IH [of "hs @ [(name, value)]"] Cons.prems by (simp add: e fresh)
qed

section \<open>Properties\<close>

text \<open>The problem registry and the HTTP table agree: a registry row exists for
  exactly the failure statuses, its type URI is the base followed by the status (so distinct
  failures have distinct types), and its code is the one \<open>ToHTTP\<close> sends for every status that is
  not a success.\<close>

theorem problem_registry_agrees:
  "(ProblemType s \<noteq> '''' \<longleftrightarrow> IsFailure s) \<and>
   ProblemType s = (if IsFailure s then ProblemBase @ s else '''') \<and>
   ProblemHTTPStatus s = (if IsSuccess s then 500 else ToHTTP s [])"
proof (cases "IsFailure s")
  case True
  then show ?thesis
    by (auto simp: ProblemType_failure ProblemHTTPStatus_failure ProblemBase_def)
next
  case False
  then show ?thesis
    by (auto simp: ProblemType_other ProblemHTTPStatus_other ToHTTP_application IsKnown_def)
qed

text \<open>A client that writes the topic under the configured key, next to headers
  none of which uses that key, is read back exactly by the inbound side: the topic it wrote and
  its headers, in whatever order the metadata map is visited.\<close>

theorem metadata_topic_roundtrip:
  assumes "goMap metadata" and "set metadata = insert (key, topic) (set hs)"
    and "\<not> hasKeyFold hs key" and "equalFold key key'"
  shows "fst (ResolveMetadataTopic metadata key') = topic \<and>
    set (snd (ResolveMetadataTopic metadata key')) = set hs"
proof -
  have "(key, topic) \<in> set metadata" using assms(2) by simp
  then obtain pre post where split: "metadata = pre @ (key, topic) # post"
    by (meson split_list)
  have "key \<notin> fst ` set pre \<union> fst ` set post"
    using assms(1) by (auto simp: split goMap_def)
  then have nin: "(key, topic) \<notin> set pre \<union> set post" by force
  have "(key, topic) \<notin> set hs"
    using assms(3) by (auto simp: hasKeyFold_def list_ex_iff)
  with assms(2) nin have parts: "set pre \<union> set post = set hs" by (auto simp: split)
  have "\<not> equalFold name key'" if "(name, v) \<in> set hs" for name v
    using assms(3,4) that
    by (auto simp: hasKeyFold_def list_ex_iff dest: equalFold_sym equalFold_trans)
  with parts have "\<not> hasKeyFold pre key'" and "\<not> hasKeyFold post key'"
    by (auto simp: hasKeyFold_def list_ex_iff)
  then have "ResolveMetadataTopic metadata key' = (topic, pre @ post)"
    using resolveMetadata_topic [of "[]" pre key topic post key'] assms(1,4)
    by (simp add: ResolveMetadataTopic_def split)
  with parts show ?thesis by simp
qed

lemma topic_fold: "equalFold ''Topic'' DefaultTopicKey" "equalFold ''topic'' DefaultTopicKey"
  "\<not> equalFold ''traceparent'' ''Topic''" "equalFold ''Benzene-Version'' DefaultVersionKey"
  "\<not> equalFold ''x-version'' DefaultVersionKey"
  by code_simp+

theorem metadata_topic_roundtrip_witness:
  "fst (ResolveMetadataTopic [(''traceparent'', ''00''), (''Topic'', ''greet'')] DefaultTopicKey)
     = ''greet''"
  by (rule metadata_topic_roundtrip
      [of "[(''traceparent'', ''00''), (''Topic'', ''greet'')]" "''Topic''" "''greet''"
         "[(''traceparent'', ''00'')]" DefaultTopicKey, THEN conjunct1])
    (auto simp: goMap_def hasKeyFold_def topic_fold)

text \<open>Reading the version takes the value of the one non-empty header whose name
  matches the version key in any case, and nothing when there is none, in whatever order the
  header map is visited.\<close>

theorem version_read_any_order:
  assumes "\<And>n v n' v'. (n, v) \<in> set hs \<Longrightarrow> (n', v') \<in> set hs \<Longrightarrow> v \<noteq> '''' \<Longrightarrow> v' \<noteq> '''' \<Longrightarrow>
      equalFold n key \<Longrightarrow> equalFold n' key \<Longrightarrow> v = v'"
    and "set hs' = set hs"
  shows "ResolveVersion hs' key = ResolveVersion hs key \<and>
    (if \<exists>n v. (n, v) \<in> set hs \<and> v \<noteq> '''' \<and> equalFold n key
     then ResolveVersion hs key \<noteq> '''' \<and>
       (\<exists>n. (n, ResolveVersion hs key) \<in> set hs \<and> equalFold n key)
     else ResolveVersion hs key = '''')"
proof (cases "\<exists>n v. (n, v) \<in> set hs \<and> v \<noteq> '''' \<and> equalFold n key")
  case True
  then obtain n v where m: "(n, v) \<in> set hs" "v \<noteq> ''''" "equalFold n key" by blast
  have "ResolveVersion hs key = v" and "ResolveVersion hs' key = v"
    using m assms by (auto intro!: ResolveVersion_match [of n v])
  with m show ?thesis by auto
next
  case False
  then have "ResolveVersion hs key = ''''" and "ResolveVersion hs' key = ''''"
    using assms(2) by (auto intro!: ResolveVersion_none)
  with False show ?thesis by auto
qed

theorem version_read_any_order_witness:
  "ResolveVersion [(''x-version'', ''v9''), (''Benzene-Version'', ''v2'')] DefaultVersionKey =
     ResolveVersion [(''Benzene-Version'', ''v2''), (''x-version'', ''v9'')] DefaultVersionKey"
  by (rule version_read_any_order [THEN conjunct1]) (auto simp: topic_fold)

text \<open>
  Two case variants of the topic key make the reading depend on the order in which Go happens to
  visit the map.
\<close>

lemma metadata_topic_order_dependent:
  "goMap [(''topic'', ''a''), (''Topic'', ''b'')] \<and> goMap [(''Topic'', ''b''), (''topic'', ''a'')] \<and>
   ResolveMetadataTopic [(''topic'', ''a''), (''Topic'', ''b'')] DefaultTopicKey =
     (''a'', [(''Topic'', ''b'')]) \<and>
   ResolveMetadataTopic [(''Topic'', ''b''), (''topic'', ''a'')] DefaultTopicKey =
     (''b'', [(''topic'', ''a'')])"
  by (simp add: goMap_def ResolveMetadataTopic_def topic_fold)

end
