(* ===== verification/Results.thy ===== *)
theory Results
  imports Wire
begin

text \<open>
  Handler results (\<^verbatim>\<open>result.go\<close>): the result value, its type-erased view \<^verbatim>\<open>ResultInfo\<close> with the
  optional interfaces a binding asks for, and the constructors, whose panics are outcomes.
\<close>

section \<open>Values of type any\<close>

text \<open>
  An \<^verbatim>\<open>any\<close>: nil, the two byte types that \<^verbatim>\<open>convertRequest\<close> reads, or a value of any other Go type,
  given by the type's name and the value.
\<close>

datatype 'v any = NilAny | ByteSlice string | RawMessage string | Val string 'v

section \<open>Results (result.go)\<close>

record 'v result =
  r_Status :: status
  r_Payload :: "'v any option"
  r_Errors :: "problem_error list"
  r_successful :: "bool option"
  r_problem :: "error_payload option"
  r_unmatched :: bool

definition errorsFromMessages :: "string list \<Rightarrow> problem_error list" where
  "errorsFromMessages messages = map messageOnly messages"

definition IsSuccessful :: "'v result \<Rightarrow> bool" where
  "IsSuccessful r = (case r_successful r of
      Some b \<Rightarrow> b
    | None \<Rightarrow> \<not> IsFailure (r_Status r))"

text \<open>
  A \<^verbatim>\<open>ResultInfo\<close>: a \<^verbatim>\<open>Result[any]\<close>, a \<^verbatim>\<open>Result[T]\<close> of a named type, or an implementation from
  elsewhere, which has the three methods of the interface and offers the optional ones or not.
\<close>

record 'v foreign =
  fr_Status :: status
  fr_Errors :: "string list"
  fr_Payload :: "'v any"
  fr_IsSuccessful :: "bool option"
  fr_Problems :: "problem_error list option"
  fr_Document :: "error_payload option option"

datatype 'v resultInfo =
    ResultAny "'v result"
  | ResultT string "'v result"
  | OtherResult "'v foreign"

fun ResultStatus :: "'v resultInfo \<Rightarrow> status" where
  "ResultStatus (ResultAny r) = r_Status r"
| "ResultStatus (ResultT t r) = r_Status r"
| "ResultStatus (OtherResult f) = fr_Status f"

fun ResultErrors :: "'v resultInfo \<Rightarrow> string list" where
  "ResultErrors (ResultAny r) = map pe_Message (r_Errors r)"
| "ResultErrors (ResultT t r) = map pe_Message (r_Errors r)"
| "ResultErrors (OtherResult f) = fr_Errors f"

fun ResultPayload :: "'v resultInfo \<Rightarrow> 'v any" where
  "ResultPayload (ResultAny r) = (case r_Payload r of None \<Rightarrow> NilAny | Some p \<Rightarrow> p)"
| "ResultPayload (ResultT t r) = (case r_Payload r of None \<Rightarrow> NilAny | Some p \<Rightarrow> p)"
| "ResultPayload (OtherResult f) = fr_Payload f"

text \<open>The optional interfaces, as the type assertions that look for them: \<open>None\<close> when absent.\<close>

fun asSuccessInfo :: "'v resultInfo \<Rightarrow> bool option" where
  "asSuccessInfo (ResultAny r) = Some (IsSuccessful r)"
| "asSuccessInfo (ResultT t r) = Some (IsSuccessful r)"
| "asSuccessInfo (OtherResult f) = fr_IsSuccessful f"

fun asProblemInfo :: "'v resultInfo \<Rightarrow> problem_error list option" where
  "asProblemInfo (ResultAny r) = Some (r_Errors r)"
| "asProblemInfo (ResultT t r) = Some (r_Errors r)"
| "asProblemInfo (OtherResult f) = fr_Problems f"

fun asProblemDocumentInfo :: "'v resultInfo \<Rightarrow> error_payload option option" where
  "asProblemDocumentInfo (ResultAny r) = Some (r_problem r)"
| "asProblemDocumentInfo (ResultT t r) = Some (r_problem r)"
| "asProblemDocumentInfo (OtherResult f) = fr_Document f"

definition ProblemsOf :: "'v resultInfo \<Rightarrow> problem_error list" where
  "ProblemsOf result = (case asProblemInfo result of
      Some problems \<Rightarrow> problems
    | None \<Rightarrow> errorsFromMessages (ResultErrors result))"

section \<open>Constructors\<close>

definition resultOf :: "status \<Rightarrow> 'v result" where
  "resultOf s = \<lparr>r_Status = s, r_Payload = None, r_Errors = [], r_successful = None,
     r_problem = None, r_unmatched = False\<rparr>"

definition success :: "status \<Rightarrow> 'v any \<Rightarrow> 'v result" where
  "success s payload = (resultOf s)\<lparr>r_Payload := Some payload\<rparr>"

definition Ok :: "'v any \<Rightarrow> 'v result" where "Ok payload = success StatusOk payload"
definition Created :: "'v any \<Rightarrow> 'v result" where "Created payload = success StatusCreated payload"
definition Accepted :: "'v any \<Rightarrow> 'v result" where "Accepted payload = success StatusAccepted payload"
definition Updated :: "'v any \<Rightarrow> 'v result" where "Updated payload = success StatusUpdated payload"
definition Deleted :: "'v any \<Rightarrow> 'v result" where "Deleted payload = success StatusDeleted payload"
definition Ignored :: "'v any \<Rightarrow> 'v result" where "Ignored payload = success StatusIgnored payload"

definition FailWith :: "status \<Rightarrow> problem_error list \<Rightarrow> 'v result outcome" where
  "FailWith s errors =
    (if IsSuccess s then Panic (''benzene: FailWith called with a success-class status '' @ s)
     else Return ((resultOf s)\<lparr>r_Errors := errors, r_successful := Some False\<rparr>))"

definition Fail :: "status \<Rightarrow> string list \<Rightarrow> 'v result outcome" where
  "Fail s errors =
    (if IsSuccess s then Panic (''benzene: Fail called with a success-class status '' @ s)
     else FailWith s (errorsFromMessages errors))"

definition ProblemResult :: "error_payload \<Rightarrow> 'v result outcome" where
  "ProblemResult problem =
    (if ep_BenzeneStatus problem = '''' then
       Panic (''benzene: ProblemResult requires problem.BenzeneStatus - a problem document with '' @
         ''no status cannot be classified'')
     else Return ((resultOf (ep_BenzeneStatus problem))\<lparr>r_Errors := ep_Errors problem,
       r_successful := Some False, r_problem := Some problem\<rparr>))"

definition ValidationErrorWith :: "problem_error list \<Rightarrow> 'v result outcome" where
  "ValidationErrorWith errors = FailWith StatusValidationError errors"
definition BadRequest :: "string list \<Rightarrow> 'v result outcome" where
  "BadRequest errors = Fail StatusBadRequest errors"
definition ValidationError :: "string list \<Rightarrow> 'v result outcome" where
  "ValidationError errors = Fail StatusValidationError errors"
definition Unauthorized :: "string list \<Rightarrow> 'v result outcome" where
  "Unauthorized errors = Fail StatusUnauthorized errors"
definition Forbidden :: "string list \<Rightarrow> 'v result outcome" where
  "Forbidden errors = Fail StatusForbidden errors"
definition NotFound :: "string list \<Rightarrow> 'v result outcome" where
  "NotFound errors = Fail StatusNotFound errors"
definition Conflict :: "string list \<Rightarrow> 'v result outcome" where
  "Conflict errors = Fail StatusConflict errors"
definition TooManyRequests :: "string list \<Rightarrow> 'v result outcome" where
  "TooManyRequests errors = Fail StatusTooManyRequests errors"
definition Timeout :: "string list \<Rightarrow> 'v result outcome" where
  "Timeout errors = Fail StatusTimeout errors"
definition NotImplemented :: "string list \<Rightarrow> 'v result outcome" where
  "NotImplemented errors = Fail StatusNotImplemented errors"
definition ServiceUnavailable :: "string list \<Rightarrow> 'v result outcome" where
  "ServiceUnavailable errors = Fail StatusServiceUnavailable errors"
definition UnexpectedError :: "string list \<Rightarrow> 'v result outcome" where
  "UnexpectedError errors = Fail StatusUnexpectedError errors"

section \<open>Lemmas\<close>

lemmas fail_constructor_defs = BadRequest_def ValidationError_def Unauthorized_def Forbidden_def
  NotFound_def Conflict_def TooManyRequests_def Timeout_def NotImplemented_def
  ServiceUnavailable_def UnexpectedError_def

lemmas success_constructor_defs = Ok_def Created_def Accepted_def Updated_def Deleted_def Ignored_def

text \<open>The failed result with plain messages, which \<open>Fail\<close> returns for every non-success status.\<close>

definition failed :: "status \<Rightarrow> string list \<Rightarrow> 'v result" where
  "failed s errors =
     (resultOf s)\<lparr>r_Errors := map messageOnly errors, r_successful := Some False\<rparr>"

lemma Fail_Return: "\<not> IsSuccess s \<Longrightarrow> Fail s errors = Return (failed s errors)"
  by (simp add: Fail_def FailWith_def failed_def errorsFromMessages_def)

lemma Fail_eq_Return: "Fail s errors = Return r \<longleftrightarrow> \<not> IsSuccess s \<and> r = failed s errors"
  by (cases "IsSuccess s") (auto simp: Fail_Return, simp add: Fail_def)

lemma FailWith_Return:
  "\<not> IsSuccess s \<Longrightarrow>
    FailWith s errors = Return ((resultOf s)\<lparr>r_Errors := errors, r_successful := Some False\<rparr>)"
  by (simp add: FailWith_def)

lemma fail_constructors [simp]:
  "BadRequest errors = Return (failed StatusBadRequest errors)"
  "ValidationError errors = Return (failed StatusValidationError errors)"
  "Unauthorized errors = Return (failed StatusUnauthorized errors)"
  "Forbidden errors = Return (failed StatusForbidden errors)"
  "NotFound errors = Return (failed StatusNotFound errors)"
  "Conflict errors = Return (failed StatusConflict errors)"
  "TooManyRequests errors = Return (failed StatusTooManyRequests errors)"
  "Timeout errors = Return (failed StatusTimeout errors)"
  "NotImplemented errors = Return (failed StatusNotImplemented errors)"
  "ServiceUnavailable errors = Return (failed StatusServiceUnavailable errors)"
  "UnexpectedError errors = Return (failed StatusUnexpectedError errors)"
  by (simp_all add: fail_constructor_defs Fail_Return)

lemma failed_simps [simp]:
  "r_Status (failed s errors) = s" "r_Payload (failed s errors) = None"
  "r_Errors (failed s errors) = map messageOnly errors"
  "r_successful (failed s errors) = Some False" "r_problem (failed s errors) = None"
  "r_unmatched (failed s errors) = False" "IsSuccessful (failed s errors) = False"
  by (simp_all add: failed_def resultOf_def IsSuccessful_def)

lemma resultOf_simps [simp]:
  "r_Status (resultOf s) = s" "r_Payload (resultOf s) = None" "r_Errors (resultOf s) = []"
  "r_successful (resultOf s) = None" "r_problem (resultOf s) = None"
  "r_unmatched (resultOf s) = False" "IsSuccessful (resultOf s) = (\<not> IsFailure s)"
  by (simp_all add: resultOf_def IsSuccessful_def)

lemma success_simps [simp]:
  "r_Status (success s p) = s" "r_Payload (success s p) = Some p" "r_Errors (success s p) = []"
  "IsSuccessful (success s p) = (\<not> IsFailure s)"
  by (simp_all add: success_def resultOf_def IsSuccessful_def)

lemma pe_Message_messageOnly [simp]: "pe_Message (messageOnly m) = m"
  by (simp add: messageOnly_def)

section \<open>What the constructors can build\<close>

text \<open>
  The results an application can build: a literal with a status and perhaps a payload and errors,
  and what the constructors return. The three unexported fields are set by constructors only.
\<close>

inductive constructed :: "'v result \<Rightarrow> bool" where
  literal: "constructed ((resultOf s)\<lparr>r_Payload := p, r_Errors := es\<rparr>)"
| fail: "Fail s ms = Return r \<Longrightarrow> constructed r"
| fail_with: "FailWith s es = Return r \<Longrightarrow> constructed r"
| problem: "ProblemResult p = Return r \<Longrightarrow> constructed r"

lemma constructed_cases:
  assumes "constructed r"
  shows "(r_successful r = None \<and> r_problem r = None) \<or>
    (r_successful r = Some False \<and> r_problem r = None \<and> \<not> IsSuccess (r_Status r)) \<or>
    (\<exists>p. r_successful r = Some False \<and> r_problem r = Some p \<and>
       r_Status r = ep_BenzeneStatus p \<and> ep_BenzeneStatus p \<noteq> '''')"
  using assms
proof cases
  case (fail s ms)
  then show ?thesis by (auto simp: Fail_def FailWith_def split: if_splits)
next
  case (fail_with s es)
  then show ?thesis by (auto simp: FailWith_def split: if_splits)
next
  case (problem p)
  then show ?thesis by (auto simp: ProblemResult_def split: if_splits)
qed auto

text \<open>A result that carries no authored problem document never contradicts its
  status: with a status of the vocabulary it is successful exactly when the status is a success,
  and \<open>Fail\<close> and \<open>FailWith\<close> return exactly for the statuses that are not successes, always with
  an unsuccessful result, application-defined statuses included.\<close>

theorem constructed_result_consistent:
  assumes "constructed r" and "r_problem r = None"
  shows "(IsKnown (r_Status r) \<longrightarrow> IsSuccessful r = IsSuccess (r_Status r)) \<and>
    (panics (Fail s ms :: 'v result outcome) \<longleftrightarrow> IsSuccess s) \<and>
    (\<forall>f :: 'v result. Fail s ms = Return f \<or> FailWith s es = Return f \<longrightarrow>
        r_Status f = s \<and> \<not> IsSuccessful f)"
proof (intro conjI)
  show "IsKnown (r_Status r) \<longrightarrow> IsSuccessful r = IsSuccess (r_Status r)"
    using constructed_cases [OF assms(1)] assms(2)
    by (auto simp: IsSuccessful_def IsKnown_def dest: status_class_disjoint)
  show "panics (Fail s ms :: 'v result outcome) \<longleftrightarrow> IsSuccess s"
    by (cases "IsSuccess s") (simp_all add: Fail_Return, simp add: Fail_def)
  show "\<forall>f :: 'v result. Fail s ms = Return f \<or> FailWith s es = Return f \<longrightarrow>
        r_Status f = s \<and> \<not> IsSuccessful f"
    by (auto simp: Fail_def FailWith_def IsSuccessful_def split: if_splits)
qed

theorem constructed_result_consistent_witness:
  "IsSuccessful ((resultOf StatusCreated)\<lparr>r_Payload := Some (Val ''int'' (7 :: nat)),
     r_Errors := []\<rparr>) = IsSuccess StatusCreated"
  (is "IsSuccessful ?r = _")
proof -
  have built: "constructed ?r" by (rule constructed.literal)
  have plain: "r_problem ?r = None" by simp
  from constructed_result_consistent [OF built plain, THEN conjunct1]
  show ?thesis by (simp add: IsKnown_def)
qed

text \<open>
  \<open>ProblemResult\<close> has no such guard: an authored document whose status is a success builds an
  unsuccessful result with a success status.
\<close>

lemma ProblemResult_contradiction:
  "\<exists>r :: nat result. ProblemResult ((NewProblem StatusOk [])) = Return r \<and>
     IsSuccess (r_Status r) \<and> \<not> IsSuccessful r"
  by (simp add: ProblemResult_def NewProblem_def IsSuccessful_def)
    (simp add: StatusOk_def)

end
