(* ===== verification/Pipeline.thy ===== *)
theory Pipeline
  imports Results
begin

text \<open>
  Topics (\<^verbatim>\<open>topic.go\<close>), the invocation context (\<^verbatim>\<open>context.go\<close>) and the middleware pipeline
  (\<^verbatim>\<open>middleware.go\<close>). A \<^verbatim>\<open>*InvocationContext\<close> is shared by everything that runs in one
  invocation, so it is part of a state that each middleware takes and returns, together with the
  clock and whatever else outside the invocation the middleware and the handlers read and write.
\<close>

section \<open>Topics (topic.go)\<close>

datatype topic = Topic (ID: string) (Version: string)

definition NewTopic :: "string \<Rightarrow> topic" where
  "NewTopic i = Topic i ''''"

definition WithVersion :: "topic \<Rightarrow> string \<Rightarrow> topic" where
  "WithVersion t version = Topic (ID t) version"

definition topicString :: "topic \<Rightarrow> string" where
  "topicString t = (if Version t = '''' then ID t else ID t @ ''@'' @ Version t)"

lemma topic_accessors [simp]:
  "ID (NewTopic i) = i" "Version (NewTopic i) = ''''"
  "ID (WithVersion t v) = ID t" "Version (WithVersion t v) = v"
  by (simp_all add: NewTopic_def WithVersion_def)

text \<open>Topics are listed by id, then by version, both compared bytewise.\<close>

definition topicLess :: "topic \<Rightarrow> topic \<Rightarrow> bool" where
  "topicLess t u = (if ID t \<noteq> ID u then ID t < ID u else Version t < Version u)"

instantiation topic :: linorder
begin

definition less_topic :: "topic \<Rightarrow> topic \<Rightarrow> bool" where "less_topic = topicLess"

definition less_eq_topic :: "topic \<Rightarrow> topic \<Rightarrow> bool" where
  "less_eq_topic t u \<longleftrightarrow> topicLess t u \<or> t = u"

instance
proof
  fix t u :: topic
  have "topicLess t u \<or> t = u \<or> topicLess u t"
    unfolding topicLess_def by (metis neqE topic.expand)
  then show "t \<le> u \<or> u \<le> t" by (auto simp: less_eq_topic_def)
qed (auto simp: less_eq_topic_def less_topic_def topicLess_def split: if_splits)

end

section \<open>The invocation (context.go)\<close>

text \<open>
  The key a service is registered under: a string constant, or a value of an unexported
  zero-size type, known by the type's qualified name.
\<close>

datatype service_key = KeyString string | KeyType string

type_synonym 'v scope = "(service_key \<times> 'v any) list"

record 'v invocation =
  ic_Topic :: topic
  ic_Headers :: headers
  ic_Request :: "'v any"
  ic_Result :: "'v resultInfo option"
  ic_Scope :: "'v scope option"
  ic_ResponseHeaders :: headers

record ('v, 'w) st =
  ic :: "'v invocation"
  clock :: int
  env :: 'w

definition NewInvocationContext ::
  "topic \<Rightarrow> headers \<Rightarrow> 'v any \<Rightarrow> 'v scope option \<Rightarrow> 'v invocation" where
  "NewInvocationContext topic hs request scope =
    \<lparr>ic_Topic = topic, ic_Headers = hs, ic_Request = request, ic_Result = None,
     ic_Scope = scope, ic_ResponseHeaders = []\<rparr>"

definition ic_SetResponseHeader :: "'v invocation \<Rightarrow> string \<Rightarrow> string \<Rightarrow> 'v invocation" where
  "ic_SetResponseHeader i name v =
     i\<lparr>ic_ResponseHeaders := AList.update (toLower name) v (ic_ResponseHeaders i)\<rparr>"

definition contextWithInvocation :: "ctx \<Rightarrow> ctx" where
  "contextWithInvocation c = c\<lparr>carries_invocation := True\<rparr>"

definition ContextWithScope :: "ctx \<Rightarrow> ctx" where
  "ContextWithScope c = c\<lparr>carries_scope := True\<rparr>"

text \<open>The handler-side setter: the header is dropped when the context carries no invocation.\<close>

definition SetResponseHeader ::
  "ctx \<Rightarrow> string \<Rightarrow> string \<Rightarrow> ('v, 'w) st \<Rightarrow> bool \<times> ('v, 'w) st" where
  "SetResponseHeader c name v s =
    (if carries_invocation c then (True, s\<lparr>ic := ic_SetResponseHeader (ic s) name v\<rparr>)
     else (False, s))"

section \<open>Middleware (middleware.go)\<close>

type_synonym ('v, 'w) run = "('v, 'w) st \<Rightarrow> goerr option outcome \<times> ('v, 'w) st"
type_synonym ('v, 'w) continuation = "ctx \<Rightarrow> ('v, 'w) run"
type_synonym ('v, 'w) middleware = "ctx \<Rightarrow> ('v, 'w) continuation \<Rightarrow> ('v, 'w) run"

text \<open>
  \<open>runFrom\<close> runs the middleware at an index and hands it the rest of the pipeline as its next.
  A pipeline value is the list of its middlewares; \<open>Run\<close> takes a possibly nil one.
\<close>

function runFrom :: "('v, 'w) middleware list \<Rightarrow> nat \<Rightarrow> ('v, 'w) continuation" where
  "runFrom ms index =
    (if length ms \<le> index then (\<lambda>c s. (Return None, s))
     else (\<lambda>c. (ms ! index) c (runFrom ms (Suc index))))"
  by pat_completeness auto
termination
  by (relation "measure (\<lambda>(ms, index). length ms - index)") auto

declare runFrom.simps [simp del]

definition noPipelineError :: goerr where
  "noPipelineError = ErrNew (''benzene: no pipeline configured on this ApplicationBuilder - call '' @
    ''builder.UseDefaultPipeline() (router only) or builder.UsePipeline(...) in App.Configure, '' @
    ''or build the app with App.Run, which installs the default pipeline when Configure sets none'')"

definition NewPipeline :: "('v, 'w) middleware list \<Rightarrow> ('v, 'w) middleware list" where
  "NewPipeline middlewares = middlewares"

definition Run :: "('v, 'w) middleware list option \<Rightarrow> ('v, 'w) continuation" where
  "Run p = (case p of
      None \<Rightarrow> (\<lambda>c s. (Return (Some noPipelineError), s))
    | Some ms \<Rightarrow> runFrom ms 0)"

section \<open>Lemmas\<close>

text \<open>The abstract reading of a pipeline: an onion, the first middleware outermost.\<close>

definition onion :: "('v, 'w) middleware list \<Rightarrow> ('v, 'w) continuation \<Rightarrow> ('v, 'w) continuation"
where
  "onion ms final = foldr (\<lambda>mw next c. mw c next) ms final"

definition done_run :: "('v, 'w) continuation" where
  "done_run c s = (Return None, s)"

lemma onion_simps [simp]:
  "onion [] final = final"
  "onion (mw # ms) final = (\<lambda>c. mw c (onion ms final))"
  by (simp_all add: onion_def)

lemma onion_append: "onion (ms @ ns) final = onion ms (onion ns final)"
  by (simp add: onion_def)

lemma runFrom_onion: "runFrom ms index = onion (drop index ms) done_run"
proof (induction ms index rule: runFrom.induct)
  case (1 ms index)
  show ?case
  proof (cases "length ms \<le> index")
    case True
    then show ?thesis by (simp add: runFrom.simps [of ms index] done_run_def fun_eq_iff)
  next
    case False
    then have "drop index ms = ms ! index # drop (Suc index) ms"
      by (simp add: Cons_nth_drop_Suc)
    with False 1 show ?thesis by (simp add: runFrom.simps [of ms index])
  qed
qed

lemma Run_onion: "Run (Some ms) = onion ms done_run"
  by (simp add: Run_def runFrom_onion)

text \<open>A middleware that never calls next.\<close>

definition terminates_pipeline :: "('v, 'w) middleware \<Rightarrow> bool" where
  "terminates_pipeline mw \<longleftrightarrow> (\<forall>c n n'. mw c n = mw c n')"

lemma SetResponseHeader_frame:
  "ic_Result (ic (snd (SetResponseHeader c n v s))) = ic_Result (ic s)"
  "ic_Topic (ic (snd (SetResponseHeader c n v s))) = ic_Topic (ic s)"
  by (simp_all add: SetResponseHeader_def ic_SetResponseHeader_def)

section \<open>Properties\<close>

text \<open>Running a pipeline is running the onion of its middlewares: the first
  registered is outermost, each gets the rest as its next, and running two lists of middlewares
  one after the other is running the first around the second; what follows a middleware that
  does not call next never runs.\<close>

theorem pipeline_is_onion:
  "Run (Some (NewPipeline (ms @ ns))) = onion ms (Run (Some (NewPipeline ns))) \<and>
   Run (Some (NewPipeline (mw # ns))) = (\<lambda>c. mw c (Run (Some (NewPipeline ns)))) \<and>
   (terminates_pipeline mw \<longrightarrow>
      Run (Some (NewPipeline (ms @ mw # ns))) = Run (Some (NewPipeline (ms @ [mw])))) \<and>
   Run None c s = (Return (Some noPipelineError), s)"
proof (intro conjI impI)
  show "Run (Some (NewPipeline (ms @ ns))) = onion ms (Run (Some (NewPipeline ns)))"
    by (simp add: NewPipeline_def Run_onion onion_append)
  show "Run (Some (NewPipeline (mw # ns))) = (\<lambda>c. mw c (Run (Some (NewPipeline ns))))"
    by (simp add: NewPipeline_def Run_onion)
  assume "terminates_pipeline mw"
  then have "(\<lambda>c. mw c (onion ns done_run)) = (\<lambda>c. mw c done_run)"
    by (auto simp: terminates_pipeline_def)
  then show "Run (Some (NewPipeline (ms @ mw # ns))) = Run (Some (NewPipeline (ms @ [mw])))"
    by (simp add: NewPipeline_def Run_onion onion_append)
qed (simp add: Run_def)

text \<open>The short-circuit half of the property at a concrete middleware.\<close>

theorem pipeline_is_onion_witness:
  "Run (Some (NewPipeline
      ((\<lambda>c n (s :: (nat, unit) st). (Return None, s)) # [\<lambda>c n s. (Panic ''reached'', s)]))) =
   Run (Some (NewPipeline [\<lambda>c n (s :: (nat, unit) st). (Return None, s)]))"
proof -
  have stops: "terminates_pipeline (\<lambda>c n (s :: (nat, unit) st). (Return None, s))"
    by (simp add: terminates_pipeline_def)
  show ?thesis
    using pipeline_is_onion [THEN conjunct2, THEN conjunct2, THEN conjunct1, THEN mp, OF stops,
        of "[]" "[\<lambda>c n s. (Panic ''reached'', s)]"]
    by simp
qed

end
