(* ===== verification/Registry.thy ===== *)
theory Registry
  imports Pipeline
begin

text \<open>
  Explicit handler registration and topic lookup (\<^verbatim>\<open>registry.go\<close>). A \<^verbatim>\<open>Registry\<close> is the record of
  its three maps; a nil map and an empty one are the same list, so the lazy allocation in
  \<^verbatim>\<open>Register\<close> has nothing to do here. What the type parameters of a handler bring with them
  (the type assertion to the request type, its JSON decoding, the names of the types) is the
  argument \<open>reqtype\<close>: those types are the application's.
\<close>

section \<open>Handlers and request conversion\<close>

record ('v, 'q) reqtype =
  rt_name :: string
  rt_assert :: "'v any \<Rightarrow> 'q option"
  rt_unmarshal :: "string \<Rightarrow> goerr + 'q"

type_synonym ('q, 'v, 'w) handler =
  "ctx \<Rightarrow> 'q \<Rightarrow> ('v, 'w) st \<Rightarrow> 'v result outcome \<times> ('v, 'w) st"

type_synonym ('v, 'w) erasedHandler =
  "ctx \<Rightarrow> 'v any \<Rightarrow> ('v, 'w) st \<Rightarrow> (goerr + 'v resultInfo) outcome \<times> ('v, 'w) st"

fun anyTypeName :: "'v any \<Rightarrow> string" where
  "anyTypeName NilAny = ''<nil>''"
| "anyTypeName (ByteSlice d) = ''[]uint8''"
| "anyTypeName (RawMessage d) = ''json.RawMessage''"
| "anyTypeName (Val t v) = t"

definition unmarshalInto :: "('v, 'q) reqtype \<Rightarrow> string \<Rightarrow> goerr + 'q" where
  "unmarshalInto T data = (case rt_unmarshal T data of
      Inl err \<Rightarrow> Inl (ErrWrap (''benzene: failed to unmarshal request body into '' @ rt_name T @
        '': '' @ errorText err) [err])
    | Inr typed \<Rightarrow> Inr typed)"

definition convertRequest :: "('v, 'q) reqtype \<Rightarrow> 'v any \<Rightarrow> goerr + 'q" where
  "convertRequest T raw = (case rt_assert T raw of
      Some typed \<Rightarrow> Inr typed
    | None \<Rightarrow> (case raw of
          ByteSlice v \<Rightarrow> unmarshalInto T v
        | RawMessage v \<Rightarrow> unmarshalInto T v
        | _ \<Rightarrow> Inl (ErrNew (''benzene: cannot convert request of type '' @ anyTypeName raw @
            '' into '' @ rt_name T))))"

text \<open>The \<^verbatim>\<open>Result[TRes]\<close> a handler returns, as the \<^verbatim>\<open>ResultInfo\<close> the closure hands on.\<close>

definition asResultInfo :: "string \<Rightarrow> 'v result \<Rightarrow> 'v resultInfo" where
  "asResultInfo resType r = (if resType = ''interface {}'' then ResultAny r else ResultT resType r)"

definition eraseHandler ::
  "topic \<Rightarrow> ('v, 'q) reqtype \<Rightarrow> string \<Rightarrow> ('q, 'v, 'w) handler \<Rightarrow> ('v, 'w) erasedHandler" where
  "eraseHandler topic T resType handler = (\<lambda>c raw s.
     case convertRequest T raw of
       Inl err \<Rightarrow> (Return (Inl (ErrWrap
           (''benzene: topic '' @ goQuote (topicString topic) @ '': '' @ errorText err) [err])), s)
     | Inr typedReq \<Rightarrow>
         andThen (handler c typedReq s) (\<lambda>r s'. (Return (Inr (asResultInfo resType r)), s')))"

section \<open>The registry\<close>

record 'h handlerRegistration =
  hr_handler :: 'h
  hr_request :: string
  hr_response :: string

record 'h registry =
  reg_handlers :: "(topic \<times> 'h handlerRegistration) list"
  reg_versions :: "(string \<times> int) list"
  reg_defaults :: "(string \<times> string) list"

definition NewRegistry :: "'h registry" where
  "NewRegistry = \<lparr>reg_handlers = [], reg_versions = [], reg_defaults = []\<rparr>"

record registerConfig =
  asDefault :: bool

type_synonym registerOption = "registerConfig \<Rightarrow> registerConfig"

definition AsDefault :: registerOption where
  "AsDefault c = c\<lparr>asDefault := True\<rparr>"

text \<open>
  \<open>register\<close> is the body of \<^verbatim>\<open>Register\<close> once the handler is erased and the types are named;
  \<open>Register\<close> is the generic function itself.
\<close>

definition register ::
  "'h registry \<Rightarrow> topic \<Rightarrow> 'h handlerRegistration \<Rightarrow> registerOption list \<Rightarrow> goerr + 'h registry" where
  "register r topic reg opts =
    (let cfg = fold (\<lambda>opt c. opt c) opts \<lparr>asDefault = False\<rparr>;
         declareDefault = (asDefault cfg \<and> Version topic \<noteq> '''') in
     if hasKey (reg_handlers r) topic then
       Inl (ErrNew (''benzene: handler already registered for topic '' @
         goQuote (topicString topic)))
     else if hasKey (reg_defaults r) (ID topic) \<and> declareDefault then
       Inl (ErrNew (''benzene: topic '' @ goQuote (ID topic) @ '' already declares version '' @
         goQuote (goIndex (reg_defaults r) (ID topic) '''') @
         '' as its default; cannot also declare '' @ goQuote (Version topic)))
     else Inr (r\<lparr>reg_handlers := AList.update topic reg (reg_handlers r),
       reg_versions := AList.update (ID topic) (goIndex (reg_versions r) (ID topic) 0 + 1)
         (reg_versions r),
       reg_defaults := (if declareDefault
         then AList.update (ID topic) (Version topic) (reg_defaults r)
         else reg_defaults r)\<rparr>))"

definition Register ::
  "('v, 'w) erasedHandler registry \<Rightarrow> topic \<Rightarrow> ('v, 'q) reqtype \<Rightarrow> string \<Rightarrow> ('q, 'v, 'w) handler \<Rightarrow>
   registerOption list \<Rightarrow> goerr + ('v, 'w) erasedHandler registry" where
  "Register r topic T resType handler opts =
    register r topic \<lparr>hr_handler = eraseHandler topic T resType handler,
      hr_request = rt_name T, hr_response = resType\<rparr> opts"

definition MustRegister ::
  "('v, 'w) erasedHandler registry \<Rightarrow> topic \<Rightarrow> ('v, 'q) reqtype \<Rightarrow> string \<Rightarrow> ('q, 'v, 'w) handler \<Rightarrow>
   registerOption list \<Rightarrow> ('v, 'w) erasedHandler registry outcome" where
  "MustRegister r topic T resType handler opts =
    (case Register r topic T resType handler opts of
       Inl err \<Rightarrow> Panic (errorText err)
     | Inr r' \<Rightarrow> Return r')"

datatype selection = selected | unknownTopic | unknownVersion | noDefault

text \<open>A nil handler is \<open>None\<close>, whatever the selection says.\<close>

definition lookup :: "'h registry \<Rightarrow> topic \<Rightarrow> 'h option \<times> selection" where
  "lookup r topic = (case map_of (reg_handlers r) topic of
      Some reg \<Rightarrow> (Some (hr_handler reg), selected)
    | None \<Rightarrow>
        if goIndex (reg_versions r) (ID topic) 0 = 0 then (None, unknownTopic)
        else if Version topic \<noteq> '''' then (None, unknownVersion)
        else (case map_of (reg_defaults r) (ID topic) of
            Some version \<Rightarrow>
              (map_option hr_handler (map_of (reg_handlers r) (WithVersion topic version)), selected)
          | None \<Rightarrow> (None, noDefault)))"

definition DefaultVersion :: "'h registry \<Rightarrow> string \<Rightarrow> string \<times> bool" where
  "DefaultVersion r i =
    (if hasKey (reg_handlers r) (NewTopic i) then ('''', True)
     else (goIndex (reg_defaults r) i '''', hasKey (reg_defaults r) i))"

definition TopicsWithoutDefault :: "'h registry \<Rightarrow> string list" where
  "TopicsWithoutDefault r =
    sort (filter (\<lambda>i. \<not> snd (DefaultVersion r i)) (map fst (reg_versions r)))"

definition TopicTypes :: "'h registry \<Rightarrow> topic \<Rightarrow> string \<times> string \<times> bool" where
  "TopicTypes r topic = (case map_of (reg_handlers r) topic of
      None \<Rightarrow> ('''', '''', False)
    | Some reg \<Rightarrow> (hr_request reg, hr_response reg, True))"

definition Has :: "'h registry \<Rightarrow> topic \<Rightarrow> bool" where
  "Has r topic = hasKey (reg_handlers r) topic"

definition Topics :: "'h registry \<Rightarrow> topic list" where
  "Topics r = sort (map fst (reg_handlers r))"

section \<open>The invariant of the three maps\<close>

text \<open>How many handlers a topic id has, at any version.\<close>

definition countOf :: "'h registry \<Rightarrow> string \<Rightarrow> nat" where
  "countOf r i = length (filter (\<lambda>t. ID t = i) (map fst (reg_handlers r)))"

definition registryOk :: "'h registry \<Rightarrow> bool" where
  "registryOk r \<longleftrightarrow> goMap (reg_handlers r) \<and> goMap (reg_versions r) \<and> goMap (reg_defaults r) \<and>
    (\<forall>i. goIndex (reg_versions r) i 0 = int (countOf r i)) \<and>
    (\<forall>i. hasKey (reg_versions r) i \<longrightarrow> 0 < countOf r i) \<and>
    (\<forall>i v. map_of (reg_defaults r) i = Some v \<longrightarrow>
       v \<noteq> '''' \<and> hasKey (reg_handlers r) (Topic i v))"

text \<open>The registries a program can build: the empty one, and what a successful registration gives.\<close>

inductive registered :: "'h registry \<Rightarrow> bool" where
  empty: "registered NewRegistry"
| register: "registered r \<Longrightarrow> register r topic reg opts = Inr r' \<Longrightarrow> registered r'"

inductive_cases register_elim: "registered r"

lemma countOf_update:
  assumes "\<not> hasKey (reg_handlers r) topic"
  shows "countOf (r\<lparr>reg_handlers := AList.update topic reg (reg_handlers r),
      reg_versions := vs, reg_defaults := ds\<rparr>) i =
    countOf r i + (if ID topic = i then 1 else 0)"
proof -
  have "AList.update topic reg (reg_handlers r) = reg_handlers r @ [(topic, reg)]"
    using assms by (intro AList_update_fresh) (simp add: hasKey_iff)
  then show ?thesis by (simp add: countOf_def)
qed

lemma countOf_pos: "hasKey (reg_handlers r) t \<Longrightarrow> 0 < countOf r (ID t)"
  by (auto simp: countOf_def hasKey_iff filter_empty_conv)

lemma countOf_zero: "countOf r i = 0 \<longleftrightarrow> (\<forall>v. \<not> hasKey (reg_handlers r) (Topic i v))"
proof
  assume "countOf r i = 0"
  then show "\<forall>v. \<not> hasKey (reg_handlers r) (Topic i v)"
    using countOf_pos [of r] by fastforce
next
  assume none: "\<forall>v. \<not> hasKey (reg_handlers r) (Topic i v)"
  have "ID t \<noteq> i" if "t \<in> fst ` set (reg_handlers r)" for t
    using none that by (cases t) (auto simp: hasKey_iff)
  then show "countOf r i = 0" by (auto simp: countOf_def filter_empty_conv)
qed

lemma registryOk_NewRegistry: "registryOk NewRegistry"
  by (simp add: registryOk_def NewRegistry_def countOf_def goIndex_def hasKey_def)

lemma register_InrD:
  assumes "register r topic reg opts = Inr r'"
  defines "dd \<equiv> asDefault (fold (\<lambda>opt c. opt c) opts \<lparr>asDefault = False\<rparr>) \<and> Version topic \<noteq> ''''"
  shows "\<not> hasKey (reg_handlers r) topic"
    and "\<not> (hasKey (reg_defaults r) (ID topic) \<and> dd)"
    and "r' = r\<lparr>reg_handlers := AList.update topic reg (reg_handlers r),
       reg_versions := AList.update (ID topic) (goIndex (reg_versions r) (ID topic) 0 + 1)
         (reg_versions r),
       reg_defaults := (if dd then AList.update (ID topic) (Version topic) (reg_defaults r)
         else reg_defaults r)\<rparr>"
  using assms(1) unfolding register_def Let_def dd_def
  by (simp_all only: split: if_split_asm) auto

lemma registryOk_register:
  assumes "registryOk r" and "register r topic reg opts = Inr r'"
  shows "registryOk r'"
  using assms(1) register_InrD [OF assms(2)]
  by (auto simp: registryOk_def countOf_update split: if_splits)

lemma registered_ok: "registered r \<Longrightarrow> registryOk r"
  by (induction rule: registered.induct)
    (auto intro: registryOk_NewRegistry registryOk_register)

section \<open>The abstract routing table\<close>

text \<open>
  What a registry promises: a table of handlers by (id, version), and at most one declared default
  version per id. Selection is written over that table alone: exact match; else the reason.
\<close>

definition routes :: "'h registry \<Rightarrow> topic \<Rightarrow> 'h option" where
  "routes r t = map_option hr_handler (map_of (reg_handlers r) t)"

definition defaultOf :: "'h registry \<Rightarrow> string \<Rightarrow> string option" where
  "defaultOf r i = map_of (reg_defaults r) i"

definition selectSpec ::
  "(topic \<Rightarrow> 'h option) \<Rightarrow> (string \<Rightarrow> string option) \<Rightarrow> topic \<Rightarrow> 'h option \<times> selection" where
  "selectSpec table dflt t =
    (if table t \<noteq> None then (table t, selected)
     else if \<forall>v. table (Topic (ID t) v) = None then (None, unknownTopic)
     else if Version t \<noteq> '''' then (None, unknownVersion)
     else (case dflt (ID t) of
         Some v \<Rightarrow> (table (Topic (ID t) v), selected)
       | None \<Rightarrow> (None, noDefault)))"

lemma routes_hasKey: "routes r t \<noteq> None \<longleftrightarrow> hasKey (reg_handlers r) t"
  by (simp add: routes_def hasKey_def)

lemma routes_None: "routes r t = None \<longleftrightarrow> \<not> hasKey (reg_handlers r) t"
  by (simp add: routes_def hasKey_def)

lemma lookup_selectSpec:
  assumes "registryOk r"
  shows "lookup r t = selectSpec (routes r) (defaultOf r) t"
proof -
  have count: "goIndex (reg_versions r) (ID t) 0 = 0 \<longleftrightarrow> (\<forall>v. routes r (Topic (ID t) v) = None)"
    using assms countOf_zero [of r "ID t"] by (simp add: registryOk_def routes_None)
  show ?thesis
    by (auto simp: lookup_def selectSpec_def count defaultOf_def WithVersion_def routes_def
        split: option.splits)
qed

lemma default_registered:
  "registryOk r \<Longrightarrow> defaultOf r i = Some v \<Longrightarrow> v \<noteq> '''' \<and> routes r (Topic i v) \<noteq> None"
  unfolding routes_hasKey by (simp add: registryOk_def defaultOf_def)

lemma lookup_selected_Some:
  assumes "registryOk r" and "snd (lookup r t) = selected"
  shows "fst (lookup r t) \<noteq> None"
  using assms default_registered [OF assms(1)]
  by (auto simp: lookup_selectSpec selectSpec_def split: if_splits option.splits)

lemma lookup_selected_iff:
  assumes "registryOk r"
  shows "snd (lookup r t) = selected \<longleftrightarrow> fst (lookup r t) \<noteq> None"
proof
  show "snd (lookup r t) = selected \<Longrightarrow> fst (lookup r t) \<noteq> None"
    using assms by (rule lookup_selected_Some)
  show "fst (lookup r t) \<noteq> None \<Longrightarrow> snd (lookup r t) = selected"
    by (auto simp: lookup_def split: option.splits if_splits)
qed

lemma register_refines:
  assumes "register r topic reg opts = Inr r'"
  shows "routes r' = (routes r)(topic := Some (hr_handler reg))"
    and "defaultOf r' = (if asDefault (fold (\<lambda>opt c. opt c) opts \<lparr>asDefault = False\<rparr>) \<and>
        Version topic \<noteq> '''' then (defaultOf r)(ID topic := Some (Version topic)) else defaultOf r)"
  using register_InrD [OF assms] by (auto simp: routes_def defaultOf_def fun_eq_iff)

lemma DefaultVersion_spec:
  "DefaultVersion r i =
    (if routes r (NewTopic i) \<noteq> None then ('''', True)
     else (case defaultOf r i of Some v \<Rightarrow> (v, True) | None \<Rightarrow> ('''', False)))"
  by (auto simp: DefaultVersion_def routes_hasKey [symmetric] defaultOf_def goIndex_def hasKey_def
      routes_def split: option.splits)

section \<open>Properties\<close>

text \<open>C1 (refinement). Every registry a program can build answers lookups exactly as its routing
  table prescribes: an exact (id, version) match wins; an id nobody serves, a version nobody
  serves and a missing default are told apart; a message without a version goes to the unversioned
  handler, else to the declared default, and never to any other version; and a lookup that says
  selected always yields a handler.\<close>

theorem lookup_refines_table:
  assumes "registered r"
  shows "lookup r t = selectSpec (routes r) (defaultOf r) t \<and>
    (snd (lookup r t) = selected \<longrightarrow>
      (\<exists>t'. routes r t' = fst (lookup r t) \<and> fst (lookup r t) \<noteq> None \<and> ID t' = ID t \<and>
        (t' = t \<or> (Version t = '''' \<and> routes r t = None \<and> defaultOf r (ID t) = Some (Version t')))))"
proof (intro conjI impI)
  show eq: "lookup r t = selectSpec (routes r) (defaultOf r) t"
    using registered_ok [OF assms] by (rule lookup_selectSpec)
  assume sel: "snd (lookup r t) = selected"
  have some: "fst (lookup r t) \<noteq> None"
    using registered_ok [OF assms] sel by (rule lookup_selected_Some)
  show "\<exists>t'. routes r t' = fst (lookup r t) \<and> fst (lookup r t) \<noteq> None \<and> ID t' = ID t \<and>
        (t' = t \<or> (Version t = '''' \<and> routes r t = None \<and> defaultOf r (ID t) = Some (Version t')))"
  proof (cases "routes r t")
    case None
    with sel some eq obtain v where v: "defaultOf r (ID t) = Some v" "Version t = ''''"
      "routes r (Topic (ID t) v) = fst (lookup r t)"
      by (auto simp: selectSpec_def split: if_splits option.splits)
    with None some show ?thesis by (intro exI [of _ "Topic (ID t) v"]) simp
  next
    case (Some h)
    with some eq show ?thesis by (intro exI [of _ t]) (simp add: selectSpec_def)
  qed
qed

text \<open>A registry with two versions of one topic, the older declared default.\<close>

definition exampleRegistry :: "nat registry" where
  "exampleRegistry =
    \<lparr>reg_handlers =
       [(Topic ''order'' ''v1'', \<lparr>hr_handler = 1, hr_request = ''Order'', hr_response = ''Receipt''\<rparr>),
        (Topic ''order'' ''v2'', \<lparr>hr_handler = 2, hr_request = ''Order'', hr_response = ''Receipt''\<rparr>)],
     reg_versions = [(''order'', 2)], reg_defaults = [(''order'', ''v1'')]\<rparr>"

lemma exampleRegistry_registered: "registered exampleRegistry"
proof -
  let ?reg1 = "\<lparr>hr_handler = 1 :: nat, hr_request = ''Order'', hr_response = ''Receipt''\<rparr>"
  let ?reg2 = "\<lparr>hr_handler = 2 :: nat, hr_request = ''Order'', hr_response = ''Receipt''\<rparr>"
  let ?r1 = "\<lparr>reg_handlers = [(Topic ''order'' ''v1'', ?reg1)], reg_versions = [(''order'', 1)],
     reg_defaults = [(''order'', ''v1'')]\<rparr>"
  have one: "register NewRegistry (Topic ''order'' ''v1'') ?reg1 [AsDefault] = Inr ?r1"
    by (simp add: register_def NewRegistry_def AsDefault_def hasKey_def goIndex_def)
  have two: "register ?r1 (Topic ''order'' ''v2'') ?reg2 [] = Inr exampleRegistry"
    by (simp add: register_def hasKey_def goIndex_def exampleRegistry_def)
  show ?thesis
    using registered.register [OF registered.register [OF registered.empty one] two] .
qed

theorem lookup_refines_table_witness:
  "lookup exampleRegistry (NewTopic ''order'') = (Some 1, selected) \<and>
   lookup exampleRegistry (NewTopic ''order'') =
     selectSpec (routes exampleRegistry) (defaultOf exampleRegistry) (NewTopic ''order'')"
  using lookup_refines_table [OF exampleRegistry_registered, of "NewTopic ''order''"]
  by (simp add: lookup_def exampleRegistry_def NewTopic_def goIndex_def WithVersion_def)

text \<open>Registering is refused exactly when the (id, version) is taken or a second
  default is declared for the id, and then nothing changes; otherwise it adds exactly that entry
  to the routing table and, when asked, exactly that default, and leaves the registry's maps
  consistent.\<close>

theorem register_refines_table:
  fixes r :: "'h registry" and topic :: topic and opts :: "registerOption list"
  assumes "registered r"
  defines "dd \<equiv> asDefault (fold (\<lambda>opt c. opt c) opts \<lparr>asDefault = False\<rparr>) \<and> Version topic \<noteq> ''''"
  shows "case register r topic reg opts of
      Inl err \<Rightarrow> routes r topic \<noteq> None \<or> (dd \<and> defaultOf r (ID topic) \<noteq> None)
    | Inr r' \<Rightarrow> routes r topic = None \<and> \<not> (dd \<and> defaultOf r (ID topic) \<noteq> None) \<and>
        registryOk r' \<and> routes r' = (routes r)(topic := Some (hr_handler reg)) \<and>
        defaultOf r' = (if dd then (defaultOf r)(ID topic := Some (Version topic)) else defaultOf r)"
proof (cases "register r topic reg opts")
  case (Inl err)
  then show ?thesis
    by (auto simp: register_def Let_def routes_None defaultOf_def hasKey_def dd_def split: if_splits)
next
  case (Inr r')
  note D = register_InrD [OF Inr] and R = register_refines [OF Inr]
  have "registryOk r'"
    using registered_ok [OF assms(1)] Inr by (rule registryOk_register)
  with D(1,2) R Inr show ?thesis
    by (auto simp: routes_None defaultOf_def hasKey_def dd_def)
qed

theorem register_refines_table_witness:
  "\<exists>err. register exampleRegistry (Topic ''order'' ''v3'')
     \<lparr>hr_handler = 3, hr_request = ''Order'', hr_response = ''Receipt''\<rparr> [AsDefault] = Inl err"
  using register_refines_table [OF exampleRegistry_registered,
      where topic = "Topic ''order'' ''v3''" and opts = "[AsDefault]"
        and reg = "\<lparr>hr_handler = 3, hr_request = ''Order'', hr_response = ''Receipt''\<rparr>"]
  by (auto simp: AsDefault_def defaultOf_def exampleRegistry_def split: sum.splits)

text \<open>The start-up report names exactly the topic ids to which a message without a
  version would be not-found although the id is served, each once and sorted; and the catalogue of
  topics lists exactly the registered topics, strictly ordered by id and then version.\<close>

theorem registry_reports_exact:
  assumes "registered r"
  shows "(i \<in> set (TopicsWithoutDefault r) \<longleftrightarrow> lookup r (NewTopic i) = (None, noDefault)) \<and>
    sorted (TopicsWithoutDefault r) \<and> distinct (TopicsWithoutDefault r) \<and>
    set (Topics r) = {t. Has r t} \<and> sorted (Topics r) \<and> distinct (Topics r)"
proof -
  have ok: "registryOk r" using assms by (rule registered_ok)
  have served: "i \<in> fst ` set (reg_versions r) \<longleftrightarrow> (\<exists>v. routes r (Topic i v) \<noteq> None)"
  proof -
    have "hasKey (reg_versions r) i \<longleftrightarrow> 0 < countOf r i"
      using ok by (auto simp: registryOk_def hasKey_def goIndex_def split: option.splits)
    then show ?thesis
      using countOf_zero [of r i] by (auto simp: routes_None hasKey_iff)
  qed
  have "i \<in> set (TopicsWithoutDefault r) \<longleftrightarrow> lookup r (NewTopic i) = (None, noDefault)"
    unfolding lookup_selectSpec [OF ok]
    by (auto simp: TopicsWithoutDefault_def served DefaultVersion_spec selectSpec_def NewTopic_def
        split: option.splits)
  with ok show ?thesis
    by (auto simp: TopicsWithoutDefault_def Topics_def Has_def registryOk_def goMap_def hasKey_iff)
qed

theorem registry_reports_exact_witness:
  "''order'' \<notin> set (TopicsWithoutDefault exampleRegistry) \<and>
   set (Topics exampleRegistry) = {t. Has exampleRegistry t}"
  using registry_reports_exact [OF exampleRegistry_registered, of "''order''"]
  by (simp add: lookup_def exampleRegistry_def NewTopic_def goIndex_def WithVersion_def)

end
