(* ===== verification/Router.thy ===== *)
theory Router
  imports Registry
begin

text \<open>
  The terminal middleware (\<^verbatim>\<open>router.go\<close>): it resolves the topic and the version, selects the
  handler, runs it with panic recovery and puts the outcome on the invocation, then calls next.
\<close>

definition PingTopic :: string where "PingTopic = ''benzene:ping''"

record routerConfig =
  versionKey :: string

type_synonym routerOption = "routerConfig \<Rightarrow> routerConfig"

definition WithVersionKey :: "string \<Rightarrow> routerOption" where
  "WithVersionKey key c = c\<lparr>versionKey := key\<rparr>"

definition unmatched :: "string \<Rightarrow> 'v result outcome" where
  "unmatched message =
    (case NotFound [message] of
       Panic p \<Rightarrow> Panic p
     | Return r \<Rightarrow> Return (r\<lparr>r_unmatched := True\<rparr>))"

text \<open>The argument is a possibly nil \<^verbatim>\<open>ResultInfo\<close>; the type assertion is to \<^verbatim>\<open>Result[any]\<close>.\<close>

fun IsUnmatchedTopic :: "'v resultInfo option \<Rightarrow> bool" where
  "IsUnmatchedTopic (Some (ResultAny r)) = r_unmatched r"
| "IsUnmatchedTopic _ = False"

text \<open>Calling a nil handler panics inside \<^verbatim>\<open>dispatch\<close>, as any handler panic does.\<close>

definition nilDereference :: string where
  "nilDereference = ''runtime error: invalid memory address or nil pointer dereference''"

definition callHandler :: "('v, 'w) erasedHandler option \<Rightarrow> ('v, 'w) erasedHandler" where
  "callHandler h c request s = (case h of
      None \<Rightarrow> (Panic nilDereference, s)
    | Some f \<Rightarrow> f c request s)"

definition dispatch ::
  "ctx \<Rightarrow> ('v, 'w) erasedHandler option \<Rightarrow> 'v any \<Rightarrow> ('v, 'w) st \<Rightarrow>
   'v resultInfo outcome \<times> ('v, 'w) st" where
  "dispatch c handler request s = (case callHandler handler c request s of
      (Panic p, s') \<Rightarrow> (map_outcome ResultAny (ServiceUnavailable [''handler panicked: '' @ p]), s')
    | (Return (Inl err), s') \<Rightarrow> (map_outcome ResultAny (BadRequest [errorText err]), s')
    | (Return (Inr res), s') \<Rightarrow> (Return res, s'))"

definition setResult :: "'v resultInfo \<Rightarrow> ('v, 'w) st \<Rightarrow> ('v, 'w) st" where
  "setResult r s = s\<lparr>ic := (ic s)\<lparr>ic_Result := Some r\<rparr>\<rparr>"

text \<open>Storing a \<^verbatim>\<open>Result[any]\<close> on the invocation and calling next.\<close>

definition answer ::
  "'v result outcome \<Rightarrow> ctx \<Rightarrow> ('v, 'w) continuation \<Rightarrow> ('v, 'w) run" where
  "answer r c nx s = andThen (r, s) (\<lambda>r s'. nx c (setResult (ResultAny r) s'))"

definition resolveTopic :: "string \<Rightarrow> 'v invocation \<Rightarrow> 'v invocation" where
  "resolveTopic key i =
    (if Version (ic_Topic i) = ''''
     then i\<lparr>ic_Topic := WithVersion (ic_Topic i) (ResolveVersion (ic_Headers i) key)\<rparr>
     else i)"

definition handlerContext :: "ctx \<Rightarrow> 'v invocation \<Rightarrow> ctx" where
  "handlerContext c i =
    (if ic_Scope i \<noteq> None then ContextWithScope (contextWithInvocation c)
     else contextWithInvocation c)"

definition routeTo ::
  "('v, 'w) erasedHandler registry \<Rightarrow> string \<Rightarrow> ('v, 'w) middleware" where
  "routeTo registry key c nx s =
    (if ID (ic_Topic (ic s)) = '''' then answer (ValidationError [''topic is missing'']) c nx s
     else
       (let s1 = s\<lparr>ic := resolveTopic key (ic s)\<rparr>; t = ic_Topic (ic s1) in
        case lookup registry t of
          (handler, selected) \<Rightarrow>
            andThen (dispatch (handlerContext c (ic s1)) handler (ic_Request (ic s1)) s1)
              (\<lambda>res s2. nx c (setResult res s2))
        | (_, unknownTopic) \<Rightarrow>
            if ID t = PingTopic then answer (Return (resultOf StatusOk)) c nx s1
            else answer (unmatched (''no handler found for topic '' @ goQuote (ID t))) c nx s1
        | (_, unknownVersion) \<Rightarrow>
            answer (NotFound [''no handler found for topic '' @ goQuote (ID t) @ '' at version '' @
              goQuote (Version t)]) c nx s1
        | (_, noDefault) \<Rightarrow>
            answer (NotFound [''no handler found for topic '' @ goQuote (ID t) @
              '' without a version: its handlers are all versioned and none is the default''])
              c nx s1))"

text \<open>Building the router yields the topic ids it warns about and the middleware.\<close>

definition routerKey :: "routerOption list \<Rightarrow> string" where
  "routerKey opts =
    (let cfg = fold (\<lambda>opt c. opt c) opts \<lparr>versionKey = ''''\<rparr> in
     if versionKey cfg = '''' then DefaultVersionKey else versionKey cfg)"

definition RouterMiddleware ::
  "('v, 'w) erasedHandler registry \<Rightarrow> routerOption list \<Rightarrow> string list \<times> ('v, 'w) middleware" where
  "RouterMiddleware registry opts =
    (TopicsWithoutDefault registry, routeTo registry (routerKey opts))"

section \<open>Lemmas\<close>

lemma setResult_simps [simp]:
  "ic_Result (ic (setResult r s)) = Some r" "clock (setResult r s) = clock s"
  "env (setResult r s) = env s" "ic_Topic (ic (setResult r s)) = ic_Topic (ic s)"
  "ic_Headers (ic (setResult r s)) = ic_Headers (ic s)"
  "ic_ResponseHeaders (ic (setResult r s)) = ic_ResponseHeaders (ic s)"
  by (simp_all add: setResult_def)

lemma answer_Return [simp]: "answer (Return r) c nx s = nx c (setResult (ResultAny r) s)"
  by (simp add: answer_def)

lemma unmatched_Return [simp]:
  "unmatched m = Return ((failed StatusNotFound [m])\<lparr>r_unmatched := True\<rparr>)"
  by (simp add: unmatched_def)

text \<open>The result a handler's outcome becomes, panics included.\<close>

fun handlerResult :: "(goerr + 'v resultInfo) outcome \<Rightarrow> 'v resultInfo" where
  "handlerResult (Panic p) =
     ResultAny (failed StatusServiceUnavailable [''handler panicked: '' @ p])"
| "handlerResult (Return (Inl err)) = ResultAny (failed StatusBadRequest [errorText err])"
| "handlerResult (Return (Inr res)) = res"

lemma dispatch_total:
  "dispatch c h request s =
    (Return (handlerResult (fst (callHandler h c request s))), snd (callHandler h c request s))"
  by (cases "callHandler h c request s"; cases "fst (callHandler h c request s)")
    (auto simp: dispatch_def split: sum.splits)

lemma resolveTopic_ID [simp]: "ID (ic_Topic (resolveTopic key i)) = ID (ic_Topic i)"
  by (simp add: resolveTopic_def)

text \<open>The state next sees, and the result in it, as functions of the invocation alone.\<close>

definition routed ::
  "('v, 'w) erasedHandler registry \<Rightarrow> string \<Rightarrow> ctx \<Rightarrow> ('v, 'w) st \<Rightarrow>
   'v resultInfo \<times> ('v, 'w) st" where
  "routed registry key c s =
    (if ID (ic_Topic (ic s)) = '''' then
       (ResultAny (failed StatusValidationError [''topic is missing'']), s)
     else
       (let s1 = s\<lparr>ic := resolveTopic key (ic s)\<rparr>; t = ic_Topic (ic s1) in
        case snd (lookup registry t) of
          selected \<Rightarrow>
            (let o1 = callHandler (fst (lookup registry t)) (handlerContext c (ic s1))
               (ic_Request (ic s1)) s1 in (handlerResult (fst o1), snd o1))
        | unknownTopic \<Rightarrow>
            if ID t = PingTopic then (ResultAny (resultOf StatusOk), s1)
            else (ResultAny ((failed StatusNotFound [''no handler found for topic '' @
              goQuote (ID t)])\<lparr>r_unmatched := True\<rparr>), s1)
        | unknownVersion \<Rightarrow>
            (ResultAny (failed StatusNotFound [''no handler found for topic '' @ goQuote (ID t) @
              '' at version '' @ goQuote (Version t)]), s1)
        | noDefault \<Rightarrow>
            (ResultAny (failed StatusNotFound [''no handler found for topic '' @ goQuote (ID t) @
              '' without a version: its handlers are all versioned and none is the default'']), s1)))"

lemma routeTo_routed:
  "routeTo registry key c nx s =
    nx c (setResult (fst (routed registry key c s)) (snd (routed registry key c s)))"
proof (cases "ID (ic_Topic (ic s)) = ''''")
  case True
  then show ?thesis by (simp add: routeTo_def routed_def)
next
  case False
  obtain h sel where l: "lookup registry (ic_Topic (resolveTopic key (ic s))) = (h, sel)"
    by (cases "lookup registry (ic_Topic (resolveTopic key (ic s)))")
  show ?thesis
    using False l by (cases sel) (simp_all add: routeTo_def routed_def dispatch_total Let_def)
qed

lemma router_routed:
  "snd (RouterMiddleware registry opts) c nx s =
    nx c (setResult (fst (routed registry (routerKey opts) c s))
      (snd (routed registry (routerKey opts) c s)))"
  by (simp add: RouterMiddleware_def routeTo_routed)

lemma routed_ID: "fst (routed registry key c s) = r \<Longrightarrow> ID (ic_Topic (ic s)) = '''' \<Longrightarrow>
    r = ResultAny (failed StatusValidationError [''topic is missing''])"
  by (simp add: routed_def)

lemma handlerResult_unmatched:
  "IsUnmatchedTopic (Some (handlerResult o1)) \<Longrightarrow>
     \<exists>r. o1 = Return (Inr r) \<and> IsUnmatchedTopic (Some r)"
  by (cases o1 rule: handlerResult.cases) auto

text \<open>The result of a topic that no handler of a registry serves for this message.\<close>

definition missAnswer :: "topic \<Rightarrow> selection \<Rightarrow> 'v resultInfo \<Rightarrow> bool" where
  "missAnswer t why res \<longleftrightarrow>
    (if why = unknownTopic \<and> ID t = PingTopic
     then ResultStatus res = StatusOk \<and> ResultPayload res = NilAny \<and>
       \<not> IsUnmatchedTopic (Some res)
     else ResultStatus res = StatusNotFound \<and> length (ResultErrors res) = 1 \<and>
       (IsUnmatchedTopic (Some res) \<longleftrightarrow> why = unknownTopic))"

lemma routed_select:
  fixes s :: "('v, 'w) st" and key :: string
  assumes "registered registry" and "ID (ic_Topic (ic s)) \<noteq> ''''"
  defines "i \<equiv> resolveTopic key (ic s)"
  shows "case selectSpec (routes registry) (defaultOf registry) (ic_Topic i) of
      (Some f, why) \<Rightarrow> routed registry key c s =
         (handlerResult (fst (f (handlerContext c i) (ic_Request i) (s\<lparr>ic := i\<rparr>))),
          snd (f (handlerContext c i) (ic_Request i) (s\<lparr>ic := i\<rparr>)))
    | (None, why) \<Rightarrow> missAnswer (ic_Topic i) why (fst (routed registry key c s)) \<and>
         snd (routed registry key c s) = s\<lparr>ic := i\<rparr>"
proof -
  have eq: "lookup registry (ic_Topic i) = selectSpec (routes registry) (defaultOf registry) (ic_Topic i)"
    using registered_ok [OF assms(1)] by (rule lookup_selectSpec)
  have sel: "snd (lookup registry (ic_Topic i)) = selected \<longleftrightarrow> fst (lookup registry (ic_Topic i)) \<noteq> None"
    using registered_ok [OF assms(1)] by (rule lookup_selected_iff)
  obtain h why where l: "lookup registry (ic_Topic i) = (h, why)"
    by (cases "lookup registry (ic_Topic i)")
  show ?thesis
    using sel assms(2) unfolding eq [symmetric] l
    by (cases why; cases h)
      (simp_all add: routed_def l i_def [symmetric] Let_def callHandler_def missAnswer_def)
qed

section \<open>Properties\<close>

text \<open>C2 (error). The router answers every message: whatever the topic, the registry and the
  handler do, panics included, it puts a result on the invocation and calls next exactly once,
  returning what next returns. A missing topic is a validation-error; a selected handler's
  own result is kept, its conversion error becomes bad-request and its panic service-unavailable;
  the ping topic is ok without a payload; everything else is not-found with one message, and no
  handler has run.\<close>

theorem router_always_answers:
  fixes s :: "('v, 'w) st" and opts :: "routerOption list"
  assumes "registered registry"
  defines "i \<equiv> resolveTopic (routerKey opts) (ic s)"
  shows "\<exists>res s'. snd (RouterMiddleware registry opts) c nx s = nx c (setResult res s') \<and>
    (if ID (ic_Topic (ic s)) = ''''
     then res = ResultAny (failed StatusValidationError [''topic is missing'']) \<and> s' = s
     else (case selectSpec (routes registry) (defaultOf registry) (ic_Topic i) of
         (Some f, why) \<Rightarrow>
           (case f (handlerContext c i) (ic_Request i) (s\<lparr>ic := i\<rparr>) of
              (Return (Inr r), t) \<Rightarrow> res = r \<and> s' = t
            | (Return (Inl err), t) \<Rightarrow>
                ResultStatus res = StatusBadRequest \<and> ResultErrors res = [errorText err] \<and> s' = t
            | (Panic p, t) \<Rightarrow> ResultStatus res = StatusServiceUnavailable \<and>
                ResultErrors res = [''handler panicked: '' @ p] \<and> s' = t)
       | (None, why) \<Rightarrow> missAnswer (ic_Topic i) why res \<and> s' = s\<lparr>ic := i\<rparr>))"
proof (cases "ID (ic_Topic (ic s)) = ''''")
  case True
  then show ?thesis by (auto simp: router_routed routed_def)
next
  case False
  note select = routed_select [OF assms(1) False, of "routerKey opts" c, folded i_def]
  show ?thesis
  proof (intro exI conjI)
    show "snd (RouterMiddleware registry opts) c nx s =
        nx c (setResult (fst (routed registry (routerKey opts) c s))
          (snd (routed registry (routerKey opts) c s)))"
      by (rule router_routed)
  qed (use select False in \<open>auto split: option.splits prod.splits outcome.splits sum.splits\<close>)
qed

text \<open>A registry with one handler, which panics.\<close>

definition panickyRegistry :: "(nat, unit) erasedHandler registry" where
  "panickyRegistry =
    \<lparr>reg_handlers = [(Topic ''greet'' '''',
       \<lparr>hr_handler = (\<lambda>c raw s. (Panic ''boom'', s)), hr_request = ''Req'', hr_response = ''Res''\<rparr>)],
     reg_versions = [(''greet'', 1)], reg_defaults = []\<rparr>"

lemma panickyRegistry_registered: "registered panickyRegistry"
  by (rule registered.register [OF registered.empty,
        of "Topic ''greet'' ''''" "\<lparr>hr_handler = (\<lambda>c raw s. (Panic ''boom'', s)),
            hr_request = ''Req'', hr_response = ''Res''\<rparr>" "[]"])
    (simp add: register_def NewRegistry_def panickyRegistry_def hasKey_def goIndex_def)

definition greeting :: "(nat, unit) st" where
  "greeting = \<lparr>ic = NewInvocationContext (NewTopic ''greet'') [] NilAny None, clock = 0, env = ()\<rparr>"

theorem router_always_answers_witness:
  "\<exists>res s'. snd (RouterMiddleware panickyRegistry []) background done_run greeting =
      done_run background (setResult res s') \<and>
    ResultStatus res = StatusServiceUnavailable \<and> ResultErrors res = [''handler panicked: boom'']"
  using router_always_answers [OF panickyRegistry_registered, of "[]" background done_run greeting]
  by (simp add: greeting_def NewInvocationContext_def resolveTopic_def WithVersion_def NewTopic_def
      selectSpec_def routes_def panickyRegistry_def) blast

text \<open>A result is marked as an unmatched topic exactly when no handler is registered
  for the topic id at any version and the topic is neither missing nor the ping topic: a version
  nobody serves, a missing default and a handler's own not-found are never marked, as long as no
  handler passes on a marked result.\<close>

theorem unmatched_exact:
  fixes s :: "('v, 'w) st"
  assumes "registered registry"
    and "\<And>t f cc raw u r u'. routes registry t = Some f \<Longrightarrow> f cc raw u = (Return (Inr r), u') \<Longrightarrow>
      \<not> IsUnmatchedTopic (Some r)"
  shows "\<exists>res s'. snd (RouterMiddleware registry opts) c nx s = nx c (setResult res s') \<and>
    (IsUnmatchedTopic (Some res) \<longleftrightarrow> ID (ic_Topic (ic s)) \<noteq> '''' \<and> ID (ic_Topic (ic s)) \<noteq> PingTopic \<and>
      (\<forall>v. \<not> Has registry (Topic (ID (ic_Topic (ic s))) v)))"
proof (intro exI conjI)
  let ?i = "resolveTopic (routerKey opts) (ic s)"
  let ?res = "fst (routed registry (routerKey opts) c s)"
  show "snd (RouterMiddleware registry opts) c nx s =
      nx c (setResult ?res (snd (routed registry (routerKey opts) c s)))"
    by (rule router_routed)
  have has: "Has registry t \<longleftrightarrow> routes registry t \<noteq> None" for t
    by (simp add: Has_def routes_None)
  show "IsUnmatchedTopic (Some ?res) \<longleftrightarrow> ID (ic_Topic (ic s)) \<noteq> '''' \<and>
      ID (ic_Topic (ic s)) \<noteq> PingTopic \<and> (\<forall>v. \<not> Has registry (Topic (ID (ic_Topic (ic s))) v))"
  proof (cases "ID (ic_Topic (ic s)) = ''''")
    case True
    then show ?thesis by (simp add: routed_def)
  next
    case False
    note select = routed_select [OF assms(1) False, of "routerKey opts" c]
    have marked: "\<not> IsUnmatchedTopic (Some (handlerResult (fst (f cc raw u))))"
      if "routes registry t = Some f" for t f cc raw u
      using assms(2) [OF that, of cc raw u] handlerResult_unmatched [of "fst (f cc raw u)"]
      by (metis prod.collapse)
    show ?thesis
    proof (cases "fst (selectSpec (routes registry) (defaultOf registry) (ic_Topic ?i))")
      case None
      then show ?thesis
        using select False
        by (auto simp: has missAnswer_def selectSpec_def split: if_splits option.splits)
    next
      case (Some f)
      then obtain t where "routes registry t = Some f" and "ID t = ID (ic_Topic (ic s))"
        by (auto simp: selectSpec_def split: if_splits option.splits)
      with marked Some select show ?thesis
        by (cases t) (fastforce simp: has split: prod.splits)
    qed
  qed
qed

theorem unmatched_exact_witness:
  "\<exists>res s'. snd (RouterMiddleware panickyRegistry []) background done_run
        (greeting\<lparr>ic := NewInvocationContext (NewTopic ''order'') [] NilAny None\<rparr>) =
      done_run background (setResult res s') \<and> IsUnmatchedTopic (Some res)"
proof -
  have "\<not> IsUnmatchedTopic (Some r)"
    if "routes panickyRegistry t = Some f" and "f cc raw u = (Return (Inr r), u')"
    for t f cc raw u r u'
    using that by (auto simp: routes_def panickyRegistry_def split: if_splits)
  note exact = unmatched_exact [OF panickyRegistry_registered this]
  show ?thesis
    using exact [where opts = "[]" and c = background and nx = done_run and
        s = "greeting\<lparr>ic := NewInvocationContext (NewTopic ''order'') [] NilAny None\<rparr>"]
    by (simp add: greeting_def NewInvocationContext_def NewTopic_def Has_def hasKey_def
        panickyRegistry_def PingTopic_def)
qed

end
