(* ===== verification/Container.thy ===== *)
theory Container
  imports Router
begin

text \<open>
  Dependency injection (\<^verbatim>\<open>scope.go\<close>): registrations by factory with a lifetime, the container's
  singletons and one scope per invocation. Registrations are made once at start-up and do not
  change while services are resolved, so they are an argument of the resolving operations; the
  instances are state. A factory is any state transformer on that state: it may resolve other
  services, and it may panic.
\<close>

section \<open>State and registrations\<close>

datatype lifetime = lifetimeSingleton | lifetimeScoped | lifetimeTransient

record ('v, 'w) di =
  singletons :: "(service_key \<times> 'v any) list"
  scoped :: "'v scope option"
  di_env :: 'w

type_synonym ('v, 'w) factory = "('v, 'w) di \<Rightarrow> 'v any outcome \<times> ('v, 'w) di"

record ('v, 'w) registration =
  lifetime_of :: lifetime
  factory_of :: "('v, 'w) factory"

type_synonym ('v, 'w) registrations = "(service_key \<times> ('v, 'w) registration) list"

definition NewContainer :: "('v, 'w) registrations" where
  "NewContainer = []"

definition add ::
  "('v, 'w) registrations \<Rightarrow> service_key \<Rightarrow> lifetime \<Rightarrow> ('v, 'w) factory \<Rightarrow> ('v, 'w) registrations" where
  "add c key lt factory = AList.update key \<lparr>lifetime_of = lt, factory_of = factory\<rparr> c"

definition tryAdd ::
  "('v, 'w) registrations \<Rightarrow> service_key \<Rightarrow> lifetime \<Rightarrow> ('v, 'w) factory \<Rightarrow> ('v, 'w) registrations" where
  "tryAdd c key lt factory =
    (if hasKey c key then c else AList.update key \<lparr>lifetime_of = lt, factory_of = factory\<rparr> c)"

definition AddSingleton :: "('v, 'w) registrations \<Rightarrow> service_key \<Rightarrow> ('v, 'w) factory \<Rightarrow> ('v, 'w) registrations" where
  "AddSingleton c key factory = add c key lifetimeSingleton factory"
definition AddScoped :: "('v, 'w) registrations \<Rightarrow> service_key \<Rightarrow> ('v, 'w) factory \<Rightarrow> ('v, 'w) registrations" where
  "AddScoped c key factory = add c key lifetimeScoped factory"
definition AddTransient :: "('v, 'w) registrations \<Rightarrow> service_key \<Rightarrow> ('v, 'w) factory \<Rightarrow> ('v, 'w) registrations" where
  "AddTransient c key factory = add c key lifetimeTransient factory"
definition TryAddSingleton :: "('v, 'w) registrations \<Rightarrow> service_key \<Rightarrow> ('v, 'w) factory \<Rightarrow> ('v, 'w) registrations" where
  "TryAddSingleton c key factory = tryAdd c key lifetimeSingleton factory"
definition TryAddScoped :: "('v, 'w) registrations \<Rightarrow> service_key \<Rightarrow> ('v, 'w) factory \<Rightarrow> ('v, 'w) registrations" where
  "TryAddScoped c key factory = tryAdd c key lifetimeScoped factory"
definition TryAddTransient :: "('v, 'w) registrations \<Rightarrow> service_key \<Rightarrow> ('v, 'w) factory \<Rightarrow> ('v, 'w) registrations" where
  "TryAddTransient c key factory = tryAdd c key lifetimeTransient factory"

text \<open>A fresh scope over the container: no scoped instance yet.\<close>

definition NewScope :: "('v, 'w) di \<Rightarrow> ('v, 'w) di" where
  "NewScope d = d\<lparr>scoped := Some []\<rparr>"

section \<open>Resolution\<close>

text \<open>The type argument of a resolution: its type assertion and its zero value.\<close>

record ('v, 't) gotype =
  gt_assert :: "'v any \<Rightarrow> 't option"
  gt_zero :: 't

definition asType :: "('v, 't) gotype \<Rightarrow> 'v any \<Rightarrow> 't" where
  "asType T v = (case gt_assert T v of None \<Rightarrow> gt_zero T | Some x \<Rightarrow> x)"

text \<open>A singleton's factory is called with a nil scope.\<close>

definition withNilScope :: "('v, 'w) factory \<Rightarrow> ('v, 'w) factory" where
  "withNilScope f d = (case f (d\<lparr>scoped := None\<rparr>) of (r, d') \<Rightarrow> (r, d'\<lparr>scoped := scoped d\<rparr>))"

definition typedSingleton ::
  "('v, 't) gotype \<Rightarrow> service_key \<Rightarrow> ('v, 'w) registration \<Rightarrow> ('v, 'w) di \<Rightarrow> 't outcome \<times> ('v, 'w) di"
where
  "typedSingleton T key reg d = (case map_of (singletons d) key of
      Some existing \<Rightarrow> (Return (asType T existing), d)
    | None \<Rightarrow> andThen (withNilScope (factory_of reg) d) (\<lambda>v d'.
        case map_of (singletons d') key of
          Some existing \<Rightarrow> (Return (asType T existing), d')
        | None \<Rightarrow> (Return (asType T v), d'\<lparr>singletons := AList.update key v (singletons d')\<rparr>)))"

definition typedScoped ::
  "('v, 't) gotype \<Rightarrow> service_key \<Rightarrow> ('v, 'w) registration \<Rightarrow> ('v, 'w) di \<Rightarrow> 't outcome \<times> ('v, 'w) di"
where
  "typedScoped T key reg d = (case scoped d of
      None \<Rightarrow> (Panic nilDereference, d)
    | Some m \<Rightarrow> (case map_of m key of
        Some existing \<Rightarrow> (Return (asType T existing), d)
      | None \<Rightarrow> andThen (factory_of reg d) (\<lambda>v d'.
          case scoped d' of
            None \<Rightarrow> (Panic nilDereference, d')
          | Some m' \<Rightarrow> (case map_of m' key of
              Some existing \<Rightarrow> (Return (asType T existing), d')
            | None \<Rightarrow> (Return (asType T v), d'\<lparr>scoped := Some (AList.update key v m')\<rparr>)))))"

definition TryGetService ::
  "('v, 'w) registrations \<Rightarrow> ('v, 't) gotype \<Rightarrow> service_key \<Rightarrow> ('v, 'w) di \<Rightarrow>
   ('t \<times> bool) outcome \<times> ('v, 'w) di" where
  "TryGetService regs T key d =
    (if scoped d = None then (Panic nilDereference, d)
     else (case map_of regs key of
        None \<Rightarrow> (Return (gt_zero T, False), d)
      | Some reg \<Rightarrow> (case lifetime_of reg of
          lifetimeSingleton \<Rightarrow>
            andThen (typedSingleton T key reg d) (\<lambda>v d'. (Return (v, True), d'))
        | lifetimeScoped \<Rightarrow>
            andThen (typedScoped T key reg d) (\<lambda>v d'. (Return (v, True), d'))
        | lifetimeTransient \<Rightarrow>
            andThen (factory_of reg d) (\<lambda>v d'. (Return (asType T v, True), d')))))"

fun keyText :: "service_key \<Rightarrow> string" where
  "keyText (KeyString k) = k"
| "keyText (KeyType t) = ''{}''"

definition GetService ::
  "('v, 'w) registrations \<Rightarrow> ('v, 't) gotype \<Rightarrow> service_key \<Rightarrow> ('v, 'w) di \<Rightarrow>
   't outcome \<times> ('v, 'w) di" where
  "GetService regs T key d = andThen (TryGetService regs T key d) (\<lambda>(v, ok) d'.
     if ok then (Return v, d')
     else (Panic (''benzene: no service registered for key '' @ keyText key), d'))"

section \<open>Instances are kept\<close>

text \<open>
  Nothing replaces or drops an instance: the order on states in which singletons and the scoped
  instances of the current scope only grow. A factory that resolves services and does nothing
  else to the container respects it.
\<close>

definition grows :: "('v, 'w) di \<Rightarrow> ('v, 'w) di \<Rightarrow> bool" where
  "grows d d' \<longleftrightarrow> map_of (singletons d) \<subseteq>\<^sub>m map_of (singletons d') \<and>
    (case scoped d of
       None \<Rightarrow> scoped d' = None
     | Some m \<Rightarrow> (case scoped d' of None \<Rightarrow> False | Some m' \<Rightarrow> map_of m \<subseteq>\<^sub>m map_of m'))"

definition respectful :: "('v, 'w) registrations \<Rightarrow> bool" where
  "respectful regs \<longleftrightarrow> (\<forall>key reg d. map_of regs key = Some reg \<longrightarrow> grows d (snd (factory_of reg d)))"

lemma grows_refl [simp]: "grows d d"
  by (auto simp: grows_def split: option.splits)

lemma grows_trans: "grows a b \<Longrightarrow> grows b c \<Longrightarrow> grows a c"
  by (auto simp: grows_def split: option.splits intro: map_le_trans)

lemma grows_singletons: "grows d d' \<Longrightarrow> map_of (singletons d) k = Some v \<Longrightarrow>
    map_of (singletons d') k = Some v"
  by (auto simp: grows_def map_le_def dom_def)

lemma grows_scoped: "grows d d' \<Longrightarrow> scoped d = Some m \<Longrightarrow> map_of m k = Some v \<Longrightarrow>
    \<exists>m'. scoped d' = Some m' \<and> map_of m' k = Some v"
  by (auto simp: grows_def map_le_def dom_def split: option.splits)

lemma grows_scoped_Some: "grows d d' \<Longrightarrow> scoped d = Some m \<Longrightarrow> \<exists>m'. scoped d' = Some m'"
  by (auto simp: grows_def split: option.splits)

lemma withNilScope_grows:
  assumes "\<And>d. grows d (snd (f d))"
  shows "grows d (snd (withNilScope f d))"
  using assms [of "d\<lparr>scoped := None\<rparr>"]
  by (auto simp: withNilScope_def grows_def split: prod.splits option.splits)

lemma typedSingleton_grows:
  assumes "\<And>d. grows d (snd (factory_of reg d))"
  shows "grows d (snd (typedSingleton T key reg d))"
proof -
  obtain o1 d1 where w: "withNilScope (factory_of reg) d = (o1, d1)"
    by (cases "withNilScope (factory_of reg) d")
  have g: "grows d d1" using withNilScope_grows [OF assms, of d] by (simp add: w)
  have "grows d1 (d1\<lparr>singletons := AList.update key v (singletons d1)\<rparr>)"
    if "map_of (singletons d1) key = None" for v
    using that by (auto simp: grows_def map_le_def split: option.splits)
  with g show ?thesis
    by (cases o1) (auto simp: typedSingleton_def w split: option.splits intro: grows_trans)
qed

lemma typedScoped_grows:
  assumes "\<And>d. grows d (snd (factory_of reg d))"
  shows "grows d (snd (typedScoped T key reg d))"
proof -
  obtain o1 d1 where w: "factory_of reg d = (o1, d1)" by (cases "factory_of reg d")
  have g: "grows d d1" using assms [of d] by (simp add: w)
  have "grows d1 (d1\<lparr>scoped := Some (AList.update key v m)\<rparr>)"
    if "scoped d1 = Some m" and "map_of m key = None" for v m
    using that by (auto simp: grows_def map_le_def)
  with g show ?thesis
    by (cases o1) (auto simp: typedScoped_def w split: option.splits intro: grows_trans)
qed

lemma TryGetService_grows:
  assumes "respectful regs"
  shows "grows d (snd (TryGetService regs T key d))"
proof (cases "map_of regs key")
  case None
  then show ?thesis by (simp add: TryGetService_def)
next
  case (Some reg)
  then have f: "\<And>d. grows d (snd (factory_of reg d))" using assms by (auto simp: respectful_def)
  show ?thesis
    using typedSingleton_grows [OF f] typedScoped_grows [OF f] f Some
    by (auto simp: TryGetService_def snd_andThen_Return split: lifetime.splits)
qed

text \<open>
  Later states: those that resolutions, and (unless the scope has to stay the same) fresh scopes
  over the same container, lead to. The type a service is resolved at does not matter to the
  state, so one result type stands for all.
\<close>

inductive later :: "('v, 'w) registrations \<Rightarrow> bool \<Rightarrow> ('v, 'w) di \<Rightarrow> ('v, 'w) di \<Rightarrow> bool"
  for regs same where
  same: "later regs same d d"
| resolve: "later regs same d d' \<Longrightarrow>
    later regs same d (snd (TryGetService regs (T :: ('v, 'v any) gotype) key d'))"
| fresh_scope: "later regs same d d' \<Longrightarrow> \<not> same \<Longrightarrow> later regs same d (NewScope d')"

lemma later_singletons:
  assumes "later regs same d d'" and "respectful regs" and "map_of (singletons d) k = Some v"
  shows "map_of (singletons d') k = Some v"
  using assms
proof (induction rule: later.induct)
  case (resolve d d' T key)
  show ?case
    using TryGetService_grows [OF resolve.prems(1)] resolve.IH [OF resolve.prems]
    by (rule grows_singletons)
qed (auto simp: NewScope_def)

lemma later_scoped:
  assumes "later regs True d d'" and "respectful regs" and "scoped d = Some m" and "map_of m k = Some v"
  shows "\<exists>m'. scoped d' = Some m' \<and> map_of m' k = Some v"
  using assms
proof (induction rule: later.induct)
  case (resolve d d' T key)
  then obtain m' where "scoped d' = Some m'" and "map_of m' k = Some v" by blast
  then show ?case by (rule grows_scoped [OF TryGetService_grows [OF resolve.prems(1)]])
qed auto

lemma andThen_Return_iff:
  "andThen m (\<lambda>v d'. (Return (h v), d')) = (Return x, d1) \<longleftrightarrow>
     (\<exists>v. m = (Return v, d1) \<and> x = h v)"
  by (cases m; cases "fst m") auto

lemma typedSingleton_stores:
  "typedSingleton T key reg d = (Return v, d1) \<Longrightarrow>
    \<exists>x. map_of (singletons d1) key = Some x \<and> asType T x = v"
  by (cases "withNilScope (factory_of reg) d"; cases "fst (withNilScope (factory_of reg) d)")
    (auto simp: typedSingleton_def split: option.splits)

lemma typedScoped_stores:
  "typedScoped T key reg d = (Return v, d1) \<Longrightarrow>
    \<exists>m x. scoped d1 = Some m \<and> map_of m key = Some x \<and> asType T x = v"
  by (cases "factory_of reg d"; cases "fst (factory_of reg d)")
    (auto simp: typedScoped_def split: option.splits)

section \<open>Concurrent first resolution\<close>

text \<open>
  \<open>typedSingleton\<close> and \<open>typedScoped\<close> release their lock while the factory runs. Here is what any
  number of goroutines resolving one key do to the one slot of that key: each checks the slot
  under the lock, runs its factory outside it, and checks again under the lock before it stores.
  Which goroutine moves next, and what each factory returns, is not determined.
\<close>

datatype 'a resolver = AtCheck | InFactory | HasValue 'a | Finished 'a

record 'a slot =
  stored :: "'a option"
  resolvers :: "nat \<Rightarrow> 'a resolver"

inductive resolveStep :: "'a slot \<Rightarrow> 'a slot \<Rightarrow> bool" where
  check_hit: "resolvers s i = AtCheck \<Longrightarrow> stored s = Some v \<Longrightarrow>
    resolveStep s (s\<lparr>resolvers := (resolvers s)(i := Finished v)\<rparr>)"
| check_miss: "resolvers s i = AtCheck \<Longrightarrow> stored s = None \<Longrightarrow>
    resolveStep s (s\<lparr>resolvers := (resolvers s)(i := InFactory)\<rparr>)"
| built: "resolvers s i = InFactory \<Longrightarrow>
    resolveStep s (s\<lparr>resolvers := (resolvers s)(i := HasValue v)\<rparr>)"
| store_lost: "resolvers s i = HasValue v \<Longrightarrow> stored s = Some w \<Longrightarrow>
    resolveStep s (s\<lparr>resolvers := (resolvers s)(i := Finished w)\<rparr>)"
| store_won: "resolvers s i = HasValue v \<Longrightarrow> stored s = None \<Longrightarrow>
    resolveStep s (s\<lparr>stored := Some v, resolvers := (resolvers s)(i := Finished v)\<rparr>)"

definition slotInit :: "'a slot" where
  "slotInit = \<lparr>stored = None, resolvers = (\<lambda>_. AtCheck)\<rparr>"

inductive slotReachable :: "'a slot \<Rightarrow> bool" where
  init: "slotReachable slotInit"
| step: "slotReachable s \<Longrightarrow> resolveStep s t \<Longrightarrow> slotReachable t"

definition slotInv :: "'a slot \<Rightarrow> bool" where
  "slotInv s \<longleftrightarrow> (\<forall>i v. resolvers s i = Finished v \<longrightarrow> stored s = Some v)"

lemma resolveStep_inv: "resolveStep s t \<Longrightarrow> slotInv s \<Longrightarrow> slotInv t"
  by (induction rule: resolveStep.induct) (force simp: slotInv_def)+

lemma slotReachable_inv: "slotReachable s \<Longrightarrow> slotInv s"
proof (induction rule: slotReachable.induct)
  case init
  show ?case by (simp add: slotInv_def slotInit_def)
next
  case (step s t)
  then show ?case by (blast intro: resolveStep_inv)
qed

lemma resolveStep_stored: "resolveStep s t \<Longrightarrow> stored s = Some v \<Longrightarrow> stored t = Some v"
  by (induction rule: resolveStep.induct) auto

lemma resolveSteps_stored: "resolveStep\<^sup>*\<^sup>* s t \<Longrightarrow> stored s = Some v \<Longrightarrow> stored t = Some v"
  by (induction rule: rtranclp_induct) (auto dest: resolveStep_stored)

lemma slotReachable_steps: "resolveStep\<^sup>*\<^sup>* s t \<Longrightarrow> slotReachable s \<Longrightarrow> slotReachable t"
  by (induction rule: rtranclp_induct) (auto intro: slotReachable.step)

section \<open>Properties\<close>

text \<open>A singleton is built once and shared: after one resolution of it, in any
  scope, every later resolution in any scope yields the same value and changes nothing, so its
  factory does not run again. A scoped service is shared in the same way by every later
  resolution of the same scope.\<close>

theorem instances_are_shared:
  fixes d d1 d2 :: "('v, 'w) di"
  assumes "respectful regs" and "map_of regs key = Some reg"
    and "TryGetService regs T key d = (Return (v, True), d1)"
    and "lifetime_of reg = lifetimeSingleton \<and> later regs False d1 d2 \<and> scoped d2 \<noteq> None \<or>
         lifetime_of reg = lifetimeScoped \<and> later regs True d1 d2"
  shows "TryGetService regs T key d2 = (Return (v, True), d2)"
  using assms(4)
proof (elim disjE conjE)
  assume single: "lifetime_of reg = lifetimeSingleton" and l: "later regs False d1 d2"
    and sc: "scoped d2 \<noteq> None"
  have "typedSingleton T key reg d = (Return v, d1)"
    using assms(2,3) single
    by (auto simp: TryGetService_def andThen_Return_iff split: if_splits)
  from typedSingleton_stores [OF this]
  obtain x where x: "map_of (singletons d1) key = Some x" "asType T x = v" by blast
  have "map_of (singletons d2) key = Some x"
    using l assms(1) x(1) by (rule later_singletons)
  with x(2) sc single assms(2) show ?thesis by (simp add: TryGetService_def typedSingleton_def)
next
  assume scope: "lifetime_of reg = lifetimeScoped" and l: "later regs True d1 d2"
  have "typedScoped T key reg d = (Return v, d1)"
    using assms(2,3) scope
    by (auto simp: TryGetService_def andThen_Return_iff split: if_splits)
  from typedScoped_stores [OF this]
  obtain m x where x: "scoped d1 = Some m" "map_of m key = Some x" "asType T x = v" by blast
  obtain m' where "scoped d2 = Some m'" and "map_of m' key = Some x"
    using later_scoped [OF l assms(1) x(1,2)] by blast
  with x(3) scope assms(2) show ?thesis by (simp add: TryGetService_def typedScoped_def)
qed

text \<open>A singleton whose factory counts its runs.\<close>

definition countingRegs :: "(nat, nat) registrations" where
  "countingRegs = AddSingleton NewContainer (KeyString ''db'')
     (\<lambda>d. (Return (Val ''DB'' (di_env d)), d\<lparr>di_env := Suc (di_env d)\<rparr>))"

definition natValue :: "(nat, nat) gotype" where
  "natValue = \<lparr>gt_assert = (\<lambda>v. case v of Val t n \<Rightarrow> Some n | _ \<Rightarrow> None), gt_zero = 0\<rparr>"

theorem instances_are_shared_witness:
  "TryGetService countingRegs natValue (KeyString ''db'')
     (NewScope \<lparr>singletons = [(KeyString ''db'', Val ''DB'' 7)], scoped = Some [], di_env = 8\<rparr>) =
   (Return (7, True),
     NewScope \<lparr>singletons = [(KeyString ''db'', Val ''DB'' 7)], scoped = Some [], di_env = 8\<rparr>)"
proof -
  let ?d = "\<lparr>singletons = [], scoped = Some [], di_env = 7\<rparr> :: (nat, nat) di"
  let ?d1 = "\<lparr>singletons = [(KeyString ''db'', Val ''DB'' 7)], scoped = Some [], di_env = 8\<rparr>
     :: (nat, nat) di"
  let ?reg = "\<lparr>lifetime_of = lifetimeSingleton,
     factory_of = (\<lambda>d. (Return (Val ''DB'' (di_env d)), d\<lparr>di_env := Suc (di_env d)\<rparr>))\<rparr>
     :: (nat, nat) registration"
  have keep: "respectful countingRegs"
    by (auto simp: respectful_def countingRegs_def AddSingleton_def add_def NewContainer_def
        grows_def split: if_splits option.splits)
  have reg: "map_of countingRegs (KeyString ''db'') = Some ?reg"
    by (simp add: countingRegs_def AddSingleton_def add_def NewContainer_def)
  have first: "TryGetService countingRegs natValue (KeyString ''db'') ?d = (Return (7, True), ?d1)"
    by (simp add: TryGetService_def reg typedSingleton_def withNilScope_def asType_def natValue_def)
  have after: "later countingRegs False ?d1 (NewScope ?d1)"
    by (rule later.fresh_scope [OF later.same]) simp
  show ?thesis
    by (rule instances_are_shared [OF keep reg first]) (simp add: after, simp add: NewScope_def)
qed

text \<open>However many goroutines race to resolve a service that does not exist yet, and
  in whatever order they move and whatever their factories build, all that finish return one and
  the same instance, the stored one, and a stored instance is never replaced.\<close>

theorem racing_resolvers_agree:
  assumes "slotReachable s" and "resolvers s i = Finished v"
    and "resolveStep\<^sup>*\<^sup>* s t" and "resolvers t j = Finished w"
  shows "v = w \<and> stored t = Some v"
proof -
  have "stored s = Some v"
    using slotReachable_inv [OF assms(1)] assms(2) by (simp add: slotInv_def)
  with assms(3) have "stored t = Some v" by (rule resolveSteps_stored)
  moreover have "stored t = Some w"
    using slotReachable_inv [OF slotReachable_steps [OF assms(3,1)]] assms(4)
    by (simp add: slotInv_def)
  ultimately show ?thesis by simp
qed

text \<open>Two goroutines both run their factory; the second to store keeps the first one's value.\<close>

theorem racing_resolvers_agree_witness:
  "\<exists>t :: nat slot. resolvers t 0 = Finished 10 \<and> resolvers t 1 = Finished 10 \<and> stored t = Some 10"
proof -
  let ?s0 = "slotInit :: nat slot"
  let ?s1 = "?s0\<lparr>resolvers := (resolvers ?s0)(0 := InFactory)\<rparr>"
  let ?s2 = "?s1\<lparr>resolvers := (resolvers ?s1)(1 := InFactory)\<rparr>"
  let ?s3 = "?s2\<lparr>resolvers := (resolvers ?s2)(0 := HasValue 10)\<rparr>"
  let ?s4 = "?s3\<lparr>resolvers := (resolvers ?s3)(1 := HasValue 20)\<rparr>"
  let ?s5 = "?s4\<lparr>stored := Some 10, resolvers := (resolvers ?s4)(0 := Finished 10)\<rparr>"
  let ?s6 = "?s5\<lparr>resolvers := (resolvers ?s5)(1 := Finished 10)\<rparr>"
  have "slotReachable ?s1"
    by (rule slotReachable.step [OF slotReachable.init], rule check_miss) (simp_all add: slotInit_def)
  then have "slotReachable ?s2"
    by (rule slotReachable.step, intro check_miss) (simp_all add: slotInit_def)
  then have "slotReachable ?s3"
    by (rule slotReachable.step, intro built) (simp add: slotInit_def)
  then have "slotReachable ?s4"
    by (rule slotReachable.step, intro built) (simp add: slotInit_def)
  then have reach: "slotReachable ?s5"
    by (rule slotReachable.step, intro store_won) (simp_all add: slotInit_def)
  have last: "resolveStep ?s5 ?s6" by (rule store_lost) (simp_all add: slotInit_def)
  have "10 = (10 :: nat) \<and> stored ?s6 = Some 10"
    by (rule racing_resolvers_agree [OF reach _ r_into_rtranclp [where r = resolveStep, OF last],
          of 0 10 1 10]) (simp_all add: slotInit_def)
  then show ?thesis by (intro exI [of _ ?s6]) simp
qed

end
