(* ===== verification/App.thy ===== *)
theory App
  imports Container
begin

text \<open>
  The application lifecycle (\<^verbatim>\<open>app.go\<close>): the three phases, the builder they configure and the
  pipeline that is installed when none was. A phase is the application's code, so it is a
  function of the model's state; a phase that was left nil is \<open>None\<close>. A phase may panic, and
  nothing recovers it.
\<close>

record ('v, 'w, 'd) applicationBuilder =
  b_Registry :: "('v, 'w) erasedHandler registry"
  b_Container :: "('v, 'd) registrations"
  b_Pipeline :: "('v, 'w) middleware list option"
  b_ReservedNames :: reserved_names

record ('v, 'w, 'd, 'c) app =
  GetConfiguration :: "'c outcome option"
  ConfigureServices :: "(('v, 'w) erasedHandler registry \<Rightarrow> ('v, 'd) registrations \<Rightarrow> 'c \<Rightarrow>
    (('v, 'w) erasedHandler registry \<times> ('v, 'd) registrations) outcome) option"
  Configure :: "(('v, 'w, 'd) applicationBuilder \<Rightarrow> 'c \<Rightarrow> ('v, 'w, 'd) applicationBuilder outcome) option"

definition UsePipeline ::
  "('v, 'w) middleware list \<Rightarrow> ('v, 'w, 'd) applicationBuilder \<Rightarrow> ('v, 'w, 'd) applicationBuilder" where
  "UsePipeline pipeline b = b\<lparr>b_Pipeline := Some pipeline\<rparr>"

definition UseDefaultPipeline :: "('v, 'w, 'd) applicationBuilder \<Rightarrow> ('v, 'w, 'd) applicationBuilder" where
  "UseDefaultPipeline b = UsePipeline (NewPipeline [snd (RouterMiddleware (b_Registry b)
     [WithVersionKey (names_Version (b_ReservedNames b))])]) b"

definition UseReservedNames ::
  "reserved_names \<Rightarrow> ('v, 'w, 'd) applicationBuilder \<Rightarrow> ('v, 'w, 'd) applicationBuilder" where
  "UseReservedNames names b = b\<lparr>b_ReservedNames := names\<rparr>"

text \<open>The zero value of \<^verbatim>\<open>wire.ReservedNames\<close>: every name is read as its default.\<close>

definition zeroNames :: reserved_names where
  "zeroNames = \<lparr>rn_TopicKey = '''', rn_CorrelationKey = '''', rn_VersionKey = ''''\<rparr>"

text \<open>A nil phase does nothing; the zero configuration is an argument.\<close>

definition getConfig :: "('v, 'w, 'd, 'c) app \<Rightarrow> 'c \<Rightarrow> 'c outcome" where
  "getConfig a zero = (case GetConfiguration a of None \<Rightarrow> Return zero | Some f \<Rightarrow> f)"

definition runServices :: "('v, 'w, 'd, 'c) app \<Rightarrow> 'c \<Rightarrow>
    (('v, 'w) erasedHandler registry \<times> ('v, 'd) registrations) outcome" where
  "runServices a config = (case ConfigureServices a of
      None \<Rightarrow> Return (NewRegistry, NewContainer)
    | Some f \<Rightarrow> f NewRegistry NewContainer config)"

definition runConfigure :: "('v, 'w, 'd, 'c) app \<Rightarrow> 'c \<Rightarrow> ('v, 'w, 'd) applicationBuilder \<Rightarrow>
    ('v, 'w, 'd) applicationBuilder outcome" where
  "runConfigure a config b = (case Configure a of None \<Rightarrow> Return b | Some f \<Rightarrow> f b config)"

definition App_Run ::
  "('v, 'w, 'd, 'c) app \<Rightarrow> 'c \<Rightarrow> ('v, 'w, 'd) applicationBuilder outcome" where
  "App_Run a zero =
    (case getConfig a zero of
       Panic p \<Rightarrow> Panic p
     | Return config \<Rightarrow>
         (case runServices a config of
            Panic p \<Rightarrow> Panic p
          | Return (registry, container) \<Rightarrow>
              map_outcome (\<lambda>b. if b_Pipeline b = None then UseDefaultPipeline b else b)
                (runConfigure a config \<lparr>b_Registry = registry, b_Container = container,
                   b_Pipeline = None, b_ReservedNames = zeroNames\<rparr>)))"

lemma App_Run_Return:
  assumes "App_Run a zero = Return b"
  obtains config registry container b0 where
    "getConfig a zero = Return config" "runServices a config = Return (registry, container)"
    "runConfigure a config \<lparr>b_Registry = registry, b_Container = container,
       b_Pipeline = None, b_ReservedNames = zeroNames\<rparr> = Return b0"
    "b = (if b_Pipeline b0 = None then UseDefaultPipeline b0 else b0)"
  using assms by (auto simp: App_Run_def map_outcome_eq_Return split: outcome.splits prod.splits)

lemma names_Version_nonempty [simp]: "names_Version n \<noteq> ''''"
  by (simp add: names_Version_def DefaultVersionKey_def)

lemma routerKey_names [simp]: "routerKey [WithVersionKey (names_Version n)] = names_Version n"
  by (simp add: routerKey_def WithVersionKey_def)

lemma Run_single: "Run (Some [mw]) c s = mw c done_run s"
proof -
  have "runFrom [mw] (Suc 0) = done_run"
    by (rule ext)+ (simp add: runFrom.simps [of "[mw]" "Suc 0"] done_run_def)
  then show ?thesis by (simp add: Run_def runFrom.simps [of "[mw]" 0])
qed

lemma default_pipeline_routes:
  "Run (b_Pipeline (UseDefaultPipeline b)) c s =
    (Return None, setResult (fst (routed (b_Registry b) (names_Version (b_ReservedNames b)) c s))
       (snd (routed (b_Registry b) (names_Version (b_ReservedNames b)) c s)))"
  by (simp add: UseDefaultPipeline_def UsePipeline_def NewPipeline_def Run_single router_routed
      done_run_def)

section \<open>Properties\<close>

text \<open>An application that starts ends up with a pipeline: its own one when
  Configure installed one, and otherwise the router alone over the registry Configure left,
  reading the version under the builder's reserved name. Under that default every message gets a
  result and no error, the one the router's own middleware gives; nothing else of the builder changes,
  and the phases ran in order, each on what the one before it made.\<close>

theorem app_run_default_pipeline:
  fixes b :: "('v, 'w, 'd) applicationBuilder"
  assumes "App_Run a zero = Return b"
  shows "\<exists>config registry container b0.
    getConfig a zero = Return config \<and> runServices a config = Return (registry, container) \<and>
    runConfigure a config \<lparr>b_Registry = registry, b_Container = container,
       b_Pipeline = None, b_ReservedNames = zeroNames\<rparr> = Return b0 \<and>
    b\<lparr>b_Pipeline := b_Pipeline b0\<rparr> = b0 \<and> b_Pipeline b \<noteq> None \<and>
    (\<forall>ms. b_Pipeline b0 = Some ms \<longrightarrow> b_Pipeline b = Some ms) \<and>
    (b_Pipeline b0 = None \<longrightarrow> (\<forall>c s. \<exists>res s'.
       Run (b_Pipeline b) c s = (Return None, setResult res s') \<and>
       snd (RouterMiddleware (b_Registry b) [WithVersionKey (names_Version (b_ReservedNames b))])
         c done_run s = done_run c (setResult res s')))"
proof -
  obtain config registry container b0 where phases:
    "getConfig a zero = Return config" "runServices a config = Return (registry, container)"
    "runConfigure a config \<lparr>b_Registry = registry, b_Container = container,
       b_Pipeline = None, b_ReservedNames = zeroNames\<rparr> = Return b0"
    and b: "b = (if b_Pipeline b0 = None then UseDefaultPipeline b0 else b0)"
    using assms by (rule App_Run_Return)
  have kept: "b_Registry b = b_Registry b0" "b_ReservedNames b = b_ReservedNames b0"
    "b_Pipeline b \<noteq> None" "b\<lparr>b_Pipeline := b_Pipeline b0\<rparr> = b0"
    "b_Pipeline b0 = Some ms \<Longrightarrow> b_Pipeline b = Some ms" for ms
    using b by (auto simp: UseDefaultPipeline_def UsePipeline_def split: if_splits)
  have routes: "\<exists>res s'. Run (b_Pipeline b) c s = (Return None, setResult res s') \<and>
      snd (RouterMiddleware (b_Registry b) [WithVersionKey (names_Version (b_ReservedNames b))])
         c done_run s = done_run c (setResult res s')"
    if "b_Pipeline b0 = None" for c s
    using that default_pipeline_routes [of b0 c s]
    by (auto simp: b UseDefaultPipeline_def UsePipeline_def router_routed done_run_def)
  show ?thesis
    by (intro exI conjI, rule phases, rule phases, rule phases)
      (use kept routes in blast)+
qed

text \<open>An application with one handler, registered in its services phase, and no pipeline.\<close>

definition greeterApp :: "(nat, unit, unit, unit) app" where
  "greeterApp = \<lparr>GetConfiguration = None,
    ConfigureServices = Some (\<lambda>registry container config. Return (panickyRegistry, container)),
    Configure = None\<rparr>"

theorem app_run_default_pipeline_witness:
  "\<exists>b. App_Run greeterApp () = Return b \<and> b_Registry b = panickyRegistry \<and> b_Pipeline b \<noteq> None"
proof -
  obtain b where b: "App_Run greeterApp () = Return b"
    by (simp add: App_Run_def greeterApp_def getConfig_def runServices_def runConfigure_def)
  from app_run_default_pipeline [OF b] b show ?thesis
    by (auto simp: greeterApp_def getConfig_def runServices_def runConfigure_def)
      (metis applicationBuilder.select_convs(1) applicationBuilder.surjective
        applicationBuilder.update_convs(3))
qed

end
