(* ===== verification/Json.thy ===== *)
theory Json
  imports Prelude
begin

text \<open>
  The part of \<^verbatim>\<open>encoding/json\<close> that the wire formats rest on: the JSON grammar, printing as
  \<^verbatim>\<open>json.Marshal\<close> does it (compact, with HTML characters and line separators escaped) and
  parsing as \<^verbatim>\<open>json.Unmarshal\<close> does it (surrounding blanks allowed, \<^verbatim>\<open>\u\<close> escapes and surrogate
  pairs decoded to UTF-8, malformed bytes replaced by U+FFFD). Strings are bytes and a number is
  kept as its literal. Parsing reports that a text is malformed, not how the library words it.
  Nothing here has an entry in the source map.
\<close>

datatype json =
    JNull
  | JBool bool
  | JNum string
  | JStr string
  | JArr "json list"
  | JObj "(string \<times> json) list"

section \<open>Strings\<close>

abbreviation quoteC :: char where "quoteC \<equiv> CHR 0x22"
abbreviation backslashC :: char where "backslashC \<equiv> CHR 0x5C"

definition escapeChar :: "char \<Rightarrow> string" where
  "escapeChar c =
    (if c = quoteC then [backslashC, quoteC]
     else if c = backslashC then [backslashC, backslashC]
     else if c = CHR 0x08 then [backslashC, CHR ''b'']
     else if c = CHR 0x0C then [backslashC, CHR ''f'']
     else if c = CHR 0x0A then [backslashC, CHR ''n'']
     else if c = CHR 0x0D then [backslashC, CHR ''r'']
     else if c = CHR 0x09 then [backslashC, CHR ''t'']
     else if (of_char c :: nat) < 32 \<or> c = CHR ''<'' \<or> c = CHR ''>'' \<or> c = CHR ''&''
       then [backslashC, CHR ''u'', CHR ''0'', CHR ''0'', hexDigit (of_char c div 16),
             hexDigit (of_char c mod 16)]
     else [c])"

text \<open>
  How many bytes the UTF-8 sequence at the front of a string has, 0 when it is malformed: only
  shortest forms, no surrogates, nothing beyond U+10FFFF.
\<close>

definition byteIn :: "nat \<Rightarrow> nat \<Rightarrow> char \<Rightarrow> bool" where
  "byteIn lo hi c \<longleftrightarrow> lo \<le> of_char c \<and> of_char c \<le> hi"

definition runeTail :: "nat \<Rightarrow> (nat \<times> nat) \<Rightarrow> string \<Rightarrow> nat" where
  "runeTail n bounds cs = (case cs of
      [] \<Rightarrow> 0
    | d # ds \<Rightarrow> if byteIn (fst bounds) (snd bounds) d \<and> n \<le> length ds \<and>
        list_all (byteIn 128 191) (take n ds) then n + 2 else 0)"

definition runeLen :: "string \<Rightarrow> nat" where
  "runeLen s = (case s of
      [] \<Rightarrow> 0
    | c # cs \<Rightarrow>
        if byteIn 0 127 c then 1
        else if byteIn 194 223 c then runeTail 0 (128, 191) cs
        else if byteIn 224 224 c then runeTail 1 (160, 191) cs
        else if byteIn 237 237 c then runeTail 1 (128, 159) cs
        else if byteIn 225 239 c then runeTail 1 (128, 191) cs
        else if byteIn 240 240 c then runeTail 2 (144, 191) cs
        else if byteIn 244 244 c then runeTail 2 (128, 143) cs
        else if byteIn 241 243 c then runeTail 2 (128, 191) cs
        else 0)"

text \<open>U+2028 and U+2029, the bytes E2 80 A8 and E2 80 A9, are escaped too.\<close>

definition escapeRune :: "string \<Rightarrow> string" where
  "escapeRune r =
    (if r = [CHR 0xE2, CHR 0x80, CHR 0xA8] then backslashC # ''u2028''
     else if r = [CHR 0xE2, CHR 0x80, CHR 0xA9] then backslashC # ''u2029''
     else r)"

definition replacement :: string where
  "replacement = [CHR 0xEF, CHR 0xBF, CHR 0xBD]"

text \<open>A malformed byte becomes U+FFFD, as an escape when printed.\<close>

function escape :: "string \<Rightarrow> string" where
  "escape [] = []"
| "escape (c # cs) =
    (if byteIn 0 127 c then escapeChar c @ escape cs
     else (case runeLen (c # cs) of
         0 \<Rightarrow> (backslashC # ''ufffd'') @ escape cs
       | Suc n \<Rightarrow> escapeRune (c # take n cs) @ escape (drop n cs)))"
  by pat_completeness auto
termination by (relation "measure length") auto

function validText :: "string \<Rightarrow> bool" where
  "validText [] = True"
| "validText (c # cs) = (case runeLen (c # cs) of 0 \<Rightarrow> False | Suc n \<Rightarrow> validText (drop n cs))"
  by pat_completeness auto
termination by (relation "measure length") auto

definition hexVal :: "char \<Rightarrow> nat option" where
  "hexVal c = (let n = (of_char c :: nat) in
    if 48 \<le> n \<and> n \<le> 57 then Some (n - 48)
    else if 97 \<le> n \<and> n \<le> 102 then Some (n - 87)
    else if 65 \<le> n \<and> n \<le> 70 then Some (n - 55)
    else None)"

definition hex4 :: "char \<Rightarrow> char \<Rightarrow> char \<Rightarrow> char \<Rightarrow> nat option" where
  "hex4 a b c d = (case (hexVal a, hexVal b, hexVal c, hexVal d) of
      (Some w, Some x, Some y, Some z) \<Rightarrow> Some (((w * 16 + x) * 16 + y) * 16 + z)
    | _ \<Rightarrow> None)"

definition utf8 :: "nat \<Rightarrow> string" where
  "utf8 u =
    (if u < 128 then [char_of u]
     else if u < 2048 then [char_of (192 + u div 64), char_of (128 + u mod 64)]
     else if 55296 \<le> u \<and> u < 57344 then [CHR 0xEF, CHR 0xBF, CHR 0xBD]
     else if u < 65536 then [char_of (224 + u div 4096), char_of (128 + u div 64 mod 64),
       char_of (128 + u mod 64)]
     else [char_of (240 + u div 262144), char_of (128 + u div 4096 mod 64),
       char_of (128 + u div 64 mod 64), char_of (128 + u mod 64)])"

definition prepend :: "'a list \<Rightarrow> ('a list \<times> 'b) option \<Rightarrow> ('a list \<times> 'b) option" where
  "prepend bs r = map_option (\<lambda>(s, rest). (bs @ s, rest)) r"

definition simpleEscape :: "char \<Rightarrow> char option" where
  "simpleEscape e =
    (if e = quoteC \<or> e = backslashC \<or> e = CHR ''/'' then Some e
     else if e = CHR ''b'' then Some (CHR 0x08)
     else if e = CHR ''f'' then Some (CHR 0x0C)
     else if e = CHR ''n'' then Some (CHR 0x0A)
     else if e = CHR ''r'' then Some (CHR 0x0D)
     else if e = CHR ''t'' then Some (CHR 0x09)
     else None)"

definition lowSurrogate :: "char \<Rightarrow> char \<Rightarrow> char \<Rightarrow> char \<Rightarrow> nat option" where
  "lowSurrogate a b c d = (case hex4 a b c d of
      Some l \<Rightarrow> if 56320 \<le> l \<and> l < 57344 then Some l else None
    | None \<Rightarrow> None)"

text \<open>The string literal after its opening quote: its value and what follows the closing quote.\<close>

function unescape :: "string \<Rightarrow> (string \<times> string) option" where
  "unescape [] = None"
| "unescape (c # cs) =
    (if c = quoteC then Some ([], cs)
     else if c = backslashC then (case cs of
         [] \<Rightarrow> None
       | e # es \<Rightarrow>
           if e = CHR ''u'' then (case es of
               h1 # h2 # h3 # h4 # rest \<Rightarrow> (case hex4 h1 h2 h3 h4 of
                   None \<Rightarrow> None
                 | Some u \<Rightarrow>
                     if 55296 \<le> u \<and> u < 56320 then (case rest of
                         x # y # l1 # l2 # l3 # l4 # rest2 \<Rightarrow>
                           (case (if x = backslashC \<and> y = CHR ''u'' then lowSurrogate l1 l2 l3 l4
                                  else None) of
                              Some l \<Rightarrow> prepend (utf8 (65536 + (u - 55296) * 1024 + (l - 56320)))
                                (unescape rest2)
                            | None \<Rightarrow> prepend (utf8 u) (unescape rest))
                       | _ \<Rightarrow> prepend (utf8 u) (unescape rest))
                     else prepend (utf8 u) (unescape rest))
             | _ \<Rightarrow> None)
           else (case simpleEscape e of
               None \<Rightarrow> None
             | Some ch \<Rightarrow> prepend [ch] (unescape es)))
     else if (of_char c :: nat) < 32 then None
     else if byteIn 0 127 c then prepend [c] (unescape cs)
     else (case runeLen (c # cs) of
         0 \<Rightarrow> prepend replacement (unescape cs)
       | Suc n \<Rightarrow> prepend (c # take n cs) (unescape (drop n cs))))"
  by pat_completeness auto
termination by (relation "measure length") auto

section \<open>Numbers\<close>

definition isDigit :: "char \<Rightarrow> bool" where
  "isDigit c \<longleftrightarrow> 48 \<le> (of_char c :: nat) \<and> (of_char c :: nat) \<le> 57"

definition numberChar :: "char \<Rightarrow> bool" where
  "numberChar c \<longleftrightarrow> isDigit c \<or> c \<in> {CHR ''-'', CHR ''+'', CHR ''.'', CHR ''e'', CHR ''E''}"

definition allDigits :: "string \<Rightarrow> bool" where
  "allDigits s \<longleftrightarrow> s \<noteq> [] \<and> list_all isDigit s"

definition validExponent :: "string \<Rightarrow> bool" where
  "validExponent s = (case s of
      [] \<Rightarrow> True
    | c # cs \<Rightarrow> (c = CHR ''e'' \<or> c = CHR ''E'') \<and> (case cs of
          [] \<Rightarrow> False
        | d # ds \<Rightarrow> if d = CHR ''+'' \<or> d = CHR ''-'' then allDigits ds else allDigits cs))"

definition validFraction :: "string \<Rightarrow> bool" where
  "validFraction s = (case s of
      [] \<Rightarrow> True
    | c # cs \<Rightarrow>
        if c = CHR ''.'' then takeWhile isDigit cs \<noteq> [] \<and> validExponent (dropWhile isDigit cs)
        else validExponent s)"

definition validNumber :: "string \<Rightarrow> bool" where
  "validNumber s =
    (let u = (case s of c # cs \<Rightarrow> if c = CHR ''-'' then cs else s | [] \<Rightarrow> []);
         ds = takeWhile isDigit u in
     ds \<noteq> [] \<and> (hd ds \<noteq> CHR ''0'' \<or> length ds = 1) \<and> validFraction (dropWhile isDigit u))"

section \<open>Printing\<close>

fun jprint :: "json \<Rightarrow> string" where
  "jprint JNull = ''null''"
| "jprint (JBool b) = (if b then ''true'' else ''false'')"
| "jprint (JNum s) = s"
| "jprint (JStr s) = [quoteC] @ escape s @ [quoteC]"
| "jprint (JArr js) = ''['' @ join '','' (map jprint js) @ '']''"
| "jprint (JObj ms) =
     ''{'' @ join '','' (map (\<lambda>(k, j). [quoteC] @ escape k @ [quoteC] @ '':'' @ jprint j) ms) @ ''}''"

text \<open>The same with another way to write a string's characters.\<close>

fun jprintWith :: "(string \<Rightarrow> string) \<Rightarrow> json \<Rightarrow> string" where
  "jprintWith esc JNull = ''null''"
| "jprintWith esc (JBool b) = (if b then ''true'' else ''false'')"
| "jprintWith esc (JNum s) = s"
| "jprintWith esc (JStr s) = [quoteC] @ esc s @ [quoteC]"
| "jprintWith esc (JArr js) = ''['' @ join '','' (map (jprintWith esc) js) @ '']''"
| "jprintWith esc (JObj ms) =
     ''{'' @ join '','' (map (\<lambda>(k, j). [quoteC] @ esc k @ [quoteC] @ '':'' @ jprintWith esc j) ms) @ ''}''"

lemma jprint_with: "jprint j = jprintWith escape j"
proof (induction j)
  case (JArr js)
  then have "map jprint js = map (jprintWith escape) js" by simp
  then show ?case by (simp only: jprint.simps jprintWith.simps)
next
  case (JObj ms)
  then have "map (\<lambda>(k, j). [quoteC] @ escape k @ [quoteC] @ '':'' @ jprint j) ms =
      map (\<lambda>(k, j). [quoteC] @ escape k @ [quoteC] @ '':'' @ jprintWith escape j) ms"
    by (fastforce intro: map_cong)
  then show ?case by (simp only: jprint.simps jprintWith.simps)
qed simp_all

section \<open>Parsing\<close>

definition isBlank :: "char \<Rightarrow> bool" where
  "isBlank c \<longleftrightarrow> c \<in> {CHR '' '', CHR 0x09, CHR 0x0A, CHR 0x0D}"

definition skipBlanks :: "string \<Rightarrow> string" where
  "skipBlanks s = dropWhile isBlank s"

definition keyword_at :: "string \<Rightarrow> json \<Rightarrow> string \<Rightarrow> (json \<times> string) option" where
  "keyword_at w j s = (if take (length w) s = w then Some (j, drop (length w) s) else None)"

definition parseNumber :: "string \<Rightarrow> (json \<times> string) option" where
  "parseNumber s =
    (if validNumber (takeWhile numberChar s)
     then Some (JNum (takeWhile numberChar s), dropWhile numberChar s) else None)"

text \<open>Every call spends one unit of fuel; \<open>jparse\<close> gives enough for its text.\<close>

fun parseValue :: "nat \<Rightarrow> string \<Rightarrow> (json \<times> string) option"
  and parseElems :: "nat \<Rightarrow> string \<Rightarrow> (json list \<times> string) option"
  and parseMembers :: "nat \<Rightarrow> string \<Rightarrow> ((string \<times> json) list \<times> string) option" where
  "parseValue 0 s = None"
| "parseValue (Suc n) s = (case skipBlanks s of
      [] \<Rightarrow> None
    | c # cs \<Rightarrow>
        if c = quoteC then map_option (\<lambda>(v, rest). (JStr v, rest)) (unescape cs)
        else if c = CHR ''{'' then (case skipBlanks cs of
            [] \<Rightarrow> None
          | d # ds \<Rightarrow> if d = CHR ''}'' then Some (JObj [], ds)
              else map_option (\<lambda>(ms, rest). (JObj ms, rest)) (parseMembers n (d # ds)))
        else if c = CHR ''['' then (case skipBlanks cs of
            [] \<Rightarrow> None
          | d # ds \<Rightarrow> if d = CHR '']'' then Some (JArr [], ds)
              else map_option (\<lambda>(js, rest). (JArr js, rest)) (parseElems n (d # ds)))
        else if c = CHR ''n'' then keyword_at ''null'' JNull (c # cs)
        else if c = CHR ''t'' then keyword_at ''true'' (JBool True) (c # cs)
        else if c = CHR ''f'' then keyword_at ''false'' (JBool False) (c # cs)
        else parseNumber (c # cs))"
| "parseElems 0 s = None"
| "parseElems (Suc n) s = (case parseValue n s of
      None \<Rightarrow> None
    | Some (j, r) \<Rightarrow> (case skipBlanks r of
        [] \<Rightarrow> None
      | c # cs \<Rightarrow> if c = CHR '']'' then Some ([j], cs)
          else if c = CHR '','' then prepend [j] (parseElems n cs) else None))"
| "parseMembers 0 s = None"
| "parseMembers (Suc n) s = (case skipBlanks s of
      [] \<Rightarrow> None
    | q # cs \<Rightarrow> if q \<noteq> quoteC then None else (case unescape cs of
        None \<Rightarrow> None
      | Some (k, r) \<Rightarrow> (case skipBlanks r of
          [] \<Rightarrow> None
        | co # rest \<Rightarrow> if co \<noteq> CHR '':'' then None else (case parseValue n rest of
            None \<Rightarrow> None
          | Some (j, r2) \<Rightarrow> (case skipBlanks r2 of
              [] \<Rightarrow> None
            | c # ds \<Rightarrow> if c = CHR ''}'' then Some ([(k, j)], ds)
                else if c = CHR '','' then prepend [(k, j)] (parseMembers n ds) else None)))))"

definition jparse :: "string \<Rightarrow> json option" where
  "jparse s = (case parseValue (2 * length s + 2) s of
      None \<Rightarrow> None
    | Some (j, rest) \<Rightarrow> if skipBlanks rest = [] then Some j else None)"

declare unescape.simps [simp del] escape.simps [simp del] validText.simps [simp del]

section \<open>Strings survive printing and parsing\<close>

lemma escape_Nil [simp]: "escape [] = []" and validText_Nil [simp]: "validText []"
  by (simp_all add: escape.simps validText.simps)

lemma prepend_simps [simp]:
  "prepend bs (Some (s, r)) = Some (bs @ s, r)" "prepend bs None = None"
  by (simp_all add: prepend_def)

lemma prepend_Some: "prepend bs x = Some (v, r) \<longleftrightarrow> (\<exists>w. x = Some (w, r) \<and> v = bs @ w)"
  by (cases x) (auto simp: prepend_def)

lemma hexVal_hexDigit: "n < 16 \<Longrightarrow> hexVal (hexDigit n) = Some n"
proof -
  have "\<forall>n \<in> set [0..<16]. hexVal (hexDigit n) = Some n" by code_simp
  then show "n < 16 \<Longrightarrow> hexVal (hexDigit n) = Some n" by simp
qed

lemma hexVal_0: "hexVal CHR ''0'' = Some 0"
  by (simp add: hexVal_def)

lemma unescape_hex:
  assumes "n < 128"
  shows "unescape (backslashC # CHR ''u'' # CHR ''0'' # CHR ''0'' # hexDigit (n div 16) #
    hexDigit (n mod 16) # rest) = prepend [char_of n] (unescape rest)"
proof -
  have "hex4 CHR ''0'' CHR ''0'' (hexDigit (n div 16)) (hexDigit (n mod 16)) = Some n"
    using assms by (simp add: hex4_def hexVal_0 hexVal_hexDigit)
  then show ?thesis using assms by (simp add: unescape.simps(2) [of backslashC] utf8_def)
qed

lemma unescape_plain:
  "byteIn 32 127 c \<Longrightarrow> c \<noteq> quoteC \<Longrightarrow> c \<noteq> backslashC \<Longrightarrow>
    unescape (c # rest) = prepend [c] (unescape rest)"
  by (auto simp: unescape.simps byteIn_def)

lemma unescape_escapeChar:
  assumes "byteIn 0 127 c"
  shows "unescape (escapeChar c @ rest) = prepend [c] (unescape rest)"
proof -
  have n: "(of_char c :: nat) < 128" using assms by (simp add: byteIn_def)
  have simple: "unescape (backslashC # e # rest) = prepend [x] (unescape rest)"
    if "simpleEscape e = Some x" "e \<noteq> CHR ''u''" for e x
    using that by (simp add: unescape.simps(2) [of backslashC])
  show ?thesis
    using unescape_hex [OF n, of rest] unescape_plain [of c rest] assms
    by (auto simp: escapeChar_def simple simpleEscape_def byteIn_def)
qed

lemma runeTail_take:
  assumes "runeTail n b cs = Suc m"
  shows "m = Suc n \<and> Suc n \<le> length cs \<and> runeTail n b (take (Suc n) cs @ rest) = Suc m"
  using assms by (cases cs) (auto simp: runeTail_def min_def split: if_splits)

lemma runeLen_take:
  assumes "runeLen (c # cs) = Suc n"
  shows "n \<le> length cs \<and> runeLen (c # take n cs @ rest) = Suc n"
  using assms unfolding runeLen_def list.case
  by (auto dest!: runeTail_take [where rest = rest] split: if_splits)

lemma unescape_rune:
  assumes "\<not> byteIn 0 127 c" and "runeLen (c # cs) = Suc n"
  shows "unescape (c # take n cs @ rest) = prepend (c # take n cs) (unescape rest)"
proof -
  have "32 \<le> (of_char c :: nat)" "c \<noteq> quoteC" "c \<noteq> backslashC"
    using assms(1) by (auto simp: byteIn_def)
  with assms(1) runeLen_take [OF assms(2), of rest] show ?thesis
    by (simp add: unescape.simps(2) min_def)
qed

lemma unescape_separators:
  "unescape (backslashC # ''u2028'' @ rest) = prepend [CHR 0xE2, CHR 0x80, CHR 0xA8] (unescape rest)"
  "unescape (backslashC # ''u2029'' @ rest) = prepend [CHR 0xE2, CHR 0x80, CHR 0xA9] (unescape rest)"
proof -
  have "hex4 CHR ''2'' CHR ''0'' CHR ''2'' CHR ''8'' = Some 8232"
    and "hex4 CHR ''2'' CHR ''0'' CHR ''2'' CHR ''9'' = Some 8233"
    and "utf8 8232 = [CHR 0xE2, CHR 0x80, CHR 0xA8]" and "utf8 8233 = [CHR 0xE2, CHR 0x80, CHR 0xA9]"
    by (simp_all add: hex4_def hexVal_def utf8_def char_of_eq_iff take_bit_eq_mod)
  then show "unescape (backslashC # ''u2028'' @ rest) = prepend [CHR 0xE2, CHR 0x80, CHR 0xA8] (unescape rest)"
    and "unescape (backslashC # ''u2029'' @ rest) = prepend [CHR 0xE2, CHR 0x80, CHR 0xA9] (unescape rest)"
    by (simp_all add: unescape.simps(2) [of backslashC])
qed

lemma unescape_escapeRune:
  assumes "\<not> byteIn 0 127 c" and "runeLen (c # cs) = Suc n"
  shows "unescape (escapeRune (c # take n cs) @ rest) = prepend (c # take n cs) (unescape rest)"
  using unescape_rune [OF assms, of rest] unescape_separators [of rest]
  by (auto simp: escapeRune_def)

text \<open>The string printed is the string read back, whatever follows.\<close>

lemma unescape_escape:
  "validText s \<Longrightarrow> unescape (escape s @ quoteC # rest) = Some (s, rest)"
proof (induction s rule: escape.induct)
  case 1
  show ?case by (simp add: unescape.simps)
next
  case (2 c cs)
  show ?case
  proof (cases "byteIn 0 127 c")
    case True
    then have "runeLen (c # cs) = Suc 0" by (simp add: runeLen_def)
    with 2 True show ?thesis
      by (simp add: escape.simps(2) unescape_escapeChar validText.simps(2))
  next
    case False
    from 2(4) obtain n where n: "runeLen (c # cs) = Suc n" "validText (drop n cs)"
      by (auto simp: validText.simps(2) split: nat.splits)
    with 2(3) [OF False n(1) n(2)] False show ?thesis
      by (simp add: escape.simps(2) unescape_escapeRune)
  qed
qed

section \<open>Values survive printing and parsing\<close>

fun jvalid :: "json \<Rightarrow> bool" where
  "jvalid JNull = True"
| "jvalid (JBool b) = True"
| "jvalid (JNum s) = (validNumber s \<and> list_all numberChar s)"
| "jvalid (JStr s) = validText s"
| "jvalid (JArr js) = list_all jvalid js"
| "jvalid (JObj ms) = list_all (\<lambda>(k, j). validText k \<and> jvalid j) ms"

text \<open>What may follow a value: nothing that could extend a number.\<close>

definition stops :: "string \<Rightarrow> bool" where
  "stops rest \<longleftrightarrow> takeWhile numberChar rest = []"

lemma stops_simps [simp]:
  "stops []" "stops (CHR '','' # r)" "stops (CHR '']'' # r)" "stops (CHR ''}'' # r)"
  by (simp_all add: stops_def numberChar_def isDigit_def)

lemma skipBlanks_cons [simp]: "\<not> isBlank c \<Longrightarrow> skipBlanks (c # cs) = c # cs"
  by (simp add: skipBlanks_def)

lemma skipBlanks_length: "length (skipBlanks s) \<le> length s"
  by (simp add: skipBlanks_def length_dropWhile_le)

lemma not_blank [simp]:
  "\<not> isBlank quoteC" "\<not> isBlank CHR ''{''" "\<not> isBlank CHR ''}''" "\<not> isBlank CHR ''[''"
  "\<not> isBlank CHR '']''" "\<not> isBlank CHR '',''" "\<not> isBlank CHR '':''" "\<not> isBlank CHR ''n''"
  "\<not> isBlank CHR ''t''" "\<not> isBlank CHR ''f''"
  by (simp_all add: isBlank_def)

lemma number_head:
  assumes "validNumber s"
  obtains c cs where "s = c # cs" "isDigit c \<or> c = CHR ''-''"
proof (cases s)
  case Nil
  with assms show ?thesis by (simp add: validNumber_def)
next
  case (Cons c cs)
  with assms that show ?thesis
    by (cases "isDigit c"; cases "c = CHR ''-''") (auto simp: validNumber_def)
qed

lemma number_char_neq:
  "isDigit c \<or> c = CHR ''-'' \<Longrightarrow> \<not> isBlank c \<and>
    c \<notin> {quoteC, CHR ''{'', CHR ''['', CHR '']'', CHR ''n'', CHR ''t'', CHR ''f''}"
  by (auto simp: isDigit_def isBlank_def)

lemma parse_number:
  assumes "validNumber s" "list_all numberChar s" "stops rest"
  shows "parseValue (Suc n) (s @ rest) = Some (JNum s, rest)"
proof -
  have run: "takeWhile numberChar (s @ rest) = s" "dropWhile numberChar (s @ rest) = rest"
    using assms(2,3) by (auto simp: stops_def list_all_iff takeWhile_append dropWhile_append
        dropWhile_eq_self_iff takeWhile_eq_Nil_iff)
  obtain c cs where s: "s = c # cs" "isDigit c \<or> c = CHR ''-''"
    using number_head [OF assms(1)] .
  with number_char_neq [of c] run assms(1) show ?thesis
    by (simp add: parseNumber_def)
qed

text \<open>
  Printing and reading agree for every way of writing strings that reading undoes.
\<close>

locale string_printer =
  fixes esc :: "string \<Rightarrow> string"
  assumes unescape_esc: "validText s \<Longrightarrow> unescape (esc s @ quoteC # rest) = Some (s, rest)"
begin

abbreviation text_of :: "json \<Rightarrow> string" where "text_of \<equiv> jprintWith esc"

lemma text_head:
  assumes "jvalid j"
  obtains c cs where "text_of j = c # cs" "\<not> isBlank c" "c \<noteq> CHR '']''"
  using assms
proof (cases j)
  case (JNum s)
  with assms obtain c cs where "s = c # cs" "isDigit c \<or> c = CHR ''-''"
    using number_head [of s] by auto
  with JNum that number_char_neq [of c] show ?thesis by auto
next
  case (JBool b)
  with that show ?thesis by (cases b) auto
qed (auto simp: that)

definition item :: "string \<times> json \<Rightarrow> string" where
  "item kj = quoteC # esc (fst kj) @ quoteC # CHR '':'' # text_of (snd kj)"

lemma obj_text: "text_of (JObj ms) = ''{'' @ join '','' (map item ms) @ ''}''"
  by (simp add: item_def [abs_def] split_def)

definition reads :: "json \<Rightarrow> bool" where
  "reads j \<longleftrightarrow> (\<forall>n rest. 2 * length (text_of j) \<le> n \<longrightarrow> stops rest \<longrightarrow>
     parseValue n (text_of j @ rest) = Some (j, rest))"

lemma parse_elems:
  assumes "\<forall>j \<in> set js. reads j \<and> jvalid j" and "js \<noteq> []"
    and "2 * length (join '','' (map text_of js)) + 1 \<le> n"
  shows "parseElems n (join '','' (map text_of js) @ CHR '']'' # rest) = Some (js, rest)"
  using assms
proof (induction js arbitrary: n)
  case (Cons j js)
  then obtain m where n: "n = Suc m" by (cases n) auto
  have "2 * length (text_of j) \<le> m" using Cons.prems(3) n by (simp add: join_Cons split: if_splits)
  with Cons.prems(1) have j: "parseValue m (text_of j @ r) = Some (j, r)" if "stops r" for r
    using that by (simp add: reads_def)
  show ?case
  proof (cases "js = []")
    case True
    then show ?thesis using j by (simp add: n)
  next
    case False
    have "parseElems m (join '','' (map text_of js) @ CHR '']'' # rest) = Some (js, rest)"
      using Cons.IH [OF _ False] Cons.prems(1,3) n False by (auto simp: join_Cons)
    then show ?thesis using j False by (simp add: n join_Cons)
  qed
qed simp

lemma parse_members:
  assumes "\<forall>(k, j) \<in> set ms. reads j \<and> validText k" and "ms \<noteq> []"
    and "2 * length (join '','' (map item ms)) + 1 \<le> n"
  shows "parseMembers n (join '','' (map item ms) @ CHR ''}'' # rest) = Some (ms, rest)"
  using assms
proof (induction ms arbitrary: n)
  case (Cons kj ms)
  obtain k j where kj: "kj = (k, j)" by (cases kj)
  obtain m where n: "n = Suc m" using Cons.prems(3) by (cases n) auto
  have "2 * length (text_of j) \<le> m"
    using Cons.prems(3) n by (auto simp: join_Cons item_def kj split: if_splits)
  with Cons.prems(1) have j: "parseValue m (text_of j @ r) = Some (j, r)" if "stops r" for r
    using that by (simp add: reads_def kj)
  have k: "unescape (esc k @ quoteC # r) = Some (k, r)" for r
    using Cons.prems(1) unescape_esc by (simp add: kj)
  show ?case
  proof (cases "ms = []")
    case True
    then show ?thesis using j k by (simp add: n kj item_def)
  next
    case False
    have "parseMembers m (join '','' (map item ms) @ CHR ''}'' # rest) = Some (ms, rest)"
      using Cons.IH [OF _ False] Cons.prems(1,3) n False by (auto simp: join_Cons)
    then show ?thesis using j k False by (simp add: n join_Cons kj item_def [of "(k, j)"])
  qed
qed simp

lemma join_head: "xs \<noteq> [] \<Longrightarrow> hd xs = c # cs \<Longrightarrow> \<exists>ds. join sep xs = c # ds"
  by (cases xs) (auto simp: join_Cons)

lemma readsI:
  assumes "\<And>m rest. stops rest \<Longrightarrow> parseValue (Suc m) (text_of j @ rest) = Some (j, rest)"
    and "text_of j \<noteq> []"
  shows "reads j"
  unfolding reads_def
proof (intro allI impI)
  fix n and rest :: string
  assume "2 * length (text_of j) \<le> n" and "stops rest"
  with assms show "parseValue n (text_of j @ rest) = Some (j, rest)" by (cases n) auto
qed

lemma jvalid_reads: "jvalid j \<Longrightarrow> reads j"
proof (induction j)
  case (JArr js)
  have ih: "\<forall>j \<in> set js. reads j \<and> jvalid j" using JArr by (auto simp: list_all_iff)
  show ?case
    unfolding reads_def
  proof (intro allI impI)
    fix n and rest :: string
    assume n: "2 * length (text_of (JArr js)) \<le> n" and "stops rest"
    then obtain m where m: "n = Suc m" by (cases n) auto
    show "parseValue n (text_of (JArr js) @ rest) = Some (JArr js, rest)"
    proof (cases js)
      case Nil
      then show ?thesis using m by simp
    next
      case (Cons j js')
      then obtain c cs where head: "text_of j = c # cs" "\<not> isBlank c" "c \<noteq> CHR '']''"
        using ih text_head [of j] by auto
      then obtain ds where ds: "join '','' (map text_of js) = c # ds"
        using Cons join_head [of "map text_of js" c cs] by auto
      have "parseElems m (join '','' (map text_of js) @ CHR '']'' # rest) = Some (js, rest)"
        using n m Cons by (intro parse_elems [OF ih]) auto
      then show ?thesis using head(2,3) by (simp add: m ds)
    qed
  qed
next
  case (JObj ms)
  have ih: "\<forall>(k, j) \<in> set ms. reads j \<and> validText k"
    using JObj by (fastforce simp: list_all_iff)
  show ?case
    unfolding reads_def
  proof (intro allI impI)
    fix n and rest :: string
    assume n: "2 * length (text_of (JObj ms)) \<le> n" and "stops rest"
    then obtain m where m: "n = Suc m" by (cases n) auto
    show "parseValue n (text_of (JObj ms) @ rest) = Some (JObj ms, rest)"
    proof (cases ms)
      case Nil
      then show ?thesis using m by simp
    next
      case (Cons kj ms')
      then obtain ds where ds: "join '','' (map item ms) = quoteC # ds"
        using join_head [of "map item ms" quoteC] by (auto simp: item_def)
      have "parseMembers m (join '','' (map item ms) @ CHR ''}'' # rest) = Some (ms, rest)"
        using n m Cons unfolding obj_text by (intro parse_members [OF ih]) auto
      then show ?thesis unfolding obj_text by (simp add: m ds)
    qed
  qed
next
  case (JNum s)
  then have "s \<noteq> []" by (auto simp: validNumber_def)
  with JNum show ?case
    by (intro readsI) (simp_all add: parse_number del: parseValue.simps)
next
  case (JStr s)
  then show ?case by (intro readsI) (simp_all add: unescape_esc)
next
  case JNull
  show ?case by (intro readsI) (simp_all add: keyword_at_def)
next
  case (JBool b)
  show ?case by (intro readsI) (simp_all add: keyword_at_def)
qed

lemma jparse_text:
  assumes "jvalid j"
  shows "jparse (text_of j) = Some j"
proof -
  have "parseValue (2 * length (text_of j) + 2) (text_of j @ []) = Some (j, [])"
    using jvalid_reads [OF assms] unfolding reads_def by (metis le_add1 stops_simps(1))
  then show ?thesis by (simp add: jparse_def skipBlanks_def)
qed

end

interpretation marshal_printer: string_printer escape
  by unfold_locales (rule unescape_escape)

lemma jparse_jprint: "jvalid j \<Longrightarrow> jparse (jprint j) = Some j"
  unfolding jprint_with by (rule marshal_printer.jparse_text)

section \<open>The fuel is enough\<close>

text \<open>
  Parsing leaves a shorter text, so fuel of twice the length and two lets every call be made:
  any more fuel gives the same answer, and \<open>jparse\<close> fails on malformed text only.
\<close>

lemma prepend_SomeD: "prepend bs x = Some (v, r) \<Longrightarrow> \<exists>w. x = Some (w, r)"
  by (cases x) auto

lemma unescape_shorter: "unescape s = Some (v, r) \<Longrightarrow> length r < length s"
proof (induction s arbitrary: v r rule: measure_induct_rule [of length])
  case (less s)
  show ?case
  proof (cases s)
    case Nil
    with less.prems show ?thesis by (simp add: unescape.simps)
  next
    case (Cons c cs)
    have ih: "length r < k" if "prepend bs (unescape t) = Some (v, r)" "length t \<le> k" "length t < length s"
      for bs t k
      using that less.IH [of t] by (auto simp: prepend_Some)
    show ?thesis
      using less.prems unfolding Cons unescape.simps(2)
      by (auto simp: Cons dest: ih split: if_splits list.splits option.splits nat.splits)
  qed
qed

lemma skipBlanks_shorter: "skipBlanks s = c # cs \<Longrightarrow> length cs < length s"
  using skipBlanks_length [of s] by simp

lemma keyword_shorter: "keyword_at w j s = Some (j', r) \<Longrightarrow> w \<noteq> [] \<Longrightarrow> length r < length s"
  by (cases s) (auto simp: keyword_at_def split: if_splits)

lemma number_shorter: "parseNumber s = Some (j, r) \<Longrightarrow> length r < length s"
proof -
  assume "parseNumber s = Some (j, r)"
  then have "takeWhile numberChar s \<noteq> []" and r: "r = dropWhile numberChar s"
    by (auto simp: parseNumber_def validNumber_def split: if_splits)
  moreover have "length (takeWhile numberChar s) + length (dropWhile numberChar s) = length s"
    by (metis length_append takeWhile_dropWhile_id)
  ultimately show ?thesis by (cases "takeWhile numberChar s") auto
qed

lemma parse_shorter:
  "(\<forall>s j r. parseValue n s = Some (j, r) \<longrightarrow> length r < length s) \<and>
   (\<forall>s js r. parseElems n s = Some (js, r) \<longrightarrow> length r < length s) \<and>
   (\<forall>s ms r. parseMembers n s = Some (ms, r) \<longrightarrow> length r < length s)"
proof (induction n)
  case 0
  show ?case by simp
next
  case (Suc n)
  then have v: "\<And>s j r. parseValue n s = Some (j, r) \<Longrightarrow> length r < length s"
    and e: "\<And>s js r. parseElems n s = Some (js, r) \<Longrightarrow> length r < length s"
    and m: "\<And>s ms r. parseMembers n s = Some (ms, r) \<Longrightarrow> length r < length s"
    by blast+
  have "length r < length s" if "parseValue (Suc n) s = Some (j, r)" for s j r
    using that skipBlanks_length [of s]
    by (fastforce split: list.splits if_splits dest: e m unescape_shorter keyword_shorter
        number_shorter skipBlanks_shorter)
  moreover have "length r < length s" if "parseElems (Suc n) s = Some (js, r)" for s js r
    using that by (fastforce simp: prepend_Some split: option.splits list.splits if_splits
        dest: v e skipBlanks_shorter)
  moreover have "length r < length s" if "parseMembers (Suc n) s = Some (ms, r)" for s ms r
    using that by (fastforce simp: prepend_Some split: option.splits list.splits if_splits
        dest: v m unescape_shorter skipBlanks_shorter)
  ultimately show ?case by blast
qed

lemma fuel_enough:
  "(\<forall>s m. 2 * length s < n \<longrightarrow> n \<le> m \<longrightarrow> parseValue m s = parseValue n s) \<and>
   (\<forall>s m. 2 * length s + 1 < n \<longrightarrow> n \<le> m \<longrightarrow> parseElems m s = parseElems n s) \<and>
   (\<forall>s m. 2 * length s + 1 < n \<longrightarrow> n \<le> m \<longrightarrow> parseMembers m s = parseMembers n s)"
proof (induction n)
  case 0
  show ?case by simp
next
  case (Suc n)
  then have v: "\<And>s m. 2 * length s < n \<Longrightarrow> n \<le> m \<Longrightarrow> parseValue m s = parseValue n s"
    and e: "\<And>s m. 2 * length s + 1 < n \<Longrightarrow> n \<le> m \<Longrightarrow> parseElems m s = parseElems n s"
    and b: "\<And>s m. 2 * length s + 1 < n \<Longrightarrow> n \<le> m \<Longrightarrow> parseMembers m s = parseMembers n s"
    by blast+
  have "parseValue m s = parseValue (Suc n) s" if l: "2 * length s < Suc n" "Suc n \<le> m" for s m
  proof -
    obtain k where k: "m = Suc k" "n \<le> k" using l(2) by (cases m) auto
    show ?thesis
    proof (cases "skipBlanks s")
      case Nil
      then show ?thesis by (simp add: k(1))
    next
      case (Cons c cs)
      have "2 * length (skipBlanks cs) + 1 < n"
        using l(1) skipBlanks_shorter [OF Cons] skipBlanks_length [of cs] by linarith
      then have "parseElems k (skipBlanks cs) = parseElems n (skipBlanks cs)"
        "parseMembers k (skipBlanks cs) = parseMembers n (skipBlanks cs)"
        using k(2) by (auto intro: e b)
      with Cons show ?thesis by (cases "skipBlanks cs") (simp_all add: k(1))
    qed
  qed
  moreover have "parseElems m s = parseElems (Suc n) s" if l: "2 * length s + 1 < Suc n" "Suc n \<le> m" for s m
  proof -
    obtain k where k: "m = Suc k" "n \<le> k" using l(2) by (cases m) auto
    have "2 * length t + 1 < n" if "parseValue n s = Some (j, r)" "skipBlanks r = c # t" for j r c t
      using l(1) parse_shorter that skipBlanks_shorter [OF that(2)] by fastforce
    then show ?thesis using l(1)
      by (auto simp: k(1) v [OF _ k(2)] e [OF _ k(2)] split: option.split list.split)
  qed
  moreover have "parseMembers m s = parseMembers (Suc n) s" if l: "2 * length s + 1 < Suc n" "Suc n \<le> m" for s m
  proof -
    obtain k where k: "m = Suc k" "n \<le> k" using l(2) by (cases m) auto
    have val: "parseValue k t = parseValue n t"
      if "skipBlanks s = q # cs" "unescape cs = Some (x, r)" "skipBlanks r = co # t"
      for q cs x r co t
      using l(1) skipBlanks_shorter [OF that(1)] unescape_shorter [OF that(2)]
        skipBlanks_shorter [OF that(3)] by (intro v k(2)) linarith
    have more: "parseMembers k u = parseMembers n u"
      if "skipBlanks s = q # cs" "unescape cs = Some (x, r)"
      "skipBlanks r = co # t" "parseValue n t = Some (j, w)" "skipBlanks w = c # u"
      for q cs x r co t j w c u
    proof (intro b k(2))
      have "length w < length t" using parse_shorter that(4) by blast
      then show "2 * length u + 1 < n"
        using l(1) skipBlanks_shorter [OF that(1)] unescape_shorter [OF that(2)]
          skipBlanks_shorter [OF that(3)] skipBlanks_shorter [OF that(5)] by linarith
    qed
    show ?thesis
      by (simp add: k(1) val more split: option.split list.split cong: if_cong)
  qed
  ultimately show ?case by blast
qed

lemma jparse_fuel:
  assumes "2 * length s + 2 \<le> n"
  shows "jparse s = (case parseValue n s of
      None \<Rightarrow> None
    | Some (j, rest) \<Rightarrow> if skipBlanks rest = [] then Some j else None)"
proof -
  have "parseValue n s = parseValue (2 * length s + 2) s"
    using fuel_enough [of "2 * length s + 2"] assms by auto
  then show ?thesis by (simp only: jparse_def)
qed

end
