(* ===== verification/WireJson.thy ===== *)
theory WireJson
  imports Wire Json
begin

text \<open>
  The JSON codecs of the envelope and of the problem document (\<^verbatim>\<open>wire/envelope.go\<close>): encoding a
  struct by its field tags (\<^verbatim>\<open>omitempty\<close> included), decoding into a struct as
  \<^verbatim>\<open>encoding/json\<close> does it (an exact field name before a case-folded one, null leaves a scalar
  alone and clears a pointer, a map or a slice, a mistyped member is skipped and the whole
  decoding reported as failed), and the tolerant reader of problem documents. A decoder takes
  the value it decodes into and returns it updated, with whether everything had the right type.
\<close>

section \<open>Integers\<close>

fun natText :: "nat \<Rightarrow> string" where
  "natText n = (if n < 10 then [char_of (48 + n)] else natText (n div 10) @ [char_of (48 + n mod 10)])"

declare natText.simps [simp del]

definition intText :: "int \<Rightarrow> string" where
  "intText i = (if i < 0 then CHR ''-'' # natText (nat (- i)) else natText (nat i))"

definition natOf :: "string \<Rightarrow> nat" where
  "natOf s = foldl (\<lambda>a c. 10 * a + (of_char c - 48)) 0 s"

text \<open>\<^verbatim>\<open>strconv.ParseInt\<close> of a JSON number literal, at 64 bits.\<close>

definition parseInt :: "string \<Rightarrow> int option" where
  "parseInt s =
    (let ds = (if s \<noteq> [] \<and> hd s = CHR ''-'' then tl s else s);
         i = (if s \<noteq> [] \<and> hd s = CHR ''-'' then - int (natOf ds) else int (natOf ds)) in
     if allDigits ds \<and> - (2 ^ 63) \<le> i \<and> i < 2 ^ 63 then Some i else None)"

section \<open>Encoding\<close>

text \<open>The fields of a struct, each with whether it is written.\<close>

definition fields :: "(bool \<times> string \<times> json) list \<Rightarrow> json" where
  "fields fs = JObj (map snd (filter fst fs))"

text \<open>A map is written in key order; a nil one as null.\<close>

definition headersJson :: "bool \<Rightarrow> headers \<Rightarrow> json" where
  "headersJson isNil hs =
    (if isNil \<and> hs = [] then JNull else JObj (map (\<lambda>(k, v). (k, JStr v)) (sort_key fst hs)))"

definition requestJson :: "bool \<Rightarrow> request \<Rightarrow> json" where
  "requestJson isNil r = fields
    [(True, ''topic'', JStr (rq_Topic r)),
     (True, ''headers'', headersJson isNil (rq_Headers r)),
     (True, ''body'', JStr (rq_Body r))]"

definition responseJson :: "bool \<Rightarrow> response \<Rightarrow> json" where
  "responseJson isNil r = fields
    [(True, ''statusCode'', JStr (rs_StatusCode r)),
     (True, ''headers'', headersJson isNil (rs_Headers r)),
     (True, ''body'', JStr (rs_Body r)),
     (rs_IsSuccessful r \<noteq> None, ''isSuccessful'', JBool (rs_IsSuccessful r = Some True))]"

definition problemErrorJson :: "problem_error \<Rightarrow> json" where
  "problemErrorJson p = fields
    [(True, ''message'', JStr (pe_Message p)),
     (pe_Field p \<noteq> '''', ''field'', JStr (pe_Field p)),
     (pe_Code p \<noteq> '''', ''code'', JStr (pe_Code p))]"

definition errorPayloadFields :: "error_payload \<Rightarrow> (bool \<times> string \<times> json) list" where
  "errorPayloadFields e =
    [(ep_Type e \<noteq> '''', ''type'', JStr (ep_Type e)),
     (ep_Title e \<noteq> '''', ''title'', JStr (ep_Title e)),
     (ep_Status e \<noteq> None, ''status'', JNum (intText (case ep_Status e of None \<Rightarrow> 0 | Some i \<Rightarrow> i))),
     (ep_Detail e \<noteq> '''', ''detail'', JStr (ep_Detail e)),
     (ep_Instance e \<noteq> '''', ''instance'', JStr (ep_Instance e)),
     (ep_BenzeneStatus e \<noteq> '''', ''benzeneStatus'', JStr (ep_BenzeneStatus e)),
     (ep_Errors e \<noteq> [], ''errors'', JArr (map problemErrorJson (ep_Errors e)))]"

definition MarshalRequest :: "bool \<Rightarrow> request \<Rightarrow> string" where
  "MarshalRequest isNil r = jprint (requestJson isNil r)"

definition MarshalResponse :: "bool \<Rightarrow> response \<Rightarrow> string" where
  "MarshalResponse isNil r = jprint (responseJson isNil r)"

definition MarshalErrorPayload :: "error_payload \<Rightarrow> string" where
  "MarshalErrorPayload e = jprint (fields (errorPayloadFields e))"

section \<open>Decoding\<close>

type_synonym 'a decoder = "json \<Rightarrow> 'a \<Rightarrow> 'a \<times> bool"

fun decodeString :: "string decoder" where
  "decodeString (JStr s) old = (s, True)"
| "decodeString JNull old = (old, True)"
| "decodeString _ old = (old, False)"

fun decodeBoolPtr :: "bool option decoder" where
  "decodeBoolPtr (JBool b) old = (Some b, True)"
| "decodeBoolPtr JNull old = (None, True)"
| "decodeBoolPtr _ old = (Some (old = Some True), False)"

fun decodeIntPtr :: "int option decoder" where
  "decodeIntPtr (JNum n) old = (case parseInt n of
      Some i \<Rightarrow> (Some i, True)
    | None \<Rightarrow> (Some (case old of None \<Rightarrow> 0 | Some i \<Rightarrow> i), False))"
| "decodeIntPtr JNull old = (None, True)"
| "decodeIntPtr _ old = (Some (case old of None \<Rightarrow> 0 | Some i \<Rightarrow> i), False)"

text \<open>A mistyped entry of a map is kept with the zero value.\<close>

fun decodeHeaders :: "headers decoder" where
  "decodeHeaders (JObj ms) old =
     (fold (\<lambda>(k, j) m. AList.update k (fst (decodeString j '''')) m) ms old,
      list_all (\<lambda>(k, j). snd (decodeString j '''')) ms)"
| "decodeHeaders JNull old = ([], True)"
| "decodeHeaders _ old = (old, False)"

definition fieldFor :: "string list \<Rightarrow> string \<Rightarrow> string option" where
  "fieldFor names key = (if key \<in> set names then Some key else find (\<lambda>n. equalFold n key) names)"

text \<open>Decoding a struct: its members in order, each by the field it names, unknown ones ignored.\<close>

fun decodeStruct ::
  "string list \<Rightarrow> (string \<Rightarrow> 'a decoder) \<Rightarrow> 'a decoder" where
  "decodeStruct names field (JObj ms) old =
     fold (\<lambda>(k, j) (a, ok). (case fieldFor names k of
         None \<Rightarrow> (a, ok)
       | Some f \<Rightarrow> (case field f j a of (a', ok') \<Rightarrow> (a', ok \<and> ok')))) ms (old, True)"
| "decodeStruct names field JNull old = (old, True)"
| "decodeStruct names field _ old = (old, False)"

definition into :: "(('b \<Rightarrow> 'b) \<Rightarrow> 'a \<Rightarrow> 'a) \<Rightarrow> ('a \<Rightarrow> 'b) \<Rightarrow> 'b decoder \<Rightarrow> 'a decoder" where
  "into upd get d j a = (case d j (get a) of (b, ok) \<Rightarrow> (upd (\<lambda>_. b) a, ok))"

definition requestField :: "string \<Rightarrow> request decoder" where
  "requestField f =
    (if f = ''topic'' then into rq_Topic_update rq_Topic decodeString
     else if f = ''headers'' then into rq_Headers_update rq_Headers decodeHeaders
     else into rq_Body_update rq_Body decodeString)"

definition responseField :: "string \<Rightarrow> response decoder" where
  "responseField f =
    (if f = ''statusCode'' then into rs_StatusCode_update rs_StatusCode decodeString
     else if f = ''headers'' then into rs_Headers_update rs_Headers decodeHeaders
     else if f = ''body'' then into rs_Body_update rs_Body decodeString
     else into rs_IsSuccessful_update rs_IsSuccessful decodeBoolPtr)"

definition problemErrorField :: "string \<Rightarrow> problem_error decoder" where
  "problemErrorField f =
    (if f = ''message'' then into pe_Message_update pe_Message decodeString
     else if f = ''field'' then into pe_Field_update pe_Field decodeString
     else into pe_Code_update pe_Code decodeString)"

definition zeroProblemError :: problem_error where
  "zeroProblemError = \<lparr>pe_Message = '''', pe_Field = '''', pe_Code = ''''\<rparr>"

definition decodeProblemError :: "problem_error decoder" where
  "decodeProblemError = decodeStruct [''message'', ''field'', ''code''] problemErrorField"

text \<open>Elements decode into those the slice already has (a repeated member), then into fresh ones.\<close>

fun decodeElems :: "json list \<Rightarrow> problem_error list \<Rightarrow> (problem_error \<times> bool) list" where
  "decodeElems [] old = []"
| "decodeElems (j # js) [] = decodeProblemError j zeroProblemError # decodeElems js []"
| "decodeElems (j # js) (p # ps) = decodeProblemError j p # decodeElems js ps"

fun decodeErrors :: "problem_error list decoder" where
  "decodeErrors (JArr js) old =
     (map fst (decodeElems js old), list_all snd (decodeElems js old))"
| "decodeErrors JNull old = ([], True)"
| "decodeErrors _ old = (old, False)"

definition errorPayloadField :: "string \<Rightarrow> error_payload decoder" where
  "errorPayloadField f =
    (if f = ''type'' then into ep_Type_update ep_Type decodeString
     else if f = ''title'' then into ep_Title_update ep_Title decodeString
     else if f = ''status'' then into ep_Status_update ep_Status decodeIntPtr
     else if f = ''detail'' then into ep_Detail_update ep_Detail decodeString
     else if f = ''instance'' then into ep_Instance_update ep_Instance decodeString
     else if f = ''benzeneStatus'' then into ep_BenzeneStatus_update ep_BenzeneStatus decodeString
     else into ep_Errors_update ep_Errors decodeErrors)"

definition zeroErrorPayload :: error_payload where
  "zeroErrorPayload = \<lparr>ep_Type = '''', ep_Title = '''', ep_Status = None, ep_Detail = '''',
     ep_Instance = '''', ep_BenzeneStatus = '''', ep_Errors = []\<rparr>"

definition errorPayloadNames :: "string list" where
  "errorPayloadNames =
     [''type'', ''title'', ''status'', ''detail'', ''instance'', ''benzeneStatus'', ''errors'']"

definition decodeErrorPayload :: "error_payload decoder" where
  "decodeErrorPayload = decodeStruct errorPayloadNames errorPayloadField"

text \<open>The value decoded and whether the error is nil; malformed text decodes nothing.\<close>

definition unmarshal :: "'a decoder \<Rightarrow> 'a \<Rightarrow> string \<Rightarrow> 'a \<times> bool" where
  "unmarshal d zero data = (case jparse data of None \<Rightarrow> (zero, False) | Some j \<Rightarrow> d j zero)"

definition UnmarshalRequest :: "string \<Rightarrow> request \<times> bool" where
  "UnmarshalRequest data = unmarshal (decodeStruct [''topic'', ''headers'', ''body''] requestField)
     \<lparr>rq_Topic = '''', rq_Headers = [], rq_Body = ''''\<rparr> data"

definition UnmarshalResponse :: "string \<Rightarrow> response \<times> bool" where
  "UnmarshalResponse data =
     unmarshal (decodeStruct [''statusCode'', ''headers'', ''body'', ''isSuccessful''] responseField)
     \<lparr>rs_StatusCode = '''', rs_Headers = [], rs_Body = '''', rs_IsSuccessful = None\<rparr> data"

text \<open>
  The tolerant reader: when the strict decoding fails, the document is read as a map of raw
  members, the one named \<^verbatim>\<open>status\<close> is deleted, and what is left, in key order, is decoded.
  \<open>None\<close> is a non-nil error.
\<close>

definition rawMembers :: "(string \<times> json) list \<Rightarrow> (string \<times> json) list" where
  "rawMembers ms = fold (\<lambda>(k, j) m. AList.update k j m) ms []"

definition UnmarshalErrorPayload :: "string \<Rightarrow> error_payload option" where
  "UnmarshalErrorPayload data =
    (case unmarshal decodeErrorPayload zeroErrorPayload data of
       (e, True) \<Rightarrow> Some e
     | (_, False) \<Rightarrow> (case jparse data of
           Some (JObj ms) \<Rightarrow>
             (case decodeErrorPayload (JObj (sort_key fst (AList.delete ''status'' (rawMembers ms))))
                 zeroErrorPayload of
                (relaxed, True) \<Rightarrow> Some relaxed
              | (_, False) \<Rightarrow> None)
         | _ \<Rightarrow> None))"

section \<open>Integers survive\<close>

lemma digit_char: "d < 10 \<Longrightarrow> isDigit (char_of (48 + d :: nat)) \<and> of_char (char_of (48 + d :: nat)) = 48 + d"
  by (simp add: isDigit_def)

lemma natText_digits: "natText n \<noteq> [] \<and> list_all isDigit (natText n)"
  by (induction n rule: natText.induct)
    (subst (1 2) natText.simps, auto simp: digit_char simp del: char_of_nat)

lemma natOf_snoc: "natOf (s @ [c]) = 10 * natOf s + (of_char c - 48)"
  by (simp add: natOf_def)

lemma natOf_natText: "natOf (natText n) = n"
proof (induction n rule: natText.induct)
  case (1 n)
  show ?case
  proof (cases "n < 10")
    case True
    then show ?thesis using digit_char [of n] by (simp add: natText.simps [of n] natOf_def)
  next
    case False
    then show ?thesis
      using 1 digit_char [of "n mod 10"] by (simp add: natText.simps [of n] natOf_snoc)
  qed
qed

lemma natText_head: "hd (natText n) = CHR ''0'' \<Longrightarrow> natText n = ''0''"
proof (induction n rule: natText.induct)
  case (1 n)
  show ?case
  proof (cases "n < 10")
    case True
    then show ?thesis using 1(2) by (simp add: natText.simps [of n])
  next
    case False
    then have "hd (natText (n div 10)) = CHR ''0''"
      using 1(2) natText_digits [of "n div 10"] by (simp add: natText.simps [of n])
    then have "natOf (natText (n div 10)) = 0" using 1(1) [OF False] by (simp add: natOf_def)
    with False show ?thesis by (simp add: natOf_natText)
  qed
qed

lemma allDigits_run: "allDigits s \<Longrightarrow> takeWhile isDigit s = s \<and> dropWhile isDigit s = []"
  by (auto simp: allDigits_def list_all_iff takeWhile_eq_all_conv dropWhile_eq_Nil_conv)

lemma allDigits_natText: "allDigits (natText n)"
  using natText_digits by (simp add: allDigits_def)

lemma natText_no_sign: "hd (natText n) \<noteq> CHR ''-''"
  using natText_digits [of n] by (cases "natText n") (auto simp: isDigit_def)

lemma intText_number: "validNumber (intText i) \<and> list_all numberChar (intText i)"
proof -
  have num: "list_all numberChar (natText n)" for n
    using natText_digits [of n] by (auto simp: list_all_iff numberChar_def)
  have run: "takeWhile isDigit (natText n) = natText n" "dropWhile isDigit (natText n) = []"
    and first: "hd (natText n) = CHR ''0'' \<longrightarrow> length (natText n) = Suc 0" for n
    using allDigits_run [OF allDigits_natText [of n]] natText_head [of n] by auto
  have "(case natText n of [] \<Rightarrow> [] | c # cs \<Rightarrow> if c = CHR ''-'' then cs else natText n) = natText n" for n
    using natText_no_sign [of n] by (cases "natText n") auto
  then have pos: "validNumber (natText n)" for n
    using first [of n] natText_digits [of n]
    by (simp add: validNumber_def Let_def validFraction_def run)
  have neg: "validNumber (CHR ''-'' # natText n)" for n
    using first [of n] natText_digits [of n]
    by (simp add: validNumber_def Let_def validFraction_def run)
  show ?thesis using pos neg num by (simp add: intText_def numberChar_def)
qed

lemma parseInt_intText: "- (2 ^ 63) \<le> i \<Longrightarrow> i < 2 ^ 63 \<Longrightarrow> parseInt (intText i) = Some i"
  using natText_no_sign natText_digits
  by (auto simp: parseInt_def intText_def Let_def natOf_natText allDigits_natText)

section \<open>Structs survive\<close>

lemma fieldFor_own [simp]: "k \<in> set names \<Longrightarrow> fieldFor names k = Some k"
  by (simp add: fieldFor_def)

text \<open>One struct member, decoded when it is written.\<close>

definition memberStep ::
  "string list \<Rightarrow> (string \<Rightarrow> 'a decoder) \<Rightarrow> string \<times> json \<Rightarrow> 'a \<times> bool \<Rightarrow> 'a \<times> bool" where
  "memberStep names field kj s = (case kj of (k, j) \<Rightarrow> (case s of (a, ok) \<Rightarrow>
     (case fieldFor names k of
         None \<Rightarrow> (a, ok)
       | Some f \<Rightarrow> (case field f j a of (a', ok') \<Rightarrow> (a', ok \<and> ok')))))"

lemma decodeStruct_fold:
  "decodeStruct names field (JObj ms) old = fold (memberStep names field) ms (old, True)"
  by (simp add: memberStep_def [abs_def] split_def)

lemma fold_fields:
  "fold f (map snd (filter fst [])) s = s"
  "fold f (map snd (filter fst (x # xs))) s =
    fold f (map snd (filter fst xs)) (if fst x then f (snd x) s else s)"
  by simp_all

lemma memberStep_own:
  "k \<in> set names \<Longrightarrow> memberStep names field (k, j) (a, True) = field k j a"
  by (simp add: memberStep_def split: prod.split)

lemma jvalid_fields:
  "jvalid (fields fs) \<longleftrightarrow> (\<forall>(b, k, j) \<in> set fs. b \<longrightarrow> validText k \<and> jvalid j)"
  by (auto simp: fields_def list_all_iff)

lemma validText_ascii: "list_all (byteIn 0 127) s \<Longrightarrow> validText s"
  by (induction s) (auto simp: validText.simps runeLen_def)

definition validProblemError :: "problem_error \<Rightarrow> bool" where
  "validProblemError p \<longleftrightarrow> validText (pe_Message p) \<and> validText (pe_Field p) \<and> validText (pe_Code p)"

definition validErrorPayload :: "error_payload \<Rightarrow> bool" where
  "validErrorPayload e \<longleftrightarrow> validText (ep_Type e) \<and> validText (ep_Title e) \<and>
     validText (ep_Detail e) \<and> validText (ep_Instance e) \<and> validText (ep_BenzeneStatus e) \<and>
     list_all validProblemError (ep_Errors e) \<and>
     (case ep_Status e of None \<Rightarrow> True | Some i \<Rightarrow> - (2 ^ 63) \<le> i \<and> i < 2 ^ 63)"

lemma field_names_ascii:
  "list_all (\<lambda>k. validText k) [''topic'', ''headers'', ''body'', ''statusCode'', ''isSuccessful'',
    ''message'', ''field'', ''code'', ''type'', ''title'', ''status'', ''detail'', ''instance'',
    ''benzeneStatus'', ''errors'']"
  by (simp add: validText_ascii byteIn_def)

lemma validText_append: "validText a \<Longrightarrow> validText b \<Longrightarrow> validText (a @ b)"
proof (induction a rule: validText.induct)
  case (2 c cs)
  then obtain n where n: "runeLen (c # cs) = Suc n" "validText (drop n cs)"
    by (auto simp: validText.simps(2) split: nat.splits)
  have len: "n \<le> length cs" and more: "runeLen (c # take n cs @ drop n cs @ b) = Suc n"
    using runeLen_take [OF n(1)] by blast+
  have split: "take n cs @ drop n cs @ b = cs @ b"
    by (metis append.assoc append_take_drop_id)
  have "runeLen (c # cs @ b) = Suc n" using more by (simp only: split)
  moreover have "validText (drop n cs @ b)" using 2 n by blast
  ultimately show ?case using len by (simp add: validText.simps(2))
qed simp

lemma validText_join: "validText sep \<Longrightarrow> list_all validText xs \<Longrightarrow> validText (join sep xs)"
  by (induction xs) (auto simp: join_Cons validText_append)

lemma registry_valid:
  "list_all (\<lambda>(k, row). validText (ProblemBase @ pr_slug row) \<and> validText (pr_title row)) problemRegistry"
  by code_simp

lemma NewProblem_valid:
  assumes "validText status" and "list_all validProblemError errors"
  shows "validErrorPayload (NewProblem status errors)"
proof -
  have "validText (ProblemType status)" "validText (ProblemTitle status)"
    using registry_valid by (auto simp: ProblemType_def ProblemTitle_def goIndex_def list_all_iff
        split: option.split dest!: map_of_SomeD)
  moreover have "validText (join '', '' (map pe_Message errors))"
    using assms(2) by (intro validText_join)
      (auto simp: validText_ascii byteIn_def list_all_iff validProblemError_def)
  ultimately show ?thesis using assms by (simp add: validErrorPayload_def NewProblem_def)
qed

lemma problemErrorJson_valid: "validProblemError p \<Longrightarrow> jvalid (problemErrorJson p)"
  using field_names_ascii by (simp add: problemErrorJson_def jvalid_fields validProblemError_def)

lemma errorPayload_valid: "validErrorPayload e \<Longrightarrow> jvalid (fields (errorPayloadFields e))"
  using field_names_ascii
  by (auto simp: errorPayloadFields_def jvalid_fields validErrorPayload_def intText_number
      intText_number [unfolded list_all_iff] list_all_iff problemErrorJson_valid)

lemma decodeProblemError_Json:
  "decodeProblemError (problemErrorJson p) zeroProblemError = (p, True)"
  by (simp add: decodeProblemError_def problemErrorJson_def fields_def decodeStruct_fold fold_fields
      memberStep_own problemErrorField_def into_def zeroProblemError_def)

section \<open>Member order does not matter\<close>

lemma rawMembers_distinct: "distinct (map fst ms) \<Longrightarrow> rawMembers ms = ms"
proof -
  have "distinct (map fst (acc @ ms)) \<Longrightarrow> fold (\<lambda>(k, j) m. AList.update k j m) ms acc = acc @ ms" for acc
    by (induction ms arbitrary: acc) (auto simp: AList_update_fresh)
  from this [of "[]"] show "distinct (map fst ms) \<Longrightarrow> rawMembers ms = ms"
    by (simp add: rawMembers_def)
qed

lemma sort_map_snd: "sort_key f (map g xs) = map g (sort_key (\<lambda>x. f (g x)) xs)"
proof -
  have "insort_key f (g x) (map g ys) = map g (insort_key (\<lambda>x. f (g x)) x ys)" for x ys
    by (induction ys) auto
  then show ?thesis by (induction xs) simp_all
qed

lemma sort_fields:
  "sort_key fst (map snd (filter fst fs)) = map snd (filter fst (sort_key (\<lambda>x. fst (snd x)) fs))"
  by (simp add: sort_map_snd filter_sort)

text \<open>
  The members of a document with its errors written in any way that a problem error is read back
  from; \<open>readable\<close> says an encoding is such a way.
\<close>

definition fieldsWith :: "(problem_error \<Rightarrow> json) \<Rightarrow> error_payload \<Rightarrow> (string \<times> json) list" where
  "fieldsWith enc e = map snd (filter fst
    [(ep_Type e \<noteq> '''', ''type'', JStr (ep_Type e)),
     (ep_Title e \<noteq> '''', ''title'', JStr (ep_Title e)),
     (ep_Status e \<noteq> None, ''status'', JNum (intText (case ep_Status e of None \<Rightarrow> 0 | Some i \<Rightarrow> i))),
     (ep_Detail e \<noteq> '''', ''detail'', JStr (ep_Detail e)),
     (ep_Instance e \<noteq> '''', ''instance'', JStr (ep_Instance e)),
     (ep_BenzeneStatus e \<noteq> '''', ''benzeneStatus'', JStr (ep_BenzeneStatus e)),
     (ep_Errors e \<noteq> [], ''errors'', JArr (map enc (ep_Errors e)))])"

definition readable :: "(problem_error \<Rightarrow> json) \<Rightarrow> bool" where
  "readable enc \<longleftrightarrow> (\<forall>p. decodeProblemError (enc p) zeroProblemError = (p, True))"

lemma readable_problemErrorJson: "readable problemErrorJson"
  by (simp add: readable_def decodeProblemError_Json)

lemma fields_errorPayload: "fields (errorPayloadFields e) = JObj (fieldsWith problemErrorJson e)"
  by (simp only: fields_def errorPayloadFields_def fieldsWith_def)

lemma decodeErrors_readable:
  assumes "readable enc"
  shows "decodeErrors (JArr (map enc ps)) [] = (ps, True)"
proof -
  have "decodeElems (map enc ps) [] = map (\<lambda>p. (p, True)) ps"
    using assms by (induction ps) (simp_all add: readable_def)
  then show ?thesis by (simp add: comp_def list_all_iff)
qed

lemma sort_fieldsWith:
  "sort_key fst (fieldsWith enc e) = map snd (filter fst
    [(ep_BenzeneStatus e \<noteq> '''', ''benzeneStatus'', JStr (ep_BenzeneStatus e)),
     (ep_Detail e \<noteq> '''', ''detail'', JStr (ep_Detail e)),
     (ep_Errors e \<noteq> [], ''errors'', JArr (map enc (ep_Errors e))),
     (ep_Instance e \<noteq> '''', ''instance'', JStr (ep_Instance e)),
     (ep_Status e \<noteq> None, ''status'', JNum (intText (case ep_Status e of None \<Rightarrow> 0 | Some i \<Rightarrow> i))),
     (ep_Title e \<noteq> '''', ''title'', JStr (ep_Title e)),
     (ep_Type e \<noteq> '''', ''type'', JStr (ep_Type e))])"
  unfolding fieldsWith_def sort_fields
  by (rule arg_cong [where f = "\<lambda>fs. map snd (filter fst fs)"]) simp

text \<open>Decoding one member of a document into a payload that does not have it yet.\<close>

abbreviation docStep :: "bool \<Rightarrow> string \<Rightarrow> json \<Rightarrow> error_payload \<Rightarrow> error_payload \<times> bool" where
  "docStep b k j a \<equiv>
    (if b then memberStep errorPayloadNames errorPayloadField (k, j) (a, True) else (a, True))"

lemma docSteps:
  "ep_Type a = '''' \<Longrightarrow> docStep (x \<noteq> '''') ''type'' (JStr x) a = (a\<lparr>ep_Type := x\<rparr>, True)"
  "ep_Title a = '''' \<Longrightarrow> docStep (x \<noteq> '''') ''title'' (JStr x) a = (a\<lparr>ep_Title := x\<rparr>, True)"
  "ep_Detail a = '''' \<Longrightarrow> docStep (x \<noteq> '''') ''detail'' (JStr x) a = (a\<lparr>ep_Detail := x\<rparr>, True)"
  "ep_Instance a = '''' \<Longrightarrow> docStep (x \<noteq> '''') ''instance'' (JStr x) a = (a\<lparr>ep_Instance := x\<rparr>, True)"
  "ep_BenzeneStatus a = '''' \<Longrightarrow>
    docStep (x \<noteq> '''') ''benzeneStatus'' (JStr x) a = (a\<lparr>ep_BenzeneStatus := x\<rparr>, True)"
  "ep_Status a = None \<Longrightarrow> (\<And>i. st = Some i \<Longrightarrow> - (2 ^ 63) \<le> i \<and> i < 2 ^ 63) \<Longrightarrow>
    docStep (st \<noteq> None) ''status'' (JNum (intText (case st of None \<Rightarrow> 0 | Some i \<Rightarrow> i))) a =
    (a\<lparr>ep_Status := st\<rparr>, True)"
  by (cases a; auto simp: memberStep_own errorPayloadNames_def errorPayloadField_def into_def
      parseInt_intText)+

lemma docStep_errors:
  "readable enc \<Longrightarrow> ep_Errors a = [] \<Longrightarrow> docStep (ps \<noteq> []) ''errors'' (JArr (map enc ps)) a =
    (a\<lparr>ep_Errors := ps\<rparr>, True)"
  using decodeErrors_readable [of enc ps]
  by (cases a; auto simp: memberStep_own errorPayloadNames_def errorPayloadField_def into_def)

lemma decode_fields:
  assumes "\<And>i. ep_Status e = Some i \<Longrightarrow> - (2 ^ 63) \<le> i \<and> i < 2 ^ 63" and "readable enc"
  shows "decodeErrorPayload (JObj (fieldsWith enc e)) zeroErrorPayload = (e, True)"
    and "decodeErrorPayload (JObj (sort_key fst (fieldsWith enc e))) zeroErrorPayload = (e, True)"
proof -
  show "decodeErrorPayload (JObj (fieldsWith enc e)) zeroErrorPayload = (e, True)"
    using assms unfolding fieldsWith_def decodeErrorPayload_def decodeStruct_fold fold_fields
      fst_conv snd_conv
    by (simp only: docSteps docStep_errors zeroErrorPayload_def error_payload.simps fold_fields) simp
  show "decodeErrorPayload (JObj (sort_key fst (fieldsWith enc e))) zeroErrorPayload = (e, True)"
    using assms unfolding sort_fieldsWith decodeErrorPayload_def decodeStruct_fold
      fold_fields fst_conv snd_conv
    by (simp only: docSteps docStep_errors zeroErrorPayload_def error_payload.simps fold_fields) simp
qed

lemma validErrorPayload_status:
  "validErrorPayload e \<Longrightarrow> ep_Status e = Some i \<Longrightarrow> - (2 ^ 63) \<le> i \<and> i < 2 ^ 63"
  by (simp add: validErrorPayload_def)

lemmas decode_errorPayload = decode_fields [OF validErrorPayload_status readable_problemErrorJson]

lemma fieldsWith_keys: "distinct (map fst (fieldsWith enc e))"
  "ep_Status e = None \<Longrightarrow> ''status'' \<notin> fst ` set (fieldsWith enc e)"
  by (simp_all add: fieldsWith_def)

text \<open>Once a member is mistyped, the decoding has failed.\<close>

lemma memberSteps_failed: "\<not> ok \<Longrightarrow> \<not> snd (fold (memberStep names field) ms (a, ok))"
  by (induction ms arbitrary: a ok)
    (auto simp: memberStep_def split: option.splits prod.splits)

lemma decode_mistyped:
  assumes "v \<noteq> JNull" and "\<And>n. v \<noteq> JNum n"
  shows "\<not> snd (decodeErrorPayload (JObj ((''status'', v) # ms)) zeroErrorPayload)"
proof -
  have "\<not> snd (decodeIntPtr v None)" using assms by (cases v) auto
  then have "\<not> snd (memberStep errorPayloadNames errorPayloadField (''status'', v) (zeroErrorPayload, True))"
    by (cases "decodeIntPtr v None") (simp add: memberStep_own errorPayloadNames_def
        errorPayloadField_def into_def zeroErrorPayload_def)
  then show ?thesis
    using memberSteps_failed by (metis decodeErrorPayload_def decodeStruct_fold fold_simps(2) prod.collapse)
qed

lemma UnmarshalErrorPayload_tolerant:
  assumes "jparse data = Some (JObj ms)"
    and "\<not> snd (decodeErrorPayload (JObj ms) zeroErrorPayload)"
    and "decodeErrorPayload (JObj (sort_key fst (AList.delete ''status'' (rawMembers ms))))
      zeroErrorPayload = (e, True)"
  shows "UnmarshalErrorPayload data = Some e"
  using assms by (cases "decodeErrorPayload (JObj ms) zeroErrorPayload")
    (simp add: UnmarshalErrorPayload_def unmarshal_def)

lemma UnmarshalErrorPayload_strict:
  "jparse data = Some j \<Longrightarrow> decodeErrorPayload j zeroErrorPayload = (e, True) \<Longrightarrow>
    UnmarshalErrorPayload data = Some e"
  by (simp add: UnmarshalErrorPayload_def unmarshal_def)

lemma UnmarshalErrorPayload_Marshal:
  "validErrorPayload e \<Longrightarrow> UnmarshalErrorPayload (MarshalErrorPayload e) = Some e"
  unfolding MarshalErrorPayload_def
  by (rule UnmarshalErrorPayload_strict [OF jparse_jprint [OF errorPayload_valid]])
    (simp_all add: fields_errorPayload decode_errorPayload)

section \<open>Properties\<close>

text \<open>C5 (roundtrip). A problem document written by \<^verbatim>\<open>MarshalErrorPayload\<close> is read back by
  \<^verbatim>\<open>UnmarshalErrorPayload\<close> as it was: type, title, status, detail, instance, benzeneStatus and
  every error with its field and its code, whatever characters its texts hold (they are valid
  UTF-8, as Go strings that hold text are) and whichever members were left out as empty.\<close>

theorem error_payload_roundtrip:
  assumes "validErrorPayload e"
  shows "UnmarshalErrorPayload (MarshalErrorPayload e) = Some e"
  using assms by (rule UnmarshalErrorPayload_Marshal)

text \<open>A document with a quote, a control character and an angle bracket in it.\<close>

definition trickyPayload :: error_payload where
  "trickyPayload = (NewProblem ''not-found'' [\<lparr>pe_Message = [CHR ''<'', CHR 0x22, CHR 0x0A],
     pe_Field = ''/a'', pe_Code = ''''\<rparr>])\<lparr>ep_Status := Some 404\<rparr>"

lemma trickyPayload_valid: "validErrorPayload trickyPayload"
  by code_simp

theorem error_payload_roundtrip_witness:
  "UnmarshalErrorPayload (MarshalErrorPayload trickyPayload) = Some trickyPayload"
  by (rule error_payload_roundtrip [OF trickyPayload_valid])

text \<open>The tolerant reader: a document that says the same thing with a status
  member that is no integer and not null, which is what a peer from before RFC 9457 sends, fails the
  strict decoding and is still read in full, with everything but the status.\<close>

theorem legacy_status_tolerated:
  assumes "validErrorPayload e" and "ep_Status e = None"
    and "jvalid v" and "v \<noteq> JNull" and "\<And>n. v \<noteq> JNum n"
  shows "UnmarshalErrorPayload (jprint (JObj ((''status'', v) # fieldsWith problemErrorJson e))) = Some e"
proof -
  let ?ms = "fieldsWith problemErrorJson e"
  have valid: "jvalid (JObj ((''status'', v) # ?ms))"
    using errorPayload_valid [OF assms(1)] field_names_ascii assms(3) by (simp add: fields_errorPayload)
  have strict: "\<not> snd (decodeErrorPayload (JObj ((''status'', v) # ?ms)) zeroErrorPayload)"
    using assms(4,5) by (rule decode_mistyped)
  have rest: "AList.delete ''status'' (rawMembers ((''status'', v) # ?ms)) = ?ms"
    using fieldsWith_keys [where enc = problemErrorJson and e = e] assms(2) by (subst rawMembers_distinct) auto
  show ?thesis
    by (rule UnmarshalErrorPayload_tolerant [OF jparse_jprint [OF valid] strict])
      (simp only: rest decode_errorPayload(2) [OF assms(1)])
qed

theorem legacy_status_tolerated_witness:
  "UnmarshalErrorPayload (jprint (JObj [(''status'', JStr ''not-found''),
     (''detail'', JStr ''no such order'')])) =
   Some (zeroErrorPayload\<lparr>ep_Detail := ''no such order''\<rparr>)"
proof -
  have "validErrorPayload (zeroErrorPayload\<lparr>ep_Detail := ''no such order''\<rparr>)" by code_simp
  from legacy_status_tolerated [OF this, of "JStr ''not-found''"] show ?thesis
    using field_names_ascii by (simp add: fieldsWith_def zeroErrorPayload_def validText_ascii byteIn_def)
qed


section \<open>Envelopes\<close>

definition validHeaders :: "headers \<Rightarrow> bool" where
  "validHeaders hs \<longleftrightarrow> goMap hs \<and> list_all (\<lambda>(k, v). validText k \<and> validText v) hs"

lemma headersJson_valid: "validHeaders hs \<Longrightarrow> jvalid (headersJson isNil hs)"
  by (auto simp: headersJson_def validHeaders_def list_all_iff)

lemma decodeHeaders_Json:
  assumes "validHeaders hs"
  shows "decodeHeaders (headersJson isNil hs) [] = (sort_key fst hs, True)"
proof (cases "isNil \<and> hs = []")
  case True
  then show ?thesis by (simp add: headersJson_def)
next
  case False
  have step: "(\<lambda>(k, j) m. AList.update k (fst (decodeString j '''')) m) ((\<lambda>(k, v). (k, JStr v)) kv) =
      AList.update (fst kv) (snd kv)" for kv :: "string \<times> string"
    by (cases kv) simp
  have "distinct (map fst (acc @ kvs)) \<Longrightarrow>
      fold (\<lambda>kv. AList.update (fst kv) (snd kv)) kvs acc = acc @ kvs" for acc kvs :: headers
    by (induction kvs arbitrary: acc) (auto simp: AList_update_fresh)
  from this [of "[]" "sort_key fst hs"] have "fold (\<lambda>kv. AList.update (fst kv) (snd kv)) (sort_key fst hs) [] = sort_key fst hs"
    using assms by (simp add: validHeaders_def goMap_def distinct_map)
  with False show ?thesis
    by (simp add: headersJson_def fold_map comp_def step list_all_iff split_def)
qed

lemma response_roundtrip:
  assumes "validHeaders (rs_Headers r)" "validText (rs_StatusCode r)" "validText (rs_Body r)"
  shows "UnmarshalResponse (MarshalResponse isNil r) =
      (r\<lparr>rs_Headers := sort_key fst (rs_Headers r)\<rparr>, True)"
proof -
  have "jvalid (responseJson isNil r)"
    using assms field_names_ascii by (simp add: responseJson_def jvalid_fields headersJson_valid)
  note parsed = jparse_jprint [OF this]
  show ?thesis
    using assms(1) parsed
    by (simp add: UnmarshalResponse_def MarshalResponse_def unmarshal_def)
      (auto simp: responseJson_def fields_def decodeStruct_fold fold_fields
        memberStep_own responseField_def into_def decodeHeaders_Json
        simp del: decodeStruct.simps decodeHeaders.simps)
qed

lemma request_roundtrip:
  assumes "validHeaders (rq_Headers q)" "validText (rq_Topic q)" "validText (rq_Body q)"
  shows "UnmarshalRequest (MarshalRequest isNil q) =
      (q\<lparr>rq_Headers := sort_key fst (rq_Headers q)\<rparr>, True)"
proof -
  have "jvalid (requestJson isNil q)"
    using assms field_names_ascii by (simp add: requestJson_def jvalid_fields headersJson_valid)
  note parsed = jparse_jprint [OF this]
  show ?thesis
    using assms(1) parsed
    by (simp add: UnmarshalRequest_def MarshalRequest_def unmarshal_def)
      (auto simp: requestJson_def fields_def decodeStruct_fold fold_fields
        memberStep_own requestField_def into_def decodeHeaders_Json
        simp del: decodeStruct.simps decodeHeaders.simps)
qed

text \<open>A response envelope survives its JSON: status code, body, headers (as the
  same map; in key order, as maps are written) and isSuccessful, whose absence is kept apart from
  false. The same holds of a request envelope.\<close>

theorem envelope_roundtrip:
  assumes "validHeaders (rs_Headers r)" "validText (rs_StatusCode r)" "validText (rs_Body r)"
    and "validHeaders (rq_Headers q)" "validText (rq_Topic q)" "validText (rq_Body q)"
  shows "UnmarshalResponse (MarshalResponse isNil r) =
      (r\<lparr>rs_Headers := sort_key fst (rs_Headers r)\<rparr>, True) \<and>
    UnmarshalRequest (MarshalRequest isNil q) =
      (q\<lparr>rq_Headers := sort_key fst (rq_Headers q)\<rparr>, True)"
  using response_roundtrip [OF assms(1-3)] request_roundtrip [OF assms(4-6)] by blast

theorem envelope_roundtrip_witness:
  "let r = \<lparr>rs_StatusCode = ''ok'', rs_Headers = [(''x-b'', ''1''), (''x-a'', ''2'')], rs_Body = ''{}'',
       rs_IsSuccessful = Some False\<rparr>;
     q = \<lparr>rq_Topic = ''greet'', rq_Headers = [], rq_Body = ''null''\<rparr> in
   UnmarshalResponse (MarshalResponse True r) =
     (r\<lparr>rs_Headers := [(''x-a'', ''2''), (''x-b'', ''1'')]\<rparr>, True) \<and>
   UnmarshalRequest (MarshalRequest True q) = (q, True)"
  using envelope_roundtrip [of "\<lparr>rs_StatusCode = ''ok'', rs_Headers = [(''x-b'', ''1''), (''x-a'', ''2'')],
      rs_Body = ''{}'', rs_IsSuccessful = Some False\<rparr>"
      "\<lparr>rq_Topic = ''greet'', rq_Headers = [], rq_Body = ''null''\<rparr>" True]
  by (simp add: validHeaders_def goMap_def validText_ascii byteIn_def)

end
