(* ===== verification/Envelope.thy ===== *)
theory Envelope
  imports App WireJson
begin

text \<open>
  The envelope glue every binding is built on (\<^verbatim>\<open>envelope/dispatch.go\<close>), reading a response back
  into a result, and the settlement rule of the one-way bindings (\<^verbatim>\<open>envelope/settlement.go\<close>).
  How \<^verbatim>\<open>json.Marshal\<close> prints an application's payload is the argument \<open>marshal\<close>; the problem
  documents are printed by the codec of \<^verbatim>\<open>wire\<close>. A panic of a middleware is not recovered here
  and passes through as an outcome.
\<close>

section \<open>From result to response\<close>

definition resultSuccessful :: "'v resultInfo \<Rightarrow> bool" where
  "resultSuccessful result = (case asSuccessInfo result of
      Some b \<Rightarrow> b
    | None \<Rightarrow> \<not> IsFailure (ResultStatus result))"

definition withResponseHeaders :: "response \<Rightarrow> 'v invocation \<Rightarrow> response" where
  "withResponseHeaders resp i =
    (if ic_ResponseHeaders i = [] then resp
     else resp\<lparr>rs_Headers := fold (\<lambda>(name, v) m. AList.update name v m) (ic_ResponseHeaders i)
       (rs_Headers resp)\<rparr>)"

definition problemDocument :: "'v resultInfo \<Rightarrow> error_payload" where
  "problemDocument result = (case asProblemDocumentInfo result of
      Some (Some document) \<Rightarrow> document
    | _ \<Rightarrow> NewProblem (ResultStatus result) (ProblemsOf result))"

definition errorResponse :: "'v resultInfo \<Rightarrow> response" where
  "errorResponse result =
    \<lparr>rs_StatusCode = ResultStatus result,
     rs_Headers = [(''content-type'', ''application/problem+json'')],
     rs_Body = MarshalErrorPayload (problemDocument result),
     rs_IsSuccessful = Some False\<rparr>"

text \<open>The response of a result built on the spot, whose constructor may panic.\<close>

definition errorResponseOf :: "'v result outcome \<Rightarrow> response outcome" where
  "errorResponseOf r = map_outcome (\<lambda>r. errorResponse (ResultAny r)) r"

definition toResponse :: "('v any \<Rightarrow> goerr + string) \<Rightarrow> 'v resultInfo \<Rightarrow> response outcome" where
  "toResponse marshal result =
    (let status = ResultStatus result;
         successful = (case asSuccessInfo result of None \<Rightarrow> \<not> IsFailure status | Some b \<Rightarrow> b);
         payload = ResultPayload result in
     if \<not> successful then Return (errorResponse result)
     else if payload = NilAny then
       Return \<lparr>rs_StatusCode = status, rs_Headers = [], rs_Body = '''', rs_IsSuccessful = Some True\<rparr>
     else (case marshal payload of
         Inl err \<Rightarrow> errorResponseOf
           (UnexpectedError [''failed to serialize response payload: '' @ errorText err] :: 'v result outcome)
       | Inr body \<Rightarrow> Return \<lparr>rs_StatusCode = status,
           rs_Headers = [(''content-type'', ''application/json'')], rs_Body = body,
           rs_IsSuccessful = Some True\<rparr>))"

section \<open>Dispatch\<close>

type_synonym 'v marshaller = "'v any \<Rightarrow> goerr + string"

text \<open>Response, success flag and whether the topic was unmatched. The invocation gets a fresh scope.\<close>

definition invocationOf :: "topic \<Rightarrow> headers \<Rightarrow> string \<Rightarrow> 'v invocation" where
  "invocationOf topic hs body = NewInvocationContext topic hs (RawMessage body) (Some [])"

definition envelopeDispatch ::
  "'v marshaller \<Rightarrow> ('v, 'w) middleware list option \<Rightarrow> ctx \<Rightarrow> topic \<Rightarrow> headers \<Rightarrow> string \<Rightarrow>
   int \<Rightarrow> 'w \<Rightarrow> (response \<times> bool \<times> bool) outcome \<times> ('v, 'w) st" where
  "envelopeDispatch marshal pipeline c topic hs body now w =
    andThen (Run pipeline c \<lparr>ic = invocationOf topic hs body, clock = now, env = w\<rparr>)
      (\<lambda>e s. case e of
         Some err \<Rightarrow> (map_outcome (\<lambda>r. (withResponseHeaders r (ic s), False, False))
           (errorResponseOf (ServiceUnavailable [errorText err] :: 'v result outcome)), s)
       | None \<Rightarrow> (case ic_Result (ic s) of
           None \<Rightarrow> (map_outcome (\<lambda>r. (withResponseHeaders r (ic s), False, False))
             (errorResponseOf (UnexpectedError [''pipeline completed without producing a result'']
               :: 'v result outcome)), s)
         | Some result \<Rightarrow> (map_outcome (\<lambda>r. (withResponseHeaders r (ic s),
               resultSuccessful result, IsUnmatchedTopic (Some result)))
             (toResponse marshal result), s)))"

definition DispatchTopicResult ::
  "'v marshaller \<Rightarrow> ('v, 'w) middleware list option \<Rightarrow> ctx \<Rightarrow> topic \<Rightarrow> headers \<Rightarrow> string \<Rightarrow>
   int \<Rightarrow> 'w \<Rightarrow> (response \<times> bool) outcome \<times> ('v, 'w) st" where
  "DispatchTopicResult marshal pipeline c topic hs body now w =
    andThen (envelopeDispatch marshal pipeline c topic hs body now w)
      (\<lambda>(resp, successful, _) s. (Return (resp, successful), s))"

definition DispatchResult ::
  "'v marshaller \<Rightarrow> ('v, 'w) middleware list option \<Rightarrow> ctx \<Rightarrow> request \<Rightarrow> int \<Rightarrow> 'w \<Rightarrow>
   (response \<times> bool) outcome \<times> ('v, 'w) st" where
  "DispatchResult marshal pipeline c req now w =
    DispatchTopicResult marshal pipeline c (NewTopic (rq_Topic req)) (rq_Headers req) (rq_Body req) now w"

definition Dispatch ::
  "'v marshaller \<Rightarrow> ('v, 'w) middleware list option \<Rightarrow> ctx \<Rightarrow> request \<Rightarrow> int \<Rightarrow> 'w \<Rightarrow>
   response outcome \<times> ('v, 'w) st" where
  "Dispatch marshal pipeline c req now w =
    andThen (DispatchResult marshal pipeline c req now w) (\<lambda>(resp, _) s. (Return resp, s))"

section \<open>From response to result\<close>

definition boolText :: "bool \<Rightarrow> string" where
  "boolText b = (if b then ''true'' else ''false'')"

definition ToResult :: "response \<Rightarrow> 'v result outcome" where
  "ToResult resp =
    (let status = rs_StatusCode resp;
         successful = (rs_IsSuccessful resp = Some True) in
     if (successful \<and> IsFailure status) \<or> (\<not> successful \<and> IsSuccess status) then
       UnexpectedError [''malformed response envelope: statusCode '' @ goQuote status @
         '' contradicts isSuccessful '' @ boolText successful]
     else if \<not> successful then
       (case UnmarshalErrorPayload (rs_Body resp) of
          None \<Rightarrow> Fail status []
        | Some problem \<Rightarrow> FailWith status (Problems problem))
     else if rs_Body resp = '''' then Return (resultOf status)
     else Return ((resultOf status)\<lparr>r_Payload := Some (RawMessage (rs_Body resp))\<rparr>))"

section \<open>Settlement (settlement.go)\<close>

datatype delivery = BindingDefault | AtLeastOnce | AtMostOnce

fun deliveryString :: "delivery \<Rightarrow> string" where
  "deliveryString AtLeastOnce = ''at-least-once''"
| "deliveryString AtMostOnce = ''at-most-once''"
| "deliveryString BindingDefault = ''binding-default''"

record settlement =
  sm_Delivery :: delivery
  IgnoreUnmatchedTopics :: bool

record settledOutcome =
  oc_Response :: response
  oc_Successful :: bool
  oc_Acknowledge :: bool

definition Settlement_DispatchTopic ::
  "settlement \<Rightarrow> 'v marshaller \<Rightarrow> ('v, 'w) middleware list option \<Rightarrow> ctx \<Rightarrow> topic \<Rightarrow> headers \<Rightarrow>
   string \<Rightarrow> int \<Rightarrow> 'w \<Rightarrow> settledOutcome outcome \<times> ('v, 'w) st" where
  "Settlement_DispatchTopic sm marshal pipeline c topic hs body now w =
    andThen (envelopeDispatch marshal pipeline c topic hs body now w)
      (\<lambda>(resp, successful, isUnmatched) s. (Return \<lparr>oc_Response = resp, oc_Successful = successful,
         oc_Acknowledge = successful \<or> sm_Delivery sm = AtMostOnce \<or>
           (IgnoreUnmatchedTopics sm \<and> isUnmatched)\<rparr>, s))"

definition Settlement_Dispatch ::
  "settlement \<Rightarrow> 'v marshaller \<Rightarrow> ('v, 'w) middleware list option \<Rightarrow> ctx \<Rightarrow> request \<Rightarrow>
   int \<Rightarrow> 'w \<Rightarrow> settledOutcome outcome \<times> ('v, 'w) st" where
  "Settlement_Dispatch sm marshal pipeline c req now w =
    Settlement_DispatchTopic sm marshal pipeline c (NewTopic (rq_Topic req)) (rq_Headers req)
      (rq_Body req) now w"

section \<open>Lemmas\<close>

lemma resultSuccessful_simps [simp]:
  "resultSuccessful (ResultAny r) = IsSuccessful r"
  "resultSuccessful (ResultT t r) = IsSuccessful r"
  by (simp_all add: resultSuccessful_def)

text \<open>The response of a result, with no panic left in it.\<close>

definition responseOf :: "'v marshaller \<Rightarrow> 'v resultInfo \<Rightarrow> response" where
  "responseOf marshal result =
    (if \<not> resultSuccessful result then errorResponse result
     else if ResultPayload result = NilAny then
       \<lparr>rs_StatusCode = ResultStatus result, rs_Headers = [], rs_Body = '''', rs_IsSuccessful = Some True\<rparr>
     else (case marshal (ResultPayload result) of
         Inl err \<Rightarrow> errorResponse (ResultAny (failed StatusUnexpectedError
           [''failed to serialize response payload: '' @ errorText err]) :: 'v resultInfo)
       | Inr body \<Rightarrow> \<lparr>rs_StatusCode = ResultStatus result,
           rs_Headers = [(''content-type'', ''application/json'')], rs_Body = body,
           rs_IsSuccessful = Some True\<rparr>))"

lemma toResponse_total: "toResponse marshal result = Return (responseOf marshal result)"
  by (simp add: toResponse_def responseOf_def resultSuccessful_def errorResponseOf_def Let_def
      split: option.split sum.split)

text \<open>Whether the payload of a result can be written.\<close>

definition serializes :: "'v marshaller \<Rightarrow> 'v resultInfo \<Rightarrow> bool" where
  "serializes marshal result \<longleftrightarrow> ResultPayload result = NilAny \<or> \<not> isl (marshal (ResultPayload result))"

lemma responseOf_flag:
  "rs_IsSuccessful (responseOf marshal result) =
    Some (resultSuccessful result \<and> serializes marshal result)"
  by (auto simp: responseOf_def serializes_def errorResponse_def split: sum.split)

lemma responseOf_status:
  "rs_StatusCode (responseOf marshal result) =
    (if resultSuccessful result \<and> \<not> serializes marshal result then StatusUnexpectedError
     else ResultStatus result)"
  by (auto simp: responseOf_def serializes_def errorResponse_def split: sum.split)

lemma withResponseHeaders_simps [simp]:
  "rs_StatusCode (withResponseHeaders r i) = rs_StatusCode r"
  "rs_Body (withResponseHeaders r i) = rs_Body r"
  "rs_IsSuccessful (withResponseHeaders r i) = rs_IsSuccessful r"
  by (simp_all add: withResponseHeaders_def)

lemma fold_update_map_of:
  "distinct (map fst hs) \<Longrightarrow>
    map_of (fold (\<lambda>(name, v) m. AList.update name v m) hs m) k =
    (case map_of hs k of Some v \<Rightarrow> Some v | None \<Rightarrow> map_of m k)"
proof (induction hs arbitrary: m)
  case (Cons h hs)
  then show ?case
    by (cases h) (auto split: option.split simp: map_of_eq_None_iff
        dest: map_of_SomeD intro: rev_image_eqI)
qed simp

text \<open>An invocation's headers win over the default ones, name by name, in whatever order.\<close>

lemma withResponseHeaders_wins:
  "goMap (ic_ResponseHeaders i) \<Longrightarrow>
    map_of (rs_Headers (withResponseHeaders r i)) k =
    (case map_of (ic_ResponseHeaders i) k of Some v \<Rightarrow> Some v | None \<Rightarrow> map_of (rs_Headers r) k)"
  by (cases "ic_ResponseHeaders i = []")
    (simp_all add: withResponseHeaders_def goMap_def fold_update_map_of)

text \<open>The dispatch of a pipeline that returns, as one expression.\<close>

definition settledResponse ::
  "'v marshaller \<Rightarrow> goerr option \<Rightarrow> ('v, 'w) st \<Rightarrow> response \<times> bool \<times> bool" where
  "settledResponse marshal e s =
    (case (e, ic_Result (ic s)) of
       (Some err, _) \<Rightarrow> (withResponseHeaders (errorResponse (ResultAny
          (failed StatusServiceUnavailable [errorText err]) :: 'v resultInfo)) (ic s), False, False)
     | (None, None) \<Rightarrow> (withResponseHeaders (errorResponse (ResultAny (failed StatusUnexpectedError
          [''pipeline completed without producing a result'']) :: 'v resultInfo)) (ic s), False, False)
     | (None, Some result) \<Rightarrow> (withResponseHeaders (responseOf marshal result) (ic s),
          resultSuccessful result, IsUnmatchedTopic (Some result)))"

lemma envelopeDispatch_run:
  fixes marshal :: "'v marshaller"
  shows "envelopeDispatch marshal pipeline c topic hs body now w =
    andThen (Run pipeline c \<lparr>ic = invocationOf topic hs body, clock = now, env = w\<rparr>)
      (\<lambda>e s. (Return (settledResponse marshal e s), s))"
  unfolding envelopeDispatch_def
  by (intro arg_cong2 [where f = andThen] refl ext)
    (simp add: settledResponse_def errorResponseOf_def toResponse_total split: option.split)

text \<open>A result agrees with its status when it is none of the contradictions \<open>ToResult\<close> refuses.\<close>

definition coherent :: "'v resultInfo \<Rightarrow> bool" where
  "coherent result \<longleftrightarrow>
    \<not> (resultSuccessful result \<and> IsFailure (ResultStatus result)) \<and>
    \<not> (\<not> resultSuccessful result \<and> IsSuccess (ResultStatus result))"

definition validResultText :: "'v resultInfo \<Rightarrow> bool" where
  "validResultText result \<longleftrightarrow> validErrorPayload (problemDocument result)"

lemma ToResult_failed:
  assumes "coherent result" "\<not> resultSuccessful result" "validResultText result"
  shows "ToResult (errorResponse result) = FailWith (ResultStatus result) (Problems (problemDocument result))"
  using assms UnmarshalErrorPayload_Marshal [of "problemDocument result"]
  by (simp add: ToResult_def errorResponse_def coherent_def validResultText_def)

lemma ToResult_ok:
  assumes "coherent result" "resultSuccessful result"
  shows "ToResult \<lparr>rs_StatusCode = ResultStatus result, rs_Headers = hs, rs_Body = body,
      rs_IsSuccessful = Some True\<rparr> = Return ((resultOf (ResultStatus result))
        \<lparr>r_Payload := (if body = '''' then None else Some (RawMessage body))\<rparr>)"
  using assms by (simp add: ToResult_def coherent_def resultOf_def)

section \<open>Properties\<close>

text \<open>Dispatch answers every request its pipeline returns from: the response
  always states isSuccessful, it is the flag handed to the binding unless the payload of a
  successful result cannot be written (then the response is an unexpected-error while the flag stays
  true), an error of the pipeline is service-unavailable, a missing result unexpected-error, both
  unsuccessful, and a header the invocation set wins over the default one.\<close>

theorem dispatch_always_answers:
  fixes w :: 'w
  assumes "Run pipeline c \<lparr>ic = invocationOf topic hs body, clock = now, env = w\<rparr> = (Return e, s)"
    and "goMap (ic_ResponseHeaders (ic s))"
  shows "\<exists>resp ok um. envelopeDispatch marshal pipeline c topic hs body now w =
      (Return (resp, ok, um), s) \<and>
    (case (e, ic_Result (ic s)) of
       (Some err, _) \<Rightarrow> rs_StatusCode resp = StatusServiceUnavailable \<and>
          rs_IsSuccessful resp = Some False \<and> \<not> ok \<and> \<not> um
     | (None, None) \<Rightarrow> rs_StatusCode resp = StatusUnexpectedError \<and>
          rs_IsSuccessful resp = Some False \<and> \<not> ok \<and> \<not> um
     | (None, Some r) \<Rightarrow> ok = resultSuccessful r \<and> um = IsUnmatchedTopic (Some r) \<and>
          rs_IsSuccessful resp = Some (ok \<and> serializes marshal r) \<and>
          (rs_IsSuccessful resp = Some ok \<longrightarrow> rs_StatusCode resp = ResultStatus r) \<and>
          (rs_IsSuccessful resp \<noteq> Some ok \<longrightarrow> rs_StatusCode resp = StatusUnexpectedError)) \<and>
    (\<forall>k v. map_of (ic_ResponseHeaders (ic s)) k = Some v \<longrightarrow> map_of (rs_Headers resp) k = Some v)"
proof -
  obtain resp ok um where r: "settledResponse marshal e s = (resp, ok, um)"
    by (cases "settledResponse marshal e s")
  have "envelopeDispatch marshal pipeline c topic hs body now w = (Return (resp, ok, um), s)"
    using assms(1) r by (simp add: envelopeDispatch_run)
  then show ?thesis
    using r withResponseHeaders_wins [OF assms(2)]
    by (intro exI [of _ resp] exI [of _ ok] exI [of _ um] conjI)
      (auto simp: settledResponse_def responseOf_flag responseOf_status errorResponse_def
        split: option.splits)
qed

text \<open>A pipeline whose only handler panicked: the router's result, dispatched.\<close>

theorem dispatch_always_answers_witness:
  "\<exists>resp um s. envelopeDispatch (\<lambda>v. Inr ''1'') (Some [snd (RouterMiddleware panickyRegistry [])])
      background (NewTopic ''greet'') [] ''{}'' 0 () = (Return (resp, False, um), s) \<and>
    rs_StatusCode resp = StatusServiceUnavailable"
proof -
  let ?s = "\<lparr>ic = invocationOf (NewTopic ''greet'') [] ''{}'', clock = 0, env = ()\<rparr> :: (nat, unit) st"
  have routed: "routed panickyRegistry (routerKey []) background ?s =
      (ResultAny (failed StatusServiceUnavailable [''handler panicked: boom'']), ?s)"
    by (simp add: routed_def invocationOf_def NewInvocationContext_def resolveTopic_def
        panickyRegistry_def lookup_def callHandler_def NewTopic_def WithVersion_def)
  have run: "Run (Some [snd (RouterMiddleware panickyRegistry [])]) background ?s = (Return None,
      setResult (ResultAny (failed StatusServiceUnavailable [''handler panicked: boom''])) ?s)"
    by (simp add: Run_single router_routed done_run_def routed)
  show ?thesis
    using dispatch_always_answers [OF run, of "\<lambda>v. Inr ''1''"]
    by (auto simp: invocationOf_def NewInvocationContext_def setResult_def serializes_def)
qed

text \<open>C4 (roundtrip). A result sent in a response envelope arrives with the meaning it was given:
  the peer reads back the same status, success with the payload's JSON as its raw payload (an
  absent payload as an absent one), failure as a failure with every error that has a message, field and
  code intact, application-defined statuses included; an authored problem document's own errors
  are the ones that arrive. Left out are the results whose success flag contradicts a vocabulary
  status, those whose payload cannot be written, and those whose status or problem document (its own
  texts, and the message, field and code of every error) is not valid UTF-8, since the encoder replaces
  the bytes it cannot write; a payload's JSON is assumed not to be the empty string.\<close>

theorem result_survives_envelope:
  fixes result :: "'v resultInfo"
  assumes "coherent result" and "serializes marshal result"
    and "\<And>p. marshal p \<noteq> Inr ''''"
    and "validText (ResultStatus result)" and "list_all validProblemError (ProblemsOf result)"
    and "\<And>d. asProblemDocumentInfo result = Some (Some d) \<Longrightarrow> validErrorPayload d"
  shows "\<exists>r :: 'v result. ToResult (responseOf marshal result) = Return r \<and>
    r_Status r = ResultStatus result \<and> IsSuccessful r = resultSuccessful result \<and>
    (if resultSuccessful result
     then r_Errors r = [] \<and> (case r_Payload r of
         None \<Rightarrow> ResultPayload result = NilAny
       | Some p \<Rightarrow> \<exists>body. p = RawMessage body \<and> marshal (ResultPayload result) = Inr body)
     else r_Payload r = None \<and> r_Errors r = (case asProblemDocumentInfo result of
         Some (Some d) \<Rightarrow> Problems d
       | _ \<Rightarrow> filter (\<lambda>e. pe_Message e \<noteq> '''') (ProblemsOf result)))"
proof (cases "resultSuccessful result")
  case True
  have status: "\<not> IsFailure (ResultStatus result)" using assms(1) True by (simp add: coherent_def)
  show ?thesis
  proof (cases "ResultPayload result = NilAny")
    case nil: True
    then show ?thesis
      using True status by (simp add: responseOf_def ToResult_ok [OF assms(1) True]) (simp add: IsSuccessful_def)
  next
    case False
    then obtain body where body: "marshal (ResultPayload result) = Inr body" "body \<noteq> ''''"
      using assms(2) assms(3) [of "ResultPayload result"]
      by (cases "marshal (ResultPayload result)") (auto simp: serializes_def)
    then show ?thesis
      using True False status
      by (simp add: responseOf_def ToResult_ok [OF assms(1) True]) (simp add: IsSuccessful_def)
  qed
next
  case False
  have valid: "validResultText result"
    using assms(4-6) NewProblem_valid
    by (auto simp: validResultText_def problemDocument_def split: option.splits)
  have "\<not> IsSuccess (ResultStatus result)" using assms(1) False by (simp add: coherent_def)
  then show ?thesis
    using False
    by (auto simp: responseOf_def ToResult_failed [OF assms(1) False valid] FailWith_Return IsSuccessful_def problemDocument_def
        Problems_NewProblem split: option.split)
qed

theorem result_survives_envelope_witness:
  "\<exists>r :: nat result. ToResult (responseOf (\<lambda>p. Inr ''1'') (ResultAny ((resultOf ''order-on-hold'')
      \<lparr>r_Errors := [\<lparr>pe_Message = ''held, for review'', pe_Field = ''/order'', pe_Code = ''hold''\<rparr>],
       r_successful := Some False\<rparr>) :: nat resultInfo)) = Return r \<and> r_Status r = ''order-on-hold'' \<and> \<not> IsSuccessful r \<and>
    r_Errors r = [\<lparr>pe_Message = ''held, for review'', pe_Field = ''/order'', pe_Code = ''hold''\<rparr>]"
proof -
  let ?r = "ResultAny ((resultOf ''order-on-hold'')
      \<lparr>r_Errors := [\<lparr>pe_Message = ''held, for review'', pe_Field = ''/order'', pe_Code = ''hold''\<rparr>],
       r_successful := Some False\<rparr>) :: nat resultInfo"
  have unknown: "\<not> IsFailure ''order-on-hold''" "\<not> IsSuccess ''order-on-hold''" by code_simp+
  have "coherent ?r" "serializes (\<lambda>p. Inr ''1'') ?r" "validText (ResultStatus ?r)"
    "list_all validProblemError (ProblemsOf ?r)"
    by (simp_all add: coherent_def serializes_def unknown IsSuccessful_def validProblemError_def
        ProblemsOf_def validText_ascii byteIn_def)
  from result_survives_envelope [OF this(1,2) _ this(3,4)] show ?thesis
    by (auto simp: IsSuccessful_def ProblemsOf_def)
qed

text \<open>C3 (safety). What a one-way binding acknowledges, with the default pipeline of a registry: at
  least once, a message is acknowledged exactly when a handler ran for it and its result is
  successful (the ping topic counts as one), or when unmatched topics are ignored and no handler serves
  its topic id at any version; at most once, every message is. The binding never acknowledges a
  message whose topic is missing or whose version nobody serves.\<close>

theorem settlement_acknowledges:
  fixes opts :: "routerOption list" and topic :: topic and body :: string and now :: int
    and hs :: headers
  assumes "registered registry"
    and "\<And>t f cc raw u r u'. routes registry t = Some f \<Longrightarrow> f cc raw u = (Return (Inr r), u') \<Longrightarrow>
      \<not> IsUnmatchedTopic (Some r)"
  defines "i \<equiv> resolveTopic (routerKey opts) (invocationOf topic hs body)"
  shows "\<exists>o1 s. Settlement_DispatchTopic sm marshal (Some [snd (RouterMiddleware registry opts)]) c
        topic hs body now w = (Return o1, s) \<and>
      (oc_Acknowledge o1 \<longleftrightarrow> sm_Delivery sm = AtMostOnce \<or>
        (ID topic \<noteq> '''' \<and> (case selectSpec (routes registry) (defaultOf registry) (ic_Topic i) of
            (Some f, _) \<Rightarrow> resultSuccessful (handlerResult
              (fst (f (handlerContext c i) (ic_Request i) \<lparr>ic = i, clock = now, env = w\<rparr>)))
          | (None, why) \<Rightarrow> why = unknownTopic \<and> (ID topic = PingTopic \<or> IgnoreUnmatchedTopics sm))))"
proof -
  let ?s = "\<lparr>ic = invocationOf topic hs body, clock = now, env = w\<rparr>"
  let ?res = "fst (routed registry (routerKey opts) c ?s)"
  let ?t = "snd (routed registry (routerKey opts) c ?s)"
  have ic: "ic_Topic (invocationOf topic hs body) = topic"
    by (simp add: invocationOf_def NewInvocationContext_def)
  have run: "Run (Some [snd (RouterMiddleware registry opts)]) c ?s = (Return None, setResult ?res ?t)"
    by (simp add: Run_single router_routed done_run_def)
  have out: "Settlement_DispatchTopic sm marshal (Some [snd (RouterMiddleware registry opts)]) c
      topic hs body now w = (Return \<lparr>oc_Response = withResponseHeaders (responseOf marshal ?res) (ic (setResult ?res ?t)),
        oc_Successful = resultSuccessful ?res,
        oc_Acknowledge = resultSuccessful ?res \<or> sm_Delivery sm = AtMostOnce \<or>
          (IgnoreUnmatchedTopics sm \<and> IsUnmatchedTopic (Some ?res))\<rparr>, setResult ?res ?t)"
    by (simp add: Settlement_DispatchTopic_def envelopeDispatch_run run settledResponse_def)
  have ack: "(resultSuccessful ?res \<or> (IgnoreUnmatchedTopics sm \<and> IsUnmatchedTopic (Some ?res))) \<longleftrightarrow>
      (ID topic \<noteq> '''' \<and> (case selectSpec (routes registry) (defaultOf registry) (ic_Topic i) of
            (Some f, _) \<Rightarrow> resultSuccessful (handlerResult
              (fst (f (handlerContext c i) (ic_Request i) \<lparr>ic = i, clock = now, env = w\<rparr>)))
          | (None, why) \<Rightarrow> why = unknownTopic \<and> (ID topic = PingTopic \<or> IgnoreUnmatchedTopics sm)))"
  proof (cases "ID topic = ''''")
    case True
    then show ?thesis by (simp add: routed_def ic)
  next
    case False
    have eq: "lookup registry (ic_Topic i) = selectSpec (routes registry) (defaultOf registry) (ic_Topic i)"
      and sel: "snd (lookup registry (ic_Topic i)) = selected \<longleftrightarrow> fst (lookup registry (ic_Topic i)) \<noteq> None"
      using registered_ok [OF assms(1)] by (rule lookup_selectSpec lookup_selected_iff)+
    obtain h why where l: "lookup registry (ic_Topic i) = (h, why)"
      by (cases "lookup registry (ic_Topic i)")
    have ID: "ID (ic_Topic i) = ID topic" by (simp add: i_def ic)
    have nomark: "\<not> IsUnmatchedTopic (Some (handlerResult (fst (f cc raw u))))"
      if h: "h = Some f" for f cc raw u
    proof
      assume "IsUnmatchedTopic (Some (handlerResult (fst (f cc raw u))))"
      then obtain r where "fst (f cc raw u) = Return (Inr r)" "IsUnmatchedTopic (Some r)"
        using handlerResult_unmatched by blast
      moreover obtain t where "routes registry t = Some f"
        using l h eq by (auto simp: selectSpec_def split: if_splits option.splits)
      ultimately show False using assms(2) by (metis prod.collapse)
    qed
    show ?thesis
      using False sel nomark unfolding eq [symmetric] l
      by (cases why; cases h)
        (auto simp: routed_def i_def [symmetric] Let_def callHandler_def l ID ic IsFailure_iff IsSuccessful_def)
  qed
  show ?thesis using out ack by auto
qed

theorem settlement_acknowledges_witness:
  "\<exists>o1 s. Settlement_DispatchTopic \<lparr>sm_Delivery = AtLeastOnce, IgnoreUnmatchedTopics = True\<rparr>
      (\<lambda>p. Inr ''1'') (Some [snd (RouterMiddleware panickyRegistry [])]) background
      (NewTopic ''order'') [] ''{}'' 0 () = (Return o1, s) \<and> oc_Acknowledge o1"
proof -
  have "\<not> IsUnmatchedTopic (Some r)"
    if "routes panickyRegistry t = Some f" and "f cc raw u = (Return (Inr r), u')"
    for t f cc raw u r u'
    using that by (auto simp: routes_def panickyRegistry_def split: if_splits)
  note rule = settlement_acknowledges [OF panickyRegistry_registered this]
  show ?thesis
    using rule [where opts = "[]" and topic = "NewTopic ''order''" and c = background and
        sm = "\<lparr>sm_Delivery = AtLeastOnce, IgnoreUnmatchedTopics = True\<rparr>" and hs = "[]" and
        body = "''{}''" and marshal = "\<lambda>p. Inr ''1''" and now = 0 and w = "()"]
    by (fastforce simp: invocationOf_def NewInvocationContext_def resolveTopic_def WithVersion_def
        selectSpec_def routes_def panickyRegistry_def)
qed

end
