(* ===== verification/Http.thy ===== *)
theory Http
  imports Envelope "HOL-Library.Multiset"
begin

text \<open>
  What an HTTP binding sends (\<^verbatim>\<open>httpstatus.Response\<close> and \<^verbatim>\<open>wire.WithHTTPStatus\<close>). The document is
  re-encoded through \<^verbatim>\<open>map[string]any\<close>, where a number becomes a \<^verbatim>\<open>float64\<close>: how the library
  prints the float of a literal, and whether it is in range, is the argument \<open>renumber\<close>.
\<close>

fun reencode :: "(string \<Rightarrow> string option) \<Rightarrow> json \<Rightarrow> json option" where
  "reencode renumber JNull = Some JNull"
| "reencode renumber (JBool b) = Some (JBool b)"
| "reencode renumber (JNum n) = map_option JNum (renumber n)"
| "reencode renumber (JStr s) = Some (JStr s)"
| "reencode renumber (JArr js) = map_option JArr (those (map (reencode renumber) js))"
| "reencode renumber (JObj ms) = map_option (\<lambda>ms'. JObj (sort_key fst (rawMembers ms')))
     (those (map (\<lambda>(k, j). map_option (Pair k) (reencode renumber j)) ms))"

definition WithHTTPStatus :: "(string \<Rightarrow> string option) \<Rightarrow> string \<Rightarrow> int \<Rightarrow> string \<times> bool" where
  "WithHTTPStatus renumber body code = (case jparse body of
      Some (JObj ms) \<Rightarrow> (case those (map (\<lambda>(k, j). map_option (Pair k) (reencode renumber j)) ms) of
          None \<Rightarrow> (body, False)
        | Some problem \<Rightarrow> (jprint (JObj (sort_key fst
            (AList.update ''status'' (JNum (intText code)) (rawMembers problem)))), True))
    | _ \<Rightarrow> (body, False))"

definition healthTopics :: "(string \<times> bool) list" where
  "healthTopics = [(''benzene:healthcheck'', True), (''benzene:liveness'', True),
     (''benzene:readiness'', True)]"

definition healthReport :: "bool option decoder" where
  "healthReport = decodeStruct [''isHealthy''] (\<lambda>f. decodeBoolPtr)"

definition reportsUnhealthy :: "string \<Rightarrow> bool" where
  "reportsUnhealthy body = (case unmarshal healthReport None body of
      (_, False) \<Rightarrow> False
    | (None, True) \<Rightarrow> False
    | (Some b, True) \<Rightarrow> \<not> b)"

definition httpResponse ::
  "(string \<Rightarrow> string option) \<Rightarrow> topic \<Rightarrow> response \<Rightarrow> int \<times> string \<times> headers" where
  "httpResponse renumber topic resp =
    (let successful = (rs_IsSuccessful resp = Some True);
         code0 = ToHTTP (rs_StatusCode resp) [successful];
         code = (if successful \<and> goIndex healthTopics (ID topic) False \<and> reportsUnhealthy (rs_Body resp)
           then 503 else code0);
         hs = fold (\<lambda>(name, v) m. AList.update name v m) (rs_Headers resp) [] in
     if \<not> successful \<and> rs_Body resp \<noteq> '''' then
       (case WithHTTPStatus renumber (rs_Body resp) code of
          (withStatus, True) \<Rightarrow>
            (code, withStatus, AList.update ''content-type'' ''application/problem+json'' hs)
        | (_, False) \<Rightarrow> (code, rs_Body resp, hs))
     else (code, rs_Body resp, hs))"

section \<open>Lemmas\<close>

lemma those_map_Some: "(\<And>x. x \<in> set xs \<Longrightarrow> f x = Some (g x)) \<Longrightarrow> those (map f xs) = Some (map g xs)"
  by (induction xs) auto

lemma sort_same_entries:
  assumes "distinct (map fst xs)" "distinct (map fst ys)" "map_of xs = map_of ys"
  shows "sort_key fst xs = sort_key fst ys"
proof -
  have "set xs = set ys" using assms map_of_inject_set by blast
  then have "mset xs = mset (sort_key fst ys)"
    using assms(1,2) by (simp add: set_eq_iff_mset_eq_distinct [symmetric] distinct_map)
  moreover have "inj_on fst (set xs)" using assms(1) by (simp add: distinct_map)
  ultimately show ?thesis by (intro sort_key_inj_key_eq) auto
qed

text \<open>A problem error and a document, re-encoded: the same members, in key order.\<close>

definition sortedError :: "problem_error \<Rightarrow> json" where
  "sortedError p = JObj (sort_key fst (map snd (filter fst
    [(True, ''message'', JStr (pe_Message p)),
     (pe_Field p \<noteq> '''', ''field'', JStr (pe_Field p)),
     (pe_Code p \<noteq> '''', ''code'', JStr (pe_Code p))])))"

lemma reencode_error: "reencode renumber (problemErrorJson p) = Some (sortedError p)"
  by (cases "pe_Field p = ''''"; cases "pe_Code p = ''''")
    (simp_all add: problemErrorJson_def WireJson.fields_def sortedError_def rawMembers_def)

lemma sortedError_readable: "readable sortedError"
  unfolding readable_def
proof
  fix p
  show "decodeProblemError (sortedError p) zeroProblemError = (p, True)"
    by (cases "pe_Field p = ''''"; cases "pe_Code p = ''''"; cases p)
      (simp_all add: sortedError_def decodeProblemError_def decodeStruct_fold
        memberStep_own problemErrorField_def into_def zeroProblemError_def del: decodeStruct.simps)
qed

lemma map_of_fields:
  "map_of (map snd (filter fst [])) k = None"
  "map_of (map snd (filter fst (x # xs))) k =
    (if fst (snd x) = k \<and> fst x then Some (snd (snd x)) else map_of (map snd (filter fst xs)) k)"
  by (cases x, simp_all)

lemma map_of_fieldsWith:
  "map_of (fieldsWith enc e) k =
    (if k = ''type'' then if ep_Type e \<noteq> '''' then Some (JStr (ep_Type e)) else None
     else if k = ''title'' then if ep_Title e \<noteq> '''' then Some (JStr (ep_Title e)) else None
     else if k = ''status'' then map_option (\<lambda>i. JNum (intText i)) (ep_Status e)
     else if k = ''detail'' then if ep_Detail e \<noteq> '''' then Some (JStr (ep_Detail e)) else None
     else if k = ''instance'' then if ep_Instance e \<noteq> '''' then Some (JStr (ep_Instance e)) else None
     else if k = ''benzeneStatus'' then
       if ep_BenzeneStatus e \<noteq> '''' then Some (JStr (ep_BenzeneStatus e)) else None
     else if k = ''errors'' then if ep_Errors e \<noteq> [] then Some (JArr (map enc (ep_Errors e))) else None
     else None)"
proof -
  have "(if c then if a \<and> b then x else y else z) = (if c \<and> a \<and> b then x else if c then y else z)"
    for c a b and x y z :: "json option" by simp
  show ?thesis
    unfolding fieldsWith_def map_of_fields fst_conv snd_conv
    by (cases "ep_Status e") (simp_all split del: if_split cong: if_cong, auto)
qed

text \<open>How the library prints the float of a 64-bit integer literal: it is in range.\<close>

definition integersInRange :: "(string \<Rightarrow> string option) \<Rightarrow> bool" where
  "integersInRange renumber \<longleftrightarrow>
    (\<forall>i. - (2 ^ 63) \<le> i \<longrightarrow> i < 2 ^ 63 \<longrightarrow> renumber (intText i) \<noteq> None)"

lemma reencode_document:
  assumes "validErrorPayload e" and "integersInRange renumber"
  shows "\<exists>problem. those (map (\<lambda>(k, j). map_option (Pair k) (reencode renumber j))
      (fieldsWith problemErrorJson e)) = Some problem \<and> distinct (map fst problem) \<and>
    (\<forall>k. k \<noteq> ''status'' \<longrightarrow> map_of problem k = map_of (fieldsWith sortedError (e\<lparr>ep_Status := st\<rparr>)) k)"
proof (intro exI conjI allI impI)
  let ?h = "\<lambda>j. the (reencode renumber j)"
  have errs: "reencode renumber (JArr (map problemErrorJson ps)) = Some (JArr (map sortedError ps))" for ps
    by (simp add: reencode_error those_map_Some [where g = sortedError] comp_def)
  have val: "reencode renumber j \<noteq> None" if "(k, j) \<in> set (fieldsWith problemErrorJson e)" for k j
  proof -
    have "map_of (fieldsWith problemErrorJson e) k = Some j"
      using that fieldsWith_keys(1) by simp
    then show ?thesis
      using assms errs by (auto simp: map_of_fieldsWith integersInRange_def
          dest!: validErrorPayload_status split: if_splits)
  qed
  show "those (map (\<lambda>(k, j). map_option (Pair k) (reencode renumber j)) (fieldsWith problemErrorJson e)) =
      Some (map (\<lambda>(k, j). (k, ?h j)) (fieldsWith problemErrorJson e))"
    using val by (intro those_map_Some) auto
  show "distinct (map fst (map (\<lambda>(k, j). (k, ?h j)) (fieldsWith problemErrorJson e)))"
    using fieldsWith_keys(1) [of problemErrorJson e] by (simp add: comp_def split_def)
  show "map_of (map (\<lambda>(k, j). (k, ?h j)) (fieldsWith problemErrorJson e)) k =
      map_of (fieldsWith sortedError (e\<lparr>ep_Status := st\<rparr>)) k" if "k \<noteq> ''status''" for k
    using that errs by (simp add: map_of_map map_of_fieldsWith)
qed

lemma WithHTTPStatus_document:
  assumes "validErrorPayload e" and "integersInRange renumber"
  shows "WithHTTPStatus renumber (MarshalErrorPayload e) code =
    (jprint (JObj (sort_key fst (fieldsWith sortedError (e\<lparr>ep_Status := Some code\<rparr>)))), True)"
proof -
  let ?F = "fieldsWith sortedError (e\<lparr>ep_Status := Some code\<rparr>)"
  obtain problem where problem: "those (map (\<lambda>(k, j). map_option (Pair k) (reencode renumber j))
      (fieldsWith problemErrorJson e)) = Some problem"
    "distinct (map fst problem)" "\<forall>k. k \<noteq> ''status'' \<longrightarrow> map_of problem k = map_of ?F k"
    using reencode_document [OF assms] by blast
  have "sort_key fst (AList.update ''status'' (JNum (intText code)) problem) = sort_key fst ?F"
  proof (rule sort_same_entries)
    show "map_of (AList.update ''status'' (JNum (intText code)) problem) = map_of ?F"
      using problem(3) by (intro ext) (simp add: map_of_fieldsWith)
  qed (simp_all add: problem(2) distinct_update fieldsWith_keys)
  moreover have "jparse (MarshalErrorPayload e) = Some (JObj (fieldsWith problemErrorJson e))"
    using jparse_jprint [OF errorPayload_valid [OF assms(1)]]
    by (simp add: MarshalErrorPayload_def fields_errorPayload)
  ultimately show ?thesis
    by (simp add: WithHTTPStatus_def problem(1) rawMembers_distinct [OF problem(2)] del: jprint.simps)
qed

lemma sorted_document_valid:
  assumes "validErrorPayload e"
  shows "jvalid (JObj (sort_key fst (fieldsWith sortedError e)))"
proof -
  have err: "jvalid (sortedError p)" if "validProblemError p" for p
    using that field_names_ascii
    by (auto simp: sortedError_def validProblemError_def list_all_iff)
  have "validText k \<and> jvalid j" if kj: "(k, j) \<in> set (fieldsWith sortedError e)" for k j
  proof -
    have "map_of (fieldsWith sortedError e) k = Some j" using kj fieldsWith_keys(1) by simp
    then show ?thesis
      using assms field_names_ascii err intText_number
      by (auto simp: map_of_fieldsWith validErrorPayload_def list_all_iff split: if_splits)
  qed
  then show ?thesis by (auto simp: list_all_iff)
qed

lemma ToHTTP_range: "200 \<le> ToHTTP s fl \<and> ToHTTP s fl < 600"
  by (simp add: ToHTTP_def split: list.split)

lemma http_document:
  assumes "validErrorPayload e" and "integersInRange renumber" and "- (2 ^ 63) \<le> code" and "code < 2 ^ 63"
  shows "\<exists>body. WithHTTPStatus renumber (MarshalErrorPayload e) code = (body, True) \<and>
    UnmarshalErrorPayload body = Some (e\<lparr>ep_Status := Some code\<rparr>)"
proof -
  let ?e = "e\<lparr>ep_Status := Some code\<rparr>"
  have valid: "validErrorPayload ?e" using assms by (simp add: validErrorPayload_def)
  have "UnmarshalErrorPayload (jprint (JObj (sort_key fst (fieldsWith sortedError ?e)))) = Some ?e"
    using valid by (intro UnmarshalErrorPayload_strict [OF jparse_jprint [OF sorted_document_valid]]
        decode_fields(2) sortedError_readable validErrorPayload_status)
  then show ?thesis using WithHTTPStatus_document [OF assms(1,2)] by blast
qed

lemma MarshalErrorPayload_nonempty: "MarshalErrorPayload e \<noteq> ''''"
  by (simp add: MarshalErrorPayload_def WireJson.fields_def)

section \<open>Properties\<close>

text \<open>Over HTTP a failed result is sent with the code of its status and a document
  whose status member is that same code, in the content type of a problem document; everything
  else in the document, each error with its field and code, is what the result's own document said. A
  health topic changes nothing about a failure.\<close>

theorem http_failure_document:
  fixes result :: "'v resultInfo"
  assumes "\<not> resultSuccessful result" and "validResultText result" and "integersInRange renumber"
  shows "\<exists>body hs. httpResponse renumber topic (responseOf marshal result) =
      (ToHTTP (ResultStatus result) [False], body, hs) \<and>
    UnmarshalErrorPayload body = Some ((problemDocument result)
      \<lparr>ep_Status := Some (ToHTTP (ResultStatus result) [False])\<rparr>) \<and>
    map_of hs ''content-type'' = Some ''application/problem+json''"
proof -
  let ?code = "ToHTTP (ResultStatus result) [False]"
  have "- (2 ^ 63) \<le> ?code" "?code < 2 ^ 63"
    using ToHTTP_range [of "ResultStatus result" "[False]"] by simp_all
  from http_document [OF assms(2) [unfolded validResultText_def] assms(3) this]
  obtain body where "WithHTTPStatus renumber (MarshalErrorPayload (problemDocument result)) ?code = (body, True)"
    "UnmarshalErrorPayload body = Some ((problemDocument result)\<lparr>ep_Status := Some ?code\<rparr>)"
    by blast
  then show ?thesis
    using assms(1) MarshalErrorPayload_nonempty [of "problemDocument result"]
    by (simp add: httpResponse_def responseOf_def errorResponse_def Let_def)
qed

theorem http_failure_document_witness:
  "\<exists>body hs. httpResponse Some (NewTopic ''benzene:liveness'')
      (responseOf (\<lambda>p. Inr ''1'') (ResultAny (failed StatusNotFound [''no such order'']) :: nat resultInfo)) =
      (404, body, hs) \<and>
    UnmarshalErrorPayload body = Some ((NewProblem StatusNotFound [messageOnly ''no such order''])
      \<lparr>ep_Status := Some 404\<rparr>)"
proof -
  let ?r = "ResultAny (failed StatusNotFound [''no such order'']) :: nat resultInfo"
  have doc: "problemDocument ?r = NewProblem StatusNotFound [messageOnly ''no such order'']"
    by (simp add: problemDocument_def ProblemsOf_def)
  have code: "ToHTTP StatusNotFound [False] = 404" by code_simp
  have "validErrorPayload (NewProblem StatusNotFound [messageOnly ''no such order''])" by code_simp
  then have "validResultText ?r" by (simp add: validResultText_def doc)
  moreover have "integersInRange Some" by (simp add: integersInRange_def)
  ultimately show ?thesis
    using http_failure_document [of ?r Some "NewTopic ''benzene:liveness''" "\<lambda>p. Inr ''1''"]
    by (auto simp: doc code)
qed

text \<open>A success is sent with the code of its status and its own body, save on a
  health topic whose report says it is unhealthy, which is sent as 503 with the report as its body;
  the code is then always one that reads back as a failure, and otherwise as a success.\<close>

theorem http_success_code:
  fixes topic :: topic and resp :: response
  assumes "rs_IsSuccessful resp = Some True" and "\<not> IsFailure (rs_StatusCode resp)"
  defines "drained \<equiv> goIndex healthTopics (ID topic) False \<and> reportsUnhealthy (rs_Body resp)"
  shows "\<exists>code hs. httpResponse renumber topic resp = (code, rs_Body resp, hs) \<and>
    (drained \<longrightarrow> code = 503) \<and> (\<not> drained \<longrightarrow> code = ToHTTP (rs_StatusCode resp) [True]) \<and>
    IsSuccess (FromHTTP code) = (\<not> drained)"
proof -
  have "effectiveSuccess (rs_StatusCode resp) [True]"
    using assms(2) by (auto simp: effectiveSuccess_def IsKnown_def)
  then have "IsSuccess (FromHTTP (ToHTTP (rs_StatusCode resp) [True]))"
    by (simp add: http_class)
  moreover have "\<not> IsSuccess (FromHTTP 503)" by code_simp
  ultimately show ?thesis
    using assms(1) by (auto simp: httpResponse_def Let_def drained_def)
qed

theorem http_success_code_witness:
  "fst (httpResponse Some (NewTopic ''benzene:readiness'')
    \<lparr>rs_StatusCode = ''ok'', rs_Headers = [], rs_Body = jprint (JObj [(''isHealthy'', JBool False)]),
     rs_IsSuccessful = Some True\<rparr>) = 503"
proof -
  let ?resp = "\<lparr>rs_StatusCode = ''ok'', rs_Headers = [], rs_Body = jprint (JObj [(''isHealthy'', JBool False)]),
     rs_IsSuccessful = Some True\<rparr>"
  have ok: "\<not> IsFailure (rs_StatusCode ?resp)" by code_simp
  have "jparse (rs_Body ?resp) = Some (JObj [(''isHealthy'', JBool False)])"
    unfolding response.simps by (rule jparse_jprint) (simp add: validText_ascii byteIn_def)
  then have "reportsUnhealthy (rs_Body ?resp)"
    by (simp add: reportsUnhealthy_def unmarshal_def healthReport_def del: jprint.simps)
  then show ?thesis
    using http_success_code [OF _ ok, of Some "NewTopic ''benzene:readiness''"]
    by (auto simp: healthTopics_def goIndex_def simp del: jprint.simps)
qed

end
