(* ===== verification/Resilience.thy ===== *)
theory Resilience
  imports Envelope Complex_Main
begin

text \<open>
  The resilience middlewares that need no library: retry with backoff (\<^verbatim>\<open>resilience/retry.go\<close>),
  timeout (\<^verbatim>\<open>resilience/timeout.go\<close>) and fallback (\<^verbatim>\<open>resilience/fallback.go\<close>). Durations are
  nanoseconds. A float product is the argument \<open>fmul\<close>: it yields the exact value of the double
  that the machine computes, a rational. How a duration is printed is the argument \<open>showDuration\<close>.
\<close>

section \<open>Predicates\<close>

text \<open>The argument is a possibly nil \<^verbatim>\<open>ResultInfo\<close>.\<close>

definition resultOk :: "'v resultInfo option \<Rightarrow> bool" where
  "resultOk result = (case result of None \<Rightarrow> False | Some r \<Rightarrow>
     (case asSuccessInfo r of Some b \<Rightarrow> b | None \<Rightarrow> \<not> IsFailure (ResultStatus r)))"

definition RetryUnsuccessful :: "'v resultInfo option \<Rightarrow> bool" where
  "RetryUnsuccessful result \<longleftrightarrow> \<not> resultOk result"

definition RetryOnStatus :: "status list \<Rightarrow> 'v resultInfo option \<Rightarrow> bool" where
  "RetryOnStatus statuses result = (case result of None \<Rightarrow> False
     | Some r \<Rightarrow> ResultStatus r \<in> set statuses)"

definition FallbackUnsuccessful :: "'v resultInfo option \<Rightarrow> bool" where
  "FallbackUnsuccessful result \<longleftrightarrow> \<not> resultOk result"

definition FallbackOnStatus :: "status list \<Rightarrow> 'v resultInfo option \<Rightarrow> bool" where
  "FallbackOnStatus statuses result = (case result of None \<Rightarrow> False
     | Some r \<Rightarrow> ResultStatus r \<in> set statuses)"

definition defaultRetryOnError :: "goerr \<Rightarrow> bool" where
  "defaultRetryOnError err \<longleftrightarrow> \<not> (errorsIs err ErrCanceled \<or> errorsIs err ErrDeadlineExceeded)"

definition neverRetryResult :: "'v resultInfo option \<Rightarrow> bool" where
  "neverRetryResult result = False"

section \<open>Retry (retry.go)\<close>

type_synonym ('v, 'w) jitter = "int \<Rightarrow> ('v, 'w) st \<Rightarrow> int \<times> ('v, 'w) st"
type_synonym ('v, 'w) sleep = "ctx \<Rightarrow> int \<Rightarrow> ('v, 'w) st \<Rightarrow> goerr option \<times> ('v, 'w) st"

record ('v, 'w) retryConfig =
  retries :: int
  initialDelay :: int
  backoffFactor :: rat
  maxDelay :: int
  retryOnError :: "goerr \<Rightarrow> bool"
  retryOnResult :: "'v resultInfo option \<Rightarrow> bool"
  jitterOf :: "('v, 'w) jitter"
  sleepOf :: "('v, 'w) sleep"

type_synonym ('v, 'w) retryOption = "('v, 'w) retryConfig \<Rightarrow> ('v, 'w) retryConfig"

definition defaultRetries :: int where "defaultRetries = 3"
definition defaultInitialDelay :: int where "defaultInitialDelay = 200 * 1000000"
definition defaultBackoffFactor :: rat where "defaultBackoffFactor = 2"

definition WithRetries :: "int \<Rightarrow> ('v, 'w) retryOption" where
  "WithRetries n c = c\<lparr>retries := n\<rparr>"
definition WithInitialDelay :: "int \<Rightarrow> ('v, 'w) retryOption" where
  "WithInitialDelay d c = c\<lparr>initialDelay := d\<rparr>"
definition WithBackoffFactor :: "rat \<Rightarrow> ('v, 'w) retryOption" where
  "WithBackoffFactor f c = c\<lparr>backoffFactor := f\<rparr>"
definition WithMaxDelay :: "int \<Rightarrow> ('v, 'w) retryOption" where
  "WithMaxDelay d c = c\<lparr>maxDelay := d\<rparr>"
definition WithRetryOnError :: "(goerr \<Rightarrow> bool) \<Rightarrow> ('v, 'w) retryOption" where
  "WithRetryOnError f c = c\<lparr>retryOnError := f\<rparr>"
definition WithRetryOnResult :: "('v resultInfo option \<Rightarrow> bool) \<Rightarrow> ('v, 'w) retryOption" where
  "WithRetryOnResult f c = c\<lparr>retryOnResult := f\<rparr>"
definition WithJitter :: "('v, 'w) jitter \<Rightarrow> ('v, 'w) retryOption" where
  "WithJitter f c = c\<lparr>jitterOf := f\<rparr>"
definition WithSleep :: "('v, 'w) sleep \<Rightarrow> ('v, 'w) retryOption" where
  "WithSleep f c = c\<lparr>sleepOf := f\<rparr>"

definition noJitter :: "('v, 'w) jitter" where
  "noJitter d s = (d, s)"

definition truncateRat :: "rat \<Rightarrow> int" where
  "truncateRat x = (if 0 \<le> x then \<lfloor>x\<rfloor> else \<lceil>x\<rceil>)"

text \<open>The random source yields a float of the unit interval.\<close>

definition FullJitter ::
  "(int \<Rightarrow> rat \<Rightarrow> rat) \<Rightarrow> (('v, 'w) st \<Rightarrow> rat \<times> ('v, 'w) st) \<Rightarrow> ('v, 'w) jitter" where
  "FullJitter fmul float64 delay s =
    (if delay \<le> 0 then (0, s)
     else (case float64 s of (f, s') \<Rightarrow> (truncateRat (fmul delay f), s')))"

definition maxInt64 :: int where "maxInt64 = 2 ^ 63 - 1"

text \<open>As a float, the greatest 64-bit integer is two to the 63.\<close>

definition growDelay :: "(int \<Rightarrow> rat \<Rightarrow> rat) \<Rightarrow> int \<Rightarrow> rat \<Rightarrow> int" where
  "growDelay fmul d factor =
    (if fmul d factor \<ge> 2 ^ 63 then maxInt64 else truncateRat (fmul d factor))"

text \<open>
  The timer and the cancellation may fire at the same instant; which one the \<^verbatim>\<open>select\<close> then takes is
  the argument \<open>tie\<close> (true: the cancellation).
\<close>

definition contextSleep :: "bool \<Rightarrow> ('v, 'w) sleep" where
  "contextSleep tie c d s =
    (if d \<le> 0 then (ctxErr c (clock s), s)
     else (case done_at c of
         None \<Rightarrow> (None, s\<lparr>clock := clock s + d\<rparr>)
       | Some (t, e) \<Rightarrow>
           if t < clock s + d \<or> (t = clock s + d \<and> tie)
           then (Some e, s\<lparr>clock := max (clock s) t\<rparr>)
           else (None, s\<lparr>clock := clock s + d\<rparr>)))"

definition retryDefaults :: "bool \<Rightarrow> ('v, 'w) retryConfig" where
  "retryDefaults tie = \<lparr>retries = defaultRetries, initialDelay = defaultInitialDelay,
     backoffFactor = defaultBackoffFactor, maxDelay = 0, retryOnError = defaultRetryOnError,
     retryOnResult = neverRetryResult, jitterOf = noJitter, sleepOf = contextSleep tie\<rparr>"

definition capDelay :: "('v, 'w) retryConfig \<Rightarrow> int \<Rightarrow> int" where
  "capDelay cfg delay = (if maxDelay cfg > 0 \<and> delay > maxDelay cfg then maxDelay cfg else delay)"

definition retriesOutcome ::
  "('v, 'w) retryConfig \<Rightarrow> goerr option \<Rightarrow> ('v, 'w) st \<Rightarrow> bool" where
  "retriesOutcome cfg e s = (case e of
      Some err \<Rightarrow> retryOnError cfg err
    | None \<Rightarrow> retryOnResult cfg (ic_Result (ic s)))"

function retryLoop ::
  "(int \<Rightarrow> rat \<Rightarrow> rat) \<Rightarrow> ('v, 'w) retryConfig \<Rightarrow> ctx \<Rightarrow> ('v, 'w) continuation \<Rightarrow> int \<Rightarrow> int \<Rightarrow>
   ('v, 'w) run" where
  "retryLoop fmul cfg c nx attempt delay s = (case nx c s of
      (Panic p, s1) \<Rightarrow> (Panic p, s1)
    | (Return e, s1) \<Rightarrow>
        if attempt \<ge> retries cfg \<or> \<not> retriesOutcome cfg e s1 then (Return e, s1)
        else (case jitterOf cfg (capDelay cfg delay) s1 of (d, s2) \<Rightarrow>
          (case sleepOf cfg c d s2 of
             (Some err, s3) \<Rightarrow> (Return (Some err), s3)
           | (None, s3) \<Rightarrow> retryLoop fmul cfg c nx (attempt + 1)
               (growDelay fmul delay (backoffFactor cfg)) s3)))"
  by pat_completeness auto
termination
  by (relation "measure (\<lambda>(fmul, cfg, c, nx, attempt, delay, s). nat (retries cfg - attempt))") auto

declare retryLoop.simps [simp del]

definition retryMiddleware ::
  "(int \<Rightarrow> rat \<Rightarrow> rat) \<Rightarrow> bool \<Rightarrow> ('v, 'w) retryOption list \<Rightarrow> ('v, 'w) middleware" where
  "retryMiddleware fmul tie opts c nx s =
    (let cfg = fold (\<lambda>opt c. opt c) opts (retryDefaults tie) in
     retryLoop fmul cfg c nx 0 (initialDelay cfg) s)"

section \<open>Timeout (timeout.go)\<close>

definition TimeoutMiddleware :: "(int \<Rightarrow> string) \<Rightarrow> int \<Rightarrow> ('v, 'w) middleware" where
  "TimeoutMiddleware showDuration d c nx s =
    (let timeoutCtx = withTimeout c (clock s) d in
     andThen (nx timeoutCtx s) (\<lambda>err s1.
       if ctxErr c (clock s1) = None \<and> ctxErr timeoutCtx (clock s1) = Some ErrDeadlineExceeded then
         if err = None \<and> resultOk (ic_Result (ic s1)) then (Return None, s1)
         else andThen (Timeout [''operation exceeded the '' @ showDuration d @ '' timeout''], s1)
           (\<lambda>r s2. (Return None, setResult (ResultAny r) s2))
       else (Return err, s1)))"

section \<open>Fallback (fallback.go)\<close>

type_synonym ('v, 'w) fallbackFunc = "ctx \<Rightarrow> goerr option \<Rightarrow> ('v, 'w) run"

record 'v fallbackConfig =
  onError :: "goerr \<Rightarrow> bool"
  onResult :: "'v resultInfo option \<Rightarrow> bool"

definition WithFallbackOnError :: "(goerr \<Rightarrow> bool) \<Rightarrow> 'v fallbackConfig \<Rightarrow> 'v fallbackConfig" where
  "WithFallbackOnError f c = c\<lparr>onError := f\<rparr>"

definition WithFallbackOnResult ::
  "('v resultInfo option \<Rightarrow> bool) \<Rightarrow> 'v fallbackConfig \<Rightarrow> 'v fallbackConfig" where
  "WithFallbackOnResult f c = c\<lparr>onResult := f\<rparr>"

text \<open>Building the middleware panics on a nil fallback.\<close>

definition FallbackMiddleware ::
  "('v, 'w) fallbackFunc option \<Rightarrow> ('v fallbackConfig \<Rightarrow> 'v fallbackConfig) list \<Rightarrow>
   ('v, 'w) middleware outcome" where
  "FallbackMiddleware fallback opts = (case fallback of
      None \<Rightarrow> Panic ''resilience: Fallback requires a non-nil fallback function''
    | Some fb \<Rightarrow>
        (let cfg = fold (\<lambda>opt c. opt c) opts
           \<lparr>onError = defaultRetryOnError, onResult = FallbackUnsuccessful\<rparr> in
         Return (\<lambda>c nx s. andThen (nx c s) (\<lambda>e s1. case e of
             Some err \<Rightarrow> if onError cfg err then fb c (Some err) s1 else (Return (Some err), s1)
           | None \<Rightarrow> if onResult cfg (ic_Result (ic s1)) then fb c None s1 else (Return None, s1)))))"

section \<open>Lemmas\<close>

text \<open>The uncapped delay before each retry.\<close>

primrec delayAt :: "(int \<Rightarrow> rat \<Rightarrow> rat) \<Rightarrow> ('v, 'w) retryConfig \<Rightarrow> nat \<Rightarrow> int" where
  "delayAt fmul cfg 0 = initialDelay cfg"
| "delayAt fmul cfg (Suc k) = growDelay fmul (delayAt fmul cfg k) (backoffFactor cfg)"

text \<open>
  One attempt that is retried: next returned an outcome that a predicate retries, and the capped and
  jittered delay of this attempt was slept in full.
\<close>

inductive backsOff ::
  "(int \<Rightarrow> rat \<Rightarrow> rat) \<Rightarrow> ('v, 'w) retryConfig \<Rightarrow> ctx \<Rightarrow> ('v, 'w) continuation \<Rightarrow> nat \<Rightarrow>
   ('v, 'w) st \<Rightarrow> ('v, 'w) st \<Rightarrow> bool"
  for fmul cfg c nx where
  "nx c s = (Return e, s1) \<Longrightarrow> retriesOutcome cfg e s1 \<Longrightarrow>
   jitterOf cfg (capDelay cfg (delayAt fmul cfg k)) s1 = (d, s2) \<Longrightarrow>
   sleepOf cfg c d s2 = (None, s3) \<Longrightarrow> backsOff fmul cfg c nx k s s3"

text \<open>How the loop ends at an attempt: with next's own outcome, or with the sleep's error.\<close>

inductive endsAt ::
  "(int \<Rightarrow> rat \<Rightarrow> rat) \<Rightarrow> ('v, 'w) retryConfig \<Rightarrow> ctx \<Rightarrow> ('v, 'w) continuation \<Rightarrow> nat \<Rightarrow>
   ('v, 'w) st \<Rightarrow> goerr option outcome \<times> ('v, 'w) st \<Rightarrow> bool"
  for fmul cfg c nx where
  panicked: "nx c s = (Panic p, s1) \<Longrightarrow> endsAt fmul cfg c nx k s (Panic p, s1)"
| returned: "nx c s = (Return e, s1) \<Longrightarrow> retries cfg \<le> int k \<or> \<not> retriesOutcome cfg e s1 \<Longrightarrow>
    endsAt fmul cfg c nx k s (Return e, s1)"
| interrupted: "nx c s = (Return e, s1) \<Longrightarrow> int k < retries cfg \<Longrightarrow> retriesOutcome cfg e s1 \<Longrightarrow>
    jitterOf cfg (capDelay cfg (delayAt fmul cfg k)) s1 = (d, s2) \<Longrightarrow>
    sleepOf cfg c d s2 = (Some err, s3) \<Longrightarrow> endsAt fmul cfg c nx k s (Return (Some err), s3)"

lemma retryLoop_attempts:
  "k \<le> nat (retries cfg) \<Longrightarrow>
   \<exists>n T. k \<le> n \<and> n \<le> nat (retries cfg) \<and> T k = s \<and>
    (\<forall>i. k \<le> i \<and> i < n \<longrightarrow> backsOff fmul cfg c nx i (T i) (T (Suc i))) \<and>
    endsAt fmul cfg c nx n (T n) (retryLoop fmul cfg c nx (int k) (delayAt fmul cfg k) s)"
proof (induction "nat (retries cfg) - k" arbitrary: k s)
  case 0
  then have k: "retries cfg \<le> int k" by linarith
  then have "retryLoop fmul cfg c nx (int k) (delayAt fmul cfg k) s = nx c s"
    by (simp add: retryLoop.simps split: prod.split outcome.split)
  moreover have "endsAt fmul cfg c nx k s (nx c s)"
    using k by (cases "nx c s"; cases "fst (nx c s)") (auto intro: endsAt.intros)
  ultimately show ?case using 0(2) by (intro exI [of _ k] exI [of _ "\<lambda>i. s"]) auto
next
  case (Suc m)
  then have k: "int k < retries cfg" by linarith
  show ?case
  proof (cases "\<exists>s3. backsOff fmul cfg c nx k s s3")
    case False
    have "endsAt fmul cfg c nx k s (retryLoop fmul cfg c nx (int k) (delayAt fmul cfg k) s)"
    proof (cases "nx c s")
      case (Pair r s1)
      show ?thesis
      proof (cases r)
        case (Panic p)
        with Pair show ?thesis by (simp add: retryLoop.simps endsAt.panicked)
      next
        case (Return e)
        obtain d s2 where j: "jitterOf cfg (capDelay cfg (delayAt fmul cfg k)) s1 = (d, s2)"
          by (cases "jitterOf cfg (capDelay cfg (delayAt fmul cfg k)) s1")
        obtain se s3 where z: "sleepOf cfg c d s2 = (se, s3)" by (cases "sleepOf cfg c d s2")
        show ?thesis
        proof (cases "retriesOutcome cfg e s1")
          case False
          with Pair Return show ?thesis by (simp add: retryLoop.simps endsAt.returned)
        next
          case True
          with \<open>\<nexists>s3. backsOff fmul cfg c nx k s s3\<close> Pair Return j z have "se \<noteq> None"
            by (metis backsOff.intros)
          with True Pair Return j z k show ?thesis
            by (auto simp: retryLoop.simps intro: endsAt.interrupted)
        qed
      qed
    qed
    with Suc(3) show ?thesis by (intro exI [of _ k] exI [of _ "\<lambda>i. s"]) auto
  next
    case True
    then obtain s3 where slept: "backsOff fmul cfg c nx k s s3" by blast
    then have step: "retryLoop fmul cfg c nx (int k) (delayAt fmul cfg k) s =
        retryLoop fmul cfg c nx (int (Suc k)) (delayAt fmul cfg (Suc k)) s3"
      using k by cases (simp add: retryLoop.simps [of _ _ _ _ "int k"] add.commute)
    have "m = nat (retries cfg) - Suc k" "Suc k \<le> nat (retries cfg)"
      using Suc(2) k by linarith+
    from Suc(1) [OF this, of s3] obtain n T where T: "Suc k \<le> n" "n \<le> nat (retries cfg)" "T (Suc k) = s3"
      "\<forall>i. Suc k \<le> i \<and> i < n \<longrightarrow> backsOff fmul cfg c nx i (T i) (T (Suc i))"
      "endsAt fmul cfg c nx n (T n) (retryLoop fmul cfg c nx (int (Suc k)) (delayAt fmul cfg (Suc k)) s3)"
      by blast
    show ?thesis
    proof (rule exI [of _ n], rule exI [of _ "T(k := s)"], intro conjI)
      show "k \<le> n" "n \<le> nat (retries cfg)" "(T(k := s)) k = s" using T by auto
      show "\<forall>i. k \<le> i \<and> i < n \<longrightarrow> backsOff fmul cfg c nx i ((T(k := s)) i) ((T(k := s)) (Suc i))"
        using T(3,4) slept by (auto simp: le_Suc_eq dest: le_neq_implies_less)
      show "endsAt fmul cfg c nx n ((T(k := s)) n)
          (retryLoop fmul cfg c nx (int k) (delayAt fmul cfg k) s)"
        using T(1,5) step by simp
    qed
  qed
qed

text \<open>What IEEE doubles give for a factor of two: doubling is exact below the ceiling.\<close>

definition exactDoubling :: "(int \<Rightarrow> rat \<Rightarrow> rat) \<Rightarrow> bool" where
  "exactDoubling fmul \<longleftrightarrow>
    (\<forall>m j. 0 \<le> m \<longrightarrow> m < 2 ^ 53 \<longrightarrow> m * 2 ^ j < 2 ^ 63 \<longrightarrow> fmul (m * 2 ^ j) 2 = of_int (2 * (m * 2 ^ j))) \<and>
    fmul maxInt64 2 = 2 ^ 64"

lemma growDelay_double:
  assumes "exactDoubling fmul" "0 \<le> m" "m < 2 ^ 53" "m * 2 ^ j < 2 ^ 63"
  shows "growDelay fmul (m * 2 ^ j) 2 = min (m * 2 ^ Suc j) maxInt64"
proof -
  have f: "fmul (m * 2 ^ j) 2 = of_int (2 * (m * 2 ^ j))"
    using assms by (simp add: exactDoubling_def)
  have "(2 ^ 63 \<le> fmul (m * 2 ^ j) 2) = (2 ^ 63 \<le> 2 * (m * 2 ^ j))"
    unfolding f by (metis of_int_le_iff of_int_numeral of_int_power)
  moreover have "truncateRat (fmul (m * 2 ^ j) 2) = 2 * (m * 2 ^ j)"
    using assms(2) unfolding f truncateRat_def floor_of_int by simp
  ultimately show ?thesis by (auto simp: growDelay_def maxInt64_def min_def)
qed

lemma delayAt_doubles:
  assumes "exactDoubling fmul" "backoffFactor cfg = 2" "0 \<le> initialDelay cfg" "initialDelay cfg < 2 ^ 53"
  shows "delayAt fmul cfg k = min (initialDelay cfg * 2 ^ k) maxInt64"
proof (induction k)
  case 0
  then show ?case using assms(4) by (simp add: maxInt64_def)
next
  case (Suc k)
  show ?case
  proof (cases "initialDelay cfg * 2 ^ k < 2 ^ 63")
    case True
    then show ?thesis
      using Suc growDelay_double [OF assms(1,3,4) True] assms(2) by (simp add: maxInt64_def min_def)
  next
    case False
    then have "delayAt fmul cfg k = maxInt64" "initialDelay cfg * 2 ^ Suc k \<ge> maxInt64"
      using Suc assms(3) by (auto simp: maxInt64_def min_def)
    then show ?thesis
      using assms(1,2) by (simp add: growDelay_def exactDoubling_def)
  qed
qed

section \<open>Properties\<close>

text \<open>C40 (termination). Retry always ends when next does: after some number n of attempts that
  were retried, at most the configured retries, each followed by its own capped and jittered delay
  slept in full, the next attempt is the last. It ends with that attempt's panic or own outcome (the
  retries are used up, or no predicate retries it) or with the error of an interrupted sleep. So next
  is called at most retries plus one times, on the state the previous attempt left.\<close>

theorem retry_attempts_bounded:
  fixes opts :: "('v, 'w) retryOption list"  and tie :: bool
  defines "cfg \<equiv> fold (\<lambda>opt c. opt c) opts (retryDefaults tie)"
  shows "\<exists>n T. n \<le> nat (retries cfg) \<and> T 0 = s \<and>
    (\<forall>i < n. backsOff fmul cfg c nx i (T i) (T (Suc i))) \<and>
    endsAt fmul cfg c nx n (T n) (retryMiddleware fmul tie opts c nx s)"
  using retryLoop_attempts [of 0 cfg s fmul c nx]
  by (auto simp: retryMiddleware_def cfg_def Let_def)

theorem retry_attempts_bounded_witness:
  "\<exists>n s'. n \<le> 1 \<and>
    endsAt (\<lambda>d f. of_int d * f) ((retryDefaults False :: (nat, unit) retryConfig)\<lparr>retries := 1\<rparr>) background
      done_run n s' (retryMiddleware (\<lambda>d f. of_int d * f) False [WithRetries 1] background done_run greeting)"
  using retry_attempts_bounded [where fmul = "\<lambda>d f. of_int d * f" and tie = False and opts = "[WithRetries 1]"
      and c = background and nx = done_run and s = greeting]
  by (auto simp: WithRetries_def retryDefaults_def)

text \<open>With the default factor the delay before retry k is the initial delay doubled k
  times until it would pass the greatest 64-bit duration, where it stays: it never wraps to a
  negative sleep, whatever the number of retries; what is slept is never more than the cap.\<close>

theorem default_backoff_saturates:
  fixes cfg :: "('v, 'w) retryConfig"
  assumes "exactDoubling fmul" and "backoffFactor cfg = defaultBackoffFactor"
    and "0 \<le> initialDelay cfg" and "initialDelay cfg < 2 ^ 53"
  shows "delayAt fmul cfg k = min (initialDelay cfg * 2 ^ k) maxInt64 \<and>
    0 \<le> delayAt fmul cfg k \<and> delayAt fmul cfg k \<le> delayAt fmul cfg (Suc k) \<and>
    (maxDelay cfg > 0 \<longrightarrow> capDelay cfg (delayAt fmul cfg k) \<le> maxDelay cfg)"
proof -
  have d: "delayAt fmul cfg j = min (initialDelay cfg * 2 ^ j) maxInt64" for j
    using assms by (intro delayAt_doubles) (simp_all add: defaultBackoffFactor_def)
  have "initialDelay cfg * 2 ^ k \<le> initialDelay cfg * 2 ^ Suc k" using assms(3) by simp
  then show ?thesis
    using assms(3) unfolding d by (auto simp: capDelay_def maxInt64_def min_def)
qed

definition wideProduct :: "int \<Rightarrow> rat \<Rightarrow> rat" where
  "wideProduct d f = (if d = maxInt64 then 2 ^ 63 else of_int d) * f"

lemma wideProduct_exact: "exactDoubling wideProduct"
proof -
  have "m * 2 ^ j \<noteq> maxInt64" if "0 \<le> m" "m < 2 ^ 53" for m :: int and j
  proof
    assume eq: "m * 2 ^ j = maxInt64"
    then have "odd (m * 2 ^ j)" by (simp add: maxInt64_def)
    then have "j = 0" by simp
    with eq that(2) show False by (simp add: maxInt64_def)
  qed
  then show ?thesis by (auto simp: exactDoubling_def wideProduct_def)
qed

theorem default_backoff_saturates_witness:
  "delayAt wideProduct (retryDefaults False :: (nat, unit) retryConfig) 40 = 9223372036854775807 \<and>
   delayAt wideProduct (retryDefaults False :: (nat, unit) retryConfig) 2 = 800000000"
  using default_backoff_saturates [OF wideProduct_exact, of "retryDefaults False :: (nat, unit) retryConfig" 40]
    default_backoff_saturates [OF wideProduct_exact, of "retryDefaults False :: (nat, unit) retryConfig" 2]
  by (simp add: retryDefaults_def defaultInitialDelay_def maxInt64_def)

text \<open>Timeout hands next a context that is done at its own deadline at the latest,
  and relabels an outcome exactly when that deadline has passed, the caller is still waiting and
  next did not succeed: then the result is a timeout failure and no error. In every other case,
  a cancelled caller among them, error and state are next's own; a panic passes through.\<close>

theorem timeout_classifies:
  assumes "nx (withTimeout c (clock s) d) s = (Return err, s1)"
  shows "TimeoutMiddleware showDuration d c nx s =
    (if ctxErr c (clock s1) = None \<and> clock s + d \<le> clock s1 \<and>
        \<not> (err = None \<and> resultOk (ic_Result (ic s1)))
     then (Return None, setResult (ResultAny (failed StatusTimeout
       [''operation exceeded the '' @ showDuration d @ '' timeout''])) s1)
     else (Return err, s1))"
  using assms ctxErr_withTimeout [of c "clock s1" "clock s" d]
  by (auto simp: TimeoutMiddleware_def Let_def)

theorem timeout_classifies_witness:
  "ic_Result (ic (snd (TimeoutMiddleware (\<lambda>d. ''5ns'') 5 background
      (\<lambda>c s. (Return (Some ErrDeadlineExceeded), s\<lparr>clock := clock s + 5\<rparr>)) greeting))) =
    Some (ResultAny (failed StatusTimeout [''operation exceeded the 5ns timeout'']))"
  using timeout_classifies [of "\<lambda>c s. (Return (Some ErrDeadlineExceeded), s\<lparr>clock := clock s + 5\<rparr>)"
      background greeting 5 "Some ErrDeadlineExceeded" "greeting\<lparr>clock := clock greeting + 5\<rparr>"
      "\<lambda>d. ''5ns''"]
  by (simp add: setResult_def)

text \<open>With the default triggers and a fallback that always supplies a successful result,
  whatever next does short of a panic ends well: the invocation has a successful result and no
  error, or the error is a cancellation or an exceeded deadline, which is left as it is.\<close>

theorem fallback_covers_failures:
  assumes "\<And>c cause s. \<exists>r s'. fb c cause s = (Return None, setResult r s') \<and> resultSuccessful r"
    and "FallbackMiddleware (Some fb) [] = Return mw" and "nx c s = (Return e, s1)"
  shows "\<exists>e' s'. mw c nx s = (Return e', s') \<and>
    (case e' of None \<Rightarrow> resultOk (ic_Result (ic s'))
     | Some err \<Rightarrow> e = Some err \<and> s' = s1 \<and>
         (errorsIs err ErrCanceled \<or> errorsIs err ErrDeadlineExceeded))"
proof -
  have ok: "resultOk (Some r) = resultSuccessful r" for r :: "'a resultInfo"
    by (simp add: resultOk_def resultSuccessful_def)
  obtain r s' where fb: "fb c e s1 = (Return None, setResult r s')" "resultSuccessful r"
    using assms(1) by blast
  show ?thesis
    using assms(2,3) fb
    by (cases e) (auto simp: FallbackMiddleware_def Let_def FallbackUnsuccessful_def defaultRetryOnError_def ok)
qed

theorem fallback_covers_failures_witness:
  "\<exists>mw. FallbackMiddleware (Some (\<lambda>c cause s. (Return None, setResult (ResultAny (resultOf StatusOk)) s))) [] =
      Return mw \<and> resultOk (ic_Result (ic (snd (mw background (\<lambda>c s. (Return (Some (ErrNew ''down'')), s)) greeting))))"
proof -
  let ?fb = "\<lambda>c cause s. (Return None, setResult (ResultAny (resultOf StatusOk)) s)"
  have good: "\<exists>r s'. ?fb c cause s = (Return None, setResult r s') \<and> resultSuccessful r"
    for c :: ctx and cause :: "goerr option" and s :: "(nat, unit) st"
    by (intro exI conjI, rule refl) (simp add: IsFailure_iff)
  obtain mw where mw: "FallbackMiddleware (Some ?fb) [] = (Return mw :: (nat, unit) middleware outcome)"
    by (simp add: FallbackMiddleware_def Let_def)
  have "\<not> (errorsIs (ErrNew ''down'') ErrCanceled \<or> errorsIs (ErrNew ''down'') ErrDeadlineExceeded)" by simp
  with fallback_covers_failures [OF good mw, of "\<lambda>c s. (Return (Some (ErrNew ''down'')), s)" background greeting
      "Some (ErrNew ''down'')" greeting] mw
  show ?thesis by (fastforce split: option.splits)
qed

end
