(* ===== verification/Bulkhead.thy ===== *)
theory Bulkhead
  imports Resilience
begin

text \<open>
  The bulkhead middleware (\<^verbatim>\<open>resilience/bulkhead.go\<close>). Its two channels are counters of the permits
  taken; concurrent invocations are callers, each at one point of the middleware's body, and a
  step moves one of them, so that a reachable state is any interleaving. What next does while a
  caller runs does not touch the channels.
\<close>

section \<open>Configuration\<close>

record bulkheadConfig =
  maxQueue :: int
  rejectStatus :: status
  rejectMessages :: "string list"

type_synonym bulkheadOption = "bulkheadConfig \<Rightarrow> bulkheadConfig"

definition WithMaxQueue :: "int \<Rightarrow> bulkheadOption" where
  "WithMaxQueue n c = c\<lparr>maxQueue := n\<rparr>"
definition WithRejectStatus :: "status \<Rightarrow> bulkheadOption" where
  "WithRejectStatus status c = c\<lparr>rejectStatus := status\<rparr>"
definition WithRejectMessages :: "string list \<Rightarrow> bulkheadOption" where
  "WithRejectMessages messages c = c\<lparr>rejectMessages := messages\<rparr>"

text \<open>What the middleware closes over: the capacities of the two channels and the rejection.\<close>

record 'v bulkhead =
  execCap :: nat
  admitCap :: nat
  rejectResult :: "'v result"

definition newBulkhead :: "int \<Rightarrow> bulkheadOption list \<Rightarrow> 'v bulkhead outcome" where
  "newBulkhead maxConcurrency opts =
    (if maxConcurrency < 1 then Panic ''resilience: Bulkhead requires maxConcurrency >= 1''
     else (let cfg = fold (\<lambda>opt c. opt c) opts \<lparr>maxQueue = 0, rejectStatus = StatusTooManyRequests,
         rejectMessages = [''bulkhead is full'']\<rparr> in
       if maxQueue cfg < 0 then Panic ''resilience: Bulkhead requires WithMaxQueue >= 0''
       else map_outcome (\<lambda>r. \<lparr>execCap = nat maxConcurrency,
           admitCap = nat (maxConcurrency + maxQueue cfg), rejectResult = r\<rparr>)
         (Fail (rejectStatus cfg) (rejectMessages cfg))))"

section \<open>Callers\<close>

text \<open>
  Where a caller is: at the first select, at the second select holding an admission permit, in
  next, after next or after a cancelled wait (still to give permits back), and returned.
\<close>

datatype caller = Arriving | Admitted | Running | ExecReleased | GaveUp | Rejected | Cancelled | Finished

record gates =
  execs :: nat
  admits :: nat

text \<open>
  The body, one atomic step per channel operation; \<open>cancelled\<close> says whether the caller's context
  is done. A select with two ready cases may take either, so both rules may apply at once.
\<close>

inductive bulkheadStep ::
  "'v bulkhead \<Rightarrow> (nat \<Rightarrow> bool) \<Rightarrow> gates \<times> caller list \<Rightarrow> gates \<times> caller list \<Rightarrow> bool"
  for bh cancelled where
  admit: "i < length cs \<Longrightarrow> cs ! i = Arriving \<Longrightarrow> admits g < admitCap bh \<Longrightarrow>
    bulkheadStep bh cancelled (g, cs) (g\<lparr>admits := admits g + 1\<rparr>, cs[i := Admitted])"
| reject: "i < length cs \<Longrightarrow> cs ! i = Arriving \<Longrightarrow> \<not> admits g < admitCap bh \<Longrightarrow>
    bulkheadStep bh cancelled (g, cs) (g, cs[i := Rejected])"
| take_slot: "i < length cs \<Longrightarrow> cs ! i = Admitted \<Longrightarrow> execs g < execCap bh \<Longrightarrow>
    bulkheadStep bh cancelled (g, cs) (g\<lparr>execs := execs g + 1\<rparr>, cs[i := Running])"
| give_up: "i < length cs \<Longrightarrow> cs ! i = Admitted \<Longrightarrow> cancelled i \<Longrightarrow>
    bulkheadStep bh cancelled (g, cs) (g, cs[i := GaveUp])"
| release_slot: "i < length cs \<Longrightarrow> cs ! i = Running \<Longrightarrow>
    bulkheadStep bh cancelled (g, cs) (g\<lparr>execs := execs g - 1\<rparr>, cs[i := ExecReleased])"
| leave: "i < length cs \<Longrightarrow> cs ! i = ExecReleased \<Longrightarrow>
    bulkheadStep bh cancelled (g, cs) (g\<lparr>admits := admits g - 1\<rparr>, cs[i := Finished])"
| leave_cancelled: "i < length cs \<Longrightarrow> cs ! i = GaveUp \<Longrightarrow>
    bulkheadStep bh cancelled (g, cs) (g\<lparr>admits := admits g - 1\<rparr>, cs[i := Cancelled])"

inductive bulkheadReachable ::
  "'v bulkhead \<Rightarrow> (nat \<Rightarrow> bool) \<Rightarrow> nat \<Rightarrow> gates \<times> caller list \<Rightarrow> bool"
  for bh cancelled n where
  start: "bulkheadReachable bh cancelled n (\<lparr>execs = 0, admits = 0\<rparr>, replicate n Arriving)"
| step: "bulkheadReachable bh cancelled n s \<Longrightarrow> bulkheadStep bh cancelled s s' \<Longrightarrow>
    bulkheadReachable bh cancelled n s'"

text \<open>The outcome of a caller that has returned, given what its run of next returned.\<close>

fun bulkheadResult ::
  "'v bulkhead \<Rightarrow> ctx \<Rightarrow> ('v, 'w) continuation \<Rightarrow> ('v, 'w) st \<Rightarrow> caller \<Rightarrow>
   (goerr option outcome \<times> ('v, 'w) st) option" where
  "bulkheadResult bh c nx s Rejected = Some (Return None, setResult (ResultAny (rejectResult bh)) s)"
| "bulkheadResult bh c nx s Cancelled = Some (Return (ctxErr c (clock s)), s)"
| "bulkheadResult bh c nx s Finished = Some (nx c s)"
| "bulkheadResult bh c nx s _ = None"

section \<open>The invariant\<close>

definition holdsAdmit :: "caller \<Rightarrow> bool" where
  "holdsAdmit p \<longleftrightarrow> p \<in> {Admitted, Running, ExecReleased, GaveUp}"

definition countOfCallers :: "(caller \<Rightarrow> bool) \<Rightarrow> caller list \<Rightarrow> nat" where
  "countOfCallers P cs = length (filter P cs)"

definition bulkheadInv :: "'v bulkhead \<Rightarrow> gates \<times> caller list \<Rightarrow> bool" where
  "bulkheadInv bh s \<longleftrightarrow>
     execs (fst s) = countOfCallers (\<lambda>p. p = Running) (snd s) \<and>
     admits (fst s) = countOfCallers holdsAdmit (snd s) \<and>
     execs (fst s) \<le> execCap bh \<and> admits (fst s) \<le> admitCap bh"

lemma count_update:
  "i < length cs \<Longrightarrow> countOfCallers P (cs[i := p]) + (if P (cs ! i) then 1 else 0) =
    countOfCallers P cs + (if P p then 1 else 0)"
proof (induction cs arbitrary: i)
  case (Cons c cs)
  then show ?case by (cases i) (auto simp: countOfCallers_def)
qed simp

lemma count_pos: "i < length cs \<Longrightarrow> P (cs ! i) \<Longrightarrow> 0 < countOfCallers P cs"
  by (auto simp: countOfCallers_def filter_empty_conv dest: nth_mem)

lemma count_less:
  assumes "i < length cs" "\<not> P (cs ! i)" "Q (cs ! i)" "\<And>p. P p \<Longrightarrow> Q p"
  shows "countOfCallers P cs < countOfCallers Q cs"
  using assms(1-3)
proof (induction cs arbitrary: i)
  case (Cons c cs)
  have le: "length (filter P cs) \<le> length (filter Q cs)" for cs
    using assms(4) by (induction cs) auto
  from Cons show ?case
  proof (cases i)
    case 0
    with Cons.prems le [of cs] show ?thesis by (simp add: countOfCallers_def)
  next
    case (Suc j)
    with Cons.IH [of j] Cons.prems assms(4) [of c] show ?thesis by (auto simp: countOfCallers_def)
  qed
qed simp

lemma bulkheadInv_step:
  assumes "bulkheadInv bh s" and "bulkheadStep bh cancelled s s'"
  shows "bulkheadInv bh s'"
  using assms(2,1)
proof cases
  case (admit i cs g)
  with assms(1) show ?thesis
    using count_update [of i cs "\<lambda>p. p = Running" Admitted] count_update [of i cs holdsAdmit Admitted]
    by (simp add: bulkheadInv_def holdsAdmit_def)
next
  case (reject i cs g)
  with assms(1) show ?thesis
    using count_update [of i cs "\<lambda>p. p = Running" Rejected] count_update [of i cs holdsAdmit Rejected]
    by (simp add: bulkheadInv_def holdsAdmit_def)
next
  case (take_slot i cs g)
  with assms(1) show ?thesis
    using count_update [of i cs "\<lambda>p. p = Running" Running] count_update [of i cs holdsAdmit Running]
    by (simp add: bulkheadInv_def holdsAdmit_def)
next
  case (give_up i cs g)
  with assms(1) show ?thesis
    using count_update [of i cs "\<lambda>p. p = Running" GaveUp] count_update [of i cs holdsAdmit GaveUp]
    by (simp add: bulkheadInv_def holdsAdmit_def)
next
  case (release_slot i cs g)
  with assms(1) show ?thesis
    using count_update [of i cs "\<lambda>p. p = Running" ExecReleased]
      count_update [of i cs holdsAdmit ExecReleased] count_pos [of i cs "\<lambda>p. p = Running"]
    by (auto simp: bulkheadInv_def holdsAdmit_def)
next
  case (leave i cs g)
  with assms(1) show ?thesis
    using count_update [of i cs "\<lambda>p. p = Running" Finished]
      count_update [of i cs holdsAdmit Finished] count_pos [of i cs holdsAdmit]
    by (auto simp: bulkheadInv_def holdsAdmit_def)
next
  case (leave_cancelled i cs g)
  with assms(1) show ?thesis
    using count_update [of i cs "\<lambda>p. p = Running" Cancelled]
      count_update [of i cs holdsAdmit Cancelled] count_pos [of i cs holdsAdmit]
    by (auto simp: bulkheadInv_def holdsAdmit_def)
qed

lemma bulkheadReachable_inv: "bulkheadReachable bh cancelled n s \<Longrightarrow> bulkheadInv bh s"
proof (induction rule: bulkheadReachable.induct)
  case start
  show ?case by (simp add: bulkheadInv_def countOfCallers_def holdsAdmit_def)
next
  case (step s s')
  then show ?case by (blast intro: bulkheadInv_step)
qed

text \<open>The queue length a list of options ends up with: that of the last \<^verbatim>\<open>WithMaxQueue\<close>, or 0.\<close>

definition queueOf :: "bulkheadOption list \<Rightarrow> int" where
  "queueOf opts = maxQueue (fold (\<lambda>opt c. opt c) opts \<lparr>maxQueue = 0, rejectStatus = StatusTooManyRequests,
     rejectMessages = [''bulkhead is full'']\<rparr>)"

lemma queueOf_none: "queueOf [] = 0"
  by (simp add: queueOf_def)

lemma queueOf_snoc:
  "queueOf (opts @ [WithMaxQueue n]) = n"
  "queueOf (opts @ [WithRejectStatus status]) = queueOf opts"
  "queueOf (opts @ [WithRejectMessages messages]) = queueOf opts"
  by (simp_all add: queueOf_def WithMaxQueue_def WithRejectStatus_def WithRejectMessages_def)

lemma newBulkhead_caps:
  assumes "newBulkhead maxConcurrency opts = Return bh"
  shows "1 \<le> maxConcurrency" "0 \<le> queueOf opts" "execCap bh = nat maxConcurrency"
    "admitCap bh = nat (maxConcurrency + queueOf opts)"
  using assms by (auto simp: newBulkhead_def queueOf_def Let_def map_outcome_eq_Return split: if_splits)

section \<open>Properties\<close>

text \<open>C39 (invariant). However invocations interleave, at most maxConcurrency of them run next at
  once, and at most maxConcurrency plus the configured queue (that of the last WithMaxQueue, 0 by
  default) run or wait; nobody is turned away while there is room; when every caller has returned all
  permits are back; and without a queue an admitted caller always finds one of the maxConcurrency slots
  free, so it never has to wait.\<close>

theorem bulkhead_bounds:
  assumes "newBulkhead maxConcurrency opts = Return bh"
    and "bulkheadReachable bh cancelled n (g, cs)"
  shows "int (length (filter (\<lambda>p. p = Running) cs)) \<le> maxConcurrency \<and>
    int (length (filter holdsAdmit cs)) \<le> maxConcurrency + queueOf opts \<and>
    (int (length (filter holdsAdmit cs)) < maxConcurrency + queueOf opts \<longrightarrow>
      (\<forall>i cs'. bulkheadStep bh cancelled (g, cs) (g, cs') \<longrightarrow> i < length cs \<longrightarrow>
         cs ! i = Arriving \<longrightarrow> cs' ! i \<noteq> Rejected)) \<and>
    ((\<forall>p \<in> set cs. p \<in> {Rejected, Cancelled, Finished}) \<longrightarrow> execs g = 0 \<and> admits g = 0) \<and>
    (queueOf opts = 0 \<longrightarrow> (\<forall>i < length cs. cs ! i = Admitted \<longrightarrow>
      int (execs g) < maxConcurrency \<and>
      bulkheadStep bh cancelled (g, cs) (g\<lparr>execs := execs g + 1\<rparr>, cs[i := Running])))"
proof (intro conjI impI allI)
  note caps = newBulkhead_caps [OF assms(1)]
  have inv: "bulkheadInv bh (g, cs)" using assms(2) by (rule bulkheadReachable_inv)
  then show "int (length (filter (\<lambda>p. p = Running) cs)) \<le> maxConcurrency"
    and "int (length (filter holdsAdmit cs)) \<le> maxConcurrency + queueOf opts"
    using caps by (simp_all add: bulkheadInv_def countOfCallers_def le_nat_iff)
  show "cs' ! i \<noteq> Rejected"
    if room: "int (length (filter holdsAdmit cs)) < maxConcurrency + queueOf opts"
      and "bulkheadStep bh cancelled (g, cs) (g, cs')" "i < length cs" "cs ! i = Arriving" for i cs'
    using that(2)
  proof cases
    case (reject j)
    then have "int (admits g) < int (admitCap bh)"
      using room inv caps by (simp add: bulkheadInv_def countOfCallers_def)
    with reject show ?thesis by simp
  qed (use that(3,4) in \<open>auto simp: nth_list_update\<close>)
  show "execs g = 0" and "admits g = 0"
    if "\<forall>p \<in> set cs. p \<in> {Rejected, Cancelled, Finished}"
    using that inv by (auto simp: bulkheadInv_def countOfCallers_def holdsAdmit_def filter_empty_conv)
  fix i assume free: "queueOf opts = 0" "i < length cs" "cs ! i = Admitted"
  then have slot: "execs g < execCap bh"
    using count_less [of i cs "\<lambda>p. p = Running" holdsAdmit] inv caps
    by (simp add: bulkheadInv_def holdsAdmit_def)
  then show "int (execs g) < maxConcurrency" using caps by simp
  show "bulkheadStep bh cancelled (g, cs) (g\<lparr>execs := execs g + 1\<rparr>, cs[i := Running])"
    by (rule bulkheadStep.take_slot [OF free(2,3) slot])
qed

definition narrow :: "nat bulkhead" where
  "narrow = \<lparr>execCap = 1, admitCap = 1, rejectResult = failed StatusTooManyRequests [''bulkhead is full'']\<rparr>"

lemma narrow_new: "newBulkhead 1 [] = Return narrow"
  by (simp add: newBulkhead_def narrow_def Fail_Return IsSuccess_iff)

lemma narrow_admitted:
  "bulkheadReachable narrow (\<lambda>i. True) 2 (\<lparr>execs = 0, admits = 1\<rparr>, [Admitted, Arriving])"
proof -
  have "bulkheadReachable narrow (\<lambda>i. True) 2 (\<lparr>execs = 0, admits = 0\<rparr>, [Arriving, Arriving])"
    using bulkheadReachable.start [of narrow "\<lambda>i. True" 2] by (simp add: numeral_2_eq_2)
  from bulkheadReachable.step [OF this bulkheadStep.admit [of 0]] show ?thesis
    by (simp add: narrow_def)
qed

theorem bulkhead_bounds_witness:
  "int (length (filter holdsAdmit [Admitted, Arriving])) \<le> 1 \<and>
   bulkheadStep narrow (\<lambda>i. True) (\<lparr>execs = 0, admits = 1\<rparr>, [Admitted, Arriving])
     (\<lparr>execs = 1, admits = 1\<rparr>, [Running, Arriving])"
  using bulkhead_bounds [OF narrow_new narrow_admitted]
  by (simp add: queueOf_none) (auto dest: spec [of _ 0])

text \<open>
  The comment at the second select says its cancellation case cannot be reached without a queue. It
  can: the select chooses among its ready cases, and a caller whose context is already done may take
  that case although a slot is free.
\<close>

lemma give_up_without_queue:
  "\<exists>s. bulkheadReachable narrow (\<lambda>i. True) 2 s \<and> admitCap narrow = execCap narrow \<and>
    execs (fst s) < execCap narrow \<and> snd s ! 0 = GaveUp"
proof -
  have "bulkheadReachable narrow (\<lambda>i. True) 2 (\<lparr>execs = 0, admits = 1\<rparr>, [GaveUp, Arriving])"
    using bulkheadReachable.step [OF narrow_admitted bulkheadStep.give_up [of 0]] by simp
  then show ?thesis by (intro exI [of _ "(\<lparr>execs = 0, admits = 1\<rparr>, [GaveUp, Arriving])"])
      (simp add: narrow_def)
qed

end
