(* ===== verification/CircuitBreaker.thy ===== *)
theory CircuitBreaker
  imports Resilience
begin

text \<open>
  The circuit breaker middleware (\<^verbatim>\<open>circuitbreaker/circuitbreaker.go\<close>). The breaker itself is
  \<^verbatim>\<open>gobreaker\<close>, which is not part of the repository: its \<^verbatim>\<open>Execute\<close> is the argument \<open>execute\<close>,
  and \<open>breakerContract\<close> is what its documentation says of it. The closure it is given runs on
  a pair: whether the closure has run, and the state of the invocation.
\<close>

definition errUnsuccessfulResult :: goerr where
  "errUnsuccessfulResult = ErrSentinel ''errUnsuccessfulResult'' ''circuitbreaker: unsuccessful result''"

record 'v breakerConfig =
  tripOnResult :: "'v resultInfo option \<Rightarrow> bool"
  openStatus :: status
  openMessages :: "string list"

type_synonym 'v breakerOption = "'v breakerConfig \<Rightarrow> 'v breakerConfig"

definition WithTripOnResult :: "('v resultInfo option \<Rightarrow> bool) \<Rightarrow> 'v breakerOption" where
  "WithTripOnResult f c = c\<lparr>tripOnResult := f\<rparr>"
definition WithOpenStatus :: "status \<Rightarrow> 'v breakerOption" where
  "WithOpenStatus status c = c\<lparr>openStatus := status\<rparr>"
definition WithOpenMessages :: "string list \<Rightarrow> 'v breakerOption" where
  "WithOpenMessages messages c = c\<lparr>openMessages := messages\<rparr>"

definition serverErrorStatuses :: "(status \<times> unit) list" where
  "serverErrorStatuses =
    [(StatusServiceUnavailable, ()), (StatusTimeout, ()), (StatusUnexpectedError, ())]"

definition TripOnServerError :: "'v resultInfo option \<Rightarrow> bool" where
  "TripOnServerError result = (case result of None \<Rightarrow> False
     | Some r \<Rightarrow> hasKey serverErrorStatuses (ResultStatus r))"

definition TripUnsuccessful :: "'v resultInfo option \<Rightarrow> bool" where
  "TripUnsuccessful result \<longleftrightarrow> \<not> resultOk result"

definition TripOnStatus :: "status list \<Rightarrow> 'v resultInfo option \<Rightarrow> bool" where
  "TripOnStatus statuses result = (case result of None \<Rightarrow> False
     | Some r \<Rightarrow> ResultStatus r \<in> set statuses)"

section \<open>The middleware\<close>

type_synonym ('v, 'w) guarded = "bool \<times> ('v, 'w) st \<Rightarrow> goerr option outcome \<times> bool \<times> ('v, 'w) st"

definition breakerClosure ::
  "'v breakerConfig \<Rightarrow> ctx \<Rightarrow> ('v, 'w) continuation \<Rightarrow> ('v, 'w) guarded" where
  "breakerClosure cfg c nx cs = (case nx c (snd cs) of
      (Panic p, s1) \<Rightarrow> (Panic p, True, s1)
    | (Return (Some nerr), s1) \<Rightarrow> (Return (Some nerr), True, s1)
    | (Return None, s1) \<Rightarrow>
        if tripOnResult cfg (ic_Result (ic s1)) then (Return (Some errUnsuccessfulResult), True, s1)
        else (Return None, True, s1))"

definition breakerDefaults :: "'v breakerConfig" where
  "breakerDefaults = \<lparr>tripOnResult = TripOnServerError, openStatus = StatusServiceUnavailable,
     openMessages = [''circuit breaker is open'']\<rparr>"

text \<open>Building it panics when the fast failure has a status of the success class.\<close>

definition breakerMiddleware ::
  "(('v, 'w) guarded \<Rightarrow> ('v, 'w) guarded) \<Rightarrow> 'v breakerOption list \<Rightarrow> ('v, 'w) middleware outcome" where
  "breakerMiddleware execute opts =
    (let cfg = fold (\<lambda>opt c. opt c) opts breakerDefaults in
     map_outcome (\<lambda>openResult c nx s. case execute (breakerClosure cfg c nx) (False, s) of
         (Panic p, _, s1) \<Rightarrow> (Panic p, s1)
       | (Return err, called, s1) \<Rightarrow>
           if \<not> called then (Return None, setResult (ResultAny openResult) s1)
           else if (case err of None \<Rightarrow> False | Some e \<Rightarrow> errorsIs e errUnsuccessfulResult)
             then (Return None, s1)
           else (Return err, s1))
       (Fail (openStatus cfg) (openMessages cfg)))"

section \<open>What gobreaker promises\<close>

text \<open>
  \<^verbatim>\<open>Execute\<close> either rejects the call with an error, without running the function, or runs it
  once and returns what it returned; its own bookkeeping never touches the invocation.
\<close>

definition sameInvocation :: "bool \<times> ('v, 'w) st \<Rightarrow> bool \<times> ('v, 'w) st \<Rightarrow> bool" where
  "sameInvocation a b \<longleftrightarrow> fst a = fst b \<and> ic (snd a) = ic (snd b)"

definition breakerContract :: "(('v, 'w) guarded \<Rightarrow> ('v, 'w) guarded) \<Rightarrow> bool" where
  "breakerContract execute \<longleftrightarrow> (\<forall>f cs.
    (\<exists>e cs'. execute f cs = (Return (Some e), cs') \<and> sameInvocation cs cs') \<or>
    (\<exists>cs1 r cs2 cs3. sameInvocation cs cs1 \<and> f cs1 = (r, cs2) \<and> sameInvocation cs2 cs3 \<and>
       execute f cs = (r, cs3)))"

text \<open>A breaker that meets it: it opens after the first failure and stays open.\<close>

definition oneStrike :: "(nat, bool) guarded \<Rightarrow> (nat, bool) guarded" where
  "oneStrike f cs =
    (if env (snd cs) then (Return (Some (ErrNew ''circuit breaker is open'')), cs)
     else (case f cs of (r, called, s) \<Rightarrow> (r, called, s\<lparr>env := (r \<noteq> Return None)\<rparr>)))"

lemma oneStrike_contract: "breakerContract oneStrike"
  unfolding breakerContract_def
proof (intro allI)
  fix f :: "(nat, bool) guarded" and cs
  obtain r called s where r: "f cs = (r, called, s)" by (cases "f cs")
  show "(\<exists>e cs'. oneStrike f cs = (Return (Some e), cs') \<and> sameInvocation cs cs') \<or>
    (\<exists>cs1 r cs2 cs3. sameInvocation cs cs1 \<and> f cs1 = (r, cs2) \<and> sameInvocation cs2 cs3 \<and>
       oneStrike f cs = (r, cs3))"
  proof (cases "env (snd cs)")
    case True
    then show ?thesis by (simp add: oneStrike_def sameInvocation_def)
  next
    case False
    then have "oneStrike f cs = (r, called, s\<lparr>env := (r \<noteq> Return None)\<rparr>)"
      by (simp add: oneStrike_def r)
    then show ?thesis
      using r by (intro disjI2 exI [of _ cs] exI [of _ r] exI [of _ "(called, s)"]
          exI [of _ "(called, s\<lparr>env := (r \<noteq> Return None)\<rparr>)"]) (simp add: sameInvocation_def)
  qed
qed

section \<open>Properties\<close>

lemma breakerClosure_called: "fst (snd (breakerClosure cfg c nx cs)) = True"
  by (simp add: breakerClosure_def split: prod.split outcome.split option.split)

text \<open>A breaker that keeps its documented contract is invisible but for its fast
  failures: every call either ends with no error and the configured failure as its result, next not
  having run, or runs next once and gives back exactly next's panic, error and result. Next's run
  counts as a failure to the breaker exactly when next returned an error or left a result that
  trips it, and the sentinel that tells the breaker so is never returned.\<close>

theorem breaker_transparent:
  fixes c :: ctx
  assumes "breakerContract execute"
    and "breakerMiddleware execute opts = Return mw"
    and "\<And>t err t'. nx c t = (Return (Some err), t') \<Longrightarrow> \<not> errorsIs err errUnsuccessfulResult"
  defines "cfg \<equiv> fold (\<lambda>opt c. opt c) opts breakerDefaults"
  shows "(\<exists>s1. mw c nx s = (Return None, setResult (ResultAny (failed (openStatus cfg) (openMessages cfg))) s1) \<and>
        ic s1 = ic s) \<or>
    (\<exists>t r t' s1. ic t = ic s \<and> nx c t = (r, t') \<and> ic s1 = ic t' \<and> mw c nx s = (r, s1) \<and>
      (fst (breakerClosure cfg c nx (False, t)) = Return None \<longleftrightarrow>
        r = Return None \<and> \<not> tripOnResult cfg (ic_Result (ic t'))))"
proof -
  have mw: "mw = (\<lambda>c nx s. case execute (breakerClosure cfg c nx) (False, s) of
         (Panic p, _, s1) \<Rightarrow> (Panic p, s1)
       | (Return err, called, s1) \<Rightarrow>
           if \<not> called then (Return None, setResult (ResultAny (failed (openStatus cfg) (openMessages cfg))) s1)
           else if (case err of None \<Rightarrow> False | Some e \<Rightarrow> errorsIs e errUnsuccessfulResult)
             then (Return None, s1)
           else (Return err, s1))"
    using assms(2) by (auto simp: breakerMiddleware_def cfg_def [symmetric] Let_def map_outcome_eq_Return
        Fail_eq_Return)
  consider (rejected) e cs' where "execute (breakerClosure cfg c nx) (False, s) = (Return (Some e), cs')"
      "sameInvocation (False, s) cs'"
    | (ran) cs1 r cs2 cs3 where "sameInvocation (False, s) cs1" "breakerClosure cfg c nx cs1 = (r, cs2)"
      "sameInvocation cs2 cs3" "execute (breakerClosure cfg c nx) (False, s) = (r, cs3)"
    using assms(1) unfolding breakerContract_def by blast
  then show ?thesis
  proof cases
    case rejected
    then show ?thesis by (cases cs') (auto simp: mw sameInvocation_def)
  next
    case ran
    obtain r' t' where t: "nx c (snd cs1) = (r', t')" by (cases "nx c (snd cs1)")
    have "\<not> errorsIs err errUnsuccessfulResult" if "r' = Return (Some err)" for err
      using assms(3) t that by blast
    with ran t show ?thesis
      by (intro disjI2 exI [of _ "snd cs1"] exI [of _ r'] exI [of _ t'] exI [of _ "snd cs3"], cases cs1, cases cs3)
        (auto simp: mw sameInvocation_def breakerClosure_def split: outcome.splits option.splits if_splits)
  qed
qed

theorem breaker_transparent_witness:
  "\<exists>mw s1. breakerMiddleware oneStrike [] = Return mw \<and>
    mw background (\<lambda>c s. (Return (Some (ErrNew ''down'')), s))
      \<lparr>ic = ic greeting, clock = 0, env = False\<rparr> = (Return (Some (ErrNew ''down'')), s1)"
proof -
  obtain mw where mw: "breakerMiddleware oneStrike [] = Return mw"
    by (simp add: breakerMiddleware_def breakerDefaults_def Let_def Fail_Return IsSuccess_iff)
  have "\<not> errorsIs err errUnsuccessfulResult"
    if "(\<lambda>c s. (Return (Some (ErrNew ''down'')), s)) background t = (Return (Some err), t')"
    for err and t t' :: "(nat, bool) st"
    using that by (auto simp: errUnsuccessfulResult_def)
  from breaker_transparent [OF oneStrike_contract mw this,
      where s = "\<lparr>ic = ic greeting, clock = 0, env = False\<rparr>"] mw
  show ?thesis
    by (auto simp: breakerMiddleware_def breakerDefaults_def Let_def Fail_Return IsSuccess_iff
        oneStrike_def breakerClosure_def errUnsuccessfulResult_def)
qed

end
