(* ===== verification/RateLimiting.thy ===== *)
theory RateLimiting
  imports Resilience
begin

text \<open>
  Per-instance rate limiting: the middleware over the \<^verbatim>\<open>Limiter\<close> interface
  (\<^verbatim>\<open>ratelimiting/ratelimiting.go\<close>) and the token bucket (\<^verbatim>\<open>ratelimiting/tokenbucket.go\<close>).
  The bucket counts in floats: every float operation is the exact one followed by the rounding
  \<open>rnd\<close>, an argument. A limiter's lock makes each call one atomic step.
\<close>

section \<open>The token bucket (tokenbucket.go)\<close>

record tokenBucket =
  tb_rate :: rat
  tb_burst :: rat
  tb_tokens :: rat
  tb_last :: int

text \<open>\<^verbatim>\<open>NewTokenBucket\<close> reads the clock once, at the instant \<open>now\<close>.\<close>

definition NewTokenBucket :: "(rat \<Rightarrow> rat) \<Rightarrow> rat \<Rightarrow> int \<Rightarrow> int \<Rightarrow> tokenBucket" where
  "NewTokenBucket rnd ratePerSecond burst now =
    (let capacity = (if rnd (of_int burst) < 1 then 1 else rnd (of_int burst));
         rate = (if ratePerSecond < 0 then 0 else ratePerSecond) in
     \<lparr>tb_rate = rate, tb_burst = capacity, tb_tokens = capacity, tb_last = now\<rparr>)"

text \<open>\<^verbatim>\<open>Duration.Seconds\<close>: whole seconds and the rest, added as floats.\<close>

definition durationSeconds :: "(rat \<Rightarrow> rat) \<Rightarrow> int \<Rightarrow> rat" where
  "durationSeconds rnd d =
    (let sec = (if d \<ge> 0 then d div 1000000000 else - ((- d) div 1000000000));
         nsec = d - sec * 1000000000 in
     rnd (rnd (of_int sec) + rnd (of_int nsec / 1000000000)))"

definition refilled :: "(rat \<Rightarrow> rat) \<Rightarrow> int \<Rightarrow> tokenBucket \<Rightarrow> tokenBucket" where
  "refilled rnd now b =
    (let elapsed = durationSeconds rnd (now - tb_last b) in
     if elapsed > 0 then
       (let tokens = rnd (tb_tokens b + rnd (elapsed * tb_rate b)) in
        b\<lparr>tb_tokens := (if tokens > tb_burst b then tb_burst b else tokens), tb_last := now\<rparr>)
     else b)"

type_synonym 'l limiterAllow = "int \<Rightarrow> int \<Rightarrow> 'l \<Rightarrow> (('l \<Rightarrow> 'l) option \<times> bool) \<times> 'l"

text \<open>The release function it hands out does nothing.\<close>

definition TokenBucket_Allow :: "(rat \<Rightarrow> rat) \<Rightarrow> tokenBucket limiterAllow" where
  "TokenBucket_Allow rnd now cost b =
    (let b1 = refilled rnd now b in
     if rnd (of_int cost) \<le> tb_tokens b1
     then ((Some (\<lambda>l. l), True), b1\<lparr>tb_tokens := rnd (tb_tokens b1 - rnd (of_int cost))\<rparr>)
     else ((Some (\<lambda>l. l), False), b1))"

section \<open>The middleware (ratelimiting.go)\<close>

definition OnePerMessage :: "'v invocation \<Rightarrow> int" where
  "OnePerMessage i = 1"

text \<open>The limiter is the first part of the outside state; release is deferred, so it also runs
  when next panics.\<close>

definition releaseLease ::
  "('l \<Rightarrow> 'l) option \<Rightarrow> ('v, 'l \<times> 'w) st \<Rightarrow> ('v, 'l \<times> 'w) st" where
  "releaseLease release s = (case release of
      None \<Rightarrow> s
    | Some f \<Rightarrow> s\<lparr>env := (f (fst (env s)), snd (env s))\<rparr>)"

definition rateLimitMiddleware ::
  "'l limiterAllow \<Rightarrow> ('v invocation \<Rightarrow> int) \<Rightarrow> ('v, 'l \<times> 'w) middleware" where
  "rateLimitMiddleware allow costOf c nx s =
    (let cost = (if costOf (ic s) < 0 then 0 else costOf (ic s)) in
     case allow (clock s) cost (fst (env s)) of
       ((release, ok), l) \<Rightarrow>
         (let s1 = s\<lparr>env := (l, snd (env s))\<rparr> in
          if \<not> ok then andThen (TooManyRequests [''rate limit exceeded''], s1)
            (\<lambda>r s2. (Return None, setResult (ResultAny r) s2))
          else (case nx c s1 of (r, s2) \<Rightarrow> (r, releaseLease release s2))))"

section \<open>What a rate limiter promises\<close>

text \<open>
  A limiter has, at every instant, a level of permits: a request is granted exactly when the level
  covers its cost, a grant takes the cost from the level and a rejection takes nothing, and the
  level rises no faster than the refill rate (permits per nanosecond).
\<close>

locale rate_limiter =
  fixes allow :: "'l limiterAllow"
    and level :: "'l \<Rightarrow> int \<Rightarrow> rat"
    and refill :: "'l \<Rightarrow> rat"
    and valid :: "'l \<Rightarrow> int \<Rightarrow> bool"
  assumes valid_later: "valid l t \<Longrightarrow> t \<le> u \<Longrightarrow> valid l u"
    and level_nonneg: "valid l t \<Longrightarrow> 0 \<le> level l t"
    and level_rises: "valid l t \<Longrightarrow> t \<le> u \<Longrightarrow> level l u \<le> level l t + refill l * of_int (u - t)"
    and allow_exact: "valid l t \<Longrightarrow> 0 \<le> cost \<Longrightarrow> allow t cost l = ((rel, ok), l') \<Longrightarrow>
      valid l' t \<and> refill l' = refill l \<and> (ok \<longleftrightarrow> of_int cost \<le> level l t) \<and>
      level l' t = level l t - (if ok then of_int cost else 0)"
begin

text \<open>The permits granted by a run of requests, each an instant and a cost.\<close>

fun granted :: "(int \<times> int) list \<Rightarrow> 'l \<Rightarrow> int" where
  "granted [] l = 0"
| "granted ((t, cost) # rs) l = (case allow t cost l of ((rel, ok), l') \<Rightarrow>
     (if ok then cost else 0) + granted rs l')"

lemma granted_budget:
  "valid l t0 \<Longrightarrow> sorted (t0 # map fst rs @ [t1]) \<Longrightarrow> \<forall>(t, cost) \<in> set rs. 0 \<le> cost \<Longrightarrow> 0 \<le> refill l \<Longrightarrow>
    of_int (granted rs l) \<le> level l t0 + refill l * of_int (t1 - t0)"
proof (induction rs arbitrary: l t0)
  case Nil
  then show ?case using level_nonneg by simp
next
  case (Cons r rs)
  obtain t cost where r: "r = (t, cost)" by (cases r)
  obtain rel ok l' where a: "allow t cost l = ((rel, ok), l')" by (cases "allow t cost l") auto
  have t0: "t0 \<le> t" and cost: "0 \<le> cost" using Cons.prems(2,3) r by auto
  have v: "valid l t" using Cons.prems(1) t0 by (rule valid_later)
  note exact = allow_exact [OF v cost a]
  have "of_int (granted rs l') \<le> level l' t + refill l' * of_int (t1 - t)"
    using Cons.prems(2,3,4) r exact by (intro Cons.IH) auto
  moreover have "level l t \<le> level l t0 + refill l * of_int (t - t0)"
    using Cons.prems(1) t0 by (rule level_rises)
  ultimately show ?case
    using exact by (auto simp: r a algebra_simps split: if_splits)
qed

lemma never_rejects_free: "valid l t \<Longrightarrow> allow t 0 l = ((rel, ok), l') \<Longrightarrow> ok"
  using allow_exact [of l t 0 rel ok l'] level_nonneg [of l t] by simp

end

section \<open>The token bucket is a rate limiter\<close>

text \<open>With exact arithmetic; the level is what the bucket would hold if it were refilled now.\<close>

definition bucketLevel :: "tokenBucket \<Rightarrow> int \<Rightarrow> rat" where
  "bucketLevel b t = tb_tokens (refilled (\<lambda>x. x) t b)"

definition bucketRefill :: "tokenBucket \<Rightarrow> rat" where
  "bucketRefill b = tb_rate b / 1000000000"

definition bucketValid :: "tokenBucket \<Rightarrow> int \<Rightarrow> bool" where
  "bucketValid b t \<longleftrightarrow> tb_last b \<le> t \<and> 0 \<le> tb_rate b \<and> 0 \<le> tb_tokens b \<and> tb_tokens b \<le> tb_burst b"

lemma durationSeconds_exact: "durationSeconds (\<lambda>x. x) d = of_int d / 1000000000"
  by (simp add: durationSeconds_def Let_def field_simps)

lemma bucketLevel_eq:
  "bucketValid b t \<Longrightarrow>
    bucketLevel b t = min (tb_burst b) (tb_tokens b + bucketRefill b * of_int (t - tb_last b))"
  by (auto simp: bucketLevel_def refilled_def durationSeconds_exact bucketRefill_def bucketValid_def
      Let_def min_def zero_less_divide_iff algebra_simps)

lemma bucketValid_refilled: "bucketValid b t \<Longrightarrow> bucketValid (refilled (\<lambda>x. x) t b) t"
  by (auto simp: bucketValid_def refilled_def durationSeconds_exact Let_def
      intro!: add_nonneg_nonneg mult_nonneg_nonneg)

lemma refilled_now: "bucketLevel (refilled (\<lambda>x. x) t b) t = tb_tokens (refilled (\<lambda>x. x) t b)"
  by (simp add: bucketLevel_def) (simp add: refilled_def durationSeconds_exact Let_def)

interpretation bucket: rate_limiter "TokenBucket_Allow (\<lambda>x. x)" bucketLevel bucketRefill bucketValid
proof
  fix l :: tokenBucket and t u cost :: int and rel ok l'
  show "bucketValid l t \<Longrightarrow> t \<le> u \<Longrightarrow> bucketValid l u" by (simp add: bucketValid_def)
  show "bucketValid l t \<Longrightarrow> 0 \<le> bucketLevel l t"
    using bucketValid_refilled [of l t] by (simp add: bucketLevel_def bucketValid_def)
  show "bucketLevel l u \<le> bucketLevel l t + bucketRefill l * of_int (u - t)"
    if "bucketValid l t" "t \<le> u"
  proof -
    have "bucketValid l u" using that by (simp add: bucketValid_def)
    moreover have "0 \<le> bucketRefill l * of_int (u - t)"
      using that by (auto simp: bucketRefill_def bucketValid_def intro!: mult_nonneg_nonneg)
    ultimately show ?thesis
      using that by (auto simp: bucketLevel_eq min_def algebra_simps)
  qed
  show "bucketValid l' t \<and> bucketRefill l' = bucketRefill l \<and> ok = (of_int cost \<le> bucketLevel l t) \<and>
      bucketLevel l' t = bucketLevel l t - (if ok then of_int cost else 0)"
    if "bucketValid l t" "0 \<le> cost" "TokenBucket_Allow (\<lambda>x. x) t cost l = ((rel, ok), l')"
  proof -
    let ?b = "refilled (\<lambda>x. x) t l"
    have v: "bucketValid ?b t" using that(1) by (rule bucketValid_refilled)
    have rate: "tb_rate ?b = tb_rate l" by (simp add: refilled_def Let_def)
    have here: "bucketLevel (?b\<lparr>tb_tokens := x\<rparr>) t = x" for x
      by (simp add: bucketLevel_def refilled_def durationSeconds_exact Let_def)
    have "ok = (of_int cost \<le> tb_tokens ?b)"
      "l' = (if ok then ?b\<lparr>tb_tokens := tb_tokens ?b - of_int cost\<rparr> else ?b)"
      using that(3) by (auto simp: TokenBucket_Allow_def Let_def split: if_splits)
    then show ?thesis
      using v rate here that(2) refilled_now [of t l]
      by (auto simp: bucketRefill_def bucketLevel_def bucketValid_def)
  qed
qed

text \<open>What IEEE rounding gives: it is monotone, and exact on floats, zero and one among them.\<close>

definition roundsFloat :: "(rat \<Rightarrow> rat) \<Rightarrow> bool" where
  "roundsFloat rnd \<longleftrightarrow> (\<forall>x y. x \<le> y \<longrightarrow> rnd x \<le> rnd y) \<and> (\<forall>x. rnd (rnd x) = rnd x) \<and>
    rnd 0 = 0 \<and> rnd 1 = 1"

definition bucketInRange :: "(rat \<Rightarrow> rat) \<Rightarrow> tokenBucket \<Rightarrow> bool" where
  "bucketInRange rnd b \<longleftrightarrow> 0 \<le> tb_rate b \<and> rnd (tb_burst b) = tb_burst b \<and>
    0 \<le> tb_tokens b \<and> tb_tokens b \<le> tb_burst b"

lemma NewTokenBucket_inRange: "roundsFloat rnd \<Longrightarrow> bucketInRange rnd (NewTokenBucket rnd rate burst now)"
  by (simp add: roundsFloat_def bucketInRange_def NewTokenBucket_def Let_def)

lemma refilled_inRange:
  assumes "roundsFloat rnd" and "bucketInRange rnd b"
  shows "bucketInRange rnd (refilled rnd now b)"
proof -
  let ?e = "durationSeconds rnd (now - tb_last b)"
  have mono: "0 \<le> x \<Longrightarrow> 0 \<le> rnd x" for x
    using assms(1) unfolding roundsFloat_def by metis
  have "0 \<le> rnd (tb_tokens b + rnd (?e * tb_rate b))" if "?e > 0"
    using assms(2) that by (intro mono add_nonneg_nonneg mult_nonneg_nonneg) (auto simp: bucketInRange_def)
  then show ?thesis
    using assms(2) by (auto simp: refilled_def bucketInRange_def Let_def)
qed

lemma Allow_inRange:
  assumes "roundsFloat rnd" and "bucketInRange rnd b" and "0 \<le> cost"
  shows "bucketInRange rnd (snd (TokenBucket_Allow rnd now cost b))"
proof -
  let ?b = "refilled rnd now b"
  have b: "bucketInRange rnd ?b" using refilled_inRange [OF assms(1,2)] .
  have cost: "0 \<le> rnd (of_int cost)"
    using assms(1,3) unfolding roundsFloat_def by (metis of_int_0_le_iff)
  have "0 \<le> rnd (tb_tokens ?b - rnd (of_int cost))" if "rnd (of_int cost) \<le> tb_tokens ?b"
    using assms(1) that unfolding roundsFloat_def by (metis diff_ge_0_iff_ge)
  moreover have "rnd (tb_tokens ?b - rnd (of_int cost)) \<le> rnd (tb_burst ?b)"
    using assms(1) b cost unfolding roundsFloat_def bucketInRange_def
    by (smt (verit) diff_mono diff_zero order_trans)
  ultimately show ?thesis
    using b by (auto simp: TokenBucket_Allow_def bucketInRange_def Let_def)
qed

section \<open>Properties\<close>

text \<open>Whatever requests a new token bucket gets, in the order of time, the permits it
  grants never add up to more than its burst (at least 1) plus its rate (at least 0) for the time
  that has passed: the exact-arithmetic reading of the limit.\<close>

theorem token_bucket_budget:
  assumes "sorted (t0 # map fst rs @ [t1])" and "\<forall>(t, cost) \<in> set rs. 0 \<le> cost"
  shows "of_int (bucket.granted rs (NewTokenBucket (\<lambda>x. x) rate burst t0)) \<le>
    max 1 (of_int burst) + max 0 rate * of_int (t1 - t0) / 1000000000"
proof -
  let ?b = "NewTokenBucket (\<lambda>x. x) rate burst t0"
  have valid: "bucketValid ?b t0" by (simp add: bucketValid_def NewTokenBucket_def Let_def)
  have "bucketLevel ?b t0 = max 1 (of_int burst)"
    by (simp add: bucketLevel_eq [OF valid]) (simp add: NewTokenBucket_def Let_def)
  moreover have refill: "bucketRefill ?b = max 0 rate / 1000000000"
    by (simp add: bucketRefill_def NewTokenBucket_def Let_def)
  moreover have "0 \<le> bucketRefill ?b" unfolding refill by simp
  ultimately show ?thesis
    using bucket.granted_budget [OF valid assms] by (simp only: times_divide_eq_left)
qed

theorem token_bucket_budget_witness:
  "of_int (bucket.granted [(0, 1), (0, 1), (0, 1), (1000000000, 1)] (NewTokenBucket (\<lambda>x. x) 1 2 0)) \<le>
    (max 1 (of_int 2) + max 0 1 * of_int (1000000000 - 0) / 1000000000 :: rat)"
  by (rule token_bucket_budget) simp_all

text \<open>With any float rounding and any clock, one that runs backwards included, a
  bucket holds between nothing and its burst after every call, and a request of no cost is
  never turned away.\<close>

theorem token_bucket_in_range:
  fixes t0 burst :: int and rate :: rat and rnd :: "rat \<Rightarrow> rat" and rs :: "(int \<times> int) list"
  assumes "roundsFloat rnd" and "\<forall>(t, cost) \<in> set rs. 0 \<le> cost"
  defines "b \<equiv> fold (\<lambda>(t, cost) b. snd (TokenBucket_Allow rnd t cost b)) rs (NewTokenBucket rnd rate burst t0)"
  shows "0 \<le> tb_tokens b \<and> tb_tokens b \<le> tb_burst b \<and>
    snd (fst (TokenBucket_Allow rnd now 0 b))"
proof -
  have "bucketInRange rnd (fold (\<lambda>(t, cost) b. snd (TokenBucket_Allow rnd t cost b)) rs b0)"
    if "bucketInRange rnd b0" for b0
    using that assms(2)
    by (induction rs arbitrary: b0) (auto intro: Allow_inRange [OF assms(1)])
  then have b: "bucketInRange rnd b"
    using NewTokenBucket_inRange [OF assms(1)] by (simp add: b_def)
  moreover have "0 \<le> tb_tokens (refilled rnd now b)"
    using refilled_inRange [OF assms(1) b] by (simp add: bucketInRange_def)
  ultimately show ?thesis
    using assms(1) by (simp add: bucketInRange_def TokenBucket_Allow_def Let_def roundsFloat_def)
qed

theorem token_bucket_in_range_witness:
  "snd (fst (TokenBucket_Allow (\<lambda>x. x) 5 0
    (fold (\<lambda>(t, cost) b. snd (TokenBucket_Allow (\<lambda>x. x) t cost b)) [(9, 2), (3, 1)]
      (NewTokenBucket (\<lambda>x. x) 1 2 0))))"
  using token_bucket_in_range [of "\<lambda>x. x" "[(9, 2), (3, 1)]" 1 2 0 5]
  by (simp add: roundsFloat_def)

text \<open>The middleware with a token bucket: a message whose cost the bucket holds runs
  next once, on a bucket less that cost, and its outcome is next's; one whose cost it does
  not hold is answered too-many-requests without running next and costs nothing. A negative cost
  counts as none and is always let through.\<close>

theorem rate_limit_middleware:
  fixes s :: "('v, tokenBucket \<times> 'w) st" and costOf :: "'v invocation \<Rightarrow> int"
  assumes "bucketValid (fst (env s)) (clock s)"
  defines "cost \<equiv> max 0 (costOf (ic s))"
  shows "\<exists>b. bucketValid b (clock s) \<and>
    (if of_int cost \<le> bucketLevel (fst (env s)) (clock s)
     then bucketLevel b (clock s) = bucketLevel (fst (env s)) (clock s) - of_int cost \<and>
       rateLimitMiddleware (TokenBucket_Allow (\<lambda>x. x)) costOf c nx s = nx c (s\<lparr>env := (b, snd (env s))\<rparr>)
     else bucketLevel b (clock s) = bucketLevel (fst (env s)) (clock s) \<and> 0 < costOf (ic s) \<and>
       rateLimitMiddleware (TokenBucket_Allow (\<lambda>x. x)) costOf c nx s =
         (Return None, setResult (ResultAny (failed StatusTooManyRequests [''rate limit exceeded'']))
           (s\<lparr>env := (b, snd (env s))\<rparr>)))"
proof -
  obtain rel ok b where a: "TokenBucket_Allow (\<lambda>x. x) (clock s) cost (fst (env s)) = ((rel, ok), b)"
    by (cases "TokenBucket_Allow (\<lambda>x. x) (clock s) cost (fst (env s))") auto
  have rel: "rel = Some (\<lambda>l. l)" using a by (auto simp: TokenBucket_Allow_def Let_def split: if_splits)
  have cost: "(if costOf (ic s) < 0 then 0 else costOf (ic s)) = cost" "0 \<le> cost"
    by (simp_all add: cost_def)
  note exact = bucket.allow_exact [OF assms(1) cost(2) a]
  have "ok" if "cost = 0" using bucket.never_rejects_free [OF assms(1)] a that by simp
  then have "cost \<noteq> 0" if "\<not> ok" using that by blast
  then have "0 < costOf (ic s)" if "\<not> ok" using that unfolding cost_def by linarith
  moreover have "releaseLease (Some (\<lambda>l. l)) s2 = s2" for s2 :: "('v, tokenBucket \<times> 'w) st"
    by (simp add: releaseLease_def)
  ultimately show ?thesis
    using exact by (intro exI [of _ b])
      (simp add: rateLimitMiddleware_def cost(1) a rel Let_def split: prod.split)
qed

theorem rate_limit_middleware_witness:
  "ic_Result (ic (snd (rateLimitMiddleware (TokenBucket_Allow (\<lambda>x. x)) (\<lambda>i. 3) background done_run
      \<lparr>ic = ic greeting, clock = 0, env = (NewTokenBucket (\<lambda>x. x) 1 2 0, ())\<rparr>))) =
    Some (ResultAny (failed StatusTooManyRequests [''rate limit exceeded'']))"
proof -
  let ?s = "\<lparr>ic = ic greeting, clock = 0, env = (NewTokenBucket (\<lambda>x. x) 1 2 0, ())\<rparr>"
  have valid: "bucketValid (fst (env ?s)) (clock ?s)"
    by (simp add: bucketValid_def NewTokenBucket_def Let_def)
  have level: "bucketLevel (NewTokenBucket (\<lambda>x. x) 1 2 0) 0 = 2"
    by (simp add: bucketLevel_def refilled_def durationSeconds_exact NewTokenBucket_def Let_def)
  from rate_limit_middleware [OF valid, where costOf = "\<lambda>i. 3" and c = background and nx = done_run]
  show ?thesis by (auto simp: level)
qed

end
