(* ===== verification/Idempotency.thy ===== *)
theory Idempotency
  imports Resilience
begin

text \<open>
  De-duplication of redelivered messages: the middleware over the \<^verbatim>\<open>Store\<close> interface
  (\<^verbatim>\<open>idempotency/idempotency.go\<close>) and the in-memory store (\<^verbatim>\<open>idempotency/store.go\<close>). A store
  operation takes the context, the key and the instant; its lock makes it one atomic step. The
  store is the first part of the outside state.
\<close>

section \<open>Keys\<close>

datatype recordStatus = InProgress | Completed

record claimResult =
  Won :: bool
  Existing :: recordStatus

definition DefaultKeyHeader :: string where "DefaultKeyHeader = ''idempotency-key''"

text \<open>The range over the headers stops at the first entry that matches.\<close>

definition headerValue :: "headers \<Rightarrow> string \<Rightarrow> string" where
  "headerValue hs name = (case map_of hs name of
      Some v \<Rightarrow> v
    | None \<Rightarrow> (case find (\<lambda>(key, v). equalFold key name) hs of None \<Rightarrow> '''' | Some (key, v) \<Rightarrow> v))"

definition HeaderKey :: "string \<Rightarrow> 'v invocation \<Rightarrow> string" where
  "HeaderKey header i =
    (let v = headerValue (ic_Headers i) header in
     if v = '''' then '''' else topicString (ic_Topic i) @ [CHR 0x00] @ v)"

section \<open>The in-memory store (store.go)\<close>

record idemEntry =
  ie_status :: recordStatus
  ie_expiresAt :: int

record inMemoryStore =
  im_entries :: "(string \<times> idemEntry) list"
  im_leaseTTL :: int
  im_completedTTL :: int

definition defaultLeaseTTL :: int where "defaultLeaseTTL = 5 * 60 * 1000000000"
definition defaultCompletedTTL :: int where "defaultCompletedTTL = 24 * 60 * 60 * 1000000000"

type_synonym inMemoryOption = "inMemoryStore \<Rightarrow> inMemoryStore"

definition WithLeaseTTL :: "int \<Rightarrow> inMemoryOption" where
  "WithLeaseTTL ttl s = s\<lparr>im_leaseTTL := ttl\<rparr>"
definition WithCompletedTTL :: "int \<Rightarrow> inMemoryOption" where
  "WithCompletedTTL ttl s = s\<lparr>im_completedTTL := ttl\<rparr>"

definition NewInMemoryStore :: "inMemoryOption list \<Rightarrow> inMemoryStore" where
  "NewInMemoryStore opts = fold (\<lambda>opt s. opt s) opts
     \<lparr>im_entries = [], im_leaseTTL = defaultLeaseTTL, im_completedTTL = defaultCompletedTTL\<rparr>"

definition InMemory_Claim ::
  "ctx \<Rightarrow> string \<Rightarrow> int \<Rightarrow> inMemoryStore \<Rightarrow> (goerr + claimResult) \<times> inMemoryStore" where
  "InMemory_Claim c key now s =
    (let fresh = (Inr \<lparr>Won = True, Existing = InProgress\<rparr>,
         s\<lparr>im_entries := AList.update key \<lparr>ie_status = InProgress, ie_expiresAt = now + im_leaseTTL s\<rparr>
           (im_entries s)\<rparr>) in
     case map_of (im_entries s) key of
       Some e \<Rightarrow> if ie_expiresAt e > now then (Inr \<lparr>Won = False, Existing = ie_status e\<rparr>, s) else fresh
     | None \<Rightarrow> fresh)"

definition InMemory_Complete ::
  "ctx \<Rightarrow> string \<Rightarrow> int \<Rightarrow> inMemoryStore \<Rightarrow> goerr option \<times> inMemoryStore" where
  "InMemory_Complete c key now s = (None, case map_of (im_entries s) key of
      Some e \<Rightarrow> s\<lparr>im_entries := AList.update key
        (e\<lparr>ie_status := Completed, ie_expiresAt := now + im_completedTTL s\<rparr>) (im_entries s)\<rparr>
    | None \<Rightarrow> s)"

definition InMemory_Release ::
  "ctx \<Rightarrow> string \<Rightarrow> int \<Rightarrow> inMemoryStore \<Rightarrow> goerr option \<times> inMemoryStore" where
  "InMemory_Release c key now s = (None, s\<lparr>im_entries := AList.delete key (im_entries s)\<rparr>)"

section \<open>The middleware (idempotency.go)\<close>

record 'k idemStore =
  claimOp :: "ctx \<Rightarrow> string \<Rightarrow> int \<Rightarrow> 'k \<Rightarrow> (goerr + claimResult) \<times> 'k"
  completeOp :: "ctx \<Rightarrow> string \<Rightarrow> int \<Rightarrow> 'k \<Rightarrow> goerr option \<times> 'k"
  releaseOp :: "ctx \<Rightarrow> string \<Rightarrow> int \<Rightarrow> 'k \<Rightarrow> goerr option \<times> 'k"

definition putStore :: "'k \<Rightarrow> ('v, 'k \<times> 'w) st \<Rightarrow> ('v, 'k \<times> 'w) st" where
  "putStore k s = s\<lparr>env := (k, snd (env s))\<rparr>"

text \<open>Settling drops the store's own error.\<close>

definition settle ::
  "(ctx \<Rightarrow> string \<Rightarrow> int \<Rightarrow> 'k \<Rightarrow> goerr option \<times> 'k) \<Rightarrow> ctx \<Rightarrow> string \<Rightarrow> ('v, 'k \<times> 'w) st \<Rightarrow>
   ('v, 'k \<times> 'w) st" where
  "settle op c key s = putStore (snd (op c key (clock s) (fst (env s)))) s"

definition idempotencyMiddleware ::
  "'k idemStore \<Rightarrow> ('v invocation \<Rightarrow> string) \<Rightarrow> ('v, 'k \<times> 'w) middleware" where
  "idempotencyMiddleware store keyFunc c nx s =
    (let key = keyFunc (ic s) in
     if key = '''' then nx c s
     else (case claimOp store c key (clock s) (fst (env s)) of
         (Inl err, k) \<Rightarrow> nx c (putStore k s)
       | (Inr claim, k) \<Rightarrow>
           (let s1 = putStore k s in
            if \<not> Won claim then
              (if Existing claim = Completed
               then (Return None, setResult (ResultAny (Ignored NilAny)) s1)
               else andThen (Conflict [''idempotency key already in progress''], s1)
                 (\<lambda>r s2. (Return None, setResult (ResultAny r) s2)))
            else andThen (nx c s1) (\<lambda>e s2. case e of
                Some err \<Rightarrow> (Return (Some err), settle (releaseOp store) (withoutCancel c) key s2)
              | None \<Rightarrow>
                  if resultOk (ic_Result (ic s2))
                  then (Return None, settle (completeOp store) (withoutCancel c) key s2)
                  else (Return None, settle (releaseOp store) (withoutCancel c) key s2)))))"

section \<open>What a store promises\<close>

text \<open>
  \<open>live\<close> is the record a store has for a key at an instant. While the context is not done a store
  succeeds: a claim wins exactly when nothing is live, and then holds the key for the lease; a
  completion records a key it has for the retention; a release leaves nothing. No operation
  touches another key. \<open>has\<close> says the store still has an entry, expired or not.
\<close>

locale idempotency_store =
  fixes store :: "'k idemStore"
    and live :: "'k \<Rightarrow> string \<Rightarrow> int \<Rightarrow> recordStatus option"
    and has :: "'k \<Rightarrow> string \<Rightarrow> bool"
    and lease :: "'k \<Rightarrow> int"
    and retention :: "'k \<Rightarrow> int"
  assumes claim_live: "ctxErr c t = None \<Longrightarrow> claimOp store c key t k = (r, k') \<Longrightarrow>
      (case live k key t of
         Some st \<Rightarrow> r = Inr \<lparr>Won = False, Existing = st\<rparr> \<and> k' = k
       | None \<Rightarrow> (\<exists>cl. r = Inr cl \<and> Won cl) \<and> has k' key \<and>
           (\<forall>u < t + lease k. live k' key u = Some InProgress)) \<and>
      (\<forall>other u. other \<noteq> key \<longrightarrow> live k' other u = live k other u)"
    and complete_live: "ctxErr c t = None \<Longrightarrow> has k key \<Longrightarrow> completeOp store c key t k = (e, k') \<Longrightarrow>
      (\<forall>u < t + retention k. live k' key u = Some Completed) \<and>
      (\<forall>other u. other \<noteq> key \<longrightarrow> live k' other u = live k other u)"
    and release_live: "ctxErr c t = None \<Longrightarrow> releaseOp store c key t k = (e, k') \<Longrightarrow>
      (\<forall>u. live k' key u = None) \<and> (\<forall>other u. other \<noteq> key \<longrightarrow> live k' other u = live k other u)"
begin

text \<open>Settling happens on a context that is never done, so it works whatever became of the caller's.\<close>

lemma never_done: "ctxErr (withoutCancel c) t = None"
  by (simp add: withoutCancel_def ctxErr_def)

lemma duplicate_short_circuits:
  fixes s :: "('v, 'k \<times> 'w) st"
  assumes "keyFunc (ic s) = key" "key \<noteq> ''''" "ctxErr c (clock s) = None"
    and "live (fst (env s)) key (clock s) = Some st"
  shows "idempotencyMiddleware store keyFunc c nx s = (Return None, setResult (ResultAny
    (if st = Completed then Ignored NilAny
     else failed StatusConflict [''idempotency key already in progress''])) s)"
proof -
  obtain r k where op: "claimOp store c key (clock s) (fst (env s)) = (r, k)"
    by (cases "claimOp store c key (clock s) (fst (env s))")
  have "r = Inr \<lparr>Won = False, Existing = st\<rparr>" "k = fst (env s)"
    using claim_live [OF assms(3) op] assms(4) by auto
  then show ?thesis
    using assms(1,2) op by (cases st) (auto simp: idempotencyMiddleware_def Let_def putStore_def)
qed

text \<open>The store in which next runs is the one the claim leaves, whatever next is.\<close>

lemma first_attempt:
  fixes s :: "('v, 'k \<times> 'w) st"
  assumes "keyFunc (ic s) = key" "key \<noteq> ''''" "ctxErr c (clock s) = None"
    and "live (fst (env s)) key (clock s) = None"
    and "k = snd (claimOp store c key (clock s) (fst (env s)))"
  shows "has k key" "\<forall>u < clock s + lease (fst (env s)). live k key u = Some InProgress"
    "idempotencyMiddleware store keyFunc c nx s = andThen (nx c (putStore k s)) (\<lambda>e s2.
      (Return e, settle (if e = None \<and> resultOk (ic_Result (ic s2)) then completeOp store
         else releaseOp store) (withoutCancel c) key s2))"
proof -
  obtain r where op: "claimOp store c key (clock s) (fst (env s)) = (r, k)"
    using assms(5) by (metis prod.collapse)
  from claim_live [OF assms(3) op] assms(4) obtain cl where cl: "r = Inr cl" "Won cl"
    and held: "has k key" "\<forall>u < clock s + lease (fst (env s)). live k key u = Some InProgress" by auto
  show "has k key" "\<forall>u < clock s + lease (fst (env s)). live k key u = Some InProgress"
    by (fact held)+
  show "idempotencyMiddleware store keyFunc c nx s = andThen (nx c (putStore k s)) (\<lambda>e s2.
      (Return e, settle (if e = None \<and> resultOk (ic_Result (ic s2)) then completeOp store
         else releaseOp store) (withoutCancel c) key s2))"
    unfolding idempotencyMiddleware_def Let_def assms(1) op
    using assms(2) cl by (auto intro!: arg_cong2 [where f = andThen] ext split: option.split)
qed

lemma settled_complete:
  "has (fst (env u)) key \<Longrightarrow> t < clock u + retention (fst (env u)) \<Longrightarrow>
    live (fst (env (settle (completeOp store) (withoutCancel c) key u))) key t = Some Completed"
  using complete_live [OF never_done] by (auto simp: settle_def putStore_def) (metis prod.collapse)

lemma settled_release:
  "live (fst (env (settle (releaseOp store) (withoutCancel c) key u))) key t = None"
  using release_live [OF never_done] by (auto simp: settle_def putStore_def) (metis prod.collapse)

lemma attempt_runs_next:
  fixes s :: "('v, 'k \<times> 'w) st"
  assumes "keyFunc (ic s) = key" "key \<noteq> ''''" "ctxErr c (clock s) = None"
    and "live (fst (env s)) key (clock s) = None"
  shows "fst (idempotencyMiddleware store keyFunc c nx s) =
    fst (nx c (putStore (snd (claimOp store c key (clock s) (fst (env s)))) s))" (is "_ = fst (nx c ?s')")
  unfolding first_attempt(3) [where keyFunc = keyFunc, OF assms refl]
  by (cases "nx c ?s'"; cases "fst (nx c ?s')") auto

end

section \<open>The in-memory store keeps the promise\<close>

definition inMemory :: "inMemoryStore idemStore" where
  "inMemory = \<lparr>claimOp = InMemory_Claim, completeOp = InMemory_Complete, releaseOp = InMemory_Release\<rparr>"

lemma inMemory_claimOp: "claimOp inMemory = InMemory_Claim"
  by (simp add: inMemory_def)

definition liveEntry :: "inMemoryStore \<Rightarrow> string \<Rightarrow> int \<Rightarrow> recordStatus option" where
  "liveEntry s key t = (case map_of (im_entries s) key of
      None \<Rightarrow> None
    | Some e \<Rightarrow> if ie_expiresAt e > t then Some (ie_status e) else None)"

definition hasEntry :: "inMemoryStore \<Rightarrow> string \<Rightarrow> bool" where
  "hasEntry s key \<longleftrightarrow> map_of (im_entries s) key \<noteq> None"

interpretation memory: idempotency_store inMemory liveEntry hasEntry im_leaseTTL im_completedTTL
proof
  fix c t key k and r :: "goerr + claimResult" and k'
  assume "ctxErr c t = None" and "claimOp inMemory c key t k = (r, k')"
  then show "(case liveEntry k key t of
         Some st \<Rightarrow> r = Inr \<lparr>Won = False, Existing = st\<rparr> \<and> k' = k
       | None \<Rightarrow> (\<exists>cl. r = Inr cl \<and> Won cl) \<and> hasEntry k' key \<and>
           (\<forall>u < t + im_leaseTTL k. liveEntry k' key u = Some InProgress)) \<and>
      (\<forall>other u. other \<noteq> key \<longrightarrow> liveEntry k' other u = liveEntry k other u)"
    by (auto simp: inMemory_def InMemory_Claim_def liveEntry_def hasEntry_def Let_def
        split: option.splits if_splits)
next
  fix c t k key and e :: "goerr option" and k'
  assume "hasEntry k key" and "completeOp inMemory c key t k = (e, k')"
  then show "(\<forall>u < t + im_completedTTL k. liveEntry k' key u = Some Completed) \<and>
      (\<forall>other u. other \<noteq> key \<longrightarrow> liveEntry k' other u = liveEntry k other u)"
    by (auto simp: inMemory_def InMemory_Complete_def liveEntry_def hasEntry_def)
next
  fix c t key k and e :: "goerr option" and k'
  assume "releaseOp inMemory c key t k = (e, k')"
  then show "(\<forall>u. liveEntry k' key u = None) \<and>
      (\<forall>other u. other \<noteq> key \<longrightarrow> liveEntry k' other u = liveEntry k other u)"
    by (auto simp: inMemory_def InMemory_Release_def liveEntry_def)
qed

section \<open>Properties\<close>

text \<open>C38 (safety). With the in-memory store a message whose first attempt succeeded is not
  processed again: a redelivery under the same key within the retention is answered ignored, a
  success, and next does not run. A first attempt that failed, by its result or by an error, frees the
  key even when its context was cancelled, so that the redelivery runs next again. The first attempt
  runs next exactly once, in the store its claim has left, and a duplicate that finds the key as that
  claim left it, before the lease runs out, gets a conflict and does not run next either. The first
  attempt is one that finds the key free, and its next is assumed to leave the key's entry in place;
  other keys may change at any time.\<close>

theorem redelivery_deduplicated:
  fixes s r :: "('v, inMemoryStore \<times> 'w) st"
  assumes "keyFunc (ic s) = key" "key \<noteq> ''''" "ctxErr c (clock s) = None"
    and "liveEntry (fst (env s)) key (clock s) = None"
    and "k = snd (InMemory_Claim c key (clock s) (fst (env s)))"
    and "idempotencyMiddleware inMemory keyFunc c nx s = (Return e, s2)"
    and "\<And>u. nx c (putStore k s) = (Return e, u) \<Longrightarrow> hasEntry (fst (env u)) key"
    and "keyFunc (ic r) = key" "ctxErr c' (clock r) = None"
    and "map_of (im_entries (fst (env r))) key = map_of (im_entries (fst (env s2))) key"
    and "clock r < clock s2 + im_completedTTL (fst (env s2))"
  shows "(if e = None \<and> resultOk (ic_Result (ic s2))
      then idempotencyMiddleware inMemory keyFunc c' nx' r =
        (Return None, setResult (ResultAny (Ignored NilAny)) r)
      else fst (idempotencyMiddleware inMemory keyFunc c' nx' r) =
        fst (nx' c' (putStore (snd (InMemory_Claim c' key (clock r) (fst (env r)))) r))) \<and>
    (\<exists>afterwards. \<forall>nx. idempotencyMiddleware inMemory keyFunc c nx s =
      andThen (nx c (putStore k s)) afterwards) \<and>
    (\<forall>dup :: ('v, inMemoryStore \<times> 'w) st. keyFunc (ic dup) = key \<and>
        map_of (im_entries (fst (env dup))) key = map_of (im_entries k) key \<and>
        clock dup < clock s + im_leaseTTL (fst (env s)) \<and> ctxErr c' (clock dup) = None \<longrightarrow>
      idempotencyMiddleware inMemory keyFunc c' nx' dup = (Return None,
        setResult (ResultAny (failed StatusConflict [''idempotency key already in progress''])) dup))"
proof (intro conjI)
  have k: "k = snd (claimOp inMemory c key (clock s) (fst (env s)))" by (simp add: assms(5) inMemory_claimOp)
  note first = memory.first_attempt [where keyFunc = keyFunc, OF assms(1-4) k]
  obtain u where u: "nx c (putStore k s) = (Return e, u)"
    and s2: "s2 = settle (if e = None \<and> resultOk (ic_Result (ic u)) then completeOp inMemory
      else releaseOp inMemory) (withoutCancel c) key u"
    using assms(6) unfolding first(3) by (cases "nx c (putStore k s)"; cases "fst (nx c (putStore k s))") auto
  have same: "ic s2 = ic u" "clock s2 = clock u" "im_completedTTL (fst (env s2)) = im_completedTTL (fst (env u))"
    by (simp_all add: s2 settle_def putStore_def inMemory_def InMemory_Complete_def InMemory_Release_def
        split: option.split)
  have entry: "liveEntry (fst (env r)) key t = liveEntry (fst (env s2)) key t" for t
    by (simp add: liveEntry_def assms(10))
  show "if e = None \<and> resultOk (ic_Result (ic s2))
      then idempotencyMiddleware inMemory keyFunc c' nx' r =
        (Return None, setResult (ResultAny (Ignored NilAny)) r)
      else fst (idempotencyMiddleware inMemory keyFunc c' nx' r) =
        fst (nx' c' (putStore (snd (InMemory_Claim c' key (clock r) (fst (env r)))) r))"
  proof (cases "e = None \<and> resultOk (ic_Result (ic s2))")
    case True
    then have "e = None \<and> resultOk (ic_Result (ic u))" unfolding same(1) .
    then have "s2 = settle (completeOp inMemory) (withoutCancel c) key u" using s2 by simp
    moreover have "clock r < clock u + im_completedTTL (fst (env u))"
      using assms(11) same(2,3) by simp
    ultimately have "liveEntry (fst (env r)) key (clock r) = Some Completed"
      unfolding entry using memory.settled_complete assms(7) [OF u] by metis
    with memory.duplicate_short_circuits [where keyFunc = keyFunc and nx = nx', OF assms(8,2,9) this] True
    show ?thesis by simp
  next
    case False
    then have "\<not> (e = None \<and> resultOk (ic_Result (ic u)))" unfolding same(1) .
    then have "s2 = settle (releaseOp inMemory) (withoutCancel c) key u" by (simp only: s2 if_False)
    then have "liveEntry (fst (env r)) key (clock r) = None"
      unfolding entry using memory.settled_release by metis
    with memory.attempt_runs_next [where keyFunc = keyFunc and nx = nx', OF assms(8,2,9) this] False
    show ?thesis by (simp only: if_False inMemory_claimOp)
  qed
  show "\<exists>afterwards. \<forall>nx. idempotencyMiddleware inMemory keyFunc c nx s =
      andThen (nx c (putStore k s)) afterwards"
    by (intro exI allI) (rule memory.first_attempt(3) [where keyFunc = keyFunc, OF assms(1-4) k])
  show "\<forall>dup :: ('v, inMemoryStore \<times> 'w) st. keyFunc (ic dup) = key \<and>
        map_of (im_entries (fst (env dup))) key = map_of (im_entries k) key \<and>
        clock dup < clock s + im_leaseTTL (fst (env s)) \<and> ctxErr c' (clock dup) = None \<longrightarrow>
      idempotencyMiddleware inMemory keyFunc c' nx' dup = (Return None,
        setResult (ResultAny (failed StatusConflict [''idempotency key already in progress''])) dup)"
  proof (intro allI impI, elim conjE)
    fix dup :: "('v, inMemoryStore \<times> 'w) st"
    assume d: "keyFunc (ic dup) = key" "ctxErr c' (clock dup) = None"
      and "map_of (im_entries (fst (env dup))) key = map_of (im_entries k) key"
        "clock dup < clock s + im_leaseTTL (fst (env s))"
    then have "liveEntry (fst (env dup)) key (clock dup) = Some InProgress"
      using first(2) by (simp add: liveEntry_def)
    with memory.duplicate_short_circuits [where keyFunc = keyFunc and nx = nx', OF d(1) assms(2) d(2) this]
    show "idempotencyMiddleware inMemory keyFunc c' nx' dup = (Return None,
        setResult (ResultAny (failed StatusConflict [''idempotency key already in progress''])) dup)"
      by simp
  qed
qed

definition keyed :: "(nat, inMemoryStore \<times> unit) st" where
  "keyed = \<lparr>ic = NewInvocationContext (NewTopic ''pay'') [(''idempotency-key'', ''7'')] NilAny None,
     clock = 0, env = (NewInMemoryStore [], ())\<rparr>"

theorem redelivery_deduplicated_witness:
  "let nx = (\<lambda>c s. (Return None, setResult (ResultAny (resultOf StatusOk)) s));
       s2 = snd (idempotencyMiddleware inMemory (HeaderKey DefaultKeyHeader) background nx keyed) in
   idempotencyMiddleware inMemory (HeaderKey DefaultKeyHeader) background nx s2 =
     (Return None, setResult (ResultAny (Ignored NilAny)) s2)"
proof -
  let ?nx = "(\<lambda>c s. (Return None, setResult (ResultAny (resultOf StatusOk)) s))
    :: (nat, inMemoryStore \<times> unit) continuation"
  let ?kf = "HeaderKey DefaultKeyHeader :: nat invocation \<Rightarrow> string"
  let ?key = "''pay'' @ [CHR 0x00] @ ''7''"
  have key: "?kf (ic keyed) = ?key"
    by (simp add: HeaderKey_def headerValue_def keyed_def NewInvocationContext_def NewTopic_def
        DefaultKeyHeader_def topicString_def)
  have fields: "clock keyed = 0" "env keyed = (NewInMemoryStore [], ())"
    by (simp_all add: keyed_def)
  let ?k = "\<lparr>im_entries = [(?key, \<lparr>ie_status = Completed, ie_expiresAt = defaultCompletedTTL\<rparr>)],
      im_leaseTTL = defaultLeaseTTL, im_completedTTL = defaultCompletedTTL\<rparr>"
  let ?s2 = "putStore ?k (setResult (ResultAny (resultOf StatusOk)) keyed)"
  have ok: "resultOk (Some (ResultAny (resultOf StatusOk) :: nat resultInfo))"
    by (simp add: resultOk_def IsFailure_iff)
  have s2: "idempotencyMiddleware inMemory ?kf background ?nx keyed = (Return None, ?s2)"
    unfolding idempotencyMiddleware_def Let_def key fields
    by (simp add: inMemory_def InMemory_Claim_def NewInMemoryStore_def settle_def putStore_def
        InMemory_Complete_def fields ok) (simp add: setResult_def)
  have s2_fields: "?kf (ic ?s2) = ?key" "clock ?s2 = 0" "fst (env ?s2) = ?k"
    "ic_Result (ic ?s2) = Some (ResultAny (resultOf StatusOk))"
    using key by (simp_all add: putStore_def fields setResult_def HeaderKey_def Let_def split: if_splits)
  have empty: "liveEntry (fst (env keyed)) ?key (clock keyed) = None"
    by (simp add: fields NewInMemoryStore_def liveEntry_def)
  let ?k0 = "snd (InMemory_Claim background ?key (clock keyed) (fst (env keyed)))"
  have kept: "hasEntry (fst (env u)) ?key"
    if "?nx background (putStore ?k0 keyed) = (Return None, u)" for u
    using that by (auto simp: putStore_def hasEntry_def InMemory_Claim_def fields NewInMemoryStore_def)
  have "clock ?s2 < clock ?s2 + im_completedTTL (fst (env ?s2))"
    by (simp add: putStore_def defaultCompletedTTL_def)
  from redelivery_deduplicated [where c' = background and nx' = ?nx, OF key _ _ empty refl s2 kept s2_fields(1) _ refl this]
  have "idempotencyMiddleware inMemory ?kf background ?nx ?s2 =
      (Return None, setResult (ResultAny (Ignored NilAny)) ?s2)"
    unfolding s2_fields(4) using ok by simp
  then show ?thesis by (simp add: s2)
qed

text \<open>De-duplication never stops the service: a message without a key, and any message
  while the store fails to answer the claim, is processed as if the middleware were not there; an
  error while settling changes neither the outcome nor the invocation.\<close>

theorem store_outage_fails_open:
  fixes s :: "('v, 'k \<times> 'w) st"
  shows "(keyFunc (ic s) = '''' \<longrightarrow> idempotencyMiddleware store keyFunc c nx s = nx c s) \<and>
    (\<forall>err k. keyFunc (ic s) \<noteq> '''' \<and>
        claimOp store c (keyFunc (ic s)) (clock s) (fst (env s)) = (Inl err, k) \<longrightarrow>
      idempotencyMiddleware store keyFunc c nx s = nx c (putStore k s)) \<and>
    (\<forall>cl k. keyFunc (ic s) \<noteq> '''' \<and>
        claimOp store c (keyFunc (ic s)) (clock s) (fst (env s)) = (Inr cl, k) \<and> Won cl \<longrightarrow>
      fst (idempotencyMiddleware store keyFunc c nx s) = fst (nx c (putStore k s)) \<and>
      ic (snd (idempotencyMiddleware store keyFunc c nx s)) = ic (snd (nx c (putStore k s))))"
proof -
  have ic: "ic (settle op c' key s2) = ic s2" for op c' key and s2 :: "('v, 'k \<times> 'w) st"
    by (simp add: settle_def putStore_def)
  have "fst (idempotencyMiddleware store keyFunc c nx s) = fst (nx c (putStore k s)) \<and>
      ic (snd (idempotencyMiddleware store keyFunc c nx s)) = ic (snd (nx c (putStore k s)))"
    if "keyFunc (ic s) \<noteq> ''''" "claimOp store c (keyFunc (ic s)) (clock s) (fst (env s)) = (Inr cl, k)"
      "Won cl" for cl k
    using that by (cases "nx c (putStore k s)"; cases "fst (nx c (putStore k s))")
      (auto simp: idempotencyMiddleware_def Let_def ic split: option.split)
  then show ?thesis by (auto simp: idempotencyMiddleware_def Let_def)
qed

theorem store_outage_fails_open_witness:
  "idempotencyMiddleware \<lparr>claimOp = \<lambda>c key t k. (Inl (ErrNew ''down''), k),
      completeOp = \<lambda>c key t k. (None, k), releaseOp = \<lambda>c key t k. (None, k)\<rparr>
    (HeaderKey DefaultKeyHeader) background done_run keyed = (Return None, keyed)"
  using store_outage_fails_open [of "HeaderKey DefaultKeyHeader" keyed
      "\<lparr>claimOp = \<lambda>c key t k. (Inl (ErrNew ''down''), k),
      completeOp = \<lambda>c key t k. (None, k), releaseOp = \<lambda>c key t k. (None, k)\<rparr>" background done_run]
  by (cases "HeaderKey DefaultKeyHeader (ic keyed) = ''''")
    (auto simp: done_run_def putStore_def keyed_def)

text \<open>
  A release is not bound to the claim it undoes: once a first attempt has outlived its lease and a
  second one has claimed the key, the failure of the first frees the key while the second is still
  running, and a third attempt wins it too.
\<close>

lemma release_is_unfenced:
  "let claim = (\<lambda>t k. InMemory_Claim background ''k'' t k);
       (r1, k1) = claim 0 (NewInMemoryStore []);
       (r2, k2) = claim defaultLeaseTTL k1;
       (e, k3) = InMemory_Release background ''k'' (defaultLeaseTTL + 1) k2;
       (r3, k4) = claim (defaultLeaseTTL + 2) k3 in
   map_sum (\<lambda>_. ()) Won r1 = Inr True \<and> map_sum (\<lambda>_. ()) Won r2 = Inr True \<and>
   map_sum (\<lambda>_. ()) Won r3 = Inr True"
  by (simp add: InMemory_Claim_def InMemory_Release_def NewInMemoryStore_def defaultLeaseTTL_def Let_def)

end
