(* ===== verification/Concurrency.thy ===== *)
theory Concurrency
  imports Prelude
begin

text \<open>
  Goroutines that a caller starts together and waits for (\<^verbatim>\<open>sync.WaitGroup\<close>). A goroutine is
  an action: it moves in atomic steps, each of which reads the shared state, updates it and goes
  on depending on what it read, and it ends with an outcome. Which goroutine moves next is a
  schedule, a list of goroutine numbers; what is left when the list ends runs in order, so that
  the schedules are all the interleavings.
\<close>

datatype ('s, 'a) action =
    Finishes "'a outcome"
  | Acts "'s \<Rightarrow> 's" "'s \<Rightarrow> ('s, 'a) action"

primrec finish :: "('s, 'a) action \<Rightarrow> 's \<Rightarrow> 'a outcome \<times> 's" where
  "finish (Finishes r) = (\<lambda>s. (r, s))"
| "finish (Acts e n) = (\<lambda>s. finish (n s) (e s))"

fun runAll :: "('s, 'a) action list \<Rightarrow> 's \<Rightarrow> 'a outcome list \<times> 's" where
  "runAll [] s = ([], s)"
| "runAll (a # gs) s = (case finish a s of (r, s1) \<Rightarrow> case runAll gs s1 of (rs, s2) \<Rightarrow> (r # rs, s2))"

definition moveOne :: "nat \<Rightarrow> ('s, 'a) action list \<Rightarrow> 's \<Rightarrow> ('s, 'a) action list \<times> 's" where
  "moveOne i gs s = (if i < length gs then
      (case gs ! i of Finishes r \<Rightarrow> (gs, s) | Acts e n \<Rightarrow> (gs[i := n s], e s))
    else (gs, s))"

fun interleave :: "nat list \<Rightarrow> ('s, 'a) action list \<Rightarrow> 's \<Rightarrow> 'a outcome list \<times> 's" where
  "interleave [] gs s = runAll gs s"
| "interleave (i # is) gs s = (case moveOne i gs s of (gs', s') \<Rightarrow> interleave is gs' s')"

section \<open>Invariants of every interleaving\<close>

text \<open>A property of the goroutines and the state that every atomic step keeps.\<close>

definition stepwise :: "(('s, 'a) action list \<Rightarrow> 's \<Rightarrow> bool) \<Rightarrow> bool" where
  "stepwise I \<longleftrightarrow> (\<forall>gs s i e n. I gs s \<longrightarrow> i < length gs \<longrightarrow> gs ! i = Acts e n \<longrightarrow> I (gs[i := n s]) (e s))"

lemma stepwiseD:
  "stepwise I \<Longrightarrow> I gs s \<Longrightarrow> i < length gs \<Longrightarrow> gs ! i = Acts e n \<Longrightarrow> I (gs[i := n s]) (e s)"
  unfolding stepwise_def by blast

lemma finish_keeps:
  assumes "stepwise I"
  shows "I (xs @ a # ys) s \<Longrightarrow> finish a s = (r, s') \<Longrightarrow> I (xs @ Finishes r # ys) s'"
proof (induction a arbitrary: s)
  case (Acts e n)
  have "I ((xs @ Acts e n # ys)[length xs := n s]) (e s)"
    by (rule stepwiseD [OF assms Acts.prems(1)]) auto
  then show ?case using Acts.IH [of "n s" "e s"] Acts.prems(2) by simp
qed simp

lemma runAll_keeps:
  assumes "stepwise I"
  shows "I (map Finishes past @ gs) s \<Longrightarrow> runAll gs s = (rs, s') \<Longrightarrow>
    I (map Finishes (past @ rs)) s' \<and> length rs = length gs"
proof (induction gs arbitrary: past s rs s')
  case (Cons a gs)
  obtain r s1 where r: "finish a s = (r, s1)" by fastforce
  obtain rs' s2 where rs': "runAll gs s1 = (rs', s2)" by fastforce
  from finish_keeps [OF assms Cons.prems(1) r] have "I (map Finishes (past @ [r]) @ gs) s1" by simp
  from Cons.IH [OF this rs'] show ?case using Cons.prems(2) r rs' by auto
qed simp

lemma interleave_keeps:
  assumes "stepwise I"
  shows "I gs s \<Longrightarrow> interleave sched gs s = (rs, s') \<Longrightarrow>
    I (map Finishes rs) s' \<and> length rs = length gs"
proof (induction sched arbitrary: gs s)
  case Nil
  then show ?case using runAll_keeps [OF assms, of "[]" gs s rs s'] by simp
next
  case (Cons i sched)
  obtain gs' s1 where m: "moveOne i gs s = (gs', s1)" by fastforce
  have "I gs' s1 \<and> length gs' = length gs"
    using m Cons.prems(1) stepwiseD [OF assms Cons.prems(1)]
    by (auto simp: moveOne_def split: if_splits action.splits)
  then show ?case using Cons.IH [of gs' s1] Cons.prems(2) m by simp
qed

section \<open>Effects\<close>

text \<open>
  \<open>eff\<close> reads from the state which outside effects exist. An action minds its own effect when each of
  its steps creates or removes that effect or leaves it, touches no other, and the outcome tells
  whether it exists at the end (\<open>leaves\<close>).
\<close>

primrec minds :: "('s \<Rightarrow> 'e set) \<Rightarrow> 'e \<Rightarrow> ('a outcome \<Rightarrow> bool) \<Rightarrow> ('s, 'a) action \<Rightarrow> bool \<Rightarrow> bool" where
  "minds eff x leaves (Finishes r) = (\<lambda>present. present = leaves r)"
| "minds eff x leaves (Acts e n) = (\<lambda>present. \<forall>s. (x \<in> eff s) = present \<longrightarrow>
     eff (e s) - {x} = eff s - {x} \<and> minds eff x leaves (n s) (x \<in> eff (e s)))"

lemma interleave_effects:
  assumes "distinct xs" and "length gs = length xs"
    and "\<And>j. j < length xs \<Longrightarrow> minds eff (xs ! j) (leaves j) (gs ! j) (xs ! j \<in> eff s)"
    and "interleave sched gs s = (rs, s')"
  shows "length rs = length xs \<and> eff s' - set xs = eff s - set xs \<and>
    (\<forall>j < length xs. xs ! j \<in> eff s' \<longleftrightarrow> leaves j (rs ! j))"
proof -
  let ?I = "\<lambda>gs u. length gs = length xs \<and> eff u - set xs = eff s - set xs \<and>
    (\<forall>j < length xs. minds eff (xs ! j) (leaves j) (gs ! j) (xs ! j \<in> eff u))"
  have "stepwise ?I"
    unfolding stepwise_def
  proof (intro allI impI)
    fix gs u i e n
    assume I: "?I gs u" and i: "i < length gs" "gs ! i = Acts e n"
    then have "minds eff (xs ! i) (leaves i) (Acts e n) (xs ! i \<in> eff u)" by metis
    then have own: "eff (e u) - {xs ! i} = eff u - {xs ! i}"
      and left: "minds eff (xs ! i) (leaves i) (n u) (xs ! i \<in> eff (e u))" by auto
    have other: "xs ! j \<in> eff (e u) \<longleftrightarrow> xs ! j \<in> eff u" if "j < length xs" "j \<noteq> i" for j
      using own that i I assms(1) by (metis DiffD1 DiffI nth_eq_iff_index_eq singletonD)
    have "xs ! i \<in> set xs" using i I by simp
    then have "eff (e u) - set xs = eff u - set xs" using own by blast
    with I left other i show "?I (gs[i := n u]) (e u)"
      by (auto simp: nth_list_update)
  qed
  from interleave_keeps [OF this, of gs s sched rs s'] assms(2-4) show ?thesis by auto
qed

end
