(* ===== verification/Saga.thy ===== *)
theory Saga
  imports Results Concurrency Complex_Main
begin

text \<open>
  The in-process saga orchestrator (\<^verbatim>\<open>saga/\<close>): steps (\<^verbatim>\<open>step.go\<close>), the context that carries
  their results (\<^verbatim>\<open>context.go\<close>), stages, sagas and retries (\<^verbatim>\<open>saga.go\<close>), and the store of
  progress events (\<^verbatim>\<open>store.go\<close>). A \<^verbatim>\<open>Step\<close> is a pointer: its number. What never changes of
  it (\<open>step\<close>) is found by number in the argument \<open>code\<close>, and its mutable fields (\<open>stepVars\<close>) are
  part of the state.
\<close>

section \<open>The context (context.go)\<close>

datatype contextKey = ExplicitKey string | TypeKey string

text \<open>What forward and compensation actions share: the context's items, the clock and the rest of the world.\<close>

record ('v, 'w) shared =
  items :: "(contextKey \<times> 'v any) list"
  sclock :: int
  world :: 'w

definition keyFor :: "string \<Rightarrow> string list \<Rightarrow> contextKey" where
  "keyFor T key = (if key \<noteq> [] \<and> hd key \<noteq> '''' then ExplicitKey (hd key) else TypeKey T)"

definition SetItem :: "string \<Rightarrow> 'v any \<Rightarrow> string list \<Rightarrow> ('v, 'w) shared \<Rightarrow> ('v, 'w) shared" where
  "SetItem T v key sc = sc\<lparr>items := AList.update (keyFor T key) v (items sc)\<rparr>"

text \<open>\<open>typed\<close> is the type assertion to T.\<close>

definition GetItem ::
  "string \<Rightarrow> ('v any \<Rightarrow> 't option) \<Rightarrow> 't \<Rightarrow> string list \<Rightarrow> ('v, 'w) shared \<Rightarrow> 't \<times> bool" where
  "GetItem T typed zero key sc = (case map_of (items sc) (keyFor T key) of
      None \<Rightarrow> (zero, False)
    | Some stored \<Rightarrow> (case typed stored of None \<Rightarrow> (zero, False) | Some v \<Rightarrow> (v, True)))"

definition HasItem :: "string \<Rightarrow> string list \<Rightarrow> ('v, 'w) shared \<Rightarrow> bool" where
  "HasItem T key sc = hasKey (items sc) (keyFor T key)"

section \<open>Steps (step.go)\<close>

datatype stepState = StepPending | StepSucceeded | StepFailed | StepRolledBack | StepCompensationFailed

type_synonym ('v, 'w) effect = "(('v, 'w) shared, 'v result) action"

record ('v, 'w) step =
  stepType :: string
  forward :: "ctx \<Rightarrow> ('v, 'w) effect"
  compensateFn :: "(ctx \<Rightarrow> 'v any \<Rightarrow> ('v, 'w) effect) option"
  stepKey :: string
  zeroPayload :: "'v any"

text \<open>The zero value of the state is \<open>None\<close>.\<close>

record 'v stepVars =
  sv_state :: "stepState option"
  sv_result :: "'v result"
  sv_hasResult :: bool
  sv_err :: "goerr option"

definition NewStep ::
  "string \<Rightarrow> 'v any \<Rightarrow> (ctx \<Rightarrow> ('v, 'w) effect) \<Rightarrow> (ctx \<Rightarrow> 'v any \<Rightarrow> ('v, 'w) effect) option \<Rightarrow>
   ('v, 'w) step" where
  "NewStep T zero f undo =
    \<lparr>stepType = T, forward = f, compensateFn = undo, stepKey = '''', zeroPayload = zero\<rparr>"

definition NewKeyedStep ::
  "string \<Rightarrow> 'v any \<Rightarrow> string \<Rightarrow> (ctx \<Rightarrow> ('v, 'w) effect) \<Rightarrow>
   (ctx \<Rightarrow> 'v any \<Rightarrow> ('v, 'w) effect) option \<Rightarrow> ('v, 'w) step" where
  "NewKeyedStep T zero key f undo =
    \<lparr>stepType = T, forward = f, compensateFn = undo, stepKey = key, zeroPayload = zero\<rparr>"

definition newVars :: "'v stepVars" where
  "newVars = \<lparr>sv_state = None, sv_result = resultOf '''', sv_hasResult = False, sv_err = None\<rparr>"

definition orPending :: "stepState option \<Rightarrow> stepState" where
  "orPending state = (case state of None \<Rightarrow> StepPending | Some s \<Rightarrow> s)"

definition State :: "'v stepVars \<Rightarrow> stepState" where
  "State r = orPending (sv_state r)"

definition stepResult :: "('v, 'w) step \<Rightarrow> 'v stepVars \<Rightarrow> 'v resultInfo option" where
  "stepResult p r = (if sv_hasResult r then Some (ResultT (stepType p) (sv_result r)) else None)"

definition payload :: "('v, 'w) step \<Rightarrow> 'v stepVars \<Rightarrow> 'v any" where
  "payload p r = (case r_Payload (sv_result r) of Some v \<Rightarrow> v | None \<Rightarrow> zeroPayload p)"

text \<open>What \<^verbatim>\<open>execute\<close> writes once forward has ended, by returning or by a panic.\<close>

definition executed :: "'v result outcome \<Rightarrow> 'v stepVars \<Rightarrow> 'v stepVars" where
  "executed out r = (let r0 = r\<lparr>sv_err := None\<rparr> in case out of
      Panic p \<Rightarrow> (let err = ErrNew (''saga step panicked: '' @ p) in
        r0\<lparr>sv_err := Some err, sv_result := failed StatusUnexpectedError [errorText err],
          sv_hasResult := True, sv_state := Some StepFailed\<rparr>)
    | Return res \<Rightarrow> r0\<lparr>sv_result := res, sv_hasResult := True,
        sv_state := Some (if IsSuccessful res then StepSucceeded else StepFailed)\<rparr>)"

definition publish :: "('v, 'w) step \<Rightarrow> 'v stepVars \<Rightarrow> ('v, 'w) shared \<Rightarrow> ('v, 'w) shared" where
  "publish p r sc = (if sv_state r = Some StepSucceeded \<and> sv_hasResult r
     then SetItem (stepType p) (payload p r) [stepKey p] sc else sc)"

text \<open>
  \<^verbatim>\<open>compensate\<close>: the action it runs, which is no step at all when there is nothing to undo, and what
  it returns and writes afterwards.
\<close>

definition compensation :: "('v, 'w) step \<Rightarrow> 'v stepVars \<Rightarrow> ctx \<Rightarrow> ('v, 'w) effect" where
  "compensation p r c =
    (if sv_state r \<noteq> Some StepSucceeded then Finishes (Return (resultOf StatusOk))
     else (case compensateFn p of
         None \<Rightarrow> Finishes (Return (resultOf StatusOk))
       | Some f \<Rightarrow> f c (payload p r)))"

definition compensated :: "('v, 'w) step \<Rightarrow> 'v result outcome \<Rightarrow> 'v stepVars \<Rightarrow> bool \<times> 'v stepVars" where
  "compensated p out r =
    (if sv_state r \<noteq> Some StepSucceeded then (True, r)
     else if compensateFn p = None then (True, r\<lparr>sv_state := Some StepRolledBack\<rparr>)
     else (case out of
         Panic v \<Rightarrow> (False, r\<lparr>sv_err := Some (ErrNew (''saga compensation panicked: '' @ v)),
           sv_state := Some StepCompensationFailed\<rparr>)
       | Return res \<Rightarrow> if IsSuccessful res then (True, r\<lparr>sv_state := Some StepRolledBack\<rparr>)
           else (False, r\<lparr>sv_state := Some StepCompensationFailed\<rparr>)))"

section \<open>Results and the state store (saga.go, store.go)\<close>

datatype sagaOutcome = OutcomeSucceeded | OutcomeRolledBack | OutcomePartiallyRolledBack

text \<open>The failures are the steps themselves.\<close>

record 'v sagaResult =
  sr_Outcome :: sagaOutcome
  sr_FailedStageIndex :: int
  sr_Failure :: "'v resultInfo option"
  sr_FailureErr :: "goerr option"
  sr_CompensationFailures :: "nat list"

definition IsSuccessResult :: "'v sagaResult \<Rightarrow> bool" where
  "IsSuccessResult r \<longleftrightarrow> sr_Outcome r = OutcomeSucceeded"

record runInfo =
  ri_SagaID :: string
  ri_Name :: string
  ri_Attempt :: int
  ri_StageCount :: nat

text \<open>The operations of a \<^verbatim>\<open>StateStore\<close>, on its state.\<close>

record ('v, 'k) stateStore =
  RecordStarted :: "ctx \<Rightarrow> runInfo \<Rightarrow> 'k \<Rightarrow> 'k"
  RecordStageCompleted :: "ctx \<Rightarrow> string \<Rightarrow> int \<Rightarrow> int \<Rightarrow> 'k \<Rightarrow> 'k"
  RecordFinished :: "ctx \<Rightarrow> string \<Rightarrow> int \<Rightarrow> 'v sagaResult \<Rightarrow> 'k \<Rightarrow> 'k"

datatype stateEventKind = EventStarted | EventStageCompleted | EventFinished

record 'v stateEvent =
  ev_SagaID :: string
  ev_Attempt :: int
  ev_Kind :: stateEventKind
  ev_StageIndex :: int
  ev_Result :: "'v sagaResult option"

text \<open>The zero \<^verbatim>\<open>Result\<close> of the other events is \<open>None\<close>.\<close>

type_synonym 'v inMemoryStateStore = "'v stateEvent list"

definition NewInMemoryStateStore :: "'v inMemoryStateStore" where
  "NewInMemoryStateStore = []"

definition Events :: "'v inMemoryStateStore \<Rightarrow> 'v stateEvent list" where
  "Events s = s"

definition EventsFor :: "string \<Rightarrow> 'v inMemoryStateStore \<Rightarrow> 'v stateEvent list" where
  "EventsFor sagaID s = filter (\<lambda>e. ev_SagaID e = sagaID) s"

definition addEvent :: "'v stateEvent \<Rightarrow> 'v inMemoryStateStore \<Rightarrow> 'v inMemoryStateStore" where
  "addEvent e s = s @ [e]"

definition InMemory_RecordStarted ::
  "ctx \<Rightarrow> runInfo \<Rightarrow> 'v inMemoryStateStore \<Rightarrow> 'v inMemoryStateStore" where
  "InMemory_RecordStarted c run = addEvent \<lparr>ev_SagaID = ri_SagaID run, ev_Attempt = ri_Attempt run,
     ev_Kind = EventStarted, ev_StageIndex = -1, ev_Result = None\<rparr>"

definition InMemory_RecordStageCompleted ::
  "ctx \<Rightarrow> string \<Rightarrow> int \<Rightarrow> int \<Rightarrow> 'v inMemoryStateStore \<Rightarrow> 'v inMemoryStateStore" where
  "InMemory_RecordStageCompleted c sagaID attempt stageIndex = addEvent \<lparr>ev_SagaID = sagaID,
     ev_Attempt = attempt, ev_Kind = EventStageCompleted, ev_StageIndex = stageIndex, ev_Result = None\<rparr>"

definition InMemory_RecordFinished ::
  "ctx \<Rightarrow> string \<Rightarrow> int \<Rightarrow> 'v sagaResult \<Rightarrow> 'v inMemoryStateStore \<Rightarrow> 'v inMemoryStateStore" where
  "InMemory_RecordFinished c sagaID attempt result = addEvent \<lparr>ev_SagaID = sagaID,
     ev_Attempt = attempt, ev_Kind = EventFinished, ev_StageIndex = -1, ev_Result = Some result\<rparr>"

section \<open>Stages (saga.go)\<close>

type_synonym stage = "nat list"
type_synonym ('v, 'w) program = "nat \<Rightarrow> ('v, 'w) step"

definition NewStage :: "nat list \<Rightarrow> stage" where
  "NewStage steps = steps"

record ('v, 'w, 'k) sagaState =
  sg_shared :: "('v, 'w) shared"
  sg_steps :: "nat \<Rightarrow> 'v stepVars"
  sg_store :: 'k

definition stateOf :: "('v, 'w, 'k) sagaState \<Rightarrow> nat \<Rightarrow> stepState" where
  "stateOf st i = State (sg_steps st i)"

text \<open>
  The steps of a stage run together under a schedule. Each goroutine writes the fields of its own
  step only.
\<close>

definition stageExecute ::
  "('v, 'w) program \<Rightarrow> nat list \<Rightarrow> stage \<Rightarrow> ctx \<Rightarrow> ('v, 'w, 'k) sagaState \<Rightarrow>
   bool \<times> ('v, 'w, 'k) sagaState" where
  "stageExecute code sched stage c st =
    (case interleave sched (map (\<lambda>i. forward (code i) c) stage) (sg_shared st) of (outs, sh) \<Rightarrow>
      (let vars = fold (\<lambda>(i, out) v. v(i := executed out (v i))) (zip stage outs) (sg_steps st);
           st1 = st\<lparr>sg_shared := sh, sg_steps := vars\<rparr> in
       (list_all (\<lambda>i. stateOf st1 i = StepSucceeded) stage, st1)))"

definition stagePublish ::
  "('v, 'w) program \<Rightarrow> stage \<Rightarrow> ('v, 'w, 'k) sagaState \<Rightarrow> ('v, 'w, 'k) sagaState" where
  "stagePublish code stage st =
    st\<lparr>sg_shared := fold (\<lambda>i sc. publish (code i) (sg_steps st i) sc) stage (sg_shared st)\<rparr>"

definition stageCompensate ::
  "('v, 'w) program \<Rightarrow> nat list \<Rightarrow> stage \<Rightarrow> ctx \<Rightarrow> ('v, 'w, 'k) sagaState \<Rightarrow>
   bool \<times> ('v, 'w, 'k) sagaState" where
  "stageCompensate code sched stage c st =
    (case interleave sched (map (\<lambda>i. compensation (code i) (sg_steps st i) c) stage) (sg_shared st) of
       (outs, sh) \<Rightarrow>
      (let oks = map (\<lambda>(i, out). fst (compensated (code i) out (sg_steps st i))) (zip stage outs);
           vars = fold (\<lambda>(i, out) v. v(i := snd (compensated (code i) out (v i))))
             (zip stage outs) (sg_steps st) in
       (list_all (\<lambda>ok. ok) oks, st\<lparr>sg_shared := sh, sg_steps := vars\<rparr>)))"

section \<open>Sagas (saga.go)\<close>

record retryPolicy =
  rp_MaxAttempts :: int
  rp_InitialDelay :: int
  rp_BackoffFactor :: rat
  rp_sleepFn :: "(ctx \<Rightarrow> int \<Rightarrow> int \<Rightarrow> int) option"

record ('v, 'k) runOptions =
  ro_SagaID :: string
  ro_Name :: string
  ro_StateStore :: "('v, 'k) stateStore option"
  ro_RetryPolicy :: "retryPolicy option"

text \<open>
  The schedule of a stage, which is compensating or not, in an attempt: its arguments tell apart
  every time that goroutines run together in one \<^verbatim>\<open>RunWith\<close>.
\<close>

type_synonym schedules = "int \<Rightarrow> nat \<Rightarrow> bool \<Rightarrow> nat list"

definition inStore ::
  "('v, 'k) stateStore option \<Rightarrow> (('v, 'k) stateStore \<Rightarrow> 'k \<Rightarrow> 'k) \<Rightarrow> ('v, 'w, 'k) sagaState \<Rightarrow>
   ('v, 'w, 'k) sagaState" where
  "inStore store call st = (case store of
      None \<Rightarrow> st
    | Some ops \<Rightarrow> st\<lparr>sg_store := call ops (sg_store st)\<rparr>)"

text \<open>The loop that compensates the completed stages, newest first; j is the number left.\<close>

primrec rollBackCompleted ::
  "('v, 'w) program \<Rightarrow> (nat \<Rightarrow> nat list) \<Rightarrow> ctx \<Rightarrow> stage list \<Rightarrow> nat \<Rightarrow>
   bool \<times> ('v, 'w, 'k) sagaState \<Rightarrow> bool \<times> ('v, 'w, 'k) sagaState" where
  "rollBackCompleted code sched c completed 0 acc = acc"
| "rollBackCompleted code sched c completed (Suc j) acc =
    (case acc of (clean, st) \<Rightarrow>
      case stageCompensate code (sched j) (completed ! j) c st of (stageClean, st1) \<Rightarrow>
        rollBackCompleted code sched c completed j (clean \<and> stageClean, st1))"

definition rollBack ::
  "('v, 'w) program \<Rightarrow> (nat \<Rightarrow> nat list) \<Rightarrow> ctx \<Rightarrow> stage list \<Rightarrow> stage \<Rightarrow> ('v, 'w, 'k) sagaState \<Rightarrow>
   bool \<times> ('v, 'w, 'k) sagaState" where
  "rollBack code sched c completed failedStage st =
    rollBackCompleted code sched c completed (length completed)
      (stageCompensate code (sched (length completed)) failedStage c st)"

definition collectCompensationFailures ::
  "('v, 'w, 'k) sagaState \<Rightarrow> stage list \<Rightarrow> stage \<Rightarrow> nat list" where
  "collectCompensationFailures st completed failedStage =
    concat (map (filter (\<lambda>i. stateOf st i = StepCompensationFailed)) completed) @
    filter (\<lambda>i. stateOf st i = StepCompensationFailed) failedStage"

text \<open>The result of a failed attempt, from the state after the rollback.\<close>

definition failureResult ::
  "('v, 'w) program \<Rightarrow> bool \<Rightarrow> stage list \<Rightarrow> stage \<Rightarrow> ('v, 'w, 'k) sagaState \<Rightarrow> 'v sagaResult" where
  "failureResult code clean completed stage st =
    (let first = find (\<lambda>i. stateOf st i = StepFailed) stage in
     \<lparr>sr_Outcome = (if clean then OutcomeRolledBack else OutcomePartiallyRolledBack),
      sr_FailedStageIndex = int (length completed),
      sr_Failure = (case first of None \<Rightarrow> None | Some i \<Rightarrow> stepResult (code i) (sg_steps st i)),
      sr_FailureErr = (case first of None \<Rightarrow> None | Some i \<Rightarrow> sv_err (sg_steps st i)),
      sr_CompensationFailures = collectCompensationFailures st completed stage\<rparr>)"

definition succeededResult :: "'v sagaResult" where
  "succeededResult = \<lparr>sr_Outcome = OutcomeSucceeded, sr_FailedStageIndex = -1, sr_Failure = None,
     sr_FailureErr = None, sr_CompensationFailures = []\<rparr>"

text \<open>The loop over the stages: those completed, newest last, and those still to run.\<close>

primrec runStages ::
  "('v, 'w) program \<Rightarrow> schedules \<Rightarrow> ctx \<Rightarrow> ('v, 'k) stateStore option \<Rightarrow> int \<Rightarrow> string \<Rightarrow>
   stage list \<Rightarrow> stage list \<Rightarrow> ('v, 'w, 'k) sagaState \<Rightarrow> 'v sagaResult \<times> ('v, 'w, 'k) sagaState" where
  "runStages code sched c store attempt sagaID [] completed st =
    (succeededResult,
     inStore store (\<lambda>ops. RecordFinished ops c sagaID attempt succeededResult) st)"
| "runStages code sched c store attempt sagaID (stage # rest) completed st =
    (case stageExecute code (sched attempt (length completed) False) stage c st of (ok, st1) \<Rightarrow>
      if ok then
        (let st2 = stagePublish code stage st1;
             st3 = inStore store (\<lambda>ops. RecordStageCompleted ops c sagaID attempt (int (length completed))) st2 in
         runStages code sched c store attempt sagaID rest (completed @ [stage]) st3)
      else
        (case rollBack code (\<lambda>j. sched attempt j True) c completed stage st1 of (clean, st2) \<Rightarrow>
          (let result = failureResult code clean completed stage st2 in
           (result, inStore store (\<lambda>ops. RecordFinished ops c sagaID attempt result) st2))))"

definition runOnce ::
  "('v, 'w) program \<Rightarrow> schedules \<Rightarrow> stage list \<Rightarrow> ctx \<Rightarrow> ('v, 'k) runOptions \<Rightarrow> int \<Rightarrow> string \<Rightarrow>
   ('v, 'w, 'k) sagaState \<Rightarrow> 'v sagaResult \<times> ('v, 'w, 'k) sagaState" where
  "runOnce code sched stages c opts attempt sagaID st =
    (let st1 = inStore (ro_StateStore opts) (\<lambda>ops. RecordStarted ops c \<lparr>ri_SagaID = sagaID,
           ri_Name = ro_Name opts, ri_Attempt = attempt, ri_StageCount = length stages\<rparr>) st;
         st2 = st1\<lparr>sg_shared := (sg_shared st1)\<lparr>items := []\<rparr>\<rparr> in
     runStages code sched c (ro_StateStore opts) attempt sagaID stages [] st2)"

definition SagaRun ::
  "('v, 'w) program \<Rightarrow> schedules \<Rightarrow> stage list \<Rightarrow> ctx \<Rightarrow> ('v, 'w, 'k) sagaState \<Rightarrow>
   'v sagaResult \<times> ('v, 'w, 'k) sagaState" where
  "SagaRun code sched stages c st = runOnce code sched stages c
     \<lparr>ro_SagaID = '''', ro_Name = ''saga'', ro_StateStore = None, ro_RetryPolicy = None\<rparr> 1 '''' st"

definition maxAttempts :: "retryPolicy \<Rightarrow> int" where
  "maxAttempts p = (if rp_MaxAttempts p < 1 then 1 else rp_MaxAttempts p)"

definition sagaBackoffFactor :: "retryPolicy \<Rightarrow> rat" where
  "sagaBackoffFactor p = (if rp_BackoffFactor p = 0 then 2 else rp_BackoffFactor p)"

text \<open>The instant at which the wait ends: the timer's, or that of the cancellation when it is earlier.\<close>

definition policySleep :: "retryPolicy \<Rightarrow> ctx \<Rightarrow> int \<Rightarrow> int \<Rightarrow> int" where
  "policySleep p c d now = (case rp_sleepFn p of
      Some f \<Rightarrow> f c d now
    | None \<Rightarrow> (case done_at c of
        None \<Rightarrow> now + d
      | Some (t, e) \<Rightarrow> if t \<le> now + d then max now t else now + d))"

text \<open>
  \<open>scale\<close> is the float product of a delay and a factor, converted to a duration: what the conversion
  gives outside the range of 64 bits is left to the machine.
  An attempt never passes the limit, which is at least 1, so the test of the code that they are equal
  is the comparison here.
\<close>

function attemptLoop ::
  "(int \<Rightarrow> rat \<Rightarrow> int) \<Rightarrow> ('v, 'w) program \<Rightarrow> schedules \<Rightarrow> stage list \<Rightarrow> ctx \<Rightarrow> ('v, 'k) runOptions \<Rightarrow>
   string \<Rightarrow> int \<Rightarrow> int \<Rightarrow> int \<Rightarrow> ('v, 'w, 'k) sagaState \<Rightarrow> 'v sagaResult \<times> ('v, 'w, 'k) sagaState" where
  "attemptLoop scale code sched stages c opts sagaID limit attempt delay st =
    (case runOnce code sched stages c opts attempt sagaID st of (result, st1) \<Rightarrow>
      if sr_Outcome result \<noteq> OutcomeRolledBack \<or> attempt \<ge> limit then (result, st1)
      else (case ro_RetryPolicy opts of
          Some p \<Rightarrow> if delay > 0
            then attemptLoop scale code sched stages c opts sagaID limit (attempt + 1)
              (scale delay (sagaBackoffFactor p))
              (st1\<lparr>sg_shared := (sg_shared st1)\<lparr>sclock := policySleep p c delay (sclock (sg_shared st1))\<rparr>\<rparr>)
            else attemptLoop scale code sched stages c opts sagaID limit (attempt + 1) delay st1
        | None \<Rightarrow> attemptLoop scale code sched stages c opts sagaID limit (attempt + 1) delay st1))"
  by pat_completeness auto
termination
  by (relation "measure (\<lambda>(scale, code, sched, stages, c, opts, sagaID, limit, attempt, delay, st).
      nat (limit - attempt))") auto

declare attemptLoop.simps [simp del]

text \<open>\<open>freshID\<close> is the random id drawn when a store is present and no id was given.\<close>

definition RunWith ::
  "(int \<Rightarrow> rat \<Rightarrow> int) \<Rightarrow> string \<Rightarrow> ('v, 'w) program \<Rightarrow> schedules \<Rightarrow> stage list \<Rightarrow> ctx \<Rightarrow>
   ('v, 'k) runOptions \<Rightarrow> ('v, 'w, 'k) sagaState \<Rightarrow> 'v sagaResult \<times> ('v, 'w, 'k) sagaState" where
  "RunWith scale freshID code sched stages c opts st =
    (let opts1 = (if ro_Name opts = '''' then opts\<lparr>ro_Name := ''saga''\<rparr> else opts);
         limit = (case ro_RetryPolicy opts1 of None \<Rightarrow> 1 | Some p \<Rightarrow> maxAttempts p);
         delay = (case ro_RetryPolicy opts1 of None \<Rightarrow> 0 | Some p \<Rightarrow> rp_InitialDelay p);
         sagaID = (if ro_SagaID opts1 = '''' \<and> ro_StateStore opts1 \<noteq> None then freshID
           else ro_SagaID opts1) in
     attemptLoop scale code sched stages c opts1 sagaID limit 1 delay st)"

section \<open>What one stage does\<close>

definition succeeds :: "'v result outcome \<Rightarrow> bool" where
  "succeeds out = (case out of Panic p \<Rightarrow> False | Return r \<Rightarrow> IsSuccessful r)"

lemma State_iff: "s \<noteq> StepPending \<Longrightarrow> State r = s \<longleftrightarrow> sv_state r = Some s"
  by (auto simp: State_def orPending_def split: option.splits)

lemma State_executed [simp]: "State (executed out r) = (if succeeds out then StepSucceeded else StepFailed)"
  by (auto simp: executed_def Let_def succeeds_def State_def orPending_def split: outcome.split)

lemma compensated_skips: "State r \<noteq> StepSucceeded \<Longrightarrow> compensated p out r = (True, r)"
  by (simp add: compensated_def State_iff)

lemma compensated_undoes:
  "State r = StepSucceeded \<Longrightarrow>
    fst (compensated p out r) = (compensateFn p = None \<or> succeeds out) \<and>
    State (snd (compensated p out r)) =
      (if compensateFn p = None \<or> succeeds out then StepRolledBack else StepCompensationFailed)"
  by (auto simp: compensated_def succeeds_def State_iff split: outcome.split)

lemma fold_own_fields:
  assumes "distinct xs"
  shows "length outs = length xs \<Longrightarrow>
    (\<forall>j < length xs. fold (\<lambda>(i, out) v. v(i := g i out (v i))) (zip xs outs) v (xs ! j) =
       g (xs ! j) (outs ! j) (v (xs ! j))) \<and>
    (\<forall>i. i \<notin> set xs \<longrightarrow> fold (\<lambda>(i, out) v. v(i := g i out (v i))) (zip xs outs) v i = v i)"
  using assms
proof (induction xs arbitrary: outs v)
  case (Cons x xs)
  then obtain out outs' where outs: "outs = out # outs'" "length outs' = length xs" by (cases outs) auto
  have x: "x \<notin> set xs" "distinct xs" using Cons.prems by auto
  from Cons.IH [OF outs(2) x(2), of "v(x := g x out (v x))"] x outs(1) show ?case
    by (auto simp: nth_Cons split: nat.split)
qed simp

lemma interleave_length: "interleave sched gs s = (outs, s') \<Longrightarrow> length outs = length gs"
  using interleave_keeps [of "\<lambda>_ _. True" gs s sched outs s'] by (simp add: stepwise_def)

lemma execute_outs:
  fixes st :: "('v, 'w, 'k) sagaState"
  assumes "distinct stage" and "stageExecute code sched stage c st = (ok, st1)"
  obtains outs where
    "interleave sched (map (\<lambda>i. forward (code i) c) stage) (sg_shared st) = (outs, sg_shared st1)"
    "length outs = length stage"
    "\<And>j. j < length stage \<Longrightarrow> sg_steps st1 (stage ! j) = executed (outs ! j) (sg_steps st (stage ! j))"
    "\<And>i. i \<notin> set stage \<Longrightarrow> sg_steps st1 i = sg_steps st i" "sg_store st1 = sg_store st"
    "ok \<longleftrightarrow> (\<forall>i \<in> set stage. stateOf st1 i = StepSucceeded)"
proof -
  obtain outs sh where i: "interleave sched (map (\<lambda>i. forward (code i) c) stage) (sg_shared st) = (outs, sh)"
    by fastforce
  have len: "length outs = length stage" using interleave_length [OF i] by simp
  note own = fold_own_fields [OF assms(1) len, of "\<lambda>_. executed" "sg_steps st"]
  show thesis
    by (rule that [of outs]) (use assms(2) i len own in \<open>auto simp: stageExecute_def Let_def list_all_iff\<close>)
qed

lemma compensate_outs:
  fixes st :: "('v, 'w, 'k) sagaState"
  assumes "distinct stage" and "stageCompensate code sched stage c st = (ok, st1)"
  obtains outs where
    "interleave sched (map (\<lambda>i. compensation (code i) (sg_steps st i) c) stage) (sg_shared st) =
      (outs, sg_shared st1)"
    "length outs = length stage"
    "\<And>j. j < length stage \<Longrightarrow> sg_steps st1 (stage ! j) =
      snd (compensated (code (stage ! j)) (outs ! j) (sg_steps st (stage ! j)))"
    "\<And>i. i \<notin> set stage \<Longrightarrow> sg_steps st1 i = sg_steps st i" "sg_store st1 = sg_store st"
    "ok \<longleftrightarrow> (\<forall>j < length stage. fst (compensated (code (stage ! j)) (outs ! j) (sg_steps st (stage ! j))))"
proof -
  obtain outs sh where i: "interleave sched (map (\<lambda>i. compensation (code i) (sg_steps st i) c) stage)
      (sg_shared st) = (outs, sh)"
    by fastforce
  have len: "length outs = length stage" using interleave_length [OF i] by simp
  note own = fold_own_fields [OF assms(1) len, of "\<lambda>i out r. snd (compensated (code i) out r)" "sg_steps st"]
  show thesis
    by (rule that [of outs])
      (use assms(2) i len own in \<open>auto simp: stageCompensate_def Let_def list_all_length\<close>)
qed

lemma execute_states:
  assumes "distinct stage" and "stageExecute code sched stage c st = (ok, st1)"
  shows "(\<forall>i \<in> set stage. stateOf st1 i \<in> {StepSucceeded, StepFailed}) \<and>
    (ok \<longleftrightarrow> (\<forall>i \<in> set stage. stateOf st1 i = StepSucceeded)) \<and>
    (\<forall>i. i \<notin> set stage \<longrightarrow> sg_steps st1 i = sg_steps st i)"
proof -
  obtain outs where
    "interleave sched (map (\<lambda>i. forward (code i) c) stage) (sg_shared st) = (outs, sg_shared st1)"
    "length outs = length stage"
    and own: "\<And>j. j < length stage \<Longrightarrow> sg_steps st1 (stage ! j) = executed (outs ! j) (sg_steps st (stage ! j))"
    and frame: "\<And>i. i \<notin> set stage \<Longrightarrow> sg_steps st1 i = sg_steps st i" and "sg_store st1 = sg_store st"
    and ok: "ok \<longleftrightarrow> (\<forall>i \<in> set stage. stateOf st1 i = StepSucceeded)"
    by (rule execute_outs [OF assms]) (rule that)
  have "stateOf st1 i \<in> {StepSucceeded, StepFailed}" if "i \<in> set stage" for i
    using that own by (auto simp: in_set_conv_nth stateOf_def split: if_splits)
  with frame ok show ?thesis by blast
qed

lemma compensate_states:
  assumes "distinct stage" and "stageCompensate code sched stage c st = (ok, st1)"
    and "\<forall>i \<in> set stage. stateOf st i \<in> {StepSucceeded, StepFailed}"
  shows "(\<forall>i \<in> set stage. if stateOf st i = StepFailed then stateOf st1 i = StepFailed
      else stateOf st1 i \<in> {StepRolledBack, StepCompensationFailed}) \<and>
    (ok \<longleftrightarrow> (\<forall>i \<in> set stage. stateOf st1 i \<noteq> StepCompensationFailed)) \<and>
    (\<forall>i. i \<notin> set stage \<longrightarrow> sg_steps st1 i = sg_steps st i)"
proof -
  obtain outs where
    "interleave sched (map (\<lambda>i. compensation (code i) (sg_steps st i) c) stage) (sg_shared st) =
      (outs, sg_shared st1)" "length outs = length stage"
    and own: "\<And>j. j < length stage \<Longrightarrow> sg_steps st1 (stage ! j) =
      snd (compensated (code (stage ! j)) (outs ! j) (sg_steps st (stage ! j)))"
    and frame: "\<And>i. i \<notin> set stage \<Longrightarrow> sg_steps st1 i = sg_steps st i" and "sg_store st1 = sg_store st"
    and ok: "ok \<longleftrightarrow> (\<forall>j < length stage. fst (compensated (code (stage ! j)) (outs ! j) (sg_steps st (stage ! j))))"
    by (rule compensate_outs [OF assms(1,2)]) (rule that)
  have each: "if stateOf st (stage ! j) = StepFailed
      then stateOf st1 (stage ! j) = StepFailed \<and>
        fst (compensated (code (stage ! j)) (outs ! j) (sg_steps st (stage ! j)))
      else stateOf st1 (stage ! j) \<in> {StepRolledBack, StepCompensationFailed} \<and>
        fst (compensated (code (stage ! j)) (outs ! j) (sg_steps st (stage ! j))) =
          (stateOf st1 (stage ! j) = StepRolledBack)"
    if "j < length stage" for j
  proof -
    have "State (sg_steps st (stage ! j)) \<in> {StepSucceeded, StepFailed}"
      using assms(3) that by (simp add: stateOf_def)
    then show ?thesis
      using compensated_skips [of "sg_steps st (stage ! j)" "code (stage ! j)" "outs ! j"]
        compensated_undoes [of "sg_steps st (stage ! j)" "code (stage ! j)" "outs ! j"]
        own [OF that] by (auto simp: stateOf_def)
  qed
  have "ok \<longleftrightarrow> (\<forall>j < length stage. stateOf st1 (stage ! j) \<noteq> StepCompensationFailed)"
    unfolding ok using each by (metis (no_types, lifting) insertE singletonD stepState.distinct)
  then have "ok \<longleftrightarrow> (\<forall>i \<in> set stage. stateOf st1 i \<noteq> StepCompensationFailed)"
    by (simp add: all_set_conv_all_nth)
  moreover have "if stateOf st i = StepFailed then stateOf st1 i = StepFailed
      else stateOf st1 i \<in> {StepRolledBack, StepCompensationFailed}" if i: "i \<in> set stage" for i
  proof -
    obtain j where "j < length stage" "i = stage ! j" using i by (auto simp: in_set_conv_nth)
    with each [of j] show ?thesis by (simp split: if_splits)
  qed
  ultimately show ?thesis using frame by blast
qed

section \<open>Effects\<close>

text \<open>
  \<open>eff\<close> reads from the world which steps' effects exist. A disciplined step is written as the package
  asks: its forward creates its own effect exactly when it succeeds, and none when it has no
  compensation; its compensation removes it exactly when it succeeds.
\<close>

definition disciplined :: "('w \<Rightarrow> nat set) \<Rightarrow> ('v, 'w) program \<Rightarrow> nat \<Rightarrow> bool" where
  "disciplined eff code i \<longleftrightarrow>
    (\<forall>c. minds (\<lambda>sh. eff (world sh)) i (\<lambda>out. succeeds out \<and> compensateFn (code i) \<noteq> None)
       (forward (code i) c) False) \<and>
    (\<forall>f c p. compensateFn (code i) = Some f \<longrightarrow>
       minds (\<lambda>sh. eff (world sh)) i (\<lambda>out. \<not> succeeds out) (f c p) True)"

definition effectsIn :: "('w \<Rightarrow> nat set) \<Rightarrow> ('v, 'w, 'k) sagaState \<Rightarrow> nat set" where
  "effectsIn eff st = eff (world (sg_shared st))"

text \<open>The steps whose effect exists, by their state.\<close>

definition standing :: "('v, 'w) program \<Rightarrow> ('v, 'w, 'k) sagaState \<Rightarrow> nat \<Rightarrow> bool" where
  "standing code st i \<longleftrightarrow> stateOf st i = StepSucceeded \<and> compensateFn (code i) \<noteq> None \<or>
     stateOf st i = StepCompensationFailed"

definition tracked :: "('w \<Rightarrow> nat set) \<Rightarrow> ('v, 'w) program \<Rightarrow> ('v, 'w, 'k) sagaState \<Rightarrow> nat set \<Rightarrow> bool" where
  "tracked eff code st S \<longleftrightarrow> (\<forall>i \<in> S. i \<in> effectsIn eff st \<longleftrightarrow> standing code st i)"

lemma tracked_Un: "tracked eff code st (S \<union> T) \<longleftrightarrow> tracked eff code st S \<and> tracked eff code st T"
  by (auto simp: tracked_def)

text \<open>What happens to other steps leaves the effects and the states of these alone.\<close>

lemma tracked_frame:
  assumes "tracked eff code st S" and "effectsIn eff st1 - T = effectsIn eff st - T" and "S \<inter> T = {}"
    and "\<And>i. i \<in> S \<Longrightarrow> stateOf st1 i = stateOf st i"
  shows "tracked eff code st1 S"
  unfolding tracked_def
proof
  fix i assume i: "i \<in> S"
  then have "i \<in> effectsIn eff st1 \<longleftrightarrow> i \<in> effectsIn eff st" using assms(2,3) by blast
  then show "i \<in> effectsIn eff st1 \<longleftrightarrow> standing code st1 i"
    using assms(1,4) i by (simp add: tracked_def standing_def)
qed

lemma diff_frames: "A - S = B - S \<Longrightarrow> B - T = C - T \<Longrightarrow> A - (S \<union> T) = C - (S \<union> T)"
  by blast

lemma execute_effects:
  fixes st :: "('v, 'w, 'k) sagaState"
  assumes "distinct stage" and "stageExecute code sched stage c st = (ok, st1)"
    and "\<forall>i \<in> set stage. disciplined eff code i" and "effectsIn eff st \<inter> set stage = {}"
  shows "effectsIn eff st1 - set stage = effectsIn eff st \<and> tracked eff code st1 (set stage)"
proof -
  obtain outs where
    run: "interleave sched (map (\<lambda>i. forward (code i) c) stage) (sg_shared st) = (outs, sg_shared st1)"
    and len: "length outs = length stage"
    and own: "\<And>j. j < length stage \<Longrightarrow> sg_steps st1 (stage ! j) = executed (outs ! j) (sg_steps st (stage ! j))"
    and "\<And>i. i \<notin> set stage \<Longrightarrow> sg_steps st1 i = sg_steps st i" and "sg_store st1 = sg_store st"
    and "ok \<longleftrightarrow> (\<forall>i \<in> set stage. stateOf st1 i = StepSucceeded)"
    by (rule execute_outs [OF assms(1,2)]) (rule that)
  let ?leaves = "\<lambda>j out. succeeds out \<and> compensateFn (code (stage ! j)) \<noteq> None"
  have m: "minds (\<lambda>sh. eff (world sh)) (stage ! j) (?leaves j) (map (\<lambda>i. forward (code i) c) stage ! j)
      (stage ! j \<in> eff (world (sg_shared st)))" if "j < length stage" for j
  proof -
    have i: "stage ! j \<in> set stage" using that by simp
    then have "stage ! j \<notin> eff (world (sg_shared st))" using assms(4) by (auto simp: effectsIn_def)
    moreover have "disciplined eff code (stage ! j)" using assms(3) i by blast
    ultimately show ?thesis using that by (simp add: disciplined_def)
  qed
  have eff: "eff (world (sg_shared st1)) - set stage = eff (world (sg_shared st)) - set stage \<and>
      (\<forall>j < length stage. stage ! j \<in> eff (world (sg_shared st1)) \<longleftrightarrow> ?leaves j (outs ! j))"
    using interleave_effects [OF assms(1) _ m run] by simp
  have "standing code st1 (stage ! j) \<longleftrightarrow> ?leaves j (outs ! j)" if "j < length stage" for j
    using own [OF that] by (simp add: standing_def stateOf_def)
  with eff assms(4) show ?thesis
    by (auto simp: tracked_def effectsIn_def in_set_conv_nth)
qed

lemma compensate_effects:
  fixes st :: "('v, 'w, 'k) sagaState"
  assumes "distinct stage" and "stageCompensate code sched stage c st = (ok, st1)"
    and "\<forall>i \<in> set stage. disciplined eff code i" and "tracked eff code st (set stage)"
    and "\<forall>i \<in> set stage. stateOf st i \<in> {StepSucceeded, StepFailed}"
  shows "effectsIn eff st1 - set stage = effectsIn eff st - set stage \<and> tracked eff code st1 (set stage)"
proof -
  obtain outs where
    run: "interleave sched (map (\<lambda>i. compensation (code i) (sg_steps st i) c) stage) (sg_shared st) =
      (outs, sg_shared st1)" and "length outs = length stage"
    and own: "\<And>j. j < length stage \<Longrightarrow> sg_steps st1 (stage ! j) =
      snd (compensated (code (stage ! j)) (outs ! j) (sg_steps st (stage ! j)))"
    and "\<And>i. i \<notin> set stage \<Longrightarrow> sg_steps st1 i = sg_steps st i" and "sg_store st1 = sg_store st"
    and "ok \<longleftrightarrow> (\<forall>j < length stage. fst (compensated (code (stage ! j)) (outs ! j) (sg_steps st (stage ! j))))"
    by (rule compensate_outs [OF assms(1,2)]) (rule that)
  let ?leaves = "\<lambda>j out. stateOf st (stage ! j) = StepSucceeded \<and> compensateFn (code (stage ! j)) \<noteq> None \<and>
    \<not> succeeds out"
  have present: "stage ! j \<in> effectsIn eff st \<longleftrightarrow>
      stateOf st (stage ! j) = StepSucceeded \<and> compensateFn (code (stage ! j)) \<noteq> None"
    if "j < length stage" for j
    using assms(4,5) nth_mem [OF that] by (auto simp: tracked_def standing_def)
  have m: "minds (\<lambda>sh. eff (world sh)) (stage ! j) (?leaves j)
      (map (\<lambda>i. compensation (code i) (sg_steps st i) c) stage ! j)
      (stage ! j \<in> eff (world (sg_shared st)))" if "j < length stage" for j
    using that present [OF that] assms(3) nth_mem [OF that]
    by (auto simp: disciplined_def effectsIn_def compensation_def stateOf_def State_iff split: option.split)
  have eff: "eff (world (sg_shared st1)) - set stage = eff (world (sg_shared st)) - set stage \<and>
      (\<forall>j < length stage. stage ! j \<in> eff (world (sg_shared st1)) \<longleftrightarrow> ?leaves j (outs ! j))"
    using interleave_effects [OF assms(1) _ m run] by simp
  have "standing code st1 (stage ! j) \<longleftrightarrow> ?leaves j (outs ! j)" if "j < length stage" for j
    using own [OF that] assms(5) nth_mem [OF that]
      compensated_skips [of "sg_steps st (stage ! j)" "code (stage ! j)" "outs ! j"]
      compensated_undoes [of "sg_steps st (stage ! j)" "code (stage ! j)" "outs ! j"]
    by (auto simp: standing_def stateOf_def split: if_splits)
  with eff show ?thesis
    by (auto simp: tracked_def effectsIn_def in_set_conv_nth)
qed

section \<open>What a rollback does\<close>

text \<open>The state between the stages of a rollback: what is left to compensate has succeeded.\<close>

lemma rollback_states:
  fixes st :: "('v, 'w, 'k) sagaState"
  assumes "distinct (concat completed)"
  shows "j \<le> length completed \<Longrightarrow> rollBackCompleted code sched c completed j (clean, st) = (clean', st') \<Longrightarrow>
    \<forall>i \<in> set (concat (take j completed)). stateOf st i = StepSucceeded \<Longrightarrow>
    (\<forall>i \<in> set (concat (take j completed)). stateOf st' i \<in> {StepRolledBack, StepCompensationFailed}) \<and>
    (clean' \<longleftrightarrow> clean \<and> (\<forall>i \<in> set (concat (take j completed)). stateOf st' i \<noteq> StepCompensationFailed)) \<and>
    (\<forall>i. i \<notin> set (concat (take j completed)) \<longrightarrow> sg_steps st' i = sg_steps st i)"
proof (induction j arbitrary: clean st)
  case (Suc j)
  let ?stage = "completed ! j" and ?rest = "concat (take j completed)"
  have j: "j < length completed" using Suc.prems(1) by simp
  then have parts: "concat (take (Suc j) completed) = ?rest @ ?stage" by (simp add: take_Suc_conv_app_nth)
  have "distinct (concat (take (Suc j) completed))"
    using assms by (metis append_take_drop_id concat_append distinct_append)
  then have d: "distinct ?stage" "set ?rest \<inter> set ?stage = {}" unfolding parts by auto
  obtain ok st1 where s1: "stageCompensate code (sched j) ?stage c st = (ok, st1)" by fastforce
  have here: "\<forall>i \<in> set ?stage. stateOf st i = StepSucceeded" using Suc.prems(3) unfolding parts by simp
  from compensate_states [OF d(1) s1] here
  have own: "\<forall>i \<in> set ?stage. stateOf st1 i \<in> {StepRolledBack, StepCompensationFailed}"
      "ok \<longleftrightarrow> (\<forall>i \<in> set ?stage. stateOf st1 i \<noteq> StepCompensationFailed)"
      "\<forall>i. i \<notin> set ?stage \<longrightarrow> sg_steps st1 i = sg_steps st i" by simp_all
  have "stateOf st1 i = stateOf st i" if "i \<in> set ?rest" for i
  proof -
    have "i \<notin> set ?stage" using that d(2) by blast
    then show ?thesis using own(3) by (simp add: stateOf_def)
  qed
  then have "\<forall>i \<in> set ?rest. stateOf st1 i = StepSucceeded"
    using Suc.prems(3) unfolding parts by simp
  with Suc.IH [of "clean \<and> ok" st1] j Suc.prems(2) s1
  have rest: "(\<forall>i \<in> set ?rest. stateOf st' i \<in> {StepRolledBack, StepCompensationFailed}) \<and>
    (clean' \<longleftrightarrow> (clean \<and> ok) \<and> (\<forall>i \<in> set ?rest. stateOf st' i \<noteq> StepCompensationFailed)) \<and>
    (\<forall>i. i \<notin> set ?rest \<longrightarrow> sg_steps st' i = sg_steps st1 i)" by simp
  then have same: "stateOf st' i = stateOf st1 i" if "i \<in> set ?stage" for i
  proof -
    have "i \<notin> set ?rest" using that d(2) by blast
    then show ?thesis using rest by (simp add: stateOf_def)
  qed
  have "clean' \<longleftrightarrow> clean \<and> (\<forall>i \<in> set ?stage. stateOf st' i \<noteq> StepCompensationFailed) \<and>
      (\<forall>i \<in> set ?rest. stateOf st' i \<noteq> StepCompensationFailed)"
    using rest own(2) same by simp
  moreover have "\<forall>i \<in> set ?stage. stateOf st' i \<in> {StepRolledBack, StepCompensationFailed}"
    using own(1) same by simp
  ultimately show ?case
    using rest own(3) unfolding parts set_append ball_Un by (simp add: conj_ac)
qed simp

lemma rollback_effects:
  fixes st :: "('v, 'w, 'k) sagaState"
  assumes "distinct (concat completed)" and "\<forall>i \<in> set (concat completed). disciplined eff code i"
  shows "j \<le> length completed \<Longrightarrow> rollBackCompleted code sched c completed j (clean, st) = (clean', st') \<Longrightarrow>
    \<forall>i \<in> set (concat (take j completed)). stateOf st i = StepSucceeded \<Longrightarrow>
    tracked eff code st (set (concat (take j completed))) \<Longrightarrow>
    effectsIn eff st' - set (concat (take j completed)) = effectsIn eff st - set (concat (take j completed)) \<and>
    tracked eff code st' (set (concat (take j completed)))"
proof (induction j arbitrary: clean st)
  case (Suc j)
  let ?stage = "completed ! j" and ?rest = "concat (take j completed)"
  have j: "j < length completed" using Suc.prems(1) by simp
  then have parts: "concat (take (Suc j) completed) = ?rest @ ?stage" by (simp add: take_Suc_conv_app_nth)
  have "distinct (concat (take (Suc j) completed))"
    using assms(1) by (metis append_take_drop_id concat_append distinct_append)
  then have d: "distinct ?stage" "set ?rest \<inter> set ?stage = {}" unfolding parts by auto
  obtain ok st1 where s1: "stageCompensate code (sched j) ?stage c st = (ok, st1)" by fastforce
  have r1: "rollBackCompleted code sched c completed j (clean \<and> ok, st1) = (clean', st')"
    using Suc.prems(2) s1 by simp
  have here: "\<forall>i \<in> set ?stage. stateOf st i = StepSucceeded" using Suc.prems(3) unfolding parts by simp
  have own: "\<forall>i. i \<notin> set ?stage \<longrightarrow> sg_steps st1 i = sg_steps st i"
    using compensate_states [OF d(1) s1] here by simp
  then have same: "stateOf st1 i = stateOf st i" if "i \<in> set ?rest" for i
  proof -
    have "i \<notin> set ?stage" using that d(2) by blast
    then show ?thesis using own by (simp add: stateOf_def)
  qed
  have dis: "\<forall>i \<in> set ?stage. disciplined eff code i" using assms(2) j by auto
  have ts: "tracked eff code st (set ?stage)" "tracked eff code st (set ?rest)"
    using Suc.prems(4) unfolding parts set_append tracked_Un by simp_all
  from compensate_effects [OF d(1) s1 dis ts(1)] here
  have e1: "effectsIn eff st1 - set ?stage = effectsIn eff st - set ?stage"
    and t1: "tracked eff code st1 (set ?stage)" by simp_all
  have left: "\<forall>i \<in> set ?rest. stateOf st1 i = StepSucceeded"
    using same Suc.prems(3) unfolding parts by simp
  have "tracked eff code st1 (set ?rest)" by (rule tracked_frame [OF ts(2) e1 d(2) same])
  with Suc.IH [OF _ r1 left] j
  have e2: "effectsIn eff st' - set ?rest = effectsIn eff st1 - set ?rest"
    and t2: "tracked eff code st' (set ?rest)" by simp_all
  have "stateOf st' i = stateOf st1 i" if "i \<in> set ?stage" for i
  proof -
    have "i \<notin> set ?rest" using that d(2) by blast
    then show ?thesis using rollback_states [OF assms(1) _ r1 left] j by (simp add: stateOf_def)
  qed
  from tracked_frame [OF t1 e2 _ this] d(2) have "tracked eff code st' (set ?stage)" by blast
  with t2 diff_frames [OF e2 e1] show ?case unfolding parts set_append tracked_Un by blast
qed simp

lemma rollBack_states:
  fixes st :: "('v, 'w, 'k) sagaState"
  assumes "distinct (concat (completed @ [stage]))"
    and "rollBack code sched c completed stage st = (clean, st')"
    and "\<forall>i \<in> set (concat completed). stateOf st i = StepSucceeded"
    and "\<forall>i \<in> set stage. stateOf st i \<in> {StepSucceeded, StepFailed}"
  shows "(\<forall>i \<in> set (concat completed). stateOf st' i \<in> {StepRolledBack, StepCompensationFailed}) \<and>
    (\<forall>i \<in> set stage. if stateOf st i = StepFailed then stateOf st' i = StepFailed
       else stateOf st' i \<in> {StepRolledBack, StepCompensationFailed}) \<and>
    (clean \<longleftrightarrow> (\<forall>i \<in> set (concat completed) \<union> set stage. stateOf st' i \<noteq> StepCompensationFailed)) \<and>
    (\<forall>i. i \<notin> set (concat completed) \<union> set stage \<longrightarrow> sg_steps st' i = sg_steps st i)"
proof -
  let ?past = "concat completed"
  have d: "distinct ?past" "distinct stage" "set ?past \<inter> set stage = {}" using assms(1) by simp_all
  obtain ok st1 where s1: "stageCompensate code (sched (length completed)) stage c st = (ok, st1)" by fastforce
  have r1: "rollBackCompleted code sched c completed (length completed) (ok, st1) = (clean, st')"
    using assms(2) s1 by (simp add: rollBack_def)
  note own = compensate_states [OF d(2) s1 assms(4)]
  have same: "stateOf st1 i = stateOf st i" if "i \<in> set ?past" for i
  proof -
    have "i \<notin> set stage" using that d(3) by blast
    then show ?thesis using own by (simp add: stateOf_def)
  qed
  then have "\<forall>i \<in> set (concat (take (length completed) completed)). stateOf st1 i = StepSucceeded"
    using assms(3) by simp
  from rollback_states [OF d(1) _ r1 this]
  have past: "(\<forall>i \<in> set ?past. stateOf st' i \<in> {StepRolledBack, StepCompensationFailed}) \<and>
    (clean \<longleftrightarrow> ok \<and> (\<forall>i \<in> set ?past. stateOf st' i \<noteq> StepCompensationFailed)) \<and>
    (\<forall>i. i \<notin> set ?past \<longrightarrow> sg_steps st' i = sg_steps st1 i)" by simp
  have kept: "stateOf st' i = stateOf st1 i" if "i \<in> set stage" for i
  proof -
    have "i \<notin> set ?past" using that d(3) by blast
    then show ?thesis using past by (simp add: stateOf_def)
  qed
  have "clean \<longleftrightarrow> (\<forall>i \<in> set ?past. stateOf st' i \<noteq> StepCompensationFailed) \<and>
      (\<forall>i \<in> set stage. stateOf st' i \<noteq> StepCompensationFailed)"
    using past own kept by auto
  moreover have "\<forall>i \<in> set stage. if stateOf st i = StepFailed then stateOf st' i = StepFailed
      else stateOf st' i \<in> {StepRolledBack, StepCompensationFailed}"
    using own kept by (auto split: if_splits)
  moreover have "sg_steps st' i = sg_steps st i" if "i \<notin> set ?past \<union> set stage" for i
    using past own that by simp
  ultimately show ?thesis using past unfolding ball_Un by blast
qed

lemma rollBack_effects:
  fixes st :: "('v, 'w, 'k) sagaState"
  assumes "distinct (concat (completed @ [stage]))"
    and "rollBack code sched c completed stage st = (clean, st')"
    and "\<forall>i \<in> set (concat completed). stateOf st i = StepSucceeded"
    and "\<forall>i \<in> set stage. stateOf st i \<in> {StepSucceeded, StepFailed}"
    and "\<forall>i \<in> set (concat (completed @ [stage])). disciplined eff code i"
    and "tracked eff code st (set (concat (completed @ [stage])))"
  shows "effectsIn eff st' - set (concat (completed @ [stage])) =
      effectsIn eff st - set (concat (completed @ [stage])) \<and>
    tracked eff code st' (set (concat (completed @ [stage])))"
proof -
  let ?past = "concat completed"
  have parts: "concat (completed @ [stage]) = ?past @ stage" by simp
  have d: "distinct ?past" "distinct stage" "set ?past \<inter> set stage = {}" using assms(1) by simp_all
  obtain ok st1 where s1: "stageCompensate code (sched (length completed)) stage c st = (ok, st1)" by fastforce
  have r1: "rollBackCompleted code sched c completed (length completed) (ok, st1) = (clean, st')"
    using assms(2) s1 by (simp add: rollBack_def)
  have t: "tracked eff code st (set ?past)" "tracked eff code st (set stage)"
    using assms(6) unfolding parts set_append tracked_Un by simp_all
  have dis: "\<forall>i \<in> set ?past. disciplined eff code i" "\<forall>i \<in> set stage. disciplined eff code i"
    using assms(5) unfolding parts by simp_all
  note own = compensate_states [OF d(2) s1 assms(4)]
  have e1: "effectsIn eff st1 - set stage = effectsIn eff st - set stage"
    and t1: "tracked eff code st1 (set stage)"
    using compensate_effects [OF d(2) s1 dis(2) t(2) assms(4)] by simp_all
  have same: "stateOf st1 i = stateOf st i" if "i \<in> set ?past" for i
  proof -
    have "i \<notin> set stage" using that d(3) by blast
    then show ?thesis using own by (simp add: stateOf_def)
  qed
  have left: "\<forall>i \<in> set (concat (take (length completed) completed)). stateOf st1 i = StepSucceeded"
    using assms(3) same by simp
  have "tracked eff code st1 (set ?past)" by (rule tracked_frame [OF t(1) e1 d(3) same])
  with rollback_effects [OF d(1) dis(1) _ r1 left]
  have e2: "effectsIn eff st' - set ?past = effectsIn eff st1 - set ?past"
    and t2: "tracked eff code st' (set ?past)" by simp_all
  have "stateOf st' i = stateOf st1 i" if "i \<in> set stage" for i
  proof -
    have "i \<notin> set ?past" using that d(3) by blast
    then show ?thesis using rollback_states [OF d(1) _ r1 left] by (simp add: stateOf_def)
  qed
  from tracked_frame [OF t1 e2 _ this] d(3) have "tracked eff code st' (set stage)" by blast
  with t2 diff_frames [OF e2 e1] show ?thesis unfolding parts set_append tracked_Un by blast
qed

section \<open>What an attempt does\<close>

text \<open>How an attempt ends, by the states of its steps.\<close>

definition lifecycle ::
  "('v, 'w) program \<Rightarrow> stage list \<Rightarrow> 'v sagaResult \<Rightarrow> ('v, 'w, 'k) sagaState \<Rightarrow> bool" where
  "lifecycle code stages res st \<longleftrightarrow>
    (if sr_Outcome res = OutcomeSucceeded
     then sr_FailedStageIndex res = -1 \<and> sr_CompensationFailures res = [] \<and>
       (\<forall>i \<in> set (concat stages). stateOf st i = StepSucceeded)
     else (\<exists>k < length stages. sr_FailedStageIndex res = int k \<and>
       (\<forall>i \<in> set (concat (take k stages)). stateOf st i \<in> {StepRolledBack, StepCompensationFailed}) \<and>
       (\<forall>i \<in> set (stages ! k). stateOf st i \<in> {StepFailed, StepRolledBack, StepCompensationFailed}) \<and>
       (\<exists>i \<in> set (stages ! k). stateOf st i = StepFailed \<and>
          sr_Failure res = stepResult (code i) (sg_steps st i) \<and> sr_FailureErr res = sv_err (sg_steps st i)) \<and>
       sr_CompensationFailures res =
         filter (\<lambda>i. stateOf st i = StepCompensationFailed) (concat (take (Suc k) stages)) \<and>
       (sr_Outcome res = OutcomeRolledBack \<longleftrightarrow> sr_CompensationFailures res = [])))"

lemma inStore_simps [simp]:
  "sg_steps (inStore store call st) = sg_steps st" "sg_shared (inStore store call st) = sg_shared st"
  "stateOf (inStore store call st) = stateOf st"
  by (simp_all add: inStore_def stateOf_def fun_eq_iff split: option.split)

lemma world_publish: "world (fold (\<lambda>i sc. publish (code i) (vars i) sc) stage sc) = world sc"
  by (induction stage arbitrary: sc) (auto simp: publish_def SetItem_def)

lemma stagePublish_simps [simp]:
  "sg_steps (stagePublish code stage st) = sg_steps st" "stateOf (stagePublish code stage st) = stateOf st"
  "world (sg_shared (stagePublish code stage st)) = world (sg_shared st)"
  by (simp_all add: stagePublish_def stateOf_def fun_eq_iff world_publish)

lemma collect_filter: "collectCompensationFailures st completed stage =
    filter (\<lambda>i. stateOf st i = StepCompensationFailed) (concat (completed @ [stage]))"
  by (simp add: collectCompensationFailures_def filter_concat)

lemma lifecycle_inStore [simp]: "lifecycle code stages res (inStore store call st) = lifecycle code stages res st"
  by (simp add: lifecycle_def)

lemma failed_lifecycle:
  fixes st :: "('v, 'w, 'k) sagaState"
  assumes "distinct (concat (completed @ [stage]))"
    and "rollBack code sched c completed stage st = (clean, st')"
    and "\<forall>i \<in> set (concat completed). stateOf st i = StepSucceeded"
    and "\<forall>i \<in> set stage. stateOf st i \<in> {StepSucceeded, StepFailed}"
    and "i \<in> set stage" "stateOf st i = StepFailed"
  shows "lifecycle code (completed @ stage # rest) (failureResult code clean completed stage st') st' \<and>
    sr_Outcome (failureResult code clean completed stage st') \<noteq> OutcomeSucceeded"
proof -
  note s = rollBack_states [OF assms(1-4)]
  have "stateOf st' i = StepFailed" using s assms(5,6) by metis
  then obtain f where f: "find (\<lambda>i. stateOf st' i = StepFailed) stage = Some f"
    using assms(5) by (cases "find (\<lambda>i. stateOf st' i = StepFailed) stage") (auto simp: find_None_iff)
  then have f': "f \<in> set stage" "stateOf st' f = StepFailed" by (auto simp: find_Some_iff)
  have "\<forall>i \<in> set stage. stateOf st' i \<in> {StepFailed, StepRolledBack, StepCompensationFailed}"
    using s assms(4) by (metis insert_iff)
  moreover have "clean \<longleftrightarrow> filter (\<lambda>i. stateOf st' i = StepCompensationFailed) (concat (completed @ [stage])) = []"
    using s unfolding filter_empty_conv by (simp add: ball_Un)
  moreover have "\<forall>i \<in> set (concat completed). stateOf st' i \<in> {StepRolledBack, StepCompensationFailed}"
    using s by (rule conjunct1)
  moreover have "take (length completed) (completed @ stage # rest) = completed"
    "take (Suc (length completed)) (completed @ stage # rest) = completed @ [stage]"
    "(completed @ stage # rest) ! length completed = stage"
    "length completed < length (completed @ stage # rest)" by simp_all
  ultimately show ?thesis
    using f f' unfolding lifecycle_def failureResult_def Let_def collect_filter
    by (cases clean; intro conjI; simp only: sagaResult.simps if_True if_False sagaOutcome.simps option.case
      simp_thms; intro exI [of _ "length completed"]) auto
qed

lemma runStages_lifecycle:
  "distinct (concat (completed @ rest)) \<Longrightarrow> \<forall>i \<in> set (concat completed). stateOf st i = StepSucceeded \<Longrightarrow>
    runStages code sched c store attempt sagaID rest completed st = (res, st') \<Longrightarrow>
    lifecycle code (completed @ rest) res st'"
proof (induction rest arbitrary: completed st)
  case Nil
  then show ?case by (auto simp: lifecycle_def succeededResult_def)
next
  case (Cons stage rest)
  have d: "distinct (concat (completed @ [stage]))" "distinct stage" "set (concat completed) \<inter> set stage = {}"
    using Cons.prems(1) by auto
  obtain ok st1 where s1: "stageExecute code (sched attempt (length completed) False) stage c st = (ok, st1)"
    by fastforce
  note own = execute_states [OF d(2) s1]
  have past: "\<forall>i \<in> set (concat completed). stateOf st1 i = StepSucceeded"
  proof
    fix i assume i: "i \<in> set (concat completed)"
    then have "i \<notin> set stage" using d(3) by blast
    then have "stateOf st1 i = stateOf st i" using own by (simp add: stateOf_def)
    then show "stateOf st1 i = StepSucceeded" using Cons.prems(2) i by metis
  qed
  show ?case
  proof (cases ok)
    case True
    then have all: "\<forall>i \<in> set (concat (completed @ [stage])). stateOf st1 i = StepSucceeded"
      using own past by auto
    let ?st3 = "inStore store (\<lambda>ops. RecordStageCompleted ops c sagaID attempt (int (length completed)))
      (stagePublish code stage st1)"
    have run: "runStages code sched c store attempt sagaID rest (completed @ [stage]) ?st3 = (res, st')"
      using Cons.prems(3) s1 True by (simp add: Let_def)
    have "lifecycle code ((completed @ [stage]) @ rest) res st'"
      by (rule Cons.IH [OF _ _ run]) (use Cons.prems(1) all in \<open>simp_all only:
        append_assoc append_Cons append_Nil inStore_simps stagePublish_simps\<close>)
    then show ?thesis by simp
  next
    case False
    obtain clean st2 where s2: "rollBack code (\<lambda>j. sched attempt j True) c completed stage st1 = (clean, st2)"
      by fastforce
    obtain i where "i \<in> set stage" "stateOf st1 i = StepFailed" using own False by auto
    from failed_lifecycle [OF d(1) s2 past _ this] own
    have "lifecycle code (completed @ stage # rest) (failureResult code clean completed stage st2) st2" by simp
    then show ?thesis using Cons.prems(3) s1 s2 False by (auto simp: Let_def)
  qed
qed

text \<open>The effects an attempt leaves: of every step, of none, or of the compensations that failed.\<close>

definition settled :: "('v, 'w) program \<Rightarrow> stage list \<Rightarrow> 'v sagaResult \<Rightarrow> nat set" where
  "settled code stages res = (case sr_Outcome res of
      OutcomeSucceeded \<Rightarrow> {i \<in> set (concat stages). compensateFn (code i) \<noteq> None}
    | OutcomeRolledBack \<Rightarrow> {}
    | OutcomePartiallyRolledBack \<Rightarrow> set (sr_CompensationFailures res))"

lemma effectsIn_simps [simp]:
  "effectsIn eff (inStore store call st) = effectsIn eff st"
  "effectsIn eff (stagePublish code stage st) = effectsIn eff st"
  "effectsIn eff (st\<lparr>sg_shared := (sg_shared st)\<lparr>items := xs\<rparr>\<rparr>) = effectsIn eff st"
  "effectsIn eff (st\<lparr>sg_shared := (sg_shared st)\<lparr>sclock := t\<rparr>\<rparr>) = effectsIn eff st"
  by (simp_all add: effectsIn_def)

lemma tracked_simps [simp]:
  "tracked eff code (inStore store call st) S = tracked eff code st S"
  "tracked eff code (stagePublish code stage st) S = tracked eff code st S"
  by (simp_all add: tracked_def standing_def)

lemma failed_effects:
  fixes st :: "('v, 'w, 'k) sagaState"
  assumes "distinct (concat (completed @ [stage]))"
    and s2: "rollBack code sched c completed stage st = (clean, st')"
    and "\<forall>i \<in> set (concat completed). stateOf st i = StepSucceeded"
    and "\<forall>i \<in> set stage. stateOf st i \<in> {StepSucceeded, StepFailed}"
    and "\<forall>i \<in> set (concat (completed @ [stage])). disciplined eff code i"
    and "tracked eff code st (set (concat (completed @ [stage])))"
    and "effectsIn eff st - set (concat (completed @ [stage])) = B"
    and "B \<inter> set (concat (completed @ [stage])) = {}"
  shows "effectsIn eff st' = B \<union> settled code stages (failureResult code clean completed stage st')"
proof -
  let ?S = "set (concat (completed @ [stage]))"
  note s = rollBack_states [OF assms(1-4)]
  note e = rollBack_effects [OF assms(1-6)]
  have CF: "standing code st' i \<longleftrightarrow> stateOf st' i = StepCompensationFailed" if "i \<in> ?S" for i
  proof (cases "i \<in> set stage")
    case True
    from bspec [OF s [THEN conjunct2, THEN conjunct1] this] show ?thesis
      by (auto simp: standing_def split: if_splits)
  next
    case False
    then have "i \<in> set (concat completed)" using that by simp
    from bspec [OF s [THEN conjunct1] this] show ?thesis by (auto simp: standing_def)
  qed
  have "effectsIn eff st' = B \<union> (effectsIn eff st' \<inter> ?S)" using e assms(7) by blast
  also have "effectsIn eff st' \<inter> ?S = {i \<in> ?S. stateOf st' i = StepCompensationFailed}"
    using e CF unfolding tracked_def by blast
  finally have all: "effectsIn eff st' = B \<union> {i \<in> ?S. stateOf st' i = StepCompensationFailed}" .
  have S: "?S = set (concat completed) \<union> set stage" by simp
  have "clean \<longleftrightarrow> {i \<in> ?S. stateOf st' i = StepCompensationFailed} = {}"
    unfolding S s [THEN conjunct2, THEN conjunct2, THEN conjunct1] by blast
  then show ?thesis
    unfolding all by (simp add: settled_def failureResult_def Let_def collect_filter split: if_splits) auto
qed

lemma runStages_effects:
  "distinct (concat (completed @ rest)) \<Longrightarrow> \<forall>i \<in> set (concat completed). stateOf st i = StepSucceeded \<Longrightarrow>
    \<forall>i \<in> set (concat (completed @ rest)). disciplined eff code i \<Longrightarrow>
    tracked eff code st (set (concat completed)) \<Longrightarrow> effectsIn eff st - set (concat completed) = B \<Longrightarrow>
    B \<inter> set (concat (completed @ rest)) = {} \<Longrightarrow>
    runStages code sched c store attempt sagaID rest completed st = (res, st') \<Longrightarrow>
    effectsIn eff st' = B \<union> settled code (completed @ rest) res"
proof (induction rest arbitrary: completed st)
  case Nil
  have "effectsIn eff st = B \<union> (effectsIn eff st \<inter> set (concat completed))" using Nil.prems(5) by blast
  moreover have "effectsIn eff st \<inter> set (concat completed) =
      {i \<in> set (concat completed). compensateFn (code i) \<noteq> None}"
    using Nil.prems(2,4) unfolding tracked_def standing_def by fastforce
  ultimately show ?case
    using Nil.prems(7) by (auto simp: settled_def succeededResult_def)
next
  case (Cons stage rest)
  let ?P = "set (concat completed)"
  have d: "distinct (concat (completed @ [stage]))" "distinct stage" "?P \<inter> set stage = {}"
    using Cons.prems(1) by auto
  have parts: "set (concat (completed @ [stage])) = ?P \<union> set stage" by simp
  obtain ok st1 where s1: "stageExecute code (sched attempt (length completed) False) stage c st = (ok, st1)"
    by fastforce
  note own = execute_states [OF d(2) s1]
  have same: "stateOf st1 i = stateOf st i" if "i \<in> ?P" for i
  proof -
    have "i \<notin> set stage" using that d(3) by blast
    then show ?thesis using own by (simp add: stateOf_def)
  qed
  have past: "\<forall>i \<in> ?P. stateOf st1 i = StepSucceeded" using Cons.prems(2) same by simp
  have "set stage \<inter> B = {}" using Cons.prems(6) by auto
  then have free: "effectsIn eff st \<inter> set stage = {}" using Cons.prems(5) d(3) by blast
  have "\<forall>i \<in> set stage. disciplined eff code i" using Cons.prems(3) by simp
  note e = execute_effects [OF d(2) s1 this free]
  have "effectsIn eff st1 - set stage = effectsIn eff st - set stage" using e free by blast
  from tracked_frame [OF Cons.prems(4) this d(3) same]
  have t: "tracked eff code st1 (set (concat (completed @ [stage])))" using e unfolding parts tracked_Un by blast
  have B: "effectsIn eff st1 - set (concat (completed @ [stage])) = B"
    unfolding parts using e Cons.prems(5) free by blast
  show ?case
  proof (cases ok)
    case True
    then have all: "\<forall>i \<in> set (concat (completed @ [stage])). stateOf st1 i = StepSucceeded"
      using own past by auto
    let ?st3 = "inStore store (\<lambda>ops. RecordStageCompleted ops c sagaID attempt (int (length completed)))
      (stagePublish code stage st1)"
    have run: "runStages code sched c store attempt sagaID rest (completed @ [stage]) ?st3 = (res, st')"
      using Cons.prems(7) s1 True by (simp add: Let_def)
    have "effectsIn eff st' = B \<union> settled code ((completed @ [stage]) @ rest) res"
      by (rule Cons.IH [OF _ _ _ _ _ _ run]) (use Cons.prems(1,3,6) t B all in \<open>simp_all only:
        append_assoc append_Cons append_Nil inStore_simps stagePublish_simps effectsIn_simps tracked_simps\<close>)
    then show ?thesis by simp
  next
    case False
    obtain clean st2 where s2: "rollBack code (\<lambda>j. sched attempt j True) c completed stage st1 = (clean, st2)"
      by fastforce
    have "\<forall>i \<in> set (concat (completed @ [stage])). disciplined eff code i" using Cons.prems(3) by auto
    moreover have "B \<inter> set (concat (completed @ [stage])) = {}" using Cons.prems(6) by auto
    ultimately have "effectsIn eff st2 = B \<union> settled code (completed @ stage # rest)
        (failureResult code clean completed stage st2)"
      using failed_effects [OF d(1) s2 past _ _ t B] own by blast
    moreover have "res = failureResult code clean completed stage st2"
      "effectsIn eff st' = effectsIn eff st2"
      using Cons.prems(7) s1 s2 False by (auto simp: Let_def)
    ultimately show ?thesis by simp
  qed
qed

lemma runOnce_lifecycle:
  assumes "distinct (concat stages)"
    and "runOnce code sched stages c opts attempt sagaID st = (res, st')"
  shows "lifecycle code stages res st'"
proof -
  obtain u where run: "runStages code sched c (ro_StateStore opts) attempt sagaID stages [] u = (res, st')"
    using assms(2) by (auto simp: runOnce_def Let_def)
  show ?thesis using runStages_lifecycle [OF _ _ run] assms(1) by simp
qed

lemma runOnce_effects:
  assumes "distinct (concat stages)" and "\<forall>i \<in> set (concat stages). disciplined eff code i"
    and "effectsIn eff st \<inter> set (concat stages) = {}"
    and "runOnce code sched stages c opts attempt sagaID st = (res, st')"
  shows "effectsIn eff st' = effectsIn eff st \<union> settled code stages res"
proof -
  obtain u where run: "runStages code sched c (ro_StateStore opts) attempt sagaID stages [] u = (res, st')"
    and u: "effectsIn eff u = effectsIn eff st"
    using assms(4) by (auto simp: runOnce_def Let_def effectsIn_def)
  show ?thesis
    using runStages_effects [OF _ _ _ _ _ _ run, of eff "effectsIn eff st"] assms(1-3) u
    by (simp add: tracked_def)
qed

section \<open>Attempts\<close>

text \<open>What follows an attempt is its result, or the next attempt at some later instant.\<close>

lemma attemptLoop_stops:
  assumes "runOnce code sched stages c opts attempt sagaID st = (res, st1)"
    and "sr_Outcome res \<noteq> OutcomeRolledBack \<or> limit \<le> attempt"
  shows "attemptLoop scale code sched stages c opts sagaID limit attempt delay st = (res, st1)"
  using assms by (subst attemptLoop.simps) auto

lemma attemptLoop_again:
  assumes "runOnce code sched stages c opts attempt sagaID st = (res, st1)"
    and "sr_Outcome res = OutcomeRolledBack" and "attempt < limit"
  shows "\<exists>delay' t. attemptLoop scale code sched stages c opts sagaID limit attempt delay st =
    attemptLoop scale code sched stages c opts sagaID limit (attempt + 1) delay'
      (st1\<lparr>sg_shared := (sg_shared st1)\<lparr>sclock := t\<rparr>\<rparr>)"
proof -
  have same: "st1 = st1\<lparr>sg_shared := (sg_shared st1)\<lparr>sclock := sclock (sg_shared st1)\<rparr>\<rparr>" by simp
  have step: "attemptLoop scale code sched stages c opts sagaID limit attempt delay st =
    (case ro_RetryPolicy opts of
        Some p \<Rightarrow> if delay > 0
          then attemptLoop scale code sched stages c opts sagaID limit (attempt + 1)
            (scale delay (sagaBackoffFactor p))
            (st1\<lparr>sg_shared := (sg_shared st1)\<lparr>sclock := policySleep p c delay (sclock (sg_shared st1))\<rparr>\<rparr>)
          else attemptLoop scale code sched stages c opts sagaID limit (attempt + 1) delay st1
      | None \<Rightarrow> attemptLoop scale code sched stages c opts sagaID limit (attempt + 1) delay st1)"
    using assms by (subst attemptLoop.simps) auto
  show ?thesis
  proof (cases "\<exists>p. ro_RetryPolicy opts = Some p \<and> delay > 0")
    case True
    with step show ?thesis by fastforce
  next
    case False
    then have "attemptLoop scale code sched stages c opts sagaID limit attempt delay st =
        attemptLoop scale code sched stages c opts sagaID limit (attempt + 1) delay st1"
      using step by (auto split: option.split)
    with same show ?thesis by metis
  qed
qed

text \<open>What holds at the start of each attempt holds at the start of the last one.\<close>

lemma attemptLoop_last:
  assumes keeps: "\<And>a u r u'. I u \<Longrightarrow> runOnce code sched stages c opts a sagaID u = (r, u') \<Longrightarrow>
      sr_Outcome r = OutcomeRolledBack \<Longrightarrow> I u'"
    and clock: "\<And>u t. I u \<Longrightarrow> I (u\<lparr>sg_shared := (sg_shared u)\<lparr>sclock := t\<rparr>\<rparr>)"
  shows "I st \<Longrightarrow> \<exists>a u. I u \<and> runOnce code sched stages c opts a sagaID u =
    attemptLoop scale code sched stages c opts sagaID limit attempt delay st"
proof (induction "nat (limit - attempt)" arbitrary: attempt delay st)
  case (0 attempt delay st)
  obtain r u where run: "runOnce code sched stages c opts attempt sagaID st = (r, u)" by fastforce
  from 0 have "limit \<le> attempt" by simp
  with attemptLoop_stops [OF run, of limit scale delay] run 0(2) show ?case by metis
next
  case (Suc m attempt delay st)
  then have lt: "attempt < limit" by simp
  obtain r u where run: "runOnce code sched stages c opts attempt sagaID st = (r, u)" by fastforce
  show ?case
  proof (cases "sr_Outcome r = OutcomeRolledBack")
    case False
    with attemptLoop_stops [OF run, of limit scale delay] run Suc.prems show ?thesis by metis
  next
    case True
    obtain delay' t where again: "attemptLoop scale code sched stages c opts sagaID limit attempt delay st =
      attemptLoop scale code sched stages c opts sagaID limit (attempt + 1) delay'
        (u\<lparr>sg_shared := (sg_shared u)\<lparr>sclock := t\<rparr>\<rparr>)"
      using attemptLoop_again [OF run True lt] by blast
    have "m = nat (limit - (attempt + 1))" using Suc.hyps(2) lt by simp
    from Suc.hyps(1) [OF this clock [OF keeps [OF Suc.prems run True]]] again show ?thesis by metis
  qed
qed

section \<open>What a state store promises\<close>

definition startedEvent :: "string \<Rightarrow> int \<Rightarrow> 'v stateEvent" where
  "startedEvent sagaID attempt = \<lparr>ev_SagaID = sagaID, ev_Attempt = attempt, ev_Kind = EventStarted,
     ev_StageIndex = -1, ev_Result = None\<rparr>"

definition stageEvent :: "string \<Rightarrow> int \<Rightarrow> int \<Rightarrow> 'v stateEvent" where
  "stageEvent sagaID attempt i = \<lparr>ev_SagaID = sagaID, ev_Attempt = attempt, ev_Kind = EventStageCompleted,
     ev_StageIndex = i, ev_Result = None\<rparr>"

definition finishedEvent :: "string \<Rightarrow> int \<Rightarrow> 'v sagaResult \<Rightarrow> 'v stateEvent" where
  "finishedEvent sagaID attempt res = \<lparr>ev_SagaID = sagaID, ev_Attempt = attempt, ev_Kind = EventFinished,
     ev_StageIndex = -1, ev_Result = Some res\<rparr>"

text \<open>The events of an attempt that completed so many stages, and of a run's attempts in turn.\<close>

definition reached :: "stage list \<Rightarrow> 'v sagaResult \<Rightarrow> nat" where
  "reached stages res = (if sr_Outcome res = OutcomeSucceeded then length stages
     else nat (sr_FailedStageIndex res))"

definition attemptEvents :: "string \<Rightarrow> int \<Rightarrow> stage list \<Rightarrow> 'v sagaResult \<Rightarrow> 'v stateEvent list" where
  "attemptEvents sagaID attempt stages res = startedEvent sagaID attempt #
     map (\<lambda>i. stageEvent sagaID attempt (int i)) [0..<reached stages res] @ [finishedEvent sagaID attempt res]"

fun runEvents :: "string \<Rightarrow> stage list \<Rightarrow> int \<Rightarrow> 'v sagaResult list \<Rightarrow> 'v stateEvent list" where
  "runEvents sagaID stages attempt [] = []"
| "runEvents sagaID stages attempt (res # rs) =
     attemptEvents sagaID attempt stages res @ runEvents sagaID stages (attempt + 1) rs"

text \<open>Whatever a store does with its events, it keeps them all, in the order in which it gets them.\<close>

locale state_store =
  fixes ops :: "('v, 'k) stateStore"
    and recorded :: "'k \<Rightarrow> 'v stateEvent list"
  assumes started: "recorded (RecordStarted ops c run k) =
      recorded k @ [startedEvent (ri_SagaID run) (ri_Attempt run)]"
    and stage_completed: "recorded (RecordStageCompleted ops c sagaID attempt i k) =
      recorded k @ [stageEvent sagaID attempt i]"
    and finished: "recorded (RecordFinished ops c sagaID attempt res k) =
      recorded k @ [finishedEvent sagaID attempt res]"
begin

lemma stage_store:
  "stageExecute code sched stage c st = (ok, st1) \<Longrightarrow> sg_store st1 = sg_store st"
  "stageCompensate code sched stage c st = (ok, st1) \<Longrightarrow> sg_store st1 = sg_store st"
  by (auto simp: stageExecute_def stageCompensate_def Let_def split: prod.splits)

lemma rollback_store:
  "rollBackCompleted code sched c completed j (clean, st) = (clean', st') \<Longrightarrow> sg_store st' = sg_store st"
  by (induction j arbitrary: clean st) (auto split: prod.splits dest: stage_store)

lemma rollBack_store: "rollBack code sched c completed stage st = (clean, st') \<Longrightarrow> sg_store st' = sg_store st"
  unfolding rollBack_def by (metis prod.collapse rollback_store stage_store(2))

lemma stages_recorded:
  "runStages code sched c (Some ops) attempt sagaID rest completed st = (res, st') \<Longrightarrow>
    length completed \<le> reached (completed @ rest) res \<and>
    recorded (sg_store st') = recorded (sg_store st) @
      map (\<lambda>i. stageEvent sagaID attempt (int i)) [length completed..<reached (completed @ rest) res] @
      [finishedEvent sagaID attempt res]"
proof (induction rest arbitrary: completed st)
  case Nil
  then show ?case by (auto simp: reached_def succeededResult_def inStore_def finished)
next
  case (Cons stage rest)
  obtain ok st1 where s1: "stageExecute code (sched attempt (length completed) False) stage c st = (ok, st1)"
    by fastforce
  show ?case
  proof (cases ok)
    case True
    let ?st3 = "inStore (Some ops) (\<lambda>ops. RecordStageCompleted ops c sagaID attempt (int (length completed)))
      (stagePublish code stage st1)"
    have "runStages code sched c (Some ops) attempt sagaID rest (completed @ [stage]) ?st3 = (res, st')"
      using Cons.prems s1 True by (simp add: Let_def)
    from Cons.IH [OF this] have ih: "Suc (length completed) \<le> reached (completed @ stage # rest) res"
      "recorded (sg_store st') = recorded (sg_store ?st3) @
        map (\<lambda>i. stageEvent sagaID attempt (int i)) [Suc (length completed)..<reached (completed @ stage # rest) res] @
        [finishedEvent sagaID attempt res]" by simp_all
    moreover have "recorded (sg_store ?st3) = recorded (sg_store st) @ [stageEvent sagaID attempt (int (length completed))]"
      using stage_store(1) [OF s1] by (simp add: inStore_def stage_completed stagePublish_def)
    ultimately show ?thesis by (simp add: upt_conv_Cons)
  next
    case False
    obtain clean st2 where s2: "rollBack code (\<lambda>j. sched attempt j True) c completed stage st1 = (clean, st2)"
      by fastforce
    have res: "res = failureResult code clean completed stage st2"
      and st': "st' = inStore (Some ops) (\<lambda>ops. RecordFinished ops c sagaID attempt res) st2"
      using Cons.prems s1 s2 False by (auto simp: Let_def)
    have "reached (completed @ stage # rest) res = length completed"
      by (simp add: res reached_def failureResult_def Let_def)
    then show ?thesis
      using stage_store(1) [OF s1] rollBack_store [OF s2] by (simp add: st' inStore_def finished)
  qed
qed

lemma attempt_recorded:
  assumes "runOnce code sched stages c opts attempt sagaID st = (res, st')" and "ro_StateStore opts = Some ops"
  shows "recorded (sg_store st') = recorded (sg_store st) @ attemptEvents sagaID attempt stages res"
proof -
  let ?u = "inStore (Some ops) (\<lambda>ops. RecordStarted ops c \<lparr>ri_SagaID = sagaID, ri_Name = ro_Name opts,
    ri_Attempt = attempt, ri_StageCount = length stages\<rparr>) st"
  have "runStages code sched c (Some ops) attempt sagaID stages []
      (?u\<lparr>sg_shared := (sg_shared ?u)\<lparr>items := []\<rparr>\<rparr>) = (res, st')"
    using assms by (simp add: runOnce_def Let_def)
  from stages_recorded [OF this] show ?thesis
    by (simp add: inStore_def started attemptEvents_def)
qed

lemma attempts_recorded:
  assumes "ro_StateStore opts = Some ops"
  shows "attempt \<le> limit \<Longrightarrow> attemptLoop scale code sched stages c opts sagaID limit attempt delay st = (res, st') \<Longrightarrow>
    \<exists>rs. rs \<noteq> [] \<and> last rs = res \<and> int (length rs) \<le> limit - attempt + 1 \<and>
      (\<forall>r \<in> set (butlast rs). sr_Outcome r = OutcomeRolledBack) \<and>
      (sr_Outcome res = OutcomeRolledBack \<longrightarrow> int (length rs) = limit - attempt + 1) \<and>
      recorded (sg_store st') = recorded (sg_store st) @ runEvents sagaID stages attempt rs"
proof (induction "nat (limit - attempt)" arbitrary: attempt delay st)
  case (0 attempt delay st)
  then have "attempt = limit" by simp
  then have "runOnce code sched stages c opts attempt sagaID st = (res, st')"
    using 0(3) attemptLoop_stops [of code sched stages c opts attempt sagaID st _ _ limit scale delay]
    by (metis order_refl prod.collapse)
  from attempt_recorded [OF this assms] \<open>attempt = limit\<close> show ?case
    by (intro exI [of _ "[res]"]) simp
next
  case (Suc m attempt delay st)
  then have lt: "attempt < limit" by simp
  obtain r1 st1 where run: "runOnce code sched stages c opts attempt sagaID st = (r1, st1)" by fastforce
  note here = attempt_recorded [OF run assms]
  show ?case
  proof (cases "sr_Outcome r1 = OutcomeRolledBack")
    case False
    then have "res = r1" "st' = st1"
      using Suc.prems(2) attemptLoop_stops [OF run, of limit scale delay] by auto
    with here lt False show ?thesis by (intro exI [of _ "[res]"]) simp
  next
    case True
    obtain delay' t where again: "attemptLoop scale code sched stages c opts sagaID limit attempt delay st =
      attemptLoop scale code sched stages c opts sagaID limit (attempt + 1) delay'
        (st1\<lparr>sg_shared := (sg_shared st1)\<lparr>sclock := t\<rparr>\<rparr>)"
      using attemptLoop_again [OF run True lt] by blast
    define u where "u = st1\<lparr>sg_shared := (sg_shared st1)\<lparr>sclock := t\<rparr>\<rparr>"
    have "sg_store u = sg_store st1"
      and "attemptLoop scale code sched stages c opts sagaID limit (attempt + 1) delay' u = (res, st')"
      using Suc.prems(2) again by (simp_all add: u_def)
    moreover have "m = nat (limit - (attempt + 1))" "attempt + 1 \<le> limit" using Suc.hyps(2) lt by simp_all
    ultimately obtain rs where rs: "rs \<noteq> []" "last rs = res" "int (length rs) \<le> limit - attempt"
      "\<forall>r \<in> set (butlast rs). sr_Outcome r = OutcomeRolledBack"
      "sr_Outcome res = OutcomeRolledBack \<longrightarrow> int (length rs) = limit - attempt"
      "recorded (sg_store st') = recorded (sg_store st1) @ runEvents sagaID stages (attempt + 1) rs"
      using Suc.hyps(1) [of "attempt + 1" delay' u] by auto
    with here True show ?thesis by (intro exI [of _ "r1 # rs"]) simp
  qed
qed

end

text \<open>The in-memory store keeps its promise.\<close>

definition inMemoryOps :: "('v, 'v inMemoryStateStore) stateStore" where
  "inMemoryOps = \<lparr>RecordStarted = InMemory_RecordStarted,
     RecordStageCompleted = InMemory_RecordStageCompleted, RecordFinished = InMemory_RecordFinished\<rparr>"

interpretation progress: state_store inMemoryOps Events
  by unfold_locales (simp_all add: inMemoryOps_def Events_def addEvent_def startedEvent_def stageEvent_def
    finishedEvent_def InMemory_RecordStarted_def InMemory_RecordStageCompleted_def InMemory_RecordFinished_def)

text \<open>A run ends with some attempt, at whose start everything holds that attempts keep.\<close>

lemma RunWith_last:
  fixes st :: "('v, 'w, 'k) sagaState"
  assumes "\<And>(opts' :: ('v, 'k) runOptions) a sagaID u r u'. I u \<Longrightarrow>
      runOnce code sched stages c opts' a sagaID u = (r, u') \<Longrightarrow> sr_Outcome r = OutcomeRolledBack \<Longrightarrow> I u'"
    and "\<And>u t. I u \<Longrightarrow> I (u\<lparr>sg_shared := (sg_shared u)\<lparr>sclock := t\<rparr>\<rparr>)"
    and "I st" and "RunWith scale freshID code sched stages c opts st = (res, st')"
  obtains opts' a sagaID u where "I u" "runOnce code sched stages c opts' a sagaID u = (res, st')"
proof -
  obtain opts' sagaID limit delay where
    loop: "attemptLoop scale code sched stages c opts' sagaID limit 1 delay st = (res, st')"
    using assms(4) unfolding RunWith_def Let_def by blast
  have "\<exists>a u. I u \<and> runOnce code sched stages c opts' a sagaID u =
      attemptLoop scale code sched stages c opts' sagaID limit 1 delay st"
    by (rule attemptLoop_last [where I = I, OF assms(1,2,3)])
  with loop that show thesis by auto
qed

section \<open>Properties\<close>

text \<open>C6 (safety). A saga is all or nothing, whatever the goroutines of its stages interleave and
  however often it is retried. If its steps are distinct and disciplined (forward creates the step's
  effect exactly when it succeeds, the compensation removes it exactly when it succeeds) and none
  of their effects exists beforehand, then afterwards: on success the effects of all steps
  exist, after a rollback none does, and after a partial rollback exactly those of the reported
  compensation failures, of which there is at least one. Other effects are as they were.\<close>

theorem saga_all_or_nothing:
  fixes st :: "('v, 'w, 'k) sagaState" and scale :: "int \<Rightarrow> rat \<Rightarrow> int" and sched :: schedules
  assumes "distinct (concat stages)" and "\<forall>i \<in> set (concat stages). disciplined eff code i"
    and "effectsIn eff st \<inter> set (concat stages) = {}"
    and "RunWith scale freshID code sched stages c opts st = (res, st')"
  shows "case sr_Outcome res of
      OutcomeSucceeded \<Rightarrow>
        effectsIn eff st' = effectsIn eff st \<union> {i \<in> set (concat stages). compensateFn (code i) \<noteq> None}
    | OutcomeRolledBack \<Rightarrow> effectsIn eff st' = effectsIn eff st
    | OutcomePartiallyRolledBack \<Rightarrow> sr_CompensationFailures res \<noteq> [] \<and>
        effectsIn eff st' = effectsIn eff st \<union> set (sr_CompensationFailures res)"
proof -
  have keeps: "effectsIn eff u' = effectsIn eff st"
    if "effectsIn eff u = effectsIn eff st" "runOnce code sched stages c opts' a sagaID u = (r, u')"
      "sr_Outcome r = OutcomeRolledBack" for opts' :: "('v, 'k) runOptions" and a sagaID u r u'
    using runOnce_effects [OF assms(1,2) _ that(2)] assms(3) that(1,3) by (simp add: settled_def)
  obtain opts' a sagaID u where u: "effectsIn eff u = effectsIn eff st"
    and run: "runOnce code sched stages c opts' a sagaID u = (res, st')"
    by (rule RunWith_last [where I = "\<lambda>u. effectsIn eff u = effectsIn eff st", OF keeps _ refl assms(4)]) auto
  have "effectsIn eff st' = effectsIn eff st \<union> settled code stages res"
    using runOnce_effects [OF assms(1,2) _ run] assms(3) u by simp
  moreover have "sr_CompensationFailures res \<noteq> []" if "sr_Outcome res = OutcomePartiallyRolledBack"
    using runOnce_lifecycle [OF assms(1) run] that by (auto simp: lifecycle_def)
  ultimately show ?thesis by (auto simp: settled_def split: sagaOutcome.split)
qed

text \<open>A booking that creates its record and can remove it, and a payment that is refused.\<close>

definition bookAndPay :: "(nat, nat set) program" where
  "bookAndPay i = (if i = 0
     then NewStep ''Booking'' NilAny
       (\<lambda>c. Acts (\<lambda>sh. sh\<lparr>world := insert 0 (world sh)\<rparr>) (\<lambda>sh. Finishes (Return (resultOf StatusOk))))
       (Some (\<lambda>c p. Acts (\<lambda>sh. sh\<lparr>world := world sh - {0}\<rparr>) (\<lambda>sh. Finishes (Return (resultOf StatusOk)))))
     else NewStep ''Payment'' NilAny (\<lambda>c. Finishes (Return (failed StatusConflict []))) None)"

definition atRest :: "(nat, nat set, nat inMemoryStateStore) sagaState" where
  "atRest = \<lparr>sg_shared = \<lparr>items = [], sclock = 0, world = {7}\<rparr>, sg_steps = (\<lambda>i. newVars),
     sg_store = NewInMemoryStateStore\<rparr>"

definition recordedOnce :: "(nat, nat inMemoryStateStore) runOptions" where
  "recordedOnce = \<lparr>ro_SagaID = ''b1'', ro_Name = '''', ro_StateStore = Some inMemoryOps,
     ro_RetryPolicy = Some \<lparr>rp_MaxAttempts = 2, rp_InitialDelay = 0, rp_BackoffFactor = 0, rp_sleepFn = None\<rparr>\<rparr>"

lemma bookAndPay_disciplined: "disciplined (\<lambda>w. w) bookAndPay i"
  by (auto simp: disciplined_def bookAndPay_def NewStep_def succeeds_def IsFailure_iff)

lemma bookAndPay_attempt:
  fixes st :: "(nat, nat set, 'k) sagaState"
  shows "sr_Outcome (fst (runOnce bookAndPay (\<lambda>a i b. []) [[0], [1]] c opts a sagaID st)) = OutcomeRolledBack \<and>
    sr_FailedStageIndex (fst (runOnce bookAndPay (\<lambda>a i b. []) [[0], [1]] c opts a sagaID st)) = 1"
  by (simp add: runOnce_def Let_def stageExecute_def bookAndPay_def NewStep_def stateOf_def State_def
      orPending_def executed_def IsFailure_iff rollBack_def stageCompensate_def compensation_def
      compensated_def failureResult_def stagePublish_def publish_def)

lemma bookAndPay_rolls_back:
  "sr_Outcome (fst (RunWith scale freshID bookAndPay (\<lambda>a i b. []) [[0], [1]] c recordedOnce st)) =
    OutcomeRolledBack \<and>
   sr_FailedStageIndex (fst (RunWith scale freshID bookAndPay (\<lambda>a i b. []) [[0], [1]] c recordedOnce st)) = 1"
proof -
  obtain opts' :: "(nat, nat inMemoryStateStore) runOptions" and a sagaID u where
    "runOnce bookAndPay (\<lambda>a i b. []) [[0], [1]] c opts' a sagaID u =
      RunWith scale freshID bookAndPay (\<lambda>a i b. []) [[0], [1]] c recordedOnce st"
    by (rule RunWith_last [where I = "\<lambda>u. True", OF _ _ _ prod.collapse [symmetric]]) auto
  then show ?thesis using bookAndPay_attempt [of c opts' a sagaID u] by simp
qed

theorem saga_all_or_nothing_witness:
  "world (sg_shared (snd (RunWith (\<lambda>d f. d) ''id'' bookAndPay (\<lambda>a i b. []) [[0], [1]] background
     recordedOnce atRest))) = {7}"
proof -
  have "effectsIn (\<lambda>w. w) atRest \<inter> set (concat [[0], [1]]) = {}"
    by (simp add: effectsIn_def atRest_def)
  from saga_all_or_nothing [OF _ _ this prod.collapse [symmetric], of bookAndPay "\<lambda>d f. d" "''id''" "\<lambda>a i b. []"
      background recordedOnce]
  show ?thesis
    using bookAndPay_rolls_back [of "\<lambda>d f. d" "''id''" background atRest] bookAndPay_disciplined
    by (simp add: effectsIn_def atRest_def)
qed

text \<open>C7 (functional). What a saga reports is what happened to its steps. On success every step has
  succeeded. Otherwise the reported stage is the one that failed: every step of an earlier stage was
  compensated, its own steps failed or were compensated, the reported failure is that of one of
  its failed steps, the reported compensation failures are exactly the steps whose compensation
  failed, in the order of the stages, and the rollback is called clean exactly when there is none.\<close>

theorem saga_reports_its_steps:
  fixes st :: "('v, 'w, 'k) sagaState" and scale :: "int \<Rightarrow> rat \<Rightarrow> int" and sched :: schedules
  assumes "distinct (concat stages)"
    and "RunWith scale freshID code sched stages c opts st = (res, st')"
  shows "if sr_Outcome res = OutcomeSucceeded
     then sr_FailedStageIndex res = -1 \<and> sr_CompensationFailures res = [] \<and>
       (\<forall>i \<in> set (concat stages). stateOf st' i = StepSucceeded)
     else (\<exists>k < length stages. sr_FailedStageIndex res = int k \<and>
       (\<forall>i \<in> set (concat (take k stages)). stateOf st' i \<in> {StepRolledBack, StepCompensationFailed}) \<and>
       (\<forall>i \<in> set (stages ! k). stateOf st' i \<in> {StepFailed, StepRolledBack, StepCompensationFailed}) \<and>
       (\<exists>i \<in> set (stages ! k). stateOf st' i = StepFailed \<and>
          sr_Failure res = stepResult (code i) (sg_steps st' i) \<and> sr_FailureErr res = sv_err (sg_steps st' i)) \<and>
       sr_CompensationFailures res =
         filter (\<lambda>i. stateOf st' i = StepCompensationFailed) (concat (take (Suc k) stages)) \<and>
       (sr_Outcome res = OutcomeRolledBack \<longleftrightarrow> sr_CompensationFailures res = []))"
proof -
  obtain opts' a sagaID u where "runOnce code sched stages c opts' a sagaID u = (res, st')"
    by (rule RunWith_last [where I = "\<lambda>u. True", OF _ _ _ assms(2)]) auto
  from runOnce_lifecycle [OF assms(1) this] show ?thesis by (simp only: lifecycle_def)
qed

theorem saga_reports_its_steps_witness:
  "stateOf (snd (RunWith (\<lambda>d f. d) ''id'' bookAndPay (\<lambda>a i b. []) [[0], [1]] background recordedOnce atRest)) 1 =
    StepFailed"
proof -
  have "distinct (concat [[0 :: nat], [1]])" by simp
  from saga_reports_its_steps [OF this prod.collapse [symmetric], of "\<lambda>d f. d" "''id''" bookAndPay "\<lambda>a i b. []"
      background recordedOnce atRest]
  show ?thesis
    using bookAndPay_rolls_back [of "\<lambda>d f. d" "''id''" background atRest] by auto
qed

text \<open>C8 (termination). A run always ends, after at most the attempts of its policy: only an attempt
  that rolled back cleanly is followed by another, and the last one did not, or was the last allowed.
  The in-memory store then holds, after what it held before and under one id, the events of each
  attempt in turn: started, each completed stage in order, finished with the attempt's result.\<close>

theorem saga_attempts_recorded:
  fixes st :: "('v, 'w, 'v inMemoryStateStore) sagaState"
  assumes "ro_StateStore opts = Some inMemoryOps"
    and "RunWith scale freshID code sched stages c opts st = (res, st')"
  shows "\<exists>rs. rs \<noteq> [] \<and> last rs = res \<and>
    int (length rs) \<le> (case ro_RetryPolicy opts of None \<Rightarrow> 1 | Some p \<Rightarrow> max 1 (rp_MaxAttempts p)) \<and>
    (\<forall>r \<in> set (butlast rs). sr_Outcome r = OutcomeRolledBack) \<and>
    (sr_Outcome res = OutcomeRolledBack \<longrightarrow> int (length rs) =
       (case ro_RetryPolicy opts of None \<Rightarrow> 1 | Some p \<Rightarrow> max 1 (rp_MaxAttempts p))) \<and>
    Events (sg_store st') = Events (sg_store st) @
      runEvents (if ro_SagaID opts = '''' then freshID else ro_SagaID opts) stages 1 rs"
proof -
  let ?opts = "if ro_Name opts = '''' then opts\<lparr>ro_Name := ''saga''\<rparr> else opts"
  have opts: "ro_SagaID ?opts = ro_SagaID opts" "ro_StateStore ?opts = Some inMemoryOps"
    "ro_RetryPolicy ?opts = ro_RetryPolicy opts" using assms(1) by simp_all
  define limit :: int where
    "limit = (case ro_RetryPolicy opts of None \<Rightarrow> 1 | Some p \<Rightarrow> max 1 (rp_MaxAttempts p))"
  have "1 \<le> limit" by (simp add: limit_def split: option.split)
  have "(case ro_RetryPolicy opts of None \<Rightarrow> 1 | Some p \<Rightarrow> maxAttempts p) = limit"
    by (simp add: limit_def maxAttempts_def max_def split: option.split)
  then obtain delay where "attemptLoop scale code sched stages c ?opts
      (if ro_SagaID opts = '''' then freshID else ro_SagaID opts) limit 1 delay st = (res, st')"
    using assms(2) unfolding RunWith_def Let_def opts by auto
  from progress.attempts_recorded [OF opts(2) \<open>1 \<le> limit\<close> this]
  show ?thesis unfolding limit_def [symmetric] by simp
qed

theorem saga_attempts_recorded_witness:
  "\<exists>rs. length rs = 2 \<and> Events (sg_store (snd (RunWith (\<lambda>d f. d) ''id'' bookAndPay (\<lambda>a i b. []) [[0], [1]]
     background recordedOnce atRest))) = runEvents ''b1'' [[0], [1]] 1 rs"
proof -
  let ?run = "RunWith (\<lambda>d f. d) ''id'' bookAndPay (\<lambda>a i b. []) [[0], [1]] background recordedOnce atRest"
  have "ro_StateStore recordedOnce = Some inMemoryOps" by (simp add: recordedOnce_def)
  from saga_attempts_recorded [OF this prod.collapse [symmetric], of "\<lambda>d f. d" "''id''" bookAndPay "\<lambda>a i b. []"
      "[[0], [1]]" background atRest]
  obtain rs where "int (length rs) = 2" "Events (sg_store (snd ?run)) = runEvents ''b1'' [[0], [1]] 1 rs"
    using bookAndPay_rolls_back [of "\<lambda>d f. d" "''id''" background atRest]
    by (auto simp: recordedOnce_def atRest_def NewInMemoryStateStore_def Events_def)
  then show ?thesis by (intro exI [of _ rs]) simp
qed

end
