(* ===== verification/Cache.thy ===== *)
theory Cache
  imports Prelude
begin

text \<open>
  The cache building block: read-through loading over the \<^verbatim>\<open>Store\<close> interface
  (\<^verbatim>\<open>cache/cache.go\<close>) and the in-memory store (\<^verbatim>\<open>cache/store.go\<close>). A store operation takes
  the context, the key and the instant; its lock makes it one atomic step. The JSON of the value type
  is a pair of arguments.
\<close>

section \<open>The in-memory store (store.go)\<close>

text \<open>The zero time, no expiry, is \<open>None\<close>.\<close>

record cacheEntry =
  ce_value :: string
  ce_expiresAt :: "int option"

type_synonym memoryCache = "(string \<times> cacheEntry) list"

definition NewMemoryCache :: memoryCache where
  "NewMemoryCache = []"

definition expiredEntry :: "cacheEntry \<Rightarrow> int \<Rightarrow> bool" where
  "expiredEntry e now = (case ce_expiresAt e of None \<Rightarrow> False | Some t \<Rightarrow> \<not> t > now)"

definition InMemory_Get ::
  "ctx \<Rightarrow> string \<Rightarrow> int \<Rightarrow> memoryCache \<Rightarrow> (string \<times> bool \<times> goerr option) \<times> memoryCache" where
  "InMemory_Get c key now s = (case map_of s key of
      None \<Rightarrow> (('''', False, None), s)
    | Some e \<Rightarrow> if expiredEntry e now then (('''', False, None), AList.delete key s)
        else ((ce_value e, True, None), s))"

definition InMemory_Set ::
  "ctx \<Rightarrow> string \<Rightarrow> string \<Rightarrow> int \<Rightarrow> int \<Rightarrow> memoryCache \<Rightarrow> goerr option \<times> memoryCache" where
  "InMemory_Set c key v ttl now s =
    (None, AList.update key \<lparr>ce_value = v, ce_expiresAt = (if ttl > 0 then Some (now + ttl) else None)\<rparr> s)"

definition InMemory_Delete :: "ctx \<Rightarrow> string \<Rightarrow> int \<Rightarrow> memoryCache \<Rightarrow> goerr option \<times> memoryCache" where
  "InMemory_Delete c key now s = (None, AList.delete key s)"

section \<open>Read-through (cache.go)\<close>

record 'k cacheStore =
  getOp :: "ctx \<Rightarrow> string \<Rightarrow> int \<Rightarrow> 'k \<Rightarrow> (string \<times> bool \<times> goerr option) \<times> 'k"
  setOp :: "ctx \<Rightarrow> string \<Rightarrow> string \<Rightarrow> int \<Rightarrow> int \<Rightarrow> 'k \<Rightarrow> goerr option \<times> 'k"
  deleteOp :: "ctx \<Rightarrow> string \<Rightarrow> int \<Rightarrow> 'k \<Rightarrow> goerr option \<times> 'k"

text \<open>The state around a load: the store, the clock and whatever the loader reads and writes.\<close>

record ('k, 'w) cacheState =
  cs_store :: 'k
  cs_now :: int
  cs_world :: 'w

type_synonym ('t, 'k, 'w) loader =
  "ctx \<Rightarrow> ('k, 'w) cacheState \<Rightarrow> ('t \<times> goerr option) outcome \<times> ('k, 'w) cacheState"

text \<open>The first part of \<^verbatim>\<open>GetOrLoad\<close>: the cached value when the store has one that decodes.\<close>

definition cachedValue ::
  "'k cacheStore \<Rightarrow> (string \<Rightarrow> 't option) \<Rightarrow> ctx \<Rightarrow> string \<Rightarrow> ('k, 'w) cacheState \<Rightarrow>
   't option \<times> ('k, 'w) cacheState" where
  "cachedValue store decode c key s =
    (case getOp store c key (cs_now s) (cs_store s) of ((raw, found, err), k) \<Rightarrow>
      (if err = None \<and> found then decode raw else None, s\<lparr>cs_store := k\<rparr>))"

definition GetOrLoad ::
  "'k cacheStore \<Rightarrow> ('t \<Rightarrow> string option) \<Rightarrow> (string \<Rightarrow> 't option) \<Rightarrow> ctx \<Rightarrow> string \<Rightarrow> int \<Rightarrow>
   ('t, 'k, 'w) loader \<Rightarrow> ('k, 'w) cacheState \<Rightarrow> ('t \<times> goerr option) outcome \<times> ('k, 'w) cacheState" where
  "GetOrLoad store encode decode c key ttl load s =
    (case cachedValue store decode c key s of
       (Some cached, s1) \<Rightarrow> (Return (cached, None), s1)
     | (None, s1) \<Rightarrow> andThen (load c s1) (\<lambda>(v, err) s2.
         if err \<noteq> None then (Return (v, err), s2)
         else (case encode v of
             None \<Rightarrow> (Return (v, None), s2)
           | Some raw \<Rightarrow> (Return (v, None),
               s2\<lparr>cs_store := snd (setOp store c key raw ttl (cs_now s2) (cs_store s2))\<rparr>))))"

section \<open>What a store promises\<close>

text \<open>
  \<open>held\<close> is the value a store has for a key at an instant. A read that succeeds tells it and changes
  nothing that can still be read; a write that succeeds holds the value for its time, or for
  good; a delete that succeeds leaves nothing. No operation touches another key.
\<close>

locale cache_store =
  fixes store :: "'k cacheStore"
    and held :: "'k \<Rightarrow> string \<Rightarrow> int \<Rightarrow> string option"
  assumes get_held: "getOp store c key t k = ((v, found, err), k') \<Longrightarrow>
      (err = None \<longrightarrow> held k key t = (if found then Some v else None)) \<and>
      (\<forall>any u. t \<le> u \<longrightarrow> held k' any u = held k any u)"
    and set_held: "setOp store c key v ttl t k = (err, k') \<Longrightarrow>
      (err = None \<longrightarrow> (\<forall>u. t \<le> u \<longrightarrow>
        held k' key u = (if 0 < ttl \<and> t + ttl \<le> u then None else Some v))) \<and>
      (\<forall>other u. other \<noteq> key \<longrightarrow> t \<le> u \<longrightarrow> held k' other u = held k other u)"
    and delete_held: "deleteOp store c key t k = (err, k') \<Longrightarrow>
      (err = None \<longrightarrow> (\<forall>u. t \<le> u \<longrightarrow> held k' key u = None)) \<and>
      (\<forall>other u. other \<noteq> key \<longrightarrow> t \<le> u \<longrightarrow> held k' other u = held k other u)"
begin

text \<open>A hit returns the cached value, whatever the loader is: it is not called.\<close>

lemma hit_never_loads:
  assumes "held (cs_store s) key (cs_now s) = Some raw" "decode raw = Some v"
    and "snd (snd (fst (getOp store c key (cs_now s) (cs_store s)))) = None"
  shows "\<exists>k. GetOrLoad store encode decode c key ttl load s = (Return (v, None), s\<lparr>cs_store := k\<rparr>)"
proof -
  obtain raw' found err k where op: "getOp store c key (cs_now s) (cs_store s) = ((raw', found, err), k)"
    by (metis prod.collapse)
  then have "err = None" "found" "raw' = raw"
    using get_held [OF op] assms(1,3) by (auto split: if_splits)
  then show ?thesis using op assms(2) by (auto simp: GetOrLoad_def cachedValue_def)
qed

text \<open>A miss runs the loader on a store in which the same can be read.\<close>

lemma miss_loads:
  assumes "held (cs_store s) key (cs_now s) = None"
  obtains k where "\<forall>any u. cs_now s \<le> u \<longrightarrow> held k any u = held (cs_store s) any u"
    "cachedValue store decode c key s = (None, s\<lparr>cs_store := k\<rparr>)"
proof -
  obtain raw' found err k where op: "getOp store c key (cs_now s) (cs_store s) = ((raw', found, err), k)"
    by (metis prod.collapse)
  have "\<not> (err = None \<and> found)" using get_held [OF op] assms by auto
  then show thesis using get_held [OF op] that [of k] op by (auto simp: cachedValue_def)
qed

text \<open>What a successful write keeps is found again.\<close>

lemma written_is_held:
  assumes "fst (setOp store c key raw ttl t k) = None" "t \<le> u" "ttl \<le> 0 \<or> u < t + ttl"
  shows "held (snd (setOp store c key raw ttl t k)) key u = Some raw"
  using set_held [of c key raw ttl t k] assms by (cases "setOp store c key raw ttl t k") auto

text \<open>A store that cannot be read or written costs the caching and nothing else.\<close>

lemma outage_only_loads:
  assumes "snd (snd (fst (getOp store c key (cs_now s) (cs_store s)))) \<noteq> None"
  shows "\<exists>k. fst (GetOrLoad store encode decode c key ttl load s) = fst (load c (s\<lparr>cs_store := k\<rparr>)) \<and>
    cs_world (snd (GetOrLoad store encode decode c key ttl load s)) =
      cs_world (snd (load c (s\<lparr>cs_store := k\<rparr>)))"
proof -
  obtain raw' found err k where op: "getOp store c key (cs_now s) (cs_store s) = ((raw', found, err), k)"
    by (metis prod.collapse)
  then have "cachedValue store decode c key s = (None, s\<lparr>cs_store := k\<rparr>)"
    using assms by (auto simp: cachedValue_def)
  then show ?thesis
    by (intro exI [of _ k], cases "load c (s\<lparr>cs_store := k\<rparr>)"; cases "fst (load c (s\<lparr>cs_store := k\<rparr>))")
      (auto simp: GetOrLoad_def split: option.split)
qed

end

section \<open>The in-memory store keeps the promise\<close>

definition memoryStore :: "memoryCache cacheStore" where
  "memoryStore = \<lparr>getOp = InMemory_Get, setOp = InMemory_Set, deleteOp = InMemory_Delete\<rparr>"

definition heldEntry :: "memoryCache \<Rightarrow> string \<Rightarrow> int \<Rightarrow> string option" where
  "heldEntry s key t = (case map_of s key of
      None \<Rightarrow> None
    | Some e \<Rightarrow> if expiredEntry e t then None else Some (ce_value e))"

lemma expiredEntry_mono: "expiredEntry e t \<Longrightarrow> t \<le> u \<Longrightarrow> expiredEntry e u"
  by (auto simp: expiredEntry_def split: option.splits)

interpretation memory_cache: cache_store memoryStore heldEntry
proof
  fix c key t k v found and err :: "goerr option" and k'
  assume "getOp memoryStore c key t k = ((v, found, err), k')"
  then show "(err = None \<longrightarrow> heldEntry k key t = (if found then Some v else None)) \<and>
      (\<forall>any u. t \<le> u \<longrightarrow> heldEntry k' any u = heldEntry k any u)"
    by (auto simp: memoryStore_def InMemory_Get_def heldEntry_def dest: expiredEntry_mono
        split: option.splits if_splits)
next
  fix c key v ttl t k and err :: "goerr option" and k'
  assume "setOp memoryStore c key v ttl t k = (err, k')"
  then show "(err = None \<longrightarrow> (\<forall>u. t \<le> u \<longrightarrow>
        heldEntry k' key u = (if 0 < ttl \<and> t + ttl \<le> u then None else Some v))) \<and>
      (\<forall>other u. other \<noteq> key \<longrightarrow> t \<le> u \<longrightarrow> heldEntry k' other u = heldEntry k other u)"
    by (auto simp: memoryStore_def InMemory_Set_def heldEntry_def expiredEntry_def)
next
  fix c key t k and err :: "goerr option" and k'
  assume "deleteOp memoryStore c key t k = (err, k')"
  then show "(err = None \<longrightarrow> (\<forall>u. t \<le> u \<longrightarrow> heldEntry k' key u = None)) \<and>
      (\<forall>other u. other \<noteq> key \<longrightarrow> t \<le> u \<longrightarrow> heldEntry k' other u = heldEntry k other u)"
    by (auto simp: memoryStore_def InMemory_Delete_def heldEntry_def)
qed

lemma memory_never_fails [simp]:
  "snd (snd (fst (getOp memoryStore c key t k))) = None" "fst (setOp memoryStore c key v ttl t k) = None"
  by (auto simp: memoryStore_def InMemory_Get_def InMemory_Set_def split: option.split)

section \<open>Properties\<close>

text \<open>C16 (functional). With the in-memory store a miss runs the loader once. When it succeeds its value
  is returned and remembered: until its time is over (for ever when the time is not positive) every
  later call returns that value, does not run its loader and changes nothing outside the store, even
  when other keys were written or deleted in between. When it fails its error is returned and
  nothing is remembered: the state is the one the loader left.\<close>

theorem cache_loads_once:
  fixes s t :: "(memoryCache, 'w) cacheState"
  assumes "heldEntry (cs_store s) key (cs_now s) = None"
    and "GetOrLoad memoryStore encode decode c key ttl load s = (Return (v, err), s')"
    and "encode v = Some raw" and "decode raw = Some v"
    and "\<forall>u \<ge> cs_now s'. heldEntry (cs_store t) key u = heldEntry (cs_store s') key u"
    and "cs_now s' \<le> cs_now t" and "ttl \<le> 0 \<or> cs_now t < cs_now s' + ttl"
  shows "\<exists>k s2. load c (s\<lparr>cs_store := k\<rparr>) = (Return (v, err), s2) \<and> cs_world s' = cs_world s2 \<and>
    (if err = None
     then \<exists>k'. GetOrLoad memoryStore encode decode c' key ttl' load' t = (Return (v, None), t\<lparr>cs_store := k'\<rparr>)
     else s' = s2)"
proof -
  obtain k where miss: "cachedValue memoryStore decode c key s = (None, s\<lparr>cs_store := k\<rparr>)"
    by (rule memory_cache.miss_loads [OF assms(1)])
  obtain s2 where load: "load c (s\<lparr>cs_store := k\<rparr>) = (Return (v, err), s2)"
    and s': "s' = (if err = None then s2\<lparr>cs_store := snd (setOp memoryStore c key raw ttl (cs_now s2) (cs_store s2))\<rparr>
      else s2)"
    using assms(2,3) miss
    by (cases "load c (s\<lparr>cs_store := k\<rparr>)"; cases "fst (load c (s\<lparr>cs_store := k\<rparr>))")
      (auto simp: GetOrLoad_def split: if_splits option.splits)
  have "\<exists>k'. GetOrLoad memoryStore encode decode c' key ttl' load' t = (Return (v, None), t\<lparr>cs_store := k'\<rparr>)"
    if "err = None"
  proof -
    have "heldEntry (cs_store s') key (cs_now t) = Some raw"
      using that s' assms(6,7) memory_cache.written_is_held [of c key raw ttl "cs_now s2" "cs_store s2" "cs_now t"]
      by simp
    then have "heldEntry (cs_store t) key (cs_now t) = Some raw" using assms(5,6) by simp
    from memory_cache.hit_never_loads [where decode = decode and v = v and c = c', OF this assms(4)]
    show ?thesis by simp
  qed
  with load s' show ?thesis by (intro exI [of _ k] exI [of _ s2]) simp
qed

theorem cache_loads_once_witness:
  "GetOrLoad memoryStore (\<lambda>v. Some v) (\<lambda>raw. Some raw) background ''order:1'' 5
      (\<lambda>c s. (Return (''x'', None), s\<lparr>cs_world := Suc (cs_world s)\<rparr>))
      \<lparr>cs_store = [], cs_now = 0, cs_world = 0\<rparr> =
    (Return (''x'', None), \<lparr>cs_store = [(''order:1'', \<lparr>ce_value = ''x'', ce_expiresAt = Some 5\<rparr>)],
       cs_now = 0, cs_world = 1\<rparr>) \<and>
   fst (GetOrLoad memoryStore (\<lambda>v. Some v) (\<lambda>raw. Some raw) background ''order:1'' 5
      (\<lambda>c s. (Return (''y'', None), s))
      \<lparr>cs_store = [(''order:1'', \<lparr>ce_value = ''x'', ce_expiresAt = Some 5\<rparr>)], cs_now = 4, cs_world = 1 :: nat\<rparr>) =
    Return (''x'', None)"
proof -
  let ?load = "\<lambda>c s. (Return (''x'', None), s\<lparr>cs_world := Suc (cs_world s)\<rparr>)"
  let ?s = "\<lparr>cs_store = [] :: memoryCache, cs_now = 0, cs_world = 0 :: nat\<rparr>"
  let ?k = "[(''order:1'', \<lparr>ce_value = ''x'', ce_expiresAt = Some 5\<rparr>)]"
  have first: "GetOrLoad memoryStore (\<lambda>v. Some v) (\<lambda>raw. Some raw) background ''order:1'' 5 ?load ?s =
      (Return (''x'', None), \<lparr>cs_store = ?k, cs_now = 0, cs_world = 1\<rparr>)"
    by (simp add: GetOrLoad_def cachedValue_def memoryStore_def InMemory_Get_def InMemory_Set_def)
  have "heldEntry (cs_store ?s) ''order:1'' (cs_now ?s) = None" by (simp add: heldEntry_def)
  from cache_loads_once [OF this first, where raw = "''x''" and c' = background and ttl' = 5
      and t = "\<lparr>cs_store = ?k, cs_now = 4, cs_world = 1\<rparr>" and load' = "\<lambda>c s. (Return (''y'', None), s)"]
  have "\<exists>k'. GetOrLoad memoryStore (\<lambda>v. Some v) (\<lambda>raw. Some raw) background ''order:1'' 5
      (\<lambda>c s. (Return (''y'', None), s)) \<lparr>cs_store = ?k, cs_now = 4, cs_world = 1 :: nat\<rparr> =
    (Return (''x'', None), \<lparr>cs_store = k', cs_now = 4, cs_world = 1\<rparr>)" by simp
  with first show ?thesis by auto
qed

end
