(* ===== verification/Client.thy ===== *)
theory Client
  imports Container "HOL-Library.Word"
begin

text \<open>
  The outbound decorators over \<^verbatim>\<open>client.Sender\<close>: retry (\<^verbatim>\<open>client/retry.go\<close>), the correlation
  header (\<^verbatim>\<open>client/correlation.go\<close>), the result of a call without a reply
  (\<^verbatim>\<open>client/failure.go\<close>) and the sender's registration (\<^verbatim>\<open>client/di.go\<close>). A sender is a
  function on a state: the clock and whatever else sending reads and writes.
\<close>

section \<open>Senders (sender.go)\<close>

record 'w clientState =
  cl_now :: int
  cl_world :: 'w

type_synonym ('v, 'w) sender =
  "ctx \<Rightarrow> topic \<Rightarrow> headers \<Rightarrow> string \<Rightarrow> 'w clientState \<Rightarrow> 'v result outcome \<times> 'w clientState"

definition SenderFunc_Send :: "('v, 'w) sender \<Rightarrow> ('v, 'w) sender" where
  "SenderFunc_Send f c topic hs message s = f c topic hs message s"

section \<open>Retry (retry.go)\<close>

text \<open>\<open>None\<close> is a nil function.\<close>

record retryOptions =
  MaxAttempts :: int
  Backoff :: "(int \<Rightarrow> int) option"
  ShouldRetry :: "(status \<Rightarrow> bool) option"

definition defaultShouldRetry :: "status \<Rightarrow> bool" where
  "defaultShouldRetry s \<longleftrightarrow> s = StatusServiceUnavailable \<or> s = StatusTooManyRequests"

text \<open>The arithmetic is that of 64-bit integers.\<close>

definition defaultBackoff :: "int \<Rightarrow> int" where
  "defaultBackoff attempt =
    sint (100 * push_bit (nat (attempt - 1)) (1 :: 64 word) * (1000000 :: 64 word))"

text \<open>
  The select on the context and a timer: whether it took the cancellation, and the instant at which
  it ended. When both are ready it may take either: the argument \<open>tie\<close> (true: the cancellation).
\<close>

definition backoffWait :: "bool \<Rightarrow> ctx \<Rightarrow> int \<Rightarrow> int \<Rightarrow> bool \<times> int" where
  "backoffWait tie c d now =
    (let fires = now + max 0 d in
     case done_at c of
       None \<Rightarrow> (False, fires)
     | Some (t, e) \<Rightarrow>
         if max now t < fires \<or> (max now t = fires \<and> tie) then (True, max now t) else (False, fires))"

text \<open>
  The attempts, from the given number. An attempt never passes the maximum, which is at least 1, so the
  test of the code that they are equal is the comparison here.
\<close>

function sendLoop ::
  "bool \<Rightarrow> ('v, 'w) sender \<Rightarrow> int \<Rightarrow> (int \<Rightarrow> int) \<Rightarrow> (status \<Rightarrow> bool) \<Rightarrow> int \<Rightarrow> ('v, 'w) sender" where
  "sendLoop tie nx maximum backoff shouldRetry attempt c topic hs message s =
    andThen (nx c topic hs message s) (\<lambda>result s1.
      if \<not> shouldRetry (r_Status result) \<or> attempt \<ge> maximum then (Return result, s1)
      else (case backoffWait tie c (backoff attempt) (cl_now s1) of
          (True, t) \<Rightarrow> (Return result, s1\<lparr>cl_now := t\<rparr>)
        | (False, t) \<Rightarrow> sendLoop tie nx maximum backoff shouldRetry (attempt + 1) c topic hs message
            (s1\<lparr>cl_now := t\<rparr>)))"
  by pat_completeness auto
termination
  by (relation "measure (\<lambda>(tie, nx, maximum, backoff, shouldRetry, attempt, c, topic, hs, message, s).
      nat (maximum - attempt))") auto

declare sendLoop.simps [simp del]

definition WithRetry :: "bool \<Rightarrow> ('v, 'w) sender \<Rightarrow> retryOptions \<Rightarrow> ('v, 'w) sender" where
  "WithRetry tie nx opts =
    (let maximum = (if MaxAttempts opts \<le> 0 then 3 else MaxAttempts opts);
         backoff = (case Backoff opts of None \<Rightarrow> defaultBackoff | Some f \<Rightarrow> f);
         shouldRetry = (case ShouldRetry opts of None \<Rightarrow> defaultShouldRetry | Some f \<Rightarrow> f) in
     SenderFunc_Send (sendLoop tie nx maximum backoff shouldRetry 1))"

section \<open>Correlation (correlation.go)\<close>

definition withCorrelationID ::
  "headers \<Rightarrow> string \<Rightarrow> ('w clientState \<Rightarrow> string \<times> 'w clientState) option \<Rightarrow> 'w clientState \<Rightarrow>
   headers \<times> 'w clientState" where
  "withCorrelationID hs key generate s =
    (if list_ex (\<lambda>(name, v). equalFold name key) hs then (hs, s)
     else (case generate of
         None \<Rightarrow> (hs, s)
       | Some g \<Rightarrow> (case g s of (v, s1) \<Rightarrow> (AList.update key v hs, s1))))"

definition WithCorrelationIDKey ::
  "('v, 'w) sender \<Rightarrow> string \<Rightarrow> ('w clientState \<Rightarrow> string \<times> 'w clientState) option \<Rightarrow> ('v, 'w) sender" where
  "WithCorrelationIDKey nx key0 generate =
    (let key = (if key0 = '''' then DefaultCorrelationKey else key0) in
     SenderFunc_Send (\<lambda>c topic hs message s. case withCorrelationID hs key generate s of
       (hs1, s1) \<Rightarrow> nx c topic hs1 message s1))"

definition WithCorrelationID ::
  "('v, 'w) sender \<Rightarrow> ('w clientState \<Rightarrow> string \<times> 'w clientState) option \<Rightarrow> ('v, 'w) sender" where
  "WithCorrelationID nx generate = WithCorrelationIDKey nx '''' generate"

section \<open>Failed calls (failure.go)\<close>

text \<open>
  \<open>timeoutMethod\<close> says of an error of its own whether it has a method \<^verbatim>\<open>Timeout\<close> and what it
  answers. \<^verbatim>\<open>errors.As\<close> finds the first error with the method, an error before those it wraps.
\<close>

fun asTimeout :: "(goerr \<Rightarrow> bool option) \<Rightarrow> goerr \<Rightarrow> bool option" where
  "asTimeout timeoutMethod (ErrWrap m es) = (case timeoutMethod (ErrWrap m es) of
      Some b \<Rightarrow> Some b
    | None \<Rightarrow> foldr (\<lambda>e r. case asTimeout timeoutMethod e of Some b \<Rightarrow> Some b | None \<Rightarrow> r) es None)"
| "asTimeout timeoutMethod e = timeoutMethod e"

definition DeadlineElapsed :: "(goerr \<Rightarrow> bool option) \<Rightarrow> ctx \<Rightarrow> int \<Rightarrow> goerr \<Rightarrow> bool" where
  "DeadlineElapsed timeoutMethod c now err \<longleftrightarrow>
    (case ctxErr c now of None \<Rightarrow> False | Some e \<Rightarrow> errorsIs e ErrDeadlineExceeded) \<or>
    errorsIs err ErrDeadlineExceeded \<or>
    (case asTimeout timeoutMethod err of None \<Rightarrow> False | Some b \<Rightarrow> b)"

definition CallFailure ::
  "(goerr \<Rightarrow> bool option) \<Rightarrow> ctx \<Rightarrow> int \<Rightarrow> goerr \<Rightarrow> string \<Rightarrow> 'v result outcome" where
  "CallFailure timeoutMethod c now err detail =
    (if DeadlineElapsed timeoutMethod c now err then Timeout [detail] else ServiceUnavailable [detail])"

section \<open>Registration (di.go)\<close>

definition senderKey :: service_key where
  "senderKey = KeyType ''client.senderKey''"

definition RegisterSender :: "('v, 'w) registrations \<Rightarrow> 'v any \<Rightarrow> ('v, 'w) registrations" where
  "RegisterSender container outbound = AddSingleton container senderKey (\<lambda>d. (Return outbound, d))"

definition SenderFromScope ::
  "('v, 'w) registrations \<Rightarrow> ('v, 't) gotype \<Rightarrow> ('v, 'w) di \<Rightarrow> 't outcome \<times> ('v, 'w) di" where
  "SenderFromScope regs T d = GetService regs T senderKey d"

section \<open>Lemmas\<close>

text \<open>The last sender registered is the one that is resolved first, with whatever was registered before.\<close>

lemma last_sender_wins:
  assumes "scoped d \<noteq> None" and "map_of (singletons d) senderKey = None"
  shows "fst (SenderFromScope (RegisterSender (RegisterSender regs a) b) T d) = Return (asType T b)"
  using assms by (simp add: SenderFromScope_def GetService_def TryGetService_def RegisterSender_def
      AddSingleton_def add_def typedSingleton_def withNilScope_def)

lemma correlation_kept: "hasKeyFold hs key \<Longrightarrow> withCorrelationID hs key generate s = (hs, s)"
  by (simp add: withCorrelationID_def hasKeyFold_def)

lemma correlation_not_invented: "withCorrelationID hs key None s = (hs, s)"
  by (simp add: withCorrelationID_def)

lemma correlation_generated:
  assumes "\<not> hasKeyFold hs key" and "generate = Some g" and "g s = (v, s1)"
  shows "withCorrelationID hs key generate s = (AList.update key v hs, s1)"
  using assms by (simp add: withCorrelationID_def hasKeyFold_def)

text \<open>
  An outer error whose own method says that it is no timeout hides a timeout that it wraps.
\<close>

lemma outer_timeout_hides_inner:
  "DeadlineElapsed (\<lambda>e. if e = ErrNew ''slow'' then Some True
      else if e = ErrWrap ''op'' [ErrNew ''slow''] then Some False else None)
    background 0 (ErrWrap ''op'' [ErrNew ''slow'']) = False"
  by (simp add: DeadlineElapsed_def)

text \<open>The default delay as a product, and when it fits in 64 bits.\<close>

lemma defaultBackoff_eq:
  "defaultBackoff attempt = signed_take_bit 63 (100000000 * 2 ^ nat (attempt - 1))"
proof -
  have "100 * push_bit (nat (attempt - 1)) (1 :: 64 word) * 1000000 =
      word_of_int (100000000 * 2 ^ nat (attempt - 1))"
    by (simp add: push_bit_eq_mult)
  then show ?thesis unfolding defaultBackoff_def by (simp only: sint_sbintrunc') simp
qed

section \<open>Properties\<close>

text \<open>The default delay before a retry is 100 milliseconds doubled for each attempt up to
  the 37th; then it wraps: before the 39th attempt it is negative and from the 58th it is zero, so
  the wait that should be longest is none at all.\<close>

theorem client_backoff_wraps:
  "(1 \<le> attempt \<and> attempt \<le> 37 \<longrightarrow> defaultBackoff attempt = 100000000 * 2 ^ nat (attempt - 1)) \<and>
   defaultBackoff 38 < 0 \<and> (57 \<le> attempt \<longrightarrow> defaultBackoff attempt = 0) \<and>
   backoffWait False background (defaultBackoff 38) now = (False, now)"
proof -
  have fits: "defaultBackoff attempt = 100000000 * 2 ^ nat (attempt - 1)" if "attempt \<le> 37"
  proof -
    have "(2 :: int) ^ nat (attempt - 1) \<le> 2 ^ 36" using that by (intro power_increasing) auto
    then have "100000000 * 2 ^ nat (attempt - 1) < (2 :: int) ^ 63" by simp
    moreover have "0 \<le> 100000000 * (2 :: int) ^ nat (attempt - 1)" by simp
    ultimately show ?thesis unfolding defaultBackoff_eq by (intro signed_take_bit_int_eq_self) linarith+
  qed
  have zero: "defaultBackoff attempt = 0" if "57 \<le> attempt"
  proof -
    have n: "nat (attempt - 1) = 56 + nat (attempt - 57)" using that by linarith
    have "100000000 * 2 ^ nat (attempt - 1) = (390625 * 2 ^ nat (attempt - 57)) * (2 :: int) ^ 64"
      by (simp add: n power_add)
    moreover have "signed_take_bit 63 (m * (2 :: int) ^ 64) = 0" for m :: int
      unfolding signed_take_bit_eq_take_bit_shift take_bit_eq_mod by simp
    ultimately show ?thesis unfolding defaultBackoff_eq by (simp only:)
  qed
  have neg: "defaultBackoff 38 = - 4702848726509551616"
    unfolding defaultBackoff_eq by (simp add: signed_take_bit_eq_take_bit_shift take_bit_eq_mod)
  then have "backoffWait False background (defaultBackoff 38) now = (False, now)"
    by (simp add: backoffWait_def background_def Let_def)
  with fits zero neg show ?thesis by simp
qed

theorem client_backoff_wraps_witness:
  "defaultBackoff 3 = 400000000 \<and> defaultBackoff 60 = 0"
  using client_backoff_wraps [of 3 0] client_backoff_wraps [of 60 0] by simp

text \<open>An attempt that is followed by another, and how the last one ends.\<close>

inductive resent ::
  "bool \<Rightarrow> ('v, 'w) sender \<Rightarrow> (int \<Rightarrow> int) \<Rightarrow> (status \<Rightarrow> bool) \<Rightarrow> ctx \<Rightarrow> topic \<Rightarrow> headers \<Rightarrow> string \<Rightarrow> int \<Rightarrow>
   'w clientState \<Rightarrow> 'w clientState \<Rightarrow> bool"
  for tie nx backoff shouldRetry c topic hs message where
  "nx c topic hs message s = (Return r, s1) \<Longrightarrow> shouldRetry (r_Status r) \<Longrightarrow>
   backoffWait tie c (backoff attempt) (cl_now s1) = (False, t) \<Longrightarrow>
   resent tie nx backoff shouldRetry c topic hs message attempt s (s1\<lparr>cl_now := t\<rparr>)"

inductive sendEnds ::
  "bool \<Rightarrow> ('v, 'w) sender \<Rightarrow> (int \<Rightarrow> int) \<Rightarrow> (status \<Rightarrow> bool) \<Rightarrow> int \<Rightarrow> ctx \<Rightarrow> topic \<Rightarrow> headers \<Rightarrow> string \<Rightarrow>
   int \<Rightarrow> 'w clientState \<Rightarrow> 'v result outcome \<times> 'w clientState \<Rightarrow> bool"
  for tie nx backoff shouldRetry maximum c topic hs message where
  panicked: "nx c topic hs message s = (Panic p, s1) \<Longrightarrow>
    sendEnds tie nx backoff shouldRetry maximum c topic hs message attempt s (Panic p, s1)"
| answered: "nx c topic hs message s = (Return r, s1) \<Longrightarrow>
    \<not> shouldRetry (r_Status r) \<or> attempt = maximum \<Longrightarrow>
    sendEnds tie nx backoff shouldRetry maximum c topic hs message attempt s (Return r, s1)"
| cancelled: "nx c topic hs message s = (Return r, s1) \<Longrightarrow> shouldRetry (r_Status r) \<Longrightarrow>
    backoffWait tie c (backoff attempt) (cl_now s1) = (True, t) \<Longrightarrow>
    sendEnds tie nx backoff shouldRetry maximum c topic hs message attempt s (Return r, s1\<lparr>cl_now := t\<rparr>)"

lemma sendLoop_attempts:
  "attempt \<le> maximum \<Longrightarrow>
   \<exists>n T. attempt + int n \<le> maximum \<and> T 0 = s \<and>
    (\<forall>i < n. resent tie nx backoff shouldRetry c topic hs message (attempt + int i) (T i) (T (Suc i))) \<and>
    sendEnds tie nx backoff shouldRetry maximum c topic hs message (attempt + int n) (T n)
      (sendLoop tie nx maximum backoff shouldRetry attempt c topic hs message s)"
proof (induction "nat (maximum - attempt)" arbitrary: attempt s rule: less_induct)
  case less
  show ?case
  proof (cases "attempt < maximum \<and> (\<exists>u. resent tie nx backoff shouldRetry c topic hs message attempt s u)")
    case False
    have "sendEnds tie nx backoff shouldRetry maximum c topic hs message attempt s
        (sendLoop tie nx maximum backoff shouldRetry attempt c topic hs message s)"
    proof (cases "nx c topic hs message s")
      case (Pair out s1)
      show ?thesis
      proof (cases out)
        case (Panic p)
        with Pair show ?thesis by (simp add: sendLoop.simps panicked)
      next
        case (Return r)
        obtain won t where w: "backoffWait tie c (backoff attempt) (cl_now s1) = (won, t)" by fastforce
        show ?thesis
        proof (cases "\<not> shouldRetry (r_Status r) \<or> attempt = maximum")
          case True
          with Pair Return show ?thesis by (auto simp: sendLoop.simps intro: answered)
        next
          case go: False
          have none: "\<nexists>u. resent tie nx backoff shouldRetry c topic hs message attempt s u"
            using False go less.prems by auto
          have won
          proof (rule ccontr)
            assume "\<not> won"
            then have "resent tie nx backoff shouldRetry c topic hs message attempt s (s1\<lparr>cl_now := t\<rparr>)"
              using Pair Return w go by (intro resent.intros [where r = r]) auto
            with none show False by blast
          qed
          with go Pair Return w less.prems show ?thesis by (simp add: sendLoop.simps cancelled)
        qed
      qed
    qed
    with less.prems show ?thesis by (intro exI [of _ 0] exI [of _ "\<lambda>i. s"]) simp
  next
    case True
    then obtain u where sent: "resent tie nx backoff shouldRetry c topic hs message attempt s u"
      and lt: "attempt < maximum" by blast
    from sent have loop: "sendLoop tie nx maximum backoff shouldRetry attempt c topic hs message s =
        sendLoop tie nx maximum backoff shouldRetry (attempt + 1) c topic hs message u"
      using lt by cases (simp add: sendLoop.simps [of _ _ _ _ _ attempt])
    have "nat (maximum - (attempt + 1)) < nat (maximum - attempt)" "attempt + 1 \<le> maximum" using lt by auto
    from less.hyps [OF this, of u] obtain n T where T: "attempt + 1 + int n \<le> maximum" "T 0 = u"
      "\<forall>i < n. resent tie nx backoff shouldRetry c topic hs message (attempt + 1 + int i) (T i) (T (Suc i))"
      "sendEnds tie nx backoff shouldRetry maximum c topic hs message (attempt + 1 + int n) (T n)
        (sendLoop tie nx maximum backoff shouldRetry (attempt + 1) c topic hs message u)" by blast
    show ?thesis
    proof (intro exI [of _ "Suc n"] exI [of _ "case_nat s T"] conjI allI impI)
      fix i assume "i < Suc n"
      then show "resent tie nx backoff shouldRetry c topic hs message (attempt + int i)
          (case_nat s T i) (case_nat s T (Suc i))"
        using T(2,3) sent by (cases i) (auto simp: algebra_simps)
    qed (use T loop in \<open>auto simp: algebra_simps\<close>)
  qed
qed

text \<open>C15 (termination). A send with retry ends when the wrapped one does, after at most the configured
  attempts (3 when none are configured): every attempt but the last returned a status that is
  retried and was followed by its own back-off, waited in full. The last one panicked, or its
  result is the one returned: it was not to be retried, or it was the last attempt allowed, or the
  context was done during the wait.\<close>

theorem client_retry_bounded:
  fixes nx :: "('v, 'w) sender" and opts :: retryOptions
  defines "maximum \<equiv> (if MaxAttempts opts \<le> 0 then 3 else MaxAttempts opts)"
    and "backoff \<equiv> (case Backoff opts of None \<Rightarrow> defaultBackoff | Some f \<Rightarrow> f)"
    and "shouldRetry \<equiv> (case ShouldRetry opts of None \<Rightarrow> defaultShouldRetry | Some f \<Rightarrow> f)"
  shows "\<exists>n T. 1 + int n \<le> maximum \<and> T 0 = s \<and>
    (\<forall>i < n. resent tie nx backoff shouldRetry c topic hs message (1 + int i) (T i) (T (Suc i))) \<and>
    sendEnds tie nx backoff shouldRetry maximum c topic hs message (1 + int n) (T n)
      (WithRetry tie nx opts c topic hs message s)"
proof -
  have "1 \<le> maximum" by (simp add: maximum_def)
  from sendLoop_attempts [OF this, of s tie nx backoff shouldRetry c topic hs message] show ?thesis
    by (simp add: WithRetry_def SenderFunc_Send_def maximum_def backoff_def shouldRetry_def Let_def)
qed

theorem client_retry_bounded_witness:
  "\<exists>n u. 1 + int n \<le> 2 \<and> sendEnds False (\<lambda>c topic hs message s.
      (Return (failed StatusServiceUnavailable []), s\<lparr>cl_world := Suc (cl_world s)\<rparr>)) defaultBackoff
      defaultShouldRetry 2 background (NewTopic ''pay'') [] '''' (1 + int n) u
    (WithRetry False (\<lambda>c topic hs message s.
      (Return (failed StatusServiceUnavailable [] :: nat result), s\<lparr>cl_world := Suc (cl_world s)\<rparr>))
      \<lparr>MaxAttempts = 2, Backoff = None, ShouldRetry = None\<rparr> background (NewTopic ''pay'') [] ''''
      \<lparr>cl_now = 0, cl_world = 0\<rparr>)"
  using client_retry_bounded [where tie = False and opts = "\<lparr>MaxAttempts = 2, Backoff = None, ShouldRetry = None\<rparr>"
      and nx = "\<lambda>c topic hs message s. (Return (failed StatusServiceUnavailable [] :: nat result),
        s\<lparr>cl_world := Suc (cl_world s)\<rparr>)" and c = background and topic = "NewTopic ''pay''" and hs = "[]"
      and message = "''''" and s = "\<lparr>cl_now = 0, cl_world = 0\<rparr>"]
  by auto

end
