(* ===== verification/GoStrings.thy ===== *)
theory GoStrings
  imports Prelude "HOL-Library.Word"
begin

text \<open>
  More of the Go standard library on strings: \<^verbatim>\<open>strings.Split\<close>, \<^verbatim>\<open>strings.IndexByte\<close>,
  \<^verbatim>\<open>strings.HasPrefix\<close>, \<^verbatim>\<open>strings.HasSuffix\<close>, \<^verbatim>\<open>strings.TrimSpace\<close>, \<^verbatim>\<open>strings.ToUpper\<close> (on ASCII
  text), \<^verbatim>\<open>hex.EncodeToString\<close>, and the header names of \<^verbatim>\<open>net/http\<close>. A character is a byte.
\<close>

section \<open>Cutting\<close>

fun splitOn :: "char \<Rightarrow> string \<Rightarrow> string list" where
  "splitOn sep [] = [[]]"
| "splitOn sep (c # cs) = (if c = sep then [] # splitOn sep cs
     else (case splitOn sep cs of [] \<Rightarrow> [[c]] | s # ss \<Rightarrow> (c # s) # ss))"

fun indexByte :: "string \<Rightarrow> char \<Rightarrow> nat option" where
  "indexByte [] b = None"
| "indexByte (c # cs) b = (if c = b then Some 0 else map_option Suc (indexByte cs b))"

definition hasPrefix :: "string \<Rightarrow> string \<Rightarrow> bool" where
  "hasPrefix s p \<longleftrightarrow> take (length p) s = p"

definition hasSuffix :: "string \<Rightarrow> string \<Rightarrow> bool" where
  "hasSuffix s p \<longleftrightarrow> length p \<le> length s \<and> drop (length s - length p) s = p"

definition spaceChar :: "char \<Rightarrow> bool" where
  "spaceChar c \<longleftrightarrow> (let n = (of_char c :: nat) in n = 32 \<or> (9 \<le> n \<and> n \<le> 13))"

definition trimSpace :: "string \<Rightarrow> string" where
  "trimSpace s = rev (dropWhile spaceChar (rev (dropWhile spaceChar s)))"

lemma splitOn_not_Nil [simp]: "splitOn sep s \<noteq> []"
  by (induction s) (auto split: list.splits)

lemma splitOn_pieces: "piece \<in> set (splitOn sep s) \<Longrightarrow> sep \<notin> set piece"
proof (induction s arbitrary: piece)
  case (Cons c cs)
  then show ?case by (cases "splitOn sep cs") (auto split: if_splits)
qed simp

lemma join_Cons_Cons: "join sep ((c # s) # ss) = c # join sep (s # ss)"
  by (cases ss) simp_all

lemma join_splitOn: "join [sep] (splitOn sep s) = s"
proof (induction s)
  case (Cons c cs)
  obtain x xs where "splitOn sep cs = x # xs" by (cases "splitOn sep cs") auto
  with Cons show ?case by (auto simp: join_Cons join_Cons_Cons)
qed simp

lemma splitOn_piece: "sep \<notin> set p \<Longrightarrow> splitOn sep p = [p]"
  by (induction p) auto

lemma splitOn_append: "sep \<notin> set p \<Longrightarrow> splitOn sep (p @ sep # s) = p # splitOn sep s"
  by (induction p) auto

lemma splitOn_join:
  "ps \<noteq> [] \<Longrightarrow> (\<And>p. p \<in> set ps \<Longrightarrow> sep \<notin> set p) \<Longrightarrow> splitOn sep (join [sep] ps) = ps"
proof (induction ps)
  case (Cons p ps)
  then show ?case by (cases "ps = []") (auto simp: join_Cons splitOn_append splitOn_piece)
qed simp

text \<open>Between a prefix and a suffix lies a middle.\<close>

lemma prefix_suffix_iff:
  "length pre + length suf \<le> length s \<and> hasPrefix s pre \<and> hasSuffix s suf \<longleftrightarrow>
    (\<exists>m. s = pre @ m @ suf)" (is "?l \<longleftrightarrow> ?r")
proof
  assume l: ?l
  then have "s = take (length s - length suf) s @ suf"
    by (metis hasSuffix_def append_take_drop_id)
  moreover have "take (length pre) (take (length s - length suf) s) = pre"
    using l by (auto simp: hasPrefix_def min_def)
  ultimately show ?r by (metis append_assoc append_take_drop_id)
qed (auto simp: hasPrefix_def hasSuffix_def)

lemma between_pre_suf:
  "drop (length pre) (take (length (pre @ m @ suf) - length suf) (pre @ m @ suf)) = m"
  by simp

section \<open>Upper case\<close>

definition toUpperChar :: "char \<Rightarrow> char" where
  "toUpperChar c =
     (if CHR ''a'' \<le> c \<and> c \<le> CHR ''z'' then char_of (of_char c - (32 :: nat)) else c)"

definition toUpper :: "string \<Rightarrow> string" where
  "toUpper s = map toUpperChar s"

lemma toUpperChar_space: "toUpperChar c = CHR '' '' \<longleftrightarrow> c = CHR '' ''"
proof
  assume u: "toUpperChar c = CHR '' ''"
  show "c = CHR '' ''"
  proof (rule ccontr)
    assume "c \<noteq> CHR '' ''"
    with u have r: "97 \<le> (of_char c :: nat)" "(of_char c :: nat) \<le> 122"
      and "char_of (of_char c - (32 :: nat)) = CHR '' ''"
      by (auto simp: toUpperChar_def less_eq_char_def split: if_splits)
    from this(3) have "of_char (char_of (of_char c - (32 :: nat))) = (of_char (CHR '' '') :: nat)" by simp
    with r show False by (simp add: of_char_of)
  qed
qed (simp add: toUpperChar_def)

section \<open>Hexadecimal\<close>

definition hexOfByte :: "char \<Rightarrow> string" where
  "hexOfByte c = (let n = (of_char c :: nat) in [hexDigit (n div 16), hexDigit n])"

definition hexEncode :: "string \<Rightarrow> string" where
  "hexEncode bytes = concat (map hexOfByte bytes)"

definition hexChar :: "char \<Rightarrow> bool" where
  "hexChar c \<longleftrightarrow> (CHR ''0'' \<le> c \<and> c \<le> CHR ''9'') \<or> (CHR ''a'' \<le> c \<and> c \<le> CHR ''f'') \<or>
     (CHR ''A'' \<le> c \<and> c \<le> CHR ''F'')"

text \<open>\<^verbatim>\<open>hex.DecodeString\<close> succeeds.\<close>

definition hexString :: "string \<Rightarrow> bool" where
  "hexString s \<longleftrightarrow> even (length s) \<and> list_all hexChar s"

lemma hexDigit_hexChar: "hexChar (hexDigit n)"
proof -
  have "\<forall>i \<in> {0..<16}. hexChar (''0123456789abcdef'' ! i)" by code_simp
  then show ?thesis by (simp add: hexDigit_def)
qed

lemma length_hexEncode: "length (hexEncode bytes) = 2 * length bytes"
  by (induction bytes) (simp_all add: hexEncode_def hexOfByte_def Let_def)

lemma hexEncode_hexString: "hexString (hexEncode bytes)"
  unfolding hexString_def length_hexEncode
  by (induction bytes) (simp_all add: hexEncode_def hexOfByte_def Let_def hexDigit_hexChar)

lemma hexChar_not_dash: "hexChar c \<Longrightarrow> c \<noteq> CHR ''-''"
  by (auto simp: hexChar_def less_eq_char_def)

section \<open>Header names\<close>

definition tokenChar :: "char \<Rightarrow> bool" where
  "tokenChar c \<longleftrightarrow> (CHR ''0'' \<le> c \<and> c \<le> CHR ''9'') \<or> (CHR ''A'' \<le> c \<and> c \<le> CHR ''Z'') \<or>
     (CHR ''a'' \<le> c \<and> c \<le> CHR ''z'') \<or> c \<in> set ''!#$%&*+-.^_|~'' \<or> c = CHR 0x27 \<or> c = CHR 0x60"

fun canonicalFrom :: "bool \<Rightarrow> string \<Rightarrow> string" where
  "canonicalFrom upper [] = []"
| "canonicalFrom upper (c # cs) =
     (if upper then toUpperChar c else toLowerChar c) # canonicalFrom (c = CHR ''-'') cs"

text \<open>\<^verbatim>\<open>textproto.CanonicalMIMEHeaderKey\<close>\<close>

definition canonicalHeaderKey :: "string \<Rightarrow> string" where
  "canonicalHeaderKey s = (if list_all tokenChar s then canonicalFrom True s else s)"

end
