(* ===== verification/Routing.thy ===== *)
theory Routing
  imports Http GoStrings
begin

text \<open>
  The HTTP binding (\<^verbatim>\<open>httpbinding/httpbinding.go\<close>): routes and their compiled table, the native
  entry point with the path parameters it hands to the pipeline, the entry point of the contract
  document, and the endpoint that carries wire envelopes. A request is what \<^verbatim>\<open>net/http\<close> hands to a
  handler, with the outcome of reading its body; a reply is what the handler writes.
\<close>

section \<open>Routes\<close>

record route =
  rt_Method :: string
  rt_Path :: string
  rt_Topic :: topic

record templateRoute =
  tr_method :: string
  tr_segments :: "string list"
  tr_topic :: topic

record routeTable =
  tb_exact :: "(string \<times> topic) list"
  tb_templated :: "templateRoute list"

definition routeKey :: "string \<Rightarrow> string \<Rightarrow> string" where
  "routeKey verb path = toUpper verb @ '' '' @ path"

definition addRoute :: "route \<Rightarrow> routeTable \<Rightarrow> routeTable" where
  "addRoute r table =
    (if CHR ''{'' \<in> set (rt_Path r) then
       table\<lparr>tb_templated := tb_templated table @
         [\<lparr>tr_method = toUpper (rt_Method r), tr_segments = splitOn (CHR ''/'') (rt_Path r),
           tr_topic = rt_Topic r\<rparr>]\<rparr>
     else table\<lparr>tb_exact :=
       AList.update (routeKey (rt_Method r) (rt_Path r)) (rt_Topic r) (tb_exact table)\<rparr>)"

definition NewRouteTable :: "route list \<Rightarrow> routeTable" where
  "NewRouteTable declared = fold addRoute declared \<lparr>tb_exact = [], tb_templated = []\<rparr>"

text \<open>The name, the prefix and the suffix; \<open>None\<close> is not a parameter.\<close>

definition parseSegmentPlaceholder :: "string \<Rightarrow> (string \<times> string \<times> string) option" where
  "parseSegmentPlaceholder pattern = (case indexByte pattern (CHR ''{'') of
      None \<Rightarrow> None
    | Some opening \<Rightarrow> (case indexByte (drop (opening + 1) pattern) (CHR ''}'') of
        None \<Rightarrow> None
      | Some gap \<Rightarrow>
          (let closing = gap + (opening + 1) in
           if closing = opening + 1 then None
           else (let rest = drop (closing + 1) pattern in
             if list_ex (\<lambda>c. c \<in> set ''{}'') rest then None
             else Some (drop (opening + 1) (take closing pattern), take opening pattern, rest)))))"

fun matchSegments :: "string list \<Rightarrow> string list \<Rightarrow> headers \<Rightarrow> headers option" where
  "matchSegments [] values params = Some params"
| "matchSegments (p # ps) [] params = None"
| "matchSegments (pattern # ps) (segment # values) params =
    (case parseSegmentPlaceholder pattern of
       None \<Rightarrow> if pattern \<noteq> segment then None else matchSegments ps values params
     | Some (name, pre, suf) \<Rightarrow>
         if length segment < length pre + length suf \<or> \<not> hasPrefix segment pre \<or> \<not> hasSuffix segment suf
         then None
         else (let captured = drop (length pre) (take (length segment - length suf) segment) in
           if captured = '''' then None
           else matchSegments ps values (AList.update (toLower name) captured params)))"

definition matchTemplate :: "templateRoute \<Rightarrow> string \<Rightarrow> string \<Rightarrow> headers option" where
  "matchTemplate r verb path =
    (if tr_method r \<noteq> toUpper verb then None
     else (let segments = splitOn (CHR ''/'') path in
       if length segments \<noteq> length (tr_segments r) then None
       else matchSegments (tr_segments r) segments []))"

fun firstMatch :: "templateRoute list \<Rightarrow> string \<Rightarrow> string \<Rightarrow> (topic \<times> headers) option" where
  "firstMatch [] verb path = None"
| "firstMatch (r # rs) verb path = (case matchTemplate r verb path of
      Some params \<Rightarrow> Some (tr_topic r, params)
    | None \<Rightarrow> firstMatch rs verb path)"

definition Match :: "routeTable \<Rightarrow> string \<Rightarrow> string \<Rightarrow> (topic \<times> headers) option" where
  "Match table verb path = (case map_of (tb_exact table) (routeKey verb path) of
      Some topic \<Rightarrow> Some (topic, [])
    | None \<Rightarrow> firstMatch (tb_templated table) verb path)"

section \<open>Requests and replies\<close>

text \<open>\<^verbatim>\<open>http.Header\<close> and \<^verbatim>\<open>url.Values\<close>: each name with its values.\<close>

type_synonym multimap = "(string \<times> string list) list"

record httpRequest =
  hq_Method :: string
  hq_Path :: string
  hq_Header :: multimap
  hq_Query :: multimap
  hq_Body :: "goerr + string"

record httpReply =
  hr_Code :: int
  hr_Headers :: headers
  hr_Body :: string

text \<open>\<^verbatim>\<open>http.Error\<close> and \<^verbatim>\<open>http.NotFound\<close>\<close>

definition httpError :: "headers \<Rightarrow> string \<Rightarrow> int \<Rightarrow> httpReply" where
  "httpError hs message code =
    \<lparr>hr_Code = code, hr_Headers = hs @ [(''Content-Type'', ''text/plain; charset=utf-8''),
       (''X-Content-Type-Options'', ''nosniff'')], hr_Body = message @ [CHR 0x0A]\<rparr>"

definition headersFrom :: "multimap \<Rightarrow> headers" where
  "headersFrom h = fold (\<lambda>(key, vs) flat.
     if vs = [] then flat else AList.update (toLower key) (last vs) flat) h []"

definition queryGet :: "multimap \<Rightarrow> string \<Rightarrow> string" where
  "queryGet query name = (case goIndex query name [] of [] \<Rightarrow> '''' | v # vs \<Rightarrow> v)"

definition specTopicID :: string where
  "specTopicID = ''benzene:spec''"

definition SpecRequestBody :: "multimap \<Rightarrow> string" where
  "SpecRequestBody query =
    (let request = fold (\<lambda>name m. if hasKey query name then AList.update name (queryGet query name) m else m)
       [''type'', ''format''] [] in
     jprint (JObj (sort_key fst (map (\<lambda>(k, v). (k, JStr v)) request))))"

definition RouteBody :: "topic \<Rightarrow> string \<Rightarrow> multimap \<Rightarrow> string" where
  "RouteBody topic body query =
    (if ID topic = specTopicID \<and> trimSpace body = '''' then SpecRequestBody query else body)"

definition writeNativeResponse :: "(string \<Rightarrow> string option) \<Rightarrow> topic \<Rightarrow> response \<Rightarrow> httpReply" where
  "writeNativeResponse renumber topic resp =
    (case httpResponse renumber topic resp of (code, body, hs) \<Rightarrow>
      \<lparr>hr_Code = code,
       hr_Headers = fold (\<lambda>(key, v) m. AList.update (canonicalHeaderKey key) v m) hs [],
       hr_Body = body\<rparr>)"

section \<open>Entry points\<close>

text \<open>
  What an entry point does with a request: the reply at once, or the reply once the pipeline has
  run, with the state the pipeline leaves.
\<close>

type_synonym ('v, 'w) served = "httpReply outcome \<times> ('v, 'w) st option"

definition afterPipeline :: "httpReply outcome \<times> ('v, 'w) st \<Rightarrow> ('v, 'w) served" where
  "afterPipeline o1 = (fst o1, Some (snd o1))"

definition routeHeaders :: "multimap \<Rightarrow> headers \<Rightarrow> headers" where
  "routeHeaders h params =
    fold (\<lambda>(name, v) hs. AList.update (''route-'' @ name) v hs) params (headersFrom h)"

definition routeTopic :: "topic \<Rightarrow> headers \<Rightarrow> topic" where
  "routeTopic topic params = (case map_of params ''version'' of
      Some version \<Rightarrow> WithVersion topic version
    | None \<Rightarrow> topic)"

definition Handler ::
  "(string \<Rightarrow> string option) \<Rightarrow> 'v marshaller \<Rightarrow> ('v, 'w) middleware list option \<Rightarrow> route list \<Rightarrow>
   ctx \<Rightarrow> httpRequest \<Rightarrow> int \<Rightarrow> 'w \<Rightarrow> ('v, 'w) served" where
  "Handler renumber marshal pipeline declared c r now w =
    (let table = NewRouteTable declared in
     case Match table (hq_Method r) (hq_Path r) of
       None \<Rightarrow> (Return (httpError [] ''404 page not found'' 404), None)
     | Some (topic0, params) \<Rightarrow> (case hq_Body r of
         Inl err \<Rightarrow> (Return (httpError [] ''failed to read request body'' 400), None)
       | Inr body \<Rightarrow>
           (let hs = routeHeaders (hq_Header r) params; topic = routeTopic topic0 params in
            afterPipeline (andThen
              (DispatchTopicResult marshal pipeline c topic hs (RouteBody topic body (hq_Query r)) now w)
              (\<lambda>(resp, successful) s. (Return (writeNativeResponse renumber topic resp), s))))))"

definition SpecHandler ::
  "(string \<Rightarrow> string option) \<Rightarrow> 'v marshaller \<Rightarrow> ('v, 'w) middleware list option \<Rightarrow>
   ctx \<Rightarrow> httpRequest \<Rightarrow> int \<Rightarrow> 'w \<Rightarrow> ('v, 'w) served" where
  "SpecHandler renumber marshal pipeline c r now w =
    (if hq_Method r \<noteq> ''GET'' \<and> hq_Method r \<noteq> ''HEAD'' then
       (Return (httpError [(''Allow'', ''GET, HEAD'')] ''method not allowed'' 405), None)
     else
       (let topic = NewTopic specTopicID in
        afterPipeline (andThen
          (DispatchTopicResult marshal pipeline c topic (headersFrom (hq_Header r))
            (SpecRequestBody (hq_Query r)) now w)
          (\<lambda>(resp, successful) s. (Return (writeNativeResponse renumber topic resp), s)))))"

section \<open>The envelope endpoint\<close>

record envelopeConfig =
  ec_allow :: "(string \<Rightarrow> bool) option"

type_synonym envelopeOption = "envelopeConfig \<Rightarrow> envelopeConfig"

definition WithTopicFilter :: "(string \<Rightarrow> bool) \<Rightarrow> envelopeOption" where
  "WithTopicFilter allow c = c\<lparr>ec_allow := Some allow\<rparr>"

definition restricted :: "('v, 'w) middleware list" where
  "restricted = NewPipeline [\<lambda>c nx s.
     (case NotFound [''no handler found for topic '' @ goQuote (ID (ic_Topic (ic s)))] of
        Panic p \<Rightarrow> (Panic p, s)
      | Return r \<Rightarrow> (Return None, setResult (ResultAny r) s))]"

text \<open>
  \<open>syntaxError\<close> is the text of the error with which the JSON reader refuses a body; \<open>isNil\<close> tells
  whether the headers of the response are a nil map. The writer of responses has no error here: the
  JSON of an envelope of strings is always written.
\<close>

definition EnvelopeHandler ::
  "(string \<Rightarrow> string) \<Rightarrow> bool \<Rightarrow> 'v marshaller \<Rightarrow> ('v, 'w) middleware list option \<Rightarrow> envelopeOption list \<Rightarrow>
   ctx \<Rightarrow> httpRequest \<Rightarrow> int \<Rightarrow> 'w \<Rightarrow> ('v, 'w) served" where
  "EnvelopeHandler syntaxError isNil marshal pipeline0 opts c r now w =
    (let cfg = fold (\<lambda>opt c. opt c) opts \<lparr>ec_allow = None\<rparr> in
     case hq_Body r of
       Inl err \<Rightarrow> (Return (httpError [] ''failed to read request body'' 400), None)
     | Inr body \<Rightarrow> (case UnmarshalRequest body of
         (_, False) \<Rightarrow> (Return (httpError [] (''malformed envelope: '' @ syntaxError body) 400), None)
       | (req, True) \<Rightarrow>
           (let pipeline = (case ec_allow cfg of
                  None \<Rightarrow> pipeline0
                | Some allow \<Rightarrow> if \<not> allow (rq_Topic req) then Some restricted else pipeline0) in
            afterPipeline (andThen (Dispatch marshal pipeline c req now w)
              (\<lambda>resp s. (Return \<lparr>hr_Code = 200, hr_Headers = [(''Content-Type'', ''application/json'')],
                 hr_Body = MarshalResponse isNil resp\<rparr>, s))))))"

definition ListenAddr :: "string \<Rightarrow> string" where
  "ListenAddr port0 = (let port = (if port0 = '''' then ''8080'' else port0) in '':'' @ port)"

section \<open>Lemmas\<close>

lemma indexByte_Some: "indexByte s b = Some i \<Longrightarrow> s = take i s @ b # drop (Suc i) s \<and> b \<notin> set (take i s)"
proof (induction s arbitrary: i)
  case (Cons c cs)
  then show ?case by (cases i) (auto split: if_splits)
qed simp

lemma parse_placeholder:
  assumes "parseSegmentPlaceholder p = Some (name, pre, suf)"
  shows "p = pre @ CHR ''{'' # name @ CHR ''}'' # suf" "name \<noteq> ''''"
proof -
  from assms obtain i g where i: "indexByte p (CHR ''{'') = Some i"
    and g: "indexByte (drop (i + 1) p) (CHR ''}'') = Some g" "g \<noteq> 0"
    and nm: "name = drop (i + 1) (take (g + (i + 1)) p)" and pre: "pre = take i p"
    and suf: "suf = drop (g + (i + 1) + 1) p"
    by (auto simp: parseSegmentPlaceholder_def Let_def split: option.splits if_splits)
  have nm': "name = take g (drop (i + 1) p)" using nm by (simp add: drop_take)
  have suf': "suf = drop (Suc g) (drop (i + 1) p)" using suf by (simp add: add.commute)
  from indexByte_Some [OF i] indexByte_Some [OF g(1)]
  show "p = pre @ CHR ''{'' # name @ CHR ''}'' # suf"
    unfolding pre nm' suf' by simp
  show "name \<noteq> ''''"
    unfolding nm' using g indexByte_Some [OF g(1)] by (cases g; cases "drop (i + 1) p") auto
qed

text \<open>The templates of a table, and the topics of its exact paths.\<close>

definition isTemplate :: "route \<Rightarrow> bool" where
  "isTemplate d \<longleftrightarrow> CHR ''{'' \<in> set (rt_Path d)"

definition compiled :: "route \<Rightarrow> templateRoute" where
  "compiled d = \<lparr>tr_method = toUpper (rt_Method d), tr_segments = splitOn (CHR ''/'') (rt_Path d),
     tr_topic = rt_Topic d\<rparr>"

lemma fold_addRoute_templated:
  "tb_templated (fold addRoute declared table) = tb_templated table @ map compiled (filter isTemplate declared)"
  by (induction declared arbitrary: table) (simp_all add: addRoute_def compiled_def isTemplate_def)

lemma fold_addRoute_exact:
  "map_of (tb_exact (fold addRoute declared table)) key =
    (case find (\<lambda>d. \<not> isTemplate d \<and> routeKey (rt_Method d) (rt_Path d) = key) (rev declared) of
       Some d \<Rightarrow> Some (rt_Topic d) | None \<Rightarrow> map_of (tb_exact table) key)"
proof (induction declared rule: rev_induct)
  case (snoc d declared)
  then show ?case by (auto simp: addRoute_def isTemplate_def)
qed simp

lemma routeKey_eq:
  assumes "CHR '' '' \<notin> set verb" "CHR '' '' \<notin> set verb'"
  shows "routeKey verb path = routeKey verb' path' \<longleftrightarrow> toUpper verb = toUpper verb' \<and> path = path'"
proof
  have no: "CHR '' '' \<notin> set (toUpper v)" if "CHR '' '' \<notin> set v" for v
  proof
    assume "CHR '' '' \<in> set (toUpper v)"
    then obtain c where "c \<in> set v" "toUpperChar c = CHR '' ''" unfolding toUpper_def by force
    with that show False by (simp only: toUpperChar_space)
  qed
  assume "routeKey verb path = routeKey verb' path'"
  then have "toUpper verb @ CHR '' '' # path = toUpper verb' @ CHR '' '' # path'"
    by (simp add: routeKey_def)
  then have "splitOn (CHR '' '') (toUpper verb @ CHR '' '' # path) =
      splitOn (CHR '' '') (toUpper verb' @ CHR '' '' # path')" by simp
  then have "toUpper verb = toUpper verb'"
    using no [OF assms(1)] no [OF assms(2)] by (simp add: splitOn_append)
  then show "toUpper verb = toUpper verb' \<and> path = path'"
    using \<open>routeKey verb path = routeKey verb' path'\<close> by (simp add: routeKey_def)
qed (simp add: routeKey_def)

section \<open>Templates as functions of their parameters\<close>

definition paramNames :: "string list \<Rightarrow> string list" where
  "paramNames segments = concat (map (\<lambda>p. case parseSegmentPlaceholder p of
     None \<Rightarrow> [] | Some (name, pre, suf) \<Rightarrow> [toLower name]) segments)"

definition fillSegment :: "(string \<Rightarrow> string) \<Rightarrow> string \<Rightarrow> string" where
  "fillSegment \<sigma> p = (case parseSegmentPlaceholder p of
     None \<Rightarrow> p | Some (name, pre, suf) \<Rightarrow> pre @ \<sigma> (toLower name) @ suf)"

definition fillTemplate :: "(string \<Rightarrow> string) \<Rightarrow> string list \<Rightarrow> string" where
  "fillTemplate \<sigma> segments = join ''/'' (map (fillSegment \<sigma>) segments)"

lemma paramNames_simps [simp]:
  "paramNames [] = []"
  "paramNames (p # ps) = (case parseSegmentPlaceholder p of
     None \<Rightarrow> paramNames ps | Some (name, pre, suf) \<Rightarrow> toLower name # paramNames ps)"
  by (auto simp: paramNames_def split: option.splits)

lemma matchSegments_fill:
  assumes "\<And>n. n \<in> set (paramNames ps) \<Longrightarrow> \<sigma> n \<noteq> ''''"
  shows "\<exists>params'. matchSegments ps (map (fillSegment \<sigma>) ps) params = Some params' \<and>
    map_of params' = (\<lambda>n. if n \<in> set (paramNames ps) then Some (\<sigma> n) else map_of params n)"
  using assms
proof (induction ps arbitrary: params)
  case (Cons p ps)
  show ?case
  proof (cases "parseSegmentPlaceholder p")
    case None
    then show ?thesis using Cons by (simp add: fillSegment_def)
  next
    case (Some q)
    obtain name pre suf where q: "parseSegmentPlaceholder p = Some (name, pre, suf)"
      using Some by (cases q) auto
    let ?v = "\<sigma> (toLower name)"
    have v: "?v \<noteq> ''''" using Cons.prems q by simp
    have ok: "\<not> (length (pre @ ?v @ suf) < length pre + length suf \<or>
        \<not> hasPrefix (pre @ ?v @ suf) pre \<or> \<not> hasSuffix (pre @ ?v @ suf) suf)"
      using prefix_suffix_iff [of pre suf "pre @ ?v @ suf"] by auto
    from Cons.IH [of "AList.update (toLower name) ?v params"] Cons.prems q
    obtain params' where
      "matchSegments ps (map (fillSegment \<sigma>) ps) (AList.update (toLower name) ?v params) = Some params'"
      "map_of params' = (\<lambda>n. if n \<in> set (paramNames ps) then Some (\<sigma> n)
        else map_of (AList.update (toLower name) ?v params) n)" by auto
    moreover have "matchSegments (p # ps) (map (fillSegment \<sigma>) (p # ps)) params =
        matchSegments ps (map (fillSegment \<sigma>) ps) (AList.update (toLower name) ?v params)"
      using ok v by (simp add: q fillSegment_def Let_def)
    ultimately show ?thesis by (auto simp: q fun_eq_iff)
  qed
qed simp

lemma matchSegments_filled:
  assumes "matchSegments ps vs params = Some params'" "length vs = length ps" "distinct (paramNames ps)"
  shows "vs = map (fillSegment (\<lambda>n. goIndex params' n '''')) ps \<and>
    (\<forall>n. n \<in> set (paramNames ps) \<longrightarrow> goIndex params' n '''' \<noteq> '''') \<and>
    (\<forall>n. n \<notin> set (paramNames ps) \<longrightarrow> map_of params' n = map_of params n)"
  using assms
proof (induction ps vs params rule: matchSegments.induct)
  case (3 p ps segment vs params)
  show ?case
  proof (cases "parseSegmentPlaceholder p")
    case None
    then show ?thesis using 3 by (auto simp: fillSegment_def split: if_splits)
  next
    case (Some q)
    obtain name pre suf where q: "parseSegmentPlaceholder p = Some (name, pre, suf)"
      using Some by (cases q) auto
    let ?cap = "drop (length pre) (take (length segment - length suf) segment)"
    have fits: "length pre + length suf \<le> length segment \<and> hasPrefix segment pre \<and> hasSuffix segment suf"
      and cap: "?cap \<noteq> ''''"
      and rest: "matchSegments ps vs (AList.update (toLower name) ?cap params) = Some params'"
      using 3(3) q by (auto simp: Let_def split: if_splits)
    from fits obtain m where m: "segment = pre @ m @ suf" unfolding prefix_suffix_iff by blast
    then have capm: "?cap = m" by simp
    have "vs = map (fillSegment (\<lambda>n. goIndex params' n '''')) ps \<and>
      (\<forall>n. n \<in> set (paramNames ps) \<longrightarrow> goIndex params' n '''' \<noteq> '''') \<and>
      (\<forall>n. n \<notin> set (paramNames ps) \<longrightarrow> map_of params' n = map_of (AList.update (toLower name) ?cap params) n)"
      using 3(2) [OF q refl refl _ refl _ rest] fits cap 3(4,5) q by auto
    moreover have "toLower name \<notin> set (paramNames ps)" using 3(5) q by simp
    ultimately show ?thesis
      using q m capm cap by (auto simp: fillSegment_def goIndex_def)
  qed
qed simp_all

lemma find_cong_all: "(\<And>x. x \<in> set xs \<Longrightarrow> P x = Q x) \<Longrightarrow> find P xs = find Q xs"
  by (induction xs) auto

lemma pieces_free:
  assumes "p \<in> set (splitOn (CHR ''/'') path)" "\<And>n. n \<in> set (paramNames [p]) \<Longrightarrow> CHR ''/'' \<notin> set (\<sigma> n)"
  shows "CHR ''/'' \<notin> set (fillSegment \<sigma> p)"
proof (cases "parseSegmentPlaceholder p")
  case None
  then show ?thesis using splitOn_pieces [OF assms(1)] by (simp add: fillSegment_def)
next
  case (Some q)
  then obtain name pre suf where q: "parseSegmentPlaceholder p = Some (name, pre, suf)" by (cases q) auto
  have "p = pre @ CHR ''{'' # name @ CHR ''}'' # suf" by (rule parse_placeholder(1) [OF q])
  then have "CHR ''/'' \<notin> set pre" "CHR ''/'' \<notin> set suf" using splitOn_pieces [OF assms(1)] by auto
  then show ?thesis using assms(2) q by (simp add: fillSegment_def)
qed

lemma compiled_fill:
  assumes "tr_segments r = splitOn (CHR ''/'') path"
    and "\<And>n. n \<in> set (paramNames (tr_segments r)) \<Longrightarrow> CHR ''/'' \<notin> set (\<sigma> n)"
  shows "splitOn (CHR ''/'') (fillTemplate \<sigma> (tr_segments r)) = map (fillSegment \<sigma>) (tr_segments r)"
proof -
  have "CHR ''/'' \<notin> set s" if s: "s \<in> set (map (fillSegment \<sigma>) (tr_segments r))" for s
  proof -
    obtain p where p: "p \<in> set (splitOn (CHR ''/'') path)" "s = fillSegment \<sigma> p"
      using s assms(1) by auto
    have "set (paramNames [p]) \<subseteq> set (paramNames (tr_segments r))"
      using p(1) assms(1) by (auto simp: paramNames_def simp del: paramNames_simps)
    then show ?thesis using pieces_free [OF p(1), of \<sigma>] p(2) assms(2) by blast
  qed
  then show ?thesis unfolding fillTemplate_def using assms(1) by (intro splitOn_join) auto
qed

section \<open>Properties\<close>

text \<open>Matching is the route rule as documented: the last declared route whose
  path has no parameter and equals the request's, with the same method up to case, wins over every
  template; then the first declared template that matches; a captured match reports its
  parameters and an exact one none.\<close>

theorem match_is_route_rule:
  assumes "CHR '' '' \<notin> set verb" and "\<And>d. d \<in> set declared \<Longrightarrow> CHR '' '' \<notin> set (rt_Method d)"
  shows "Match (NewRouteTable declared) verb path =
    (case find (\<lambda>d. CHR ''{'' \<notin> set (rt_Path d) \<and> toUpper (rt_Method d) = toUpper verb \<and>
         rt_Path d = path) (rev declared) of
       Some d \<Rightarrow> Some (rt_Topic d, [])
     | None \<Rightarrow>
        (case find (\<lambda>d. CHR ''{'' \<in> set (rt_Path d) \<and> matchTemplate (compiled d) verb path \<noteq> None) declared of
           Some d \<Rightarrow> Some (rt_Topic d, the (matchTemplate (compiled d) verb path))
         | None \<Rightarrow> None))"
proof -
  have exact: "find (\<lambda>d. \<not> isTemplate d \<and> routeKey (rt_Method d) (rt_Path d) = routeKey verb path) (rev declared) =
    find (\<lambda>d. CHR ''{'' \<notin> set (rt_Path d) \<and> toUpper (rt_Method d) = toUpper verb \<and> rt_Path d = path) (rev declared)"
    using assms routeKey_eq by (intro find_cong_all) (auto simp: isTemplate_def)
  have first: "firstMatch (map compiled (filter isTemplate ds)) verb path =
    (case find (\<lambda>d. CHR ''{'' \<in> set (rt_Path d) \<and> matchTemplate (compiled d) verb path \<noteq> None) ds of
       Some d \<Rightarrow> Some (rt_Topic d, the (matchTemplate (compiled d) verb path)) | None \<Rightarrow> None)" for ds
    by (induction ds) (auto simp: isTemplate_def compiled_def split: option.splits)
  show ?thesis
    unfolding Match_def NewRouteTable_def fold_addRoute_exact fold_addRoute_templated exact
    by (simp add: first split: option.splits)
qed

definition orderRoutes :: "route list" where
  "orderRoutes =
    [\<lparr>rt_Method = ''GET'', rt_Path = ''/v{version}/orders/{id}'', rt_Topic = Topic ''order:get'' ''''\<rparr>,
     \<lparr>rt_Method = ''GET'', rt_Path = ''/orders/{Id}'', rt_Topic = Topic ''order:get'' ''''\<rparr>,
     \<lparr>rt_Method = ''get'', rt_Path = ''/orders/all'', rt_Topic = Topic ''order:list'' ''''\<rparr>]"

theorem match_is_route_rule_witness:
  "Match (NewRouteTable orderRoutes) ''GET'' ''/orders/all'' = Some (Topic ''order:list'' '''', [])"
proof -
  have upper: "toUpper ''get'' = ''GET''" "toUpper ''GET'' = ''GET''" by code_simp+
  show ?thesis
    by (subst match_is_route_rule) (auto simp: orderRoutes_def upper)
qed

text \<open>C17 (roundtrip). A template read as a function of its parameters: filling in any non-empty
  values without a slash gives a path that the template matches with exactly those values, and
  every path that a template with distinct parameter names matches is the one that its captured
  values fill in.\<close>

theorem route_params_roundtrip:
  fixes r :: templateRoute
  defines "names \<equiv> set (paramNames (tr_segments r))"
  assumes "r \<in> set (tb_templated (NewRouteTable declared))" and "toUpper verb = tr_method r"
    and "\<And>n. n \<in> names \<Longrightarrow> \<sigma> n \<noteq> '''' \<and> CHR ''/'' \<notin> set (\<sigma> n)"
  shows "(\<exists>params. matchTemplate r verb (fillTemplate \<sigma> (tr_segments r)) = Some params \<and>
      map_of params = (\<lambda>n. if n \<in> names then Some (\<sigma> n) else None)) \<and>
    (matchTemplate r verb path = Some params \<longrightarrow> distinct (paramNames (tr_segments r)) \<longrightarrow>
      path = fillTemplate (\<lambda>n. goIndex params n '''') (tr_segments r) \<and> dom (map_of params) = names)"
proof (intro conjI impI)
  from assms(2) obtain d where "r = compiled d"
    unfolding NewRouteTable_def fold_addRoute_templated by auto
  then have segs: "tr_segments r = splitOn (CHR ''/'') (rt_Path d)" by (simp add: compiled_def)
  have split: "splitOn (CHR ''/'') (fillTemplate \<sigma> (tr_segments r)) = map (fillSegment \<sigma>) (tr_segments r)"
    using assms(4) unfolding names_def by (intro compiled_fill [OF segs]) auto
  show "\<exists>params. matchTemplate r verb (fillTemplate \<sigma> (tr_segments r)) = Some params \<and>
      map_of params = (\<lambda>n. if n \<in> names then Some (\<sigma> n) else None)"
    using matchSegments_fill [of "tr_segments r" \<sigma> "[]"] assms(3,4)
    by (auto simp: matchTemplate_def split names_def fun_eq_iff)
  assume m: "matchTemplate r verb path = Some params" and dist: "distinct (paramNames (tr_segments r))"
  then have ms: "matchSegments (tr_segments r) (splitOn (CHR ''/'') path) [] = Some params"
    and len: "length (splitOn (CHR ''/'') path) = length (tr_segments r)"
    by (auto simp: matchTemplate_def Let_def split: if_splits)
  note filled = matchSegments_filled [OF ms len dist]
  show "dom (map_of params) = names"
  proof (intro set_eqI iffI)
    fix n assume "n \<in> dom (map_of params)"
    then show "n \<in> names" using filled unfolding names_def by force
  next
    fix n assume "n \<in> names"
    then show "n \<in> dom (map_of params)"
      using filled unfolding names_def by (force simp: goIndex_def split: option.splits)
  qed
  show "path = fillTemplate (\<lambda>n. goIndex params n '''') (tr_segments r)"
    unfolding fillTemplate_def using filled join_splitOn [of "CHR ''/''" path] by simp
qed

theorem route_params_roundtrip_witness:
  "let r = compiled (orderRoutes ! 0); \<sigma> = (\<lambda>n. if n = ''version'' then ''2'' else ''a7'') in
    fillTemplate \<sigma> (tr_segments r) = ''/v2/orders/a7'' \<and>
    (\<exists>params. matchTemplate r ''get'' ''/v2/orders/a7'' = Some params \<and>
      map_of params ''version'' = Some ''2'' \<and> map_of params ''id'' = Some ''a7'')"
proof -
  let ?r = "compiled (orderRoutes ! 0)"
  let ?s = "\<lambda>n. if n = ''version'' then ''2'' else ''a7'' :: string"
  have r: "?r \<in> set (tb_templated (NewRouteTable orderRoutes))"
    unfolding NewRouteTable_def fold_addRoute_templated by (simp add: orderRoutes_def isTemplate_def)
  have verb: "toUpper ''get'' = tr_method ?r" by code_simp
  have path: "fillTemplate ?s (tr_segments ?r) = ''/v2/orders/a7''" by code_simp
  have names: "set (paramNames (tr_segments ?r)) = {''version'', ''id''}" by code_simp
  have "?s n \<noteq> '''' \<and> CHR ''/'' \<notin> set (?s n)" for n by simp
  then obtain params where "matchTemplate ?r ''get'' ''/v2/orders/a7'' = Some params"
    and "map_of params = (\<lambda>n. if n \<in> {''version'', ''id''} then Some (?s n) else None)"
    using route_params_roundtrip [OF r verb, of ?s, THEN conjunct1] unfolding path names by blast
  then show ?thesis using path by (simp add: Let_def)
qed

text \<open>The headers and the topic that a matched request reaches the pipeline with.\<close>

lemma fold_routeHeaders:
  "goMap params \<Longrightarrow> map_of (fold (\<lambda>(name, v) hs. AList.update (''route-'' @ name) v hs) params hs) k =
    (case find (\<lambda>(name, v). k = ''route-'' @ name) params of Some (name, v) \<Rightarrow> Some v | None \<Rightarrow> map_of hs k)"
proof (induction params arbitrary: hs)
  case (Cons x params)
  obtain n v where x: "x = (n, v)" by (cases x)
  have "find (\<lambda>(name, v). k = ''route-'' @ name) params = None" if "k = ''route-'' @ n"
    using Cons.prems that x by (force simp: find_None_iff goMap_def)
  with Cons x show ?case by (auto simp: goMap_def split: option.splits)
qed simp

lemma matchSegments_goMap:
  "goMap params \<Longrightarrow> matchSegments ps vs params = Some params' \<Longrightarrow> goMap params'"
  by (induction ps vs params rule: matchSegments.induct)
    (auto simp: Let_def split: option.splits if_splits prod.splits)

lemma Match_goMap: "Match table verb path = Some (t, params) \<Longrightarrow> goMap params"
proof -
  have "firstMatch rs verb path = Some (t, params) \<Longrightarrow> goMap params" for rs
    by (induction rs) (auto simp: matchTemplate_def Let_def split: option.splits if_splits
        dest: matchSegments_goMap [OF goMap_Nil])
  then show "Match table verb path = Some (t, params) \<Longrightarrow> goMap params"
    by (auto simp: Match_def split: option.splits)
qed

lemma find_route:
  assumes "goMap params"
  shows "find (\<lambda>(name, v). ''route-'' @ n = ''route-'' @ name) params =
    map_option (Pair n) (map_of params n)"
  using assms by (induction params) (auto simp: goMap_def)

text \<open>C18 (safety). A path parameter cannot be spoofed and a version in the path wins: whatever headers
  the client sends, the pipeline sees every captured value under its route header, every other
  header as the client sent it last, and the captured version as the version of the topic, which
  the router then keeps whatever version header there is.\<close>

theorem route_parameters_unspoofable:
  fixes w :: 'w and marshal :: "'v marshaller"
  assumes "Match (NewRouteTable declared) (hq_Method r) (hq_Path r) = Some (topic, params)"
    and "hq_Body r = Inr body"
  shows "\<exists>hs t. Handler renumber marshal pipeline declared c r now w =
      afterPipeline (andThen (DispatchTopicResult marshal pipeline c t hs (RouteBody t body (hq_Query r)) now w)
        (\<lambda>(resp, successful) s. (Return (writeNativeResponse renumber t resp), s))) \<and>
    (\<forall>n. map_of params n \<noteq> None \<longrightarrow> map_of hs (''route-'' @ n) = map_of params n) \<and>
    (\<forall>k. (\<forall>n. map_of params n \<noteq> None \<longrightarrow> k \<noteq> ''route-'' @ n) \<longrightarrow>
      map_of hs k = map_of (headersFrom (hq_Header r)) k) \<and>
    ID t = ID topic \<and>
    (map_of params ''version'' \<notin> {None, Some ''''} \<longrightarrow>
      Some (Version (ic_Topic (resolveTopic key (invocationOf t hs b :: 'v invocation)))) =
        map_of params ''version'')"
proof (intro exI conjI)
  let ?hs = "routeHeaders (hq_Header r) params"
  let ?t = "routeTopic topic params"
  note params = Match_goMap [OF assms(1)]
  show "Handler renumber marshal pipeline declared c r now w =
      afterPipeline (andThen (DispatchTopicResult marshal pipeline c ?t ?hs (RouteBody ?t body (hq_Query r)) now w)
        (\<lambda>(resp, successful) s. (Return (writeNativeResponse renumber ?t resp), s)))"
    using assms by (simp add: Handler_def Let_def)
  show "\<forall>n. map_of params n \<noteq> None \<longrightarrow> map_of ?hs (''route-'' @ n) = map_of params n"
    unfolding routeHeaders_def fold_routeHeaders [OF params] find_route [OF params] by auto
  show "\<forall>k. (\<forall>n. map_of params n \<noteq> None \<longrightarrow> k \<noteq> ''route-'' @ n) \<longrightarrow>
      map_of ?hs k = map_of (headersFrom (hq_Header r)) k"
  proof (intro allI impI)
    fix k
    assume no: "\<forall>n. map_of params n \<noteq> None \<longrightarrow> k \<noteq> ''route-'' @ n"
    have "find (\<lambda>(name, v). k = ''route-'' @ name) params = None"
      unfolding find_None_iff using no by (auto simp: map_of_eq_None_iff rev_image_eqI)
    then show "map_of ?hs k = map_of (headersFrom (hq_Header r)) k"
      unfolding routeHeaders_def fold_routeHeaders [OF params] by simp
  qed
  show "ID ?t = ID topic" by (simp add: routeTopic_def WithVersion_def split: option.splits)
  show "map_of params ''version'' \<notin> {None, Some ''''} \<longrightarrow>
      Some (Version (ic_Topic (resolveTopic key (invocationOf ?t ?hs b :: 'v invocation)))) =
        map_of params ''version''"
    by (auto simp: routeTopic_def WithVersion_def resolveTopic_def invocationOf_def NewInvocationContext_def)
qed

definition spoofing :: httpRequest where
  "spoofing = \<lparr>hq_Method = ''get'', hq_Path = ''/v2/orders/a7'',
     hq_Header = [(''Route-Id'', [''evil'']), (''Benzene-Version'', [''9''])], hq_Query = [],
     hq_Body = Inr ''''\<rparr>"

theorem route_parameters_unspoofable_witness:
  "\<exists>hs t. Handler Some (\<lambda>p. Inr '''') (Some []) orderRoutes background spoofing 0 () =
      afterPipeline (andThen (DispatchTopicResult (\<lambda>p :: nat any. Inr '''') (Some []) background t hs
          (RouteBody t '''' (hq_Query spoofing)) 0 ())
        (\<lambda>(resp, successful) s. (Return (writeNativeResponse Some t resp), s))) \<and>
    map_of hs ''route-id'' = Some ''a7'' \<and> ID t = ''order:get'' \<and>
    Version (ic_Topic (resolveTopic ''benzene-version'' (invocationOf t hs '''' :: nat invocation))) = ''2''"
proof -
  let ?ps = "[(''version'', ''2''), (''id'', ''a7'')]"
  have m: "Match (NewRouteTable orderRoutes) (hq_Method spoofing) (hq_Path spoofing) =
      Some (Topic ''order:get'' '''', ?ps)"
    by code_simp
  have body: "hq_Body spoofing = Inr ''''" by (simp add: spoofing_def)
  obtain hs t where h: "Handler Some (\<lambda>p. Inr '''') (Some []) orderRoutes background spoofing 0 () =
      afterPipeline (andThen (DispatchTopicResult (\<lambda>p :: nat any. Inr '''') (Some []) background t hs
          (RouteBody t '''' (hq_Query spoofing)) 0 ())
        (\<lambda>(resp, successful) s. (Return (writeNativeResponse Some t resp), s)))"
    and params: "\<forall>n. map_of ?ps n \<noteq> None \<longrightarrow> map_of hs (''route-'' @ n) = map_of ?ps n"
    and t: "ID t = ID (Topic ''order:get'' '''')"
    and v: "map_of ?ps ''version'' \<notin> {None, Some ''''} \<longrightarrow>
      Some (Version (ic_Topic (resolveTopic ''benzene-version'' (invocationOf t hs '''' :: nat invocation)))) =
        map_of ?ps ''version''"
    using route_parameters_unspoofable [OF m body, of Some "\<lambda>p. Inr ''''" "Some []" background 0 "()"
        "''benzene-version''" "''''"]
    by (elim exE conjE) (rule that)
  show ?thesis
  proof (intro exI conjI)
    show "map_of hs ''route-id'' = Some ''a7''" using params [rule_format, of "''id''"] by simp
    show "Version (ic_Topic (resolveTopic ''benzene-version'' (invocationOf t hs '''' :: nat invocation))) = ''2''"
      using v by simp
  qed (use h t in simp_all)
qed

section \<open>The envelope endpoint\<close>

text \<open>The answer for a topic without a handler, and the pipelines that give it.\<close>

definition notFoundResponse :: "string \<Rightarrow> response" where
  "notFoundResponse m = errorResponse (ResultAny (failed StatusNotFound [m]) :: unit resultInfo)"

lemma responseOf_unmatched:
  "responseOf marshal (ResultAny (failed StatusNotFound [m])) = notFoundResponse m"
  "responseOf marshal (ResultAny ((failed StatusNotFound [m])\<lparr>r_unmatched := True\<rparr>)) = notFoundResponse m"
  by (simp_all add: responseOf_def notFoundResponse_def errorResponse_def problemDocument_def ProblemsOf_def
      IsSuccessful_def failed_def)

lemma Run_NewPipeline_single: "Run (Some (NewPipeline [mw])) c s = mw c done_run s"
  by (simp add: NewPipeline_def Run_onion)

lemma Dispatch_run:
  assumes "Run pipeline c \<lparr>ic = invocationOf (NewTopic (rq_Topic req)) (rq_Headers req) (rq_Body req),
      clock = now, env = w\<rparr> = (Return e, s)"
  shows "Dispatch marshal pipeline c req now w = (Return (fst (settledResponse marshal e s)), s)"
  using assms by (simp add: Dispatch_def DispatchResult_def DispatchTopicResult_def envelopeDispatch_run
      split: prod.split)

lemma ic_fields_setResult [simp]:
  "withResponseHeaders resp (ic (setResult r s)) = withResponseHeaders resp (ic s)"
  by (simp add: withResponseHeaders_def)

lemma invocationOf_simps [simp]:
  "ic_Topic (invocationOf t hs b) = t" "ic_Headers (invocationOf t hs b) = hs"
  "withResponseHeaders resp (invocationOf t hs b) = resp"
  by (simp_all add: invocationOf_def NewInvocationContext_def withResponseHeaders_def)

lemma Dispatch_restricted:
  "\<exists>s. Dispatch marshal (Some restricted) c req now w =
    (Return (notFoundResponse (''no handler found for topic '' @ goQuote (rq_Topic req))), s) \<and> clock s = now \<and> env s = w"
proof -
  have "Run (Some restricted) c \<lparr>ic = invocationOf (NewTopic (rq_Topic req)) (rq_Headers req) (rq_Body req),
      clock = now, env = w\<rparr> = (Return None, setResult (ResultAny (failed StatusNotFound
        [''no handler found for topic '' @ goQuote (rq_Topic req)]))
      \<lparr>ic = invocationOf (NewTopic (rq_Topic req)) (rq_Headers req) (rq_Body req), clock = now, env = w\<rparr>)"
    by (simp add: restricted_def Run_NewPipeline_single NewTopic_def)
  note Dispatch_run [OF this, of marshal]
  then show ?thesis by (simp add: settledResponse_def responseOf_unmatched)
qed

lemma Dispatch_router_unmatched:
  assumes "rq_Topic req \<notin> {'''', PingTopic}" and "snd (lookup registry (ic_Topic (resolveTopic (routerKey opts)
      (invocationOf (NewTopic (rq_Topic req)) (rq_Headers req) (rq_Body req) :: 'v invocation)))) = unknownTopic"
  shows "fst (Dispatch (marshal :: 'v marshaller) (Some (NewPipeline [snd (RouterMiddleware registry opts)])) c req now w) =
    Return (notFoundResponse (''no handler found for topic '' @ goQuote (rq_Topic req)))"
proof -
  let ?i = "invocationOf (NewTopic (rq_Topic req)) (rq_Headers req) (rq_Body req) :: 'v invocation"
  have "routed registry (routerKey opts) c \<lparr>ic = ?i, clock = now, env = w\<rparr> =
      (ResultAny ((failed StatusNotFound [''no handler found for topic '' @
        goQuote (rq_Topic req)])\<lparr>r_unmatched := True\<rparr>),
       \<lparr>ic = resolveTopic (routerKey opts) ?i, clock = now, env = w\<rparr>)"
    using assms by (simp add: routed_def NewTopic_def)
  then have "Run (Some (NewPipeline [snd (RouterMiddleware registry opts)])) c \<lparr>ic = ?i, clock = now, env = w\<rparr> =
      (Return None, setResult (ResultAny ((failed StatusNotFound [''no handler found for topic '' @
        goQuote (rq_Topic req)])\<lparr>r_unmatched := True\<rparr>))
       \<lparr>ic = resolveTopic (routerKey opts) ?i, clock = now, env = w\<rparr>)"
    unfolding Run_NewPipeline_single router_routed done_run_def by simp
  note Dispatch_run [OF this, of marshal]
  moreover have "withResponseHeaders resp (resolveTopic (routerKey opts) ?i) = resp" for resp
    by (simp add: resolveTopic_def withResponseHeaders_def invocationOf_def NewInvocationContext_def)
  ultimately show ?thesis by (simp add: settledResponse_def responseOf_unmatched)
qed

lemma EnvelopeHandler_processed:
  assumes "hq_Body r = Inr body" and "UnmarshalRequest body = (req, True)"
    and "fold (\<lambda>opt c. opt c) opts \<lparr>ec_allow = None\<rparr> = \<lparr>ec_allow = filt\<rparr>"
  shows "EnvelopeHandler syntaxError isNil marshal pipeline opts c r now w =
    afterPipeline (andThen (Dispatch marshal
        (case filt of None \<Rightarrow> pipeline | Some allow \<Rightarrow>
          if \<not> allow (rq_Topic req) then Some restricted else pipeline) c req now w)
      (\<lambda>resp s. (Return \<lparr>hr_Code = 200, hr_Headers = [(''Content-Type'', ''application/json'')],
         hr_Body = MarshalResponse isNil resp\<rparr>, s)))"
  using assms by (simp add: EnvelopeHandler_def Let_def)

lemma routed_reply:
  assumes "rq_Topic req \<notin> {'''', PingTopic}" and "snd (lookup registry (ic_Topic (resolveTopic (routerKey opts)
      (invocationOf (NewTopic (rq_Topic req)) (rq_Headers req) (rq_Body req) :: 'v invocation)))) = unknownTopic"
  shows "fst (afterPipeline (andThen (Dispatch (marshal :: 'v marshaller)
      (Some (NewPipeline [snd (RouterMiddleware registry opts)])) c req now w)
      (\<lambda>resp s. (Return (reply resp), s)))) =
    Return (reply (notFoundResponse (''no handler found for topic '' @ goQuote (rq_Topic req))))"
proof -
  obtain s where "Dispatch marshal (Some (NewPipeline [snd (RouterMiddleware registry opts)])) c req now w =
      (Return (notFoundResponse (''no handler found for topic '' @ goQuote (rq_Topic req))), s)"
    using Dispatch_router_unmatched [OF assms, of marshal c now w] by (metis prod.collapse)
  then show ?thesis by (simp only: afterPipeline_def andThen_simps fst_conv)
qed

text \<open>C19 (functional). The envelope endpoint answers 200 to every envelope it processes, with a body that
  reads back as the response of the dispatch; a topic filter changes nothing for a topic it allows;
  a topic it rejects never reaches the pipeline, leaves the world as it was, and gets byte for byte
  the reply that a service with only a router gives to a topic nobody handles.\<close>

theorem envelope_endpoint_answers:
  fixes marshal :: "'v marshaller"
  assumes "hq_Body r = Inr body" and "UnmarshalRequest body = (req, True)"
    and "Dispatch marshal pipeline c req now w = (Return resp, s)"
    and "validHeaders (rs_Headers resp)" "validText (rs_StatusCode resp)" "validText (rs_Body resp)"
  shows "(\<exists>reply. EnvelopeHandler syntaxError isNil marshal pipeline [] c r now w = (Return reply, Some s) \<and>
      hr_Code reply = 200 \<and>
      UnmarshalResponse (hr_Body reply) = (resp\<lparr>rs_Headers := sort_key fst (rs_Headers resp)\<rparr>, True)) \<and>
    (allow (rq_Topic req) \<longrightarrow>
      EnvelopeHandler syntaxError isNil marshal pipeline [WithTopicFilter allow] c r now w =
      EnvelopeHandler syntaxError isNil marshal pipeline [] c r now w) \<and>
    (\<not> allow (rq_Topic req) \<longrightarrow>
      (\<exists>reply s'. EnvelopeHandler syntaxError isNil marshal pipeline [WithTopicFilter allow] c r now w =
          (Return reply, Some s') \<and> env s' = w \<and> clock s' = now \<and> hr_Code reply = 200 \<and>
        (rq_Topic req \<notin> {'''', PingTopic} \<longrightarrow>
          snd (lookup registry (ic_Topic (resolveTopic (routerKey opts) (invocationOf
            (NewTopic (rq_Topic req)) (rq_Headers req) (rq_Body req) :: 'v invocation)))) = unknownTopic \<longrightarrow>
          fst (EnvelopeHandler syntaxError isNil marshal
            (Some (NewPipeline [snd (RouterMiddleware registry opts)])) [] c r now w) = Return reply)))"
proof (intro conjI impI)
  note none = EnvelopeHandler_processed [OF assms(1,2), of "[]" None, simplified]
  have "fold (\<lambda>opt c. opt c) [WithTopicFilter allow] \<lparr>ec_allow = None\<rparr> = \<lparr>ec_allow = Some allow\<rparr>"
    by (simp add: WithTopicFilter_def)
  note filtered = EnvelopeHandler_processed [OF assms(1,2) this]
  show "\<exists>reply. EnvelopeHandler syntaxError isNil marshal pipeline [] c r now w = (Return reply, Some s) \<and>
      hr_Code reply = 200 \<and>
      UnmarshalResponse (hr_Body reply) = (resp\<lparr>rs_Headers := sort_key fst (rs_Headers resp)\<rparr>, True)"
    using response_roundtrip [OF assms(4-6)] by (simp add: none assms(3) afterPipeline_def)
  {
    assume "allow (rq_Topic req)"
    then show "EnvelopeHandler syntaxError isNil marshal pipeline [WithTopicFilter allow] c r now w =
        EnvelopeHandler syntaxError isNil marshal pipeline [] c r now w"
      by (simp add: none filtered)
  }
  assume no: "\<not> allow (rq_Topic req)"
  let ?resp = "notFoundResponse (''no handler found for topic '' @ goQuote (rq_Topic req))"
  let ?reply = "\<lambda>resp. \<lparr>hr_Code = 200, hr_Headers = [(''Content-Type'', ''application/json'')],
    hr_Body = MarshalResponse isNil resp\<rparr>"
  obtain s' where d: "Dispatch marshal (Some restricted) c req now w = (Return ?resp, s')"
    and s': "clock s' = now" "env s' = w"
    using Dispatch_restricted [of marshal c req now w] by (elim exE conjE) (rule that)
  have e: "EnvelopeHandler syntaxError isNil marshal pipeline [WithTopicFilter allow] c r now w =
      (Return (?reply ?resp), Some s')"
    unfolding filtered option.case if_P [OF no] d andThen_simps afterPipeline_def fst_conv snd_conv ..
  have u: "fst (EnvelopeHandler syntaxError isNil marshal
        (Some (NewPipeline [snd (RouterMiddleware registry opts)])) [] c r now w) = Return (?reply ?resp)"
    if "rq_Topic req \<notin> {'''', PingTopic}" and "snd (lookup registry (ic_Topic (resolveTopic (routerKey opts)
      (invocationOf (NewTopic (rq_Topic req)) (rq_Headers req) (rq_Body req) :: 'v invocation)))) = unknownTopic"
    unfolding none option.case by (rule routed_reply [OF that])
  show "\<exists>reply s'. EnvelopeHandler syntaxError isNil marshal pipeline [WithTopicFilter allow] c r now w =
          (Return reply, Some s') \<and> env s' = w \<and> clock s' = now \<and> hr_Code reply = 200 \<and>
        (rq_Topic req \<notin> {'''', PingTopic} \<longrightarrow>
          snd (lookup registry (ic_Topic (resolveTopic (routerKey opts) (invocationOf
            (NewTopic (rq_Topic req)) (rq_Headers req) (rq_Body req) :: 'v invocation)))) = unknownTopic \<longrightarrow>
          fst (EnvelopeHandler syntaxError isNil marshal
            (Some (NewPipeline [snd (RouterMiddleware registry opts)])) [] c r now w) = Return reply)"
    by (intro exI conjI impI, rule e, rule s'(2), rule s'(1), simp only: httpReply.simps, rule u)
qed

definition secretRequest :: request where
  "secretRequest = \<lparr>rq_Topic = ''secret'', rq_Headers = [], rq_Body = ''''\<rparr>"

definition okPipeline :: "(nat, nat) middleware list" where
  "okPipeline = [\<lambda>c nx s. (Return None, setResult (ResultAny (resultOf StatusOk)) (s\<lparr>env := env s + 1\<rparr>))]"

definition posted :: httpRequest where
  "posted = \<lparr>hq_Method = ''POST'', hq_Path = ''/benzene/invoke'', hq_Header = [], hq_Query = [],
     hq_Body = Inr (MarshalRequest True secretRequest)\<rparr>"

lemma okPipeline_dispatch:
  "\<exists>s. Dispatch marshal (Some okPipeline) c secretRequest now w =
    (Return \<lparr>rs_StatusCode = StatusOk, rs_Headers = [], rs_Body = '''', rs_IsSuccessful = Some True\<rparr>, s) \<and> env s = w + 1"
proof -
  have ok: "\<not> IsFailure StatusOk" by code_simp
  have "Run (Some okPipeline) c \<lparr>ic = invocationOf (NewTopic (rq_Topic secretRequest)) (rq_Headers secretRequest)
        (rq_Body secretRequest), clock = now, env = w\<rparr> =
      (Return None, setResult (ResultAny (resultOf StatusOk)) \<lparr>ic = invocationOf (NewTopic (rq_Topic secretRequest))
        (rq_Headers secretRequest) (rq_Body secretRequest), clock = now, env = w + 1\<rparr>)"
    by (simp add: okPipeline_def Run_onion)
  note Dispatch_run [OF this, of marshal]
  then show ?thesis by (simp add: settledResponse_def responseOf_def ok)
qed

theorem envelope_endpoint_answers_witness:
  "let handle = (\<lambda>pipeline opts. EnvelopeHandler id True (\<lambda>p :: nat any. Inr '''') pipeline opts background posted 0 (7 :: nat));
     hidden = [WithTopicFilter (\<lambda>t. t \<noteq> ''secret'')] in
   (\<exists>reply s. handle (Some okPipeline) [] = (Return reply, Some s) \<and> hr_Code reply = 200 \<and> env s = 8 \<and>
      UnmarshalResponse (hr_Body reply) =
        (\<lparr>rs_StatusCode = StatusOk, rs_Headers = [], rs_Body = '''', rs_IsSuccessful = Some True\<rparr>, True)) \<and>
   (\<exists>reply s. handle (Some okPipeline) hidden = (Return reply, Some s) \<and> env s = 7 \<and> hr_Code reply = 200 \<and>
      fst (handle (Some (NewPipeline [snd (RouterMiddleware NewRegistry [])])) []) = Return reply)"
proof -
  let ?resp = "\<lparr>rs_StatusCode = StatusOk, rs_Headers = [], rs_Body = '''', rs_IsSuccessful = Some True\<rparr>"
  have body: "hq_Body posted = Inr (MarshalRequest True secretRequest)" by (simp add: posted_def)
  have req: "UnmarshalRequest (MarshalRequest True secretRequest) = (secretRequest, True)"
    using request_roundtrip [of secretRequest True]
    by (simp add: secretRequest_def validHeaders_def goMap_def validText_ascii byteIn_def)
  obtain s where d: "Dispatch (\<lambda>p :: nat any. Inr '''') (Some okPipeline) background secretRequest 0 (7 :: nat) =
      (Return ?resp, s)" and s: "env s = 8"
    using okPipeline_dispatch [of "\<lambda>p :: nat any. Inr ''''" background 0 7] by auto
  have valid: "validHeaders (rs_Headers ?resp)" "validText (rs_StatusCode ?resp)" "validText (rs_Body ?resp)"
    by (simp_all add: validHeaders_def goMap_def validText_ascii byteIn_def StatusOk_def)
  have topic: "rq_Topic secretRequest = ''secret''" "''secret'' \<notin> {'''', PingTopic}" by code_simp+
  have nobody: "snd (lookup (NewRegistry :: (nat, nat) erasedHandler registry) t) = unknownTopic" for t
    by (simp add: lookup_def NewRegistry_def goIndex_def)
  note claim = envelope_endpoint_answers [OF body req d valid, of id True "\<lambda>t. t \<noteq> ''secret''"
      "NewRegistry :: (nat, nat) erasedHandler registry" "[]", unfolded topic(1) nobody]
  from claim [THEN conjunct1] s
  have one: "\<exists>reply s. EnvelopeHandler id True (\<lambda>p :: nat any. Inr '''') (Some okPipeline) [] background posted 0 (7 :: nat) =
      (Return reply, Some s) \<and> hr_Code reply = 200 \<and> env s = 8 \<and> UnmarshalResponse (hr_Body reply) = (?resp, True)"
    by auto
  from claim [THEN conjunct2, THEN conjunct2] topic(2)
  have "\<exists>reply s. EnvelopeHandler id True (\<lambda>p :: nat any. Inr '''') (Some okPipeline)
      [WithTopicFilter (\<lambda>t. t \<noteq> ''secret'')] background posted 0 (7 :: nat) = (Return reply, Some s) \<and>
      env s = 7 \<and> hr_Code reply = 200 \<and> fst (EnvelopeHandler id True (\<lambda>p :: nat any. Inr '''')
        (Some (NewPipeline [snd (RouterMiddleware NewRegistry [])])) [] background posted 0 (7 :: nat)) = Return reply"
    by auto
  with one show ?thesis by (simp only: Let_def)
qed

text \<open>
  A topic that the filter rejects can be told apart from one that nobody handles as soon as the pipeline
  has more than a router: an authentication middleware refuses the second and never sees the first.
\<close>

lemma restricted_told_apart:
  fixes w :: 'w
  defines "guard \<equiv> (\<lambda>c nx s. (Return None, setResult (ResultAny (failed StatusUnauthorized [])) s)) :: ('v, 'w) middleware"
  defines "pipeline \<equiv> Some (NewPipeline [guard, snd (RouterMiddleware NewRegistry [])])"
  shows "\<exists>s1 s2 r1 r2. Dispatch (marshal :: 'v marshaller) (Some restricted) c req now w = (Return r1, s1) \<and>
    Dispatch marshal pipeline c req now w = (Return r2, s2) \<and>
    rs_StatusCode r1 = StatusNotFound \<and> rs_StatusCode r2 = StatusUnauthorized"
proof -
  let ?s = "\<lparr>ic = invocationOf (NewTopic (rq_Topic req)) (rq_Headers req) (rq_Body req), clock = now, env = w\<rparr>"
  have "Run pipeline c ?s = (Return None, setResult (ResultAny (failed StatusUnauthorized [])) ?s)"
    by (simp add: pipeline_def guard_def NewPipeline_def Run_onion)
  note Dispatch_run [OF this, of marshal]
  moreover have "rs_StatusCode (responseOf marshal (ResultAny (failed StatusUnauthorized []))) = StatusUnauthorized"
    by (simp add: responseOf_status)
  moreover have "rs_StatusCode (notFoundResponse m) = StatusNotFound" for m
    by (simp add: notFoundResponse_def errorResponse_def)
  moreover obtain s' where "Dispatch marshal (Some restricted) c req now w =
      (Return (notFoundResponse (''no handler found for topic '' @ goQuote (rq_Topic req))), s')"
    using Dispatch_restricted [of marshal c req now w] by (elim exE conjE) (rule that)
  ultimately show ?thesis by (simp add: settledResponse_def)
qed

end
