(* ===== verification/Contract.thy ===== *)
theory Contract
  imports Envelope GoStrings
begin

text \<open>
  The Contract Document (\<^verbatim>\<open>contract/document.go\<close>) with its JSON, the registry of what a service
  publishes and sends (\<^verbatim>\<open>contract/outbound.go\<close>), and the middleware that serves the document on the
  reserved \<^verbatim>\<open>benzene:spec\<close> topic (\<^verbatim>\<open>contract/middleware.go\<close>). A member that may be nil is an option.
  A captured \<^verbatim>\<open>reflect.Type\<close> is a value of an arbitrary type.
\<close>

section \<open>The document (document.go)\<close>

definition SpecTopic :: string where "SpecTopic = ''benzene:spec''"
definition ReservedPrefix :: string where "ReservedPrefix = ''benzene:''"
definition RefPrefix :: string where "RefPrefix = ''#/components/schemas/''"
definition MemberRequests :: string where "MemberRequests = ''requests''"
definition MemberEvents :: string where "MemberEvents = ''events''"
definition MemberSends :: string where "MemberSends = ''sends''"

definition IsReserved :: "string \<Rightarrow> bool" where
  "IsReserved topic = hasPrefix topic ReservedPrefix"

type_synonym schema = "(string \<times> json) list"

record placement =
  pl_Cloud :: string
  pl_Region :: string

record profile =
  pf_Name :: string
  pf_Missing :: "string list"

record httpMapping =
  hm_Method :: string
  hm_Path :: string

record docRequest =
  dq_Topic :: string
  dq_Version :: string
  dq_HTTPMappings :: "httpMapping list"
  dq_Request :: "schema option"
  dq_Response :: "schema option"
  dq_Example :: "json option"

record docEvent =
  de_Topic :: string
  de_Version :: string
  de_Message :: "schema option"
  de_Example :: "json option"

record docSend =
  ds_Topic :: string
  ds_Version :: string
  ds_Request :: "schema option"
  ds_Response :: "schema option"

record document =
  doc_SchemaDialect :: string
  doc_Service :: string
  doc_ServiceVersion :: string
  doc_VersionScheme :: string
  doc_Description :: string
  doc_Runtime :: string
  doc_Placement :: "placement option"
  doc_Profile :: "profile option"
  doc_Degraded :: "string list"
  doc_MessageEndpoint :: string
  doc_Transports :: "string list"
  doc_ContractHash :: string
  doc_RegistrationHash :: string
  doc_Requests :: "docRequest list option"
  doc_Events :: "docEvent list option"
  doc_Sends :: "docSend list option"
  doc_Components :: "(string \<times> schema) list option"

text \<open>The JSON of a document: \<^verbatim>\<open>encoding/json\<close> writes the members of a map in key order.\<close>

fun sortedJson :: "json \<Rightarrow> json" where
  "sortedJson (JArr js) = JArr (map sortedJson js)"
| "sortedJson (JObj ms) = JObj (sort_key fst (map (\<lambda>(k, j). (k, sortedJson j)) ms))"
| "sortedJson j = j"

definition schemaJson :: "schema option \<Rightarrow> json" where
  "schemaJson s = (case s of None \<Rightarrow> JNull | Some m \<Rightarrow> sortedJson (JObj m))"

definition placementJson :: "placement \<Rightarrow> json" where
  "placementJson p = WireJson.fields
    [(True, ''cloud'', JStr (pl_Cloud p)), (pl_Region p \<noteq> '''', ''region'', JStr (pl_Region p))]"

definition profileJson :: "profile \<Rightarrow> json" where
  "profileJson p = WireJson.fields
    [(True, ''name'', JStr (pf_Name p)),
     (pf_Missing p \<noteq> [], ''missing'', JArr (map JStr (pf_Missing p)))]"

definition mappingJson :: "httpMapping \<Rightarrow> json" where
  "mappingJson h = WireJson.fields [(True, ''method'', JStr (hm_Method h)), (True, ''path'', JStr (hm_Path h))]"

definition docRequestJson :: "docRequest \<Rightarrow> json" where
  "docRequestJson r = WireJson.fields
    [(True, ''topic'', JStr (dq_Topic r)),
     (dq_Version r \<noteq> '''', ''version'', JStr (dq_Version r)),
     (dq_HTTPMappings r \<noteq> [], ''httpMappings'', JArr (map mappingJson (dq_HTTPMappings r))),
     (True, ''request'', schemaJson (dq_Request r)),
     (dq_Response r \<noteq> None, ''response'', schemaJson (dq_Response r)),
     (dq_Example r \<noteq> None, ''example'', (case dq_Example r of None \<Rightarrow> JNull | Some j \<Rightarrow> sortedJson j))]"

definition docEventJson :: "docEvent \<Rightarrow> json" where
  "docEventJson e = WireJson.fields
    [(True, ''topic'', JStr (de_Topic e)),
     (de_Version e \<noteq> '''', ''version'', JStr (de_Version e)),
     (True, ''message'', schemaJson (de_Message e)),
     (de_Example e \<noteq> None, ''example'', (case de_Example e of None \<Rightarrow> JNull | Some j \<Rightarrow> sortedJson j))]"

definition docSendJson :: "docSend \<Rightarrow> json" where
  "docSendJson s = WireJson.fields
    [(True, ''topic'', JStr (ds_Topic s)),
     (ds_Version s \<noteq> '''', ''version'', JStr (ds_Version s)),
     (True, ''request'', schemaJson (ds_Request s)),
     (ds_Response s \<noteq> None, ''response'', schemaJson (ds_Response s))]"

definition listJson :: "('a \<Rightarrow> json) \<Rightarrow> 'a list option \<Rightarrow> json" where
  "listJson f xs = (case xs of None \<Rightarrow> JNull | Some ys \<Rightarrow> JArr (map f ys))"

definition documentJson :: "document \<Rightarrow> json" where
  "documentJson d = WireJson.fields
    [(True, ''schemaDialect'', JStr (doc_SchemaDialect d)),
     (True, ''service'', JStr (doc_Service d)),
     (doc_ServiceVersion d \<noteq> '''', ''serviceVersion'', JStr (doc_ServiceVersion d)),
     (doc_VersionScheme d \<noteq> '''', ''versionScheme'', JStr (doc_VersionScheme d)),
     (doc_Description d \<noteq> '''', ''description'', JStr (doc_Description d)),
     (doc_Runtime d \<noteq> '''', ''runtime'', JStr (doc_Runtime d)),
     (doc_Placement d \<noteq> None, ''placement'', (case doc_Placement d of None \<Rightarrow> JNull | Some p \<Rightarrow> placementJson p)),
     (doc_Profile d \<noteq> None, ''profile'', (case doc_Profile d of None \<Rightarrow> JNull | Some p \<Rightarrow> profileJson p)),
     (doc_Degraded d \<noteq> [], ''degraded'', JArr (map JStr (doc_Degraded d))),
     (doc_MessageEndpoint d \<noteq> '''', ''messageEndpoint'', JStr (doc_MessageEndpoint d)),
     (doc_Transports d \<noteq> [], ''transports'', JArr (map JStr (doc_Transports d))),
     (True, ''contractHash'', JStr (doc_ContractHash d)),
     (True, ''registrationHash'', JStr (doc_RegistrationHash d)),
     (True, ''requests'', listJson docRequestJson (doc_Requests d)),
     (True, ''events'', listJson docEventJson (doc_Events d)),
     (True, ''sends'', listJson docSendJson (doc_Sends d)),
     (True, ''components'', WireJson.fields [(True, ''schemas'', (case doc_Components d of None \<Rightarrow> JNull
        | Some cs \<Rightarrow> JObj (map (\<lambda>(k, s). (k, schemaJson (Some s))) (sort_key fst cs))))])]"

section \<open>What a service publishes and sends (outbound.go)\<close>

datatype outboundKind = KindEvent | KindSend

fun kindString :: "outboundKind \<Rightarrow> string" where
  "kindString KindEvent = ''event''"
| "kindString KindSend = ''send''"

fun article :: "outboundKind \<Rightarrow> string" where
  "article KindEvent = ''an''"
| "article KindSend = ''a''"

record 't outboundEntry =
  oe_kind :: outboundKind
  oe_request :: 't
  oe_response :: "'t option"

type_synonym 't outboundRegistry = "(topic \<times> 't outboundEntry) list"

definition NewOutboundRegistry :: "'t outboundRegistry" where
  "NewOutboundRegistry = []"

text \<open>The registry afterwards, and the error.\<close>

definition outbound_add ::
  "topic \<Rightarrow> 't outboundEntry \<Rightarrow> 't outboundRegistry \<Rightarrow> goerr option \<times> 't outboundRegistry" where
  "outbound_add topic entry r = (case map_of r topic of
      Some existing \<Rightarrow>
        (if oe_kind existing \<noteq> oe_kind entry
         then (Some (ErrNew (''contract: topic '' @ goQuote (topicString topic) @ '' is already declared as '' @
             article (oe_kind existing) @ '' '' @ kindString (oe_kind existing) @
             ''; a (topic, version) cannot be both an event and a send'')), r)
         else (Some (ErrNew (''contract: '' @ kindString (oe_kind entry) @ '' already declared for topic '' @
             goQuote (topicString topic))), r))
    | None \<Rightarrow> (None, AList.update topic entry r))"

definition RegisterEvent ::
  "'t \<Rightarrow> topic \<Rightarrow> 't outboundRegistry \<Rightarrow> goerr option \<times> 't outboundRegistry" where
  "RegisterEvent T topic r = outbound_add topic \<lparr>oe_kind = KindEvent, oe_request = T, oe_response = None\<rparr> r"

definition WithResponse :: "'t \<Rightarrow> 't outboundEntry \<Rightarrow> 't outboundEntry" where
  "WithResponse TRes e = e\<lparr>oe_response := Some TRes\<rparr>"

definition RegisterSend ::
  "'t \<Rightarrow> topic \<Rightarrow> ('t outboundEntry \<Rightarrow> 't outboundEntry) list \<Rightarrow> 't outboundRegistry \<Rightarrow>
   goerr option \<times> 't outboundRegistry" where
  "RegisterSend TReq topic opts r = outbound_add topic
    (fold (\<lambda>opt e. opt e) opts \<lparr>oe_kind = KindSend, oe_request = TReq, oe_response = None\<rparr>) r"

definition mustDeclare :: "goerr option \<times> 's \<Rightarrow> unit outcome \<times> 's" where
  "mustDeclare m = (case m of (None, r) \<Rightarrow> (Return (), r) | (Some err, r) \<Rightarrow> (Panic (errorText err), r))"

definition MustRegisterEvent :: "'t \<Rightarrow> topic \<Rightarrow> 't outboundRegistry \<Rightarrow> unit outcome \<times> 't outboundRegistry" where
  "MustRegisterEvent T topic r = mustDeclare (RegisterEvent T topic r)"

definition MustRegisterSend ::
  "'t \<Rightarrow> topic \<Rightarrow> ('t outboundEntry \<Rightarrow> 't outboundEntry) list \<Rightarrow> 't outboundRegistry \<Rightarrow>
   unit outcome \<times> 't outboundRegistry" where
  "MustRegisterSend TReq topic opts r = mustDeclare (RegisterSend TReq topic opts r)"

definition outbound_Kind :: "'t outboundRegistry \<Rightarrow> topic \<Rightarrow> outboundKind option" where
  "outbound_Kind r topic = map_option oe_kind (map_of r topic)"

definition outbound_TopicTypes :: "'t outboundRegistry \<Rightarrow> topic \<Rightarrow> ('t \<times> 't option) option" where
  "outbound_TopicTypes r topic = map_option (\<lambda>e. (oe_request e, oe_response e)) (map_of r topic)"

text \<open>The topics of a kind (\<open>None\<close>: of both), sorted by id, then version.\<close>

definition outbound_topics :: "'t outboundRegistry \<Rightarrow> outboundKind option \<Rightarrow> topic list" where
  "outbound_topics r kind = sort (map fst (filter (\<lambda>(topic, entry). kind = None \<or> kind = Some (oe_kind entry)) r))"

definition outbound_Topics :: "'t outboundRegistry \<Rightarrow> topic list" where
  "outbound_Topics r = outbound_topics r None"

definition outbound_Events :: "'t outboundRegistry \<Rightarrow> topic list" where
  "outbound_Events r = outbound_topics r (Some KindEvent)"

definition outbound_Sends :: "'t outboundRegistry \<Rightarrow> topic list" where
  "outbound_Sends r = outbound_topics r (Some KindSend)"

section \<open>The middleware (middleware.go)\<close>

record SpecRequest =
  sr_Type :: string
  sr_Format :: string

text \<open>
  What the pipeline was handed as the request, as the type switch tells it apart; the application's
  values (\<open>Val\<close>) are told apart by the argument \<open>typeOf\<close>: a typed request, a pointer to one, a
  string, or a value of another type.
\<close>

datatype specDynamic = TypedRequest SpecRequest | RequestPointer "SpecRequest option" | StringValue string | OtherType

definition zeroSpecRequest :: SpecRequest where
  "zeroSpecRequest = \<lparr>sr_Type = '''', sr_Format = ''''\<rparr>"

definition specRequestField :: "string \<Rightarrow> SpecRequest decoder" where
  "specRequestField f =
    (if f = ''type'' then into sr_Type_update sr_Type decodeString
     else into sr_Format_update sr_Format decodeString)"

definition selector :: "string \<Rightarrow> string \<Rightarrow> string" where
  "selector typ format = toLower (trimSpace typ) @ ''/'' @ toLower (trimSpace format)"

text \<open>
  \<open>jsonError\<close> is the text of the error with which \<^verbatim>\<open>encoding/json\<close> refuses a body.
\<close>

definition specBody :: "(string \<Rightarrow> string) \<Rightarrow> string \<Rightarrow> goerr + SpecRequest" where
  "specBody jsonError data =
    (if trimSpace data = '''' then Inr zeroSpecRequest
     else (case unmarshal (decodeStruct [''type'', ''format''] specRequestField) zeroSpecRequest data of
         (req, True) \<Rightarrow> Inr req
       | (_, False) \<Rightarrow> Inl (ErrWrap (''benzene:spec request must be {'' @ [CHR 0x22] @ ''type'' @ [CHR 0x22] @
           ''?: string, '' @ [CHR 0x22] @ ''format'' @ [CHR 0x22] @ ''?: string}: '' @ jsonError data)
           [ErrNew (jsonError data)])))"

definition specRequest ::
  "(string \<Rightarrow> string) \<Rightarrow> ('v any \<Rightarrow> specDynamic) \<Rightarrow> 'v any \<Rightarrow> goerr + SpecRequest" where
  "specRequest jsonError typeOf raw =
    (case raw of
       NilAny \<Rightarrow> Inr zeroSpecRequest
     | RawMessage v \<Rightarrow> specBody jsonError v
     | ByteSlice v \<Rightarrow> specBody jsonError v
     | Val t v \<Rightarrow> (case typeOf raw of
         TypedRequest r \<Rightarrow> Inr r
       | RequestPointer None \<Rightarrow> Inr zeroSpecRequest
       | RequestPointer (Some r) \<Rightarrow> Inr r
       | StringValue s \<Rightarrow> specBody jsonError s
       | OtherType \<Rightarrow> Inl (ErrNew (''benzene:spec cannot read a request of type '' @ t))))"

text \<open>
  An option adds a marshalled document under its selector; a payload or a document that does not
  marshal (\<open>Inl\<close>) panics when the middleware is built.
\<close>

definition WithDocumentType ::
  "string \<Rightarrow> string \<Rightarrow> goerr + string \<Rightarrow> ((string \<times> string) list \<Rightarrow> (string \<times> string) list) outcome" where
  "WithDocumentType typ format marshalled = (case marshalled of
      Inl err \<Rightarrow> Panic (''contract: document type '' @ typ @ ''/'' @ format @ '' does not marshal: '' @ errorText err)
    | Inr raw \<Rightarrow> Return (AList.update (selector typ format) raw))"

definition servedDocuments ::
  "string \<Rightarrow> ((string \<times> string) list \<Rightarrow> (string \<times> string) list) list \<Rightarrow> (string \<times> string) list" where
  "servedDocuments raw opts = fold (\<lambda>opt served. opt served) opts [(selector ''benzene'' ''json'', raw)]"

definition specAnswer :: "(string \<times> string) list \<Rightarrow> SpecRequest \<Rightarrow> 'v resultInfo outcome" where
  "specAnswer served req =
    (let typ = (if trimSpace (sr_Type req) = '''' then ''benzene'' else sr_Type req);
         format = (if trimSpace (sr_Format req) = '''' then ''json'' else sr_Format req) in
     case map_of served (selector typ format) of
       None \<Rightarrow> map_outcome ResultAny (NotImplemented [''benzene:spec does not serve type '' @ goQuote typ @
         '' in format '' @ goQuote format])
     | Some payload \<Rightarrow> Return (ResultT ''json.RawMessage'' (Ok (RawMessage payload))))"

definition SpecMiddleware ::
  "(string \<Rightarrow> string) \<Rightarrow> ('v any \<Rightarrow> specDynamic) \<Rightarrow> goerr + string \<Rightarrow>
   ((string \<times> string) list \<Rightarrow> (string \<times> string) list) list \<Rightarrow> ('v, 'w) middleware outcome" where
  "SpecMiddleware jsonError typeOf marshalled opts = (case marshalled of
      Inl err \<Rightarrow> Panic (''contract: the document does not marshal: '' @ errorText err)
    | Inr raw \<Rightarrow> Return (\<lambda>c nx s.
        if ID (ic_Topic (ic s)) \<noteq> SpecTopic then nx c s
        else (case specRequest jsonError typeOf (ic_Request (ic s)) of
            Inl err \<Rightarrow> andThen (map_outcome ResultAny (BadRequest [errorText err]), s)
              (\<lambda>r s1. (Return None, setResult r s1))
          | Inr req \<Rightarrow> andThen (specAnswer (servedDocuments raw opts) req, s)
              (\<lambda>r s1. (Return None, setResult r s1)))))"

section \<open>Lemmas\<close>

lemma SpecMiddleware_run:
  assumes "SpecMiddleware jsonError typeOf (Inr raw) opts = Return mw" and "ID (ic_Topic (ic s)) = SpecTopic"
    and "specRequest jsonError typeOf (ic_Request (ic s)) = Inr req"
    and "specAnswer (servedDocuments raw opts) req = Return r"
  shows "Run (Some (NewPipeline (mw # rest))) c s = (Return None, setResult r s)"
  using assms by (auto simp: SpecMiddleware_def NewPipeline_def Run_onion)

lemma SpecMiddleware_passes:
  assumes "SpecMiddleware jsonError typeOf (Inr raw) opts = Return mw" and "ID (ic_Topic (ic s)) \<noteq> SpecTopic"
  shows "Run (Some (NewPipeline (mw # rest))) c s = Run (Some (NewPipeline rest)) c s"
  using assms by (auto simp: SpecMiddleware_def NewPipeline_def Run_onion)

text \<open>The bodies that ask for the Contract Document.\<close>

definition asksForDocument :: "string \<Rightarrow> bool" where
  "asksForDocument body \<longleftrightarrow> trimSpace body = '''' \<or> jparse body \<in> {Some JNull, Some (JObj [])}"

lemma asksForDocument_zero:
  assumes "asksForDocument body"
  shows "specBody jsonError body = Inr zeroSpecRequest"
  using assms by (auto simp: asksForDocument_def specBody_def unmarshal_def)

lemma zero_answer:
  "(specAnswer (servedDocuments raw []) zeroSpecRequest :: 'v resultInfo outcome) =
    Return (ResultT ''json.RawMessage'' (Ok (RawMessage raw)))"
proof -
  have "trimSpace '''' = ''''" by code_simp
  then show ?thesis by (simp add: specAnswer_def servedDocuments_def zeroSpecRequest_def Let_def)
qed

text \<open>The contract over any binding: a message on the reserved topic, of whatever version
  and with whatever headers, whose body is blank, null or an empty object is answered with status ok and
  exactly the document the middleware was built with, and no later middleware runs; on every other topic
  the pipeline runs as if the middleware were not there.\<close>

theorem spec_topic_serves_document:
  fixes mw :: "('v, 'w) middleware" and marshal :: "'v marshaller" and w :: 'w
  assumes "SpecMiddleware jsonError typeOf (Inr raw) [] = Return mw"
    and "marshal (RawMessage raw) = Inr raw"
  shows "(asksForDocument body \<longrightarrow>
      (\<exists>s. DispatchTopicResult marshal (Some (NewPipeline (mw # rest))) c (Topic SpecTopic version) hs body now w =
        (Return (\<lparr>rs_StatusCode = StatusOk, rs_Headers = [(''content-type'', ''application/json'')], rs_Body = raw,
           rs_IsSuccessful = Some True\<rparr>, True), s) \<and> env s = w)) \<and>
    (ID t \<noteq> SpecTopic \<longrightarrow>
      DispatchTopicResult marshal (Some (NewPipeline (mw # rest))) c t hs body now w =
      DispatchTopicResult marshal (Some (NewPipeline rest)) c t hs body now w)"
proof (intro conjI impI)
  let ?t = "Topic SpecTopic version"
  let ?s = "\<lparr>ic = invocationOf ?t hs body, clock = now, env = w\<rparr> :: ('v, 'w) st"
  let ?result = "ResultT ''json.RawMessage'' (Ok (RawMessage raw)) :: 'v resultInfo"
  assume "asksForDocument body"
  then have req: "specRequest jsonError typeOf (ic_Request (ic ?s)) = Inr zeroSpecRequest"
    by (simp add: invocationOf_def NewInvocationContext_def specRequest_def asksForDocument_zero)
  have run: "Run (Some (NewPipeline (mw # rest))) c ?s = (Return None, setResult ?result ?s)"
    by (rule SpecMiddleware_run [OF assms(1) _ req zero_answer])
      (simp add: invocationOf_def NewInvocationContext_def)
  have bare: "withResponseHeaders r (invocationOf u hs body :: 'v invocation) = r" for r u
    by (simp add: invocationOf_def NewInvocationContext_def withResponseHeaders_def)
  have ok: "\<not> IsFailure StatusOk" by code_simp
  have "responseOf marshal ?result = \<lparr>rs_StatusCode = StatusOk, rs_Headers = [(''content-type'', ''application/json'')],
      rs_Body = raw, rs_IsSuccessful = Some True\<rparr>"
    using assms(2) ok by (simp add: responseOf_def Ok_def)
  then have "DispatchTopicResult marshal (Some (NewPipeline (mw # rest))) c ?t hs body now w =
      (Return (\<lparr>rs_StatusCode = StatusOk, rs_Headers = [(''content-type'', ''application/json'')], rs_Body = raw,
         rs_IsSuccessful = Some True\<rparr>, True), setResult ?result ?s)"
    using run ok by (simp add: DispatchTopicResult_def envelopeDispatch_run settledResponse_def Ok_def setResult_def)
      (simp add: withResponseHeaders_def invocationOf_def NewInvocationContext_def)
  then show "\<exists>s. DispatchTopicResult marshal (Some (NewPipeline (mw # rest))) c ?t hs body now w =
      (Return (\<lparr>rs_StatusCode = StatusOk, rs_Headers = [(''content-type'', ''application/json'')], rs_Body = raw,
         rs_IsSuccessful = Some True\<rparr>, True), s) \<and> env s = w"
    by (simp add: setResult_def)
next
  assume "ID t \<noteq> SpecTopic"
  then have "Run (Some (NewPipeline (mw # rest))) c \<lparr>ic = invocationOf t hs body, clock = now, env = w\<rparr> =
      Run (Some (NewPipeline rest)) c \<lparr>ic = invocationOf t hs body, clock = now, env = w\<rparr>"
    by (intro SpecMiddleware_passes [OF assms(1)]) (simp add: invocationOf_def NewInvocationContext_def)
  then show "DispatchTopicResult marshal (Some (NewPipeline (mw # rest))) c t hs body now w =
      DispatchTopicResult marshal (Some (NewPipeline rest)) c t hs body now w"
    by (simp add: DispatchTopicResult_def envelopeDispatch_run)
qed

definition rawMarshal :: "nat any \<Rightarrow> goerr + string" where
  "rawMarshal p = (case p of RawMessage raw \<Rightarrow> Inr raw | _ \<Rightarrow> Inr '''')"

theorem spec_topic_serves_document_witness:
  "\<exists>mw. SpecMiddleware (\<lambda>b. b) (\<lambda>v. OtherType) (Inr ''{}'') [] = Return mw \<and>
    (\<exists>s. DispatchTopicResult rawMarshal (Some (NewPipeline [mw, \<lambda>c nx s. (Panic ''reached'', s)])) background
        (Topic SpecTopic ''v9'') [] '' null '' 0 () =
      (Return (\<lparr>rs_StatusCode = StatusOk, rs_Headers = [(''content-type'', ''application/json'')], rs_Body = ''{}'',
         rs_IsSuccessful = Some True\<rparr>, True), s))"
proof -
  obtain mw :: "(nat, unit) middleware" where mw: "SpecMiddleware (\<lambda>b. b) (\<lambda>v. OtherType) (Inr ''{}'') [] = Return mw"
    by (simp add: SpecMiddleware_def)
  have "asksForDocument '' null ''" by code_simp
  moreover have "rawMarshal (RawMessage ''{}'') = Inr ''{}''" by (simp add: rawMarshal_def)
  ultimately show ?thesis
    using spec_topic_serves_document [OF mw, of rawMarshal "'' null ''" "[\<lambda>c nx s. (Panic ''reached'', s)]"
        background "''v9''" "[]" 0 "()"] mw by auto
qed

end
