(* ===== verification/Mesh.thy ===== *)
theory Mesh
  imports Client GoStrings Contract Complex_Main "HOL-Library.Sublist"
begin

text \<open>
  The tracing half of the service side of the mesh: spans (\<^verbatim>\<open>mesh/span.go\<close>), the trace middleware
  (\<^verbatim>\<open>mesh/trace.go\<close>), the decorator that carries the trace on to outbound messages
  (\<^verbatim>\<open>mesh/clienttrace.go\<close>), the batching exporter (\<^verbatim>\<open>mesh/push.go\<close>) and the detection of where a
  service runs (\<^verbatim>\<open>mesh/placement.go\<close>). The random source and the float of a duration are
  arguments; the exporter's queue, batch and goroutine are a state machine.
\<close>

section \<open>Spans (span.go)\<close>

record span =
  TraceID :: string
  SpanID :: string
  TraceState :: string

definition Traceparent :: "span \<Rightarrow> string" where
  "Traceparent sp = ''00-'' @ TraceID sp @ ''-'' @ SpanID sp @ ''-01''"

definition contextWithSpan :: "ctx \<Rightarrow> span \<Rightarrow> ctx" where
  "contextWithSpan c sp = c\<lparr>carries_span := Some (TraceID sp, SpanID sp, TraceState sp)\<rparr>"

definition SpanFromContext :: "ctx \<Rightarrow> span option" where
  "SpanFromContext c = map_option (\<lambda>(t, i, st). \<lparr>TraceID = t, SpanID = i, TraceState = st\<rparr>) (carries_span c)"

section \<open>The trace middleware (trace.go)\<close>

record serviceInfo =
  si_Service :: string
  si_InstanceID :: string

record traceEvent =
  te_TraceID :: string
  te_SpanID :: string
  te_ParentSpanID :: string
  te_Service :: string
  te_InstanceID :: string
  te_Topic :: string
  te_TopicVersion :: string
  te_Status :: string
  te_DurationMs :: real
  te_StartedAt :: int
  te_CorrelationID :: string

text \<open>An exporter works on the clock and the world and may panic; it has no way to the invocation.\<close>

type_synonym 'w exporter = "ctx \<Rightarrow> traceEvent \<Rightarrow> int \<times> 'w \<Rightarrow> unit outcome \<times> (int \<times> 'w)"

definition isHex :: "string \<Rightarrow> bool" where
  "isHex s \<longleftrightarrow> hexString s"

definition parseTraceparent :: "string \<Rightarrow> string \<times> string" where
  "parseTraceparent header =
    (let parts = splitOn (CHR ''-'') header in
     if length parts \<noteq> 4 \<or>
        length (parts ! 0) \<noteq> 2 \<or> length (parts ! 1) \<noteq> 32 \<or> length (parts ! 2) \<noteq> 16 \<or> length (parts ! 3) \<noteq> 2 \<or>
        \<not> isHex (parts ! 0) \<or> \<not> isHex (parts ! 1) \<or> \<not> isHex (parts ! 2) \<or> \<not> isHex (parts ! 3) \<or>
        parts ! 1 = replicate 32 (CHR ''0'') \<or> parts ! 2 = replicate 16 (CHR ''0'')
     then ('''', '''') else (parts ! 1, parts ! 2))"

text \<open>The bytes of a 64-bit word, the most significant first.\<close>

definition bigEndian :: "64 word \<Rightarrow> string" where
  "bigEndian v = map (\<lambda>i. char_of (unat (drop_bit (8 * (7 - i)) v))) [0..<8]"

fun randBytes :: "('w \<Rightarrow> 64 word \<times> 'w) \<Rightarrow> nat \<Rightarrow> 'w \<Rightarrow> string \<times> 'w" where
  "randBytes uint64 n w =
    (if n < 8 then (replicate n (CHR 0x00), w)
     else (case uint64 w of (v, w1) \<Rightarrow> (case randBytes uint64 (n - 8) w1 of
       (rest, w2) \<Rightarrow> (bigEndian v @ rest, w2))))"

declare randBytes.simps [simp del]

definition randHex :: "('w \<Rightarrow> 64 word \<times> 'w) \<Rightarrow> nat \<Rightarrow> 'w \<Rightarrow> string \<times> 'w" where
  "randHex uint64 nBytes w = (case randBytes uint64 nBytes w of (buf, w1) \<Rightarrow> (hexEncode buf, w1))"

text \<open>The deferred recover: whatever the exporter's outcome, only its effects remain.\<close>

definition export :: "ctx \<Rightarrow> 'w exporter \<Rightarrow> traceEvent \<Rightarrow> int \<times> 'w \<Rightarrow> int \<times> 'w" where
  "export c exporter event st0 = snd (exporter c event st0)"

text \<open>The trace an invocation belongs to, its parent and the trace state, from the inbound headers.\<close>

definition adoptTrace ::
  "('w \<Rightarrow> 64 word \<times> 'w) \<Rightarrow> headers \<Rightarrow> 'w \<Rightarrow> (string \<times> string \<times> string) \<times> 'w" where
  "adoptTrace uint64 hs w =
    (case parseTraceparent (goIndex hs ''traceparent'' '''') of (traceID, parentSpanID) \<Rightarrow>
      if traceID = '''' then (case randHex uint64 16 w of (fresh, w1) \<Rightarrow> ((fresh, parentSpanID, ''''), w1))
      else ((traceID, parentSpanID, goIndex hs ''tracestate'' ''''), w))"

definition TraceMiddleware ::
  "('w \<Rightarrow> 64 word \<times> 'w) \<Rightarrow> (int \<Rightarrow> real) \<Rightarrow> serviceInfo \<Rightarrow> 'w exporter option \<Rightarrow> ('v, 'w) middleware" where
  "TraceMiddleware uint64 millis info exporter = (case exporter of
      None \<Rightarrow> (\<lambda>c nx s. nx c s)
    | Some ex \<Rightarrow> (\<lambda>c nx s.
        (let started = clock s; hs = ic_Headers (ic s) in
         case adoptTrace uint64 hs (env s) of ((traceID, parentSpanID, traceState), w1) \<Rightarrow>
         case randHex uint64 8 w1 of (spanID, w2) \<Rightarrow>
           (let event = \<lparr>te_TraceID = traceID, te_SpanID = spanID, te_ParentSpanID = parentSpanID,
                  te_Service = si_Service info, te_InstanceID = si_InstanceID info,
                  te_Topic = ID (ic_Topic (ic s)), te_TopicVersion = Version (ic_Topic (ic s)),
                  te_Status = '''', te_DurationMs = 0, te_StartedAt = started,
                  te_CorrelationID = goIndex hs ''x-correlation-id'' ''''\<rparr> in
            andThen (nx (contextWithSpan c \<lparr>TraceID = traceID, SpanID = spanID, TraceState = traceState\<rparr>)
                (s\<lparr>env := w2\<rparr>))
              (\<lambda>err s1. case export c ex (event\<lparr>te_DurationMs := millis (clock s1 - started),
                    te_Status := (case ic_Result (ic s1) of None \<Rightarrow> '''' | Some r \<Rightarrow> ResultStatus r)\<rparr>)
                    (clock s1, env s1) of
                 (t, w3) \<Rightarrow> (Return err, s1\<lparr>clock := t, env := w3\<rparr>))))))"

section \<open>Trace context on outbound messages (clienttrace.go)\<close>

definition withTraceparent :: "ctx \<Rightarrow> headers \<Rightarrow> headers" where
  "withTraceparent c hs = (case SpanFromContext c of
      None \<Rightarrow> hs
    | Some sp \<Rightarrow>
        (let out = fold (\<lambda>(name, v) out.
               if equalFold name ''traceparent'' \<or> equalFold name ''tracestate'' then out
               else AList.update name v out) hs [];
             out1 = AList.update ''traceparent'' (Traceparent sp) out in
         if TraceState sp \<noteq> '''' then AList.update ''tracestate'' (TraceState sp) out1 else out1))"

definition WithTraceContext :: "('v, 'w) sender \<Rightarrow> ('v, 'w) sender" where
  "WithTraceContext nx = SenderFunc_Send (\<lambda>c topic hs message. nx c topic (withTraceparent c hs) message)"

section \<open>Placement (placement.go)\<close>

definition detectPlacement :: "(string \<Rightarrow> string) \<Rightarrow> placement" where
  "detectPlacement getenv =
    (if getenv ''AWS_LAMBDA_FUNCTION_NAME'' \<noteq> '''' then
       \<lparr>pl_Cloud = ''aws'', pl_Region = getenv ''AWS_REGION''\<rparr>
     else if getenv ''FUNCTIONS_CUSTOMHANDLER_PORT'' \<noteq> '''' then \<lparr>pl_Cloud = ''azure'', pl_Region = ''''\<rparr>
     else if getenv ''K_SERVICE'' \<noteq> '''' then \<lparr>pl_Cloud = ''gcp'', pl_Region = ''''\<rparr>
     else \<lparr>pl_Cloud = ''self-hosted'', pl_Region = ''''\<rparr>)"

section \<open>The batching exporter (push.go)\<close>

record pushOptions =
  BatchSize :: int
  FlushInterval :: int
  BufferSize :: int

definition pushDefaults :: "pushOptions \<Rightarrow> pushOptions" where
  "pushDefaults opts = \<lparr>
     BatchSize = (if BatchSize opts \<le> 0 then 64 else BatchSize opts),
     FlushInterval = (if FlushInterval opts \<le> 0 then 5000000000 else FlushInterval opts),
     BufferSize = (if BufferSize opts \<le> 0 then 1024 else BufferSize opts)\<rparr>"

text \<open>
  The background goroutine is in its loop, or draining after it saw the stop channel closed, or it has
  ended. \<open>px_sent\<close> are the batches handed to the sender, whose result nothing depends on.
\<close>

datatype pushPhase = Looping | Draining | Ended

record pushState =
  px_batchSize :: nat
  px_capacity :: nat
  px_queue :: "traceEvent list"
  px_stop :: bool
  px_phase :: pushPhase
  px_batch :: "traceEvent list"
  px_sent :: "traceEvent list list"

definition NewPushExporter :: "bool \<Rightarrow> pushOptions \<Rightarrow> pushState option" where
  "NewPushExporter senderIsNil opts0 =
    (if senderIsNil then None
     else (let opts = pushDefaults opts0 in
       Some \<lparr>px_batchSize = nat (BatchSize opts), px_capacity = nat (BufferSize opts), px_queue = [],
         px_stop = False, px_phase = Looping, px_batch = [], px_sent = []\<rparr>))"

text \<open>A nil exporter is \<open>None\<close>.\<close>

definition Push_Export :: "traceEvent \<Rightarrow> pushState option \<Rightarrow> pushState option" where
  "Push_Export event e = map_option (\<lambda>e.
     if length (px_queue e) < px_capacity e then e\<lparr>px_queue := px_queue e @ [event]\<rparr> else e) e"

text \<open>\<^verbatim>\<open>Close\<close> up to its wait for the goroutine, which ends when the phase is \<open>Ended\<close>.\<close>

definition Push_Close :: "pushState option \<Rightarrow> pushState option" where
  "Push_Close e = map_option (\<lambda>e. e\<lparr>px_stop := True\<rparr>) e"

definition flush :: "pushState \<Rightarrow> pushState" where
  "flush e = (if px_batch e = [] then e
     else e\<lparr>px_sent := px_sent e @ [px_batch e], px_batch := []\<rparr>)"

text \<open>
  One step of the goroutine: the case of its select that is taken. A case that is not ready is not
  taken: the state stays.
\<close>

datatype pushCase = Receive | Tick | StopCase

definition drainStep :: "pushState \<Rightarrow> pushState" where
  "drainStep e = (case px_queue e of
      [] \<Rightarrow> (flush e)\<lparr>px_phase := Ended\<rparr>
    | event # rest \<Rightarrow> e\<lparr>px_queue := rest, px_batch := px_batch e @ [event]\<rparr>)"

declare drainStep_def [simp]

fun loopStep :: "pushCase \<Rightarrow> pushState \<Rightarrow> pushState" where
  "loopStep choice e = (case px_phase e of
      Looping \<Rightarrow> (case choice of
          Receive \<Rightarrow> (case px_queue e of
              [] \<Rightarrow> e
            | event # rest \<Rightarrow>
                (let e1 = e\<lparr>px_queue := rest, px_batch := px_batch e @ [event]\<rparr> in
                 if length (px_batch e1) \<ge> px_batchSize e1 then flush e1 else e1))
        | Tick \<Rightarrow> flush e
        | StopCase \<Rightarrow> if px_stop e then e\<lparr>px_phase := Draining\<rparr> else e)
    | Draining \<Rightarrow> drainStep e
    | Ended \<Rightarrow> e)"

datatype pushAct = Exports traceEvent | Closes | Moves pushCase

fun pushDo :: "pushAct \<Rightarrow> pushState option \<Rightarrow> pushState option" where
  "pushDo (Exports event) e = Push_Export event e"
| "pushDo Closes e = Push_Close e"
| "pushDo (Moves choice) e = map_option (loopStep choice) e"

section \<open>Lemmas\<close>

text \<open>A span that can travel in a header and be adopted on the other side.\<close>

definition validSpan :: "span \<Rightarrow> bool" where
  "validSpan sp \<longleftrightarrow> hexString (TraceID sp) \<and> length (TraceID sp) = 32 \<and> TraceID sp \<noteq> replicate 32 (CHR ''0'') \<and>
     hexString (SpanID sp) \<and> length (SpanID sp) = 16 \<and> SpanID sp \<noteq> replicate 16 (CHR ''0'')"

lemma hexString_no_dash: "hexString s \<Longrightarrow> CHR ''-'' \<notin> set s"
  using hexChar_not_dash by (auto simp: hexString_def list_all_iff)

lemma Traceparent_parts:
  assumes "CHR ''-'' \<notin> set (TraceID sp)" "CHR ''-'' \<notin> set (SpanID sp)"
  shows "splitOn (CHR ''-'') (Traceparent sp) = [''00'', TraceID sp, SpanID sp, ''01'']"
  using assms by (simp add: Traceparent_def splitOn_append)

lemma parse_Traceparent:
  assumes "validSpan sp"
  shows "parseTraceparent (Traceparent sp) = (TraceID sp, SpanID sp)"
proof -
  have "splitOn (CHR ''-'') (Traceparent sp) = [''00'', TraceID sp, SpanID sp, ''01'']"
    using assms by (intro Traceparent_parts hexString_no_dash) (auto simp: validSpan_def)
  moreover have "isHex ''00''" "isHex ''01''" by code_simp+
  ultimately show ?thesis
    using assms by (simp add: parseTraceparent_def validSpan_def isHex_def Let_def)
qed

text \<open>What is adopted from a header is valid.\<close>

lemma parseTraceparent_valid:
  assumes "parseTraceparent h = (t, p)" "t \<noteq> ''''"
  shows "hexString t \<and> length t = 32 \<and> t \<noteq> replicate 32 (CHR ''0'') \<and>
    hexString p \<and> length p = 16 \<and> p \<noteq> replicate 16 (CHR ''0'')"
  using assms by (auto simp: parseTraceparent_def Let_def isHex_def split: if_splits)

lemma randHex_valid:
  assumes "randHex uint64 n w = (t, w')"
  shows "hexString t \<and> length t = 2 * n"
proof -
  have "length (fst (randBytes uint64 n w)) = n" for w
  proof (induction uint64 n w rule: randBytes.induct)
    case (1 uint64 n w)
    obtain v w1 where v: "uint64 w = (v, w1)" by (cases "uint64 w")
    obtain rest w2 where r: "randBytes uint64 (n - 8) w1 = (rest, w2)" by (cases "randBytes uint64 (n - 8) w1")
    show ?case
      using 1 [OF _ v [symmetric]] v r by (simp add: randBytes.simps [of uint64 n w] bigEndian_def)
  qed
  from this [of w] assms show ?thesis
    by (cases "randBytes uint64 n w") (auto simp: randHex_def hexEncode_hexString length_hexEncode)
qed

lemma SpanFromContext_with [simp]: "SpanFromContext (contextWithSpan c sp) = Some sp"
  by (simp add: SpanFromContext_def contextWithSpan_def)

text \<open>The outbound headers with a span: its two values, and every other header as it was.\<close>

lemma withTraceparent_header:
  assumes "SpanFromContext c = Some sp" and "goMap hs"
  shows "map_of (withTraceparent c hs) k =
    (if k = ''traceparent'' then Some (Traceparent sp)
     else if k = ''tracestate'' \<and> TraceState sp \<noteq> '''' then Some (TraceState sp)
     else if equalFold k ''traceparent'' \<or> equalFold k ''tracestate'' then None
     else map_of hs k)"
proof -
  let ?step = "\<lambda>(name, v) out. if equalFold name ''traceparent'' \<or> equalFold name ''tracestate'' then out
    else AList.update name v out"
  have "map_of (fold ?step hs out) k = (if equalFold k ''traceparent'' \<or> equalFold k ''tracestate'' then map_of out k
      else case map_of hs k of Some v \<Rightarrow> Some v | None \<Rightarrow> map_of out k)" if "goMap hs" for hs out
    using that
  proof (induction hs arbitrary: out)
    case (Cons h hs)
    obtain name v where h: "h = (name, v)" by (cases h)
    have "map_of hs name = None" using Cons.prems h by (simp add: goMap_Cons map_of_eq_None_iff)
    with Cons h show ?case by (auto simp: goMap_Cons split: option.split)
  qed simp
  from this [OF assms(2), of "[]"] assms(1) show ?thesis
    by (auto simp: withTraceparent_def Let_def split: option.split)
qed

text \<open>The middleware with an exporter, its random draws made.\<close>

lemma TraceMiddleware_run:
  assumes "adoptTrace uint64 (ic_Headers (ic s)) (env s) = ((t, p, st), w1)" "randHex uint64 8 w1 = (i, w2)"
  shows "\<exists>event. TraceMiddleware uint64 millis info (Some ex) c nx s =
      andThen (nx (contextWithSpan c \<lparr>TraceID = t, SpanID = i, TraceState = st\<rparr>) (s\<lparr>env := w2\<rparr>))
        (\<lambda>err s1. (Return err, s1\<lparr>clock := fst (snd (ex c (event s1) (clock s1, env s1))),
           env := snd (snd (ex c (event s1) (clock s1, env s1)))\<rparr>)) \<and>
    (\<forall>s1. te_TraceID (event s1) = t \<and> te_SpanID (event s1) = i \<and> te_ParentSpanID (event s1) = p \<and>
      te_Topic (event s1) = ID (ic_Topic (ic s)) \<and> te_Service (event s1) = si_Service info \<and>
      te_StartedAt (event s1) = clock s \<and> te_DurationMs (event s1) = millis (clock s1 - clock s) \<and>
      te_Status (event s1) = (case ic_Result (ic s1) of None \<Rightarrow> '''' | Some r \<Rightarrow> ResultStatus r))"
  by (rule exI [where x = "\<lambda>s1. \<lparr>te_TraceID = t, te_SpanID = i, te_ParentSpanID = p, te_Service = si_Service info,
        te_InstanceID = si_InstanceID info, te_Topic = ID (ic_Topic (ic s)), te_TopicVersion = Version (ic_Topic (ic s)),
        te_Status = (case ic_Result (ic s1) of None \<Rightarrow> '''' | Some r \<Rightarrow> ResultStatus r),
        te_DurationMs = millis (clock s1 - clock s), te_StartedAt = clock s,
        te_CorrelationID = goIndex (ic_Headers (ic s)) ''x-correlation-id'' ''''\<rparr>"])
    (simp add: TraceMiddleware_def Let_def assms export_def split_def)

lemma adoptTrace_span:
  assumes "SpanFromContext c = Some sp" "validSpan sp" "goMap hs"
  shows "adoptTrace uint64 (withTraceparent c hs) w = ((TraceID sp, SpanID sp, TraceState sp), w)"
proof -
  have "TraceID sp \<noteq> ''''" using assms(2) by (auto simp: validSpan_def)
  moreover have "goIndex (withTraceparent c hs) ''traceparent'' '''' = Traceparent sp"
    by (simp add: goIndex_def withTraceparent_header [OF assms(1,3)])
  moreover have "goIndex (withTraceparent c hs) ''tracestate'' '''' = TraceState sp"
    by (simp add: goIndex_def withTraceparent_header [OF assms(1,3)])
  ultimately show ?thesis by (simp add: adoptTrace_def parse_Traceparent [OF assms(2)])
qed

lemma adoptTrace_cases:
  assumes "adoptTrace uint64 hs w = ((t, p, st), w1)"
  shows "hexString t \<and> length t = 32 \<and>
    (case parseTraceparent (goIndex hs ''traceparent'' '''') of (joined, parent) \<Rightarrow>
      if joined = '''' then t = fst (randHex uint64 16 w) \<and> p = '''' \<and> st = ''''
      else t = joined \<and> joined \<noteq> replicate 32 (CHR ''0'') \<and> p = parent \<and> st = goIndex hs ''tracestate'' '''')"
proof (cases "fst (parseTraceparent (goIndex hs ''traceparent'' '''')) = ''''")
  case True
  then have none: "parseTraceparent (goIndex hs ''traceparent'' '''') = ('''', '''')"
    by (auto simp: parseTraceparent_def Let_def split: if_splits)
  then have "randHex uint64 16 w = (t, w1)" "p = ''''" "st = ''''"
    using assms by (auto simp: adoptTrace_def split: prod.splits)
  then show ?thesis using randHex_valid [of uint64 16 w t w1] by (simp add: none)
next
  case False
  then have "parseTraceparent (goIndex hs ''traceparent'' '''') = (t, p)" "t \<noteq> ''''" "st = goIndex hs ''tracestate'' ''''"
    using assms by (auto simp: adoptTrace_def split: prod.splits)
  then show ?thesis using parseTraceparent_valid by simp
qed

section \<open>Properties\<close>

text \<open>C36 (type). The trace middleware is transparent and types its span: whatever the exporter does, panics
  included, the caller gets the outcome that the rest of the pipeline gives under a span whose ids are
  32 and 16 hexadecimal digits, whatever traceparent the client sent; the invocation is left as the
  rest of the pipeline left it, and the event exported has the same ids and the status of its result.
  A traceparent that parses gives the span its trace id, which is then not all zero, with the client's
  trace state, and the event its parent; any other gives a trace id drawn at random, no parent and
  no trace state. Without an exporter the middleware is the rest of the pipeline.\<close>

theorem trace_middleware_transparent:
  fixes s :: "('v, 'w) st"
  shows "TraceMiddleware uint64 millis info None c nx s = nx c s \<and>
    (\<exists>sp w2 event. hexString (TraceID sp) \<and> length (TraceID sp) = 32 \<and>
      hexString (SpanID sp) \<and> length (SpanID sp) = 16 \<and>
      TraceMiddleware uint64 millis info (Some ex) c nx s =
        andThen (nx (contextWithSpan c sp) (s\<lparr>env := w2\<rparr>))
          (\<lambda>err s1. (Return err, s1\<lparr>clock := fst (snd (ex c (event s1) (clock s1, env s1))),
             env := snd (snd (ex c (event s1) (clock s1, env s1)))\<rparr>)) \<and>
      (\<forall>s1. te_TraceID (event s1) = TraceID sp \<and> te_SpanID (event s1) = SpanID sp \<and>
        te_Status (event s1) = (case ic_Result (ic s1) of None \<Rightarrow> '''' | Some r \<Rightarrow> ResultStatus r) \<and>
        (case parseTraceparent (goIndex (ic_Headers (ic s)) ''traceparent'' '''') of (joined, parent) \<Rightarrow>
          if joined = ''''
          then TraceID sp = fst (randHex uint64 16 (env s)) \<and> te_ParentSpanID (event s1) = '''' \<and> TraceState sp = ''''
          else TraceID sp = joined \<and> joined \<noteq> replicate 32 (CHR ''0'') \<and> te_ParentSpanID (event s1) = parent \<and>
            TraceState sp = goIndex (ic_Headers (ic s)) ''tracestate'' '''')))"
proof (intro conjI)
  show "TraceMiddleware uint64 millis info None c nx s = nx c s" by (simp add: TraceMiddleware_def)
  obtain t p st w1 where a: "adoptTrace uint64 (ic_Headers (ic s)) (env s) = ((t, p, st), w1)"
    by (metis prod.collapse)
  obtain i w2 where i: "randHex uint64 8 w1 = (i, w2)" by (metis prod.collapse)
  note adopted = adoptTrace_cases [OF a]
  let ?sp = "\<lparr>TraceID = t, SpanID = i, TraceState = st\<rparr>"
  have ids: "hexString (TraceID ?sp)" "length (TraceID ?sp) = 32" "hexString (SpanID ?sp)" "length (SpanID ?sp) = 16"
    using adopted randHex_valid [OF i] by simp_all
  obtain event where event: "TraceMiddleware uint64 millis info (Some ex) c nx s =
      andThen (nx (contextWithSpan c ?sp) (s\<lparr>env := w2\<rparr>))
        (\<lambda>err s1. (Return err, s1\<lparr>clock := fst (snd (ex c (event s1) (clock s1, env s1))),
           env := snd (snd (ex c (event s1) (clock s1, env s1)))\<rparr>))"
    "te_TraceID (event s1) = t" "te_SpanID (event s1) = i" "te_ParentSpanID (event s1) = p"
    "te_Status (event s1) = (case ic_Result (ic s1) of None \<Rightarrow> '''' | Some r \<Rightarrow> ResultStatus r)" for s1
    using TraceMiddleware_run [OF a i, of millis info ex c nx] by blast
  show "\<exists>sp w2 event. hexString (TraceID sp) \<and> length (TraceID sp) = 32 \<and>
      hexString (SpanID sp) \<and> length (SpanID sp) = 16 \<and>
      TraceMiddleware uint64 millis info (Some ex) c nx s =
        andThen (nx (contextWithSpan c sp) (s\<lparr>env := w2\<rparr>))
          (\<lambda>err s1. (Return err, s1\<lparr>clock := fst (snd (ex c (event s1) (clock s1, env s1))),
             env := snd (snd (ex c (event s1) (clock s1, env s1)))\<rparr>)) \<and>
      (\<forall>s1. te_TraceID (event s1) = TraceID sp \<and> te_SpanID (event s1) = SpanID sp \<and>
        te_Status (event s1) = (case ic_Result (ic s1) of None \<Rightarrow> '''' | Some r \<Rightarrow> ResultStatus r) \<and>
        (case parseTraceparent (goIndex (ic_Headers (ic s)) ''traceparent'' '''') of (joined, parent) \<Rightarrow>
          if joined = ''''
          then TraceID sp = fst (randHex uint64 16 (env s)) \<and> te_ParentSpanID (event s1) = '''' \<and> TraceState sp = ''''
          else TraceID sp = joined \<and> joined \<noteq> replicate 32 (CHR ''0'') \<and> te_ParentSpanID (event s1) = parent \<and>
            TraceState sp = goIndex (ic_Headers (ic s)) ''tracestate'' ''''))"
    by (rule exI [of _ ?sp], rule exI [of _ w2], rule exI [of _ event], intro conjI allI ids event(1))
      (use adopted in \<open>simp_all add: event split: prod.splits\<close>)
qed

text \<open>A source that counts, an exporter that panics, and a handler that reports its context's span.\<close>

definition counting :: "64 word \<Rightarrow> 64 word \<times> 64 word" where
  "counting w = (1, w + 1)"

definition tracedState :: "(nat, 64 word) st" where
  "tracedState = \<lparr>ic = NewInvocationContext (NewTopic ''greet'') [(''traceparent'', ''garbage'')] NilAny None,
     clock = 0, env = 0\<rparr>"

theorem trace_middleware_transparent_witness:
  "\<exists>s'. TraceMiddleware counting of_int \<lparr>si_Service = ''svc'', si_InstanceID = ''''\<rparr>
      (Some (\<lambda>c event st0. (Panic ''sink down'', st0))) background
      (\<lambda>c s. (Return (if SpanFromContext c = None then None else Some (ErrNew ''spanned'')), s)) tracedState =
    (Return (Some (ErrNew ''spanned'')), s')"
proof -
  have "\<exists>sp w2. TraceMiddleware counting of_int \<lparr>si_Service = ''svc'', si_InstanceID = ''''\<rparr>
      (Some (\<lambda>c event st0. (Panic ''sink down'', st0))) background
      (\<lambda>c s. (Return (if SpanFromContext c = None then None else Some (ErrNew ''spanned'')), s)) tracedState =
    andThen (Return (if SpanFromContext (contextWithSpan background sp) = None then None else Some (ErrNew ''spanned'')),
        tracedState\<lparr>env := w2\<rparr>)
      (\<lambda>err s1. (Return err, s1\<lparr>clock := fst (clock s1, env s1), env := snd (clock s1, env s1)\<rparr>))"
    using trace_middleware_transparent [of counting of_int "\<lparr>si_Service = ''svc'', si_InstanceID = ''''\<rparr>"
        background "\<lambda>c s. (Return (if SpanFromContext c = None then None else Some (ErrNew ''spanned'')), s)"
        tracedState "\<lambda>c event st0. (Panic ''sink down'', st0)", THEN conjunct2] by auto
  then show ?thesis by (elim exE) (intro exI, assumption | simp)
qed

text \<open>C20 (roundtrip). A trace crosses a hop: what the outbound decorator writes under a valid span, over
  whatever headers the handler sends, forwarded inbound trace headers in any case included, is what
  the trace middleware of the receiving service joins: its events carry the same trace id and the
  sender's span as parent, and the span that it puts on its own context has the same trace id and
  state. Every other header goes out as it was.\<close>

theorem trace_crosses_hops:
  fixes s :: "('v, 'w) st"
  assumes "SpanFromContext c0 = Some sp" "validSpan sp" "goMap hs"
    and "ic_Headers (ic s) = withTraceparent c0 hs"
  shows "(\<exists>i w2 event. TraceMiddleware uint64 millis info (Some ex) c nx s =
        andThen (nx (contextWithSpan c \<lparr>TraceID = TraceID sp, SpanID = i, TraceState = TraceState sp\<rparr>) (s\<lparr>env := w2\<rparr>))
          (\<lambda>err s1. (Return err, s1\<lparr>clock := fst (snd (ex c (event s1) (clock s1, env s1))),
             env := snd (snd (ex c (event s1) (clock s1, env s1)))\<rparr>)) \<and>
      (\<forall>s1. te_TraceID (event s1) = TraceID sp \<and> te_ParentSpanID (event s1) = SpanID sp \<and>
        te_SpanID (event s1) = i \<and> te_Service (event s1) = si_Service info)) \<and>
    (\<not> equalFold k ''traceparent'' \<and> \<not> equalFold k ''tracestate'' \<longrightarrow>
      map_of (withTraceparent c0 hs) k = map_of hs k)"
proof (intro conjI impI)
  obtain i w2 where i: "randHex uint64 8 (env s) = (i, w2)" by (metis prod.collapse)
  have "adoptTrace uint64 (ic_Headers (ic s)) (env s) = ((TraceID sp, SpanID sp, TraceState sp), env s)"
    unfolding assms(4) by (rule adoptTrace_span [OF assms(1-3)])
  from TraceMiddleware_run [OF this i, of millis info ex c nx]
  show "\<exists>i w2 event. TraceMiddleware uint64 millis info (Some ex) c nx s =
        andThen (nx (contextWithSpan c \<lparr>TraceID = TraceID sp, SpanID = i, TraceState = TraceState sp\<rparr>) (s\<lparr>env := w2\<rparr>))
          (\<lambda>err s1. (Return err, s1\<lparr>clock := fst (snd (ex c (event s1) (clock s1, env s1))),
             env := snd (snd (ex c (event s1) (clock s1, env s1)))\<rparr>)) \<and>
      (\<forall>s1. te_TraceID (event s1) = TraceID sp \<and> te_ParentSpanID (event s1) = SpanID sp \<and>
        te_SpanID (event s1) = i \<and> te_Service (event s1) = si_Service info)"
    by (elim exE conjE) (rule exI [of _ i], rule exI [of _ w2], rule exI, intro conjI, assumption, simp)
  assume "\<not> equalFold k ''traceparent'' \<and> \<not> equalFold k ''tracestate''"
  then show "map_of (withTraceparent c0 hs) k = map_of hs k"
    unfolding withTraceparent_header [OF assms(1,3)] by (auto simp: equalFold_def)
qed

definition upstreamSpan :: span where
  "upstreamSpan = \<lparr>TraceID = ''0af7651916cd43dd8448eb211c80319c'', SpanID = ''b7ad6b7169203331'', TraceState = ''k=v''\<rparr>"

definition downstream :: "(nat, traceEvent list) st" where
  "downstream = \<lparr>ic = NewInvocationContext (NewTopic ''pay'')
       (withTraceparent (contextWithSpan background upstreamSpan) [(''Traceparent'', ''stale''), (''x-a'', ''1'')]) NilAny None,
     clock = 0, env = []\<rparr>"

theorem trace_crosses_hops_witness:
  "\<exists>event s'. TraceMiddleware (\<lambda>log. (1, log)) of_int \<lparr>si_Service = ''payments'', si_InstanceID = ''''\<rparr>
      (Some (\<lambda>c event (t, log). (Return (), (t, [event])))) background (\<lambda>c s. (Return None, s)) downstream =
      (Return None, s') \<and> env s' = [event] \<and>
    te_TraceID event = ''0af7651916cd43dd8448eb211c80319c'' \<and> te_ParentSpanID event = ''b7ad6b7169203331'' \<and>
    map_of (withTraceparent (contextWithSpan background upstreamSpan)
      [(''Traceparent'', ''stale''), (''x-a'', ''1'')]) ''x-a'' = Some ''1''"
proof -
  have valid: "validSpan upstreamSpan" by code_simp
  have keys: "goMap [(''Traceparent'', ''stale''), (''x-a'', ''1'')]" by code_simp
  have hs: "ic_Headers (ic downstream) = withTraceparent (contextWithSpan background upstreamSpan)
      [(''Traceparent'', ''stale''), (''x-a'', ''1'')]"
    by (simp add: downstream_def NewInvocationContext_def)
  have ids: "TraceID upstreamSpan = ''0af7651916cd43dd8448eb211c80319c''" "SpanID upstreamSpan = ''b7ad6b7169203331''"
    by (simp_all add: upstreamSpan_def)
  have other: "\<not> equalFold ''x-a'' ''traceparent'' \<and> \<not> equalFold ''x-a'' ''tracestate''" by code_simp
  note claim = trace_crosses_hops [OF SpanFromContext_with valid keys hs, of "\<lambda>log. (1, log)" of_int
      "\<lparr>si_Service = ''payments'', si_InstanceID = ''''\<rparr>"
      "\<lambda>c event (t, log). (Return (), (t, [event]))" background "\<lambda>c s. (Return None, s)" "''x-a''"]
  from claim [THEN conjunct2] other
  have header: "map_of (withTraceparent (contextWithSpan background upstreamSpan)
      [(''Traceparent'', ''stale''), (''x-a'', ''1'')]) ''x-a'' = Some ''1''" by simp
  from claim [THEN conjunct1] show ?thesis
    unfolding ids andThen_simps split_def snd_conv fst_conv
    by (elim exE conjE) (intro exI conjI, assumption, simp, simp, simp, rule header)
qed


section \<open>The batching exporter\<close>

definition exportedEvents :: "pushAct list \<Rightarrow> traceEvent list" where
  "exportedEvents acts = concat (map (\<lambda>a. case a of Exports event \<Rightarrow> [event] | _ \<Rightarrow> []) acts)"

text \<open>What the exporter has accepted and not lost, in order.\<close>

definition carried :: "pushState \<Rightarrow> traceEvent list" where
  "carried e = concat (px_sent e) @ px_batch e @ px_queue e"

definition pushOk :: "pushState \<Rightarrow> bool" where
  "pushOk e \<longleftrightarrow> 0 < px_batchSize e \<and> length (px_queue e) \<le> px_capacity e \<and>
     (px_phase e = Looping \<longrightarrow> length (px_batch e) < px_batchSize e \<and>
        (\<forall>b \<in> set (px_sent e). b \<noteq> [] \<and> length b \<le> px_batchSize e)) \<and>
     (px_phase e = Ended \<longrightarrow> px_batch e = [])"

lemma flush_simps [simp]:
  "px_batch (flush e) = []" "px_queue (flush e) = px_queue e" "px_phase (flush e) = px_phase e"
  "px_batchSize (flush e) = px_batchSize e" "px_capacity (flush e) = px_capacity e"
  "px_sent (flush e) = px_sent e @ (if px_batch e = [] then [] else [px_batch e])"
  by (simp_all add: flush_def)

lemma loopStep_carried: "carried (loopStep choice e) = carried e"
  by (auto simp: carried_def Let_def split: pushPhase.split pushCase.split list.split)

lemma loopStep_constants:
  "px_batchSize (loopStep choice e) = px_batchSize e" "px_capacity (loopStep choice e) = px_capacity e"
  by (auto simp: Let_def split: pushPhase.split pushCase.split list.split)

lemma loopStep_ok:
  assumes "pushOk e"
  shows "pushOk (loopStep choice e)"
proof (cases "px_phase e")
  case Looping
  then show ?thesis
    using assms by (cases choice; cases "px_queue e"; cases "px_batch e = []")
      (simp_all add: pushOk_def Let_def)
next
  case Draining
  then show ?thesis using assms by (cases "px_queue e") (simp_all add: pushOk_def)
qed (use assms in \<open>simp add: pushOk_def\<close>)

lemma pushDo_ok:
  assumes "pushOk e"
  shows "\<exists>e'. pushDo a (Some e) = Some e' \<and> pushOk e' \<and> px_capacity e' = px_capacity e \<and>
    px_batchSize e' = px_batchSize e \<and>
    (carried e' = carried e @ exportedEvents [a] \<or>
     carried e' = carried e \<and> (exportedEvents [a] = [] \<or> length (px_queue e) = px_capacity e))"
proof (cases a)
  case (Moves choice)
  then show ?thesis
    using loopStep_ok [OF assms] loopStep_carried loopStep_constants by (simp add: exportedEvents_def)
qed (use assms in \<open>auto simp: Push_Export_def Push_Close_def pushOk_def carried_def exportedEvents_def\<close>)

lemma NewPushExporter_ok: "NewPushExporter False opts = Some e \<Longrightarrow> pushOk e \<and> carried e = [] \<and> 0 < px_capacity e"
  by (auto simp: NewPushExporter_def pushDefaults_def pushOk_def carried_def Let_def)

lemma exportedEvents_Cons: "exportedEvents (a # acts) = exportedEvents [a] @ exportedEvents acts"
  by (simp add: exportedEvents_def)

lemma pushRun_ok:
  assumes "pushOk e"
  shows "\<exists>e'. fold pushDo acts (Some e) = Some e' \<and> pushOk e' \<and> px_capacity e' = px_capacity e \<and>
    px_batchSize e' = px_batchSize e \<and>
    (\<exists>kept. subseq kept (exportedEvents acts) \<and> carried e' = carried e @ kept \<and>
      (length (px_queue e) + length (exportedEvents acts) \<le> px_capacity e \<longrightarrow> kept = exportedEvents acts))"
  using assms
proof (induction acts arbitrary: e)
  case Nil
  then show ?case by (simp add: exportedEvents_def)
next
  case (Cons a acts)
  from pushDo_ok [OF Cons.prems, of a] obtain e1 where e1: "pushDo a (Some e) = Some e1" "pushOk e1"
    "px_capacity e1 = px_capacity e" "px_batchSize e1 = px_batchSize e"
    "carried e1 = carried e @ exportedEvents [a] \<or>
     carried e1 = carried e \<and> (exportedEvents [a] = [] \<or> length (px_queue e) = px_capacity e)" by blast
  have queue: "length (px_queue e1) \<le> length (px_queue e) + length (exportedEvents [a])"
    using e1(1) by (cases a) (auto simp: Push_Export_def Push_Close_def exportedEvents_def Let_def flush_def
        split: pushPhase.splits pushCase.splits list.splits if_splits)
  from Cons.IH [OF e1(2)] obtain e' kept where e': "fold pushDo acts (Some e1) = Some e'" "pushOk e'"
    "px_capacity e' = px_capacity e1" "px_batchSize e' = px_batchSize e1" "subseq kept (exportedEvents acts)"
    "carried e' = carried e1 @ kept"
    "length (px_queue e1) + length (exportedEvents acts) \<le> px_capacity e1 \<longrightarrow> kept = exportedEvents acts" by blast
  let ?new = "if carried e1 = carried e @ exportedEvents [a] then exportedEvents [a] else []"
  have "subseq (?new @ kept) (exportedEvents (a # acts))"
    unfolding exportedEvents_Cons [of a acts] using e'(5) by (auto intro: list_emb_append_mono)
  moreover have "carried e' = carried e @ (?new @ kept)"
    using e1(5) e'(6) by auto
  moreover have "?new @ kept = exportedEvents (a # acts)"
    if "length (px_queue e) + length (exportedEvents (a # acts)) \<le> px_capacity e"
    using that e1(3,5) e'(7) queue unfolding exportedEvents_Cons [of a acts] by auto
  ultimately show ?case using e1 e' by (intro exI [of _ e']) auto
qed

text \<open>C21 (invariant). The trace feed is lossy and nothing else: whatever invocations export, whenever the
  background goroutine moves or is told to stop, what was sent, what is in its batch and what is
  queued are, in this order, a subsequence of what was exported: nothing is invented, duplicated or
  reordered. In every state so reached an export queues its event exactly when fewer events than the
  buffer holds (1024 by default) wait at that moment, and drops it otherwise, without touching anything else;
  closing and the goroutine's own steps lose nothing. So nothing at all is lost while the exported
  events fit the buffer. Up to the stop no batch is empty or larger than the batch size (64 by default).\<close>

theorem push_feed_lossy_only:
  assumes "NewPushExporter False opts = Some e0"
    and "capacity = (if BufferSize opts \<le> 0 then 1024 else nat (BufferSize opts))"
    and "batchLimit = (if BatchSize opts \<le> 0 then 64 else nat (BatchSize opts))"
  shows "\<exists>e. fold pushDo acts (Some e0) = Some e \<and> length (px_queue e) \<le> capacity \<and>
    subseq (concat (px_sent e) @ px_batch e @ px_queue e) (exportedEvents acts) \<and>
    (\<forall>event. pushDo (Exports event) (Some e) =
      Some (e\<lparr>px_queue := px_queue e @ (if length (px_queue e) < capacity then [event] else [])\<rparr>)) \<and>
    (\<forall>a e'. exportedEvents [a] = [] \<and> pushDo a (Some e) = Some e' \<longrightarrow>
      concat (px_sent e') @ px_batch e' @ px_queue e' = concat (px_sent e) @ px_batch e @ px_queue e) \<and>
    (length (exportedEvents acts) \<le> capacity \<longrightarrow>
      concat (px_sent e) @ px_batch e @ px_queue e = exportedEvents acts) \<and>
    (px_phase e = Looping \<longrightarrow> length (px_batch e) < batchLimit \<and>
      (\<forall>b \<in> set (px_sent e). b \<noteq> [] \<and> length b \<le> batchLimit))"
proof -
  from NewPushExporter_ok [OF assms(1)] have ok: "pushOk e0" "carried e0 = []" by auto
  then have q: "length (px_queue e0) = 0" by (simp add: carried_def)
  have sizes: "capacity = px_capacity e0" "batchLimit = px_batchSize e0"
    using assms by (auto simp: NewPushExporter_def pushDefaults_def Let_def)
  from pushRun_ok [OF ok(1), of acts] obtain e kept where e: "fold pushDo acts (Some e0) = Some e" "pushOk e"
    "px_capacity e = px_capacity e0" "px_batchSize e = px_batchSize e0" "subseq kept (exportedEvents acts)"
    "carried e = carried e0 @ kept"
    "length (px_queue e0) + length (exportedEvents acts) \<le> px_capacity e0 \<longrightarrow> kept = exportedEvents acts" by blast
  from e(6) have carried: "concat (px_sent e) @ px_batch e @ px_queue e = kept"
    unfolding ok(2) by (simp add: carried_def)
  have exports: "pushDo (Exports event) (Some e) =
      Some (e\<lparr>px_queue := px_queue e @ (if length (px_queue e) < capacity then [event] else [])\<rparr>)" for event
    by (simp add: Push_Export_def sizes e(3))
  have others: "concat (px_sent e') @ px_batch e' @ px_queue e' = concat (px_sent e) @ px_batch e @ px_queue e"
    if "exportedEvents [a] = []" "pushDo a (Some e) = Some e'" for a e'
    using pushDo_ok [OF e(2), of a] that by (auto simp: carried_def)
  then have others: "\<forall>a e'. exportedEvents [a] = [] \<and> pushDo a (Some e) = Some e' \<longrightarrow>
      concat (px_sent e') @ px_batch e' @ px_queue e' = concat (px_sent e) @ px_batch e @ px_queue e" by blast
  show ?thesis
    using e(2-5,7) q unfolding pushOk_def sizes(2)
    by (intro exI [of _ e] conjI e(1) others allI exports) (simp_all add: carried sizes(1))
qed

text \<open>C22 (liveness). Closing drains: once the goroutine sees that it is told to stop, each of its steps takes one
  queued event until none is left, and then it sends what it holds as one last batch and ends, so
  that Close returns and everything accepted before it has been sent, each event once and in order.\<close>

theorem push_close_flushes:
  assumes "NewPushExporter False opts = Some e0" and "fold pushDo acts (Some e0) = Some e"
    and "px_phase e = Looping" and "length choices = Suc (length (px_queue e))"
  shows "\<exists>e'. fold pushDo ([Closes, Moves StopCase] @ map Moves choices) (Some e) = Some e' \<and>
    px_phase e' = Ended \<and> px_queue e' = [] \<and> px_batch e' = [] \<and>
    concat (px_sent e') = concat (px_sent e) @ px_batch e @ px_queue e"
proof -
  have drain: "\<exists>e'. fold pushDo (map Moves cs) (Some e1) = Some e' \<and> px_phase e' = Ended \<and> px_queue e' = [] \<and>
      px_batch e' = [] \<and> concat (px_sent e') = concat (px_sent e1) @ px_batch e1 @ px_queue e1"
    if "px_phase e1 = Draining" "length cs = Suc (length (px_queue e1))" for cs and e1
    using that
  proof (induction cs arbitrary: e1)
    case (Cons choice cs)
    show ?case
    proof (cases "px_queue e1")
      case Nil
      then have "fold pushDo (map Moves cs) (Some (loopStep choice e1)) = Some (loopStep choice e1)"
        using Cons.prems by simp
      then show ?thesis using Nil Cons.prems by auto
    next
      case (Cons event rest)
      then show ?thesis
        using Cons.IH [of "loopStep choice e1"] Cons.prems by simp
    qed
  qed simp
  let ?e1 = "e\<lparr>px_stop := True, px_phase := Draining\<rparr>"
  have closed: "fold pushDo [Closes, Moves StopCase] (Some e) = Some ?e1"
    using assms(3) by (simp add: Push_Close_def)
  show ?thesis
    unfolding fold_append o_apply closed using drain [of ?e1 choices] assms(4) by simp
qed

definition tinyExporter :: pushState where
  "tinyExporter = \<lparr>px_batchSize = 2, px_capacity = 3, px_queue = [], px_stop = False, px_phase = Looping,
     px_batch = [], px_sent = []\<rparr>"

definition eventOf :: "string \<Rightarrow> traceEvent" where
  "eventOf i = \<lparr>te_TraceID = i, te_SpanID = i, te_ParentSpanID = '''', te_Service = '''', te_InstanceID = '''',
     te_Topic = ''t'', te_TopicVersion = '''', te_Status = '''', te_DurationMs = 0, te_StartedAt = 0, te_CorrelationID = ''''\<rparr>"

lemma tinyExporter_new:
  "NewPushExporter False \<lparr>BatchSize = 2, FlushInterval = 0, BufferSize = 3\<rparr> = Some tinyExporter"
  by (simp add: NewPushExporter_def pushDefaults_def tinyExporter_def)

theorem push_feed_lossy_only_witness:
  "\<exists>e. fold pushDo [Exports (eventOf ''a''), Exports (eventOf ''b''), Moves Receive, Moves Receive, Exports (eventOf ''c'')]
      (Some tinyExporter) = Some e \<and>
    concat (px_sent e) @ px_batch e @ px_queue e = [eventOf ''a'', eventOf ''b'', eventOf ''c'']"
  using push_feed_lossy_only [OF tinyExporter_new refl refl, of "[Exports (eventOf ''a''), Exports (eventOf ''b''),
      Moves Receive, Moves Receive, Exports (eventOf ''c'')]"]
  by (auto simp: exportedEvents_def tinyExporter_def)

theorem push_close_flushes_witness:
  "\<exists>e'. fold pushDo ([Exports (eventOf ''a''), Exports (eventOf ''b''), Moves Receive] @
      ([Closes, Moves StopCase] @ map Moves [Tick, Tick])) (Some tinyExporter) = Some e' \<and>
    px_phase e' = Ended \<and> concat (px_sent e') = [eventOf ''a'', eventOf ''b'']"
proof -
  let ?e = "tinyExporter\<lparr>px_queue := [eventOf ''b''], px_batch := [eventOf ''a'']\<rparr>"
  have run: "fold pushDo [Exports (eventOf ''a''), Exports (eventOf ''b''), Moves Receive] (Some tinyExporter) = Some ?e"
    by (simp add: tinyExporter_def Push_Export_def)
  have "px_phase ?e = Looping" "length [Tick, Tick] = Suc (length (px_queue ?e))" by (simp_all add: tinyExporter_def)
  note claim = push_close_flushes [OF tinyExporter_new run this]
  have "concat (px_sent ?e) @ px_batch ?e @ px_queue ?e = [eventOf ''a'', eventOf ''b'']"
    by (simp add: tinyExporter_def)
  with claim show ?thesis
    unfolding fold_append [of _ "[Exports (eventOf ''a''), Exports (eventOf ''b''), Moves Receive]"] o_apply run
    by (elim exE conjE) (intro exI conjI, assumption, assumption, simp only:)
qed

end
