(* ===== verification/MeshIssues.thy ===== *)
theory MeshIssues
  imports Mesh Http "HOL-Library.Product_Lexorder"
begin

text \<open>
  The issue feed of the mesh (\<^verbatim>\<open>mesh/issues.go\<close>) and its wire types (\<^verbatim>\<open>mesh/wire.go\<close>): the
  classification of a failure, its fingerprint, the merge of error details, the middleware that
  records failures and the exporter that counts them per fingerprint and flushes the counts. Counts
  are 64-bit integers. SHA-256 is the argument \<open>sum256\<close>. The zero \<^verbatim>\<open>time.Time\<close> is 0.
\<close>

section \<open>Wire types (wire.go)\<close>

record issueError =
  ie_Field :: string
  ie_Code :: string
  ie_Count :: "64 word"

record issue =
  is_Fingerprint :: string
  is_Classification :: string
  is_Service :: string
  is_Topic :: string
  is_Version :: string
  is_Transport :: string
  is_Status :: string
  is_ExceptionType :: string
  is_Count :: "64 word"
  is_FirstSeen :: int
  is_LastSeen :: int
  is_ExemplarTraceIds :: "string list"
  is_ResolutionHint :: string
  is_Errors :: "issueError list"

record issueBatch =
  ib_Service :: string
  ib_Issues :: "issue list"

text \<open>
  The lenient decoding of an error detail: the members of an entry as pointers, of which \<open>None\<close> is
  nil; a number is kept as its text, and the text of a string counts as one when it has a number's form.
\<close>

fun decodeStringPtr :: "string option decoder" where
  "decodeStringPtr (JStr s) old = (Some s, True)"
| "decodeStringPtr JNull old = (None, True)"
| "decodeStringPtr _ old = (Some (case old of None \<Rightarrow> '''' | Some s \<Rightarrow> s), False)"

fun decodeNumberPtr :: "string option decoder" where
  "decodeNumberPtr (JNum n) old = (Some n, True)"
| "decodeNumberPtr (JStr s) old = (if validNumber s then (Some s, True)
     else (Some (case old of None \<Rightarrow> '''' | Some t \<Rightarrow> t), False))"
| "decodeNumberPtr JNull old = (None, True)"
| "decodeNumberPtr _ old = (Some (case old of None \<Rightarrow> '''' | Some t \<Rightarrow> t), False)"

record rawEntry =
  re_Field :: "string option"
  re_Code :: "string option"
  re_Count :: "string option"

definition rawEntryField :: "string \<Rightarrow> rawEntry decoder" where
  "rawEntryField f =
    (if f = ''field'' then into re_Field_update re_Field decodeStringPtr
     else if f = ''code'' then into re_Code_update re_Code decodeStringPtr
     else into re_Count_update re_Count decodeNumberPtr)"

definition decodeEntry :: "json \<Rightarrow> issueError option" where
  "decodeEntry item =
    (case decodeStruct [''field'', ''code'', ''count''] rawEntryField item
        \<lparr>re_Field = None, re_Code = None, re_Count = None\<rparr> of
       (entry, False) \<Rightarrow> None
     | (entry, True) \<Rightarrow> (case re_Count entry of
          None \<Rightarrow> None
        | Some n \<Rightarrow> (case parseInt n of
            None \<Rightarrow> None
          | Some amount \<Rightarrow>
              if amount \<le> 0 then None
              else (let field = (case re_Field entry of None \<Rightarrow> '''' | Some s \<Rightarrow> s);
                        code = (case re_Code entry of None \<Rightarrow> '''' | Some s \<Rightarrow> s) in
                if field = '''' \<and> code = '''' then None
                else Some \<lparr>ie_Field = field, ie_Code = code, ie_Count = word_of_int amount\<rparr>))))"

fun IssueErrors_UnmarshalJSON :: "json \<Rightarrow> issueError list" where
  "IssueErrors_UnmarshalJSON (JArr raw) = List.map_filter decodeEntry raw"
| "IssueErrors_UnmarshalJSON _ = []"

section \<open>Classification (issues.go)\<close>

definition classificationValidation :: string where "classificationValidation = ''validation''"
definition classificationException :: string where "classificationException = ''exception''"
definition classificationConfigWiring :: string where "classificationConfigWiring = ''config-wiring''"
definition classificationDependency :: string where "classificationDependency = ''dependency''"
definition classificationUnclassified :: string where "classificationUnclassified = ''unclassified''"
definition ClassificationContractDrift :: string where "ClassificationContractDrift = ''contract-drift''"

definition ClassifyIssue :: "status \<Rightarrow> string \<Rightarrow> string" where
  "ClassifyIssue s exceptionType =
    (if s \<in> {StatusBadRequest, StatusValidationError} then classificationValidation
     else if exceptionType \<noteq> '''' then classificationException
     else if s \<in> {StatusNotFound, StatusUnauthorized, StatusForbidden, StatusNotImplemented}
       then classificationConfigWiring
     else if s \<in> {StatusServiceUnavailable, StatusTimeout, StatusTooManyRequests} then classificationDependency
     else if s = StatusUnexpectedError then classificationException
     else if s = '''' then classificationConfigWiring
     else classificationUnclassified)"

definition maxExemplars :: nat where "maxExemplars = 3"

definition newestExemplars :: "string list \<Rightarrow> string list \<Rightarrow> string list" where
  "newestExemplars existing incoming =
    (let combined = existing @ incoming in
     if length combined > maxExemplars then drop (length combined - maxExemplars) combined else combined)"

definition IssueFingerprint ::
  "(string \<Rightarrow> string) \<Rightarrow> string \<Rightarrow> string \<Rightarrow> string \<Rightarrow> string \<Rightarrow> string \<Rightarrow> string" where
  "IssueFingerprint sum256 service topic version classification discriminator =
    hexEncode (take 16 (sum256 (service @ ''|'' @ topic @ ''|'' @ version @ ''|'' @ classification @ ''|'' @
      discriminator)))"

section \<open>Error details\<close>

definition MaxIssueErrors :: nat where "MaxIssueErrors = 10"

text \<open>
  The counts per identity; \<open>order\<close> is the order in which the map of counts is ranged over. The sort is by
  count, the highest first, then by field and code, and no two entries compare equal.
\<close>

definition errorCounts :: "issueError list \<Rightarrow> ((string \<times> string) \<times> 64 word) list" where
  "errorCounts entries = fold (\<lambda>entry m. AList.update (ie_Field entry, ie_Code entry)
     (goIndex m (ie_Field entry, ie_Code entry) 0 + ie_Count entry) m) entries []"

definition errorRank :: "issueError \<Rightarrow> int \<times> string \<times> string" where
  "errorRank entry = (- sint (ie_Count entry), ie_Field entry, ie_Code entry)"

definition MergeIssueErrors ::
  "(((string \<times> string) \<times> 64 word) list \<Rightarrow> ((string \<times> string) \<times> 64 word) list) \<Rightarrow>
   issueError list \<Rightarrow> issueError list \<Rightarrow> issueError list" where
  "MergeIssueErrors order existing delta =
    (if existing = [] \<and> delta = [] then []
     else (let merged = sort_key errorRank (map (\<lambda>((field, code), amount).
             \<lparr>ie_Field = field, ie_Code = code, ie_Count = amount\<rparr>) (order (errorCounts (existing @ delta)))) in
       if length merged > MaxIssueErrors then take MaxIssueErrors merged else merged))"

section \<open>The middleware\<close>

record issueOccurrence =
  io_Service :: string
  io_Topic :: string
  io_Version :: string
  io_Status :: string
  io_ExceptionType :: string
  io_TraceID :: string
  io_At :: int
  io_Errors :: "issueError list"

text \<open>A recorder works on the world and may panic.\<close>

type_synonym 'w issueRecorder = "issueOccurrence \<Rightarrow> 'w \<Rightarrow> unit outcome \<times> 'w"

definition issueWorthRecording :: "'v resultInfo option \<Rightarrow> bool" where
  "issueWorthRecording result = (case result of
      None \<Rightarrow> True
    | Some r \<Rightarrow> (case asSuccessInfo r of Some b \<Rightarrow> \<not> b | None \<Rightarrow> IsFailure (ResultStatus r)))"

definition issueErrorsOf :: "'v resultInfo option \<Rightarrow> issueError list" where
  "issueErrorsOf result = (case result of
      None \<Rightarrow> []
    | Some r \<Rightarrow> map (\<lambda>p. \<lparr>ie_Field = pe_Field p, ie_Code = pe_Code p, ie_Count = 1\<rparr>)
        (filter (\<lambda>p. \<not> (pe_Field p = '''' \<and> pe_Code p = '''')) (ProblemsOf r)))"

definition IssueMiddleware :: "serviceInfo \<Rightarrow> 'w issueRecorder option \<Rightarrow> ('v, 'w) middleware" where
  "IssueMiddleware info exporter = (case exporter of
      None \<Rightarrow> (\<lambda>c nx s. nx c s)
    | Some record_ \<Rightarrow> (\<lambda>c nx s. andThen (nx c s) (\<lambda>err s1.
        if issueWorthRecording (ic_Result (ic s1)) then
          (let status = (case ic_Result (ic s1) of None \<Rightarrow> '''' | Some r \<Rightarrow> ResultStatus r);
               traceID = (case SpanFromContext c of Some sp \<Rightarrow> TraceID sp
                 | None \<Rightarrow> fst (parseTraceparent (goIndex (ic_Headers (ic s1)) ''traceparent'' '''')));
               occurrence = \<lparr>io_Service = si_Service info, io_Topic = ID (ic_Topic (ic s1)),
                 io_Version = Version (ic_Topic (ic s1)), io_Status = status, io_ExceptionType = '''',
                 io_TraceID = traceID, io_At = clock s1, io_Errors = issueErrorsOf (ic_Result (ic s1))\<rparr> in
           case record_ occurrence (env s1) of
             (Panic p, w) \<Rightarrow> (Panic p, s1\<lparr>env := w\<rparr>)
           | (Return _, w) \<Rightarrow> (Return err, s1\<lparr>env := w\<rparr>))
        else (Return err, s1))))"

section \<open>The exporter\<close>

record pendingIssue =
  pi_classification :: string
  pi_topic :: string
  pi_version :: string
  pi_status :: string
  pi_exceptionType :: string
  pi_count :: "64 word"
  pi_firstSeen :: int
  pi_lastSeen :: int
  pi_exemplars :: "string list"
  pi_errors :: "((string \<times> string) \<times> 64 word) list"

definition maxPendingIssueErrors :: nat where "maxPendingIssueErrors = 100"

text \<open>
  The exporter behind its mutex: the pending map and the batches handed to the sender, whose result
  nothing depends on; \<open>None\<close> is a nil exporter.
\<close>

record issueExporter =
  ix_service :: string
  ix_interval :: int
  ix_pending :: "(string \<times> pendingIssue) list"
  ix_ended :: bool
  ix_sent :: "issueBatch list"

definition NewPushIssueExporter :: "bool \<Rightarrow> string \<Rightarrow> int \<Rightarrow> issueExporter option" where
  "NewPushIssueExporter senderIsNil service flushInterval =
    (if senderIsNil \<or> service = '''' then None
     else Some \<lparr>ix_service = service,
       ix_interval = (if flushInterval \<le> 0 then 5000000000 else flushInterval),
       ix_pending = [], ix_ended = False, ix_sent = []\<rparr>)"

definition admitError :: "issueError \<Rightarrow> ((string \<times> string) \<times> 64 word) list \<Rightarrow> ((string \<times> string) \<times> 64 word) list" where
  "admitError entry errors =
    (let pair = (ie_Field entry, ie_Code entry) in
     if hasKey errors pair \<or> length errors < maxPendingIssueErrors
     then AList.update pair (goIndex errors pair 0 + (if sint (ie_Count entry) < 1 then 1 else ie_Count entry)) errors
     else errors)"

definition occurrenceKey :: "(string \<Rightarrow> string) \<Rightarrow> issueOccurrence \<Rightarrow> string" where
  "occurrenceKey sum256 occurrence =
    (let classification = ClassifyIssue (io_Status occurrence) (io_ExceptionType occurrence);
         discriminator = (if io_ExceptionType occurrence = '''' then io_Status occurrence
           else io_ExceptionType occurrence) in
     IssueFingerprint sum256 (io_Service occurrence) (io_Topic occurrence) (io_Version occurrence)
       classification discriminator)"

definition Issue_Record :: "(string \<Rightarrow> string) \<Rightarrow> issueOccurrence \<Rightarrow> issueExporter option \<Rightarrow> issueExporter option" where
  "Issue_Record sum256 occurrence e = map_option (\<lambda>e.
    (let fingerprint = occurrenceKey sum256 occurrence;
         issue = (case map_of (ix_pending e) fingerprint of
             Some issue \<Rightarrow> issue
           | None \<Rightarrow> \<lparr>pi_classification = ClassifyIssue (io_Status occurrence) (io_ExceptionType occurrence),
               pi_topic = io_Topic occurrence, pi_version = io_Version occurrence, pi_status = io_Status occurrence,
               pi_exceptionType = io_ExceptionType occurrence, pi_count = 0, pi_firstSeen = io_At occurrence,
               pi_lastSeen = 0, pi_exemplars = [], pi_errors = []\<rparr>);
         issue1 = issue\<lparr>pi_count := pi_count issue + 1, pi_lastSeen := io_At occurrence,
           pi_errors := fold admitError (io_Errors occurrence) (pi_errors issue),
           pi_exemplars := (if io_TraceID occurrence \<noteq> ''''
             then newestExemplars (pi_exemplars issue) [io_TraceID occurrence] else pi_exemplars issue)\<rparr> in
     e\<lparr>ix_pending := AList.update fingerprint issue1 (ix_pending e)\<rparr>)) e"

definition pendingIssueErrors :: "((string \<times> string) \<times> 64 word) list \<Rightarrow> issueError list" where
  "pendingIssueErrors counts =
    (if counts = [] then []
     else MergeIssueErrors (\<lambda>m. m) [] (map (\<lambda>((field, code), amount).
       \<lparr>ie_Field = field, ie_Code = code, ie_Count = amount\<rparr>) counts))"

definition snapshotIssueBatch :: "string \<Rightarrow> (string \<times> pendingIssue) list \<Rightarrow> issueBatch" where
  "snapshotIssueBatch service pending = \<lparr>ib_Service = service, ib_Issues = map (\<lambda>(fingerprint, issue).
     \<lparr>is_Fingerprint = fingerprint, is_Classification = pi_classification issue, is_Service = service,
      is_Topic = pi_topic issue, is_Version = pi_version issue, is_Transport = '''', is_Status = pi_status issue,
      is_ExceptionType = pi_exceptionType issue, is_Count = pi_count issue, is_FirstSeen = pi_firstSeen issue,
      is_LastSeen = pi_lastSeen issue, is_ExemplarTraceIds = pi_exemplars issue, is_ResolutionHint = '''',
      is_Errors = pendingIssueErrors (pi_errors issue)\<rparr>) pending\<rparr>"

definition Issue_Flush :: "issueExporter option \<Rightarrow> issueExporter option" where
  "Issue_Flush e = map_option (\<lambda>e. e\<lparr>ix_pending := [],
     ix_sent := ix_sent e @ [snapshotIssueBatch (ix_service e) (ix_pending e)]\<rparr>) e"

text \<open>A step of the goroutine: the ticker fired, or the stop channel is closed.\<close>

definition issueLoop :: "bool \<Rightarrow> issueExporter option \<Rightarrow> issueExporter option" where
  "issueLoop stopped e = (case e of None \<Rightarrow> None | Some x \<Rightarrow>
     if ix_ended x then Some x
     else if stopped then map_option (ix_ended_update (\<lambda>_. True)) (Issue_Flush (Some x))
     else Issue_Flush (Some x))"

section \<open>Lemmas\<close>

definition identity :: "issueError \<Rightarrow> string \<times> string" where
  "identity entry = (ie_Field entry, ie_Code entry)"

text \<open>The total count of an identity.\<close>

definition totalOf :: "string \<times> string \<Rightarrow> issueError list \<Rightarrow> 64 word" where
  "totalOf k entries = sum_list (map ie_Count (filter (\<lambda>entry. identity entry = k) entries))"

lemma totalOf_snoc: "totalOf k (entries @ [entry]) = totalOf k entries + (if identity entry = k then ie_Count entry else 0)"
  by (simp add: totalOf_def)

lemma errorCounts_total:
  "goMap (errorCounts entries) \<and>
   map_of (errorCounts entries) k = (if k \<in> identity ` set entries then Some (totalOf k entries) else None)"
proof (induction entries arbitrary: k rule: rev_induct)
  case (snoc entry entries)
  from snoc [of "identity entry"] have "goIndex (errorCounts entries) (identity entry) 0 = totalOf (identity entry) entries"
    by (auto simp: goIndex_def totalOf_def image_iff filter_empty_conv
        intro!: arg_cong [where f = sum_list] split: if_splits)
      (metis (mono_tags, lifting) filter_False sum_list.Nil list.simps(8))
  then show ?case
    using snoc [of k] by (auto simp: errorCounts_def identity_def [symmetric] totalOf_snoc)
qed (simp add: errorCounts_def)

definition asError :: "(string \<times> string) \<times> 64 word \<Rightarrow> issueError" where
  "asError kn = \<lparr>ie_Field = fst (fst kn), ie_Code = snd (fst kn), ie_Count = snd kn\<rparr>"

lemma asError_simps [simp]: "identity (asError kn) = fst kn" "ie_Count (asError kn) = snd kn"
  by (simp_all add: asError_def identity_def)

lemma asError_case: "(\<lambda>((field, code), amount). \<lparr>ie_Field = field, ie_Code = code, ie_Count = amount\<rparr>) = asError"
  by (auto simp: asError_def fun_eq_iff)

lemma errorRank_inj: "errorRank a = errorRank b \<longleftrightarrow> a = b"
  by (cases a; cases b) (auto simp: errorRank_def intro: signed_word_eqI)

lemma sort_errorRank_perm:
  assumes "mset xs = mset ys"
  shows "sort_key errorRank xs = sort_key errorRank ys"
  using assms by (intro sort_key_inj_key_eq) (auto simp: inj_on_def errorRank_inj)

text \<open>The merged entries before the bound.\<close>

definition allErrors :: "issueError list \<Rightarrow> issueError list" where
  "allErrors entries = sort_key errorRank (map asError (errorCounts entries))"

lemma MergeIssueErrors_all:
  assumes "\<And>m. mset (order m) = mset m"
  shows "MergeIssueErrors order existing delta = take 10 (allErrors (existing @ delta))"
proof -
  have "sort_key errorRank (map asError (order (errorCounts (existing @ delta)))) = allErrors (existing @ delta)"
    unfolding allErrors_def by (intro sort_errorRank_perm) (simp only: mset_map assms)
  then show ?thesis
    by (auto simp: MergeIssueErrors_def asError_case Let_def MaxIssueErrors_def allErrors_def errorCounts_def)
qed

lemma allErrors_set: "set (allErrors entries) = {e. identity e \<in> identity ` set entries \<and>
    ie_Count e = totalOf (identity e) entries}"
proof (intro set_eqI iffI)
  fix e assume "e \<in> set (allErrors entries)"
  then obtain k n where kn: "(k, n) \<in> set (errorCounts entries)" "e = asError (k, n)"
    by (auto simp: allErrors_def)
  have "goMap (errorCounts entries)" using errorCounts_total by blast
  with kn(1) have "map_of (errorCounts entries) k = Some n" by (simp add: goMap_def)
  then show "e \<in> {e. identity e \<in> identity ` set entries \<and> ie_Count e = totalOf (identity e) entries}"
    using errorCounts_total [of entries k] kn(2) by (auto split: if_splits)
next
  fix e assume "e \<in> {e. identity e \<in> identity ` set entries \<and> ie_Count e = totalOf (identity e) entries}"
  then have "map_of (errorCounts entries) (identity e) = Some (ie_Count e)"
    using errorCounts_total [of entries "identity e"] by auto
  then have "(identity e, ie_Count e) \<in> set (errorCounts entries)" by (rule map_of_SomeD)
  moreover have "asError (identity e, ie_Count e) = e" by (cases e) (simp add: asError_def identity_def)
  ultimately show "e \<in> set (allErrors entries)" unfolding allErrors_def set_sort set_map by (metis image_eqI)
qed

lemma allErrors_distinct: "distinct (map identity (allErrors entries))"
proof -
  have "map identity (map asError (errorCounts entries)) = map fst (errorCounts entries)" by simp
  moreover have "mset (map identity (allErrors entries)) = mset (map identity (map asError (errorCounts entries)))"
    unfolding allErrors_def mset_map mset_sort ..
  moreover have "distinct (map fst (errorCounts entries))" using errorCounts_total goMap_def by blast
  ultimately show ?thesis by (metis mset_eq_imp_distinct_iff)
qed

section \<open>Properties\<close>

text \<open>Merging two error details gives, in whatever order the map of counts is visited, one
  list: at most ten entries, one per field and code, each with the sum of both sides' counts for it,
  strictly ordered by count, then field, then code, and an identity is left out only when the list is
  full of entries that rank before it.\<close>

theorem merge_issue_errors_exact:
  fixes existing delta :: "issueError list"
    and order order' :: "((string \<times> string) \<times> 64 word) list \<Rightarrow> ((string \<times> string) \<times> 64 word) list"
  assumes "\<And>m. mset (order m) = mset m" and "\<And>m. mset (order' m) = mset m"
  defines "entries \<equiv> existing @ delta"
  defines "merged \<equiv> MergeIssueErrors order existing delta"
  shows "merged = MergeIssueErrors order' existing delta \<and> length merged \<le> 10 \<and>
    distinct (map identity merged) \<and> sorted_wrt (<) (map errorRank merged) \<and>
    (\<forall>e \<in> set merged. identity e \<in> identity ` set entries \<and> ie_Count e = totalOf (identity e) entries) \<and>
    (\<forall>x \<in> set entries. identity x \<notin> identity ` set merged \<longrightarrow> length merged = 10 \<and>
      (\<forall>e \<in> set merged. errorRank e < errorRank (asError (identity x, totalOf (identity x) entries))))"
proof -
  let ?all = "allErrors entries"
  have m: "merged = take 10 ?all" "MergeIssueErrors order' existing delta = take 10 ?all"
    unfolding merged_def entries_def using assms(1,2) by (simp_all add: MergeIssueErrors_all)
  have dist: "distinct ?all" using allErrors_distinct [of entries] by (simp add: distinct_map)
  have "inj_on errorRank (set ?all)" by (simp add: inj_on_def errorRank_inj)
  then have strict: "sorted_wrt (<) (map errorRank ?all)"
    unfolding strict_sorted_iff using dist by (simp add: distinct_map allErrors_def)
  have all: "e \<in> set ?all \<longleftrightarrow> identity e \<in> identity ` set entries \<and> ie_Count e = totalOf (identity e) entries" for e
    by (simp add: allErrors_set)
  have "length merged = 10 \<and>
      (\<forall>e \<in> set merged. errorRank e < errorRank (asError (identity x, totalOf (identity x) entries)))"
    if x: "x \<in> set entries" "identity x \<notin> identity ` set merged" for x
  proof -
    let ?x = "asError (identity x, totalOf (identity x) entries)"
    have "?x \<in> set ?all" unfolding all using x(1) by simp
    moreover have "?x \<notin> set (take 10 ?all)" using x(2) unfolding m(1) by (metis asError_simps(1) fst_conv image_eqI)
    ultimately have d: "?x \<in> set (drop 10 ?all)" by (metis Un_iff append_take_drop_id set_append)
    then have "length merged = 10" unfolding m(1) by (cases "10 \<le> length ?all") simp_all
    moreover have "sorted_wrt (<) (map errorRank (take 10 ?all) @ map errorRank (drop 10 ?all))"
      using strict by (simp flip: map_append)
    ultimately show ?thesis using d unfolding m(1) sorted_wrt_append by simp
  qed
  moreover have "distinct (map identity merged)"
    unfolding m(1) using allErrors_distinct [of entries] by (simp flip: take_map add: distinct_take)
  moreover have "sorted_wrt (<) (map errorRank merged)"
    unfolding m(1) using strict by (simp flip: take_map add: sorted_wrt_take)
  moreover have "length merged \<le> 10" unfolding m(1) by simp
  moreover have "\<forall>e \<in> set merged. e \<in> set ?all" unfolding m(1) by (blast dest: in_set_takeD)
  ultimately show ?thesis using all m by metis
qed

theorem merge_issue_errors_exact_witness:
  "MergeIssueErrors rev [\<lparr>ie_Field = ''name'', ie_Code = ''required'', ie_Count = 2\<rparr>]
      [\<lparr>ie_Field = ''age'', ie_Code = '''', ie_Count = 5\<rparr>, \<lparr>ie_Field = ''name'', ie_Code = ''required'', ie_Count = 3\<rparr>] =
    MergeIssueErrors (\<lambda>m. m) [\<lparr>ie_Field = ''name'', ie_Code = ''required'', ie_Count = 2\<rparr>]
      [\<lparr>ie_Field = ''age'', ie_Code = '''', ie_Count = 5\<rparr>, \<lparr>ie_Field = ''name'', ie_Code = ''required'', ie_Count = 3\<rparr>]"
  using merge_issue_errors_exact [of rev "\<lambda>m. m"] by simp

section \<open>The exporter counts every occurrence\<close>

datatype issueAct = Records issueOccurrence | Flushes | Ticks | Stops

fun issueDo :: "(string \<Rightarrow> string) \<Rightarrow> issueAct \<Rightarrow> issueExporter option \<Rightarrow> issueExporter option" where
  "issueDo sum256 (Records occurrence) e = Issue_Record sum256 occurrence e"
| "issueDo sum256 Flushes e = Issue_Flush e"
| "issueDo sum256 Ticks e = issueLoop False e"
| "issueDo sum256 Stops e = issueLoop True e"

definition occurrencesOf :: "(string \<Rightarrow> string) \<Rightarrow> string \<Rightarrow> issueAct list \<Rightarrow> nat" where
  "occurrencesOf sum256 f acts = length (filter (\<lambda>a. case a of
     Records occurrence \<Rightarrow> occurrenceKey sum256 occurrence = f | _ \<Rightarrow> False) acts)"

definition deltaOf :: "string \<Rightarrow> issueBatch \<Rightarrow> 64 word" where
  "deltaOf f batch = sum_list (map is_Count (filter (\<lambda>i. is_Fingerprint i = f) (ib_Issues batch)))"

definition pendingOf :: "string \<Rightarrow> issueExporter \<Rightarrow> 64 word" where
  "pendingOf f e = (case map_of (ix_pending e) f of None \<Rightarrow> 0 | Some p \<Rightarrow> pi_count p)"

lemma deltaOf_snapshot:
  assumes "goMap pending"
  shows "deltaOf f (snapshotIssueBatch service pending) = (case map_of pending f of None \<Rightarrow> 0 | Some p \<Rightarrow> pi_count p)"
  using assms
proof (induction pending)
  case (Cons kp pending)
  obtain k p where kp: "kp = (k, p)" by (cases kp)
  have "map_of pending k = None" using Cons.prems kp by (simp add: goMap_Cons map_of_eq_None_iff)
  with Cons kp show ?case by (auto simp: deltaOf_def snapshotIssueBatch_def goMap_Cons)
qed (simp add: deltaOf_def snapshotIssueBatch_def)

definition counted :: "string \<Rightarrow> issueExporter \<Rightarrow> 64 word" where
  "counted f e = sum_list (map (deltaOf f) (ix_sent e)) + pendingOf f e"

lemma Issue_Record_counted:
  assumes "goMap (ix_pending e)"
  shows "\<exists>e'. Issue_Record sum256 occurrence (Some e) = Some e' \<and> goMap (ix_pending e') \<and> ix_service e' = ix_service e \<and>
    counted f e' = counted f e + (if occurrenceKey sum256 occurrence = f then 1 else 0)"
  using assms by (auto simp: Issue_Record_def Let_def counted_def pendingOf_def split: option.split)

lemma Issue_Flush_counted:
  assumes "goMap (ix_pending e)"
  shows "\<exists>e'. Issue_Flush (Some e) = Some e' \<and> goMap (ix_pending e') \<and> ix_service e' = ix_service e \<and>
    counted f e' = counted f e \<and> ix_pending e' = [] \<and>
    ix_sent e' = ix_sent e @ [snapshotIssueBatch (ix_service e) (ix_pending e)]"
  using assms by (simp add: Issue_Flush_def counted_def pendingOf_def deltaOf_snapshot)

lemma issueDo_counted:
  assumes "goMap (ix_pending e)"
  shows "\<exists>e'. issueDo sum256 a (Some e) = Some e' \<and> goMap (ix_pending e') \<and> ix_service e' = ix_service e \<and>
    counted f e' = counted f e + of_nat (occurrencesOf sum256 f [a])"
proof (cases a)
  case (Records occurrence)
  then show ?thesis using Issue_Record_counted [OF assms, of sum256 occurrence f] by (auto simp: occurrencesOf_def)
next
  case Stops
  obtain e' where "Issue_Flush (Some e) = Some e'" "goMap (ix_pending e')" "ix_service e' = ix_service e"
    "counted f e' = counted f e" using Issue_Flush_counted [OF assms, of f] by blast
  with Stops assms show ?thesis
    by (cases "ix_ended e") (auto simp: issueLoop_def occurrencesOf_def counted_def pendingOf_def)
qed (use assms Issue_Flush_counted [OF assms, of f] in \<open>auto simp: issueLoop_def occurrencesOf_def\<close>)

lemma issueRun_counted:
  assumes "goMap (ix_pending e)"
  shows "\<exists>e'. fold (issueDo sum256) acts (Some e) = Some e' \<and> goMap (ix_pending e') \<and> ix_service e' = ix_service e \<and>
    (\<forall>f. counted f e' = counted f e + of_nat (occurrencesOf sum256 f acts))"
  using assms
proof (induction acts arbitrary: e)
  case Nil
  then show ?case by (simp add: occurrencesOf_def)
next
  case (Cons a acts)
  from issueDo_counted [OF Cons.prems, of sum256 a] obtain e1 where e1: "issueDo sum256 a (Some e) = Some e1"
    "goMap (ix_pending e1)" "ix_service e1 = ix_service e" by blast
  have c1: "counted f e1 = counted f e + of_nat (occurrencesOf sum256 f [a])" for f
    using issueDo_counted [OF Cons.prems, of sum256 a f] e1(1) by auto
  have "occurrencesOf sum256 f (a # acts) = occurrencesOf sum256 f [a] + occurrencesOf sum256 f acts" for f
    by (simp add: occurrencesOf_def)
  with Cons.IH [OF e1(2)] e1 c1 show ?case by (auto simp: algebra_simps)
qed

end
