(* ===== verification/Health.thy ===== *)
theory Health
  imports Http Client Concurrency GoStrings
begin

text \<open>
  Health checks (\<^verbatim>\<open>healthcheck/healthcheck.go\<close>, \<^verbatim>\<open>healthcheck/checks.go\<close>, \<^verbatim>\<open>healthcheck/disk.go\<close>): the
  concurrent run of the checks and the aggregate response, the middleware that answers the reserved
  topic, and the checks of a TCP port, of a URL and of free disk space, whose network and file system
  are arguments. A check is a goroutine in the sense of theory Concurrency.
\<close>

section \<open>Running checks (healthcheck.go)\<close>

definition checkOk :: string where "checkOk = ''ok''"
definition checkWarning :: string where "checkWarning = ''warning''"
definition checkFailed :: string where "checkFailed = ''failed''"

definition HealthTopic :: string where "HealthTopic = ''benzene:healthcheck''"

record checkResult =
  cr_Status :: string
  cr_Type :: string
  cr_Data :: "(string \<times> json) list"

record 'w check =
  ck_Name :: string
  ck_Check :: "ctx \<Rightarrow> ('w, checkResult) action"

definition NamedCheck :: "string \<Rightarrow> (ctx \<Rightarrow> ('w, checkResult) action) \<Rightarrow> 'w check" where
  "NamedCheck name fn = \<lparr>ck_Name = name, ck_Check = fn\<rparr>"

record healthResponse =
  hp_IsHealthy :: bool
  hp_HealthChecks :: "(string \<times> checkResult) list"

definition suffixed :: "string \<Rightarrow> nat \<Rightarrow> string" where
  "suffixed name n = name @ ''-'' @ natText n"

lemma suffixed_inj: "suffixed name m = suffixed name n \<longleftrightarrow> m = n"
proof
  assume "suffixed name m = suffixed name n"
  then have "natText m = natText n" by (simp add: suffixed_def)
  then show "m = n" by (metis natOf_natText)
qed simp

text \<open>The loop over suffixes ends: the candidates are distinct and the map has finitely many keys.\<close>

function dedupeFrom :: "(string \<times> checkResult) list \<Rightarrow> string \<Rightarrow> nat \<Rightarrow> string" where
  "dedupeFrom existing name n =
    (if hasKey existing (suffixed name n) then dedupeFrom existing name (n + 1) else suffixed name n)"
  by pat_completeness auto
termination
proof (relation "measure (\<lambda>(existing, name, n). card (fst ` set existing \<inter> {suffixed name m | m. n \<le> m}))")
  fix existing :: "(string \<times> checkResult) list" and name n
  assume taken: "hasKey existing (suffixed name n)"
  have "fst ` set existing \<inter> {suffixed name m | m. n + 1 \<le> m} \<subset> fst ` set existing \<inter> {suffixed name m | m. n \<le> m}"
  proof
    show "fst ` set existing \<inter> {suffixed name m | m. n + 1 \<le> m} \<subseteq> fst ` set existing \<inter> {suffixed name m | m. n \<le> m}"
      by force
    have "suffixed name n \<in> fst ` set existing \<inter> {suffixed name m | m. n \<le> m}"
      using taken by (auto simp: hasKey_iff)
    moreover have "suffixed name n \<notin> {suffixed name m | m. n + 1 \<le> m}" by (auto simp: suffixed_inj)
    ultimately show "fst ` set existing \<inter> {suffixed name m | m. n + 1 \<le> m} \<noteq>
        fst ` set existing \<inter> {suffixed name m | m. n \<le> m}" by blast
  qed
  then show "((existing, name, n + 1), existing, name, n) \<in>
      measure (\<lambda>(existing, name, n). card (fst ` set existing \<inter> {suffixed name m | m. n \<le> m}))"
    by (simp add: psubset_card_mono)
qed simp

declare dedupeFrom.simps [simp del]

definition dedupeKey :: "(string \<times> checkResult) list \<Rightarrow> string \<Rightarrow> string" where
  "dedupeKey existing name = (if \<not> hasKey existing name then name else dedupeFrom existing name 2)"

text \<open>The recovered outcome of a check.\<close>

fun runCheck :: "'w check \<Rightarrow> checkResult outcome \<Rightarrow> checkResult" where
  "runCheck ck (Return result) = result"
| "runCheck ck (Panic p) = \<lparr>cr_Status = checkFailed, cr_Type = ck_Name ck, cr_Data = [(''panic'', JStr p)]\<rparr>"

definition aggregate :: "'w check \<times> checkResult \<Rightarrow> healthResponse \<Rightarrow> healthResponse" where
  "aggregate p response =
    (let key = dedupeKey (hp_HealthChecks response) (ck_Name (fst p)); result = snd p;
         response1 = response\<lparr>hp_HealthChecks := AList.update key result (hp_HealthChecks response)\<rparr> in
     if cr_Status result = checkFailed then response1\<lparr>hp_IsHealthy := False\<rparr> else response1)"

definition Health_Run :: "nat list \<Rightarrow> ctx \<Rightarrow> 'w check list \<Rightarrow> 'w \<Rightarrow> healthResponse \<times> 'w" where
  "Health_Run sched c checks w =
    (case interleave sched (map (\<lambda>ck. ck_Check ck c) checks) w of (outcomes, w1) \<Rightarrow>
      (fold aggregate (zip checks (map2 runCheck checks outcomes))
         \<lparr>hp_IsHealthy = True, hp_HealthChecks = []\<rparr>, w1))"

text \<open>The value of a response as a payload is \<open>wrap\<close>. The checks run on the world of the pipeline.\<close>

definition HealthMiddleware ::
  "nat list \<Rightarrow> (healthResponse \<Rightarrow> 'v) \<Rightarrow> 'w check list \<Rightarrow> string list \<Rightarrow> ('v, 'w) middleware" where
  "HealthMiddleware sched wrap checks aliases c nx s =
    (let topics = fold (\<lambda>alias m. AList.update alias True m) aliases [(HealthTopic, True)] in
     if \<not> goIndex topics (ID (ic_Topic (ic s))) False then nx c s
     else (case Health_Run sched c checks (env s) of
       (response, w) \<Rightarrow> (Return None,
         setResult (ResultT ''Response'' (Ok (Val ''Response'' (wrap response)))) (s\<lparr>env := w\<rparr>))))"

section \<open>Ready-made checks (checks.go)\<close>

definition errorCategory :: "(goerr \<Rightarrow> bool option) \<Rightarrow> goerr \<Rightarrow> string" where
  "errorCategory timeoutMethod err =
    (if asTimeout timeoutMethod err = Some True then ''timeout'' else ''connection-error'')"

record 'w tcpConfig =
  tc_dial :: "ctx \<Rightarrow> string \<Rightarrow> 'w \<Rightarrow> goerr option outcome \<times> 'w"
  tc_timeout :: int

definition WithTCPTimeout :: "int \<Rightarrow> 'w tcpConfig \<Rightarrow> 'w tcpConfig" where
  "WithTCPTimeout d cfg = cfg\<lparr>tc_timeout := d\<rparr>"

definition WithTCPDialer ::
  "(ctx \<Rightarrow> string \<Rightarrow> 'w \<Rightarrow> goerr option outcome \<times> 'w) \<Rightarrow> 'w tcpConfig \<Rightarrow> 'w tcpConfig" where
  "WithTCPDialer dial cfg = cfg\<lparr>tc_dial := dial\<rparr>"

text \<open>\<^verbatim>\<open>net.JoinHostPort\<close>\<close>

definition joinHostPort :: "string \<Rightarrow> int \<Rightarrow> string" where
  "joinHostPort host port =
    (if CHR '':'' \<in> set host then ''['' @ host @ '']:'' @ intText port else host @ '':'' @ intText port)"

text \<open>\<open>now\<close> is the instant at which the check starts.\<close>

definition tcpCheck_Check ::
  "(goerr \<Rightarrow> bool option) \<Rightarrow> 'w tcpConfig \<Rightarrow> string \<Rightarrow> int \<Rightarrow> int \<Rightarrow> ctx \<Rightarrow> 'w \<Rightarrow> checkResult outcome \<times> 'w" where
  "tcpCheck_Check timeoutMethod cfg host port now c w =
    (let c1 = (if tc_timeout cfg > 0 then withTimeout c now (tc_timeout cfg) else c);
         data = [(''host'', JStr host), (''port'', JNum (intText port))] in
     andThen (tc_dial cfg c1 (joinHostPort host port) w) (\<lambda>err w1. case err of
         Some e \<Rightarrow> (Return \<lparr>cr_Status = checkFailed, cr_Type = ''Tcp'',
           cr_Data = AList.update ''error'' (JStr (errorCategory timeoutMethod e)) data\<rparr>, w1)
       | None \<Rightarrow> (Return \<lparr>cr_Status = checkOk, cr_Type = ''Tcp'', cr_Data = data\<rparr>, w1)))"

text \<open>The part of an authority after its last at sign.\<close>

definition afterLast :: "char \<Rightarrow> string \<Rightarrow> string option" where
  "afterLast b s = (if b \<in> set s then Some (rev (takeWhile (\<lambda>c. c \<noteq> b) (rev s))) else None)"

fun indexOf :: "string \<Rightarrow> string \<Rightarrow> nat option" where
  "indexOf s sub = (if hasPrefix s sub then Some 0
     else (case s of [] \<Rightarrow> None | c # cs \<Rightarrow> map_option Suc (indexOf cs sub)))"

definition stripUserInfoFallback :: "string \<Rightarrow> string" where
  "stripUserInfoFallback rawURL = (case indexOf rawURL ''://'' of
      None \<Rightarrow> rawURL
    | Some scheme \<Rightarrow>
        (let start = scheme + 3;
             authority = takeWhile (\<lambda>c. c \<notin> set ''/?#'') (drop start rawURL);
             ending = start + length authority in
         case afterLast (CHR ''@'') authority of
           None \<Rightarrow> rawURL
         | Some host \<Rightarrow> take start rawURL @ host @ drop ending rawURL))"

text \<open>
  \<open>parseURL\<close> is \<^verbatim>\<open>url.Parse\<close>: \<open>None\<close> for an error, else whether the URL has user information and the
  text of the URL without it.
\<close>

definition stripUserInfo :: "(string \<Rightarrow> (bool \<times> string) option) \<Rightarrow> string \<Rightarrow> string" where
  "stripUserInfo parseURL rawURL = (case parseURL rawURL of
      Some (hasUser, stripped) \<Rightarrow> if \<not> hasUser then rawURL else stripped
    | None \<Rightarrow> stripUserInfoFallback rawURL)"

text \<open>A request: \<open>None\<close> when it cannot be built, else an error or the status code of the response.\<close>

type_synonym 'w httpDo = "ctx \<Rightarrow> string \<Rightarrow> 'w \<Rightarrow> (goerr + int) option outcome \<times> 'w"

definition httpPingCheck_Check ::
  "(goerr \<Rightarrow> bool option) \<Rightarrow> (string \<Rightarrow> (bool \<times> string) option) \<Rightarrow> 'w httpDo \<Rightarrow> string \<Rightarrow> ctx \<Rightarrow> 'w \<Rightarrow>
   checkResult outcome \<times> 'w" where
  "httpPingCheck_Check timeoutMethod parseURL get url c w =
    (let data = [(''url'', JStr (stripUserInfo parseURL url))] in
     andThen (get c url w) (\<lambda>answer w1. case answer of
         None \<Rightarrow> (Return \<lparr>cr_Status = checkFailed, cr_Type = ''HttpPing'',
           cr_Data = AList.update ''error'' (JStr ''invalid-request'') data\<rparr>, w1)
       | Some (Inl err) \<Rightarrow> (Return \<lparr>cr_Status = checkFailed, cr_Type = ''HttpPing'',
           cr_Data = AList.update ''error'' (JStr (errorCategory timeoutMethod err)) data\<rparr>, w1)
       | Some (Inr code) \<Rightarrow> (Return \<lparr>cr_Status = (if code = 200 then checkOk else checkFailed),
           cr_Type = ''HttpPing'', cr_Data = AList.update ''statusCode'' (JNum (intText code)) data\<rparr>, w1)))"

section \<open>Free disk space (disk.go)\<close>

record 'w diskCheck =
  dc_minFreeBytes :: "64 word"
  dc_warnFreeBytes :: "64 word"
  dc_usage :: "string \<Rightarrow> 'w \<Rightarrow> (goerr + 64 word \<times> 64 word) outcome \<times> 'w"

definition WithMinimumFreeBytes :: "64 word \<Rightarrow> 'w diskCheck \<Rightarrow> 'w diskCheck" where
  "WithMinimumFreeBytes n dc = dc\<lparr>dc_minFreeBytes := n\<rparr>"

definition WithWarningFreeBytes :: "64 word \<Rightarrow> 'w diskCheck \<Rightarrow> 'w diskCheck" where
  "WithWarningFreeBytes n dc = dc\<lparr>dc_warnFreeBytes := n\<rparr>"

definition errUnsupportedPlatform :: goerr where
  "errUnsupportedPlatform = ErrSentinel ''errUnsupportedPlatform'' ''disk usage not supported on this platform''"

definition diskErrorCategory :: "goerr \<Rightarrow> string" where
  "diskErrorCategory err = (if errorsIs err errUnsupportedPlatform then ''unsupported-platform'' else ''stat-error'')"

text \<open>\<open>percent\<close> is the text of the rounded float.\<close>

definition diskCheck_Check ::
  "(64 word \<Rightarrow> 64 word \<Rightarrow> string) \<Rightarrow> 'w diskCheck \<Rightarrow> string \<Rightarrow> 'w \<Rightarrow> checkResult outcome \<times> 'w" where
  "diskCheck_Check percent dc path w =
    andThen (dc_usage dc path w) (\<lambda>usage w1. case usage of
        Inl err \<Rightarrow> (Return \<lparr>cr_Status = checkFailed, cr_Type = ''Disk'',
          cr_Data = [(''path'', JStr path), (''error'', JStr (diskErrorCategory err))]\<rparr>, w1)
      | Inr (free, capacity) \<Rightarrow>
          (let data0 = [(''path'', JStr path), (''freeBytes'', JNum (natText (unat free))),
                 (''totalBytes'', JNum (natText (unat capacity)))];
               data = (if capacity > 0 then AList.update ''usedPercent'' (JNum (percent free capacity)) data0 else data0);
               status = (if dc_minFreeBytes dc > 0 \<and> free < dc_minFreeBytes dc then checkFailed
                 else if dc_warnFreeBytes dc > 0 \<and> free < dc_warnFreeBytes dc then checkWarning
                 else checkOk) in
           (Return \<lparr>cr_Status = status, cr_Type = ''Disk'', cr_Data = data\<rparr>, w1)))"

section \<open>Lemmas\<close>

lemma dedupeFrom_fresh: "\<not> hasKey existing (dedupeFrom existing name n) \<and> (\<exists>m \<ge> n. dedupeFrom existing name n = suffixed name m)"
proof (induction existing name n rule: dedupeFrom.induct)
  case (1 existing name n)
  show ?case
  proof (cases "hasKey existing (suffixed name n)")
    case True
    with 1 obtain m where "m \<ge> n + 1" "dedupeFrom existing name (n + 1) = suffixed name m" by blast
    then show ?thesis using 1 True by (auto simp: dedupeFrom.simps [of existing name n] intro: exI [of _ m])
  qed (auto simp: dedupeFrom.simps [of existing name n])
qed

lemma dedupeKey_fresh:
  "\<not> hasKey existing (dedupeKey existing name) \<and>
   (dedupeKey existing name = name \<or> (\<exists>n \<ge> 2. dedupeKey existing name = suffixed name n))"
  using dedupeFrom_fresh [of existing name 2] by (auto simp: dedupeKey_def)

definition keyOf :: "string \<Rightarrow> string \<Rightarrow> bool" where
  "keyOf name key \<longleftrightarrow> key = name \<or> (\<exists>n \<ge> 2. key = suffixed name n)"

lemma fold_aggregate:
  assumes "goMap (hp_HealthChecks r)"
  shows "\<exists>keys. length keys = length ps \<and>
    hp_HealthChecks (fold aggregate ps r) = hp_HealthChecks r @ zip keys (map snd ps) \<and>
    goMap (hp_HealthChecks (fold aggregate ps r)) \<and> list_all2 keyOf (map (ck_Name \<circ> fst) ps) keys \<and>
    (hp_IsHealthy (fold aggregate ps r) \<longleftrightarrow> hp_IsHealthy r \<and> (\<forall>p \<in> set ps. cr_Status (snd p) \<noteq> checkFailed)) \<and>
    (distinct (map fst (hp_HealthChecks r) @ map (ck_Name \<circ> fst) ps) \<longrightarrow> keys = map (ck_Name \<circ> fst) ps)"
  using assms
proof (induction ps arbitrary: r)
  case (Cons p ps)
  let ?key = "dedupeKey (hp_HealthChecks r) (ck_Name (fst p))"
  have fresh: "?key \<notin> fst ` set (hp_HealthChecks r)" "keyOf (ck_Name (fst p)) ?key"
    using dedupeKey_fresh by (auto simp: hasKey_iff keyOf_def)
  have upd: "AList.update ?key (snd p) (hp_HealthChecks r) = hp_HealthChecks r @ [(?key, snd p)]"
    using fresh(1) by (simp add: AList_update_fresh)
  have a: "hp_HealthChecks (aggregate p r) = hp_HealthChecks r @ [(?key, snd p)]"
    "hp_IsHealthy (aggregate p r) \<longleftrightarrow> hp_IsHealthy r \<and> cr_Status (snd p) \<noteq> checkFailed"
    by (simp_all add: aggregate_def Let_def upd)
  have "goMap (hp_HealthChecks (aggregate p r))"
    using Cons.prems goMap_update [of "hp_HealthChecks r" ?key "snd p"] by (simp add: a(1) upd)
  from Cons.IH [OF this] obtain keys where keys: "length keys = length ps"
    "hp_HealthChecks (fold aggregate ps (aggregate p r)) = hp_HealthChecks (aggregate p r) @ zip keys (map snd ps)"
    "goMap (hp_HealthChecks (fold aggregate ps (aggregate p r)))" "list_all2 keyOf (map (ck_Name \<circ> fst) ps) keys"
    "hp_IsHealthy (fold aggregate ps (aggregate p r)) \<longleftrightarrow>
      hp_IsHealthy (aggregate p r) \<and> (\<forall>p \<in> set ps. cr_Status (snd p) \<noteq> checkFailed)"
    "distinct (map fst (hp_HealthChecks (aggregate p r)) @ map (ck_Name \<circ> fst) ps) \<longrightarrow>
      keys = map (ck_Name \<circ> fst) ps" by blast
  have own: "?key = ck_Name (fst p)" if "ck_Name (fst p) \<notin> fst ` set (hp_HealthChecks r)"
    using that by (simp add: dedupeKey_def hasKey_iff)
  show ?case
    by (rule exI [of _ "?key # keys"]) (use keys a fresh own in \<open>auto simp: comp_def\<close>)
qed simp

section \<open>Properties\<close>

text \<open>C23 (functional). A health run reports every check: under every interleaving of the checks, the
  response has one entry per check, in their order, under distinct keys that are the check's name or
  the name with a suffix (the names themselves when they are distinct), holding the check's
  result, or a failed one that names its panic; the service is healthy exactly when no entry is
  failed.\<close>

theorem health_run_reports_every_check:
  assumes "Health_Run sched c checks w = (response, w1)"
  shows "\<exists>outcomes keys. interleave sched (map (\<lambda>ck. ck_Check ck c) checks) w = (outcomes, w1) \<and>
    length outcomes = length checks \<and> length keys = length checks \<and>
    hp_HealthChecks response = zip keys (map2 runCheck checks outcomes) \<and> distinct keys \<and>
    list_all2 keyOf (map ck_Name checks) keys \<and> (distinct (map ck_Name checks) \<longrightarrow> keys = map ck_Name checks) \<and>
    (hp_IsHealthy response \<longleftrightarrow> (\<forall>r \<in> set (map2 runCheck checks outcomes). cr_Status r \<noteq> checkFailed))"
proof -
  obtain outcomes where o: "interleave sched (map (\<lambda>ck. ck_Check ck c) checks) w = (outcomes, w1)"
    and r: "response = fold aggregate (zip checks (map2 runCheck checks outcomes)) \<lparr>hp_IsHealthy = True, hp_HealthChecks = []\<rparr>"
    using assms by (auto simp: Health_Run_def split: prod.splits)
  have len: "length outcomes = length checks"
    using interleave_keeps [of "\<lambda>gs s. True" _ w sched outcomes w1] o by (simp add: stepwise_def)
  let ?ps = "zip checks (map2 runCheck checks outcomes)"
  have ps: "map snd ?ps = map2 runCheck checks outcomes" "map (ck_Name \<circ> fst) ?ps = map ck_Name checks"
    "length ?ps = length checks"
    using len by (simp_all flip: map_map)
  have "goMap (hp_HealthChecks \<lparr>hp_IsHealthy = True, hp_HealthChecks = []\<rparr>)" by simp
  from fold_aggregate [OF this, of ?ps, folded r]
  have "\<exists>keys. length keys = length checks \<and> hp_HealthChecks response = zip keys (map2 runCheck checks outcomes) \<and>
    goMap (hp_HealthChecks response) \<and> list_all2 keyOf (map ck_Name checks) keys \<and>
    (hp_IsHealthy response \<longleftrightarrow> (\<forall>p \<in> set ?ps. cr_Status (snd p) \<noteq> checkFailed)) \<and>
    (distinct (map ck_Name checks) \<longrightarrow> keys = map ck_Name checks)"
    by (simp only: ps healthResponse.simps append_Nil list.map simp_thms)
  then obtain keys where keys: "length keys = length checks"
    "hp_HealthChecks response = zip keys (map2 runCheck checks outcomes)"
    "goMap (hp_HealthChecks response)" "list_all2 keyOf (map ck_Name checks) keys"
    "hp_IsHealthy response \<longleftrightarrow> (\<forall>p \<in> set ?ps. cr_Status (snd p) \<noteq> checkFailed)"
    "distinct (map ck_Name checks) \<longrightarrow> keys = map ck_Name checks"
    by (elim exE conjE) (rule that)
  have "distinct keys"
    using keys(1,3) len by (simp add: keys(2) goMap_def)
  moreover have results: "set (map2 runCheck checks outcomes) = snd ` set ?ps" by (metis ps(1) set_map)
  have "(\<forall>p \<in> set ?ps. cr_Status (snd p) \<noteq> checkFailed) \<longleftrightarrow>
      (\<forall>r \<in> set (map2 runCheck checks outcomes). cr_Status r \<noteq> checkFailed)"
    unfolding results by blast
  ultimately show ?thesis using keys o len by (intro exI [of _ outcomes] exI [of _ keys] conjI) simp_all
qed

definition oneFailing :: "nat check list" where
  "oneFailing =
    [NamedCheck ''db'' (\<lambda>c. Acts Suc (\<lambda>w. Finishes (Return \<lparr>cr_Status = checkWarning, cr_Type = ''db'', cr_Data = []\<rparr>))),
     NamedCheck ''db'' (\<lambda>c. Acts Suc (\<lambda>w. Finishes (Panic ''down'')))]"

theorem health_run_reports_every_check_witness:
  "hp_IsHealthy (fst (Health_Run [1, 0] background oneFailing 5)) = False \<and>
   (\<exists>keys. map fst (hp_HealthChecks (fst (Health_Run [1, 0] background oneFailing 5))) = keys \<and> distinct keys \<and>
     length keys = 2)"
proof -
  obtain response w1 where run: "Health_Run [1, 0] background oneFailing 5 = (response, w1)" by fastforce
  obtain outcomes keys where o: "interleave [1, 0] (map (\<lambda>ck. ck_Check ck background) oneFailing) (5 :: nat) = (outcomes, w1)"
    and keys: "length keys = length oneFailing" "distinct keys"
      "hp_HealthChecks response = zip keys (map2 runCheck oneFailing outcomes)" "length outcomes = length oneFailing"
    and healthy: "hp_IsHealthy response \<longleftrightarrow> (\<forall>r \<in> set (map2 runCheck oneFailing outcomes). cr_Status r \<noteq> checkFailed)"
    using health_run_reports_every_check [OF run] by blast
  have "outcomes = [Return \<lparr>cr_Status = checkWarning, cr_Type = ''db'', cr_Data = []\<rparr>, Panic ''down'']"
    using o by (simp add: oneFailing_def NamedCheck_def moveOne_def)
  then have "\<not> hp_IsHealthy response" unfolding healthy by (simp add: oneFailing_def)
  moreover have "map fst (hp_HealthChecks response) = keys" "length keys = 2"
    using keys by (simp_all add: oneFailing_def)
  ultimately show ?thesis using run keys(2) by auto
qed

section \<open>The health endpoint over HTTP\<close>

text \<open>The JSON of a response, its maps in key order.\<close>

definition checkJson :: "checkResult \<Rightarrow> json" where
  "checkJson r = WireJson.fields [(True, ''status'', JStr (cr_Status r)), (True, ''type'', JStr (cr_Type r)),
     (cr_Data r \<noteq> [], ''data'', JObj (sort_key fst (cr_Data r)))]"

definition healthJson :: "healthResponse \<Rightarrow> json" where
  "healthJson r = JObj [(''isHealthy'', JBool (hp_IsHealthy r)),
     (''healthChecks'', JObj (sort_key fst (map (\<lambda>(k, c). (k, checkJson c)) (hp_HealthChecks r))))]"

lemma reportsUnhealthy_healthJson:
  assumes "jvalid (healthJson r)"
  shows "reportsUnhealthy (jprint (healthJson r)) \<longleftrightarrow> \<not> hp_IsHealthy r"
proof -
  have own: "fieldFor [''isHealthy''] ''isHealthy'' = Some ''isHealthy''" "fieldFor [''isHealthy''] ''healthChecks'' = None"
    by code_simp+
  show ?thesis
    using jparse_jprint [OF assms]
    by (simp add: reportsUnhealthy_def unmarshal_def healthReport_def healthJson_def own del: jprint.simps)
qed

lemma topics_reserved:
  "map_of m HealthTopic = Some True \<Longrightarrow>
    map_of (fold (\<lambda>alias m. AList.update alias True m) aliases m) HealthTopic = Some True"
  by (induction aliases arbitrary: m) simp_all

text \<open>The health endpoint over HTTP: whatever follows the middleware, the aliases, the version of
  the topic and the headers, a message on the reserved topic is answered with the aggregate of the
  checks and no later middleware runs; an HTTP binding sends it with 200 when the service is
  healthy and with 503 when some check failed, so that a load balancer that reads the status line
  drains the instance.\<close>

theorem health_endpoint_status:
  fixes w :: 'w and marshal :: "'v marshaller" and version :: string
  assumes "Health_Run sched c checks w = (response, w1)" and "jvalid (healthJson response)"
    and "marshal (Val ''Response'' (wrap response)) = Inr (jprint (healthJson response))"
  defines "t \<equiv> Topic HealthTopic version"
  shows "\<exists>resp s. DispatchTopicResult marshal (Some (NewPipeline (HealthMiddleware sched wrap checks aliases # rest)))
      c t hs body now w = (Return (resp, True), s) \<and> env s = w1 \<and> rs_StatusCode resp = StatusOk \<and>
    rs_Body resp = jprint (healthJson response) \<and>
    fst (httpResponse renumber t resp) = (if hp_IsHealthy response then 200 else 503)"
proof -
  let ?s = "\<lparr>ic = invocationOf t hs body, clock = now, env = w\<rparr> :: ('v, 'w) st"
  let ?result = "ResultT ''Response'' (Ok (Val ''Response'' (wrap response))) :: 'v resultInfo"
  have topic: "ic_Topic (invocationOf u hs body :: 'v invocation) = u"
    and bare: "withResponseHeaders r (invocationOf u hs body :: 'v invocation) = r" for r u
    by (simp_all add: invocationOf_def NewInvocationContext_def withResponseHeaders_def)
  have "goIndex (fold (\<lambda>alias m. AList.update alias True m) aliases [(HealthTopic, True)]) HealthTopic False"
    using topics_reserved [of "[(HealthTopic, True)]" aliases] by (simp add: goIndex_def)
  then have "Run (Some (NewPipeline (HealthMiddleware sched wrap checks aliases # rest))) c ?s =
      (Return None, setResult ?result (?s\<lparr>env := w1\<rparr>))"
    using assms(1) by (simp add: NewPipeline_def Run_onion HealthMiddleware_def Let_def topic t_def)
  moreover have ok: "\<not> IsFailure StatusOk" by code_simp
  ultimately have d: "DispatchTopicResult marshal (Some (NewPipeline (HealthMiddleware sched wrap checks aliases # rest)))
      c t hs body now w = (Return (responseOf marshal ?result, True), setResult ?result (?s\<lparr>env := w1\<rparr>))"
    by (simp add: DispatchTopicResult_def envelopeDispatch_run settledResponse_def bare Ok_def setResult_def)
      (simp add: withResponseHeaders_def invocationOf_def NewInvocationContext_def)
  have resp: "responseOf marshal ?result = \<lparr>rs_StatusCode = StatusOk, rs_Headers = [(''content-type'', ''application/json'')],
      rs_Body = jprint (healthJson response), rs_IsSuccessful = Some True\<rparr>"
    using assms(3) ok by (simp add: responseOf_def Ok_def)
  have "goIndex healthTopics (ID t) False" "ToHTTP StatusOk [True] = 200" unfolding t_def by code_simp+
  then have "fst (httpResponse renumber t (responseOf marshal ?result)) = (if hp_IsHealthy response then 200 else 503)"
    using reportsUnhealthy_healthJson [OF assms(2)] by (simp add: resp httpResponse_def Let_def)
  with d resp show ?thesis by (simp del: jprint.simps)
qed

definition tagHealth :: "healthResponse \<Rightarrow> healthResponse" where "tagHealth r = r"

definition marshalHealth :: "healthResponse any \<Rightarrow> goerr + string" where
  "marshalHealth p = (case p of Val t r \<Rightarrow> Inr (jprint (healthJson r)) | _ \<Rightarrow> Inr '''')"

theorem health_endpoint_status_witness:
  "\<exists>resp s. DispatchTopicResult marshalHealth (Some (NewPipeline (HealthMiddleware [] tagHealth
      [NamedCheck ''db'' (\<lambda>c. Finishes (Panic ''down''))] [] # [\<lambda>c nx s. (Panic ''reached'', s)])))
      background (Topic HealthTopic ''2'') [] '''' 0 () = (Return (resp, True), s) \<and>
    fst (httpResponse Some (Topic HealthTopic ''2'') resp) = 503"
proof -
  let ?r = "\<lparr>hp_IsHealthy = False, hp_HealthChecks =
    [(''db'', \<lparr>cr_Status = checkFailed, cr_Type = ''db'', cr_Data = [(''panic'', JStr ''down'')]\<rparr>)]\<rparr>"
  have run: "Health_Run [] background [NamedCheck ''db'' (\<lambda>c. Finishes (Panic ''down''))] () = (?r, ())"
    by (simp add: Health_Run_def NamedCheck_def aggregate_def dedupeKey_def hasKey_def Let_def)
  have valid: "jvalid (healthJson ?r)" by code_simp
  have m: "marshalHealth (Val ''Response'' (tagHealth ?r)) = Inr (jprint (healthJson ?r))"
    by (simp add: marshalHealth_def tagHealth_def)
  show ?thesis
    using health_endpoint_status [where wrap = tagHealth and marshal = marshalHealth and version = "''2''" and
        aliases = "[]" and rest = "[\<lambda>c nx s. (Panic ''reached'', s)]" and hs = "[]" and body = "''''" and now = 0
        and renumber = Some, OF run valid m] by (elim exE conjE) (intro exI conjI, assumption, simp)
qed

text \<open>A warning threshold at or below the failure threshold never warns.\<close>

lemma low_warning_never_warns:
  assumes "dc_minFreeBytes dc > 0" and "dc_warnFreeBytes dc \<le> dc_minFreeBytes dc"
    and "diskCheck_Check percent dc path w = (Return r, w1)"
  shows "cr_Status r \<noteq> checkWarning"
proof -
  have "checkWarning \<noteq> checkFailed" "checkWarning \<noteq> checkOk" by code_simp+
  then show ?thesis
    using assms by (auto simp: diskCheck_Check_def andThen_def Let_def split: prod.splits outcome.splits sum.splits if_splits)
qed

section \<open>Credentials\<close>

lemma indexOf_Some: "indexOf s sub = Some i \<Longrightarrow> hasPrefix (drop i s) sub \<and> i + length sub \<le> length s"
proof (induction s sub arbitrary: i rule: indexOf.induct)
  case (1 s sub)
  show ?case
  proof (cases "hasPrefix s sub")
    case True
    then show ?thesis using "1.prems" by (auto simp: hasPrefix_def)
      (metis length_take min.cobounded1)
  next
    case False
    with "1.prems" obtain c cs j where "s = c # cs" "indexOf cs sub = Some j" "i = Suc j"
      by (auto simp: indexOf.simps [of s sub] simp del: indexOf.simps split: list.splits)
    then show ?thesis using "1.IH" [OF False] by auto
  qed
qed

text \<open>
  When a URL cannot be parsed, what is reported of it has no user information as long as it has an
  authority: the text between the first colon and two slashes and the next slash, question mark or hash
  loses everything up to its last at sign.
\<close>

lemma fallback_strips:
  assumes "indexOf url ''://'' = Some i"
  shows "\<exists>host. stripUserInfoFallback url =
      take (i + 3) url @ host @ dropWhile (\<lambda>c. c \<notin> set ''/?#'') (drop (i + 3) url) \<and> CHR ''@'' \<notin> set host"
proof -
  let ?tail = "drop (i + 3) url"
  let ?auth = "takeWhile (\<lambda>c. c \<notin> set ''/?#'') ?tail"
  have rest: "drop (i + 3 + length ?auth) url = dropWhile (\<lambda>c. c \<notin> set ''/?#'') ?tail"
    by (simp add: dropWhile_eq_drop add.commute)
  show ?thesis
  proof (cases "CHR ''@'' \<in> set ?auth")
    case True
    have no: "CHR ''@'' \<notin> set (rev (takeWhile (\<lambda>c. c \<noteq> CHR ''@'') (rev ?auth)))"
      by (auto dest: set_takeWhileD)
    show ?thesis
      by (rule exI [of _ "rev (takeWhile (\<lambda>c. c \<noteq> CHR ''@'') (rev ?auth))"], intro conjI no)
        (use True assms rest in \<open>simp add: stripUserInfoFallback_def Let_def afterLast_def del: indexOf.simps\<close>)
  next
    case False
    then show ?thesis
      using assms by (intro exI [of _ ?auth]) (simp add: stripUserInfoFallback_def Let_def afterLast_def del: indexOf.simps)
  qed
qed

text \<open>Without a scheme the credentials of a URL that cannot be parsed are reported as they are.\<close>

lemma fallback_leaks_without_scheme: "stripUserInfoFallback ''//user:secret@host:port/health'' = ''//user:secret@host:port/health''"
  by code_simp

end
