(* ===== verification/MeshStore.thy ===== *)
theory MeshStore
  imports MeshIssues Health Contract
begin

text \<open>
  The in-memory state of the mesh collector (\<^verbatim>\<open>meshd/store.go\<close>): what each service registered, its
  heartbeats, the catalog of topics with its declared graph and its statistics, the bounded ring of
  trace events and the merged issues, with every query. A set of keys is the list of its members, a map
  the list of its entries; the zero \<^verbatim>\<open>time.Time\<close> is 0, counts are 64-bit words, and the mutex makes every
  operation one step. The clock is read with \<^verbatim>\<open>now\<close>: \<open>st_now n\<close> is what its \<open>n\<close>-th reading returns.
  Arguments: \<open>rnd\<close> rounds to a float, \<open>sum256\<close> is SHA-256, \<open>order\<close> the order a map is ranged over.
\<close>

section \<open>State\<close>

record heartbeat =
  hb_Service :: string
  hb_ServiceVersion :: string
  hb_InstanceID :: string
  hb_RegistrationHash :: string
  hb_SentAt :: int
  hb_Health :: healthResponse

record registration =
  rg_raw :: string
  rg_serviceVersion :: string
  rg_runtime :: string
  rg_placement :: "placement option"
  rg_transports :: "string list"
  rg_registrationHash :: string
  rg_requests :: "topic list"
  rg_produces :: "topic list"
  rg_requestsKnown :: bool
  rg_producesKnown :: bool

record issueState =
  iss_classification :: string
  iss_topic :: string
  iss_version :: string
  iss_transport :: string
  iss_status :: string
  iss_exceptionType :: string
  iss_count :: "64 word"
  iss_firstSeen :: int
  iss_lastSeen :: int
  iss_exemplarTraceIds :: "string list"
  iss_resolutionHint :: string
  iss_errors :: "issueError list"

definition zeroIssueState :: issueState where
  "zeroIssueState = \<lparr>iss_classification = '''', iss_topic = '''', iss_version = '''', iss_transport = '''',
     iss_status = '''', iss_exceptionType = '''', iss_count = 0, iss_firstSeen = 0, iss_lastSeen = 0,
     iss_exemplarTraceIds = [], iss_resolutionHint = '''', iss_errors = []\<rparr>"

record instanceState =
  in_healthy :: bool
  in_lastHeartbeat :: int
  in_serviceVersion :: string
  in_registrationHash :: string

record serviceState =
  sv_registration :: "registration option"
  sv_instances :: "(string \<times> instanceState) list"
  sv_lastSeen :: int
  sv_invocations :: "64 word"
  sv_errors :: "64 word"
  sv_issues :: "(string \<times> issueState) list"
  sv_issuesFeedSeen :: bool

record topicState =
  tp_providers :: "string list"
  tp_consumers :: "string list"
  tp_providerLastSeen :: "(string \<times> int) list"
  tp_consumerLastSeen :: "(string \<times> int) list"
  tp_statusCounts :: "(string \<times> 64 word) list"
  tp_invocations :: "64 word"
  tp_errors :: "64 word"
  tp_totalDurationMs :: real
  tp_lastSeen :: int

record store =
  st_now :: "nat \<Rightarrow> int"
  st_reads :: nat
  st_capacity :: nat
  st_services :: "(string \<times> serviceState) list"
  st_topics :: "(topic \<times> topicState) list"
  st_ring :: "traceEvent list"
  st_next :: nat
  st_spanService :: "(string \<times> string) list"

definition newStore :: "nat \<Rightarrow> (nat \<Rightarrow> int) \<Rightarrow> store" where
  "newStore capacity now = \<lparr>st_now = now, st_reads = 0, st_capacity = capacity, st_services = [],
     st_topics = [], st_ring = [], st_next = 0, st_spanService = []\<rparr>"

definition readNow :: "store \<Rightarrow> int \<times> store" where
  "readNow s = (st_now s (st_reads s), s\<lparr>st_reads := Suc (st_reads s)\<rparr>)"

text \<open>\<^verbatim>\<open>ensureService\<close> and \<^verbatim>\<open>ensureTopic\<close> return a pointer; \<open>onService\<close> and \<open>onTopic\<close> write through it.\<close>

definition emptyService :: serviceState where
  "emptyService = \<lparr>sv_registration = None, sv_instances = [], sv_lastSeen = 0, sv_invocations = 0,
     sv_errors = 0, sv_issues = [], sv_issuesFeedSeen = False\<rparr>"

definition emptyTopic :: topicState where
  "emptyTopic = \<lparr>tp_providers = [], tp_consumers = [], tp_providerLastSeen = [], tp_consumerLastSeen = [],
     tp_statusCounts = [], tp_invocations = 0, tp_errors = 0, tp_totalDurationMs = 0, tp_lastSeen = 0\<rparr>"

definition ensureService :: "string \<Rightarrow> store \<Rightarrow> store" where
  "ensureService name s = (if hasKey (st_services s) name then s
     else s\<lparr>st_services := AList.update name emptyService (st_services s)\<rparr>)"

definition ensureTopic :: "topic \<Rightarrow> store \<Rightarrow> store" where
  "ensureTopic key s = (if hasKey (st_topics s) key then s
     else s\<lparr>st_topics := AList.update key emptyTopic (st_topics s)\<rparr>)"

definition onService :: "string \<Rightarrow> (serviceState \<Rightarrow> serviceState) \<Rightarrow> store \<Rightarrow> store" where
  "onService name f s = s\<lparr>st_services := AList.map_entry name f (st_services s)\<rparr>"

definition onTopic :: "topic \<Rightarrow> (topicState \<Rightarrow> topicState) \<Rightarrow> store \<Rightarrow> store" where
  "onTopic key f s = s\<lparr>st_topics := AList.map_entry key f (st_topics s)\<rparr>"

section \<open>Registration and heartbeats\<close>

definition claim :: "string \<Rightarrow> string \<Rightarrow> topic list \<Rightarrow> topic list" where
  "claim t version claimed =
    (if t \<noteq> '''' \<and> \<not> IsReserved t then List.insert (Topic t version) claimed else claimed)"

definition listed :: "'a list option \<Rightarrow> 'a list" where
  "listed xs = (case xs of None \<Rightarrow> [] | Some ys \<Rightarrow> ys)"

definition newRegistration :: "document \<Rightarrow> string \<Rightarrow> registration" where
  "newRegistration doc raw =
    (let known = (\<lambda>member present. present \<and> member \<notin> set (doc_Degraded doc)) in
     \<lparr>rg_raw = raw, rg_serviceVersion = doc_ServiceVersion doc, rg_runtime = doc_Runtime doc,
      rg_placement = doc_Placement doc, rg_transports = doc_Transports doc,
      rg_registrationHash = doc_RegistrationHash doc,
      rg_requests = fold (\<lambda>entry. claim (dq_Topic entry) (dq_Version entry)) (listed (doc_Requests doc)) [],
      rg_produces = fold (\<lambda>entry. claim (ds_Topic entry) (ds_Version entry)) (listed (doc_Sends doc))
        (fold (\<lambda>entry. claim (de_Topic entry) (de_Version entry)) (listed (doc_Events doc)) []),
      rg_requestsKnown = known MemberRequests (doc_Requests doc \<noteq> None),
      rg_producesKnown = (known MemberEvents (doc_Events doc \<noteq> None) \<and> known MemberSends (doc_Sends doc \<noteq> None))\<rparr>)"

definition dropClaims :: "string \<Rightarrow> topicState \<Rightarrow> topicState" where
  "dropClaims service t = t\<lparr>tp_providers := removeAll service (tp_providers t),
     tp_consumers := removeAll service (tp_consumers t)\<rparr>"

definition addConsumer :: "string \<Rightarrow> topic \<Rightarrow> store \<Rightarrow> store" where
  "addConsumer service key s = onTopic key (tp_consumers_update (List.insert service)) (ensureTopic key s)"

definition addProvider :: "string \<Rightarrow> topic \<Rightarrow> store \<Rightarrow> store" where
  "addProvider service key s = onTopic key (tp_providers_update (List.insert service)) (ensureTopic key s)"

definition registerService :: "string \<Rightarrow> registration \<Rightarrow> store \<Rightarrow> store" where
  "registerService service reg s =
    (let s1 = s\<lparr>st_topics := map (\<lambda>(key, t). (key, dropClaims service t)) (st_topics s)\<rparr>;
         s2 = onService service (sv_registration_update (\<lambda>_. Some reg)) (ensureService service s1) in
     case readNow s2 of (now, s3) \<Rightarrow>
       fold (addProvider service) (rg_produces reg)
         (fold (addConsumer service) (rg_requests reg)
           (onService service (sv_lastSeen_update (\<lambda>_. now)) s3)))"

definition recordHeartbeat :: "heartbeat \<Rightarrow> store \<Rightarrow> store" where
  "recordHeartbeat hb s =
    (let s1 = ensureService (hb_Service hb) s in
     case readNow s1 of (seen, s2) \<Rightarrow>
     case readNow (onService (hb_Service hb) (sv_lastSeen_update (\<lambda>_. seen)) s2) of (beat, s3) \<Rightarrow>
       onService (hb_Service hb) (sv_instances_update (AList.update (hb_InstanceID hb)
         \<lparr>in_healthy = hp_IsHealthy (hb_Health hb), in_lastHeartbeat = beat,
          in_serviceVersion = hb_ServiceVersion hb, in_registrationHash = hb_RegistrationHash hb\<rparr>)) s3)"

section \<open>Trace events\<close>

definition recordSpan :: "traceEvent \<Rightarrow> store \<Rightarrow> store" where
  "recordSpan event s =
    (let s1 =
       (if length (st_ring s) < st_capacity s then s\<lparr>st_ring := st_ring s @ [event]\<rparr>
        else (let evicted = te_SpanID (st_ring s ! st_next s);
                  spans = (if evicted \<noteq> '''' then AList.delete evicted (st_spanService s) else st_spanService s) in
          s\<lparr>st_spanService := spans, st_ring := (st_ring s)[st_next s := event],
            st_next := (st_next s + 1) mod st_capacity s\<rparr>)) in
     if te_Service event \<noteq> '''' \<and> te_SpanID event \<noteq> ''''
     then s1\<lparr>st_spanService := AList.update (te_SpanID event) (te_Service event) (st_spanService s1)\<rparr>
     else s1)"

definition laterOf :: "int \<Rightarrow> int \<Rightarrow> int" where
  "laterOf current candidate = (if candidate > current then candidate else current)"

definition storeExemplars :: "string list \<Rightarrow> string list \<Rightarrow> string list" where
  "storeExemplars existing delta =
    (let combined = existing @ delta in
     if length combined > 3 then drop (length combined - 3) combined else combined)"

definition driftOccurrence :: "traceEvent \<Rightarrow> issueState \<Rightarrow> issueState" where
  "driftOccurrence event merged0 =
    (let merged = merged0\<lparr>iss_classification := ClassificationContractDrift, iss_topic := te_Topic event,
           iss_version := te_TopicVersion event, iss_status := te_Status event,
           iss_count := iss_count merged0 + 1\<rparr> in
     merged\<lparr>
       iss_firstSeen := (if iss_firstSeen merged = 0 \<or>
           (te_StartedAt event \<noteq> 0 \<and> te_StartedAt event < iss_firstSeen merged)
         then te_StartedAt event else iss_firstSeen merged),
       iss_lastSeen := (if te_StartedAt event > iss_lastSeen merged then te_StartedAt event else iss_lastSeen merged),
       iss_exemplarTraceIds := (if te_TraceID event \<noteq> ''''
         then storeExemplars (iss_exemplarTraceIds merged) [te_TraceID event] else iss_exemplarTraceIds merged)\<rparr>)"

definition driftFingerprint :: "(string \<Rightarrow> string) \<Rightarrow> string \<Rightarrow> traceEvent \<Rightarrow> string" where
  "driftFingerprint sum256 service event =
    IssueFingerprint sum256 service (te_Topic event) (te_TopicVersion event) ClassificationContractDrift
      (te_Status event)"

definition recordDriftIssue :: "(string \<Rightarrow> string) \<Rightarrow> string \<Rightarrow> traceEvent \<Rightarrow> store \<Rightarrow> store" where
  "recordDriftIssue sum256 service event s =
    (let fingerprint = driftFingerprint sum256 service event in
     onService service (\<lambda>state. state\<lparr>sv_issues := AList.update fingerprint
         (driftOccurrence event (goIndex (sv_issues state) fingerprint zeroIssueState)) (sv_issues state)\<rparr>)
       (ensureService service s))"

text \<open>Whether a service is registered with the claims known and without this one among them.\<close>

definition checkHandlerDrift :: "(string \<Rightarrow> string) \<Rightarrow> traceEvent \<Rightarrow> store \<Rightarrow> store" where
  "checkHandlerDrift sum256 event s =
    (if IsReserved (te_Topic event) then s
     else (case map_of (st_services s) (te_Service event) of
         None \<Rightarrow> s
       | Some service \<Rightarrow> (case sv_registration service of
           None \<Rightarrow> s
         | Some reg \<Rightarrow>
             if \<not> rg_requestsKnown reg then s
             else if Topic (te_Topic event) (te_TopicVersion event) \<notin> set (rg_requests reg)
             then recordDriftIssue sum256 (te_Service event) event s
             else s)))"

definition checkSenderDrift :: "(string \<Rightarrow> string) \<Rightarrow> string \<Rightarrow> traceEvent \<Rightarrow> store \<Rightarrow> store" where
  "checkSenderDrift sum256 caller event s =
    (if IsReserved (te_Topic event) then s
     else (case map_of (st_services s) caller of
         None \<Rightarrow> s
       | Some service \<Rightarrow> (case sv_registration service of
           None \<Rightarrow> s
         | Some reg \<Rightarrow>
             if \<not> rg_producesKnown reg then s
             else if Topic (te_Topic event) (te_TopicVersion event) \<notin> set (rg_produces reg)
             then recordDriftIssue sum256 caller event s
             else s)))"

definition bump :: "bool \<Rightarrow> 64 word \<Rightarrow> 64 word" where
  "bump b n = (if b then n + 1 else n)"

definition countEvent :: "(real \<Rightarrow> real) \<Rightarrow> traceEvent \<Rightarrow> int \<Rightarrow> bool \<Rightarrow> topicState \<Rightarrow> topicState" where
  "countEvent rnd event now failing t = t\<lparr>
     tp_invocations := tp_invocations t + 1,
     tp_statusCounts := AList.update (te_Status event) (goIndex (tp_statusCounts t) (te_Status event) 0 + 1)
       (tp_statusCounts t),
     tp_totalDurationMs := rnd (tp_totalDurationMs t + te_DurationMs event),
     tp_lastSeen := now,
     tp_errors := bump failing (tp_errors t)\<rparr>"

definition observeConsumer :: "string \<Rightarrow> int \<Rightarrow> topicState \<Rightarrow> topicState" where
  "observeConsumer service seenAt t = t\<lparr>tp_consumerLastSeen := AList.update service
     (laterOf (goIndex (tp_consumerLastSeen t) service 0) seenAt) (tp_consumerLastSeen t)\<rparr>"

definition observeProvider :: "string \<Rightarrow> int \<Rightarrow> topicState \<Rightarrow> topicState" where
  "observeProvider service seenAt t = t\<lparr>tp_providerLastSeen := AList.update service
     (laterOf (goIndex (tp_providerLastSeen t) service 0) seenAt) (tp_providerLastSeen t)\<rparr>"

text \<open>
  The three parts of the loop body: the topic's statistics, the service that handled the event, and the
  caller its parent span belongs to.
\<close>

definition eventKey :: "traceEvent \<Rightarrow> topic" where
  "eventKey event = Topic (te_Topic event) (te_TopicVersion event)"

definition countStage :: "(real \<Rightarrow> real) \<Rightarrow> traceEvent \<Rightarrow> store \<Rightarrow> store" where
  "countStage rnd event s =
    (case readNow (ensureTopic (eventKey event) s) of (now, s1) \<Rightarrow>
      onTopic (eventKey event) (countEvent rnd event now (IsFailure (te_Status event))) s1)"

definition handlerStage :: "(string \<Rightarrow> string) \<Rightarrow> traceEvent \<Rightarrow> store \<Rightarrow> store" where
  "handlerStage sum256 event s =
    (if te_Service event = '''' then s
     else (case readNow (onService (te_Service event) (sv_invocations_update (\<lambda>n. n + 1))
         (ensureService (te_Service event) s)) of (seen, s1) \<Rightarrow>
       checkHandlerDrift sum256 event
         (onTopic (eventKey event) (observeConsumer (te_Service event) (te_StartedAt event))
           (onService (te_Service event)
             (\<lambda>v. v\<lparr>sv_lastSeen := seen, sv_errors := bump (IsFailure (te_Status event)) (sv_errors v)\<rparr>) s1))))"

definition callerStage :: "(string \<Rightarrow> string) \<Rightarrow> traceEvent \<Rightarrow> store \<Rightarrow> store" where
  "callerStage sum256 event s =
    (if te_ParentSpanID event = '''' then s
     else (case map_of (st_spanService s) (te_ParentSpanID event) of
         None \<Rightarrow> s
       | Some caller \<Rightarrow>
           if caller \<noteq> '''' \<and> caller \<noteq> te_Service event
           then checkSenderDrift sum256 caller event
             (onTopic (eventKey event) (observeProvider caller (te_StartedAt event)) s)
           else s))"

definition addEvent :: "(real \<Rightarrow> real) \<Rightarrow> (string \<Rightarrow> string) \<Rightarrow> traceEvent \<Rightarrow> store \<Rightarrow> store" where
  "addEvent rnd sum256 event s =
    callerStage sum256 event (handlerStage sum256 event (countStage rnd event (recordSpan event s)))"

definition addEvents :: "(real \<Rightarrow> real) \<Rightarrow> (string \<Rightarrow> string) \<Rightarrow> traceEvent list \<Rightarrow> store \<Rightarrow> nat \<times> store" where
  "addEvents rnd sum256 events s = (length events, fold (addEvent rnd sum256) events s)"

section \<open>Issues\<close>

type_synonym errorOrder = "((string \<times> string) \<times> 64 word) list \<Rightarrow> ((string \<times> string) \<times> 64 word) list"

definition mergeIssue :: "errorOrder \<Rightarrow> issue \<Rightarrow> issueState \<Rightarrow> issueState" where
  "mergeIssue order issue merged = merged\<lparr>
     iss_count := iss_count merged + is_Count issue,
     iss_classification := is_Classification issue,
     iss_topic := is_Topic issue,
     iss_version := is_Version issue,
     iss_transport := is_Transport issue,
     iss_status := is_Status issue,
     iss_exceptionType := is_ExceptionType issue,
     iss_resolutionHint := is_ResolutionHint issue,
     iss_firstSeen := (if is_FirstSeen issue \<noteq> 0 \<and>
         (iss_firstSeen merged = 0 \<or> is_FirstSeen issue < iss_firstSeen merged)
       then is_FirstSeen issue else iss_firstSeen merged),
     iss_lastSeen := (if is_LastSeen issue > iss_lastSeen merged then is_LastSeen issue else iss_lastSeen merged),
     iss_exemplarTraceIds := storeExemplars (iss_exemplarTraceIds merged) (is_ExemplarTraceIds issue),
     iss_errors := MergeIssueErrors order (iss_errors merged) (is_Errors issue)\<rparr>"

definition addIssue :: "errorOrder \<Rightarrow> issue \<Rightarrow> serviceState \<Rightarrow> serviceState" where
  "addIssue order issue service =
    (if is_Fingerprint issue = '''' then service
     else service\<lparr>sv_issues := AList.update (is_Fingerprint issue)
       (mergeIssue order issue (goIndex (sv_issues service) (is_Fingerprint issue) zeroIssueState))
       (sv_issues service)\<rparr>)"

definition addIssues :: "errorOrder \<Rightarrow> issueBatch \<Rightarrow> store \<Rightarrow> nat \<times> store" where
  "addIssues order batch s =
    (case readNow (ensureService (ib_Service batch) s) of (now, s1) \<Rightarrow>
      (length (filter (\<lambda>issue. is_Fingerprint issue \<noteq> '''') (ib_Issues batch)),
       onService (ib_Service batch) (\<lambda>v. fold (addIssue order) (ib_Issues batch)
         (v\<lparr>sv_lastSeen := now, sv_issuesFeedSeen := True\<rparr>)) s1))"

section \<open>Queries\<close>

record issueView =
  iv_Fingerprint :: string
  iv_Classification :: string
  iv_Service :: string
  iv_Topic :: string
  iv_Version :: string
  iv_Transport :: string
  iv_Status :: string
  iv_ExceptionType :: string
  iv_Count :: "64 word"
  iv_FirstSeen :: int
  iv_LastSeen :: int
  iv_ExemplarTraceIds :: "string list"
  iv_ResolutionHint :: string
  iv_Errors :: "issueError list"

record serviceSummary =
  ss_Service :: string
  ss_ServiceVersion :: string
  ss_Runtime :: string
  ss_Transports :: "string list"
  ss_Placement :: "placement option"
  ss_Topics :: nat
  ss_Produces :: nat
  ss_Instances :: nat
  ss_Health :: string
  ss_LastSeen :: int
  ss_Invocations :: "64 word"
  ss_Errors :: "64 word"
  ss_MissingFeeds :: "string list"

record topicSummary =
  ts_Topic :: string
  ts_Version :: string
  ts_Providers :: "string list"
  ts_Consumers :: "string list"
  ts_ProviderActivity :: "(string \<times> int) list"
  ts_ConsumerActivity :: "(string \<times> int) list"
  ts_Invocations :: "64 word"
  ts_Errors :: "64 word"
  ts_AvgDurationMs :: real
  ts_StatusCounts :: "(string \<times> 64 word) list"
  ts_LastSeen :: int

record traceSummary =
  tr_TraceID :: string
  tr_Events :: nat
  tr_Services :: "string list"
  tr_StartedAt :: int
  tr_DurationMs :: real
  tr_Failed :: bool
  tr_Status :: string

record fleetView =
  fv_GeneratedAt :: int
  fv_Services :: "serviceSummary list"
  fv_Topics :: "topicSummary list"
  fv_Traces :: "traceSummary list"
  fv_Issues :: "issueView list"

record instanceView =
  vi_InstanceID :: string
  vi_ServiceVersion :: string
  vi_Healthy :: bool
  vi_LastHeartbeat :: int
  vi_RegistrationHash :: string
  vi_HashMatches :: "bool option"

record serviceView =
  sw_Summary :: serviceSummary
  sw_Descriptor :: string
  sw_Instances :: "instanceView list"

record traceView =
  tv_TraceID :: string
  tv_Events :: "traceEvent list"

definition healthHealthy :: string where "healthHealthy = ''healthy''"
definition healthDegraded :: string where "healthDegraded = ''degraded''"
definition healthUnknown :: string where "healthUnknown = ''unknown''"

definition fleetIssues :: "store \<Rightarrow> issueView list" where
  "fleetIssues s = sort_key (\<lambda>v. (iv_Service v, iv_Fingerprint v))
    (concat (map (\<lambda>(name, state). map (\<lambda>(fingerprint, issue).
       \<lparr>iv_Fingerprint = fingerprint, iv_Classification = iss_classification issue, iv_Service = name,
        iv_Topic = iss_topic issue, iv_Version = iss_version issue, iv_Transport = iss_transport issue,
        iv_Status = iss_status issue, iv_ExceptionType = iss_exceptionType issue, iv_Count = iss_count issue,
        iv_FirstSeen = iss_firstSeen issue, iv_LastSeen = iss_lastSeen issue,
        iv_ExemplarTraceIds = iss_exemplarTraceIds issue, iv_ResolutionHint = iss_resolutionHint issue,
        iv_Errors = iss_errors issue\<rparr>) (sv_issues state)) (st_services s)))"

text \<open>Whether each of the four feeds is missing, from the state of the service.\<close>

definition missingFeeds :: "serviceState \<Rightarrow> string list" where
  "missingFeeds state =
    (if sv_registration state = None then [''descriptor''] else []) @
    (if sv_instances state = [] then [''health''] else []) @
    (if sv_invocations state = 0 then [''traces''] else []) @
    (if sint (sv_errors state) > 0 \<and> \<not> sv_issuesFeedSeen state then [''issues''] else [])"

definition serviceHealth :: "serviceState \<Rightarrow> string" where
  "serviceHealth state =
    (if sv_instances state = [] then healthUnknown
     else if list_all (\<lambda>(i, instance). in_healthy instance) (sv_instances state) then healthHealthy
     else healthDegraded)"

definition summaryOf :: "string \<Rightarrow> serviceState \<Rightarrow> serviceSummary" where
  "summaryOf name state =
    (let summary = \<lparr>ss_Service = name, ss_ServiceVersion = '''', ss_Runtime = '''', ss_Transports = [],
           ss_Placement = None, ss_Topics = 0, ss_Produces = 0, ss_Instances = length (sv_instances state),
           ss_Health = serviceHealth state, ss_LastSeen = sv_lastSeen state,
           ss_Invocations = sv_invocations state, ss_Errors = sv_errors state,
           ss_MissingFeeds = missingFeeds state\<rparr> in
     case sv_registration state of
       None \<Rightarrow> summary
     | Some reg \<Rightarrow> summary\<lparr>ss_ServiceVersion := rg_serviceVersion reg, ss_Runtime := rg_runtime reg,
         ss_Transports := rg_transports reg, ss_Placement := rg_placement reg,
         ss_Topics := length (rg_requests reg), ss_Produces := length (rg_produces reg)\<rparr>)"

definition sortedKeys :: "string list \<Rightarrow> string list" where
  "sortedKeys keys = sort keys"

definition activityFor :: "string list \<Rightarrow> (string \<times> int) list \<Rightarrow> (string \<times> int) list" where
  "activityFor declared lastSeen = map (\<lambda>service. (service, goIndex lastSeen service 0)) declared"

text \<open>The average is the float quotient; \<open>ratio\<close> divides a float by a count.\<close>

definition topicSummaryOf :: "(real \<Rightarrow> 64 word \<Rightarrow> real) \<Rightarrow> topic \<Rightarrow> topicState \<Rightarrow> topicSummary" where
  "topicSummaryOf ratio key state =
    \<lparr>ts_Topic = ID key, ts_Version = Version key, ts_Providers = sortedKeys (tp_providers state),
     ts_Consumers = sortedKeys (tp_consumers state),
     ts_ProviderActivity = activityFor (tp_providers state) (tp_providerLastSeen state),
     ts_ConsumerActivity = activityFor (tp_consumers state) (tp_consumerLastSeen state),
     ts_Invocations = tp_invocations state, ts_Errors = tp_errors state,
     ts_AvgDurationMs = (if sint (tp_invocations state) > 0
       then ratio (tp_totalDurationMs state) (tp_invocations state) else 0),
     ts_StatusCounts = tp_statusCounts state, ts_LastSeen = tp_lastSeen state\<rparr>"

text \<open>
  The events of a trace, in the order of the ring, to one summary: \<open>nanos\<close> is the duration of a float
  number of milliseconds, \<open>millis\<close> the float of a duration.
\<close>

definition flowStatus :: "traceEvent list \<Rightarrow> string" where
  "flowStatus events =
    (let ordered = sort_key te_StartedAt events in
     case find (\<lambda>event. IsFailure (te_Status event)) ordered of
       Some event \<Rightarrow> te_Status event
     | None \<Rightarrow> te_Status (hd ordered))"

definition traceSummaryOf :: "(real \<Rightarrow> int) \<Rightarrow> (int \<Rightarrow> real) \<Rightarrow> string \<times> traceEvent list \<Rightarrow> traceSummary" where
  "traceSummaryOf nanos millis flow =
    (case flow of (traceID, events) \<Rightarrow>
     (let start = fold (\<lambda>event t. if te_StartedAt event < t then te_StartedAt event else t) events
            (te_StartedAt (hd events));
          ending = fold (\<lambda>event t. let finished = te_StartedAt event + nanos (te_DurationMs event) in
            if finished > t then finished else t) events 0;
          services = fold (\<lambda>event acc. if te_Service event \<noteq> '''' then List.insert (te_Service event) acc else acc)
            events [] in
      \<lparr>tr_TraceID = traceID, tr_Events = length events, tr_Services = sortedKeys services,
       tr_StartedAt = start, tr_DurationMs = millis (ending - start),
       tr_Failed = list_ex (\<lambda>event. IsFailure (te_Status event)) events, tr_Status = flowStatus events\<rparr>))"

definition byTrace :: "traceEvent list \<Rightarrow> (string \<times> traceEvent list) list" where
  "byTrace events = fold (\<lambda>event m. AList.update (te_TraceID event) (goIndex m (te_TraceID event) [] @ [event]) m)
     events []"

text \<open>
  The summaries, newest first; \<open>arrange\<close> is the order in which the map of traces is visited and an
  unstable sort leaves equal start times.
\<close>

definition traceSummaries ::
  "(real \<Rightarrow> int) \<Rightarrow> (int \<Rightarrow> real) \<Rightarrow> (traceSummary list \<Rightarrow> traceSummary list) \<Rightarrow> nat \<Rightarrow> store \<Rightarrow> traceSummary list" where
  "traceSummaries nanos millis arrange limit s =
    (let summaries = sort_key (\<lambda>summary. - tr_StartedAt summary)
           (arrange (map (traceSummaryOf nanos millis) (byTrace (st_ring s)))) in
     if length summaries > limit then take limit summaries else summaries)"

definition maxFleetTraces :: nat where "maxFleetTraces = 20"

definition fleet ::
  "(real \<Rightarrow> 64 word \<Rightarrow> real) \<Rightarrow> (real \<Rightarrow> int) \<Rightarrow> (int \<Rightarrow> real) \<Rightarrow> (traceSummary list \<Rightarrow> traceSummary list) \<Rightarrow>
   store \<Rightarrow> fleetView \<times> store" where
  "fleet ratio nanos millis arrange s =
    (case readNow s of (now, s1) \<Rightarrow>
      (\<lparr>fv_GeneratedAt = now,
        fv_Services = sort_key ss_Service (map (\<lambda>(name, state). summaryOf name state) (st_services s1)),
        fv_Topics = sort_key (\<lambda>t. (ts_Topic t, ts_Version t))
          (map (\<lambda>(key, state). topicSummaryOf ratio key state) (st_topics s1)),
        fv_Traces = traceSummaries nanos millis arrange maxFleetTraces s1,
        fv_Issues = fleetIssues s1\<rparr>, s1))"

definition instanceViewOf :: "serviceState \<Rightarrow> string \<times> instanceState \<Rightarrow> instanceView" where
  "instanceViewOf state entry =
    (case entry of (i, instance) \<Rightarrow>
      \<lparr>vi_InstanceID = i, vi_ServiceVersion = in_serviceVersion instance, vi_Healthy = in_healthy instance,
       vi_LastHeartbeat = in_lastHeartbeat instance, vi_RegistrationHash = in_registrationHash instance,
       vi_HashMatches = (case sv_registration state of
           None \<Rightarrow> None
         | Some reg \<Rightarrow>
             if rg_registrationHash reg \<noteq> '''' \<and> in_registrationHash instance \<noteq> ''''
             then Some (in_registrationHash instance = rg_registrationHash reg) else None)\<rparr>)"

definition serviceQuery :: "string \<Rightarrow> store \<Rightarrow> serviceView option" where
  "serviceQuery name s = map_option (\<lambda>state.
     \<lparr>sw_Summary = summaryOf name state,
      sw_Descriptor = (case sv_registration state of None \<Rightarrow> '''' | Some reg \<Rightarrow> rg_raw reg),
      sw_Instances = sort_key vi_InstanceID (map (instanceViewOf state) (sv_instances state))\<rparr>)
     (map_of (st_services s) name)"

definition topicQuery :: "(real \<Rightarrow> 64 word \<Rightarrow> real) \<Rightarrow> string \<Rightarrow> string \<Rightarrow> store \<Rightarrow> topicSummary option" where
  "topicQuery ratio i version s =
    map_option (topicSummaryOf ratio (Topic i version)) (map_of (st_topics s) (Topic i version))"

definition traceQuery :: "(traceEvent list \<Rightarrow> traceEvent list) \<Rightarrow> string \<Rightarrow> store \<Rightarrow> traceView option" where
  "traceQuery arrange traceID s =
    (let events = filter (\<lambda>event. te_TraceID event = traceID) (st_ring s) in
     if events = [] then None
     else Some \<lparr>tv_TraceID = traceID, tv_Events = sort_key te_StartedAt (arrange events)\<rparr>)"

end
