(* ===== verification/MeshGraph.thy ===== *)
theory MeshGraph
  imports MeshStore
begin

text \<open>
  What the collector's store promises over every sequence of operations: its declared graph is the
  latest registrations and nothing else, its ring is the last events it was sent, its statistics count
  every event, and it files a drift only against a claim that was made. The store is read through
  \<open>topicAt\<close> and \<open>serviceAt\<close>, and every operation is described by what it does to them.
\<close>

section \<open>Reading the store\<close>

definition topicAt :: "store \<Rightarrow> topic \<Rightarrow> topicState" where
  "topicAt s key = goIndex (st_topics s) key emptyTopic"

definition serviceAt :: "store \<Rightarrow> string \<Rightarrow> serviceState" where
  "serviceAt s name = goIndex (st_services s) name emptyService"

named_theorems at_simps \<open>what an operation does to a row\<close>

lemma goIndex_map_entry:
  "goIndex (AList.map_entry k f m) k' z =
    (if k' = k \<and> hasKey m k then f (goIndex m k z) else goIndex m k' z)"
  by (auto simp: goIndex_def hasKey_def map_of_map_entry split: option.splits)

lemma hasKey_map_entry [simp]: "hasKey (AList.map_entry k f m) k' = hasKey m k'"
  by (auto simp: hasKey_def map_of_map_entry split: option.splits)

lemma goIndex_fresh: "\<not> hasKey m k \<Longrightarrow> goIndex m k z = z"
  by (simp add: goIndex_def hasKey_def)

lemma topicAt_on [at_simps]:
  "topicAt (onTopic key f (ensureTopic key s)) k = (if k = key then f (topicAt s key) else topicAt s k)"
  by (auto simp: topicAt_def onTopic_def ensureTopic_def goIndex_map_entry goIndex_fresh)

lemma topicAt_ensure [at_simps]: "topicAt (ensureTopic key s) k = topicAt s k"
  by (auto simp: topicAt_def ensureTopic_def goIndex_fresh)

lemma topicAt_written [at_simps]:
  "hasKey (st_topics s) key \<Longrightarrow>
    topicAt (onTopic key f s) k = (if k = key then f (topicAt s key) else topicAt s k)"
  by (auto simp: topicAt_def onTopic_def goIndex_map_entry)

lemma serviceAt_on [at_simps]:
  "serviceAt (onService name f (ensureService name s)) k = (if k = name then f (serviceAt s name) else serviceAt s k)"
  by (auto simp: serviceAt_def onService_def ensureService_def goIndex_map_entry goIndex_fresh)

lemma serviceAt_ensure [at_simps]: "serviceAt (ensureService name s) k = serviceAt s k"
  by (auto simp: serviceAt_def ensureService_def goIndex_fresh)

lemma serviceAt_written [at_simps]:
  "hasKey (st_services s) name \<Longrightarrow>
    serviceAt (onService name f s) k = (if k = name then f (serviceAt s name) else serviceAt s k)"
  by (auto simp: serviceAt_def onService_def goIndex_map_entry)

lemma has_ensured [simp]:
  "hasKey (st_services (ensureService name s)) k \<longleftrightarrow> k = name \<or> hasKey (st_services s) k"
  "hasKey (st_topics (ensureTopic key s)) t \<longleftrightarrow> t = key \<or> hasKey (st_topics s) t"
  "hasKey (st_services (onService name f s)) k = hasKey (st_services s) k"
  "hasKey (st_topics (onTopic key g s)) t = hasKey (st_topics s) t"
  by (auto simp: ensureService_def ensureTopic_def onService_def onTopic_def)

text \<open>The parts an operation leaves alone.\<close>

lemma parts [simp]:
  "st_topics (ensureService name s) = st_topics s" "st_topics (onService name f s) = st_topics s"
  "st_services (ensureTopic key s) = st_services s" "st_services (onTopic key g s) = st_services s"
  "st_ring (ensureService name s) = st_ring s" "st_ring (onService name f s) = st_ring s"
  "st_ring (ensureTopic key s) = st_ring s" "st_ring (onTopic key g s) = st_ring s"
  "st_next (ensureService name s) = st_next s" "st_next (onService name f s) = st_next s"
  "st_next (ensureTopic key s) = st_next s" "st_next (onTopic key g s) = st_next s"
  "st_capacity (ensureService name s) = st_capacity s" "st_capacity (onService name f s) = st_capacity s"
  "st_capacity (ensureTopic key s) = st_capacity s" "st_capacity (onTopic key g s) = st_capacity s"
  "st_spanService (ensureService name s) = st_spanService s" "st_spanService (onService name f s) = st_spanService s"
  "st_spanService (ensureTopic key s) = st_spanService s" "st_spanService (onTopic key g s) = st_spanService s"
  by (simp_all add: ensureService_def ensureTopic_def onService_def onTopic_def)

lemma at_cong:
  "st_topics s = st_topics s' \<Longrightarrow> topicAt s k = topicAt s' k"
  "st_services s = st_services s' \<Longrightarrow> serviceAt s n = serviceAt s' n"
  by (simp_all add: topicAt_def serviceAt_def)

lemma at_other [simp]:
  "topicAt (ensureService name s) k = topicAt s k" "topicAt (onService name f s) k = topicAt s k"
  "serviceAt (ensureTopic key s) n = serviceAt s n" "serviceAt (onTopic key g s) n = serviceAt s n"
  "topicAt (s\<lparr>st_reads := r\<rparr>) k = topicAt s k" "serviceAt (s\<lparr>st_reads := r\<rparr>) n = serviceAt s n"
  by (rule at_cong; simp)+

lemma readNow_split: "readNow s = (st_now s (st_reads s), s\<lparr>st_reads := Suc (st_reads s)\<rparr>)"
  by (simp add: readNow_def)

text \<open>Both maps keep distinct keys.\<close>

definition storeOk :: "store \<Rightarrow> bool" where
  "storeOk s \<longleftrightarrow> goMap (st_services s) \<and> goMap (st_topics s)"

lemma goMap_map_entry [simp]: "goMap m \<Longrightarrow> goMap (AList.map_entry k f m)"
  by (simp add: goMap_def distinct_map_entry)

section \<open>The declared graph\<close>

text \<open>Both ends of a topic's edges.\<close>

definition edges :: "store \<Rightarrow> topic \<Rightarrow> string set \<times> string set" where
  "edges s key = (set (tp_providers (topicAt s key)), set (tp_consumers (topicAt s key)))"

definition contractOf :: "store \<Rightarrow> string \<Rightarrow> registration option" where
  "contractOf s name = sv_registration (serviceAt s name)"

lemma graph_other [simp]:
  "edges (ensureService name s) key = edges s key" "edges (onService name f s) key = edges s key"
  "edges (s\<lparr>st_reads := r\<rparr>) key = edges s key" "contractOf (s\<lparr>st_reads := r\<rparr>) n = contractOf s n"
  "contractOf (ensureTopic t s) n = contractOf s n" "contractOf (onTopic t g s) n = contractOf s n"
  "contractOf (ensureService name s) n = contractOf s n" "edges (ensureTopic t s) key = edges s key"
  by (simp_all add: edges_def contractOf_def serviceAt_ensure topicAt_ensure)

lemma addConsumer_edges:
  "edges (addConsumer service t s) key =
    (if key = t then (fst (edges s key), insert service (snd (edges s key))) else edges s key)"
  by (simp add: addConsumer_def edges_def topicAt_on)

lemma addProvider_edges:
  "edges (addProvider service t s) key =
    (if key = t then (insert service (fst (edges s key)), snd (edges s key)) else edges s key)"
  by (simp add: addProvider_def edges_def topicAt_on)

lemma fold_addConsumer_edges:
  "edges (fold (addConsumer service) ts s) key =
    (fst (edges s key), snd (edges s key) \<union> (if key \<in> set ts then {service} else {}))"
  by (induction ts arbitrary: s) (auto simp: addConsumer_edges)

lemma fold_addProvider_edges:
  "edges (fold (addProvider service) ts s) key =
    (fst (edges s key) \<union> (if key \<in> set ts then {service} else {}), snd (edges s key))"
  by (induction ts arbitrary: s) (auto simp: addProvider_edges)

lemma claims_contract [simp]:
  "contractOf (fold (addConsumer service) ts s) n = contractOf s n"
  "contractOf (fold (addProvider service) ts s) n = contractOf s n"
  by (induction ts arbitrary: s) (simp_all add: addConsumer_def addProvider_def)

lemma edges_onTopic:
  assumes "\<And>t. tp_providers (f t) = tp_providers t" and "\<And>t. tp_consumers (f t) = tp_consumers t"
  shows "edges (onTopic t f s) key = edges s key"
  using assms by (simp add: edges_def topicAt_def onTopic_def goIndex_map_entry)

lemma contract_onService:
  assumes "\<And>v. sv_registration (f v) = sv_registration v"
  shows "contractOf (onService name f s) n = contractOf s n"
  using assms by (simp add: contractOf_def serviceAt_def onService_def goIndex_map_entry)

lemma goIndex_map_values:
  assumes "h z = z"
  shows "goIndex (map (\<lambda>(k, v). (k, h v)) m) k z = h (goIndex m k z)"
proof -
  have "map_of (map (\<lambda>(k, v). (k, h v)) m) k = map_option h (map_of m k)" by (induction m) auto
  then show ?thesis using assms by (simp add: goIndex_def split: option.split)
qed

lemma register_graph:
  "edges (registerService service reg s) key =
     (fst (edges s key) - {service} \<union> (if key \<in> set (rg_produces reg) then {service} else {}),
      snd (edges s key) - {service} \<union> (if key \<in> set (rg_requests reg) then {service} else {}))"
  "contractOf (registerService service reg s) n = (if n = service then Some reg else contractOf s n)"
proof -
  let ?s1 = "s\<lparr>st_topics := map (\<lambda>(key, t). (key, dropClaims service t)) (st_topics s)\<rparr>"
  have s1: "edges ?s1 key = (fst (edges s key) - {service}, snd (edges s key) - {service})" for key
    using goIndex_map_values [of "dropClaims service" emptyTopic "st_topics s" key]
    by (simp add: edges_def topicAt_def dropClaims_def emptyTopic_def)
  have c1: "contractOf ?s1 n = contractOf s n" for n by (simp add: contractOf_def serviceAt_def)
  show "edges (registerService service reg s) key =
     (fst (edges s key) - {service} \<union> (if key \<in> set (rg_produces reg) then {service} else {}),
      snd (edges s key) - {service} \<union> (if key \<in> set (rg_requests reg) then {service} else {}))"
    by (simp add: registerService_def readNow_split Let_def fold_addConsumer_edges fold_addProvider_edges s1)
  have "contractOf (onService service (sv_registration_update (\<lambda>_. Some reg)) (ensureService service ?s1)) n =
      (if n = service then Some reg else contractOf s n)"
    using c1 by (simp add: contractOf_def serviceAt_on)
  then show "contractOf (registerService service reg s) n = (if n = service then Some reg else contractOf s n)"
    by (simp add: registerService_def readNow_split Let_def contract_onService)
qed

text \<open>No other operation writes a registration or an edge.\<close>

definition sameGraph :: "store \<Rightarrow> store \<Rightarrow> bool" where
  "sameGraph s s' \<longleftrightarrow> (\<forall>key. edges s' key = edges s key) \<and> (\<forall>n. contractOf s' n = contractOf s n)"

lemma sameGraph_refl: "sameGraph s s"
  by (simp add: sameGraph_def)

lemma sameGraph_trans: "sameGraph s t \<Longrightarrow> sameGraph t u \<Longrightarrow> sameGraph s u"
  by (simp add: sameGraph_def)

lemma recordSpan_parts:
  "st_topics (recordSpan event s) = st_topics s" "st_services (recordSpan event s) = st_services s"
  "st_capacity (recordSpan event s) = st_capacity s"
  by (simp_all add: recordSpan_def Let_def)

lemma recordSpan_graph: "sameGraph s (recordSpan event s)"
  by (simp add: sameGraph_def edges_def contractOf_def topicAt_def serviceAt_def recordSpan_parts)

lemma recordDriftIssue_graph: "sameGraph s (recordDriftIssue sum256 service event s)"
  by (simp add: sameGraph_def recordDriftIssue_def Let_def contract_onService)

lemma checkDrift_graph:
  "sameGraph s (checkHandlerDrift sum256 event s)" "sameGraph s (checkSenderDrift sum256 caller event s)"
  by (auto simp: checkHandlerDrift_def checkSenderDrift_def sameGraph_refl recordDriftIssue_graph split: option.split)

lemma observe_graph [simp]:
  "edges (onTopic t (countEvent rnd event now failing) s) key = edges s key"
  "edges (onTopic t (observeConsumer service seenAt) s) key = edges s key"
  "edges (onTopic t (observeProvider service seenAt) s) key = edges s key"
  by (rule edges_onTopic; simp add: countEvent_def observeConsumer_def observeProvider_def)+

lemma checkDrift_graph_simps [simp]:
  "edges (checkHandlerDrift sum256 event s) key = edges s key"
  "contractOf (checkHandlerDrift sum256 event s) n = contractOf s n"
  "edges (checkSenderDrift sum256 caller event s) key = edges s key"
  "contractOf (checkSenderDrift sum256 caller event s) n = contractOf s n"
  using checkDrift_graph by (simp_all add: sameGraph_def)

text \<open>The stages of an event, with what the clock read.\<close>

lemma countStage_eq:
  obtains now r where "countStage rnd e s = onTopic (eventKey e) (countEvent rnd e now (IsFailure (te_Status e)))
    ((ensureTopic (eventKey e) s)\<lparr>st_reads := r\<rparr>)"
  by (simp add: countStage_def readNow_def)

lemma handlerStage_eq:
  assumes "te_Service e \<noteq> ''''"
  obtains seen r where "handlerStage sum256 e s = checkHandlerDrift sum256 e
    (onTopic (eventKey e) (observeConsumer (te_Service e) (te_StartedAt e))
      (onService (te_Service e) (\<lambda>v. v\<lparr>sv_lastSeen := seen, sv_errors := bump (IsFailure (te_Status e)) (sv_errors v)\<rparr>)
        ((onService (te_Service e) (sv_invocations_update (\<lambda>n. n + 1)) (ensureService (te_Service e) s))\<lparr>st_reads := r\<rparr>)))"
  using assms by (simp add: handlerStage_def readNow_def)

lemma callerStage_cases:
  obtains "callerStage sum256 e s = s"
  | caller where "map_of (st_spanService s) (te_ParentSpanID e) = Some caller" "te_ParentSpanID e \<noteq> ''''"
      "caller \<noteq> ''''" "caller \<noteq> te_Service e"
      "callerStage sum256 e s = checkSenderDrift sum256 caller e
        (onTopic (eventKey e) (observeProvider caller (te_StartedAt e)) s)"
proof -
  have "callerStage sum256 e s = s \<or> (\<exists>caller. map_of (st_spanService s) (te_ParentSpanID e) = Some caller \<and>
      te_ParentSpanID e \<noteq> '''' \<and> caller \<noteq> '''' \<and> caller \<noteq> te_Service e \<and>
      callerStage sum256 e s = checkSenderDrift sum256 caller e
        (onTopic (eventKey e) (observeProvider caller (te_StartedAt e)) s))"
    by (auto simp: callerStage_def split: option.split)
  then show thesis using that by blast
qed

lemma countStage_graph: "sameGraph s (countStage rnd e s)"
  by (rule countStage_eq [of rnd e s]) (simp add: sameGraph_def)

lemma handlerStage_graph: "sameGraph s (handlerStage sum256 e s)"
proof (cases "te_Service e = ''''")
  case True
  then show ?thesis by (simp add: handlerStage_def sameGraph_refl)
next
  case False
  then show ?thesis
    by (rule handlerStage_eq [of e sum256 s])
      (simp add: sameGraph_def contract_onService)
qed

lemma callerStage_graph: "sameGraph s (callerStage sum256 e s)"
  by (cases rule: callerStage_cases [of sum256 e s]) (simp add: sameGraph_refl, simp only:, simp add: sameGraph_def)

lemma addEvent_graph: "sameGraph s (addEvent rnd sum256 event s)"
  unfolding addEvent_def by (rule sameGraph_trans [OF recordSpan_graph sameGraph_trans [OF countStage_graph
      sameGraph_trans [OF handlerStage_graph callerStage_graph]]])

lemma addEvents_graph: "sameGraph s (snd (addEvents rnd sum256 events s))"
proof (induction events arbitrary: s)
  case (Cons e es)
  then show ?case using addEvent_graph [of s rnd sum256 e] sameGraph_trans by (auto simp: addEvents_def)
qed (simp add: addEvents_def sameGraph_def)

lemma heartbeat_graph: "sameGraph s (recordHeartbeat hb s)"
  by (simp add: sameGraph_def recordHeartbeat_def readNow_split Let_def contract_onService)

lemma addIssue_frame:
  "sv_registration (fold (addIssue order) issues v) = sv_registration v"
  "sv_instances (fold (addIssue order) issues v) = sv_instances v"
  "sv_invocations (fold (addIssue order) issues v) = sv_invocations v"
  "sv_errors (fold (addIssue order) issues v) = sv_errors v"
  by (induction issues arbitrary: v) (auto simp: addIssue_def)

lemma addIssues_graph: "sameGraph s (snd (addIssues order batch s))"
  by (simp add: sameGraph_def addIssues_def readNow_split contract_onService addIssue_frame)

section \<open>Operations\<close>

text \<open>
  What the collector's handlers do to the store: the four ingested messages, and the fleet query, which
  reads the clock; the other queries leave it as it is.
\<close>

datatype storeOp =
    Registers string registration
  | Beats heartbeat
  | Traces "traceEvent list"
  | Reports issueBatch
  | Renders

fun storeDo :: "(real \<Rightarrow> real) \<Rightarrow> (string \<Rightarrow> string) \<Rightarrow> errorOrder \<Rightarrow> storeOp \<Rightarrow> store \<Rightarrow> store" where
  "storeDo rnd sum256 order (Registers service reg) s = registerService service reg s"
| "storeDo rnd sum256 order (Beats hb) s = recordHeartbeat hb s"
| "storeDo rnd sum256 order (Traces events) s = snd (addEvents rnd sum256 events s)"
| "storeDo rnd sum256 order (Reports batch) s = snd (addIssues order batch s)"
| "storeDo rnd sum256 order Renders s = snd (readNow s)"

definition storeRun :: "(real \<Rightarrow> real) \<Rightarrow> (string \<Rightarrow> string) \<Rightarrow> errorOrder \<Rightarrow> storeOp list \<Rightarrow> store \<Rightarrow> store" where
  "storeRun rnd sum256 order ops s = fold (storeDo rnd sum256 order) ops s"

lemma fleet_Renders: "snd (fleet ratio nanos millis arrange s) = storeDo rnd sum256 order Renders s"
  by (simp add: fleet_def readNow_split)

text \<open>The latest registration of a service in a sequence of operations.\<close>

fun latestContract :: "storeOp list \<Rightarrow> string \<Rightarrow> registration option \<Rightarrow> registration option" where
  "latestContract [] name reg = reg"
| "latestContract (Registers service r # ops) name reg =
     latestContract ops name (if service = name then Some r else reg)"
| "latestContract (op # ops) name reg = latestContract ops name reg"

definition claimants :: "(string \<Rightarrow> registration option) \<Rightarrow> (registration \<Rightarrow> topic list) \<Rightarrow> topic \<Rightarrow> string set" where
  "claimants contracts claims key = {service. \<exists>reg. contracts service = Some reg \<and> key \<in> set (claims reg)}"

definition graphOk :: "store \<Rightarrow> bool" where
  "graphOk s \<longleftrightarrow> (\<forall>key. edges s key =
     (claimants (contractOf s) rg_produces key, claimants (contractOf s) rg_requests key))"

lemma graphOk_same: "sameGraph s s' \<Longrightarrow> graphOk s \<Longrightarrow> graphOk s'"
proof -
  assume a: "sameGraph s s'" "graphOk s"
  then have "contractOf s' = contractOf s" by (auto simp: sameGraph_def)
  with a show "graphOk s'" by (simp add: graphOk_def sameGraph_def)
qed

lemma graphOk_register:
  assumes "graphOk s"
  shows "graphOk (registerService service reg s)"
  using assms by (auto simp: graphOk_def register_graph claimants_def)

lemma storeDo_graph:
  assumes "graphOk s"
  shows "graphOk (storeDo rnd sum256 order op s) \<and>
    contractOf (storeDo rnd sum256 order op s) n = latestContract [op] n (contractOf s n)"
proof (cases op)
  case (Registers service reg)
  then show ?thesis using graphOk_register [OF assms] by (simp add: register_graph)
next
  case (Beats hb)
  with heartbeat_graph [of s hb] graphOk_same assms show ?thesis by (auto simp: sameGraph_def)
next
  case (Traces events)
  with addEvents_graph [of s rnd sum256 events] graphOk_same assms show ?thesis by (auto simp: sameGraph_def)
next
  case (Reports batch)
  with addIssues_graph [of s order batch] graphOk_same assms show ?thesis by (auto simp: sameGraph_def)
next
  case Renders
  have "sameGraph s (s\<lparr>st_reads := r\<rparr>)" for r by (simp add: sameGraph_def)
  with Renders graphOk_same assms show ?thesis by (auto simp: readNow_split)
qed

lemma storeRun_graph:
  assumes "graphOk s"
  shows "graphOk (storeRun rnd sum256 order ops s) \<and>
    contractOf (storeRun rnd sum256 order ops s) n = latestContract ops n (contractOf s n)"
  using assms
proof (induction ops arbitrary: s)
  case (Cons op ops)
  have "graphOk (storeDo rnd sum256 order op s)"
    "contractOf (storeDo rnd sum256 order op s) n = latestContract [op] n (contractOf s n)"
    using storeDo_graph [OF Cons.prems] by auto
  with Cons.IH show ?case by (cases op) (auto simp: storeRun_def)
qed (simp add: storeRun_def)

lemma graphOk_new: "graphOk (newStore capacity now)"
  by (simp add: graphOk_def edges_def contractOf_def topicAt_def serviceAt_def newStore_def goIndex_def
      emptyTopic_def emptyService_def claimants_def)

lemma contractOf_new [simp]: "contractOf (newStore capacity now) n = None"
  by (simp add: contractOf_def serviceAt_def newStore_def goIndex_def emptyService_def)

section \<open>The ring\<close>

fun eventsIn :: "storeOp \<Rightarrow> traceEvent list" where
  "eventsIn (Traces events) = events"
| "eventsIn _ = []"

definition ingested :: "storeOp list \<Rightarrow> traceEvent list" where
  "ingested ops = concat (map eventsIn ops)"

text \<open>The window, oldest event first.\<close>

definition window :: "store \<Rightarrow> traceEvent list" where
  "window s = rotate (st_next s) (st_ring s)"

definition lastEvents :: "nat \<Rightarrow> traceEvent list \<Rightarrow> traceEvent list" where
  "lastEvents n events = drop (length events - n) events"

definition ringOk :: "traceEvent list \<Rightarrow> store \<Rightarrow> bool" where
  "ringOk events s \<longleftrightarrow> 0 < st_capacity s \<and> length (st_ring s) \<le> st_capacity s \<and>
    (if length (st_ring s) < st_capacity s then st_next s = 0 else st_next s < st_capacity s) \<and>
    window s = lastEvents (st_capacity s) events"

lemma rotate_overwrite:
  assumes "n < length xs"
  shows "rotate (Suc n mod length xs) (xs[n := x]) = tl (rotate n xs) @ [x]"
proof (cases "Suc n < length xs")
  case True
  moreover have "take (Suc n) (xs[n := x]) = take n xs @ [x]" using assms by (simp add: take_Suc_conv_app_nth)
  moreover have "drop (Suc n) (xs[n := x]) = drop (Suc n) xs" by (simp add: drop_update_cancel)
  moreover have "drop n xs \<noteq> []" "tl (drop n xs) = drop (Suc n) xs" using assms by (simp_all add: drop_Suc tl_drop)
  ultimately show ?thesis using assms by (simp only: rotate_drop_take length_list_update mod_less) simp
next
  case False
  then have l: "length xs = Suc n" using assms by simp
  then obtain ys y where "xs = ys @ [y]" "length ys = n" by (metis length_Suc_conv_rev)
  moreover from this have "xs[n := x] = ys @ [x]" by (auto simp: list_update_append)
  ultimately show ?thesis by (simp add: rotate_drop_take)
qed

lemma lastEvents_snoc:
  "lastEvents n (events @ [e]) =
    (if n = 0 then [] else if length events < n then lastEvents n events @ [e] else tl (lastEvents n events) @ [e])"
proof (cases "length events < n")
  case False
  have "Suc (length events) - n = Suc (length events - n)" if "0 < n" using that False by simp
  then show ?thesis using False by (simp add: lastEvents_def drop_Suc tl_drop)
qed (simp add: lastEvents_def)

lemma length_lastEvents: "length (lastEvents n events) = min n (length events)"
  by (simp add: lastEvents_def)

lemma recordSpan_ring:
  assumes "ringOk events s"
  shows "ringOk (events @ [e]) (recordSpan e s)"
proof (cases "length (st_ring s) < st_capacity s")
  case True
  have len: "length (window s) = length (st_ring s)" by (simp add: window_def)
  with assms True have "length events < st_capacity s"
    by (auto simp: ringOk_def length_lastEvents)
  with assms True show ?thesis
    by (auto simp: ringOk_def recordSpan_def Let_def window_def lastEvents_snoc)
next
  case False
  then have full: "length (st_ring s) = st_capacity s" "st_next s < st_capacity s" "0 < st_capacity s"
    and w: "window s = lastEvents (st_capacity s) events"
    using assms by (auto simp: ringOk_def split: if_splits)
  have "length (window s) = st_capacity s" using full by (simp add: window_def)
  with w have "\<not> length events < st_capacity s" by (simp add: length_lastEvents)
  then have "tl (window s) @ [e] = lastEvents (st_capacity s) (events @ [e])"
    using full(3) w by (simp add: lastEvents_snoc)
  moreover have "window (recordSpan e s) = tl (window s) @ [e]"
    using rotate_overwrite [of "st_next s" "st_ring s" e] full
    by (simp add: window_def recordSpan_def Let_def)
  moreover have "length (st_ring (recordSpan e s)) = st_capacity s" "st_next (recordSpan e s) < st_capacity s"
    using full by (simp_all add: recordSpan_def Let_def)
  ultimately show ?thesis using full by (simp add: ringOk_def recordSpan_parts)
qed

text \<open>What an operation other than the span record leaves: the ring, the cursor, the span owners.\<close>

definition sameRing :: "store \<Rightarrow> store \<Rightarrow> bool" where
  "sameRing s s' \<longleftrightarrow> st_ring s' = st_ring s \<and> st_next s' = st_next s \<and> st_capacity s' = st_capacity s \<and>
    st_spanService s' = st_spanService s"

lemma ringOk_same: "sameRing s s' \<Longrightarrow> ringOk events s \<Longrightarrow> ringOk events s'"
  by (simp add: sameRing_def ringOk_def window_def)

lemma checkDrift_ring [simp]:
  "sameRing s (checkHandlerDrift sum256 event s)" "sameRing s (checkSenderDrift sum256 caller event s)"
  by (auto simp: checkHandlerDrift_def checkSenderDrift_def recordDriftIssue_def sameRing_def Let_def split: option.split)

lemma checkDrift_ring_simps [simp]:
  "st_ring (checkHandlerDrift sum256 event s) = st_ring s" "st_next (checkHandlerDrift sum256 event s) = st_next s"
  "st_capacity (checkHandlerDrift sum256 event s) = st_capacity s"
  "st_spanService (checkHandlerDrift sum256 event s) = st_spanService s"
  "st_ring (checkSenderDrift sum256 caller event s) = st_ring s"
  "st_next (checkSenderDrift sum256 caller event s) = st_next s"
  "st_capacity (checkSenderDrift sum256 caller event s) = st_capacity s"
  "st_spanService (checkSenderDrift sum256 caller event s) = st_spanService s"
  using checkDrift_ring by (simp_all add: sameRing_def)

lemma sameRing_trans: "sameRing s t \<Longrightarrow> sameRing t u \<Longrightarrow> sameRing s u"
  by (simp add: sameRing_def)

lemma countStage_ring: "sameRing s (countStage rnd e s)"
  by (rule countStage_eq [of rnd e s]) (simp add: sameRing_def)

lemma handlerStage_ring: "sameRing s (handlerStage sum256 e s)"
proof (cases "te_Service e = ''''")
  case True
  then show ?thesis by (simp add: handlerStage_def sameRing_def)
next
  case False
  then show ?thesis
    by (rule handlerStage_eq [of e sum256 s])
      (simp add: sameRing_def)
qed

lemma callerStage_ring: "sameRing s (callerStage sum256 e s)"
  by (cases rule: callerStage_cases [of sum256 e s]) (simp add: sameRing_def, simp only:, simp add: sameRing_def)

lemma addEvent_ring: "sameRing (recordSpan event s) (addEvent rnd sum256 event s)"
  unfolding addEvent_def
  by (rule sameRing_trans [OF countStage_ring sameRing_trans [OF handlerStage_ring callerStage_ring]])

lemma addEvents_ring:
  assumes "ringOk events s"
  shows "ringOk (events @ es) (snd (addEvents rnd sum256 es s))"
  using assms
proof (induction es arbitrary: events s)
  case (Cons e es)
  have "ringOk (events @ [e]) (addEvent rnd sum256 e s)"
    by (rule ringOk_same [OF addEvent_ring recordSpan_ring [OF Cons.prems]])
  from Cons.IH [OF this] show ?case by (simp add: addEvents_def)
qed (simp add: addEvents_def)

lemma claims_ring [simp]:
  "sameRing s (fold (addConsumer service) ts s)" "sameRing s (fold (addProvider service) ts s)"
  by (induction ts arbitrary: s) (simp_all add: sameRing_def addConsumer_def addProvider_def)

lemma storeDo_ring:
  assumes "\<And>events. op \<noteq> Traces events"
  shows "sameRing s (storeDo rnd sum256 order op s)"
proof (cases op)
  case (Registers service reg)
  then show ?thesis
    using claims_ring(1) [of _ service "rg_requests reg"] claims_ring(2) [of _ service "rg_produces reg"]
    by (simp add: registerService_def readNow_split Let_def sameRing_def)
qed (use assms in \<open>simp_all add: sameRing_def recordHeartbeat_def addIssues_def readNow_split Let_def\<close>)

lemma ringOk_new: "0 < capacity \<Longrightarrow> ringOk [] (newStore capacity now)"
  by (simp add: ringOk_def newStore_def window_def lastEvents_def)

section \<open>Statistics\<close>

text \<open>What the events of a sequence should count to.\<close>

definition counts :: "(traceEvent \<Rightarrow> bool) \<Rightarrow> traceEvent list \<Rightarrow> 64 word" where
  "counts P events = of_nat (length (filter P events))"

lemma counts_snoc: "counts P (events @ [e]) = counts P events + (if P e then 1 else 0)"
  by (simp add: counts_def)

definition onTopicKey :: "topic \<Rightarrow> traceEvent \<Rightarrow> bool" where
  "onTopicKey key event \<longleftrightarrow> Topic (te_Topic event) (te_TopicVersion event) = key"

definition failedEvent :: "traceEvent \<Rightarrow> bool" where
  "failedEvent event = IsFailure (te_Status event)"

text \<open>The statistics of a row, and of a service.\<close>

definition topicStats :: "topicState \<Rightarrow> 64 word \<times> 64 word \<times> (string \<times> 64 word) list" where
  "topicStats t = (tp_invocations t, tp_errors t, tp_statusCounts t)"

definition serviceStats :: "serviceState \<Rightarrow> 64 word \<times> 64 word" where
  "serviceStats v = (sv_invocations v, sv_errors v)"

definition statsOk :: "traceEvent list \<Rightarrow> store \<Rightarrow> bool" where
  "statsOk events s \<longleftrightarrow>
    (\<forall>key. fst (topicStats (topicAt s key)) = counts (onTopicKey key) events \<and>
      fst (snd (topicStats (topicAt s key))) = counts (\<lambda>e. onTopicKey key e \<and> failedEvent e) events \<and>
      (\<forall>status. goIndex (snd (snd (topicStats (topicAt s key)))) status 0 =
        counts (\<lambda>e. onTopicKey key e \<and> te_Status e = status) events)) \<and>
    (\<forall>name. name \<noteq> '''' \<longrightarrow> serviceStats (serviceAt s name) =
      (counts (\<lambda>e. te_Service e = name) events, counts (\<lambda>e. te_Service e = name \<and> failedEvent e) events))"

definition sameStats :: "store \<Rightarrow> store \<Rightarrow> bool" where
  "sameStats s s' \<longleftrightarrow> (\<forall>key. topicStats (topicAt s' key) = topicStats (topicAt s key)) \<and>
    (\<forall>name. serviceStats (serviceAt s' name) = serviceStats (serviceAt s name))"

lemma statsOk_same: "sameStats s s' \<Longrightarrow> statsOk events s \<Longrightarrow> statsOk events s'"
  by (simp add: sameStats_def statsOk_def)

lemma stats_onTopic:
  assumes "\<And>t. topicStats (f t) = topicStats t"
  shows "topicStats (topicAt (onTopic key f s) k) = topicStats (topicAt s k)"
  using assms by (simp add: topicAt_def onTopic_def goIndex_map_entry)

lemma stats_onService:
  assumes "\<And>v. serviceStats (f v) = serviceStats v"
  shows "serviceStats (serviceAt (onService name f s) n) = serviceStats (serviceAt s n)"
  using assms by (simp add: serviceAt_def onService_def goIndex_map_entry)

lemma stats_keep [simp]:
  "serviceStats (sv_issues_update f v) = serviceStats v" "serviceStats (sv_registration_update g v) = serviceStats v"
  "serviceStats (sv_lastSeen_update h v) = serviceStats v" "serviceStats (sv_instances_update i v) = serviceStats v"
  "serviceStats (sv_issuesFeedSeen_update j v) = serviceStats v"
  "serviceStats (fold (addIssue order) issues v) = serviceStats v"
  "serviceAt (s\<lparr>st_topics := ts\<rparr>) n = serviceAt s n"
  by (simp_all add: serviceStats_def addIssue_frame serviceAt_def)

lemma stats_observe [simp]:
  "topicStats (topicAt (onTopic t (observeConsumer service seenAt) s) key) = topicStats (topicAt s key)"
  "topicStats (topicAt (onTopic t (observeProvider service seenAt) s) key) = topicStats (topicAt s key)"
  "topicStats (topicAt (addConsumer service t s) key) = topicStats (topicAt s key)"
  "topicStats (topicAt (addProvider service t s) key) = topicStats (topicAt s key)"
  unfolding addConsumer_def addProvider_def
  by (subst stats_onTopic; simp add: observeConsumer_def observeProvider_def topicStats_def topicAt_ensure)+

lemma checkDrift_stats:
  "sameStats s (checkHandlerDrift sum256 event s)" "sameStats s (checkSenderDrift sum256 caller event s)"
proof -
  have "sameStats s (recordDriftIssue sum256 service event s)" for service
    by (simp add: sameStats_def recordDriftIssue_def Let_def stats_onService serviceAt_ensure)
  moreover have "sameStats s s" by (simp add: sameStats_def)
  ultimately show "sameStats s (checkHandlerDrift sum256 event s)" "sameStats s (checkSenderDrift sum256 caller event s)"
    by (auto simp: checkHandlerDrift_def checkSenderDrift_def split: option.split)
qed

lemma fold_claims_stats [simp]:
  "topicStats (topicAt (fold (addConsumer service) ts s) key) = topicStats (topicAt s key)"
  "topicStats (topicAt (fold (addProvider service) ts s) key) = topicStats (topicAt s key)"
  by (induction ts arbitrary: s) simp_all

lemma fold_claims_services [simp]:
  "serviceAt (fold (addConsumer service) ts s) n = serviceAt s n"
  "serviceAt (fold (addProvider service) ts s) n = serviceAt s n"
  by (induction ts arbitrary: s) (simp_all add: addConsumer_def addProvider_def)

lemma dropClaims_stats:
  "topicStats (topicAt (s\<lparr>st_topics := map (\<lambda>(key, t). (key, dropClaims service t)) (st_topics s)\<rparr>) key) =
    topicStats (topicAt s key)"
  using goIndex_map_values [of "dropClaims service" emptyTopic "st_topics s" key]
  by (simp add: topicAt_def dropClaims_def emptyTopic_def topicStats_def)

lemma storeDo_stats:
  assumes "\<And>events. op \<noteq> Traces events"
  shows "sameStats s (storeDo rnd sum256 order op s)"
proof (cases op)
  case (Registers service reg)
  then show ?thesis
    by (simp add: sameStats_def registerService_def readNow_split Let_def dropClaims_stats stats_onService
        serviceAt_ensure)
qed (use assms in \<open>simp_all add: sameStats_def recordHeartbeat_def addIssues_def readNow_split Let_def
    stats_onService serviceAt_ensure\<close>)

definition countedStats :: "traceEvent \<Rightarrow> 64 word \<times> 64 word \<times> (string \<times> 64 word) list \<Rightarrow>
    64 word \<times> 64 word \<times> (string \<times> 64 word) list" where
  "countedStats e st = (fst st + 1, bump (failedEvent e) (fst (snd st)),
     AList.update (te_Status e) (goIndex (snd (snd st)) (te_Status e) 0 + 1) (snd (snd st)))"

lemma topicStats_counted:
  "topicStats (countEvent rnd e now (failedEvent e) t) = countedStats e (topicStats t)"
  by (simp add: topicStats_def countEvent_def countedStats_def)

lemma serviceStats_handled:
  "serviceStats ((sv_invocations_update (\<lambda>n. n + 1) v)\<lparr>sv_lastSeen := seen, sv_errors := bump b (sv_errors v)\<rparr>) =
    (fst (serviceStats v) + 1, bump b (snd (serviceStats v)))"
  by (simp add: serviceStats_def)

lemma topicAt_recordSpan [simp]: "topicAt (recordSpan e s) k = topicAt s k" "serviceAt (recordSpan e s) n = serviceAt s n"
  by (simp_all add: topicAt_def serviceAt_def recordSpan_parts)

lemma checkDrift_stats_simps [simp]:
  "topicStats (topicAt (checkHandlerDrift sum256 event s) k) = topicStats (topicAt s k)"
  "topicStats (topicAt (checkSenderDrift sum256 caller event s) k) = topicStats (topicAt s k)"
  "serviceStats (serviceAt (checkHandlerDrift sum256 event s) n) = serviceStats (serviceAt s n)"
  "serviceStats (serviceAt (checkSenderDrift sum256 caller event s) n) = serviceStats (serviceAt s n)"
  using checkDrift_stats by (simp_all add: sameStats_def)

lemma countStage_stats:
  "topicStats (topicAt (countStage rnd e s) k) =
    (if onTopicKey k e then countedStats e (topicStats (topicAt s k)) else topicStats (topicAt s k))"
  "serviceStats (serviceAt (countStage rnd e s) n) = serviceStats (serviceAt s n)"
  by (rule countStage_eq [of rnd e s]; auto simp: topicAt_written topicAt_ensure topicStats_counted
      onTopicKey_def eventKey_def failedEvent_def [symmetric])+

lemma handlerStage_stats:
  "topicStats (topicAt (handlerStage sum256 e s) k) = topicStats (topicAt s k)"
  "serviceStats (serviceAt (handlerStage sum256 e s) n) =
    (if te_Service e = n \<and> n \<noteq> '''' then
       (fst (serviceStats (serviceAt s n)) + 1, bump (failedEvent e) (snd (serviceStats (serviceAt s n))))
     else serviceStats (serviceAt s n))"
proof -
  have "topicStats (topicAt (handlerStage sum256 e s) k) = topicStats (topicAt s k) \<and>
    serviceStats (serviceAt (handlerStage sum256 e s) n) =
    (if te_Service e = n \<and> n \<noteq> '''' then
       (fst (serviceStats (serviceAt s n)) + 1, bump (failedEvent e) (snd (serviceStats (serviceAt s n))))
     else serviceStats (serviceAt s n))"
  proof (cases "te_Service e = ''''")
    case True
    then show ?thesis by (auto simp: handlerStage_def)
  next
    case False
    then show ?thesis
      by (rule handlerStage_eq [of e sum256 s])
        (use False in \<open>auto simp: serviceAt_written serviceAt_on serviceStats_handled failedEvent_def\<close>)
  qed
  then show "topicStats (topicAt (handlerStage sum256 e s) k) = topicStats (topicAt s k)"
    "serviceStats (serviceAt (handlerStage sum256 e s) n) =
    (if te_Service e = n \<and> n \<noteq> '''' then
       (fst (serviceStats (serviceAt s n)) + 1, bump (failedEvent e) (snd (serviceStats (serviceAt s n))))
     else serviceStats (serviceAt s n))" by simp_all
qed

lemma callerStage_stats:
  "topicStats (topicAt (callerStage sum256 e s) k) = topicStats (topicAt s k)"
  "serviceStats (serviceAt (callerStage sum256 e s) n) = serviceStats (serviceAt s n)"
  by (rule callerStage_cases [of sum256 e s]; simp)+

lemmas addEvent_stats_step = countStage_stats handlerStage_stats callerStage_stats

lemma addEvent_stats:
  assumes "statsOk events s"
  shows "statsOk (events @ [e]) (addEvent rnd sum256 e s)"
  using assms
  by (simp add: statsOk_def addEvent_def addEvent_stats_step counts_snoc countedStats_def bump_def)

lemma addEvents_stats:
  assumes "statsOk events s"
  shows "statsOk (events @ es) (snd (addEvents rnd sum256 es s))"
  using assms
proof (induction es arbitrary: events s)
  case (Cons e es)
  from Cons.IH [OF addEvent_stats [OF Cons.prems]] show ?case by (simp add: addEvents_def)
qed (simp add: addEvents_def)

text \<open>What holds of one operation holds of every run.\<close>

lemma storeRun_ingests:
  assumes "\<And>events s es. ok events s \<Longrightarrow> ok (events @ es) (snd (addEvents rnd sum256 es s))"
    and "\<And>events s op. (\<And>es. op \<noteq> Traces es) \<Longrightarrow> ok events s \<Longrightarrow> ok events (storeDo rnd sum256 order op s)"
    and "ok events s"
  shows "ok (events @ ingested ops) (storeRun rnd sum256 order ops s)"
  using assms(3)
proof (induction ops arbitrary: events s)
  case (Cons op ops)
  have "ok (events @ eventsIn op) (storeDo rnd sum256 order op s)"
  proof (cases "\<exists>es. op = Traces es")
    case True
    then show ?thesis using assms(1) [OF Cons.prems] by auto
  next
    case False
    then have "ok events (storeDo rnd sum256 order op s)" by (intro assms(2) Cons.prems) blast
    with False show ?thesis by (cases op) auto
  qed
  from Cons.IH [OF this] show ?case by (simp add: storeRun_def ingested_def)
qed (simp add: storeRun_def ingested_def)

lemma storeRun_ring:
  assumes "ringOk events s"
  shows "ringOk (events @ ingested ops) (storeRun rnd sum256 order ops s)"
  by (rule storeRun_ingests [where ok = ringOk, OF addEvents_ring ringOk_same [OF storeDo_ring] assms])

lemma storeRun_stats:
  assumes "statsOk events s"
  shows "statsOk (events @ ingested ops) (storeRun rnd sum256 order ops s)"
  by (rule storeRun_ingests [where ok = statsOk, OF addEvents_stats statsOk_same [OF storeDo_stats] assms])

lemma statsOk_new: "statsOk [] (newStore capacity now)"
  by (simp add: statsOk_def topicStats_def serviceStats_def topicAt_def serviceAt_def newStore_def goIndex_def
      emptyTopic_def emptyService_def counts_def)

end
