(* ===== verification/MeshLaws.thy ===== *)
theory MeshLaws
  imports MeshGraph
begin

text \<open>
  The properties of the collector's store over every sequence of operations, the counting of failures
  from the exporter of a service to the collector, and the read model of a flow.
\<close>

section \<open>Span owners\<close>

definition spanIDs :: "traceEvent list \<Rightarrow> string list" where
  "spanIDs events = filter (\<lambda>i. i \<noteq> '''') (map te_SpanID events)"

definition ownsSpan :: "traceEvent list \<Rightarrow> string \<Rightarrow> string \<Rightarrow> bool" where
  "ownsSpan events x v \<longleftrightarrow> x \<noteq> '''' \<and> v \<noteq> '''' \<and> (\<exists>e \<in> set events. te_SpanID e = x \<and> te_Service e = v)"

definition spansOk :: "store \<Rightarrow> bool" where
  "spansOk s \<longleftrightarrow> (\<forall>x v. map_of (st_spanService s) x = Some v \<longleftrightarrow> ownsSpan (st_ring s) x v)"

lemma spanIDs_append: "spanIDs (xs @ ys) = spanIDs xs @ spanIDs ys"
  by (simp add: spanIDs_def)

lemma ownsSpan_id: "ownsSpan events x v \<Longrightarrow> x \<in> set (spanIDs events)"
  by (auto simp: ownsSpan_def spanIDs_def)

lemma ownsSpan_mono: "ownsSpan xs x v \<Longrightarrow> set xs \<subseteq> set ys \<Longrightarrow> ownsSpan ys x v"
  by (auto simp: ownsSpan_def)

lemma fresh_span:
  assumes "distinct (spanIDs (ys @ a # zs))"
  shows "\<not> ownsSpan (ys @ zs) (te_SpanID a) v"
proof
  assume o: "ownsSpan (ys @ zs) (te_SpanID a) v"
  then have "te_SpanID a \<noteq> ''''" by (simp add: ownsSpan_def)
  then have "spanIDs (a # zs) = te_SpanID a # spanIDs zs" by (simp add: spanIDs_def)
  with assms ownsSpan_id [OF o] show False by (auto simp: spanIDs_append)
qed

lemma ownsSpan_insert:
  "ownsSpan (ys @ a # zs) x v \<longleftrightarrow>
    ownsSpan (ys @ zs) x v \<or> (x \<noteq> '''' \<and> v \<noteq> '''' \<and> te_SpanID a = x \<and> te_Service a = v)"
  by (auto simp: ownsSpan_def)

lemma recordSpan_spans:
  assumes "spansOk s" and "distinct (spanIDs (st_ring s @ [e]))" and "0 < st_capacity s"
    and "length (st_ring s) \<le> st_capacity s" and "length (st_ring s) = st_capacity s \<Longrightarrow> st_next s < st_capacity s"
  shows "spansOk (recordSpan e s)"
proof (cases "length (st_ring s) < st_capacity s")
  case True
  have "map_of (st_spanService (recordSpan e s)) x = Some v \<longleftrightarrow> ownsSpan (st_ring s @ [e]) x v" for x v
    using assms(1,2) True by (auto simp: spansOk_def recordSpan_def Let_def ownsSpan_def spanIDs_def)
  with True show ?thesis by (simp add: spansOk_def recordSpan_def Let_def)
next
  case False
  with assms(4,5) have n: "st_next s < length (st_ring s)" "length (st_ring s) = st_capacity s" by auto
  define ys zs ev where "ys = take (st_next s) (st_ring s)" and "zs = drop (Suc (st_next s)) (st_ring s)"
    and "ev = st_ring s ! st_next s"
  have ring: "st_ring s = ys @ ev # zs" "(st_ring s)[st_next s := e] = ys @ e # zs"
    unfolding ys_def zs_def ev_def using n(1) by (simp_all add: id_take_nth_drop [symmetric] upd_conv_take_nth_drop)
  have fresh: "\<not> ownsSpan (ys @ zs) (te_SpanID ev) v" "\<not> ownsSpan (ys @ zs) (te_SpanID e) v" for v
    using assms(2) fresh_span [of ys ev "zs @ [e]" v] fresh_span [of "ys @ ev # zs" e "[]" v]
      ownsSpan_mono [of "ys @ zs"] unfolding ring by (auto simp: subset_iff)
  have old: "map_of (st_spanService s) x = Some v \<longleftrightarrow> ownsSpan (ys @ ev # zs) x v" for x v
    using assms(1) by (simp add: spansOk_def ring)
  define spans where "spans = (if te_SpanID ev \<noteq> '''' then AList.delete (te_SpanID ev) (st_spanService s)
    else st_spanService s)"
  have spans: "map_of spans x = Some v \<longleftrightarrow> ownsSpan (ys @ zs) x v" for x v
    using fresh(1) [of v] old [of x v]
    by (cases "x = te_SpanID ev") (auto simp: spans_def ownsSpan_insert ownsSpan_def)
  have "map_of (st_spanService (recordSpan e s)) x = Some v \<longleftrightarrow> ownsSpan (ys @ e # zs) x v" for x v
    using False fresh(2) [of v] spans [of x v] unfolding recordSpan_def Let_def ev_def [symmetric] spans_def [symmetric]
    by (cases "x = te_SpanID e") (auto simp: ownsSpan_insert)
  with False n(2) show ?thesis by (simp add: spansOk_def recordSpan_def Let_def ring(2))
qed

lemma spanIDs_mset: "mset xs = mset ys \<Longrightarrow> distinct (spanIDs xs) = distinct (spanIDs ys)"
  unfolding spanIDs_def by (rule mset_eq_imp_distinct_iff) (simp add: mset_filter mset_map)

lemma ring_spans_distinct:
  assumes "ringOk events s" and "distinct (spanIDs (events @ [e]))"
  shows "distinct (spanIDs (st_ring s @ [e]))"
proof -
  have "mset (window s) = mset (st_ring s)"
    unfolding window_def rotate_drop_take by (metis add.commute append_take_drop_id mset_append)
  then have "mset (st_ring s @ [e]) = mset (window s @ [e])" by simp
  moreover obtain k where "window s = drop k events" using assms(1) by (auto simp: ringOk_def lastEvents_def)
  moreover have "distinct (spanIDs (drop k events @ [e]))"
    using assms(2) append_take_drop_id [of k events] spanIDs_append [of "take k events" "drop k events"]
    by (auto simp: spanIDs_append)
  ultimately show ?thesis using spanIDs_mset by metis
qed

lemma addEvents_capacity: "st_capacity (snd (addEvents rnd sum256 es s)) = st_capacity s"
proof (induction es arbitrary: s)
  case (Cons e es)
  then show ?case
    using addEvent_ring [of e s rnd sum256] by (simp add: addEvents_def sameRing_def recordSpan_parts)
qed (simp add: addEvents_def)

lemma storeRun_capacity: "st_capacity (storeRun rnd sum256 order ops s) = st_capacity s"
proof (rule storeRun_ingests [where ok = "\<lambda>_ t. st_capacity t = st_capacity s"])
  show "st_capacity (storeDo rnd sum256 order op t) = st_capacity s"
    if "\<And>es. op \<noteq> Traces es" "st_capacity t = st_capacity s" for events t op
    using storeDo_ring [OF that(1), of t rnd sum256 order] that(2) by (simp add: sameRing_def)
qed (simp_all add: addEvents_capacity)

definition ownersOk :: "traceEvent list \<Rightarrow> store \<Rightarrow> bool" where
  "ownersOk events s \<longleftrightarrow> ringOk events s \<and> (distinct (spanIDs events) \<longrightarrow> spansOk s)"

lemma ownersOk_same: "sameRing s s' \<Longrightarrow> ownersOk events s \<Longrightarrow> ownersOk events s'"
  by (simp add: ownersOk_def spansOk_def ringOk_same) (simp add: sameRing_def)

lemma addEvent_owners:
  assumes "ownersOk events s"
  shows "ownersOk (events @ [e]) (addEvent rnd sum256 e s)"
proof (rule ownersOk_same [OF addEvent_ring])
  have "spansOk (recordSpan e s)" if d: "distinct (spanIDs (events @ [e]))"
  proof (rule recordSpan_spans)
    show "spansOk s" using assms d by (simp add: ownersOk_def spanIDs_append)
    show "distinct (spanIDs (st_ring s @ [e]))" using assms d by (intro ring_spans_distinct) (auto simp: ownersOk_def)
  qed (use assms in \<open>auto simp: ownersOk_def ringOk_def\<close>)
  then show "ownersOk (events @ [e]) (recordSpan e s)"
    using assms recordSpan_ring by (simp add: ownersOk_def)
qed

lemma addEvents_owners:
  assumes "ownersOk events s"
  shows "ownersOk (events @ es) (snd (addEvents rnd sum256 es s))"
  using assms
proof (induction es arbitrary: events s)
  case (Cons e es)
  from Cons.IH [OF addEvent_owners [OF Cons.prems]] show ?case by (simp add: addEvents_def)
qed (simp add: addEvents_def)

lemma storeRun_owners:
  assumes "ownersOk events s"
  shows "ownersOk (events @ ingested ops) (storeRun rnd sum256 order ops s)"
  by (rule storeRun_ingests [where ok = ownersOk, OF addEvents_owners ownersOk_same [OF storeDo_ring] assms])

lemma ownersOk_new: "0 < capacity \<Longrightarrow> ownersOk [] (newStore capacity now)"
  by (simp add: ownersOk_def ringOk_new) (simp add: spansOk_def newStore_def ownsSpan_def)

section \<open>Drift\<close>

text \<open>Whether a claim of a service is known and does not list the topic of the event.\<close>

definition undeclared :: "registration option \<Rightarrow> (registration \<Rightarrow> bool) \<Rightarrow> (registration \<Rightarrow> topic list) \<Rightarrow> traceEvent \<Rightarrow> bool" where
  "undeclared contract known claims event \<longleftrightarrow> \<not> IsReserved (te_Topic event) \<and>
    (\<exists>reg. contract = Some reg \<and> known reg \<and> eventKey event \<notin> set (claims reg))"

text \<open>The owner of an event's parent span, when it is another service.\<close>

definition callerIs :: "store \<Rightarrow> traceEvent \<Rightarrow> string \<Rightarrow> bool" where
  "callerIs s event n \<longleftrightarrow> te_ParentSpanID event \<noteq> '''' \<and> n \<noteq> '''' \<and> n \<noteq> te_Service event \<and>
    map_of (st_spanService s) (te_ParentSpanID event) = Some n"

definition flagged :: "store \<Rightarrow> traceEvent \<Rightarrow> string \<Rightarrow> bool" where
  "flagged s event n \<longleftrightarrow>
    (n \<noteq> '''' \<and> n = te_Service event \<and> undeclared (contractOf s n) rg_requestsKnown rg_requests event) \<or>
    (callerIs (recordSpan event s) event n \<and> undeclared (contractOf s n) rg_producesKnown rg_produces event)"

definition issuesAt :: "store \<Rightarrow> string \<Rightarrow> (string \<times> issueState) list" where
  "issuesAt s n = sv_issues (serviceAt s n)"

definition withDrift :: "(string \<Rightarrow> string) \<Rightarrow> string \<Rightarrow> traceEvent \<Rightarrow> (string \<times> issueState) list \<Rightarrow> (string \<times> issueState) list" where
  "withDrift sum256 n event issues = AList.update (driftFingerprint sum256 n event)
     (driftOccurrence event (goIndex issues (driftFingerprint sum256 n event) zeroIssueState)) issues"

lemma recordDriftIssue_issues:
  "issuesAt (recordDriftIssue sum256 service event s) n =
    (if n = service then withDrift sum256 n event (issuesAt s n) else issuesAt s n)"
  by (simp add: issuesAt_def recordDriftIssue_def Let_def serviceAt_on withDrift_def)

lemma service_registered:
  "contractOf s n = (case map_of (st_services s) n of None \<Rightarrow> None | Some v \<Rightarrow> sv_registration v)"
  by (simp add: contractOf_def serviceAt_def goIndex_def emptyService_def split: option.split)

lemma checkHandlerDrift_issues:
  "issuesAt (checkHandlerDrift sum256 event s) n =
    (if n = te_Service event \<and> undeclared (contractOf s n) rg_requestsKnown rg_requests event
     then withDrift sum256 n event (issuesAt s n) else issuesAt s n)"
  by (auto simp: checkHandlerDrift_def undeclared_def service_registered recordDriftIssue_issues eventKey_def
      split: option.split)

lemma checkSenderDrift_issues:
  "issuesAt (checkSenderDrift sum256 caller event s) n =
    (if n = caller \<and> undeclared (contractOf s n) rg_producesKnown rg_produces event
     then withDrift sum256 n event (issuesAt s n) else issuesAt s n)"
  by (auto simp: checkSenderDrift_def undeclared_def service_registered recordDriftIssue_issues eventKey_def
      split: option.split)

lemma issues_onService:
  assumes "\<And>v. sv_issues (f v) = sv_issues v"
  shows "issuesAt (onService name f s) n = issuesAt s n"
  using assms by (simp add: issuesAt_def serviceAt_def onService_def goIndex_map_entry)

lemma issues_other [simp]:
  "issuesAt (onTopic t g s) n = issuesAt s n" "issuesAt (ensureTopic t s) n = issuesAt s n"
  "issuesAt (ensureService name s) n = issuesAt s n" "issuesAt (s\<lparr>st_reads := r\<rparr>) n = issuesAt s n"
  "issuesAt (recordSpan e s) n = issuesAt s n"
  by (simp_all add: issuesAt_def serviceAt_ensure)

lemma countStage_issues: "issuesAt (countStage rnd e s) n = issuesAt s n"
  by (rule countStage_eq [of rnd e s]) simp

lemma handlerStage_issues:
  "issuesAt (handlerStage sum256 e s) n =
    (if n \<noteq> '''' \<and> n = te_Service e \<and> undeclared (contractOf s n) rg_requestsKnown rg_requests e
     then withDrift sum256 n e (issuesAt s n) else issuesAt s n)"
proof (cases "te_Service e = ''''")
  case True
  then show ?thesis by (auto simp: handlerStage_def)
next
  case False
  then show ?thesis
    by (rule handlerStage_eq [of e sum256 s])
      (use False in \<open>auto simp: checkHandlerDrift_issues issues_onService contract_onService\<close>)
qed

lemma callerStage_issues:
  "issuesAt (callerStage sum256 e s) n =
    (if callerIs s e n \<and> undeclared (contractOf s n) rg_producesKnown rg_produces e
     then withDrift sum256 n e (issuesAt s n) else issuesAt s n)"
  by (auto simp: callerStage_def callerIs_def checkSenderDrift_issues split: option.split)

lemma addEvent_issues:
  "issuesAt (addEvent rnd sum256 e s) n =
    (if flagged s e n then withDrift sum256 n e (issuesAt s n) else issuesAt s n)"
proof -
  let ?s1 = "countStage rnd e (recordSpan e s)" and ?s2 = "handlerStage sum256 e (countStage rnd e (recordSpan e s))"
  have c: "contractOf ?s1 n = contractOf s n" "contractOf ?s2 n = contractOf s n"
    using recordSpan_graph [of s e] countStage_graph [of "recordSpan e s" rnd e] handlerStage_graph [of ?s1 sum256 e]
    by (simp_all add: sameGraph_def)
  have "st_spanService ?s2 = st_spanService (recordSpan e s)"
    using countStage_ring [of "recordSpan e s" rnd e] handlerStage_ring [of ?s1 sum256 e] by (simp add: sameRing_def)
  then have "callerIs ?s2 e n = callerIs (recordSpan e s) e n" by (simp add: callerIs_def)
  then show ?thesis
    unfolding addEvent_def callerStage_issues handlerStage_issues countStage_issues c flagged_def
    by (auto simp: callerIs_def)
qed

section \<open>Counting failures\<close>

definition issueCount :: "store \<Rightarrow> string \<Rightarrow> string \<Rightarrow> 64 word" where
  "issueCount s service f = iss_count (goIndex (issuesAt s service) f zeroIssueState)"

lemma driftOccurrence_count [simp]: "iss_count (driftOccurrence e m) = iss_count m + 1"
  by (simp add: driftOccurrence_def Let_def)

lemma last_storeExemplars: "last (storeExemplars xs [t]) = t"
  by (simp add: storeExemplars_def Let_def)

lemma driftOccurrence_fields:
  "iss_classification (driftOccurrence e m) = ClassificationContractDrift" "iss_topic (driftOccurrence e m) = te_Topic e"
  "iss_version (driftOccurrence e m) = te_TopicVersion e" "iss_status (driftOccurrence e m) = te_Status e"
  "te_StartedAt e \<le> iss_lastSeen (driftOccurrence e m)"
  "te_TraceID e = '''' \<or> last (iss_exemplarTraceIds (driftOccurrence e m)) = te_TraceID e"
  by (simp_all add: driftOccurrence_def Let_def last_storeExemplars)

lemma mergeIssue_count [simp]: "iss_count (mergeIssue order i m) = iss_count m + is_Count i"
  by (simp add: mergeIssue_def)

lemma addEvent_count:
  assumes "driftFingerprint sum256 n e \<noteq> f"
  shows "issueCount (addEvent rnd sum256 e s) n f = issueCount s n f"
  using assms by (simp add: issueCount_def addEvent_issues withDrift_def)

lemma addEvents_count:
  assumes "\<forall>e \<in> set es. driftFingerprint sum256 n e \<noteq> f"
  shows "issueCount (snd (addEvents rnd sum256 es s)) n f = issueCount s n f"
  using assms
proof (induction es arbitrary: s)
  case (Cons e es)
  then show ?case using addEvent_count [of sum256 n e f rnd s] by (simp add: addEvents_def)
qed (simp add: addEvents_def)

lemma fold_addIssue_count:
  assumes "f \<noteq> ''''"
  shows "iss_count (goIndex (sv_issues (fold (addIssue order) issues v)) f zeroIssueState) =
    iss_count (goIndex (sv_issues v) f zeroIssueState) +
    sum_list (map is_Count (filter (\<lambda>i. is_Fingerprint i = f) issues))"
  using assms by (induction issues arbitrary: v) (auto simp: addIssue_def)

lemma addIssues_count:
  assumes "f \<noteq> ''''"
  shows "issueCount (snd (addIssues order batch s)) n f =
    issueCount s n f + (if ib_Service batch = n then deltaOf f batch else 0)"
proof -
  have "issueCount (snd (addIssues order batch s)) n f = iss_count (goIndex (sv_issues
      (if n = ib_Service batch then fold (addIssue order) (ib_Issues batch)
          ((serviceAt s n)\<lparr>sv_lastSeen := st_now (ensureService (ib_Service batch) s)
            (st_reads (ensureService (ib_Service batch) s)), sv_issuesFeedSeen := True\<rparr>)
        else serviceAt s n)) f zeroIssueState)"
    by (simp add: issueCount_def issuesAt_def addIssues_def readNow_def serviceAt_written serviceAt_ensure)
  then show ?thesis
    using assms by (simp add: fold_addIssue_count deltaOf_def issueCount_def issuesAt_def)
qed

lemma issues_registered:
  "issuesAt (fold (addConsumer service) ts s) n = issuesAt s n"
  "issuesAt (fold (addProvider service) ts s) n = issuesAt s n"
  by (simp_all add: issuesAt_def)

fun batchIn :: "string \<Rightarrow> storeOp \<Rightarrow> issueBatch list" where
  "batchIn n (Reports batch) = (if ib_Service batch = n then [batch] else [])"
| "batchIn n _ = []"

definition delivered :: "string \<Rightarrow> storeOp list \<Rightarrow> issueBatch list" where
  "delivered n ops = concat (map (batchIn n) ops)"

lemma storeDo_count:
  assumes "f \<noteq> ''''" and "\<forall>e \<in> set (eventsIn op). driftFingerprint sum256 n e \<noteq> f"
  shows "issueCount (storeDo rnd sum256 order op s) n f = issueCount s n f + sum_list (map (deltaOf f) (batchIn n op))"
proof (cases op)
  case (Registers service reg)
  then show ?thesis
    by (simp add: issueCount_def registerService_def readNow_split Let_def issues_registered issues_onService)
      (simp add: issuesAt_def)
next
  case (Beats hb)
  then show ?thesis by (simp add: issueCount_def recordHeartbeat_def readNow_split Let_def issues_onService)
next
  case (Traces es)
  then show ?thesis using assms(2) addEvents_count by simp
next
  case (Reports batch)
  then show ?thesis using addIssues_count [OF assms(1)] by simp
qed (simp add: issueCount_def readNow_def)

lemma storeRun_count:
  assumes "f \<noteq> ''''" and "\<forall>e \<in> set (ingested ops). driftFingerprint sum256 n e \<noteq> f"
  shows "issueCount (storeRun rnd sum256 order ops s) n f = issueCount s n f + sum_list (map (deltaOf f) (delivered n ops))"
  using assms(2)
proof (induction ops arbitrary: s)
  case (Cons op ops)
  then show ?case
    using storeDo_count [OF assms(1), of op sum256 n rnd order s]
    by (simp add: storeRun_def ingested_def delivered_def ball_Un algebra_simps)
qed (simp add: storeRun_def delivered_def)

section \<open>Properties\<close>

text \<open>C24 (invariant). The graph the collector shows is the contracts it was last given, whatever else it
  was sent: after every sequence of registrations, heartbeats, trace batches, issue batches and fleet
  queries, the providers and the consumers of a topic are exactly the services whose latest registration
  claims to produce and to serve it, every such edge has one entry in the activity report, and a topic
  the query does not know has neither. Trace events add no edge and remove none.\<close>

theorem declared_graph_is_latest_contracts:
  fixes ops :: "storeOp list" and i version :: string and capacity :: nat and now :: "nat \<Rightarrow> int"
    and rnd :: "real \<Rightarrow> real" and sum256 :: "string \<Rightarrow> string" and order :: errorOrder
  defines "s \<equiv> storeRun rnd sum256 order ops (newStore capacity now)"
    and "contracts \<equiv> (\<lambda>name. latestContract ops name None)" and "key \<equiv> Topic i version"
  shows "(case topicQuery ratio i version s of
      None \<Rightarrow> claimants contracts rg_produces key = {} \<and> claimants contracts rg_requests key = {}
    | Some view \<Rightarrow> set (ts_Providers view) = claimants contracts rg_produces key \<and>
        set (ts_Consumers view) = claimants contracts rg_requests key \<and>
        fst ` set (ts_ProviderActivity view) = set (ts_Providers view) \<and>
        fst ` set (ts_ConsumerActivity view) = set (ts_Consumers view))"
proof -
  have g: "graphOk s" and c: "contractOf s = contracts"
    unfolding s_def contracts_def using storeRun_graph [OF graphOk_new] contractOf_new by (auto simp: fun_eq_iff)
  then have "set (tp_providers (topicAt s key)) = claimants contracts rg_produces key"
    "set (tp_consumers (topicAt s key)) = claimants contracts rg_requests key"
    by (simp_all add: graphOk_def edges_def)
  then show ?thesis
    by (cases "map_of (st_topics s) key")
      (auto simp: topicQuery_def key_def [symmetric] topicAt_def goIndex_def emptyTopic_def topicSummaryOf_def
        sortedKeys_def activityFor_def image_image)
qed

text \<open>C27 (refinement). The ring is a bounded queue: read from its cursor on, it holds exactly the last
  events the collector ingested, as many as its capacity, oldest first, whatever else happened in
  between; the flow a query returns is the events of its trace among those.\<close>

theorem ring_is_last_events:
  fixes ops :: "storeOp list" and traceID :: string and capacity :: nat and now :: "nat \<Rightarrow> int"
    and rnd :: "real \<Rightarrow> real" and sum256 :: "string \<Rightarrow> string" and order :: errorOrder
    and arrange :: "traceEvent list \<Rightarrow> traceEvent list"
  assumes "0 < capacity" and "\<And>events. mset (arrange events) = mset events"
  defines "s \<equiv> storeRun rnd sum256 order ops (newStore capacity now)"
  shows "rotate (st_next s) (st_ring s) = lastEvents capacity (ingested ops) \<and>
    (case traceQuery arrange traceID s of
       None \<Rightarrow> filter (\<lambda>e. te_TraceID e = traceID) (lastEvents capacity (ingested ops)) = []
     | Some view \<Rightarrow> mset (tv_Events view) = mset (filter (\<lambda>e. te_TraceID e = traceID)
         (lastEvents capacity (ingested ops))) \<and> sorted (map te_StartedAt (tv_Events view)))"
proof -
  have "ringOk (ingested ops) s"
    unfolding s_def using storeRun_ring [OF ringOk_new [OF assms(1)]] by simp
  moreover have "st_capacity s = capacity" unfolding s_def storeRun_capacity by (simp add: newStore_def)
  ultimately have w: "window s = lastEvents capacity (ingested ops)" by (simp add: ringOk_def)
  then have "mset (st_ring s) = mset (lastEvents capacity (ingested ops))"
    unfolding window_def rotate_drop_take by (metis add.commute append_take_drop_id mset_append)
  then have m: "mset (filter (\<lambda>e. te_TraceID e = traceID) (st_ring s)) =
      mset (filter (\<lambda>e. te_TraceID e = traceID) (lastEvents capacity (ingested ops)))" (is "mset ?F = mset ?G")
    by (simp only: mset_filter)
  then have "?F = [] \<longleftrightarrow> ?G = []" by (metis mset_zero_iff)
  moreover have "rotate (st_next s) (st_ring s) = lastEvents capacity (ingested ops)" using w by (simp add: window_def)
  ultimately show ?thesis
    using m assms(2) by (simp add: traceQuery_def Let_def)
qed

definition aTrace :: "string \<Rightarrow> traceEvent" where
  "aTrace i = \<lparr>te_TraceID = ''t'', te_SpanID = i, te_ParentSpanID = '''', te_Service = ''orders'',
     te_InstanceID = '''', te_Topic = ''order:place'', te_TopicVersion = '''', te_Status = ''ok'',
     te_DurationMs = 0, te_StartedAt = 1, te_CorrelationID = ''''\<rparr>"

theorem ring_is_last_events_witness:
  "rotate (st_next (storeRun (\<lambda>x. x) (\<lambda>x. x) (\<lambda>m. m) [Traces [aTrace ''a'', aTrace ''b''], Renders, Traces [aTrace ''c'']]
      (newStore 2 (\<lambda>n. 0))))
    (st_ring (storeRun (\<lambda>x. x) (\<lambda>x. x) (\<lambda>m. m) [Traces [aTrace ''a'', aTrace ''b''], Renders, Traces [aTrace ''c'']]
      (newStore 2 (\<lambda>n. 0)))) = [aTrace ''b'', aTrace ''c'']"
proof -
  let ?ops = "[Traces [aTrace ''a'', aTrace ''b''], Renders, Traces [aTrace ''c'']]"
  let ?s = "storeRun (\<lambda>x. x) (\<lambda>x. x) (\<lambda>m. m) ?ops (newStore 2 (\<lambda>n. 0))"
  have "rotate (st_next ?s) (st_ring ?s) = lastEvents 2 (ingested ?ops)"
    by (rule ring_is_last_events [where arrange = rev, THEN conjunct1]) simp_all
  then show ?thesis by (simp add: ingested_def lastEvents_def)
qed

text \<open>Nothing ingested is lost from the statistics, however small the ring: after every
  sequence of operations the invocations, the failures and each status count of a topic are, in 64-bit
  arithmetic, the numbers of ingested events of that topic, that failed, and of that status; those of a
  service are the numbers of events it handled, and that failed.\<close>

theorem statistics_count_every_event:
  fixes ops :: "storeOp list" and key :: topic and name :: string and capacity :: nat and now :: "nat \<Rightarrow> int"
    and rnd :: "real \<Rightarrow> real" and sum256 :: "string \<Rightarrow> string" and order :: errorOrder
  assumes "name \<noteq> ''''"
  defines "s \<equiv> storeRun rnd sum256 order ops (newStore capacity now)"
    and "events \<equiv> ingested ops"
  shows "tp_invocations (topicAt s key) = of_nat (length (filter (\<lambda>e. eventKey e = key) events)) \<and>
    tp_errors (topicAt s key) = of_nat (length (filter (\<lambda>e. eventKey e = key \<and> IsFailure (te_Status e)) events)) \<and>
    goIndex (tp_statusCounts (topicAt s key)) status 0 =
      of_nat (length (filter (\<lambda>e. eventKey e = key \<and> te_Status e = status) events)) \<and>
    sv_invocations (serviceAt s name) = of_nat (length (filter (\<lambda>e. te_Service e = name) events)) \<and>
    sv_errors (serviceAt s name) =
      of_nat (length (filter (\<lambda>e. te_Service e = name \<and> IsFailure (te_Status e)) events))"
proof -
  have "statsOk events s"
    unfolding s_def events_def using storeRun_stats [OF statsOk_new] by simp
  then show ?thesis
    using assms(1) by (simp add: statsOk_def topicStats_def serviceStats_def counts_def onTopicKey_def [abs_def]
        failedEvent_def eventKey_def)
qed

theorem statistics_count_every_event_witness:
  "tp_invocations (topicAt (storeRun (\<lambda>x. x) (\<lambda>x. x) (\<lambda>m. m) [Traces [aTrace ''a'', aTrace ''b''], Traces [aTrace ''c'']]
      (newStore 1 (\<lambda>n. 0))) (Topic ''order:place'' '''')) = 3"
  using statistics_count_every_event [of "''orders''" "\<lambda>x. x" "\<lambda>x. x" "\<lambda>m. m"
      "[Traces [aTrace ''a'', aTrace ''b''], Traces [aTrace ''c'']]" 1 "\<lambda>n. 0" "Topic ''order:place'' ''''" "''ok''"]
  by (simp add: ingested_def eventKey_def aTrace_def)

text \<open>Callers are resolved exactly: as long as no two ingested events carry the same span
  id, the span owners the collector remembers are those of the events in the ring and no others, whatever
  the ring has evicted.\<close>

theorem span_owners_match_ring:
  fixes ops :: "storeOp list" and x v :: string and capacity :: nat and now :: "nat \<Rightarrow> int"
    and rnd :: "real \<Rightarrow> real" and sum256 :: "string \<Rightarrow> string" and order :: errorOrder
  assumes "0 < capacity" and "distinct (filter (\<lambda>i. i \<noteq> '''') (map te_SpanID (ingested ops)))"
  defines "s \<equiv> storeRun rnd sum256 order ops (newStore capacity now)"
  shows "map_of (st_spanService s) x = Some v \<longleftrightarrow>
    x \<noteq> '''' \<and> v \<noteq> '''' \<and> (\<exists>e \<in> set (st_ring s). te_SpanID e = x \<and> te_Service e = v)"
proof -
  have "ownersOk (ingested ops) s"
    unfolding s_def using storeRun_owners [OF ownersOk_new [OF assms(1)]] by simp
  with assms(2) show ?thesis by (simp add: ownersOk_def spansOk_def ownsSpan_def spanIDs_def)
qed

theorem span_owners_match_ring_witness:
  "map_of (st_spanService (storeRun (\<lambda>x. x) (\<lambda>x. x) (\<lambda>m. m) [Traces [aTrace ''a''], Traces [aTrace ''b'']]
      (newStore 1 (\<lambda>n. 0)))) ''b'' = Some ''orders''"
proof -
  have "st_ring (storeRun (\<lambda>x. x) (\<lambda>x. x) (\<lambda>m. m) [Traces [aTrace ''a''], Traces [aTrace ''b'']] (newStore 1 (\<lambda>n. 0))) =
      [aTrace ''b'']"
    by code_simp
  then show ?thesis
    using span_owners_match_ring [of 1 "[Traces [aTrace ''a''], Traces [aTrace ''b'']]" "\<lambda>x. x" "\<lambda>x. x" "\<lambda>m. m"
        "\<lambda>n. 0" "''b''" "''orders''"] by (simp add: ingested_def aTrace_def)
qed

text \<open>C26 (safety). A drift is filed against a service exactly when it is one: one more event after any
  sequence of operations flags a service exactly if the topic is not reserved and either the service
  handled the event and its latest registration knows its requests and lists no such topic, or another
  service handled it, the event's parent span is that of an event this service handled, among the last
  ones ingested that the ring can hold, and its latest registration knows what it produces and lists no such topic. A
  service that never registered and a claim its document left open are never flagged. A flagged
  service's issue of the drift's fingerprint, that of class contract-drift, the event's topic, version and
  status, then counts one occurrence more (64 bits wide), with the event's start not after its last
  seen and its trace as the newest exemplar; every other issue of it, and all issues of a service not
  flagged, stay as they were. This is for a stream in which no span id occurs twice: a batch delivered
  twice can make the collector forget whose span it is.\<close>

theorem drift_filed_exactly_when_undeclared:
  fixes ops :: "storeOp list" and e :: traceEvent and n :: string and capacity :: nat and now :: "nat \<Rightarrow> int"
    and rnd :: "real \<Rightarrow> real" and sum256 :: "string \<Rightarrow> string" and order :: errorOrder
  assumes "0 < capacity" and "distinct (filter (\<lambda>i. i \<noteq> '''') (map te_SpanID (ingested ops @ [e])))"
  defines "before \<equiv> sv_issues (serviceAt (storeRun rnd sum256 order ops (newStore capacity now)) n)"
    and "after \<equiv> sv_issues (serviceAt (storeRun rnd sum256 order (ops @ [Traces [e]]) (newStore capacity now)) n)"
    and "fingerprint \<equiv> IssueFingerprint sum256 n (te_Topic e) (te_TopicVersion e) ClassificationContractDrift (te_Status e)"
  shows "if n \<noteq> '''' \<and> \<not> IsReserved (te_Topic e) \<and>
        (case latestContract ops n None of
           None \<Rightarrow> False
         | Some reg \<Rightarrow>
             (if n = te_Service e
              then rg_requestsKnown reg \<and> Topic (te_Topic e) (te_TopicVersion e) \<notin> set (rg_requests reg)
              else te_ParentSpanID e \<noteq> '''' \<and>
                (\<exists>c \<in> set (lastEvents capacity (ingested ops @ [e])).
                   te_SpanID c = te_ParentSpanID e \<and> te_Service c = n) \<and>
                rg_producesKnown reg \<and> Topic (te_Topic e) (te_TopicVersion e) \<notin> set (rg_produces reg)))
     then (\<exists>i. map_of after fingerprint = Some i \<and>
         iss_count i = (case map_of before fingerprint of None \<Rightarrow> 0 | Some j \<Rightarrow> iss_count j) + 1 \<and>
         iss_classification i = ClassificationContractDrift \<and> iss_topic i = te_Topic e \<and>
         iss_version i = te_TopicVersion e \<and> iss_status i = te_Status e \<and> te_StartedAt e \<le> iss_lastSeen i \<and>
         (te_TraceID e = '''' \<or> last (iss_exemplarTraceIds i) = te_TraceID e)) \<and>
       (\<forall>g. g = fingerprint \<or> map_of after g = map_of before g)
     else after = before"
proof -
  let ?s = "storeRun rnd sum256 order ops (newStore capacity now)"
  let ?s' = "addEvent rnd sum256 e ?s"
  have run: "storeRun rnd sum256 order (ops @ [Traces [e]]) (newStore capacity now) = ?s'"
    by (simp add: storeRun_def addEvents_def)
  have contract: "contractOf ?s n = latestContract ops n None"
    using storeRun_graph [OF graphOk_new] by auto
  have "ownersOk (ingested ops @ [e]) ?s'"
    using addEvent_owners storeRun_owners [OF ownersOk_new [OF assms(1)]] by fastforce
  moreover have "st_capacity ?s' = capacity"
    using storeRun_capacity [of rnd sum256 order "ops @ [Traces [e]]" "newStore capacity now"] unfolding run by (simp add: newStore_def)
  ultimately have ring: "ringOk (ingested ops @ [e]) ?s'" "window ?s' = lastEvents capacity (ingested ops @ [e])"
    and spans: "spansOk ?s'"
    using assms(2) by (auto simp: ownersOk_def ringOk_def spanIDs_def)
  have "st_spanService ?s' = st_spanService (recordSpan e ?s)"
    using addEvent_ring [of e ?s rnd sum256] by (simp add: sameRing_def)
  moreover have "set (st_ring ?s') = set (lastEvents capacity (ingested ops @ [e]))"
    unfolding ring(2) [symmetric] window_def by simp
  ultimately have caller: "callerIs (recordSpan e ?s) e n \<longleftrightarrow> te_ParentSpanID e \<noteq> '''' \<and> n \<noteq> '''' \<and> n \<noteq> te_Service e \<and>
      (\<exists>c \<in> set (lastEvents capacity (ingested ops @ [e])). te_SpanID c = te_ParentSpanID e \<and> te_Service c = n)"
    using spans unfolding callerIs_def spansOk_def ownsSpan_def by auto
  have after: "after = (if flagged ?s e n then withDrift sum256 n e before else before)"
    using addEvent_issues [of rnd sum256 e ?s n] by (simp add: after_def before_def issuesAt_def run)
  show ?thesis
  proof (cases "flagged ?s e n")
    case True
    then have "after = AList.update fingerprint (driftOccurrence e (goIndex before fingerprint zeroIssueState)) before"
      using after by (simp add: withDrift_def driftFingerprint_def fingerprint_def)
    then show ?thesis
      using True driftOccurrence_fields [of e "goIndex before fingerprint zeroIssueState"]
      unfolding flagged_def contract caller undeclared_def eventKey_def
      by (auto simp: goIndex_def zeroIssueState_def split: option.splits)
  next
    case False
    then show ?thesis
      using after unfolding flagged_def contract caller undeclared_def eventKey_def
      by (auto split: option.split)
  qed
qed

text \<open>An event of a child span, after one of its parent: the parent's service, which declared that it
  sends nothing, is flagged.\<close>

definition aContract :: registration where
  "aContract = \<lparr>rg_raw = '''', rg_serviceVersion = '''', rg_runtime = '''', rg_placement = None, rg_transports = [],
     rg_registrationHash = '''', rg_requests = [], rg_produces = [], rg_requestsKnown = False, rg_producesKnown = True\<rparr>"

theorem drift_filed_exactly_when_undeclared_witness:
  "\<exists>i. map_of (sv_issues (serviceAt (storeRun (\<lambda>x. x) (\<lambda>x. x) (\<lambda>m. m)
      ([Registers ''orders'' aContract, Traces [aTrace ''a'']] @
       [Traces [(aTrace ''b'')\<lparr>te_ParentSpanID := ''a'', te_Service := ''billing''\<rparr>]]) (newStore 2 (\<lambda>n. 0))) ''orders''))
    (IssueFingerprint (\<lambda>x. x) ''orders'' ''order:place'' '''' ClassificationContractDrift ''ok'') = Some i \<and>
    iss_count i = 1"
proof -
  let ?ops = "[Registers ''orders'' aContract, Traces [aTrace ''a'']]"
  let ?e = "(aTrace ''b'')\<lparr>te_ParentSpanID := ''a'', te_Service := ''billing''\<rparr>"
  have ing: "ingested ?ops = [aTrace ''a'']" by (simp add: ingested_def)
  have distinct: "distinct (filter (\<lambda>i. i \<noteq> '''') (map te_SpanID (ingested ?ops @ [?e])))"
    unfolding ing by (simp add: aTrace_def)
  have contract: "latestContract ?ops ''orders'' None = Some aContract" by simp
  have open_topic: "\<not> IsReserved (te_Topic ?e)" by code_simp
  have caller: "\<exists>c \<in> set (lastEvents 2 (ingested ?ops @ [?e])). te_SpanID c = te_ParentSpanID ?e \<and> te_Service c = ''orders''"
    unfolding ing by (simp add: lastEvents_def aTrace_def)
  have new: "map_of (sv_issues (serviceAt (storeRun (\<lambda>x. x) (\<lambda>x. x) (\<lambda>m. m) ?ops (newStore 2 (\<lambda>n. 0))) ''orders'')) f = None" for f
    by (simp add: storeRun_def) code_simp
  from drift_filed_exactly_when_undeclared [OF _ distinct, of 2 "''orders''" "\<lambda>x. x" "\<lambda>x. x" "\<lambda>m. m" "\<lambda>n. 0"]
  show ?thesis using open_topic caller unfolding contract new
    by (auto simp: aTrace_def aContract_def)
qed

text \<open>C25 (functional). Every failure is counted once from end to end: when the batches an issue exporter sent
  reach the collector once each, in any order and among whatever else the fleet sends, the collector's
  total of a fingerprint and what the exporter has still to send add up to the number of recorded failures
  with that fingerprint, in 64-bit arithmetic, provided no drift the collector files itself has the same
  fingerprint.\<close>

theorem failures_counted_end_to_end:
  fixes ops :: "storeOp list" and acts :: "issueAct list" and service f :: string and capacity :: nat
    and now :: "nat \<Rightarrow> int" and rnd :: "real \<Rightarrow> real" and sum256 :: "string \<Rightarrow> string" and order :: errorOrder
  assumes "NewPushIssueExporter isNil service interval = Some e"
    and "fold (issueDo sum256) acts (Some e) = Some e'"
    and "mset (delivered service ops) = mset (ix_sent e')"
    and "f \<noteq> ''''" and "\<forall>ev \<in> set (ingested ops). driftFingerprint sum256 service ev \<noteq> f"
  shows "issueCount (storeRun rnd sum256 order ops (newStore capacity now)) service f + pendingOf f e' =
    of_nat (occurrencesOf sum256 f acts)"
proof -
  have new: "ix_pending e = []" "ix_sent e = []"
    using assms(1) by (auto simp: NewPushIssueExporter_def split: if_splits)
  then have c: "counted f e' = of_nat (occurrencesOf sum256 f acts)"
    using issueRun_counted [of e sum256 acts] assms(2) by (auto simp: counted_def pendingOf_def)
  have "issueCount (newStore capacity now) service f = 0"
    by (simp add: issueCount_def issuesAt_def serviceAt_def newStore_def goIndex_def emptyService_def zeroIssueState_def)
  then have "issueCount (storeRun rnd sum256 order ops (newStore capacity now)) service f =
      sum_list (map (deltaOf f) (delivered service ops))"
    using storeRun_count [OF assms(4,5), of rnd order "newStore capacity now"] by simp
  also have "\<dots> = sum_mset (image_mset (deltaOf f) (mset (delivered service ops)))"
    by (simp add: sum_mset_sum_list flip: mset_map)
  also have "\<dots> = sum_list (map (deltaOf f) (ix_sent e'))"
    unfolding assms(3) by (simp add: sum_mset_sum_list flip: mset_map)
  finally show ?thesis using c by (simp add: counted_def)
qed

definition aFailure :: "string \<Rightarrow> issueOccurrence" where
  "aFailure status = \<lparr>io_Service = ''orders'', io_Topic = ''order:place'', io_Version = '''', io_Status = status,
     io_ExceptionType = '''', io_TraceID = ''t'', io_At = 7, io_Errors = []\<rparr>"

text \<open>A stand-in for the hash that tells the two statuses of the example apart.\<close>

definition shortSum :: "string \<Rightarrow> string" where "shortSum s = drop (length s - 4) s"

definition exampleActs :: "issueAct list" where
  "exampleActs = [Records (aFailure ''timeout''), Flushes, Records (aFailure ''not-found''), Records (aFailure ''timeout''), Stops]"

definition exampleExporter :: "issueExporter option" where
  "exampleExporter = fold (issueDo shortSum) exampleActs (NewPushIssueExporter False ''orders'' 0)"

lemma delivered_reports:
  "\<forall>b \<in> set bs. ib_Service b = n \<Longrightarrow> delivered n (map Reports bs) = bs"
  by (induction bs) (simp_all add: delivered_def)

theorem failures_counted_end_to_end_witness:
  "issueCount (storeRun (\<lambda>x. x) shortSum (\<lambda>m. m) (Renders # map Reports (ix_sent (the exampleExporter)))
     (newStore 2 (\<lambda>n. 5))) ''orders'' (occurrenceKey shortSum (aFailure ''timeout'')) = 2"
proof -
  let ?f = "occurrenceKey shortSum (aFailure ''timeout'')" and ?sent = "ix_sent (the exampleExporter)"
  obtain e where e: "NewPushIssueExporter False ''orders'' 0 = Some e" by (simp add: NewPushIssueExporter_def)
  have "\<exists>x. exampleExporter = Some x" unfolding exampleExporter_def e
    using issueRun_counted [of e shortSum exampleActs] e by (auto simp: NewPushIssueExporter_def)
  then have run: "fold (issueDo shortSum) exampleActs (Some e) = Some (the exampleExporter)"
    by (auto simp: exampleExporter_def e)
  have "list_all (\<lambda>b. ib_Service b = ''orders'') ?sent" by code_simp
  then have d: "delivered ''orders'' (Renders # map Reports ?sent) = ?sent"
    using delivered_reports [of ?sent "''orders''"] by (simp add: delivered_def list_all_iff)
  have p: "ix_pending (the exampleExporter) = []" by code_simp
  have ne: "?f \<noteq> ''''" by code_simp
  have two: "occurrencesOf shortSum ?f exampleActs = 2" by code_simp
  have none: "\<forall>ev \<in> set (ingested (Renders # map Reports ?sent)). driftFingerprint shortSum ''orders'' ev \<noteq> ?f"
    by (simp add: ingested_def)
  have "mset (delivered ''orders'' (Renders # map Reports ?sent)) = mset ?sent" by (simp only: d)
  from failures_counted_end_to_end [OF e run this ne none] show ?thesis
    unfolding two by (simp add: pendingOf_def p)
qed

section \<open>Flows\<close>

lemma byTrace_groups:
  "goMap (byTrace events) \<and>
   map_of (byTrace events) t = (let group = filter (\<lambda>e. te_TraceID e = t) events in if group = [] then None else Some group)"
proof (induction events arbitrary: t rule: rev_induct)
  case (snoc e events)
  from snoc [of "te_TraceID e"] have "goIndex (byTrace events) (te_TraceID e) [] =
      filter (\<lambda>x. te_TraceID x = te_TraceID e) events"
    by (auto simp: goIndex_def Let_def)
  then show ?case using snoc [of t] by (auto simp: byTrace_def Let_def)
qed (simp add: byTrace_def)

lemma fold_earliest:
  "fold (\<lambda>e t. if g e < t then g e else t) es (t :: int) = Min (insert t (g ` set es))"
proof (induction es arbitrary: t)
  case (Cons e es)
  have "Min (insert t (insert (g e) (g ` set es))) = min (g e) (Min (insert t (g ` set es)))"
    by (simp add: insert_commute [of t] Min_insert)
  moreover have "Min (insert (g e) (g ` set es)) = min (g e) (Min (insert (g e) (g ` set es)))" by simp
  ultimately show ?case using Cons [of "g e"] Cons [of t]
    by (cases "es = []") (auto simp: min_def Min_insert2)
qed simp

lemma flowStatus_spec:
  assumes "events \<noteq> []"
  shows "flowStatus events \<in> te_Status ` set events \<and>
    (IsFailure (flowStatus events) \<longleftrightarrow> list_ex (\<lambda>e. IsFailure (te_Status e)) events)"
proof (cases "find (\<lambda>e. IsFailure (te_Status e)) (sort_key te_StartedAt events)")
  case None
  then have "\<not> list_ex (\<lambda>e. IsFailure (te_Status e)) events" by (simp add: find_None_iff list_ex_iff)
  moreover have "hd (sort_key te_StartedAt events) \<in> set events"
    using assms by (metis hd_in_set set_empty set_sort)
  ultimately show ?thesis using None by (auto simp: flowStatus_def Let_def list_ex_iff)
next
  case (Some e)
  then have "e \<in> set events" "IsFailure (te_Status e)" by (auto simp: find_Some_iff dest: nth_mem)
      (metis nth_mem set_sort length_sort)
  then show ?thesis using Some by (auto simp: flowStatus_def Let_def list_ex_iff)
qed

text \<open>What a summary says of the events of its trace.\<close>

definition summarises :: "traceEvent list \<Rightarrow> traceSummary \<Rightarrow> bool" where
  "summarises events summary \<longleftrightarrow> events \<noteq> [] \<and> tr_Events summary = length events \<and>
    tr_StartedAt summary = Min (te_StartedAt ` set events) \<and>
    tr_Failed summary = (\<exists>e \<in> set events. IsFailure (te_Status e)) \<and>
    tr_Status summary \<in> te_Status ` set events \<and> IsFailure (tr_Status summary) = tr_Failed summary"

lemma traceSummaryOf_summarises:
  assumes "events \<noteq> []"
  shows "summarises events (traceSummaryOf nanos millis (t, events))"
proof -
  have "Min (insert (te_StartedAt (hd events)) (te_StartedAt ` set events)) = Min (te_StartedAt ` set events)"
    using assms by (simp add: insert_absorb)
  then show ?thesis
    using flowStatus_spec [OF assms] assms
    by (simp add: summarises_def traceSummaryOf_def Let_def fold_earliest list_ex_iff)
qed

text \<open>The recent flows: the list has at most as many entries as its limit, the newest first,
  one per trace in the ring, and a trace is left out only when the list is full of flows that started no
  earlier; each entry counts the events of its trace, starts with the earliest of them, and has the status
  of one of them, a failing one exactly when one failed, in whatever order the map of traces is visited.\<close>

theorem flow_summaries_exact:
  fixes s :: store and limit :: nat and arrange :: "traceSummary list \<Rightarrow> traceSummary list"
    and nanos :: "real \<Rightarrow> int" and millis :: "int \<Rightarrow> real"
  assumes "\<And>xs. mset (arrange xs) = mset xs"
  defines "flows \<equiv> traceSummaries nanos millis arrange limit s"
  shows "length flows \<le> limit \<and> sorted_wrt (\<ge>) (map tr_StartedAt flows) \<and> distinct (map tr_TraceID flows) \<and>
    (\<forall>flow \<in> set flows. summarises (filter (\<lambda>e. te_TraceID e = tr_TraceID flow) (st_ring s)) flow) \<and>
    (\<forall>e \<in> set (st_ring s). te_TraceID e \<in> tr_TraceID ` set flows \<or>
      (length flows = limit \<and> (\<forall>flow \<in> set flows.
        Min (te_StartedAt ` set (filter (\<lambda>x. te_TraceID x = te_TraceID e) (st_ring s))) \<le> tr_StartedAt flow)))"
proof -
  let ?groups = "byTrace (st_ring s)" and ?of = "traceSummaryOf nanos millis"
  define whole where "whole = sort_key (\<lambda>flow. - tr_StartedAt flow) (arrange (map ?of ?groups))"
  have flows: "flows = take limit whole"
    unfolding flows_def whole_def by (simp add: traceSummaries_def Let_def)
  have m: "mset whole = mset (map ?of ?groups)" unfolding whole_def by (simp add: assms(1))
  have trace: "tr_TraceID (?of g) = fst g" for g by (simp add: traceSummaryOf_def Let_def split: prod.split)
  have "map tr_TraceID (map ?of ?groups) = map fst ?groups" by (simp add: trace)
  moreover have "distinct (map fst ?groups)" using byTrace_groups goMap_def by blast
  moreover have "mset (map tr_TraceID whole) = mset (map tr_TraceID (map ?of ?groups))" using m by (metis mset_map)
  ultimately have dist: "distinct (map tr_TraceID whole)" by (metis mset_eq_imp_distinct_iff)
  have group: "group = filter (\<lambda>e. te_TraceID e = t) (st_ring s) \<and> group \<noteq> []" if "(t, group) \<in> set ?groups" for t group
    using that byTrace_groups [of "st_ring s" t] by (auto simp: goMap_def Let_def split: if_splits)
  have each: "summarises (filter (\<lambda>e. te_TraceID e = tr_TraceID flow) (st_ring s)) flow" if "flow \<in> set whole" for flow
  proof -
    have "flow \<in> set (map ?of ?groups)" using that m by (metis mset_eq_setD)
    then obtain t g where "(t, g) \<in> set ?groups" "flow = ?of (t, g)" by auto
    then show ?thesis using group traceSummaryOf_summarises by (auto simp: trace)
  qed
  have sorted: "sorted_wrt (\<ge>) (map tr_StartedAt whole)"
    unfolding whole_def using sorted_sort_key [of "\<lambda>flow. - tr_StartedAt flow"]
    by (simp add: sorted_wrt_map sorted_map)
  have "te_TraceID e \<in> tr_TraceID ` set flows \<or> (length flows = limit \<and> (\<forall>flow \<in> set flows.
      Min (te_StartedAt ` set (filter (\<lambda>x. te_TraceID x = te_TraceID e) (st_ring s))) \<le> tr_StartedAt flow))"
    if e: "e \<in> set (st_ring s)" for e
  proof -
    have "map_of ?groups (te_TraceID e) \<noteq> None" using e byTrace_groups [of "st_ring s" "te_TraceID e"]
      by (auto simp: Let_def filter_empty_conv)
    then obtain g where g: "(te_TraceID e, g) \<in> set ?groups" by (auto dest: map_of_SomeD)
    then have "?of (te_TraceID e, g) \<in> set whole" using m by (metis image_eqI mset_eq_setD set_map)
    then have "?of (te_TraceID e, g) \<in> set (take limit whole) \<or> ?of (te_TraceID e, g) \<in> set (drop limit whole)"
      by (metis UnE append_take_drop_id set_append)
    then show ?thesis
    proof
      assume "?of (te_TraceID e, g) \<in> set (take limit whole)"
      then show ?thesis using trace unfolding flows by (metis fst_conv image_eqI)
    next
      assume d: "?of (te_TraceID e, g) \<in> set (drop limit whole)"
      then have "length flows = limit" unfolding flows by (cases "limit \<le> length whole") auto
      moreover have "sorted_wrt (\<ge>) (map tr_StartedAt (take limit whole) @ map tr_StartedAt (drop limit whole))"
        using sorted by (simp flip: map_append)
      then have "\<forall>flow \<in> set flows. tr_StartedAt (?of (te_TraceID e, g)) \<le> tr_StartedAt flow"
        using d unfolding flows sorted_wrt_append by auto
      moreover have "summarises g (?of (te_TraceID e, g))" "g = filter (\<lambda>x. te_TraceID x = te_TraceID e) (st_ring s)"
        using group [OF g] traceSummaryOf_summarises by auto
      ultimately show ?thesis by (simp add: summarises_def)
    qed
  qed
  moreover have "sorted_wrt (\<ge>) (map tr_StartedAt flows)" unfolding flows using sorted by (simp flip: take_map add: sorted_wrt_take)
  moreover have "distinct (map tr_TraceID flows)" unfolding flows using dist by (simp flip: take_map add: distinct_take)
  moreover have "\<forall>flow \<in> set flows. flow \<in> set whole" unfolding flows by (blast dest: in_set_takeD)
  moreover have "length flows \<le> limit" unfolding flows by simp
  ultimately show ?thesis using each by blast
qed

theorem flow_summaries_exact_witness:
  "length (traceSummaries (\<lambda>r. 0) (\<lambda>i. 0) rev 20 (snd (addEvents (\<lambda>x. x) (\<lambda>x. x) [aTrace ''a'', aTrace ''b'']
     (newStore 4 (\<lambda>n. 0))))) \<le> 20"
  by (rule flow_summaries_exact [THEN conjunct1]) simp

section \<open>What the comments do not say\<close>

text \<open>
  A batch that is delivered twice carries its span ids twice: evicting the first copy makes the
  collector forget the owner of a span that is still in the ring.
\<close>

lemma duplicate_span_forgotten:
  "(let s = snd (addEvents (\<lambda>x. x) (\<lambda>x. x) [aTrace ''a'', aTrace ''a'', aTrace ''b''] (newStore 2 (\<lambda>n. 0))) in
    aTrace ''a'' \<in> set (st_ring s) \<and> map_of (st_spanService s) ''a'' = None)"
  by code_simp

text \<open>
  Once the ring has wrapped its order is no longer that of receipt, so between equal start times the
  status of a flow is that of the event received last.
\<close>

lemma wrapped_flow_status:
  "(let event = (\<lambda>i status. (aTrace i)\<lparr>te_Status := status\<rparr>);
        s = snd (addEvents (\<lambda>x. x) (\<lambda>x. x) [event ''a'' ''ok'', event ''b'' ''created'', event ''c'' ''accepted'']
          (newStore 2 (\<lambda>n. 0))) in
    flowStatus (st_ring s) = ''accepted'' \<and> map te_Status (rotate (st_next s) (st_ring s)) = [''created'', ''accepted''])"
  by code_simp

end
