(* ===== verification/Collector.thy ===== *)
theory Collector
  imports MeshGraph
begin

text \<open>
  The mesh collector as a service (\<^verbatim>\<open>meshd/meshd.go\<close>): a registry with one handler per
  \<^verbatim>\<open>benzene:mesh:*\<close> topic over the store of theory MeshStore, behind a pipeline that also serves the
  collector's own contract. The store is what lies outside the invocation. Decoding a request into its
  Go type is the argument \<open>reqtype\<close> of theory Registry, the derivation of a contract is an argument.
\<close>

section \<open>Topics of the wire (wire.go)\<close>

definition TopicRegister :: string where "TopicRegister = ''benzene:mesh:register''"
definition TopicHeartbeat :: string where "TopicHeartbeat = ''benzene:mesh:heartbeat''"
definition TopicTraces :: string where "TopicTraces = ''benzene:mesh:traces''"
definition TopicIssues :: string where "TopicIssues = ''benzene:mesh:issues''"
definition TopicQueryFleet :: string where "TopicQueryFleet = ''benzene:mesh:query:fleet''"
definition TopicQueryService :: string where "TopicQueryService = ''benzene:mesh:query:service''"
definition TopicQueryTopic :: string where "TopicQueryTopic = ''benzene:mesh:query:topic''"
definition TopicQueryTrace :: string where "TopicQueryTrace = ''benzene:mesh:query:trace''"

section \<open>Payloads and arguments\<close>

datatype collectorValue =
    Ack nat
  | FleetPayload fleetView
  | ServicePayload serviceView
  | TopicPayload topicSummary
  | TracePayload traceView

record topicQueryBody =
  tq_Topic :: string
  tq_Version :: string

text \<open>
  What the collector does not define itself: float arithmetic, the hash, the orders in which Go visits a
  map or leaves equal elements, and the decoding of the bodies.
\<close>

record collectorArgs =
  ca_rnd :: "real \<Rightarrow> real"
  ca_sum256 :: "string \<Rightarrow> string"
  ca_order :: errorOrder
  ca_ratio :: "real \<Rightarrow> 64 word \<Rightarrow> real"
  ca_nanos :: "real \<Rightarrow> int"
  ca_millis :: "int \<Rightarrow> real"
  ca_arrangeFlows :: "traceSummary list \<Rightarrow> traceSummary list"
  ca_arrangeEvents :: "traceEvent list \<Rightarrow> traceEvent list"
  ca_document :: "string \<Rightarrow> goerr + document"
  ca_raw :: "(collectorValue, string) reqtype"
  ca_heartbeat :: "(collectorValue, heartbeat) reqtype"
  ca_traces :: "(collectorValue, traceEvent list) reqtype"
  ca_issues :: "(collectorValue, issueBatch) reqtype"
  ca_serviceQuery :: "(collectorValue, string) reqtype"
  ca_topicQuery :: "(collectorValue, topicQueryBody) reqtype"
  ca_traceQuery :: "(collectorValue, string) reqtype"

type_synonym 'q collectorHandler = "('q, collectorValue, store) handler"

section \<open>Handlers\<close>

definition okWith :: "string \<Rightarrow> collectorValue \<Rightarrow> collectorValue result outcome" where
  "okWith typ payload = Return (Ok (Val typ payload))"

definition handleRegister :: "collectorArgs \<Rightarrow> string collectorHandler" where
  "handleRegister a c body s = (case ca_document a body of
      Inl err \<Rightarrow> (BadRequest [''the register body is not a contract document: '' @ errorText err], s)
    | Inr doc \<Rightarrow>
        if doc_Service doc = '''' then (BadRequest [''service is required''], s)
        else (okWith ''meshd.Ack'' (Ack 1),
          s\<lparr>env := registerService (doc_Service doc) (newRegistration doc body) (env s)\<rparr>))"

definition handleHeartbeat :: "heartbeat collectorHandler" where
  "handleHeartbeat c hb s =
    (if hb_Service hb = '''' then (BadRequest [''service is required''], s)
     else (okWith ''meshd.Ack'' (Ack 1), s\<lparr>env := recordHeartbeat hb (env s)\<rparr>))"

definition handleTraces :: "collectorArgs \<Rightarrow> traceEvent list collectorHandler" where
  "handleTraces a c events s = (case addEvents (ca_rnd a) (ca_sum256 a) events (env s) of
      (n, store) \<Rightarrow> (okWith ''meshd.Ack'' (Ack n), s\<lparr>env := store\<rparr>))"

definition handleIssues :: "collectorArgs \<Rightarrow> issueBatch collectorHandler" where
  "handleIssues a c batch s =
    (if ib_Service batch = '''' then (BadRequest [''service is required''], s)
     else (case addIssues (ca_order a) batch (env s) of
       (n, store) \<Rightarrow> (okWith ''meshd.Ack'' (Ack n), s\<lparr>env := store\<rparr>)))"

definition handleFleet :: "collectorArgs \<Rightarrow> string collectorHandler" where
  "handleFleet a c body s =
    (case fleet (ca_ratio a) (ca_nanos a) (ca_millis a) (ca_arrangeFlows a) (env s) of
      (view, store) \<Rightarrow> (okWith ''meshd.FleetView'' (FleetPayload view), s\<lparr>env := store\<rparr>))"

definition handleServiceQuery :: "string collectorHandler" where
  "handleServiceQuery c service s =
    (if service = '''' then (BadRequest [''service is required''], s)
     else (case serviceQuery service (env s) of
         None \<Rightarrow> (NotFound [''unknown service '' @ service], s)
       | Some view \<Rightarrow> (okWith ''meshd.ServiceView'' (ServicePayload view), s)))"

definition handleTopicQuery :: "collectorArgs \<Rightarrow> topicQueryBody collectorHandler" where
  "handleTopicQuery a c q s =
    (if tq_Topic q = '''' then (BadRequest [''topic is required''], s)
     else (case topicQuery (ca_ratio a) (tq_Topic q) (tq_Version q) (env s) of
         None \<Rightarrow> (NotFound [''unknown topic '' @ tq_Topic q], s)
       | Some view \<Rightarrow> (okWith ''meshd.TopicSummary'' (TopicPayload view), s)))"

definition handleTraceQuery :: "collectorArgs \<Rightarrow> string collectorHandler" where
  "handleTraceQuery a c traceID s =
    (if traceID = '''' then (BadRequest [''traceId is required''], s)
     else (case traceQuery (ca_arrangeEvents a) traceID (env s) of
         None \<Rightarrow> (NotFound [''unknown trace '' @ traceID], s)
       | Some view \<Rightarrow> (okWith ''meshd.TraceView'' (TracePayload view), s)))"

section \<open>The collector\<close>

definition mustRegister :: "goerr + 'h registry \<Rightarrow> 'h registry outcome" where
  "mustRegister m = (case m of Inl err \<Rightarrow> Panic (errorText err) | Inr r \<Rightarrow> Return r)"

text \<open>A registration that panics ends the rest.\<close>

definition thenRegister ::
  "'h registry outcome \<Rightarrow> ('h registry \<Rightarrow> goerr + 'h registry) \<Rightarrow> 'h registry outcome" where
  "thenRegister m k = (case m of Panic p \<Rightarrow> Panic p | Return r \<Rightarrow> mustRegister (k r))"

definition collectorRegistry ::
  "collectorArgs \<Rightarrow> (collectorValue, store) erasedHandler registry outcome" where
  "collectorRegistry a =
    thenRegister (thenRegister (thenRegister (thenRegister (thenRegister (thenRegister (thenRegister (thenRegister
      (Return NewRegistry)
      (\<lambda>r. Register r (NewTopic TopicRegister) (ca_raw a) ''meshd.Ack'' (handleRegister a) []))
      (\<lambda>r. Register r (NewTopic TopicHeartbeat) (ca_heartbeat a) ''meshd.Ack'' handleHeartbeat []))
      (\<lambda>r. Register r (NewTopic TopicTraces) (ca_traces a) ''meshd.Ack'' (handleTraces a) []))
      (\<lambda>r. Register r (NewTopic TopicIssues) (ca_issues a) ''meshd.Ack'' (handleIssues a) []))
      (\<lambda>r. Register r (NewTopic TopicQueryFleet) (ca_raw a) ''meshd.FleetView'' (handleFleet a) []))
      (\<lambda>r. Register r (NewTopic TopicQueryService) (ca_serviceQuery a) ''meshd.ServiceView'' handleServiceQuery []))
      (\<lambda>r. Register r (NewTopic TopicQueryTopic) (ca_topicQuery a) ''meshd.TopicSummary'' (handleTopicQuery a) []))
      (\<lambda>r. Register r (NewTopic TopicQueryTrace) (ca_traceQuery a) ''meshd.TraceView'' (handleTraceQuery a) [])"

record meshdOptions =
  MaxTraceEvents :: int
  optNow :: "(nat \<Rightarrow> int) option"

record meshdCollector =
  mc_store :: store
  mc_pipeline :: "(collectorValue, store) middleware list"

text \<open>
  \<open>derive\<close> is \<^verbatim>\<open>contract.Derive\<close> for the collector's registry; \<open>clock\<close> the default clock.
\<close>

definition New ::
  "collectorArgs \<Rightarrow> (nat \<Rightarrow> int) \<Rightarrow> ((collectorValue, store) erasedHandler registry \<Rightarrow> goerr + document) \<Rightarrow>
   (string \<Rightarrow> string) \<Rightarrow> (collectorValue any \<Rightarrow> specDynamic) \<Rightarrow> meshdOptions \<Rightarrow> meshdCollector outcome" where
  "New a systemClock derive jsonError typeOf options =
    (let capacity = (if MaxTraceEvents options \<le> 0 then 4096 else MaxTraceEvents options);
         now = (case optNow options of None \<Rightarrow> systemClock | Some f \<Rightarrow> f) in
     case collectorRegistry a of
       Panic p \<Rightarrow> Panic p
     | Return registry \<Rightarrow> (case derive registry of
         Inl err \<Rightarrow> Panic (errorText err)
       | Inr doc \<Rightarrow> (case SpecMiddleware jsonError typeOf (Inr (jprint (documentJson doc))) [] of
           Panic p \<Rightarrow> Panic p
         | Return spec \<Rightarrow> Return \<lparr>mc_store = newStore (nat capacity) now,
             mc_pipeline = NewPipeline [spec, snd (RouterMiddleware registry [])]\<rparr>)))"

section \<open>Lemmas\<close>

abbreviation does :: "collectorArgs \<Rightarrow> storeOp \<Rightarrow> store \<Rightarrow> store" where
  "does a \<equiv> storeDo (ca_rnd a) (ca_sum256 a) (ca_order a)"

text \<open>What a message should do to the store, by the topic and version that serve it: the operation on
  the fields of the decoded body, if it decodes and names what it must.\<close>

definition decoded :: "(collectorValue, 'q) reqtype \<Rightarrow> ('q \<Rightarrow> storeOp option) \<Rightarrow> collectorValue any \<Rightarrow> storeOp option" where
  "decoded T f req = (case convertRequest T req of Inl err \<Rightarrow> None | Inr q \<Rightarrow> f q)"

definition registers :: "collectorArgs \<Rightarrow> string \<Rightarrow> storeOp option" where
  "registers a body = (case ca_document a body of
      Inl err \<Rightarrow> None
    | Inr doc \<Rightarrow> if doc_Service doc = '''' then None
        else Some (Registers (doc_Service doc) (newRegistration doc body)))"

definition operations :: "collectorArgs \<Rightarrow> (topic \<times> (collectorValue any \<Rightarrow> storeOp option)) list" where
  "operations a = [
     (NewTopic ''benzene:mesh:register'', decoded (ca_raw a) (registers a)),
     (NewTopic ''benzene:mesh:heartbeat'', decoded (ca_heartbeat a) (\<lambda>hb. if hb_Service hb = '''' then None else Some (Beats hb))),
     (NewTopic ''benzene:mesh:traces'', decoded (ca_traces a) (\<lambda>events. Some (Traces events))),
     (NewTopic ''benzene:mesh:issues'', decoded (ca_issues a) (\<lambda>batch. if ib_Service batch = '''' then None else Some (Reports batch))),
     (NewTopic ''benzene:mesh:query:fleet'', decoded (ca_raw a) (\<lambda>_. Some Renders)),
     (NewTopic ''benzene:mesh:query:service'', \<lambda>_. None),
     (NewTopic ''benzene:mesh:query:topic'', \<lambda>_. None),
     (NewTopic ''benzene:mesh:query:trace'', \<lambda>_. None)]"

definition operationOf :: "collectorArgs \<Rightarrow> topic \<Rightarrow> collectorValue any \<Rightarrow> storeOp option" where
  "operationOf a t req = (case map_of (operations a) t of None \<Rightarrow> None | Some f \<Rightarrow> f req)"

definition applied :: "collectorArgs \<Rightarrow> storeOp option \<Rightarrow> store \<Rightarrow> store" where
  "applied a op st = (case op of None \<Rightarrow> st | Some op \<Rightarrow> does a op st)"

lemma applied_simps [simp]: "applied a None st = st" "applied a (Some op) st = does a op st"
  by (simp_all add: applied_def)

text \<open>A handler makes its operation, successfully, or leaves the store alone.\<close>

definition handlerDoes :: "collectorArgs \<Rightarrow> ('q, collectorValue, store) handler \<Rightarrow> ('q \<Rightarrow> storeOp option) \<Rightarrow> bool" where
  "handlerDoes a h f \<longleftrightarrow> (\<forall>c q s. \<exists>r s'. h c q s = (Return r, s') \<and> ic s' = ic s \<and> clock s' = clock s \<and>
    env s' = applied a (f q) (env s) \<and> (f q \<noteq> None \<longrightarrow> IsSuccessful r))"

lemma okWith_eq: "okWith typ payload = Return (Ok (Val typ payload))"
  by (simp add: okWith_def)

lemma IsSuccessful_Ok: "IsSuccessful (Ok p)"
proof -
  have "\<not> IsFailure StatusOk" by code_simp
  then show ?thesis by (simp add: IsSuccessful_def Ok_def success_def)
qed

lemma handlers_do:
  "handlerDoes a (handleRegister a) (registers a)"
  "handlerDoes a handleHeartbeat (\<lambda>hb. if hb_Service hb = '''' then None else Some (Beats hb))"
  "handlerDoes a (handleTraces a) (\<lambda>events. Some (Traces events))"
  "handlerDoes a (handleIssues a) (\<lambda>batch. if ib_Service batch = '''' then None else Some (Reports batch))"
  "handlerDoes a (handleFleet a) (\<lambda>_. Some Renders)"
  "handlerDoes a handleServiceQuery (\<lambda>_. None)" "handlerDoes a (handleTopicQuery a) (\<lambda>_. None)"
  "handlerDoes a (handleTraceQuery a) (\<lambda>_. None)"
  by (auto simp: handlerDoes_def handleRegister_def registers_def handleHeartbeat_def handleTraces_def handleIssues_def
      handleFleet_def fleet_def readNow_def handleServiceQuery_def handleTopicQuery_def handleTraceQuery_def
      okWith_eq IsSuccessful_Ok case_prod_unfold split: sum.split option.split)

definition erasedDoes ::
  "collectorArgs \<Rightarrow> (collectorValue, store) erasedHandler \<Rightarrow> (collectorValue any \<Rightarrow> storeOp option) \<Rightarrow> bool" where
  "erasedDoes a h f \<longleftrightarrow> (\<forall>c raw s. \<exists>out s'. h c raw s = (Return out, s') \<and> ic s' = ic s \<and> clock s' = clock s \<and>
    env s' = applied a (f raw) (env s) \<and> (f raw \<noteq> None \<longrightarrow> (\<exists>r. out = Inr r \<and> resultSuccessful r)))"

lemma erasedDoes_at:
  assumes "erasedDoes a h f"
  shows "\<exists>out s'. h c raw s = (Return out, s') \<and> env s' = applied a (f raw) (env s) \<and>
    (f raw \<noteq> None \<longrightarrow> (\<exists>r. out = Inr r \<and> resultSuccessful r))"
  using assms unfolding erasedDoes_def by meson

lemma successful_asResultInfo: "resultSuccessful (asResultInfo n r) = IsSuccessful r"
  by (simp add: asResultInfo_def resultSuccessful_def)

lemma eraseHandler_does:
  assumes "handlerDoes a h f"
  shows "erasedDoes a (eraseHandler t T n h) (decoded T f)"
  unfolding erasedDoes_def
proof (intro allI)
  fix c raw s
  show "\<exists>out s'. eraseHandler t T n h c raw s = (Return out, s') \<and> ic s' = ic s \<and> clock s' = clock s \<and>
    env s' = applied a (decoded T f raw) (env s) \<and>
    (decoded T f raw \<noteq> None \<longrightarrow> (\<exists>r. out = Inr r \<and> resultSuccessful r))"
  proof (cases "convertRequest T raw")
    case (Inl err)
    then show ?thesis by (simp add: eraseHandler_def decoded_def)
  next
    case (Inr q)
    obtain r s' where "h c q s = (Return r, s')" "ic s' = ic s" "clock s' = clock s"
      "env s' = applied a (f q) (env s)" "f q \<noteq> None \<longrightarrow> IsSuccessful r"
      using assms unfolding handlerDoes_def by blast
    then show ?thesis using Inr by (auto simp: eraseHandler_def successful_asResultInfo decoded_def)
  qed
qed

text \<open>A registry, or a registration that has not panicked, of handlers for these topics and no defaults.\<close>

definition serves :: "collectorArgs \<Rightarrow> (collectorValue, store) erasedHandler registry outcome \<Rightarrow>
  (topic \<times> (collectorValue any \<Rightarrow> storeOp option)) list \<Rightarrow> bool" where
  "serves a m ts \<longleftrightarrow> (\<exists>r. m = Return r \<and> reg_defaults r = [] \<and>
    list_all2 (\<lambda>(t, reg) (u, f). t = u \<and> erasedDoes a (hr_handler reg) f) (reg_handlers r) ts)"

lemma served_keys:
  "list_all2 (\<lambda>(t, reg) (u, f). t = u \<and> P reg f) hs ts \<Longrightarrow> map fst hs = map fst ts"
  by (induction rule: list_all2_induct) auto

lemma serves_step:
  assumes "serves a m ts" and "handlerDoes a h f" and "NewTopic t \<notin> fst ` set ts"
  shows "serves a (thenRegister m (\<lambda>r. Register r (NewTopic t) T n h [])) (ts @ [(NewTopic t, decoded T f)])"
proof -
  let ?reg = "\<lparr>hr_handler = eraseHandler (NewTopic t) T n h, hr_request = rt_name T, hr_response = n\<rparr>"
  from assms(1) obtain r where r: "m = Return r" "reg_defaults r = []"
    "list_all2 (\<lambda>(t, reg) (u, f). t = u \<and> erasedDoes a (hr_handler reg) f) (reg_handlers r) ts"
    by (auto simp: serves_def)
  have "fst ` set (reg_handlers r) = fst ` set ts" using served_keys [OF r(3)] by (metis list.set_map)
  then have fresh: "NewTopic t \<notin> fst ` set (reg_handlers r)" using assms(3) by simp
  then have "\<not> hasKey (reg_handlers r) (NewTopic t)" by (simp add: hasKey_iff)
  then have "\<exists>r'. thenRegister m (\<lambda>r. Register r (NewTopic t) T n h []) = Return r' \<and> reg_defaults r' = [] \<and>
      reg_handlers r' = AList.update (NewTopic t) ?reg (reg_handlers r)"
    by (simp add: r(1,2) thenRegister_def mustRegister_def Register_def register_def Let_def)
  moreover have "AList.update (NewTopic t) ?reg (reg_handlers r) = reg_handlers r @ [(NewTopic t, ?reg)]"
    using fresh by (simp add: AList_update_fresh)
  ultimately show ?thesis
    using r(3) eraseHandler_does [OF assms(2), of "NewTopic t" T n]
    by (auto simp: serves_def intro!: list_all2_appendI)
qed

lemmas wire_topics = TopicRegister_def TopicHeartbeat_def TopicTraces_def TopicIssues_def TopicQueryFleet_def
  TopicQueryService_def TopicQueryTopic_def TopicQueryTrace_def

text \<open>Queries have no operation, whatever their bodies decode to.\<close>

lemma decoded_none: "decoded T (\<lambda>_. None) = (\<lambda>_. None)"
  by (simp add: decoded_def fun_eq_iff split: sum.split)

lemma collectorRegistry_serves: "serves a (collectorRegistry a) (operations a)"
proof -
  have start: "serves a (Return NewRegistry) []" by (simp add: serves_def NewRegistry_def)
  note steps = serves_step [OF _ handlers_do(1)] serves_step [OF _ handlers_do(2)] serves_step [OF _ handlers_do(3)]
    serves_step [OF _ handlers_do(4)] serves_step [OF _ handlers_do(5)] serves_step [OF _ handlers_do(6)]
    serves_step [OF _ handlers_do(7)] serves_step [OF _ handlers_do(8)]
  have "serves a (collectorRegistry a) (((((((([] @ [(NewTopic TopicRegister, decoded (ca_raw a) (registers a))]) @
      [(NewTopic TopicHeartbeat, decoded (ca_heartbeat a) (\<lambda>hb. if hb_Service hb = '''' then None else Some (Beats hb)))]) @
      [(NewTopic TopicTraces, decoded (ca_traces a) (\<lambda>events. Some (Traces events)))]) @
      [(NewTopic TopicIssues, decoded (ca_issues a) (\<lambda>batch. if ib_Service batch = '''' then None else Some (Reports batch)))]) @
      [(NewTopic TopicQueryFleet, decoded (ca_raw a) (\<lambda>_. Some Renders))]) @
      [(NewTopic TopicQueryService, decoded (ca_serviceQuery a) (\<lambda>_. None))]) @
      [(NewTopic TopicQueryTopic, decoded (ca_topicQuery a) (\<lambda>_. None))]) @
      [(NewTopic TopicQueryTrace, decoded (ca_traceQuery a) (\<lambda>_. None))])"
    unfolding collectorRegistry_def
    by (rule steps(8), rule steps(7), rule steps(6), rule steps(5), rule steps(4), rule steps(3), rule steps(2),
        rule steps(1), rule start) (simp_all add: wire_topics NewTopic_def)
  then show ?thesis by (simp add: operations_def decoded_none wire_topics)
qed

text \<open>The router over such a registry.\<close>

lemma served_lookup:
  assumes "reg_defaults r = []"
    and "list_all2 (\<lambda>(t, reg) (u, f). t = u \<and> erasedDoes a (hr_handler reg) f) (reg_handlers r) ts"
  shows "(\<exists>h f. lookup r t = (Some h, selected) \<and> map_of ts t = Some f \<and> erasedDoes a h f) \<or>
    (snd (lookup r t) \<noteq> selected \<and> map_of ts t = None)"
proof -
  have "(\<exists>reg f. map_of (reg_handlers r) t = Some reg \<and> map_of ts t = Some f \<and> erasedDoes a (hr_handler reg) f) \<or>
      (map_of (reg_handlers r) t = None \<and> map_of ts t = None)"
    using assms(2) by (induction rule: list_all2_induct) auto
  then show ?thesis using assms(1) by (auto simp: lookup_def)
qed

lemma resolveTopic_keeps [simp]:
  "ID (ic_Topic (resolveTopic key i)) = ID (ic_Topic i)" "ic_Request (resolveTopic key i) = ic_Request i"
  by (simp_all add: resolveTopic_def WithVersion_def)

lemma operationOf_named:
  assumes "operationOf a t req \<noteq> None"
  shows "ID t \<noteq> ''''" "ID t \<noteq> SpecTopic"
  using assms by (auto simp: operationOf_def operations_def NewTopic_def SpecTopic_def split: if_splits)

lemma routed_does:
  assumes "reg_defaults r = []"
    and "list_all2 (\<lambda>(t, reg) (u, f). t = u \<and> erasedDoes a (hr_handler reg) f) (reg_handlers r) (operations a)"
    and "i = resolveTopic key (ic s)" and "op = operationOf a (ic_Topic i) (ic_Request i)"
  shows "env (snd (routed r key c s)) = applied a op (env s) \<and>
    (op \<noteq> None \<longrightarrow> resultSuccessful (fst (routed r key c s)))"
proof (cases "ID (ic_Topic (ic s)) = ''''")
  case True
  then have "op = None" using operationOf_named(1) assms(3,4) by (metis resolveTopic_keeps(1))
  with True show ?thesis by (simp add: routed_def)
next
  case False
  let ?s = "s\<lparr>ic := i\<rparr>"
  show ?thesis
  proof (cases "map_of (operations a) (ic_Topic i)")
    case None
    then have "op = None" "snd (lookup r (ic_Topic i)) \<noteq> selected"
      using served_lookup [OF assms(1,2), of "ic_Topic i"] by (auto simp: assms(4) operationOf_def)
    then show ?thesis using False unfolding assms(3)
      by (cases "snd (lookup r (ic_Topic (resolveTopic key (ic s))))") (simp_all add: routed_def Let_def)
  next
    case (Some f)
    then obtain h where h: "lookup r (ic_Topic i) = (Some h, selected)" "erasedDoes a h f"
      using served_lookup [OF assms(1,2), of "ic_Topic i"] by auto
    have op: "op = f (ic_Request i)" using Some by (simp add: assms(4) operationOf_def)
    obtain out s' where o: "h (handlerContext c i) (ic_Request i) ?s = (Return out, s')"
      "env s' = applied a op (env s)" "op \<noteq> None \<longrightarrow> (\<exists>res. out = Inr res \<and> resultSuccessful res)"
      using erasedDoes_at [OF h(2), of "handlerContext c i" "ic_Request i" ?s] by (auto simp: op)
    have "routed r key c s = (handlerResult (Return out), s')"
      using False h(1) o(1) by (simp add: routed_def Let_def callHandler_def flip: assms(3))
    with o(2,3) show ?thesis by auto
  qed
qed

lemma SpecMiddleware_total:
  fixes mw :: "('v, 'w) middleware"
  assumes "SpecMiddleware jsonError typeOf (Inr raw) opts = Return mw" and "ID (ic_Topic (ic s)) = SpecTopic"
  shows "\<exists>res. mw c nx s = (Return None, setResult res s)"
proof (cases "specRequest jsonError typeOf (ic_Request (ic s))")
  case (Inl err)
  then show ?thesis using assms by (auto simp: SpecMiddleware_def fail_constructors)
next
  case (Inr req)
  have "\<exists>res. specAnswer (servedDocuments raw opts) req = (Return res :: 'v resultInfo outcome)"
    by (auto simp: specAnswer_def Let_def fail_constructors split: option.split)
  with Inr assms show ?thesis by (auto simp: SpecMiddleware_def)
qed

lemma collector_dispatch:
  fixes i :: "collectorValue invocation"
  assumes "reg_defaults r = []"
    and "list_all2 (\<lambda>(t, reg) (u, f). t = u \<and> erasedDoes a (hr_handler reg) f) (reg_handlers r) (operations a)"
    and "SpecMiddleware jsonError typeOf (Inr raw) [] = Return spec"
    and "i = resolveTopic (routerKey []) (invocationOf t hs body)"
  shows "\<exists>resp ok s'. DispatchTopicResult marshal (Some (NewPipeline [spec, snd (RouterMiddleware r [])])) c t hs body now st =
      (Return (resp, ok), s') \<and>
    (case operationOf a (ic_Topic i) (ic_Request i) of None \<Rightarrow> env s' = st | Some op \<Rightarrow> ok \<and> env s' = does a op st)"
proof -
  let ?s = "\<lparr>ic = invocationOf t hs body, clock = now, env = st\<rparr> :: (collectorValue, store) st"
  define op where "op = operationOf a (ic_Topic i) (ic_Request i)"
  let ?mw = "[spec, snd (RouterMiddleware r [])]"
  have topic: "ic_Topic (invocationOf t hs body) = t" by (simp add: invocationOf_def NewInvocationContext_def)
  have "\<exists>res u. Run (Some (NewPipeline ?mw)) c ?s = (Return None, setResult res u) \<and>
      env u = applied a op st \<and> (op \<noteq> None \<longrightarrow> resultSuccessful res)"
  proof (cases "ID t = SpecTopic")
    case True
    then have "\<exists>res. spec c nx ?s = (Return None, setResult res ?s)" for nx
      using SpecMiddleware_total [OF assms(3), of ?s c nx] by (simp add: topic)
    moreover have "ID (ic_Topic i) = SpecTopic" using True by (simp add: assms(4) topic)
    then have "op = None" using operationOf_named(2) op_def by metis
    ultimately show ?thesis by (fastforce simp: NewPipeline_def Run_onion)
  next
    case False
    then have "Run (Some (NewPipeline ?mw)) c ?s = Run (Some (NewPipeline [snd (RouterMiddleware r [])])) c ?s"
      by (intro SpecMiddleware_passes [OF assms(3)]) (simp add: topic)
    also have "\<dots> = (Return None, setResult (fst (routed r (routerKey []) c ?s)) (snd (routed r (routerKey []) c ?s)))"
      by (simp add: NewPipeline_def Run_single router_routed done_run_def)
    finally show ?thesis
      using routed_does [OF assms(1,2), of i "routerKey []" ?s op c] by (auto simp: op_def assms(4))
  qed
  then obtain res u where run: "Run (Some (NewPipeline ?mw)) c ?s = (Return None, setResult res u)"
    "env u = applied a op st" "op \<noteq> None \<longrightarrow> resultSuccessful res" by blast
  have "DispatchTopicResult marshal (Some (NewPipeline ?mw)) c t hs body now st =
      (Return (withResponseHeaders (responseOf marshal res) (ic (setResult res u)), resultSuccessful res), setResult res u)"
    by (simp add: DispatchTopicResult_def envelopeDispatch_run run(1) settledResponse_def)
  with run(2,3) show ?thesis by (auto simp: op_def split: option.split)
qed

text \<open>C28 (refinement). The collector is its store. Its topics register, whatever the decoding does; it starts
  with an empty store of the configured size (4096 by default) unless its own contract cannot be derived, and
  panics with that error otherwise. From then on whatever message it is sent, on whatever topic, with
  whatever body and headers, it answers, and the store it leaves is exactly the one that the message's topic
  and version call for: the registration of the document a register body holds, under the document's
  service; the heartbeat, the events or the issue batch of its body; the rendering of a fleet query; and the
  store as it was for a body that does not decode or names no service, for every other query and for
  every other topic. A message with an operation is answered successfully, so one that is not leaves
  no trace. A history of messages is therefore a history of operations, to which the laws of the store apply.\<close>

theorem collector_message_is_one_operation:
  fixes a :: collectorArgs and derive :: "(collectorValue, store) erasedHandler registry \<Rightarrow> goerr + document"
  shows "\<exists>r. collectorRegistry a = Return r \<and> (case derive r of
      Inl err \<Rightarrow> New a systemClock derive jsonError typeOf options = Panic (errorText err)
    | Inr doc \<Rightarrow> \<exists>collector. New a systemClock derive jsonError typeOf options = Return collector \<and>
        mc_store collector = newStore (if MaxTraceEvents options \<le> 0 then 4096 else nat (MaxTraceEvents options))
          (case optNow options of None \<Rightarrow> systemClock | Some f \<Rightarrow> f) \<and>
        (\<forall>c t hs body now st. \<exists>resp ok s' i. i = resolveTopic (routerKey []) (invocationOf t hs body) \<and>
          DispatchTopicResult marshal (Some (mc_pipeline collector)) c t hs body now st = (Return (resp, ok), s') \<and>
          (case operationOf a (ic_Topic i) (ic_Request i) of
             None \<Rightarrow> env s' = st
           | Some op \<Rightarrow> ok \<and> env s' = storeDo (ca_rnd a) (ca_sum256 a) (ca_order a) op st)))"
proof -
  obtain r where r: "collectorRegistry a = Return r" "reg_defaults r = []"
    "list_all2 (\<lambda>(t, reg) (u, f). t = u \<and> erasedDoes a (hr_handler reg) f) (reg_handlers r) (operations a)"
    using collectorRegistry_serves [of a] by (auto simp: serves_def)
  show ?thesis
  proof (cases "derive r")
    case (Inl err)
    then show ?thesis by (intro exI [of _ r]) (simp add: r(1) New_def Let_def)
  next
    case (Inr doc)
    obtain spec :: "(collectorValue, store) middleware" where
      spec: "SpecMiddleware jsonError typeOf (Inr (jprint (documentJson doc))) [] = Return spec"
      by (simp add: SpecMiddleware_def)
    let ?store = "newStore (if MaxTraceEvents options \<le> 0 then 4096 else nat (MaxTraceEvents options))
      (case optNow options of None \<Rightarrow> systemClock | Some f \<Rightarrow> f)"
    let ?mc = "\<lparr>mc_store = ?store, mc_pipeline = NewPipeline [spec, snd (RouterMiddleware r [])]\<rparr>"
    have "New a systemClock derive jsonError typeOf options = Return ?mc"
      by (simp add: New_def Let_def r(1) Inr spec del: jprint.simps)
    moreover have "\<exists>resp ok s' i. i = resolveTopic (routerKey []) (invocationOf t hs body) \<and>
        DispatchTopicResult marshal (Some (mc_pipeline ?mc)) c t hs body now st = (Return (resp, ok), s') \<and>
        (case operationOf a (ic_Topic i) (ic_Request i) of
           None \<Rightarrow> env s' = st | Some op \<Rightarrow> ok \<and> env s' = does a op st)" for c t hs body now st
      using collector_dispatch [OF r(2,3) spec refl, of marshal c t hs body now st] by simp
    ultimately have "\<exists>collector. New a systemClock derive jsonError typeOf options = Return collector \<and>
        mc_store collector = ?store \<and>
        (\<forall>c t hs body now st. \<exists>resp ok s' i. i = resolveTopic (routerKey []) (invocationOf t hs body) \<and>
          DispatchTopicResult marshal (Some (mc_pipeline collector)) c t hs body now st = (Return (resp, ok), s') \<and>
          (case operationOf a (ic_Topic i) (ic_Request i) of
             None \<Rightarrow> env s' = st | Some op \<Rightarrow> ok \<and> env s' = does a op st))"
      by (intro exI [of _ ?mc] conjI allI) (assumption | simp only: meshdCollector.simps)+
    then show ?thesis by (intro exI [of _ r]) (simp only: r(1) Inr sum.case simp_thms)
  qed
qed

text \<open>A collector whose bodies do not decode, but for the raw ones.\<close>

definition noType :: "string \<Rightarrow> (collectorValue, 'q) reqtype" where
  "noType n = \<lparr>rt_name = n, rt_assert = (\<lambda>v. None), rt_unmarshal = (\<lambda>d. Inl (ErrNew ''refused''))\<rparr>"

definition emptyDocument :: "string \<Rightarrow> document" where
  "emptyDocument service = \<lparr>doc_SchemaDialect = ''openapi-3.0'', doc_Service = service, doc_ServiceVersion = '''',
     doc_VersionScheme = '''', doc_Description = '''', doc_Runtime = ''go'', doc_Placement = None, doc_Profile = None,
     doc_Degraded = [], doc_MessageEndpoint = '''', doc_Transports = [], doc_ContractHash = '''',
     doc_RegistrationHash = '''', doc_Requests = Some [], doc_Events = Some [], doc_Sends = Some [],
     doc_Components = Some []\<rparr>"

definition strictArgs :: collectorArgs where
  "strictArgs = \<lparr>ca_rnd = (\<lambda>x. x), ca_sum256 = (\<lambda>x. x), ca_order = (\<lambda>m. m), ca_ratio = (\<lambda>x n. x), ca_nanos = (\<lambda>x. 0),
     ca_millis = (\<lambda>i. 0), ca_arrangeFlows = (\<lambda>x. x), ca_arrangeEvents = (\<lambda>x. x),
     ca_document = (\<lambda>body. Inr (emptyDocument body)),
     ca_raw = \<lparr>rt_name = ''json.RawMessage'', rt_assert = (\<lambda>v. case v of RawMessage d \<Rightarrow> Some d | _ \<Rightarrow> None),
       rt_unmarshal = Inr\<rparr>,
     ca_heartbeat = noType ''mesh.Heartbeat'', ca_traces = noType ''mesh.TraceBatch'', ca_issues = noType ''mesh.IssueBatch'',
     ca_serviceQuery = noType ''meshd.ServiceQuery'', ca_topicQuery = noType ''meshd.TopicQuery'',
     ca_traceQuery = noType ''meshd.TraceQuery''\<rparr>"

theorem collector_message_is_one_operation_witness:
  "\<exists>collector resp s'. New strictArgs (\<lambda>n. 0) (\<lambda>r. Inr (emptyDocument ''meshd'')) (\<lambda>d. d) (\<lambda>v. OtherType)
      \<lparr>MaxTraceEvents = 0, optNow = None\<rparr> = Return collector \<and>
    DispatchTopicResult (\<lambda>p. Inr ''{}'') (Some (mc_pipeline collector)) background (NewTopic TopicRegister) [] ''orders'' 0
      (mc_store collector) = (Return (resp, True), s') \<and>
    env s' = registerService ''orders'' (newRegistration (emptyDocument ''orders'') ''orders'') (mc_store collector)"
proof -
  let ?derive = "\<lambda>r :: (collectorValue, store) erasedHandler registry. Inr (emptyDocument ''meshd'') :: goerr + document"
  let ?options = "\<lparr>MaxTraceEvents = 0, optNow = None\<rparr>"
  obtain collector where new: "New strictArgs (\<lambda>n. 0) ?derive (\<lambda>d. d) (\<lambda>v. OtherType) ?options = Return collector"
    and msg: "\<forall>c t hs body now st. \<exists>resp ok s' i. i = resolveTopic (routerKey []) (invocationOf t hs body) \<and>
      DispatchTopicResult (\<lambda>p. Inr ''{}'') (Some (mc_pipeline collector)) c t hs body now st = (Return (resp, ok), s') \<and>
      (case operationOf strictArgs (ic_Topic i) (ic_Request i) of
         None \<Rightarrow> env s' = st | Some op \<Rightarrow> ok \<and> env s' = does strictArgs op st)"
    using collector_message_is_one_operation [of strictArgs "\<lambda>n. 0" ?derive "\<lambda>d. d" "\<lambda>v. OtherType" ?options
        "\<lambda>p. Inr ''{}''"] by (auto split: sum.splits)
  let ?i = "resolveTopic (routerKey []) (invocationOf (NewTopic TopicRegister) [] ''orders'') :: collectorValue invocation"
  have op: "operationOf strictArgs (ic_Topic ?i) (ic_Request ?i) =
      Some (Registers ''orders'' (newRegistration (emptyDocument ''orders'') ''orders''))"
    by (simp add: operationOf_def operations_def invocationOf_def NewInvocationContext_def resolveTopic_def NewTopic_def
        WithVersion_def decoded_def convertRequest_def strictArgs_def registers_def emptyDocument_def wire_topics)
  obtain resp ok s' where "DispatchTopicResult (\<lambda>p. Inr ''{}'') (Some (mc_pipeline collector)) background
      (NewTopic TopicRegister) [] ''orders'' 0 (mc_store collector) = (Return (resp, ok), s')"
    "case operationOf strictArgs (ic_Topic ?i) (ic_Request ?i) of
       None \<Rightarrow> env s' = mc_store collector | Some op \<Rightarrow> ok \<and> env s' = does strictArgs op (mc_store collector)"
    using msg by blast
  then show ?thesis
    unfolding op by (intro exI [of _ collector] exI [of _ resp] exI [of _ s'] conjI new) simp_all
qed

end
