(* ===== verification/Announce.thy ===== *)
theory Announce
  imports Collector
begin

text \<open>
  Registration and heartbeats (\<^verbatim>\<open>mesh/announce.go\<close>): the body a service registers, one heartbeat, and the
  announcer's goroutine, which registers with retries and then heartbeats. The collector is behind a
  sender, which works on the clock and the world; the sleeps and the ticker move the clock. \<open>None\<close> is a
  nil announcer.
\<close>

section \<open>Bodies\<close>

definition Registration :: "(string \<Rightarrow> string) \<Rightarrow> document \<Rightarrow> document" where
  "Registration getenv doc =
    (if doc_Placement doc = None then doc\<lparr>doc_Placement := Some (detectPlacement getenv)\<rparr> else doc)"

definition NewHeartbeat :: "document \<Rightarrow> string \<Rightarrow> healthResponse \<Rightarrow> int \<Rightarrow> heartbeat" where
  "NewHeartbeat doc instanceID health now =
    \<lparr>hb_Service = doc_Service doc, hb_ServiceVersion = doc_ServiceVersion doc, hb_InstanceID = instanceID,
     hb_RegistrationHash = doc_RegistrationHash doc, hb_SentAt = now, hb_Health = health\<rparr>"

section \<open>The announcer\<close>

text \<open>A sender on the clock and the world, and what is told of its failures.\<close>

type_synonym ('v, 'w) meshSender = "ctx \<Rightarrow> topic \<Rightarrow> headers \<Rightarrow> string \<Rightarrow> int \<times> 'w \<Rightarrow> 'v result \<times> (int \<times> 'w)"

record ('v, 'w) announcerOptions =
  ao_InstanceID :: string
  ao_Checks :: "ctx \<Rightarrow> int \<times> 'w \<Rightarrow> healthResponse \<times> (int \<times> 'w)"
  ao_HeartbeatInterval :: int
  ao_RetryInterval :: int
  ao_RegisterAttempts :: int
  ao_OnSendFailure :: "(string \<Rightarrow> 'v result \<Rightarrow> 'w \<Rightarrow> 'w) option"

record ('v, 'w) announcer =
  an_sender :: "('v, 'w) meshSender"
  an_doc :: document
  an_body :: string
  an_options :: "('v, 'w) announcerOptions"

record 'w announcerState =
  an_now :: int
  an_registered :: bool
  an_world :: 'w

definition NewAnnouncer ::
  "string \<Rightarrow> (string \<Rightarrow> string) \<Rightarrow> ('v, 'w) meshSender option \<Rightarrow> document \<Rightarrow> ('v, 'w) announcerOptions \<Rightarrow>
   ('v, 'w) announcer option" where
  "NewAnnouncer hostname getenv sender doc0 o0 = (case sender of
      None \<Rightarrow> None
    | Some f \<Rightarrow>
       (let opts = o0\<lparr>
             ao_InstanceID := (if ao_InstanceID o0 = '''' then hostname else ao_InstanceID o0),
             ao_HeartbeatInterval := (if ao_HeartbeatInterval o0 \<le> 0 then 10000000000 else ao_HeartbeatInterval o0),
             ao_RetryInterval := (if ao_RetryInterval o0 \<le> 0 then 2000000000 else ao_RetryInterval o0),
             ao_RegisterAttempts := (if ao_RegisterAttempts o0 \<le> 0 then 30 else ao_RegisterAttempts o0)\<rparr>;
           doc = Registration getenv doc0 in
        Some \<lparr>an_sender = f, an_doc = doc, an_body = jprint (documentJson doc), an_options = opts\<rparr>))"

definition Announcer_send ::
  "('v, 'w) announcer \<Rightarrow> ctx \<Rightarrow> string \<Rightarrow> string \<Rightarrow> 'w announcerState \<Rightarrow> bool \<times> 'w announcerState" where
  "Announcer_send a c t body s =
    (case an_sender a c (NewTopic t) [] body (an_now s, an_world s) of (result, now, w) \<Rightarrow>
      (let w1 = (case ao_OnSendFailure (an_options a) of
             None \<Rightarrow> w
           | Some f \<Rightarrow> if IsSuccessful result then w else f t result w) in
       (IsSuccessful result, s\<lparr>an_now := now, an_world := w1\<rparr>)))"

definition Announcer_Register ::
  "('v, 'w) announcer \<Rightarrow> ctx \<Rightarrow> 'w announcerState \<Rightarrow> bool \<times> 'w announcerState" where
  "Announcer_Register a c s =
    (case Announcer_send a c TopicRegister (an_body a) s of
       (ok, s1) \<Rightarrow> (ok, if ok then s1\<lparr>an_registered := True\<rparr> else s1))"

text \<open>\<open>encode\<close> is the JSON of a heartbeat, whose health data may not marshal.\<close>

definition Announcer_Heartbeat ::
  "(heartbeat \<Rightarrow> string option) \<Rightarrow> ('v, 'w) announcer \<Rightarrow> ctx \<Rightarrow> 'w announcerState \<Rightarrow> bool \<times> 'w announcerState" where
  "Announcer_Heartbeat encode a c s =
    (case ao_Checks (an_options a) c (an_now s, an_world s) of (health, now, w) \<Rightarrow>
      (let s1 = s\<lparr>an_now := now, an_world := w\<rparr> in
       case encode (NewHeartbeat (an_doc a) (ao_InstanceID (an_options a)) health now) of
         None \<Rightarrow> (False, s1)
       | Some body \<Rightarrow> Announcer_send a c TopicHeartbeat body s1))"

section \<open>The goroutine\<close>

text \<open>
  Waiting for an instant or for the context, whichever comes first; when both are ready the
  \<^verbatim>\<open>select\<close> takes the context exactly when \<open>tie\<close>. Whether the instant was reached, and when it is then.
\<close>

definition waitUntil :: "bool \<Rightarrow> ctx \<Rightarrow> int \<Rightarrow> int \<Rightarrow> bool \<times> int" where
  "waitUntil tie c fires now =
    (let ready = max now fires in
     case done_at c of
       None \<Rightarrow> (True, ready)
     | Some (t, e) \<Rightarrow>
         if max now t < ready \<or> (max now t = ready \<and> tie) then (False, max now t) else (True, ready))"

definition announceSleep :: "bool \<Rightarrow> ctx \<Rightarrow> int \<Rightarrow> int \<Rightarrow> bool \<times> int" where
  "announceSleep tie c d now = waitUntil tie c (now + d) now"

text \<open>The registration attempts; the answer is whether \<^verbatim>\<open>Run\<close> goes on.\<close>

function registerLoop ::
  "bool \<Rightarrow> ('v, 'w) announcer \<Rightarrow> ctx \<Rightarrow> int \<Rightarrow> 'w announcerState \<Rightarrow> bool \<times> 'w announcerState" where
  "registerLoop tie a c attempt s =
    (case Announcer_Register a c s of (ok, s1) \<Rightarrow>
      if ok \<or> \<not> attempt < ao_RegisterAttempts (an_options a) then (True, s1)
      else (case announceSleep tie c (ao_RetryInterval (an_options a)) (an_now s1) of
          (False, t) \<Rightarrow> (False, s1\<lparr>an_now := t\<rparr>)
        | (True, t) \<Rightarrow> registerLoop tie a c (attempt + 1) (s1\<lparr>an_now := t\<rparr>)))"
  by pat_completeness auto
termination
  by (relation "measure (\<lambda>(tie, a, c, attempt, s). nat (ao_RegisterAttempts (an_options a) - attempt))") auto

declare registerLoop.simps [simp del]

text \<open>
  The heartbeats, at most \<open>n\<close> of them; the answer is whether the context ended the loop. The ticker
  fires every interval from its start and keeps at most one tick that was not received; \<open>due\<close> is the next one.
\<close>

definition nextTick :: "int \<Rightarrow> int \<Rightarrow> int \<Rightarrow> int" where
  "nextTick start interval now = start + interval * ((now - start) div interval + 1)"

definition beatOnce ::
  "(heartbeat \<Rightarrow> string option) \<Rightarrow> ('v, 'w) announcer \<Rightarrow> ctx \<Rightarrow> 'w announcerState \<Rightarrow> 'w announcerState" where
  "beatOnce encode a c s =
    snd (Announcer_Heartbeat encode a c (if an_registered s then s else snd (Announcer_Register a c s)))"

fun beatLoop ::
  "bool \<Rightarrow> (heartbeat \<Rightarrow> string option) \<Rightarrow> ('v, 'w) announcer \<Rightarrow> ctx \<Rightarrow> int \<Rightarrow> int \<Rightarrow> nat \<Rightarrow> 'w announcerState \<Rightarrow>
   bool \<times> 'w announcerState" where
  "beatLoop tie encode a c start due 0 s = (False, s)"
| "beatLoop tie encode a c start due (Suc n) s =
    (let s1 = beatOnce encode a c s in
     case waitUntil tie c due (an_now s1) of
       (False, t) \<Rightarrow> (True, s1\<lparr>an_now := t\<rparr>)
     | (True, t) \<Rightarrow> beatLoop tie encode a c start
         (nextTick start (ao_HeartbeatInterval (an_options a)) t) n (s1\<lparr>an_now := t\<rparr>))"

definition Announcer_Run ::
  "bool \<Rightarrow> (heartbeat \<Rightarrow> string option) \<Rightarrow> nat \<Rightarrow> ('v, 'w) announcer option \<Rightarrow> ctx \<Rightarrow> 'w announcerState \<Rightarrow>
   bool \<times> 'w announcerState" where
  "Announcer_Run tie encode n announcer c s = (case announcer of
      None \<Rightarrow> (True, s)
    | Some a \<Rightarrow> (case registerLoop tie a c 1 s of
        (False, s1) \<Rightarrow> (True, s1)
      | (True, s1) \<Rightarrow> beatLoop tie encode a c (an_now s1)
          (an_now s1 + ao_HeartbeatInterval (an_options a)) n s1))"

section \<open>Lemmas\<close>

text \<open>
  What is sent, in order, with whether it was accepted, is read off the world by \<open>sends\<close>: every send
  adds its entry and nothing else does.
\<close>

definition observes :: "('w \<Rightarrow> (string \<times> bool) list) \<Rightarrow> ('v, 'w) announcer \<Rightarrow> bool" where
  "observes sends a \<longleftrightarrow>
    (\<forall>c t hs body now w r now' w'. an_sender a c t hs body (now, w) = (r, now', w') \<longrightarrow>
      sends w' = sends w @ [(ID t, IsSuccessful r)]) \<and>
    (\<forall>c now w h now' w'. ao_Checks (an_options a) c (now, w) = (h, now', w') \<longrightarrow> sends w' = sends w) \<and>
    (\<forall>f t r w. ao_OnSendFailure (an_options a) = Some f \<longrightarrow> sends (f t r w) = sends w)"

text \<open>
  What may be sent by an announcer that is registered or not, and whether it is registered then: a
  registration only while it is not, and heartbeats.
\<close>

fun allowed :: "bool \<Rightarrow> (string \<times> bool) list \<Rightarrow> bool option" where
  "allowed r [] = Some r"
| "allowed r ((t, ok) # rest) =
    (if t = TopicRegister then (if r then None else allowed ok rest)
     else if t = TopicHeartbeat then allowed r rest else None)"

lemma allowed_append: "allowed r (xs @ ys) = Option.bind (allowed r xs) (\<lambda>r'. allowed r' ys)"
  by (induction xs arbitrary: r) auto

lemma allowed_registered:
  "allowed True entries = Some r \<Longrightarrow> r \<and> TopicRegister \<notin> fst ` set entries"
  by (induction entries) (auto split: if_splits)

lemma allowed_meaning:
  "allowed False entries = Some r \<Longrightarrow>
    (r \<longleftrightarrow> (TopicRegister, True) \<in> set entries) \<and>
    (\<forall>xs ys. entries = xs @ (TopicRegister, True) # ys \<longrightarrow> TopicRegister \<notin> fst ` set ys)"
proof (induction entries)
  case (Cons e entries)
  obtain t ok where e: "e = (t, ok)" by (cases e)
  show ?case
  proof (cases "t = TopicRegister \<and> ok")
    case True
    then have "allowed True entries = Some r" using Cons.prems e by simp
    note reg = allowed_registered [OF this]
    then have "TopicRegister \<notin> fst ` set ys" if "e # entries = xs @ (TopicRegister, True) # ys" for xs ys
      using that by (cases xs) force+
    with True e reg show ?thesis by auto
  next
    case False
    then have "allowed False entries = Some r" using Cons.prems e by (auto split: if_splits)
    from Cons.IH [OF this] False e show ?thesis by (auto simp: Cons_eq_append_conv)
  qed
qed simp

text \<open>The log grows by what a step sends.\<close>

definition extends ::
  "('w \<Rightarrow> (string \<times> bool) list) \<Rightarrow> 'w announcerState \<Rightarrow> (string \<times> bool) list \<Rightarrow> 'w announcerState \<Rightarrow> bool" where
  "extends sends s new s' \<longleftrightarrow> sends (an_world s') = sends (an_world s) @ new \<and>
    allowed (an_registered s) new = Some (an_registered s')"

lemma extends_trans: "extends sends s xs t \<Longrightarrow> extends sends t ys u \<Longrightarrow> extends sends s (xs @ ys) u"
  by (simp add: extends_def allowed_append)

lemma extends_now [simp]: "extends sends s new (t\<lparr>an_now := x\<rparr>) = extends sends s new t"
  by (simp add: extends_def)

lemma Announcer_send_log:
  assumes "observes sends a"
  shows "sends (an_world (snd (Announcer_send a c t body s))) =
      sends (an_world s) @ [(t, fst (Announcer_send a c t body s))] \<and>
    an_registered (snd (Announcer_send a c t body s)) = an_registered s"
proof -
  obtain r now w where sent: "an_sender a c (NewTopic t) [] body (an_now s, an_world s) = (r, now, w)"
    by (metis prod_cases3)
  with assms have "sends w = sends (an_world s) @ [(t, IsSuccessful r)]"
    "\<And>f. ao_OnSendFailure (an_options a) = Some f \<Longrightarrow> sends (f t r w) = sends w"
    by (auto simp: observes_def)
  with sent show ?thesis by (auto simp: Announcer_send_def Let_def split: option.split)
qed

lemma Register_log:
  assumes "observes sends a" and "\<not> an_registered s"
  shows "extends sends s [(TopicRegister, fst (Announcer_Register a c s))] (snd (Announcer_Register a c s)) \<and>
    an_registered (snd (Announcer_Register a c s)) = fst (Announcer_Register a c s)"
  using assms(2) Announcer_send_log [OF assms(1), of c TopicRegister "an_body a" s]
  by (auto simp: Announcer_Register_def extends_def split: prod.split)

lemma Heartbeat_log:
  assumes "observes sends a"
  shows "\<exists>new. extends sends s new (snd (Announcer_Heartbeat encode a c s)) \<and> length new \<le> 1 \<and>
    (\<forall>e \<in> set new. fst e = TopicHeartbeat) \<and> ((\<forall>hb. encode hb \<noteq> None) \<longrightarrow> length new = 1)"
proof -
  have distinct: "TopicHeartbeat \<noteq> TopicRegister" by code_simp
  obtain h now w where checks: "ao_Checks (an_options a) c (an_now s, an_world s) = (h, now, w)" by (metis prod_cases3)
  then have w: "sends w = sends (an_world s)" using assms by (auto simp: observes_def)
  let ?s1 = "s\<lparr>an_now := now, an_world := w\<rparr>"
  show ?thesis
  proof (cases "encode (NewHeartbeat (an_doc a) (ao_InstanceID (an_options a)) h now)")
    case None
    then show ?thesis
      by (intro exI [of _ "[]"]) (auto simp: Announcer_Heartbeat_def checks extends_def w)
  next
    case (Some body)
    then show ?thesis
      using Announcer_send_log [OF assms, of c TopicHeartbeat body ?s1] distinct
      by (intro exI [of _ "[(TopicHeartbeat, fst (Announcer_send a c TopicHeartbeat body ?s1))]"])
        (simp add: Announcer_Heartbeat_def checks extends_def w)
  qed
qed

lemma registerLoop_log:
  assumes "observes sends a" and "\<not> an_registered s"
  shows "\<exists>new. extends sends s new (snd (registerLoop tie a c attempt s)) \<and> fst ` set new \<subseteq> {TopicRegister} \<and>
    length new \<le> 1 + nat (ao_RegisterAttempts (an_options a) - attempt)"
  using assms
proof (induction tie a c attempt s rule: registerLoop.induct)
  case (1 tie a c attempt s)
  let ?r = "Announcer_Register a c s"
  note reg = Register_log [OF "1.prems"]
  show ?case
  proof (cases "fst ?r \<or> \<not> attempt < ao_RegisterAttempts (an_options a)")
    case True
    then have "registerLoop tie a c attempt s = (True, snd ?r)"
      by (subst registerLoop.simps) (auto split: prod.split)
    with reg [of c] show ?thesis by (intro exI [of _ "[(TopicRegister, fst ?r)]"]) simp
  next
    case False
    obtain go t where wait: "announceSleep tie c (ao_RetryInterval (an_options a)) (an_now (snd ?r)) = (go, t)" by fastforce
    let ?s1 = "(snd ?r)\<lparr>an_now := t\<rparr>"
    have unf: "registerLoop tie a c attempt s = (if go then registerLoop tie a c (attempt + 1) ?s1 else (False, ?s1))"
      using False wait by (subst registerLoop.simps) (cases go; auto split: prod.split)
    show ?thesis
    proof (cases go)
      case True
      with wait have wait': "announceSleep tie c (ao_RetryInterval (an_options a)) (an_now (snd ?r)) = (True, t)" by simp
      have "\<exists>new. extends sends ?s1 new (snd (registerLoop tie a c (attempt + 1) ?s1)) \<and> fst ` set new \<subseteq> {TopicRegister} \<and>
          length new \<le> 1 + nat (ao_RegisterAttempts (an_options a) - (attempt + 1))"
        using False reg [of c] by (intro "1.IH" [OF prod.collapse [of ?r] _ wait' [symmetric] refl "1.prems"(1)]) auto
      then obtain new where new: "extends sends ?s1 new (snd (registerLoop tie a c (attempt + 1) ?s1))"
        "fst ` set new \<subseteq> {TopicRegister}" "length new \<le> 1 + nat (ao_RegisterAttempts (an_options a) - (attempt + 1))"
        by blast
      have "extends sends s [(TopicRegister, fst ?r)] ?s1" using reg [of c] by simp
      from extends_trans [OF this new(1)] new(2,3) False True show ?thesis
        unfolding unf by (intro exI [of _ "(TopicRegister, fst ?r) # new"]) auto
    next
      case False
      with reg [of c] show ?thesis unfolding unf by (intro exI [of _ "[(TopicRegister, fst ?r)]"]) simp
    qed
  qed
qed

lemma beatOnce_log:
  assumes "observes sends a"
  shows "\<exists>new. extends sends s new (beatOnce encode a c s) \<and>
    length (filter (\<lambda>e. fst e = TopicHeartbeat) new) \<le> 1 \<and>
    ((\<forall>hb. encode hb \<noteq> None) \<longrightarrow> length (filter (\<lambda>e. fst e = TopicHeartbeat) new) = 1)"
proof -
  have distinct: "TopicRegister \<noteq> TopicHeartbeat" by code_simp
  let ?s1 = "if an_registered s then s else snd (Announcer_Register a c s)"
  obtain reg where reg: "extends sends s reg ?s1" "filter (\<lambda>e. fst e = TopicHeartbeat) reg = []"
  proof (cases "an_registered s")
    case True
    then show ?thesis by (intro that [of "[]"]) (auto simp: extends_def)
  next
    case False
    then show ?thesis using Register_log [OF assms False, of c] distinct
      by (intro that [of "[(TopicRegister, fst (Announcer_Register a c s))]"]) auto
  qed
  obtain new where new: "extends sends ?s1 new (snd (Announcer_Heartbeat encode a c ?s1))" "length new \<le> 1"
    "\<forall>e \<in> set new. fst e = TopicHeartbeat" "(\<forall>hb. encode hb \<noteq> None) \<longrightarrow> length new = 1"
    using Heartbeat_log [OF assms, of ?s1 encode c] by blast
  have "filter (\<lambda>e. fst e = TopicHeartbeat) new = new" using new(3) by simp
  with extends_trans [OF reg(1) new(1)] reg(2) new(2,4) show ?thesis
    by (intro exI [of _ "reg @ new"]) (simp add: beatOnce_def)
qed

lemma beatLoop_log:
  assumes "observes sends a"
  shows "\<exists>new. extends sends s new (snd (beatLoop tie encode a c start due n s)) \<and>
    length (filter (\<lambda>e. fst e = TopicHeartbeat) new) \<le> n \<and>
    ((\<forall>hb. encode hb \<noteq> None) \<and> \<not> fst (beatLoop tie encode a c start due n s) \<longrightarrow>
      length (filter (\<lambda>e. fst e = TopicHeartbeat) new) = n)"
proof (induction n arbitrary: s due)
  case 0
  show ?case by (intro exI [of _ "[]"]) (simp add: extends_def)
next
  case (Suc n)
  let ?s1 = "beatOnce encode a c s"
  obtain new where new: "extends sends s new ?s1" "length (filter (\<lambda>e. fst e = TopicHeartbeat) new) \<le> 1"
    "(\<forall>hb. encode hb \<noteq> None) \<longrightarrow> length (filter (\<lambda>e. fst e = TopicHeartbeat) new) = 1"
    using beatOnce_log [OF assms] by blast
  obtain go t where wait: "waitUntil tie c due (an_now ?s1) = (go, t)" by fastforce
  show ?case
  proof (cases go)
    case False
    with new wait show ?thesis by (intro exI [of _ new]) (simp add: Let_def)
  next
    case True
    let ?due = "nextTick start (ao_HeartbeatInterval (an_options a)) t"
    from Suc.IH [of "?s1\<lparr>an_now := t\<rparr>" ?due] obtain rest where rest:
      "extends sends (?s1\<lparr>an_now := t\<rparr>) rest (snd (beatLoop tie encode a c start ?due n (?s1\<lparr>an_now := t\<rparr>)))"
      "length (filter (\<lambda>e. fst e = TopicHeartbeat) rest) \<le> n"
      "(\<forall>hb. encode hb \<noteq> None) \<and> \<not> fst (beatLoop tie encode a c start ?due n (?s1\<lparr>an_now := t\<rparr>)) \<longrightarrow>
        length (filter (\<lambda>e. fst e = TopicHeartbeat) rest) = n" by blast
    have "extends sends s new (?s1\<lparr>an_now := t\<rparr>)" using new(1) by simp
    from extends_trans [OF this rest(1)] new(2,3) rest(2,3) wait True show ?thesis
      by (intro exI [of _ "new @ rest"]) (auto simp: Let_def)
  qed
qed

section \<open>Properties\<close>

text \<open>What an announcer sends: \<^verbatim>\<open>Run\<close> registers at once and at most \<open>RegisterAttempts\<close> times
  in a row before it goes on to heartbeat, registers again only while no registration was accepted, and
  never after one was, so an accepted registration is the last; and it heartbeats whether or not it is
  registered, once per round, as long as the heartbeats can be written.\<close>

theorem announcer_registers_until_accepted:
  fixes s :: "'w announcerState" and a :: "('v, 'w) announcer" and sends :: "'w \<Rightarrow> (string \<times> bool) list"
    and n :: nat and encode :: "heartbeat \<Rightarrow> string option" and tie :: bool and c :: ctx
  assumes "observes sends a" and "\<not> an_registered s" and "0 < ao_RegisterAttempts (an_options a)"
  defines "result \<equiv> Announcer_Run tie encode n (Some a) c s"
  shows "\<exists>sent beats. sends (an_world (snd result)) = sends (an_world s) @ sent @ beats \<and>
    fst ` set sent \<subseteq> {TopicRegister} \<and> length sent \<le> nat (ao_RegisterAttempts (an_options a)) \<and>
    (an_registered (snd result) \<longleftrightarrow> (TopicRegister, True) \<in> set (sent @ beats)) \<and>
    (\<forall>xs ys. sent @ beats = xs @ (TopicRegister, True) # ys \<longrightarrow> TopicRegister \<notin> fst ` set ys) \<and>
    length (filter (\<lambda>e. fst e = TopicHeartbeat) beats) \<le> n \<and>
    ((\<forall>hb. encode hb \<noteq> None) \<and> \<not> fst result \<longrightarrow>
      length (filter (\<lambda>e. fst e = TopicHeartbeat) beats) = n)"
proof -
  obtain go s1 where loop: "registerLoop tie a c 1 s = (go, s1)" by fastforce
  obtain sent where sent: "extends sends s sent s1" "fst ` set sent \<subseteq> {TopicRegister}"
    "length sent \<le> nat (ao_RegisterAttempts (an_options a))"
    using registerLoop_log [OF assms(1,2), of tie c 1] assms(3) by (auto simp: loop)
  obtain beats where beats: "extends sends s1 beats (snd result)"
    "length (filter (\<lambda>e. fst e = TopicHeartbeat) beats) \<le> n"
    "(\<forall>hb. encode hb \<noteq> None) \<and> \<not> fst result \<longrightarrow> length (filter (\<lambda>e. fst e = TopicHeartbeat) beats) = n"
  proof (cases go)
    case True
    then have "result = beatLoop tie encode a c (an_now s1) (an_now s1 + ao_HeartbeatInterval (an_options a)) n s1"
      by (simp add: result_def Announcer_Run_def loop)
    then show ?thesis using beatLoop_log [OF assms(1), of s1 tie encode c "an_now s1"] that by metis
  next
    case False
    then have "result = (True, s1)" by (simp add: result_def Announcer_Run_def loop)
    then show ?thesis by (intro that [of "[]"]) (auto simp: extends_def)
  qed
  have "extends sends s (sent @ beats) (snd result)" by (rule extends_trans [OF sent(1) beats(1)])
  then have "sends (an_world (snd result)) = sends (an_world s) @ sent @ beats"
    "allowed False (sent @ beats) = Some (an_registered (snd result))"
    using assms(2) by (simp_all add: extends_def)
  with allowed_meaning [OF this(2)] sent(2,3) beats(2,3) show ?thesis by blast
qed

text \<open>A collector that is down for the first two messages.\<close>

definition lateCollector :: "(nat, (string \<times> bool) list) meshSender" where
  "lateCollector c t hs body st = (case st of (now, w) \<Rightarrow>
     (let r = (if length w < 2 then failed StatusServiceUnavailable [] else resultOf StatusOk) in
      (r, now + 1, w @ [(ID t, IsSuccessful r)])))"

definition lateOptions :: "(nat, (string \<times> bool) list) announcerOptions" where
  "lateOptions = \<lparr>ao_InstanceID = ''i'', ao_Checks = (\<lambda>c st. (\<lparr>hp_IsHealthy = True, hp_HealthChecks = []\<rparr>, st)),
     ao_HeartbeatInterval = 10, ao_RetryInterval = 2, ao_RegisterAttempts = 2, ao_OnSendFailure = None\<rparr>"

definition lateAnnouncer :: "(nat, (string \<times> bool) list) announcer" where
  "lateAnnouncer = \<lparr>an_sender = lateCollector, an_doc = emptyDocument ''orders'', an_body = ''{}'', an_options = lateOptions\<rparr>"

theorem announcer_registers_until_accepted_witness:
  "\<exists>sent beats. an_world (snd (Announcer_Run False (\<lambda>hb. Some ''{}'') 3 (Some lateAnnouncer) background
      \<lparr>an_now = 0, an_registered = False, an_world = []\<rparr>)) = sent @ beats \<and>
    length sent \<le> 2 \<and> length (filter (\<lambda>e. fst e = TopicHeartbeat) beats) \<le> 3"
proof -
  have "observes (\<lambda>w. w) lateAnnouncer"
    by (auto simp: observes_def lateAnnouncer_def lateCollector_def lateOptions_def Let_def)
  from announcer_registers_until_accepted [OF this, of "\<lparr>an_now = 0, an_registered = False, an_world = []\<rparr>" False
      "\<lambda>hb. Some ''{}''" 3 background]
  show ?thesis by (simp add: lateAnnouncer_def lateOptions_def) blast
qed

text \<open>
  Once a registration was accepted nothing the collector answers makes the announcer register again,
  not even a heartbeat it refuses because it restarted.
\<close>

lemma never_registers_again:
  assumes "an_registered s" and "observes sends a"
  shows "\<exists>new. sends (an_world (snd (beatLoop tie encode a c start due n s))) = sends (an_world s) @ new \<and>
    TopicRegister \<notin> fst ` set new"
  using beatLoop_log [OF assms(2), of s tie encode c start due n] assms(1) allowed_registered
  by (fastforce simp: extends_def)

end
