(* ===== verification/Validation.thy ===== *)
theory Validation
  imports Router WireJson GoStrings
begin

text \<open>
  Request validation (\<^verbatim>\<open>validation/validation.go\<close>): validators and how they combine, the wrapper that
  runs one before a handler, and the JSON Pointer that names the value a rule rejected.
\<close>

section \<open>Validators\<close>

text \<open>
  A validator is the application's code: it reads the request and may do anything else, panic included.
  \<open>None\<close> is a nil validator or a nil function.
\<close>

type_synonym ('q, 'v, 'w) validator = "'q \<Rightarrow> ('v, 'w) st \<Rightarrow> problem_error list outcome \<times> ('v, 'w) st"

definition Validate :: "('q, 'v, 'w) validator \<Rightarrow> ('q, 'v, 'w) validator" where
  "Validate f request = f request"

definition ValidatorMessages ::
  "('q \<Rightarrow> ('v, 'w) st \<Rightarrow> string list outcome \<times> ('v, 'w) st) option \<Rightarrow> ('q, 'v, 'w) validator option" where
  "ValidatorMessages validate = (case validate of
      None \<Rightarrow> None
    | Some f \<Rightarrow> Some (\<lambda>request s. andThen (f request s) (\<lambda>messages s1.
        (Return (if messages = [] then [] else map messageOnly messages), s1))))"

definition Validated ::
  "('q, 'v, 'w) validator option \<Rightarrow> ('q, 'v, 'w) handler \<Rightarrow> ('q, 'v, 'w) handler" where
  "Validated validator handler = (case validator of
      None \<Rightarrow> handler
    | Some v \<Rightarrow> (\<lambda>c request s. andThen (Validate v request s) (\<lambda>errors s1.
        if errors \<noteq> [] then (ValidationErrorWith errors, s1) else handler c request s1)))"

fun combineFrom ::
  "('q, 'v, 'w) validator option list \<Rightarrow> problem_error list \<Rightarrow> ('q, 'v, 'w) validator" where
  "combineFrom [] errors request s = (Return errors, s)"
| "combineFrom (None # validators) errors request s = combineFrom validators errors request s"
| "combineFrom (Some v # validators) errors request s =
     andThen (Validate v request s) (\<lambda>more s1. combineFrom validators (errors @ more) request s1)"

definition Combine :: "('q, 'v, 'w) validator option list \<Rightarrow> ('q, 'v, 'w) validator option" where
  "Combine validators = Some (combineFrom validators [])"

section \<open>JSON Pointers\<close>

text \<open>
  A token of type \<^verbatim>\<open>any\<close>: a string, an integer, or a value of another type with what \<^verbatim>\<open>fmt.Sprint\<close>
  writes for it.
\<close>

datatype pointerToken = TokString string | TokInt int | TokSprint string

fun goSprint :: "pointerToken \<Rightarrow> string" where
  "goSprint (TokString s) = s"
| "goSprint (TokInt i) = intText i"
| "goSprint (TokSprint s) = s"

definition pointerEscaper :: "string \<Rightarrow> string" where
  "pointerEscaper s =
    concat (map (\<lambda>c. if c = CHR ''~'' then ''~0'' else if c = CHR ''/'' then ''~1'' else [c]) s)"

definition Pointer :: "pointerToken list \<Rightarrow> string" where
  "Pointer tokens = concat (map (\<lambda>token. CHR ''/'' # pointerEscaper (goSprint token)) tokens)"

section \<open>Reading a pointer, as RFC 6901 does\<close>

fun unescapeToken :: "string \<Rightarrow> string" where
  "unescapeToken (c # d # cs) =
    (if c = CHR ''~'' \<and> d = CHR ''0'' then CHR ''~'' # unescapeToken cs
     else if c = CHR ''~'' \<and> d = CHR ''1'' then CHR ''/'' # unescapeToken cs
     else c # unescapeToken (d # cs))"
| "unescapeToken cs = cs"

fun referenceTokens :: "string \<Rightarrow> string list option" where
  "referenceTokens [] = Some []"
| "referenceTokens (c # cs) =
    (if c = CHR ''/'' then Some (map unescapeToken (splitOn (CHR ''/'') cs)) else None)"

fun childAt :: "json \<Rightarrow> string \<Rightarrow> json option" where
  "childAt (JObj ms) token = map_of ms token"
| "childAt (JArr js) token =
    (case List.find (\<lambda>i. natText i = token) [0..<length js] of Some i \<Rightarrow> Some (js ! i) | None \<Rightarrow> None)"
| "childAt j token = None"

definition walk :: "json \<Rightarrow> string list \<Rightarrow> json option" where
  "walk doc tokens = fold (\<lambda>token at. case at of None \<Rightarrow> None | Some j \<Rightarrow> childAt j token) tokens (Some doc)"

definition resolvePointer :: "json \<Rightarrow> string \<Rightarrow> json option" where
  "resolvePointer doc pointer = (case referenceTokens pointer of None \<Rightarrow> None | Some ts \<Rightarrow> walk doc ts)"

section \<open>Lemmas\<close>

lemma unescape_escaper: "unescapeToken (pointerEscaper s) = s"
proof (induction s)
  case (Cons c s)
  have plain: "unescapeToken (d # t) = d # unescapeToken t" if "d \<noteq> CHR ''~''" for d t
    using that by (cases t) simp_all
  from Cons show ?case by (auto simp: pointerEscaper_def plain)
qed (simp add: pointerEscaper_def)

lemma escaper_no_slash: "CHR ''/'' \<notin> set (pointerEscaper s)"
  by (auto simp: pointerEscaper_def split: if_splits)

lemma Pointer_Cons: "Pointer (t # ts) = CHR ''/'' # pointerEscaper (goSprint t) @ Pointer ts"
  by (simp add: Pointer_def)

lemma splitOn_Pointer:
  "splitOn (CHR ''/'') (pointerEscaper (goSprint t) @ Pointer ts) =
    pointerEscaper (goSprint t) # map (\<lambda>u. pointerEscaper (goSprint u)) ts"
proof (induction ts arbitrary: t)
  case Nil
  show ?case by (simp add: Pointer_def splitOn_piece escaper_no_slash)
next
  case (Cons u ts)
  show ?case by (simp add: Pointer_Cons splitOn_append escaper_no_slash Cons)
qed

lemma reference_tokens: "referenceTokens (Pointer ts) = Some (map goSprint ts)"
  by (cases ts) (simp_all add: Pointer_def [of "[]"] Pointer_Cons splitOn_Pointer unescape_escaper comp_def)

lemma resolve_Pointer: "resolvePointer doc (Pointer ts) = walk doc (map goSprint ts)"
  by (simp add: resolvePointer_def reference_tokens)

lemma walk_snoc:
  "walk doc (ts @ [t]) = (case walk doc ts of None \<Rightarrow> None | Some j \<Rightarrow> childAt j t)"
  by (simp add: walk_def)

lemma natText_inject [simp]: "natText m = natText n \<longleftrightarrow> m = n"
  by (metis natOf_natText)

lemma intText_int [simp]: "intText (int n) = natText n"
  by (simp add: intText_def)

lemma childAt_index: "childAt (JArr js) (natText i) = (if i < length js then Some (js ! i) else None)"
proof -
  have "List.find (\<lambda>k. k = i) ks = (if i \<in> set ks then Some i else None)" for ks
    by (induction ks) auto
  then show ?thesis by simp
qed

text \<open>The errors a list of validators reports, each run in the state the one before it left.\<close>

inductive reports ::
  "('q, 'v, 'w) validator option list \<Rightarrow> 'q \<Rightarrow> ('v, 'w) st \<Rightarrow> problem_error list \<Rightarrow> ('v, 'w) st \<Rightarrow> bool" where
  none: "reports [] q s [] s"
| skipped: "reports vs q s errs s' \<Longrightarrow> reports (None # vs) q s errs s'"
| ran: "v q s = (Return es, s1) \<Longrightarrow> reports vs q s1 errs s' \<Longrightarrow> reports (Some v # vs) q s (es @ errs) s'"

inductive_cases reports_NilE: "reports [] q s errs s'"
inductive_cases reports_NoneE: "reports (None # vs) q s errs s'"
inductive_cases reports_SomeE: "reports (Some v # vs) q s errs s'"

lemma combine_reports:
  "combineFrom vs pre q s = (Return all, s') \<longleftrightarrow> (\<exists>errs. all = pre @ errs \<and> reports vs q s errs s')"
proof (induction vs pre q s rule: combineFrom.induct)
  case (1 pre q s)
  show ?case by (auto intro: reports.none elim: reports_NilE)
next
  case (2 vs pre q s)
  then show ?case by (auto intro: reports.skipped elim: reports_NoneE)
next
  case (3 v vs pre q s)
  show ?case
  proof (cases "v q s")
    case (Pair r s1)
    show ?thesis
    proof (cases r)
      case (Return es)
      with Pair 3 [of es s1] show ?thesis
        by (fastforce simp: Validate_def intro: reports.ran elim: reports_SomeE)
    next
      case (Panic p)
      with Pair show ?thesis by (auto simp: Validate_def elim: reports_SomeE)
    qed
  qed
qed

lemma ValidationErrorWith_Return:
  "ValidationErrorWith errs =
    Return ((resultOf StatusValidationError)\<lparr>r_Errors := errs, r_successful := Some False\<rparr>)"
  by (simp add: ValidationErrorWith_def FailWith_Return)

lemma validated_Combine:
  assumes "reports vs q s errs s1"
  shows "Validated (Combine vs) handler c q s =
    (if errs = [] then handler c q s1
     else (Return ((resultOf StatusValidationError)\<lparr>r_Errors := errs, r_successful := Some False\<rparr>), s1))"
proof -
  have "combineFrom vs [] q s = (Return errs, s1)"
    using assms by (simp add: combine_reports)
  then show ?thesis by (simp add: Validated_def Combine_def Validate_def ValidationErrorWith_Return)
qed

lemma no_reports_panics:
  assumes "\<nexists>errs s1. reports vs q s errs s1"
  shows "\<exists>p s1. Validated (Combine vs) handler c q s = (Panic p, s1)"
proof -
  have "\<nexists>errs s1. combineFrom vs [] q s = (Return errs, s1)"
    using assms by (simp add: combine_reports)
  then obtain p s1 where "combineFrom vs [] q s = (Panic p, s1)"
    by (metis outcome.exhaust surj_pair)
  then show ?thesis by (simp add: Validated_def Combine_def Validate_def)
qed

section \<open>Properties\<close>

text \<open>A pointer built from tokens reads back, by the rules of RFC 6901, as the text of
  exactly those tokens, whatever characters they contain, so two token lists with different texts have
  different pointers; and one more token steps to the member of that name or the array element of that
  index of the value the pointer addressed, and to nothing when there is none.\<close>

theorem pointer_addresses_value:
  "referenceTokens (Pointer tokens) = Some (map goSprint tokens) \<and>
   (Pointer tokens = Pointer others \<longleftrightarrow> map goSprint tokens = map goSprint others) \<and>
   resolvePointer doc (Pointer []) = Some doc \<and>
   resolvePointer doc (Pointer (tokens @ [TokString name])) =
     (case resolvePointer doc (Pointer tokens) of Some (JObj ms) \<Rightarrow> map_of ms name
       | Some (JArr js) \<Rightarrow> childAt (JArr js) name | _ \<Rightarrow> None) \<and>
   resolvePointer doc (Pointer (tokens @ [TokInt (int i)])) =
     (case resolvePointer doc (Pointer tokens) of Some (JObj ms) \<Rightarrow> map_of ms (natText i)
       | Some (JArr js) \<Rightarrow> if i < length js then Some (js ! i) else None | _ \<Rightarrow> None)"
proof (intro conjI)
  show "referenceTokens (Pointer tokens) = Some (map goSprint tokens)" by (rule reference_tokens)
  show "Pointer tokens = Pointer others \<longleftrightarrow> map goSprint tokens = map goSprint others"
  proof
    assume "Pointer tokens = Pointer others"
    then show "map goSprint tokens = map goSprint others"
      using reference_tokens [of tokens] reference_tokens [of others] by simp
  next
    assume "map goSprint tokens = map goSprint others"
    moreover have "Pointer ts = concat (map (\<lambda>t. CHR ''/'' # pointerEscaper t) (map goSprint ts))" for ts
      by (simp add: Pointer_def comp_def)
    ultimately show "Pointer tokens = Pointer others" by (simp only:)
  qed
  show "resolvePointer doc (Pointer []) = Some doc" by (simp add: resolve_Pointer walk_def)
qed (simp_all add: resolve_Pointer walk_snoc childAt_index split: option.splits json.splits del: childAt.simps(2))

text \<open>C29 (safety). A handler that was registered behind validators only ever sees a request that all of
  them accepted: when one reports anything, the caller gets a validation-error failure that carries every
  reported error, in the order of the validators, with its field and code, HTTP 422, and the handler does
  not run; when none does, the handler's answer is the caller's; and a validator that panics stops the
  request before the handler.\<close>

theorem handler_sees_valid_requests:
  assumes "convertRequest T raw = Inr q"
  shows "(reports vs q s errs s1 \<and> errs \<noteq> [] \<longrightarrow>
      (\<exists>info. eraseHandler topic T resType (Validated (Combine vs) handler) c raw s = (Return (Inr info), s1) \<and>
        ResultStatus info = StatusValidationError \<and> ProblemsOf info = errs \<and>
        asSuccessInfo info = Some False \<and> ToHTTP (ResultStatus info) [False] = 422)) \<and>
    (reports vs q s [] s1 \<longrightarrow>
      eraseHandler topic T resType (Validated (Combine vs) handler) c raw s =
        andThen (handler c q s1) (\<lambda>r s2. (Return (Inr (asResultInfo resType r)), s2))) \<and>
    ((\<nexists>es s2. reports vs q s es s2) \<longrightarrow>
      (\<exists>p s2. eraseHandler topic T resType (Validated (Combine vs) handler) c raw s = (Panic p, s2)))"
proof (intro conjI impI, goal_cases)
  case 1
  then have r: "reports vs q s errs s1" and ne: "errs \<noteq> []" by auto
  let ?r = "(resultOf StatusValidationError)\<lparr>r_Errors := errs, r_successful := Some False\<rparr>"
  have "eraseHandler topic T resType (Validated (Combine vs) handler) c raw s =
      (Return (Inr (asResultInfo resType ?r)), s1)"
    using validated_Combine [OF r, of handler c] ne by (simp add: eraseHandler_def assms)
  moreover have "ToHTTP StatusValidationError [False] = 422" by code_simp
  ultimately show ?case
    by (intro exI [of _ "asResultInfo resType ?r"])
      (simp add: asResultInfo_def ProblemsOf_def IsSuccessful_def)
next
  case 2
  then show ?case using validated_Combine [OF 2, of handler c] by (simp add: eraseHandler_def assms)
next
  case 3
  then show ?case using no_reports_panics [OF 3, of handler c] by (auto simp: eraseHandler_def assms)
qed

text \<open>An order with an empty sku and a negative quantity, behind one validator for each.\<close>

definition orderType :: "(nat, string \<times> int) reqtype" where
  "orderType = \<lparr>rt_name = ''order'', rt_assert = (\<lambda>a. None),
    rt_unmarshal = (\<lambda>d. Inr ('''', -1))\<rparr>"

definition skuError :: problem_error where
  "skuError = \<lparr>pe_Message = ''sku is required'', pe_Field = Pointer [TokString ''items'', TokInt 0, TokString ''sku''],
     pe_Code = ''required''\<rparr>"

definition orderValidators :: "(string \<times> int, nat, unit) validator option list" where
  "orderValidators = [Some (\<lambda>q s. (Return (if fst q = '''' then [skuError] else []), s)), None,
     ValidatorMessages (Some (\<lambda>q s. (Return (if snd q < 0 then [''quantity''] else []), s)))]"

theorem handler_sees_valid_requests_witness:
  "\<forall>s. \<exists>info. eraseHandler (NewTopic ''order'') orderType ''receipt''
      (Validated (Combine orderValidators) (\<lambda>c q s. (Panic ''reached'', s))) background (ByteSlice ''{}'') s =
      (Return (Inr info), s) \<and> ProblemsOf info = [skuError, messageOnly ''quantity'']"
proof
  fix s :: "(nat, unit) st"
  have conv: "convertRequest orderType (ByteSlice ''{}'') = Inr ('''', -1)"
    by (simp add: convertRequest_def orderType_def unmarshalInto_def)
  have "reports orderValidators ('''', -1) s ([skuError] @ [messageOnly ''quantity''] @ []) s"
    unfolding orderValidators_def ValidatorMessages_def option.case
    by (rule reports.ran reports.skipped reports.none | simp)+
  then have "reports orderValidators ('''', -1) s [skuError, messageOnly ''quantity''] s \<and>
      [skuError, messageOnly ''quantity''] \<noteq> []" by simp
  from handler_sees_valid_requests [OF conv, THEN conjunct1, THEN mp, OF this, of "NewTopic ''order''"
      "''receipt''" "\<lambda>c q s. (Panic ''reached'', s)" background]
  show "\<exists>info. eraseHandler (NewTopic ''order'') orderType ''receipt''
      (Validated (Combine orderValidators) (\<lambda>c q s. (Panic ''reached'', s))) background (ByteSlice ''{}'') s =
      (Return (Inr info), s) \<and> ProblemsOf info = [skuError, messageOnly ''quantity'']"
    by (elim exE conjE) (rule exI, rule conjI)
qed

end
