(* ===== verification/GoURL.thy ===== *)
theory GoURL
  imports GoStrings
begin

text \<open>
  \<^verbatim>\<open>url.Parse\<close> of Go 1.24 on bytes: the scheme, the authority with its host, and which texts it
  refuses. Of the path, the query and the fragment only whether they are well formed. Nothing here has
  an entry in the source map.
\<close>

record url =
  url_Scheme :: string
  url_Host :: string

section \<open>Pieces\<close>

definition cutAt :: "char \<Rightarrow> string \<Rightarrow> string \<times> string" where
  "cutAt sep s = (case indexByte s sep of None \<Rightarrow> (s, '''') | Some i \<Rightarrow> (take i s, drop (Suc i) s))"

definition lastIndexByte :: "string \<Rightarrow> char \<Rightarrow> nat option" where
  "lastIndexByte s b = map_option (\<lambda>i. length s - Suc i) (indexByte (rev s) b)"

definition letterChar :: "char \<Rightarrow> bool" where
  "letterChar c \<longleftrightarrow> (CHR ''a'' \<le> c \<and> c \<le> CHR ''z'') \<or> (CHR ''A'' \<le> c \<and> c \<le> CHR ''Z'')"

definition digitByte :: "char \<Rightarrow> bool" where
  "digitByte c \<longleftrightarrow> CHR ''0'' \<le> c \<and> c \<le> CHR ''9''"

definition controlChar :: "char \<Rightarrow> bool" where
  "controlChar c \<longleftrightarrow> (of_char c :: nat) < 32 \<or> (of_char c :: nat) = 127"

definition hexValue :: "char \<Rightarrow> nat" where
  "hexValue c = (if digitByte c then of_char c - 48 else of_char (toLowerChar c) - 87)"

text \<open>Percent escapes: which escapes and which other bytes a part of the URL may have.\<close>

fun pctDecode :: "(char \<Rightarrow> char \<Rightarrow> bool) \<Rightarrow> (char \<Rightarrow> bool) \<Rightarrow> string \<Rightarrow> string option" where
  "pctDecode escape literal [] = Some []"
| "pctDecode escape literal (c # cs) =
    (if c = CHR ''%'' then (case cs of
         a # b # r \<Rightarrow> if hexChar a \<and> hexChar b \<and> escape a b
           then map_option (\<lambda>t. char_of (16 * hexValue a + hexValue b) # t) (pctDecode escape literal r)
           else None
       | _ \<Rightarrow> None)
     else if literal c then map_option (\<lambda>t. c # t) (pctDecode escape literal cs) else None)"

definition hostChar :: "char \<Rightarrow> bool" where
  "hostChar c \<longleftrightarrow> letterChar c \<or> digitByte c \<or> 128 \<le> (of_char c :: nat) \<or>
     c \<in> set ''-_.~!$&()*+,;=:[]<>'' \<or> c = CHR 0x27 \<or> c = CHR 0x22"

definition percent25 :: "char \<Rightarrow> char \<Rightarrow> bool" where
  "percent25 a b \<longleftrightarrow> a = CHR ''2'' \<and> b = CHR ''5''"

definition unescapeHost :: "string \<Rightarrow> string option" where
  "unescapeHost s = pctDecode (\<lambda>a b. 8 \<le> hexValue a \<or> percent25 a b) hostChar s"

definition unescapeZone :: "string \<Rightarrow> string option" where
  "unescapeZone s = pctDecode
     (\<lambda>a b. percent25 a b \<or> 16 * hexValue a + hexValue b = 32 \<or>
        (let v = char_of (16 * hexValue a + hexValue b) in hostChar v \<and> (of_char v :: nat) < 128))
     hostChar s"

definition unescapes :: "string \<Rightarrow> bool" where
  "unescapes s \<longleftrightarrow> pctDecode (\<lambda>a b. True) (\<lambda>c. True) s \<noteq> None"

section \<open>The authority\<close>

definition validOptionalPort :: "string \<Rightarrow> bool" where
  "validOptionalPort port = (case port of [] \<Rightarrow> True | c # cs \<Rightarrow> c = CHR '':'' \<and> list_all digitByte cs)"

fun indexOf25 :: "string \<Rightarrow> nat option" where
  "indexOf25 (a # b # c # cs) =
    (if [a, b, c] = ''%25'' then Some 0 else map_option Suc (indexOf25 (b # c # cs)))"
| "indexOf25 _ = None"

definition parseHost :: "string \<Rightarrow> string option" where
  "parseHost host =
    (if hasPrefix host ''['' then (case lastIndexByte host (CHR '']'') of
         None \<Rightarrow> None
       | Some i \<Rightarrow>
           if \<not> validOptionalPort (drop (Suc i) host) then None
           else (case indexOf25 (take i host) of
               Some zone \<Rightarrow> (case (unescapeHost (take zone host), unescapeZone (drop zone (take i host)),
                   unescapeHost (drop i host)) of
                 (Some h1, Some h2, Some h3) \<Rightarrow> Some (h1 @ h2 @ h3)
               | _ \<Rightarrow> None)
             | None \<Rightarrow> unescapeHost host))
     else (case lastIndexByte host (CHR '':'') of
         Some i \<Rightarrow> if \<not> validOptionalPort (drop i host) then None else unescapeHost host
       | None \<Rightarrow> unescapeHost host))"

definition validUserinfo :: "string \<Rightarrow> bool" where
  "validUserinfo s \<longleftrightarrow> list_all (\<lambda>c. letterChar c \<or> digitByte c \<or> c \<in> set ''-._:~!$&()*+,;=%@'' \<or>
     c = CHR 0x27) s"

definition parseAuthority :: "string \<Rightarrow> string option" where
  "parseAuthority authority = (case lastIndexByte authority (CHR ''@'') of
      None \<Rightarrow> parseHost authority
    | Some i \<Rightarrow> (case parseHost (drop (Suc i) authority) of
        None \<Rightarrow> None
      | Some host \<Rightarrow>
          (let userinfo = take i authority; (user, password) = cutAt (CHR '':'') userinfo in
           if validUserinfo userinfo \<and> unescapes user \<and> unescapes password then Some host else None)))"

section \<open>The URL\<close>

text \<open>The scheme and the rest; \<open>None\<close> is an error.\<close>

fun schemeFrom :: "string \<Rightarrow> string \<Rightarrow> string \<Rightarrow> (string \<times> string) option" where
  "schemeFrom raw seen [] = Some ('''', raw)"
| "schemeFrom raw seen (c # cs) =
    (if letterChar c then schemeFrom raw (seen @ [c]) cs
     else if digitByte c \<or> c \<in> set ''+-.'' then
       (if seen = '''' then Some ('''', raw) else schemeFrom raw (seen @ [c]) cs)
     else if c = CHR '':'' then (if seen = '''' then None else Some (seen, cs))
     else Some ('''', raw))"

definition getScheme :: "string \<Rightarrow> (string \<times> string) option" where
  "getScheme raw = schemeFrom raw '''' raw"

definition parseRest :: "string \<Rightarrow> string \<Rightarrow> url option" where
  "parseRest scheme rest0 =
    (let rest = fst (cutAt (CHR ''?'') rest0) in
     if \<not> hasPrefix rest ''/'' \<and> scheme \<noteq> '''' then Some \<lparr>url_Scheme = scheme, url_Host = ''''\<rparr>
     else if \<not> hasPrefix rest ''/'' \<and> CHR '':'' \<in> set (fst (cutAt (CHR ''/'') rest)) then None
     else if (scheme \<noteq> '''' \<or> \<not> hasPrefix rest ''///'') \<and> hasPrefix rest ''//'' then
       (let authority = fst (cutAt (CHR ''/'') (drop 2 rest));
            path = drop (length authority) (drop 2 rest) in
        case parseAuthority authority of
          None \<Rightarrow> None
        | Some host \<Rightarrow>
            if unescapes path then Some \<lparr>url_Scheme = scheme, url_Host = host\<rparr> else None)
     else if unescapes rest then Some \<lparr>url_Scheme = scheme, url_Host = ''''\<rparr> else None)"

definition urlParse :: "string \<Rightarrow> url option" where
  "urlParse rawURL =
    (let (u, frag) = cutAt (CHR ''#'') rawURL in
     if list_ex controlChar u then None
     else if u = ''*'' then
       (if unescapes frag then Some \<lparr>url_Scheme = '''', url_Host = ''''\<rparr> else None)
     else (case getScheme u of
         None \<Rightarrow> None
       | Some (scheme, rest) \<Rightarrow> (case parseRest (toLower scheme) rest of
           None \<Rightarrow> None
         | Some p \<Rightarrow> if unescapes frag then Some p else None)))"

definition isAbs :: "url \<Rightarrow> bool" where
  "isAbs u \<longleftrightarrow> url_Scheme u \<noteq> ''''"

definition urlHostname :: "url \<Rightarrow> string" where
  "urlHostname u =
    (let hostPort = url_Host u;
         host = (case lastIndexByte hostPort (CHR '':'') of
             Some i \<Rightarrow> if validOptionalPort (drop i hostPort) then take i hostPort else hostPort
           | None \<Rightarrow> hostPort) in
     if hasPrefix host ''['' \<and> hasSuffix host '']'' then take (length host - 2) (drop 1 host) else host)"

section \<open>Lemmas\<close>

lemma indexByte_None: "indexByte s b = None \<longleftrightarrow> b \<notin> set s"
  by (induction s) auto

lemma cutAt_absent: "c \<notin> set s \<Longrightarrow> cutAt c s = (s, '''')"
  by (simp add: cutAt_def flip: indexByte_None)

lemma lastIndexByte_absent: "b \<notin> set s \<Longrightarrow> lastIndexByte s b = None"
  using indexByte_None [of "rev s" b] by (simp add: lastIndexByte_def)

lemma indexByte_append: "b \<notin> set p \<Longrightarrow> indexByte (p @ b # s) b = Some (length p)"
  by (induction p) auto

lemma lastIndexByte_append: "b \<notin> set p \<Longrightarrow> lastIndexByte (s @ b # p) b = Some (length s)"
  using indexByte_append [of b "rev p" "rev s"] by (simp add: lastIndexByte_def)

lemma pctDecode_literal: "list_all literal s \<Longrightarrow> CHR ''%'' \<notin> set s \<Longrightarrow> pctDecode e literal s = Some s"
  by (induction s) auto

lemma schemeFrom_letters:
  "list_all letterChar s \<Longrightarrow> seen @ s \<noteq> '''' \<Longrightarrow> schemeFrom raw seen (s @ CHR '':'' # r) = Some (seen @ s, r)"
proof (induction s arbitrary: seen)
  case Nil
  then show ?case by (simp add: letterChar_def less_eq_char_def digitByte_def)
qed simp

text \<open>
  An origin as a client sends it (RFC 6454): a scheme of letters, and a host of plain host characters
  with an optional port of digits.
\<close>

definition plainHostChar :: "char \<Rightarrow> bool" where
  "plainHostChar c \<longleftrightarrow> letterChar c \<or> digitByte c \<or> c \<in> set ''-_.''"

definition serialHost :: "string \<Rightarrow> string option \<Rightarrow> string" where
  "serialHost host port = host @ (case port of None \<Rightarrow> '''' | Some p \<Rightarrow> CHR '':'' # p)"

definition validSerialHost :: "string \<Rightarrow> string option \<Rightarrow> bool" where
  "validSerialHost host port \<longleftrightarrow> host \<noteq> '''' \<and> list_all plainHostChar host \<and>
     (case port of None \<Rightarrow> True | Some p \<Rightarrow> list_all digitByte p)"


lemma plainHostChar_excludes:
  assumes "list_all plainHostChar s"
  shows "CHR ''%'' \<notin> set s" "CHR ''?'' \<notin> set s" "CHR ''#'' \<notin> set s" "CHR ''/'' \<notin> set s"
    "CHR '':'' \<notin> set s" "CHR ''@'' \<notin> set s" "CHR ''['' \<notin> set s" "CHR '']'' \<notin> set s"
  using assms by (auto simp: list_all_iff plainHostChar_def letterChar_def digitByte_def less_eq_char_def)

lemma digit_excludes:
  assumes "list_all digitByte s"
  shows "CHR ''%'' \<notin> set s" "CHR ''?'' \<notin> set s" "CHR ''#'' \<notin> set s" "CHR ''/'' \<notin> set s"
    "CHR '':'' \<notin> set s" "CHR ''@'' \<notin> set s" "CHR ''['' \<notin> set s" "CHR '']'' \<notin> set s"
  using assms by (auto simp: list_all_iff digitByte_def less_eq_char_def)

lemma plain_hostChar: "plainHostChar c \<Longrightarrow> hostChar c"
  by (auto simp: plainHostChar_def hostChar_def)

lemma digit_hostChar: "digitByte c \<Longrightarrow> hostChar c" and colon_hostChar: "hostChar (CHR '':'')"
  by (auto simp: hostChar_def)

lemma serialHost_excludes:
  assumes "validSerialHost host port"
  shows "CHR ''%'' \<notin> set (serialHost host port)" "CHR ''?'' \<notin> set (serialHost host port)"
    "CHR ''#'' \<notin> set (serialHost host port)" "CHR ''/'' \<notin> set (serialHost host port)"
    "CHR ''@'' \<notin> set (serialHost host port)" "serialHost host port \<noteq> ''''"
    "list_all hostChar (serialHost host port)"
  using assms plainHostChar_excludes [of host] digit_excludes [of "the port"]
  by (auto simp: serialHost_def validSerialHost_def list_all_iff plain_hostChar digit_hostChar colon_hostChar
      split: option.splits)

lemma plain_no_bracket: "list_all plainHostChar host \<Longrightarrow> host \<noteq> '''' \<Longrightarrow> \<not> hasPrefix (host @ r) ''[''"
  using plainHostChar_excludes(7) [of host] by (cases host) (auto simp: hasPrefix_def)

lemma parseHost_serial:
  assumes "validSerialHost host port"
  shows "parseHost (serialHost host port) = Some (serialHost host port)"
proof -
  have h: "list_all plainHostChar host" "host \<noteq> ''''" and p: "\<And>q. port = Some q \<Longrightarrow> list_all digitByte q"
    using assms by (auto simp: validSerialHost_def)
  have nb: "\<not> hasPrefix (serialHost host port) ''[''"
    unfolding serialHost_def using h by (rule plain_no_bracket)
  have un: "unescapeHost (serialHost host port) = Some (serialHost host port)"
    unfolding unescapeHost_def using serialHost_excludes [OF assms] by (simp add: pctDecode_literal)
  show ?thesis
  proof (cases port)
    case None
    then have "lastIndexByte (serialHost host port) (CHR '':'') = None"
      using plainHostChar_excludes(5) [OF h(1)] by (simp add: serialHost_def lastIndexByte_absent)
    with nb un show ?thesis by (simp add: parseHost_def)
  next
    case (Some q)
    then have "lastIndexByte (serialHost host port) (CHR '':'') = Some (length host)"
      using digit_excludes(5) [OF p [OF Some]] by (simp add: serialHost_def lastIndexByte_append)
    moreover have "validOptionalPort (drop (length host) (serialHost host port))"
      using p [OF Some] Some by (simp add: serialHost_def validOptionalPort_def)
    ultimately show ?thesis using nb un by (simp add: parseHost_def)
  qed
qed

lemma hostname_serial:
  assumes "validSerialHost host port"
  shows "urlHostname \<lparr>url_Scheme = s, url_Host = serialHost host port\<rparr> = host"
proof -
  have h: "list_all plainHostChar host" "host \<noteq> ''''" and p: "\<And>q. port = Some q \<Longrightarrow> list_all digitByte q"
    using assms by (auto simp: validSerialHost_def)
  have nb: "\<not> hasPrefix host ''[''" using plain_no_bracket [OF h, of "''''"] by simp
  show ?thesis
  proof (cases port)
    case None
    then show ?thesis
      using plainHostChar_excludes(5) [OF h(1)] nb by (simp add: urlHostname_def serialHost_def lastIndexByte_absent)
  next
    case (Some q)
    then show ?thesis
      using digit_excludes(5) [OF p [OF Some]] nb p [OF Some]
      by (simp add: urlHostname_def serialHost_def lastIndexByte_append validOptionalPort_def)
  qed
qed

lemma scheme_excludes:
  assumes "list_all letterChar s"
  shows "CHR ''#'' \<notin> set s" "list_ex controlChar s \<Longrightarrow> False" "CHR ''*'' \<notin> set s"
  using assms by (auto simp: list_all_iff list_ex_iff letterChar_def controlChar_def less_eq_char_def)

lemma hostChar_not_control: "list_all plainHostChar s \<Longrightarrow> \<not> list_ex controlChar s"
  "list_all digitByte s \<Longrightarrow> \<not> list_ex controlChar s"
  by (auto simp: list_all_iff list_ex_iff plainHostChar_def letterChar_def digitByte_def controlChar_def
      less_eq_char_def)

lemma serial_not_control: "validSerialHost host port \<Longrightarrow> \<not> list_ex controlChar (serialHost host port)"
  using hostChar_not_control [of host] hostChar_not_control(2) [of "the port"]
  by (auto simp: serialHost_def validSerialHost_def controlChar_def split: option.splits)

lemma urlParse_serial:
  assumes s: "list_all letterChar scheme" "scheme \<noteq> ''''" and v: "validSerialHost host port"
  shows "urlParse (scheme @ ''://'' @ serialHost host port) =
    Some \<lparr>url_Scheme = toLower scheme, url_Host = serialHost host port\<rparr>"
proof -
  note X = serialHost_excludes [OF v]
  have cut: "cutAt (CHR ''#'') (scheme @ ''://'' @ serialHost host port) =
      (scheme @ ''://'' @ serialHost host port, '''')"
    using X(3) scheme_excludes(1) [OF s(1)] by (intro cutAt_absent) simp
  have ctl: "\<not> list_ex controlChar (scheme @ ''://'' @ serialHost host port)"
    using serial_not_control [OF v] scheme_excludes(2) [OF s(1)] by (auto simp: controlChar_def)
  have star: "scheme @ ''://'' @ serialHost host port \<noteq> ''*''" by (cases scheme) simp_all
  have sch: "getScheme (scheme @ ''://'' @ serialHost host port) = Some (scheme, ''//'' @ serialHost host port)"
    using schemeFrom_letters [OF s(1), of "''''"] s(2) by (simp add: getScheme_def)
  have "parseRest (toLower scheme) (''//'' @ serialHost host port) =
      Some \<lparr>url_Scheme = toLower scheme, url_Host = serialHost host port\<rparr>"
    using X s(2)
    by (simp add: parseRest_def cutAt_absent hasPrefix_def toLower_def parseAuthority_def lastIndexByte_absent
        parseHost_serial [OF v] unescapes_def)
  then show ?thesis
    unfolding urlParse_def cut Let_def prod.case using ctl star sch by (simp add: unescapes_def)
qed

end
