(* ===== verification/Cors.thy ===== *)
theory Cors
  imports Routing GoURL
begin

text \<open>
  Cross-origin resource sharing (\<^verbatim>\<open>cors/cors.go\<close>): which origins a list of settings allows, and the
  \<^verbatim>\<open>net/http\<close> middleware that answers preflights and marks responses. A response writer is the headers
  set so far, the status once it is written, and the body; a handler takes and returns it with whatever
  state it has. \<open>seconds\<close> is the whole seconds of a duration, which the code computes in floating point.
\<close>

section \<open>Response writers\<close>

record responseWriter =
  rw_Header :: multimap
  rw_Code :: "int option"
  rw_Body :: string

type_synonym 's httpHandler =
  "responseWriter \<Rightarrow> httpRequest \<Rightarrow> 's \<Rightarrow> unit outcome \<times> responseWriter \<times> 's"

definition headerGet :: "multimap \<Rightarrow> string \<Rightarrow> string" where
  "headerGet h name = (case goIndex h (canonicalHeaderKey name) [] of [] \<Rightarrow> '''' | v # vs \<Rightarrow> v)"

definition headerSet :: "string \<Rightarrow> string \<Rightarrow> responseWriter \<Rightarrow> responseWriter" where
  "headerSet name v w = w\<lparr>rw_Header := AList.update (canonicalHeaderKey name) [v] (rw_Header w)\<rparr>"

definition headerAdd :: "string \<Rightarrow> string \<Rightarrow> responseWriter \<Rightarrow> responseWriter" where
  "headerAdd name v w = w\<lparr>rw_Header := AList.update (canonicalHeaderKey name)
     (goIndex (rw_Header w) (canonicalHeaderKey name) [] @ [v]) (rw_Header w)\<rparr>"

definition WriteHeader :: "int \<Rightarrow> responseWriter \<Rightarrow> responseWriter" where
  "WriteHeader code w = (case rw_Code w of None \<Rightarrow> w\<lparr>rw_Code := Some code\<rparr> | Some c \<Rightarrow> w)"

section \<open>Settings and origins\<close>

record corsSettings =
  AllowedOrigins :: "string list"
  AllowedHeaders :: "string list"
  ExposedHeaders :: "string list"
  MaxAge :: int
  AllowCredentials :: bool

fun methodsFrom :: "string list \<Rightarrow> route list \<Rightarrow> string \<Rightarrow> string list" where
  "methodsFrom seen [] path = []"
| "methodsFrom seen (r # rs) path =
    (if rt_Path r \<noteq> path then methodsFrom seen rs path
     else (let verb = toUpper (rt_Method r) in
       if verb \<in> set seen then methodsFrom seen rs path
       else verb # methodsFrom (verb # seen) rs path))"

definition methodsForPath :: "route list \<Rightarrow> string \<Rightarrow> string list" where
  "methodsForPath declared path = methodsFrom [] declared path"

definition recognizedSchemes :: "string list" where
  "recognizedSchemes = [''http'', ''https'', ''ws'', ''wss'']"

definition parseOrigin :: "string \<Rightarrow> url option" where
  "parseOrigin v = (case urlParse v of
      None \<Rightarrow> None
    | Some u \<Rightarrow>
        if \<not> isAbs u \<or> url_Host u = '''' \<or> toLower (url_Scheme u) \<notin> set recognizedSchemes then None
        else Some u)"

definition hostOf :: "string \<Rightarrow> string" where
  "hostOf v = (case parseOrigin v of
      Some u \<Rightarrow> urlHostname u
    | None \<Rightarrow> if hasSuffix v ''/'' then take (length v - 1) v else v)"

definition originMatches :: "string \<Rightarrow> string \<Rightarrow> bool" where
  "originMatches allowed origin \<longleftrightarrow>
    (if allowed = ''*'' then True
     else (case (parseOrigin allowed, parseOrigin origin) of
         (Some a, Some r) \<Rightarrow>
           equalFold (url_Scheme a) (url_Scheme r) \<and> equalFold (url_Host a) (url_Host r)
       | _ \<Rightarrow> equalFold (hostOf allowed) (hostOf origin)))"

definition matchOrigin :: "string list \<Rightarrow> string \<Rightarrow> string" where
  "matchOrigin allowedOrigins origin =
    (if list_ex (\<lambda>allowed. originMatches allowed origin) allowedOrigins then origin else '''')"

definition containsWildcard :: "string list \<Rightarrow> bool" where
  "containsWildcard hs \<longleftrightarrow> list_ex (\<lambda>h. h = ''*'') hs"

definition containsFold :: "string list \<Rightarrow> string \<Rightarrow> bool" where
  "containsFold names target \<longleftrightarrow> list_ex (\<lambda>item. equalFold item target) names"

definition requestedHeadersAllowed :: "string list \<Rightarrow> httpRequest \<Rightarrow> bool" where
  "requestedHeadersAllowed allowedHeaders r \<longleftrightarrow>
    (if containsWildcard allowedHeaders then True
     else (let requested = headerGet (hq_Header r) ''Access-Control-Request-Headers'' in
       if requested = '''' then True
       else list_all (\<lambda>header. containsFold allowedHeaders (trimSpace header)) (splitOn (CHR '','') requested)))"

definition resolveAllowedHeaders :: "string list \<Rightarrow> httpRequest \<Rightarrow> string" where
  "resolveAllowedHeaders allowedHeaders r =
    (if \<not> containsWildcard allowedHeaders then join '','' allowedHeaders
     else (let requested = headerGet (hq_Header r) ''Access-Control-Request-Headers'' in
       if requested \<noteq> '''' then requested else ''*''))"

section \<open>The middleware\<close>

definition grantHeaders ::
  "(int \<Rightarrow> int) \<Rightarrow> corsSettings \<Rightarrow> string \<Rightarrow> string list \<Rightarrow> httpRequest \<Rightarrow> responseWriter \<Rightarrow> responseWriter" where
  "grantHeaders seconds settings matchedOrigin methods r w0 =
    (let w1 = headerSet ''Access-Control-Allow-Origin'' matchedOrigin w0;
         w2 = headerSet ''Access-Control-Allow-Headers'' (resolveAllowedHeaders (AllowedHeaders settings) r) w1;
         w3 = headerSet ''Access-Control-Allow-Methods'' (''OPTIONS,'' @ join '','' methods) w2;
         w4 = (if AllowCredentials settings
           then headerSet ''Access-Control-Allow-Credentials'' ''true'' w3 else w3) in
     if hq_Method r = ''OPTIONS'' then
       (if MaxAge settings > 0
        then headerSet ''Access-Control-Max-Age'' (intText (seconds (MaxAge settings))) w4 else w4)
     else if ExposedHeaders settings \<noteq> [] then
       headerSet ''Access-Control-Expose-Headers'' (join '','' (ExposedHeaders settings)) w4
     else w4)"

definition Middleware ::
  "(int \<Rightarrow> int) \<Rightarrow> corsSettings \<Rightarrow> route list \<Rightarrow> 's httpHandler \<Rightarrow> 's httpHandler" where
  "Middleware seconds settings declared nx w r s =
    (let origin = headerGet (hq_Header r) ''Origin'' in
     if origin = '''' then nx w r s
     else (let methods = methodsForPath declared (hq_Path r) in
       if length methods = 0 then nx w r s
       else (let w1 = headerAdd ''Vary'' ''Origin'' w;
                 matchedOrigin = matchOrigin (AllowedOrigins settings) origin;
                 allowed = (matchedOrigin \<noteq> '''' \<and> requestedHeadersAllowed (AllowedHeaders settings) r);
                 w2 = (if allowed then grantHeaders seconds settings matchedOrigin methods r w1 else w1) in
         if hq_Method r = ''OPTIONS'' then (Return (), WriteHeader 200 w2, s)
         else nx w2 r s)))"

section \<open>Lemmas\<close>

lemma methodsFrom_set:
  "set (methodsFrom seen declared path) =
    {toUpper (rt_Method d) | d. d \<in> set declared \<and> rt_Path d = path} - set seen \<and>
   distinct (methodsFrom seen declared path)"
  by (induction seen declared path rule: methodsFrom.induct) (auto simp: Let_def)

lemma methodsForPath_set:
  "set (methodsForPath declared path) = {toUpper (rt_Method d) | d. d \<in> set declared \<and> rt_Path d = path}"
  "distinct (methodsForPath declared path)"
  using methodsFrom_set [of "[]" declared path] by (simp_all add: methodsForPath_def)

text \<open>The header names of the middleware are in canonical form.\<close>

lemma cors_keys [simp]:
  "canonicalHeaderKey ''Vary'' = ''Vary''"
  "canonicalHeaderKey ''Access-Control-Allow-Origin'' = ''Access-Control-Allow-Origin''"
  "canonicalHeaderKey ''Access-Control-Allow-Headers'' = ''Access-Control-Allow-Headers''"
  "canonicalHeaderKey ''Access-Control-Allow-Methods'' = ''Access-Control-Allow-Methods''"
  "canonicalHeaderKey ''Access-Control-Allow-Credentials'' = ''Access-Control-Allow-Credentials''"
  "canonicalHeaderKey ''Access-Control-Max-Age'' = ''Access-Control-Max-Age''"
  "canonicalHeaderKey ''Access-Control-Expose-Headers'' = ''Access-Control-Expose-Headers''"
  by code_simp+

lemma headerSet_at [simp]:
  "map_of (rw_Header (headerSet k v w)) =
    (\<lambda>n. if n = canonicalHeaderKey k then Some [v] else map_of (rw_Header w) n)"
  "rw_Code (headerSet k v w) = rw_Code w" "rw_Body (headerSet k v w) = rw_Body w"
  by (auto simp: headerSet_def)

lemma headerAdd_at [simp]:
  "map_of (rw_Header (headerAdd k v w)) = (\<lambda>n. if n = canonicalHeaderKey k
     then Some (goIndex (rw_Header w) n [] @ [v]) else map_of (rw_Header w) n)"
  "rw_Code (headerAdd k v w) = rw_Code w" "rw_Body (headerAdd k v w) = rw_Body w"
  by (auto simp: headerAdd_def)

text \<open>The headers a grant may write.\<close>

definition grantNames :: "string list" where
  "grantNames = [''Access-Control-Allow-Origin'', ''Access-Control-Allow-Headers'',
     ''Access-Control-Allow-Methods'', ''Access-Control-Allow-Credentials'', ''Access-Control-Max-Age'',
     ''Access-Control-Expose-Headers'']"

lemma grant_at:
  "map_of (rw_Header (grantHeaders seconds settings o1 ms r w)) ''Access-Control-Allow-Origin'' = Some [o1]"
  "map_of (rw_Header (grantHeaders seconds settings o1 ms r w)) ''Access-Control-Allow-Methods'' =
     Some [''OPTIONS,'' @ join '','' ms]"
  "map_of (rw_Header (grantHeaders seconds settings o1 ms r w)) ''Access-Control-Allow-Credentials'' =
     (if AllowCredentials settings then Some [''true'']
      else map_of (rw_Header w) ''Access-Control-Allow-Credentials'')"
  "n \<notin> set grantNames \<Longrightarrow> map_of (rw_Header (grantHeaders seconds settings o1 ms r w)) n = map_of (rw_Header w) n"
  "rw_Code (grantHeaders seconds settings o1 ms r w) = rw_Code w"
  "rw_Body (grantHeaders seconds settings o1 ms r w) = rw_Body w"
  by (simp_all add: grantHeaders_def Let_def grantNames_def)

lemma toLowerChar_idem: "toLowerChar (toLowerChar c) = toLowerChar c"
proof (cases "CHR ''A'' \<le> c \<and> c \<le> CHR ''Z''")
  case True
  then have b: "65 \<le> (of_char c :: nat)" "(of_char c :: nat) \<le> 90" by (auto simp: less_eq_char_def)
  then have "(of_char (char_of (of_char c + (32 :: nat))) :: nat) = of_char c + 32" by (simp add: of_char_of)
  with True b show ?thesis by (simp add: toLowerChar_def less_eq_char_def)
next
  case False
  then have "toLowerChar c = c" by (simp only: toLowerChar_def if_False)
  then show ?thesis by simp
qed

lemma toLower_idem [simp]: "toLower (toLower s) = toLower s"
  by (simp add: toLower_def toLowerChar_idem)

lemma equalFold_toLower [simp]:
  "equalFold (toLower a) (toLower b) = equalFold a b"
  by (simp add: equalFold_def)

definition recognized :: "string \<Rightarrow> bool" where
  "recognized scheme \<longleftrightarrow> list_all letterChar scheme \<and> toLower scheme \<in> set recognizedSchemes"

text \<open>An origin in the form browsers send it.\<close>

definition serialOrigin :: "string \<Rightarrow> string \<Rightarrow> string option \<Rightarrow> string" where
  "serialOrigin scheme host port = scheme @ ''://'' @ serialHost host port"

lemma parseOrigin_serial:
  assumes "recognized scheme" and "validSerialHost host port"
  shows "parseOrigin (serialOrigin scheme host port) =
    Some \<lparr>url_Scheme = toLower scheme, url_Host = serialHost host port\<rparr>"
proof -
  have l: "list_all letterChar scheme" and k: "toLower scheme \<in> set recognizedSchemes"
    using assms(1) by (auto simp: recognized_def)
  have ne: "scheme \<noteq> ''''" using k by (auto simp: recognizedSchemes_def toLower_def)
  from urlParse_serial [OF l ne assms(2)] k ne serialHost_excludes(6) [OF assms(2)] show ?thesis
    by (simp add: parseOrigin_def serialOrigin_def isAbs_def) (simp add: toLower_def)
qed

lemma schemeFrom_plain:
  "list_all plainHostChar s \<Longrightarrow> schemeFrom raw seen s = Some ('''', raw)"
proof (induction s arbitrary: seen)
  case (Cons c s)
  moreover have "c \<noteq> CHR '':''" using Cons.prems plainHostChar_excludes(5) [of "[c]"] by simp
  ultimately show ?case by auto
qed simp

lemma parseRest_scheme: "parseRest scheme rest = Some p \<Longrightarrow> url_Scheme p = scheme"
  by (auto simp: parseRest_def Let_def split: if_splits option.splits)

lemma parseOrigin_bare:
  assumes "list_all plainHostChar host" and "host \<noteq> ''''"
  shows "parseOrigin host = None"
proof -
  note X = plainHostChar_excludes [OF assms(1)]
  have "getScheme host = Some ('''', host)"
    using schemeFrom_plain [OF assms(1)] by (simp add: getScheme_def)
  then show ?thesis
    using X by (auto simp: parseOrigin_def urlParse_def cutAt_absent toLower_def isAbs_def
        dest: parseRest_scheme split: option.splits if_splits)
qed

lemma hostOf_serial:
  "recognized scheme \<Longrightarrow> validSerialHost host port \<Longrightarrow> hostOf (serialOrigin scheme host port) = host"
  by (simp add: hostOf_def parseOrigin_serial hostname_serial)

lemma hostOf_bare: "list_all plainHostChar host \<Longrightarrow> host \<noteq> '''' \<Longrightarrow> hostOf host = host"
  using plainHostChar_excludes(4) [of host]
  by (auto simp: hostOf_def parseOrigin_bare hasSuffix_def dest!: arg_cong [where f = set] dest: in_set_dropD)

lemma serialHost_fold:
  assumes "validSerialHost h p" and "validSerialHost h' p'"
  shows "equalFold (serialHost h p) (serialHost h' p') \<longleftrightarrow> equalFold h h' \<and> p = p'"
proof -
  have low: "toLower (serialHost g q) = toLower g @ (case q of None \<Rightarrow> '''' | Some d \<Rightarrow> CHR '':'' # d) \<and>
      CHR '':'' \<notin> set (toLower g) \<and> (\<forall>d. q = Some d \<longrightarrow> CHR '':'' \<notin> set d)"
    if v: "validSerialHost g q" for g q
  proof -
    have d: "toLowerChar c = c" if "digitByte c" for c
      using that by (auto simp: digitByte_def toLowerChar_def less_eq_char_def)
    have a: "toLowerChar c \<noteq> CHR '':''" if "plainHostChar c" for c
    proof (cases "CHR ''A'' \<le> c \<and> c \<le> CHR ''Z''")
      case True
      then have "97 \<le> (of_char (toLowerChar c) :: nat)"
        by (auto simp: toLowerChar_def less_eq_char_def of_char_of)
      then show ?thesis by auto
    next
      case False
      then show ?thesis using that plainHostChar_excludes(5) [of "[c]"]
        by (simp only: toLowerChar_def if_False) simp
    qed
    have "list_all plainHostChar g" using v by (simp add: validSerialHost_def)
    then have "CHR '':'' \<notin> set (toLower g)" by (auto simp: toLower_def list_all_iff) (metis a)
    moreover have "map toLowerChar q' = q'" "CHR '':'' \<notin> set q'" if "q = Some q'" for q'
      using v that d digit_excludes(5) [of q'] by (auto simp: validSerialHost_def list_all_iff intro: map_idI)
    moreover have "toLowerChar CHR '':'' = CHR '':''" by code_simp
    ultimately show ?thesis by (auto simp: serialHost_def toLower_def split: option.splits)
  qed
  have cut: "x @ (case q of None \<Rightarrow> '''' | Some d \<Rightarrow> CHR '':'' # d) = y @ (case q' of None \<Rightarrow> '''' | Some d \<Rightarrow> CHR '':'' # d)
      \<longleftrightarrow> x = y \<and> q = q'" if "CHR '':'' \<notin> set x" "CHR '':'' \<notin> set y" for x y q q'
    using that
  proof (induction x arbitrary: y)
    case Nil
    then show ?case by (cases y) (auto split: option.splits)
  next
    case (Cons c x)
    then show ?case by (cases y) (auto split: option.splits)
  qed
  show ?thesis
    using low [OF assms(1)] low [OF assms(2)] cut [of "toLower h" "toLower h'" p p'] by (simp add: equalFold_def)
qed

section \<open>Properties\<close>

text \<open>C31 (functional). Which origins a setting allows, for an origin as browsers send it: a full origin
  allows those with the same scheme, host and port, and only those, letter case apart, so that neither
  another port nor a longer host name slips through; a bare host name allows that host at every
  recognized scheme and port; and a star allows every origin.\<close>

theorem origin_match_exact:
  assumes o: "recognized scheme" "validSerialHost host port"
    and a: "recognized scheme'" "validSerialHost host' port'"
    and b: "list_all plainHostChar bare" "bare \<noteq> ''''"
  shows "(originMatches (serialOrigin scheme' host' port') (serialOrigin scheme host port) \<longleftrightarrow>
      equalFold scheme' scheme \<and> equalFold host' host \<and> port' = port) \<and>
    (originMatches bare (serialOrigin scheme host port) \<longleftrightarrow> equalFold bare host) \<and>
    originMatches ''*'' (serialOrigin scheme host port)"
proof (intro conjI)
  have star: "serialOrigin scheme' host' port' \<noteq> ''*''"
    by (cases scheme') (simp_all add: serialOrigin_def)
  show "originMatches (serialOrigin scheme' host' port') (serialOrigin scheme host port) \<longleftrightarrow>
      equalFold scheme' scheme \<and> equalFold host' host \<and> port' = port"
    using star by (simp add: originMatches_def parseOrigin_serial [OF o] parseOrigin_serial [OF a]
        serialHost_fold [OF a(2) o(2)])
  have "bare \<noteq> ''*''"
    using b(1) by (auto simp: plainHostChar_def letterChar_def digitByte_def less_eq_char_def)
  then show "originMatches bare (serialOrigin scheme host port) \<longleftrightarrow> equalFold bare host"
    by (simp add: originMatches_def parseOrigin_bare [OF b] hostOf_bare [OF b] hostOf_serial [OF o])
qed (simp add: originMatches_def)

theorem origin_match_exact_witness:
  "\<not> originMatches ''https://example.com'' ''https://example.com:8443'' \<and>
   originMatches ''example.com'' ''https://example.com:8443''"
proof -
  have "recognized ''https''" "validSerialHost ''example.com'' (Some ''8443'')"
    "validSerialHost ''example.com'' None" "list_all plainHostChar ''example.com''"
    by code_simp+
  from origin_match_exact [OF this(1,2,1,3,4)] show ?thesis
    by (simp add: serialOrigin_def serialHost_def)
qed

text \<open>When the middleware does anything to a request, and when it grants it.\<close>

definition corsApplies :: "route list \<Rightarrow> httpRequest \<Rightarrow> bool" where
  "corsApplies declared r \<longleftrightarrow> headerGet (hq_Header r) ''Origin'' \<noteq> '''' \<and>
     list_ex (\<lambda>d. rt_Path d = hq_Path r) declared"

definition corsGrants :: "corsSettings \<Rightarrow> httpRequest \<Rightarrow> bool" where
  "corsGrants settings r \<longleftrightarrow>
     list_ex (\<lambda>a. originMatches a (headerGet (hq_Header r) ''Origin'')) (AllowedOrigins settings) \<and>
     requestedHeadersAllowed (AllowedHeaders settings) r"

lemma methodsForPath_Nil: "methodsForPath declared path = [] \<longleftrightarrow> \<not> list_ex (\<lambda>d. rt_Path d = path) declared"
  using methodsForPath_set(1) [of declared path] by (auto simp: list_ex_iff simp flip: set_empty)

text \<open>What the middleware sets before the request is answered or passed on.\<close>

definition corsWriter :: "(int \<Rightarrow> int) \<Rightarrow> corsSettings \<Rightarrow> route list \<Rightarrow> httpRequest \<Rightarrow> responseWriter \<Rightarrow> responseWriter" where
  "corsWriter seconds settings declared r w =
    (let w1 = headerAdd ''Vary'' ''Origin'' w in
     if corsGrants settings r
     then grantHeaders seconds settings (headerGet (hq_Header r) ''Origin'') (methodsForPath declared (hq_Path r)) r w1
     else w1)"

lemma Middleware_cases:
  "Middleware seconds settings declared nx w r s =
    (if \<not> corsApplies declared r then nx w r s
     else if hq_Method r = ''OPTIONS'' then (Return (), WriteHeader 200 (corsWriter seconds settings declared r w), s)
     else nx (corsWriter seconds settings declared r w) r s)"
  by (auto simp: Middleware_def corsApplies_def corsWriter_def corsGrants_def matchOrigin_def
      methodsForPath_Nil Let_def)

text \<open>A page of another origin is told that it may read a response exactly when the settings
  allow its origin and every header its preflight asks for, and then it is told its own origin and exactly
  the methods that routes declare for the path; a preflight is answered with 200 and never reaches the
  application; a request without an origin, or for a path no route declares, is passed on untouched; and
  no other header is written but \<^verbatim>\<open>Vary\<close>, to which the origin is added whatever the answer.\<close>

theorem cors_grants_exactly:
  "Middleware seconds settings declared nx w r s =
      (if \<not> corsApplies declared r then nx w r s
       else if hq_Method r = ''OPTIONS'' then (Return (), WriteHeader 200 (corsWriter seconds settings declared r w), s) else nx (corsWriter seconds settings declared r w) r s) \<and>
    map_of (rw_Header (corsWriter seconds settings declared r w)) ''Access-Control-Allow-Origin'' =
      (if corsGrants settings r then Some [headerGet (hq_Header r) ''Origin'']
       else map_of (rw_Header w) ''Access-Control-Allow-Origin'') \<and>
    map_of (rw_Header (corsWriter seconds settings declared r w)) ''Access-Control-Allow-Methods'' =
      (if corsGrants settings r then Some [''OPTIONS,'' @ join '','' (methodsForPath declared (hq_Path r))]
       else map_of (rw_Header w) ''Access-Control-Allow-Methods'') \<and>
    set (methodsForPath declared (hq_Path r)) =
      {toUpper (rt_Method d) | d. d \<in> set declared \<and> rt_Path d = hq_Path r} \<and>
    distinct (methodsForPath declared (hq_Path r)) \<and>
    map_of (rw_Header (corsWriter seconds settings declared r w)) ''Vary'' = Some (goIndex (rw_Header w) ''Vary'' [] @ [''Origin'']) \<and>
    (corsGrants settings r \<or> name = ''Vary'' \<or> map_of (rw_Header (corsWriter seconds settings declared r w)) name = map_of (rw_Header w) name) \<and>
    (name \<in> set grantNames \<or> name = ''Vary'' \<or> map_of (rw_Header (corsWriter seconds settings declared r w)) name = map_of (rw_Header w) name)"
proof (intro conjI)
  show "Middleware seconds settings declared nx w r s =
      (if \<not> corsApplies declared r then nx w r s
       else if hq_Method r = ''OPTIONS'' then (Return (), WriteHeader 200 (corsWriter seconds settings declared r w), s) else nx (corsWriter seconds settings declared r w) r s)"
    by (rule Middleware_cases)
  have vary: "''Vary'' \<notin> set grantNames" by (simp add: grantNames_def)
  show "map_of (rw_Header (corsWriter seconds settings declared r w)) ''Vary'' = Some (goIndex (rw_Header w) ''Vary'' [] @ [''Origin''])"
    by (simp add: corsWriter_def Let_def grant_at(4) [OF vary])
  show "name \<in> set grantNames \<or> name = ''Vary'' \<or> map_of (rw_Header (corsWriter seconds settings declared r w)) name = map_of (rw_Header w) name"
    by (cases "name \<in> set grantNames") (simp_all add: corsWriter_def Let_def grant_at(4))
qed (auto simp: corsWriter_def Let_def grant_at methodsForPath_set)

text \<open>A preflight for a path that a route template matches is passed on, although the route table of the
  binding serves the path: the templates of the same routes are compared as text.\<close>

definition itemRoutes :: "route list" where
  "itemRoutes = [\<lparr>rt_Method = ''GET'', rt_Path = ''/items/{id}'', rt_Topic = NewTopic ''item''\<rparr>]"

lemma template_gets_no_cors:
  "Match (NewRouteTable itemRoutes) ''GET'' ''/items/7'' = Some (NewTopic ''item'', [(''id'', ''7'')]) \<and>
   Middleware seconds settings itemRoutes nx w
     \<lparr>hq_Method = m, hq_Path = ''/items/7'', hq_Header = h, hq_Query = q, hq_Body = b\<rparr> s =
   nx w \<lparr>hq_Method = m, hq_Path = ''/items/7'', hq_Header = h, hq_Query = q, hq_Body = b\<rparr> s"
proof
  show "Match (NewRouteTable itemRoutes) ''GET'' ''/items/7'' = Some (NewTopic ''item'', [(''id'', ''7'')])"
    by code_simp
qed (simp add: Middleware_cases corsApplies_def itemRoutes_def)

text \<open>An allowed full origin also matches an Origin header that is only its host name.\<close>

lemma full_origin_matches_bare_host:
  assumes "recognized scheme" and "validSerialHost host port"
  shows "originMatches (serialOrigin scheme host port) host"
proof -
  have "list_all plainHostChar host" "host \<noteq> ''''" using assms(2) by (auto simp: validSerialHost_def)
  then show ?thesis
    by (simp add: originMatches_def parseOrigin_bare hostOf_bare hostOf_serial [OF assms]
        parseOrigin_serial [OF assms])
qed

end
