(* ===== verification/Inprocess.thy ===== *)
theory Inprocess
  imports Client Envelope Concurrency "HOL-Library.Multiset"
begin

text \<open>
  Sending to a pipeline of the same process (\<^verbatim>\<open>inprocess/inprocess.go\<close>): the set of named pipelines,
  the sender bound to one of them and the sender that fans out to several at once. A builder is the value
  its pointer had when it was added; the loggers' lines are part of the state.
\<close>

section \<open>Named pipelines\<close>

record ('v, 'w, 'd) pipelineSet =
  ps_builders :: "(string \<times> ('v, 'w, 'd) applicationBuilder) list"

definition NewPipelineSet :: "('v, 'w, 'd) pipelineSet" where
  "NewPipelineSet = \<lparr>ps_builders = []\<rparr>"

definition PipelineSet_Add ::
  "('v, 'w, 'd) pipelineSet \<Rightarrow> string \<Rightarrow> ('v, 'w, 'd) applicationBuilder \<Rightarrow> goerr + ('v, 'w, 'd) pipelineSet" where
  "PipelineSet_Add s name builder =
    (if hasKey (ps_builders s) name then
       Inl (ErrNew (''inprocess: pipeline '' @ goQuote name @ '' was already added to this PipelineSet''))
     else if b_Pipeline builder = None then
       Inl (ErrNew (''inprocess: pipeline '' @ goQuote name @
         '' has no Pipeline set (call ApplicationBuilder.UsePipeline before Add)''))
     else Inr (s\<lparr>ps_builders := AList.update name builder (ps_builders s)\<rparr>))"

definition PipelineSet_Names :: "('v, 'w, 'd) pipelineSet \<Rightarrow> string list" where
  "PipelineSet_Names s = map fst (ps_builders s)"

definition unknownPipeline :: "('v, 'w, 'd) pipelineSet \<Rightarrow> string \<Rightarrow> goerr" where
  "unknownPipeline s name = ErrNew (''inprocess: no pipeline named '' @ goQuote name @
     '' is registered in this PipelineSet (registered: ['' @ join '' '' (PipelineSet_Names s) @ ''])'')"

section \<open>One invocation\<close>

definition toRawResult :: "'v marshaller \<Rightarrow> 'v resultInfo \<Rightarrow> 'v result outcome" where
  "toRawResult marshal result =
    (let payload = ResultPayload result in
     if payload = NilAny then
       Return ((resultOf (ResultStatus result))\<lparr>r_Errors := ProblemsOf result\<rparr>)
     else (case marshal payload of
         Inl err \<Rightarrow> UnexpectedError [''inprocess: failed to serialize handler payload: '' @ errorText err]
       | Inr raw \<Rightarrow> Return ((resultOf (ResultStatus result))
           \<lparr>r_Errors := ProblemsOf result, r_Payload := Some (RawMessage raw)\<rparr>)))"

definition inprocessInvocation :: "topic \<Rightarrow> headers \<Rightarrow> string \<Rightarrow> 'v invocation" where
  "inprocessInvocation topic hs message = NewInvocationContext topic hs (ByteSlice message) (Some [])"

definition inprocessDispatch ::
  "(goerr \<Rightarrow> bool option) \<Rightarrow> 'v marshaller \<Rightarrow> ('v, 'w, 'd) applicationBuilder \<Rightarrow> ('v, 'w) sender" where
  "inprocessDispatch timeoutMethod marshal builder c topic hs message s =
    (case ctxErr c (cl_now s) of
       Some err \<Rightarrow> (CallFailure timeoutMethod c (cl_now s) err (''inprocess: not dispatched: '' @ errorText err), s)
     | None \<Rightarrow>
         (case Run (b_Pipeline builder) c
             \<lparr>ic = inprocessInvocation topic hs message, clock = cl_now s, env = cl_world s\<rparr> of
           (r, s1) \<Rightarrow>
             (let s2 = s\<lparr>cl_now := clock s1, cl_world := env s1\<rparr> in
              andThen (r, s2) (\<lambda>e s3. case e of
                  Some err \<Rightarrow> (CallFailure timeoutMethod c (cl_now s3) err (errorText err), s3)
                | None \<Rightarrow> (case ic_Result (ic s1) of
                    None \<Rightarrow> (UnexpectedError [''pipeline completed without producing a result''], s3)
                  | Some result \<Rightarrow> (toRawResult marshal result, s3))))))"

section \<open>The senders\<close>

record ('v, 'w, 'd) inprocessSender =
  is_builder :: "('v, 'w, 'd) applicationBuilder"
  is_name :: string

definition NewSender :: "('v, 'w, 'd) pipelineSet \<Rightarrow> string \<Rightarrow> goerr + ('v, 'w, 'd) inprocessSender" where
  "NewSender s name = (case map_of (ps_builders s) name of
      None \<Rightarrow> Inl (unknownPipeline s name)
    | Some builder \<Rightarrow> Inr \<lparr>is_builder = builder, is_name = name\<rparr>)"

definition Sender_Send ::
  "(goerr \<Rightarrow> bool option) \<Rightarrow> 'v marshaller \<Rightarrow> ('v, 'w, 'd) inprocessSender \<Rightarrow> ('v, 'w) sender" where
  "Sender_Send timeoutMethod marshal sender c topic hs message s =
    inprocessDispatch timeoutMethod marshal (is_builder sender) c topic hs message s"

record ('v, 'w, 'd) fanOutSender =
  fo_builders :: "('v, 'w, 'd) applicationBuilder list"
  fo_names :: "string list"

fun findBuilders ::
  "('v, 'w, 'd) pipelineSet \<Rightarrow> string list \<Rightarrow> goerr + ('v, 'w, 'd) applicationBuilder list" where
  "findBuilders s [] = Inr []"
| "findBuilders s (name # names) = (case map_of (ps_builders s) name of
      None \<Rightarrow> Inl (unknownPipeline s name)
    | Some builder \<Rightarrow> (case findBuilders s names of Inl err \<Rightarrow> Inl err | Inr bs \<Rightarrow> Inr (builder # bs)))"

definition NewFanOutSender ::
  "('v, 'w, 'd) pipelineSet \<Rightarrow> string list \<Rightarrow> goerr + ('v, 'w, 'd) fanOutSender" where
  "NewFanOutSender s names =
    (if names = [] then Inl (ErrNew ''inprocess: NewFanOutSender requires at least one pipeline name'')
     else (case findBuilders s names of
         Inl err \<Rightarrow> Inl err
       | Inr builders \<Rightarrow> Inr \<lparr>fo_builders = builders, fo_names = names\<rparr>))"

text \<open>A warning: the pipeline, the topic and the status of a result that is not successful.\<close>

type_synonym warning = "string \<times> string \<times> status"

definition warningOf :: "topic \<Rightarrow> string \<Rightarrow> 'v result \<Rightarrow> warning option" where
  "warningOf topic name result =
    (if \<not> IsSuccessful result then Some (name, topicString topic, r_Status result) else None)"

text \<open>
  What a goroutine does: the dispatch, which is any action of its own on the shared world, and then the
  warning, if its result calls for one.
\<close>

primrec warned ::
  "('v result \<Rightarrow> warning option) \<Rightarrow> ('w, 'v result) action \<Rightarrow> ('w \<times> warning list, 'v result) action" where
  "warned line (Finishes r) = (case r of
      Panic p \<Rightarrow> Finishes (Panic p)
    | Return result \<Rightarrow> (case line result of
        None \<Rightarrow> Finishes (Return result)
      | Some l \<Rightarrow> Acts (\<lambda>(w, log). (w, log @ [l])) (\<lambda>s. Finishes (Return result))))"
| "warned line (Acts e n) = Acts (\<lambda>(w, log). (e w, log)) (\<lambda>s. warned line (n (fst s)))"

text \<open>
  \<open>runs\<close> gives the action that dispatching to a builder is. A goroutine that panics ends the program; else
  the send answers once all have finished.
\<close>

definition FanOutSender_Send ::
  "nat list \<Rightarrow> (('v, 'w, 'd) applicationBuilder \<Rightarrow> ctx \<Rightarrow> topic \<Rightarrow> headers \<Rightarrow> string \<Rightarrow> ('w, 'v result) action) \<Rightarrow>
   ('v, 'w, 'd) fanOutSender \<Rightarrow> ctx \<Rightarrow> topic \<Rightarrow> headers \<Rightarrow> string \<Rightarrow> 'w \<times> warning list \<Rightarrow>
   'v result outcome \<times> 'w \<times> warning list" where
  "FanOutSender_Send sched runs sender c topic hs message s =
    (case interleave sched (map2 (\<lambda>name builder. warned (warningOf topic name) (runs builder c topic hs message))
         (fo_names sender) (fo_builders sender)) s of
       (outcomes, s1) \<Rightarrow> (case List.find panics outcomes of
           Some (Panic p) \<Rightarrow> (Panic p, s1)
         | _ \<Rightarrow> (Return (Ok (RawMessage ''null'')), s1)))"

section \<open>Lemmas\<close>

definition warningsOf :: "('v result \<Rightarrow> warning option) \<Rightarrow> 'v result outcome \<Rightarrow> warning multiset" where
  "warningsOf line r = (case r of
      Panic p \<Rightarrow> {#}
    | Return result \<Rightarrow> (case line result of None \<Rightarrow> {#} | Some l \<Rightarrow> {#l#}))"

primrec loggedBy :: "('v result \<Rightarrow> warning option) \<Rightarrow> ('s, 'v result) action \<Rightarrow> warning multiset" where
  "loggedBy line (Finishes r) = warningsOf line r"
| "loggedBy line (Acts e n) = {#}"

definition atFanOut ::
  "('v result \<Rightarrow> warning option) list \<Rightarrow> ('w \<times> warning list, 'v result) action list \<Rightarrow> 'w \<times> warning list \<Rightarrow> bool" where
  "atFanOut lines gs s \<longleftrightarrow> length gs = length lines \<and>
     (\<forall>i < length lines. (\<exists>a. gs ! i = warned (lines ! i) a) \<or> (\<exists>r. gs ! i = Finishes r)) \<and>
     mset (snd s) = (\<Sum>i < length lines. loggedBy (lines ! i) (gs ! i))"

lemma sum_update:
  fixes f :: "nat \<Rightarrow> 'a multiset"
  assumes "i < n"
  shows "(\<Sum>j < n. if j = i then f i + x else f j) = (\<Sum>j < n. f j) + x"
proof -
  have "(\<Sum>j < n. if j = i then f i + x else f j) = (\<Sum>j < n. f j + (if j = i then x else {#}))"
    by (rule sum.cong) auto
  also have "\<dots> = (\<Sum>j < n. f j) + x"
    using assms by (simp add: sum.distrib sum.delta)
  finally show ?thesis .
qed

lemma loggedBy_warned [simp]: "loggedBy line (warned line a) = {#}"
  by (cases a) (auto simp: warningsOf_def split: outcome.splits option.splits)

lemma atFanOut_stepwise:
  fixes lines :: "('v result \<Rightarrow> warning option) list"
  shows "stepwise (atFanOut lines)"
  unfolding stepwise_def
proof (intro allI impI)
  fix gs :: "('w \<times> warning list, 'v result) action list" and s i e n
  assume I: "atFanOut lines gs s" and i: "i < length gs" and a: "gs ! i = Acts e n"
  then have len: "length gs = length lines" by (simp add: atFanOut_def)
  have "(\<exists>b. gs ! i = warned (lines ! i) b) \<or> (\<exists>r. gs ! i = Finishes r)"
    using I i len unfolding atFanOut_def by metis
  with a obtain b where b: "Acts e n = warned (lines ! i) b" by auto
  have logs: "\<exists>x. mset (snd (e s)) = mset (snd s) + x \<and> loggedBy (lines ! i) (n s) = x \<and>
      ((\<exists>a. n s = warned (lines ! i) a) \<or> (\<exists>r. n s = Finishes r))"
  proof (cases b)
    case (Finishes r)
    with b obtain result l where "r = Return result" "(lines ! i) result = Some l"
      by (auto split: outcome.splits option.splits)
    with b Finishes show ?thesis by (auto simp: warningsOf_def split: prod.splits)
  next
    case (Acts e' n')
    with b show ?thesis by (cases s) auto
  qed
  then obtain x where x: "mset (snd (e s)) = mset (snd s) + x" "loggedBy (lines ! i) (n s) = x"
    "(\<exists>a. n s = warned (lines ! i) a) \<or> (\<exists>r. n s = Finishes r)" by blast
  have "(\<Sum>j < length lines. loggedBy (lines ! j) (gs[i := n s] ! j)) =
      (\<Sum>j < length lines. if j = i then loggedBy (lines ! i) (gs ! i) + x else loggedBy (lines ! j) (gs ! j))"
    using i len a x(2) by (intro sum.cong) (auto simp: nth_list_update)
  also have "\<dots> = (\<Sum>j < length lines. loggedBy (lines ! j) (gs ! j)) + x"
    using i len by (intro sum_update) simp
  also have "\<dots> = mset (snd (e s))" using I x(1) by (simp add: atFanOut_def)
  finally show "atFanOut lines (gs[i := n s]) (e s)"
    using I x(3) i by (auto simp: atFanOut_def nth_list_update)
qed

lemma warned_started: "atFanOut lines (map2 warned lines acts) (w, [])" if "length acts = length lines"
  using that by (auto simp: atFanOut_def intro!: sum.neutral)

text \<open>The warnings aside, the goroutines are the dispatches themselves, in the same order of steps.\<close>

definition tracks :: "('v result \<Rightarrow> warning option) \<Rightarrow> ('w \<times> warning list, 'v result) action \<Rightarrow>
    ('w, 'v result) action \<Rightarrow> bool" where
  "tracks line g a \<longleftrightarrow> g = warned line a \<or> (\<exists>r. g = Finishes r \<and> a = Finishes r)"

definition allTrack :: "('v result \<Rightarrow> warning option) list \<Rightarrow> ('w \<times> warning list, 'v result) action list \<Rightarrow>
    ('w, 'v result) action list \<Rightarrow> bool" where
  "allTrack lines gs acts \<longleftrightarrow> length gs = length lines \<and> length acts = length lines \<and>
     (\<forall>i < length lines. tracks (lines ! i) (gs ! i) (acts ! i))"

lemma finish_warned: "finish (warned line a) s = (r, s') \<Longrightarrow> finish a (fst s) = (r, fst s')"
proof (induction a arbitrary: s)
  case (Finishes x)
  then show ?case by (cases s) (auto split: outcome.splits option.splits)
next
  case (Acts e n)
  then show ?case by (cases s) auto
qed

lemma finish_tracks: "tracks line g a \<Longrightarrow> finish g s = (r, s') \<Longrightarrow> finish a (fst s) = (r, fst s')"
  by (auto simp: tracks_def finish_warned)

lemma runAll_tracks:
  "list_all2 (\<lambda>line (g, a). tracks line g a) lines (zip gs acts) \<Longrightarrow> length gs = length acts \<Longrightarrow>
    runAll gs s = (rs, s') \<Longrightarrow> runAll acts (fst s) = (rs, fst s')"
proof (induction lines arbitrary: gs acts s rs s')
  case Nil
  then show ?case by (cases gs; cases acts) auto
next
  case (Cons line lines)
  then obtain g gs' a acts' where ga: "gs = g # gs'" "acts = a # acts'" by (cases gs; cases acts) auto
  obtain r s1 where r: "finish g s = (r, s1)" by (rule prod.exhaust)
  obtain rs1 s2 where rs1: "runAll gs' s1 = (rs1, s2)" by (rule prod.exhaust)
  have "finish a (fst s) = (r, fst s1)" using Cons.prems(1) r ga by (auto intro: finish_tracks)
  moreover have "runAll acts' (fst s1) = (rs1, fst s2)"
    using Cons.prems ga rs1 by (intro Cons.IH [of gs']) auto
  ultimately show ?case using Cons.prems(3) ga r rs1 by auto
qed

lemma allTrack_update:
  "allTrack lines gs acts \<Longrightarrow> (i < length lines \<Longrightarrow> tracks (lines ! i) g a) \<Longrightarrow>
    allTrack lines (gs[i := g]) (acts[i := a])"
  by (cases "i < length lines") (auto simp: allTrack_def nth_list_update)

lemma move_tracks:
  fixes lines :: "('v result \<Rightarrow> warning option) list"
  assumes "allTrack lines gs acts"
  shows "allTrack lines (fst (moveOne i gs s)) (fst (moveOne i acts (fst s))) \<and>
    fst (snd (moveOne i gs s)) = snd (moveOne i acts (fst s))"
proof (cases "i < length lines")
  case True
  then have t: "tracks (lines ! i) (gs ! i) (acts ! i)" and len: "i < length gs" "i < length acts"
    using assms by (auto simp: allTrack_def)
  show ?thesis
  proof (cases "acts ! i")
    case (Finishes r)
    have "allTrack lines (gs[i := Finishes r]) (acts[i := Finishes r])"
      using assms by (rule allTrack_update) (simp add: tracks_def)
    moreover have "acts[i := Finishes r] = acts" using Finishes by (metis list_update_id)
    ultimately have "allTrack lines (gs[i := Finishes r]) acts" by (simp only:)
    with t Finishes len assms show ?thesis
      by (cases s) (auto simp: moveOne_def tracks_def split: outcome.splits option.splits)
  next
    case (Acts e n)
    have "allTrack lines (gs[i := warned (lines ! i) (n (fst s))]) (acts[i := n (fst s)])"
      using assms by (rule allTrack_update) (simp add: tracks_def)
    with t Acts len show ?thesis
      by (cases s) (auto simp: moveOne_def tracks_def)
  qed
qed (use assms in \<open>simp add: moveOne_def allTrack_def\<close>)

lemma interleave_tracks:
  "allTrack lines gs acts \<Longrightarrow> interleave sched gs s = (rs, s') \<Longrightarrow> interleave sched acts (fst s) = (rs, fst s')"
proof (induction sched arbitrary: gs acts s)
  case Nil
  then have "list_all2 (\<lambda>line (g, a). tracks line g a) lines (zip gs acts)"
    by (auto simp: allTrack_def list_all2_conv_all_nth)
  with Nil show ?case by (auto simp: allTrack_def intro: runAll_tracks)
next
  case (Cons i sched)
  obtain gs' s1 where m: "moveOne i gs s = (gs', s1)" by (rule prod.exhaust)
  obtain acts' w1 where a: "moveOne i acts (fst s) = (acts', w1)" by (rule prod.exhaust)
  from move_tracks [OF Cons.prems(1), of i s] m a have "allTrack lines gs' acts'" "fst s1 = w1" by auto
  with Cons.IH [of gs' acts' s1] Cons.prems(2) m a show ?case by simp
qed

text \<open>What a fan-out logs, under every schedule.\<close>

lemma fan_out_logs:
  fixes lines :: "('v result \<Rightarrow> warning option) list"
  assumes "length acts = length lines" and "interleave sched (map2 warned lines acts) (w, []) = (rs, s')"
  shows "length rs = length lines \<and> mset (snd s') = (\<Sum>i < length lines. warningsOf (lines ! i) (rs ! i))"
proof -
  from interleave_keeps [OF atFanOut_stepwise warned_started [OF assms(1)] assms(2)]
  have "length rs = length (map2 warned lines acts)" "atFanOut lines (map Finishes rs) s'" by auto
  with assms(1) show ?thesis by (auto simp: atFanOut_def)
qed

lemma findBuilders_Inr:
  "findBuilders s names = Inr bs \<Longrightarrow> length bs = length names \<and>
    (\<forall>i < length names. map_of (ps_builders s) (names ! i) = Some (bs ! i))"
proof (induction names arbitrary: bs)
  case (Cons name names)
  from Cons.prems obtain b bs' where b: "map_of (ps_builders s) name = Some b" "findBuilders s names = Inr bs'"
    "bs = b # bs'" by (auto split: option.splits sum.splits)
  with Cons.IH [OF b(2)] show ?case by (auto simp: nth_Cons split: nat.splits)
qed simp

lemma findBuilders_Inl: "findBuilders s names = Inl err \<Longrightarrow> \<exists>name \<in> set names. \<not> hasKey (ps_builders s) name"
  by (induction names arbitrary: err) (auto simp: hasKey_def split: option.splits sum.splits)

section \<open>Properties\<close>

text \<open>C30 (equivalence). What a caller gets of a handler's answer in process and over the wire: where the
  answer has a status of the vocabulary which its success flag does not contradict, the result of the
  in-process sender has the status and the success that the peer reads back from the response envelope,
  and for a success the payload. Errors and the payload of a failure are the answer's own in process; over
  the wire a success has no errors, a failure no payload, and its errors are those with a message, or
  those of its own problem document. So the two results are equal in all four for a success without errors and
  for a failure without payload, without a document of its own and with a message in each error. The
  problem document of a failure (its status, its errors and its own texts) must be valid UTF-8 and the
  payload, if there is one, must be written as a non-empty text.\<close>

theorem inprocess_agrees_with_wire:
  fixes result :: "'v resultInfo"
  assumes "IsKnown (ResultStatus result)" and "coherent result"
    and "ResultPayload result = NilAny \<or> marshal (ResultPayload result) = Inr written \<and> written \<noteq> ''''"
    and "resultSuccessful result \<or> validResultText result"
  shows "\<exists>r1 r2 :: 'v result. toRawResult marshal result = Return r1 \<and>
    ToResult (responseOf marshal result) = Return r2 \<and>
    r_Status r1 = ResultStatus result \<and> r_Status r2 = ResultStatus result \<and>
    IsSuccessful r1 = resultSuccessful result \<and> IsSuccessful r2 = resultSuccessful result \<and>
    r_Errors r1 = ProblemsOf result \<and>
    r_Payload r1 = (if ResultPayload result = NilAny then None else Some (RawMessage written)) \<and>
    (if resultSuccessful result then r_Payload r2 = r_Payload r1 \<and> r_Errors r2 = []
     else r_Payload r2 = None \<and> r_Errors r2 = (case asProblemDocumentInfo result of
         Some (Some d) \<Rightarrow> Problems d
       | _ \<Rightarrow> filter (\<lambda>e. pe_Message e \<noteq> '''') (ProblemsOf result)))"
proof -
  have known: "IsFailure (ResultStatus result) \<longleftrightarrow> \<not> resultSuccessful result"
    using assms(1,2) by (auto simp: coherent_def IsKnown_def)
  let ?r1 = "(resultOf (ResultStatus result))\<lparr>r_Errors := ProblemsOf result,
    r_Payload := (if ResultPayload result = NilAny then None else Some (RawMessage written))\<rparr> :: 'v result"
  have raw: "toRawResult marshal result = Return ?r1"
    using assms(3) by (auto simp: toRawResult_def resultOf_def)
  have ok: "IsSuccessful ?r1 = resultSuccessful result" by (simp add: IsSuccessful_def resultOf_def known)
  show ?thesis
  proof (cases "resultSuccessful result")
    case True
    have "ToResult (responseOf marshal result) =
        Return ((resultOf (ResultStatus result))\<lparr>r_Payload := r_Payload ?r1\<rparr> :: 'v result)"
      using True assms(3) by (auto simp: responseOf_def ToResult_ok [OF assms(2) True] resultOf_def)
    with raw ok True known show ?thesis by (auto simp: resultOf_def IsSuccessful_def)
  next
    case False
    then have valid: "validResultText result" using assms(4) by blast
    have "\<not> IsSuccess (ResultStatus result)" using assms(2) False by (simp add: coherent_def)
    then obtain r2 :: "'v result" where "ToResult (responseOf marshal result) = Return r2"
      "r_Status r2 = ResultStatus result" "\<not> IsSuccessful r2" "r_Payload r2 = None"
      "r_Errors r2 = Problems (problemDocument result)"
      using False by (auto simp: responseOf_def ToResult_failed [OF assms(2) False valid] FailWith_Return IsSuccessful_def)
    with raw ok False show ?thesis
      by (auto simp: resultOf_def problemDocument_def Problems_NewProblem split: option.split)
  qed
qed

text \<open>Outside the vocabulary it is not: the literal that the in-process sender builds has no success flag, so
  a failure with an application's own status arrives as a success.\<close>

lemma inprocess_turns_failure_into_success:
  "\<exists>r r1. Fail ''order-on-hold'' [''held''] = Return r \<and> \<not> IsSuccessful r \<and>
    toRawResult marshal (ResultT ''order'' r) = Return r1 \<and> r_Status r1 = ''order-on-hold'' \<and> IsSuccessful r1"
proof -
  have "\<not> IsSuccess ''order-on-hold''" "\<not> IsFailure ''order-on-hold''" by code_simp+
  then show ?thesis
    by (simp add: Fail_Return toRawResult_def IsSuccessful_def resultOf_def)
qed

theorem inprocess_agrees_with_wire_witness:
  "\<exists>(r1 :: nat result) (r2 :: nat result). toRawResult (\<lambda>p. Inr ''1'') (ResultT ''order'' (failed StatusNotFound [''no order''])) = Return r1 \<and>
    ToResult (responseOf (\<lambda>p. Inr ''1'') (ResultT ''order'' (failed StatusNotFound [''no order'']) :: nat resultInfo)) =
      Return r2 \<and> r_Errors r1 = r_Errors r2 \<and> r_Errors r1 = [messageOnly ''no order'']"
proof -
  let ?r = "ResultT ''order'' (failed StatusNotFound [''no order'']) :: nat resultInfo"
  have st: "IsKnown StatusNotFound" "\<not> IsSuccess StatusNotFound" "IsFailure StatusNotFound" by code_simp+
  have doc: "asProblemDocumentInfo ?r = None \<or> asProblemDocumentInfo ?r = Some None" by simp
  have "IsKnown (ResultStatus ?r)" "coherent ?r"
    "ResultPayload ?r = NilAny \<or> (\<lambda>p. Inr ''1'' :: goerr + string) (ResultPayload ?r) = Inr ''1'' \<and> ''1'' \<noteq> ''''"
    by (simp_all add: st coherent_def)
  moreover have "validResultText ?r"
    using doc NewProblem_valid [of "ResultStatus ?r" "ProblemsOf ?r"]
    by (auto simp: validResultText_def problemDocument_def validProblemError_def ProblemsOf_def
        validText_ascii byteIn_def messageOnly_def StatusNotFound_def)
  ultimately obtain r1 r2 :: "nat result" where r: "toRawResult (\<lambda>p. Inr ''1'') ?r = Return r1"
    "ToResult (responseOf (\<lambda>p. Inr ''1'') ?r) = Return r2" "r_Errors r1 = ProblemsOf ?r"
    "r_Errors r2 = (case asProblemDocumentInfo ?r of Some (Some d) \<Rightarrow> Problems d
       | _ \<Rightarrow> filter (\<lambda>e. pe_Message e \<noteq> '''') (ProblemsOf ?r))"
    using inprocess_agrees_with_wire [of ?r "\<lambda>p. Inr ''1''" "''1''"] st by (auto simp: IsSuccessful_def)
  have "ProblemsOf ?r = [messageOnly ''no order'']" by (simp add: ProblemsOf_def)
  moreover have "r_Errors r2 = ProblemsOf ?r" using r(4) doc by (auto simp: ProblemsOf_def messageOnly_def)
  ultimately show ?thesis using r(1-3) by (intro exI [of _ r1] exI [of _ r2]) simp
qed

text \<open>A fan-out to known pipelines dispatches to each of the named pipelines exactly once,
  under every interleaving of their goroutines, and answers success whatever they return; the log gets
  exactly one warning, with the pipeline's name, the topic and the status, for each target whose result is
  not successful, and the warnings change nothing else. Only a panic of a target, which nothing recovers,
  ends it otherwise; and an unknown name is refused when the sender is built.\<close>

theorem fan_out_isolates_targets:
  assumes "names \<noteq> []"
  shows "case NewFanOutSender s names of
      Inl err \<Rightarrow> \<exists>name \<in> set names. \<not> hasKey (ps_builders s) name
    | Inr sender \<Rightarrow> map (\<lambda>name. map_of (ps_builders s) name) names = map Some (fo_builders sender) \<and>
        (case interleave sched (map (\<lambda>b. runs b c topic hs message) (fo_builders sender)) w of
          (outcomes, w') \<Rightarrow> \<exists>r log.
            FanOutSender_Send sched runs sender c topic hs message (w, []) = (r, w', log) \<and>
            mset log = (\<Sum>i < length names. warningsOf (warningOf topic (names ! i)) (outcomes ! i)) \<and>
            (if list_ex panics outcomes then panics r else r = Return (Ok (RawMessage ''null''))))"
proof (cases "findBuilders s names")
  case (Inl err)
  then show ?thesis using assms findBuilders_Inl [OF Inl] by (simp add: NewFanOutSender_def)
next
  case (Inr bs)
  have len: "length bs = length names"
    and found: "map (\<lambda>name. map_of (ps_builders s) name) names = map Some bs"
    using findBuilders_Inr [OF Inr] by (auto intro: nth_equalityI)
  let ?lines = "map (warningOf topic) names" and ?acts = "map (\<lambda>b. runs b c topic hs message) bs"
  have acts: "map2 (\<lambda>name builder. warned (warningOf topic name) (runs builder c topic hs message)) names bs =
      map2 warned ?lines ?acts"
    by (simp add: zip_map_map case_prod_beta')
  obtain rs s1 where run: "interleave sched (map2 warned ?lines ?acts) (w, []) = (rs, s1)" by (rule prod.exhaust)
  have logs: "length rs = length names" "mset (snd s1) = (\<Sum>i < length names. warningsOf (?lines ! i) (rs ! i))"
    using fan_out_logs [of ?acts ?lines, OF _ run] len by auto
  have "allTrack ?lines (map2 warned ?lines ?acts) ?acts" using len by (auto simp: allTrack_def tracks_def)
  from interleave_tracks [OF this run] have world: "interleave sched ?acts w = (rs, fst s1)" by simp
  have find: "List.find panics rs = None \<longleftrightarrow> \<not> list_ex panics rs"
    by (auto simp: find_None_iff list_ex_iff)
  have found_panics: "panics x" if "List.find panics rs = Some x" for x
    using that by (auto simp: find_Some_iff)
  show ?thesis
    using assms Inr found logs run world find found_panics
    by (cases s1; cases "List.find panics rs"; cases "the (List.find panics rs)")
      (auto simp: NewFanOutSender_def FanOutSender_Send_def acts)
qed

text \<open>Two subscribers, both of which answer not-found.\<close>

definition subscriberBuilder :: "(nat, unit, unit) applicationBuilder" where
  "subscriberBuilder = \<lparr>b_Registry = NewRegistry, b_Container = NewContainer, b_Pipeline = Some [],
     b_ReservedNames = zeroNames\<rparr>"

definition subscribers :: "(nat, unit, unit) pipelineSet" where
  "subscribers = \<lparr>ps_builders = [(''audit'', subscriberBuilder), (''mail'', subscriberBuilder)]\<rparr>"

theorem fan_out_isolates_targets_witness:
  "\<exists>sender log. NewFanOutSender subscribers [''mail'', ''audit''] = Inr sender \<and>
    FanOutSender_Send [1] (\<lambda>b c t hs m. Finishes (Return (failed StatusNotFound [''gone'']))) sender background
      (NewTopic ''order'') [] ''{}'' ((), []) = (Return (Ok (RawMessage ''null'')), (), log) \<and>
    mset log = {#(''mail'', ''order'', StatusNotFound), (''audit'', ''order'', StatusNotFound)#}"
proof -
  have new: "NewFanOutSender subscribers [''mail'', ''audit''] =
      Inr \<lparr>fo_builders = [subscriberBuilder, subscriberBuilder], fo_names = [''mail'', ''audit'']\<rparr>"
    by (simp add: NewFanOutSender_def subscribers_def)
  show ?thesis
    using fan_out_isolates_targets [of "[''mail'', ''audit'']" subscribers "[1]"
        "\<lambda>b c t hs m. Finishes (Return (failed StatusNotFound [''gone'']))" background "NewTopic ''order''" "[]" "''{}''"
        "()"] new
    by (auto simp: moveOne_def warningsOf_def warningOf_def topicString_def NewTopic_def lessThan_Suc add_mset_commute)
qed

end
