(* ===== verification/ClientHealth.thy ===== *)
theory ClientHealth
  imports Health Contract Inprocess
begin

text \<open>
  The check a consumer makes of a provider's contract (\<^verbatim>\<open>clienthealthcheck/clienthealthcheck.go\<close>):
  it asks the provider for its Contract Document through an outbound sender and compares the hash.
\<close>

section \<open>The check\<close>

record ('v, 'w) serviceCheck =
  sc_name :: string
  sc_sender :: "('v, 'w) sender"
  sc_expectedHash :: string

type_synonym ('v, 'w) serviceCheckOption = "('v, 'w) serviceCheck \<Rightarrow> ('v, 'w) serviceCheck"

definition WithExpectedContractHash :: "string \<Rightarrow> ('v, 'w) serviceCheckOption" where
  "WithExpectedContractHash expected sc = sc\<lparr>sc_expectedHash := expected\<rparr>"

definition NewServiceCheck ::
  "string \<Rightarrow> ('v, 'w) sender \<Rightarrow> ('v, 'w) serviceCheckOption list \<Rightarrow> ('v, 'w) serviceCheck" where
  "NewServiceCheck serviceName outbound opts =
    fold (\<lambda>opt sc. opt sc) opts \<lparr>sc_name = serviceName, sc_sender = outbound, sc_expectedHash = ''''\<rparr>"

definition ServiceCheck_Name :: "('v, 'w) serviceCheck \<Rightarrow> string" where
  "ServiceCheck_Name sc = sc_name sc"

text \<open>The payload of an outbound result is raw JSON.\<close>

definition servedHash :: "'v any option \<Rightarrow> string" where
  "servedHash payload = (case payload of
      Some (RawMessage raw) \<Rightarrow> (case unmarshal (decodeStruct [''contractHash''] (\<lambda>f. decodeString)) '''' raw of
          (hash, True) \<Rightarrow> hash
        | (_, False) \<Rightarrow> '''')
    | _ \<Rightarrow> '''')"

definition probeContract ::
  "('v, 'w) serviceCheck \<Rightarrow> ctx \<Rightarrow> 'w clientState \<Rightarrow> (string \<times> bool \<times> status) outcome \<times> 'w clientState" where
  "probeContract sc c s =
    andThen (sc_sender sc c (NewTopic SpecTopic) [] ''{}'' s) (\<lambda>spec s1.
      if \<not> IsSuccessful spec then (Return ('''', False, r_Status spec), s1)
      else (Return (servedHash (r_Payload spec), True, r_Status spec), s1))"

definition serviceResult :: "('v, 'w) serviceCheck \<Rightarrow> string \<Rightarrow> (string \<times> json) list \<Rightarrow> checkResult" where
  "serviceResult sc status data = \<lparr>cr_Status = status, cr_Type = sc_name sc, cr_Data = data\<rparr>"

definition ServiceCheck_Check ::
  "('v, 'w) serviceCheck \<Rightarrow> ctx \<Rightarrow> 'w clientState \<Rightarrow> checkResult outcome \<times> 'w clientState" where
  "ServiceCheck_Check sc c s =
    andThen (probeContract sc c s) (\<lambda>(hash, reachable, answered) s1. (Return (
      if \<not> reachable then serviceResult sc checkFailed
        [(''service'', JStr (sc_name sc)), (''reachable'', JBool False),
         (''reason'', JStr (''provider contract did not round-trip (unreachable, or no benzene:spec served); status '' @
           answered))]
      else if sc_expectedHash sc = '''' then serviceResult sc checkOk
        [(''service'', JStr (sc_name sc)), (''reachable'', JBool True)]
      else if hash = '''' then serviceResult sc checkOk
        [(''service'', JStr (sc_name sc)), (''reachable'', JBool True), (''driftAssessed'', JBool False)]
      else if hash \<noteq> sc_expectedHash sc then serviceResult sc checkWarning
        [(''service'', JStr (sc_name sc)), (''reachable'', JBool True), (''contractHash'', JStr hash),
         (''expectedHash'', JStr (sc_expectedHash sc)), (''drifted'', JBool True)]
      else serviceResult sc checkOk
        [(''service'', JStr (sc_name sc)), (''reachable'', JBool True), (''contractHash'', JStr hash),
         (''drifted'', JBool False)]), s1))"

section \<open>Lemmas\<close>

lemma fold_skips:
  assumes "\<And>k j. (k, j) \<in> set ms \<Longrightarrow> fieldFor names k = None"
  shows "fold (\<lambda>(k, j) (a, ok). (case fieldFor names k of
      None \<Rightarrow> (a, ok) | Some f \<Rightarrow> (case field f j a of (a', ok') \<Rightarrow> (a', ok \<and> ok')))) ms z = z"
  using assms by (induction ms arbitrary: z) fastforce+

lemma decode_one_member:
  assumes "\<And>k j. (k, j) \<in> set pre \<union> set post \<Longrightarrow> fieldFor names k = None" and "fieldFor names k0 = Some f0"
  shows "decodeStruct names field (JObj (pre @ (k0, j) # post)) old = field f0 j old"
proof -
  let ?step = "\<lambda>(k, j) (a, ok). (case fieldFor names k of
      None \<Rightarrow> (a, ok) | Some f \<Rightarrow> (case field f j a of (a', ok') \<Rightarrow> (a', ok \<and> ok')))"
  have "fold ?step pre z = z" "fold ?step post z = z" for z
    using assms(1) by (auto intro!: fold_skips)
  then show ?thesis using assms(2) by (cases "field f0 j old") simp
qed

text \<open>The members of the JSON of a document, before and after its hash.\<close>

definition documentNames :: "string list" where
  "documentNames = [''schemaDialect'', ''service'', ''serviceVersion'', ''versionScheme'',
     ''description'', ''runtime'', ''placement'', ''profile'', ''degraded'', ''messageEndpoint'', ''transports'',
     ''contractHash'', ''registrationHash'', ''requests'', ''events'', ''sends'', ''components'']"

definition otherNames :: "string list" where
  "otherNames = take 11 documentNames @ drop 12 documentNames"

lemma documentJson_fields:
  obtains fs where "documentJson d = WireJson.fields fs" "length fs = 17"
    "fs ! 11 = (True, ''contractHash'', JStr (doc_ContractHash d))" "map (\<lambda>f. fst (snd f)) fs = documentNames"
  by (rule that, rule documentJson_def) (simp_all only: list.map fst_conv snd_conv documentNames_def list.size, simp_all)

lemma documentJson_members:
  obtains pre post where "documentJson d = JObj (pre @ (''contractHash'', JStr (doc_ContractHash d)) # post)"
    "fst ` (set pre \<union> set post) \<subseteq> set otherNames"
proof -
  obtain fs where fs: "documentJson d = WireJson.fields fs" "length fs = 17"
      "fs ! 11 = (True, ''contractHash'', JStr (doc_ContractHash d))"
    and all: "map (\<lambda>f. fst (snd f)) fs = documentNames"
    by (rule documentJson_fields)
  define xs ys where "xs = take 11 fs" and "ys = drop 12 fs"
  have "fs = xs @ (True, ''contractHash'', JStr (doc_ContractHash d)) # ys"
    using id_take_nth_drop [of 11 fs] unfolding fs(2,3) xs_def ys_def by simp
  then have "documentJson d = JObj (map snd (filter fst xs) @ (''contractHash'', JStr (doc_ContractHash d)) #
      map snd (filter fst ys))"
    unfolding fs(1) by (simp add: WireJson.fields_def)
  moreover have "(\<lambda>f. fst (snd f)) ` (set xs \<union> set ys) = set otherNames"
    unfolding xs_def ys_def otherNames_def all [symmetric] by (simp add: image_Un take_map drop_map)
  moreover have "fst ` (set (map snd (filter fst xs)) \<union> set (map snd (filter fst ys))) \<subseteq>
      (\<lambda>f. fst (snd f)) ` (set xs \<union> set ys)" by force
  ultimately have "documentJson d = JObj (map snd (filter fst xs) @ (''contractHash'', JStr (doc_ContractHash d)) #
      map snd (filter fst ys))"
    "fst ` (set (map snd (filter fst xs)) \<union> set (map snd (filter fst ys))) \<subseteq> set otherNames"
    by simp_all
  then show ?thesis by (rule that)
qed

lemma servedHash_document:
  assumes "jvalid (documentJson d)"
  shows "servedHash (Some (RawMessage (jprint (documentJson d)))) = doc_ContractHash d"
proof -
  obtain pre post where m: "documentJson d = JObj (pre @ (''contractHash'', JStr (doc_ContractHash d)) # post)"
    and n: "fst ` (set pre \<union> set post) \<subseteq> set otherNames"
    by (rule documentJson_members)
  have skip: "\<forall>k \<in> set otherNames. fieldFor [''contractHash''] k = None" by code_simp
  have "decodeStruct [''contractHash''] (\<lambda>f. decodeString) (documentJson d) '''' =
      decodeString (JStr (doc_ContractHash d)) ''''"
    unfolding m
  proof (rule decode_one_member [where ?f0.0 = "''contractHash''"])
    fix k j assume "(k, j) \<in> set pre \<union> set post"
    then have "k \<in> fst ` (set pre \<union> set post)" by (rule rev_image_eqI) simp
    with n have "k \<in> set otherNames" by (rule subsetD)
    with skip show "fieldFor [''contractHash''] k = None" by (rule bspec)
  qed (simp add: fieldFor_def)
  then show ?thesis by (simp add: servedHash_def unmarshal_def jparse_jprint [OF assms])
qed

text \<open>A pipeline whose first middleware serves the document, called in process.\<close>

lemma inprocess_serves_document:
  fixes mw :: "('v, 'w) middleware"
  assumes "SpecMiddleware jsonError typeOf (Inr raw) [] = Return mw" and "marshal (RawMessage raw) = Inr raw'"
    and "b_Pipeline builder = Some (NewPipeline (mw # rest))" and "ctxErr c (cl_now s) = None"
  shows "inprocessDispatch timeoutMethod marshal builder c (NewTopic SpecTopic) hs ''{}'' s =
    (Return ((resultOf StatusOk)\<lparr>r_Payload := Some (RawMessage raw')\<rparr>), s)"
proof -
  let ?s = "\<lparr>ic = inprocessInvocation (NewTopic SpecTopic) hs ''{}'', clock = cl_now s, env = cl_world s\<rparr> :: ('v, 'w) st"
  have "asksForDocument ''{}''" by code_simp
  then have req: "specRequest jsonError typeOf (ic_Request (ic ?s)) = Inr zeroSpecRequest"
    by (simp add: inprocessInvocation_def NewInvocationContext_def specRequest_def asksForDocument_zero)
  have "Run (Some (NewPipeline (mw # rest))) c ?s =
      (Return None, setResult (ResultT ''json.RawMessage'' (Ok (RawMessage raw))) ?s)"
    by (rule SpecMiddleware_run [OF assms(1) _ req zero_answer])
      (simp add: inprocessInvocation_def NewInvocationContext_def)
  then show ?thesis
    using assms(2-4)
    by (simp add: inprocessDispatch_def setResult_def toRawResult_def Ok_def success_def ProblemsOf_def resultOf_def)
qed

section \<open>Properties\<close>

text \<open>The check against a provider that serves its Contract Document, called through the
  in-process sender: it changes nothing, and its verdict is warning exactly when a hash is expected and the
  document states another one, else ok, and never failed, whatever the rest of the provider's pipeline, its
  health checks included, would answer; and over any sender it is failed exactly when the call is not
  successful.\<close>

theorem service_check_sees_drift:
  fixes mw :: "('v, 'w) middleware" and s :: "'w clientState"
  assumes "SpecMiddleware jsonError typeOf (Inr (jprint (documentJson d))) [] = Return mw"
    and "jvalid (documentJson d)" and "\<And>raw. marshal (RawMessage raw) = Inr raw"
    and "b_Pipeline builder = Some (NewPipeline (mw # rest))" and "ctxErr c (cl_now s) = None"
  shows "(\<exists>res. ServiceCheck_Check (NewServiceCheck name
        (Sender_Send timeoutMethod marshal \<lparr>is_builder = builder, is_name = provider\<rparr>)
        [WithExpectedContractHash expected]) c s = (Return res, s) \<and>
      cr_Status res = (if expected \<noteq> '''' \<and> doc_ContractHash d \<noteq> '''' \<and> doc_ContractHash d \<noteq> expected
        then checkWarning else checkOk)) \<and>
    (sc_sender sc c (NewTopic SpecTopic) [] ''{}'' s = (Return r, s1) \<longrightarrow>
      (\<exists>res. ServiceCheck_Check sc c s = (Return res, s1) \<and>
        (cr_Status res = checkFailed \<longleftrightarrow> \<not> IsSuccessful r)))"
proof (intro conjI impI)
  have ok: "\<not> IsFailure StatusOk" by code_simp
  show "\<exists>res. ServiceCheck_Check (NewServiceCheck name
        (Sender_Send timeoutMethod marshal \<lparr>is_builder = builder, is_name = provider\<rparr>)
        [WithExpectedContractHash expected]) c s = (Return res, s) \<and>
      cr_Status res = (if expected \<noteq> '''' \<and> doc_ContractHash d \<noteq> '''' \<and> doc_ContractHash d \<noteq> expected
        then checkWarning else checkOk)"
    using inprocess_serves_document [where s = s and c = c and builder = builder
        and marshal = marshal and mw = mw and rest = rest and hs = "[]" and timeoutMethod = timeoutMethod,
        OF assms(1) assms(3) assms(4,5)] ok
    by (simp add: ServiceCheck_Check_def probeContract_def NewServiceCheck_def WithExpectedContractHash_def
        Sender_Send_def servedHash_document [OF assms(2)] serviceResult_def IsSuccessful_def resultOf_def)
next
  assume "sc_sender sc c (NewTopic SpecTopic) [] ''{}'' s = (Return r, s1)"
  then show "\<exists>res. ServiceCheck_Check sc c s = (Return res, s1) \<and> (cr_Status res = checkFailed \<longleftrightarrow> \<not> IsSuccessful r)"
    by (simp add: ServiceCheck_Check_def probeContract_def serviceResult_def checkFailed_def checkOk_def checkWarning_def)
qed

text \<open>A provider whose other middlewares would panic, and a consumer built against an older contract.\<close>

definition providerDocument :: document where
  "providerDocument = \<lparr>doc_SchemaDialect = '''', doc_Service = ''orders'', doc_ServiceVersion = '''',
     doc_VersionScheme = '''', doc_Description = '''', doc_Runtime = '''', doc_Placement = None, doc_Profile = None,
     doc_Degraded = [], doc_MessageEndpoint = '''', doc_Transports = [], doc_ContractHash = ''sha256:2b'',
     doc_RegistrationHash = '''', doc_Requests = None, doc_Events = None, doc_Sends = None, doc_Components = None\<rparr>"

definition echoMarshal :: "nat marshaller" where
  "echoMarshal p = (case p of RawMessage raw \<Rightarrow> Inr raw | _ \<Rightarrow> Inr '''')"

theorem service_check_sees_drift_witness:
  "\<exists>mw res. SpecMiddleware (\<lambda>b. b) (\<lambda>v. OtherType) (Inr (jprint (documentJson providerDocument))) [] = Return mw \<and>
    ServiceCheck_Check (NewServiceCheck ''orders'' (Sender_Send (\<lambda>e. None) echoMarshal
        \<lparr>is_builder = subscriberBuilder\<lparr>b_Pipeline := Some (NewPipeline [mw, \<lambda>c nx s. (Panic ''reached'', s)])\<rparr>,
          is_name = ''orders''\<rparr>) [WithExpectedContractHash ''sha256:1a''])
      background \<lparr>cl_now = 0, cl_world = ()\<rparr> = (Return res, \<lparr>cl_now = 0, cl_world = ()\<rparr>) \<and>
    cr_Status res = checkWarning"
proof -
  obtain mw :: "(nat, unit) middleware" where mw:
    "SpecMiddleware (\<lambda>b. b) (\<lambda>v. OtherType) (Inr (jprint (documentJson providerDocument))) [] = Return mw"
    by (simp add: SpecMiddleware_def)
  have valid: "jvalid (documentJson providerDocument)" by code_simp
  have hash: "doc_ContractHash providerDocument = ''sha256:2b''" by (simp add: providerDocument_def)
  have echo: "echoMarshal (RawMessage raw) = Inr raw" for raw by (simp add: echoMarshal_def)
  let ?builder = "subscriberBuilder\<lparr>b_Pipeline := Some (NewPipeline [mw, \<lambda>c nx s. (Panic ''reached'', s)])\<rparr>"
  have "b_Pipeline ?builder = Some (NewPipeline (mw # [\<lambda>c nx s. (Panic ''reached'', s)]))" by simp
  from service_check_sees_drift [OF mw valid echo this, of background "\<lparr>cl_now = 0, cl_world = ()\<rparr>" "''orders''"
      "\<lambda>e. None" "''orders''" "''sha256:1a''"] mw hash
  show ?thesis by auto
qed

end
