(* ===== verification/Base64.thy ===== *)
theory Base64
  imports GoStrings
begin

text \<open>
  \<^verbatim>\<open>encoding/base64\<close> on bytes: the padded standard alphabet and the unpadded URL alphabet, encoding and
  decoding as the library does, which skips line breaks anywhere and does not check unused bits. Nothing
  here has an entry in the source map.
\<close>

section \<open>Alphabets\<close>

definition stdAlphabet :: string where
  "stdAlphabet = ''ABCDEFGHIJKLMNOPQRSTUVWXYZabcdefghijklmnopqrstuvwxyz0123456789+/''"

definition urlAlphabet :: string where
  "urlAlphabet = ''ABCDEFGHIJKLMNOPQRSTUVWXYZabcdefghijklmnopqrstuvwxyz0123456789-_''"

definition sextet :: "string \<Rightarrow> char \<Rightarrow> nat option" where
  "sextet alphabet c = indexByte alphabet c"

section \<open>Decoding\<close>

text \<open>Three bytes of four sextets.\<close>

definition triple :: "nat \<Rightarrow> nat \<Rightarrow> nat \<Rightarrow> nat \<Rightarrow> string" where
  "triple a b c d = (let v = ((a * 64 + b) * 64 + c) * 64 + d in
     [char_of (v div 65536), char_of (v div 256), char_of v])"

fun decodeQuads :: "string \<Rightarrow> bool \<Rightarrow> string \<Rightarrow> string option" where
  "decodeQuads alphabet padded (p # q # r # s # rest) =
    (case (sextet alphabet p, sextet alphabet q, sextet alphabet r, sextet alphabet s) of
       (Some a, Some b, Some c, Some d) \<Rightarrow>
         map_option (\<lambda>t. triple a b c d @ t) (decodeQuads alphabet padded rest)
     | (Some a, Some b, Some c, None) \<Rightarrow>
         if padded \<and> s = CHR ''='' \<and> rest = [] then Some (take 2 (triple a b c 0)) else None
     | (Some a, Some b, None, None) \<Rightarrow>
         if padded \<and> r = CHR ''='' \<and> s = CHR ''='' \<and> rest = [] then Some (take 1 (triple a b 0 0)) else None
     | _ \<Rightarrow> None)"
| "decodeQuads alphabet padded [] = Some []"
| "decodeQuads alphabet padded [p] = None"
| "decodeQuads alphabet padded [p, q] =
    (case (sextet alphabet p, sextet alphabet q) of
       (Some a, Some b) \<Rightarrow> if padded then None else Some (take 1 (triple a b 0 0))
     | _ \<Rightarrow> None)"
| "decodeQuads alphabet padded [p, q, r] =
    (case (sextet alphabet p, sextet alphabet q, sextet alphabet r) of
       (Some a, Some b, Some c) \<Rightarrow> if padded then None else Some (take 2 (triple a b c 0))
     | _ \<Rightarrow> None)"

definition lineBreak :: "char \<Rightarrow> bool" where
  "lineBreak c \<longleftrightarrow> c = CHR 0x0A \<or> c = CHR 0x0D"

definition stdDecode :: "string \<Rightarrow> string option" where
  "stdDecode s = decodeQuads stdAlphabet True (filter (\<lambda>c. \<not> lineBreak c) s)"

definition rawURLDecode :: "string \<Rightarrow> string option" where
  "rawURLDecode s = decodeQuads urlAlphabet False (filter (\<lambda>c. \<not> lineBreak c) s)"

section \<open>Encoding\<close>

definition digitAt :: "string \<Rightarrow> nat \<Rightarrow> char" where
  "digitAt alphabet n = alphabet ! (n mod 64)"

fun encodeTriples :: "string \<Rightarrow> bool \<Rightarrow> string \<Rightarrow> string" where
  "encodeTriples alphabet padded (x # y # z # rest) =
    (let v = (of_char x * 256 + of_char y) * 256 + of_char z in
     [digitAt alphabet (v div 262144), digitAt alphabet (v div 4096), digitAt alphabet (v div 64),
      digitAt alphabet v] @ encodeTriples alphabet padded rest)"
| "encodeTriples alphabet padded [] = []"
| "encodeTriples alphabet padded [x] =
    (let v = of_char x * 65536 in
     [digitAt alphabet (v div 262144), digitAt alphabet (v div 4096)] @ (if padded then ''=='' else []))"
| "encodeTriples alphabet padded [x, y] =
    (let v = (of_char x * 256 + of_char y) * 256 in
     [digitAt alphabet (v div 262144), digitAt alphabet (v div 4096), digitAt alphabet (v div 64)] @
       (if padded then ''='' else []))"

definition stdEncode :: "string \<Rightarrow> string" where
  "stdEncode s = encodeTriples stdAlphabet True s"

definition rawURLEncode :: "string \<Rightarrow> string" where
  "rawURLEncode s = encodeTriples urlAlphabet False s"

section \<open>The round trip\<close>

definition goodAlphabet :: "string \<Rightarrow> bool" where
  "goodAlphabet alphabet \<longleftrightarrow> length alphabet = 64 \<and> distinct alphabet \<and> CHR ''='' \<notin> set alphabet \<and>
     list_all (\<lambda>c. \<not> lineBreak c) alphabet"

lemma good_alphabets: "goodAlphabet stdAlphabet" "goodAlphabet urlAlphabet"
  by code_simp+

lemma indexByte_nth: "distinct s \<Longrightarrow> i < length s \<Longrightarrow> indexByte s (s ! i) = Some i"
proof (induction s arbitrary: i)
  case (Cons c s)
  then show ?case by (cases i) auto
qed simp

lemma sextet_digitAt: "goodAlphabet alphabet \<Longrightarrow> sextet alphabet (digitAt alphabet n) = Some (n mod 64)"
  by (simp add: sextet_def digitAt_def goodAlphabet_def indexByte_nth)

lemma sextet_pad: "goodAlphabet alphabet \<Longrightarrow> sextet alphabet CHR ''='' = None"
proof -
  assume "goodAlphabet alphabet"
  then have "CHR ''='' \<notin> set alphabet" by (simp add: goodAlphabet_def)
  then show ?thesis by (simp add: sextet_def) (induction alphabet, auto)
qed

lemma digitAt_in: "goodAlphabet alphabet \<Longrightarrow> digitAt alphabet n \<in> set alphabet"
  by (simp add: digitAt_def goodAlphabet_def)

lemma byte_less: "(of_char (c :: char) :: nat) < 256"
  using nat_of_char_less_256 by simp

lemma triple_of_digits:
  assumes "v < 16777216"
  shows "triple (v div 262144 mod 64) (v div 4096 mod 64) (v div 64 mod 64) (v mod 64) =
    [char_of (v div 65536), char_of (v div 256), char_of v]"
proof -
  have top: "v div 262144 mod 64 = v div 262144" using assms by simp
  have split: "v div 64 = v div 4096 * 64 + v div 64 mod 64" "v div 4096 = v div 262144 * 64 + v div 4096 mod 64"
    using div_mult_mod_eq [of "v div 64" 64] div_mult_mod_eq [of "v div 4096" 64]
      div_mult2_eq [of v 64 64] div_mult2_eq [of v 4096 64] by simp_all
  have "((v div 262144 mod 64 * 64 + v div 4096 mod 64) * 64 + v div 64 mod 64) * 64 + v mod 64 = v"
    unfolding top split(2) [symmetric] split(1) [symmetric] by simp
  then show ?thesis unfolding triple_def Let_def by (simp only:)
qed

text \<open>What was encoded is decoded, and the text of an encoding has only digits of the alphabet and padding.\<close>

lemma three_bytes:
  assumes "a < 256" "b < 256" "c < 256"
  shows "(a * 256 + b) * 256 + c < (16777216 :: nat)" "((a * 256 + b) * 256 + c) div 256 = 256 * a + b"
    "((a * 256 + b) * 256 + c) div 65536 = a"
proof -
  have "(a * 256 + b) * 256 + c \<le> (255 * 256 + 255) * 256 + (255 :: nat)"
    using assms by (intro add_mono mult_right_mono) auto
  then show "(a * 256 + b) * 256 + c < (16777216 :: nat)" by simp
  have one: "(k * 256 + d) div 256 = k" if "d < 256" for k d :: nat using that by simp
  show two: "((a * 256 + b) * 256 + c) div 256 = 256 * a + b" using one [OF assms(3), of "a * 256 + b"] by simp
  show "((a * 256 + b) * 256 + c) div 65536 = a"
    using div_mult2_eq [of "(a * 256 + b) * 256 + c" 256 256] one [OF assms(2), of a] two by simp
qed

lemma char_of_div: "char_of ((of_char x * 256 + of_char y) * 256 + of_char z :: nat) = z"
  "char_of (((of_char x * 256 + of_char y) * 256 + of_char z :: nat) div 256) = y"
  "char_of (((of_char x * 256 + of_char y) * 256 + of_char z :: nat) div 65536) = x"
proof -
  have m: "char_of (256 * k + of_char c :: nat) = c" for k :: nat and c
    by (simp flip: char_of_mod_256 [of "256 * k + of_char c"])
  show "char_of ((of_char x * 256 + of_char y) * 256 + of_char z :: nat) = z"
    using m [of "of_char x * 256 + of_char y" z] by (simp only: mult.commute)
  note d = three_bytes [OF byte_less byte_less byte_less, of x y z]
  show "char_of (((of_char x * 256 + of_char y) * 256 + of_char z :: nat) div 256) = y"
    unfolding d(2) by (rule m)
  show "char_of (((of_char x * 256 + of_char y) * 256 + of_char z :: nat) div 65536) = x"
    unfolding d(3) by simp
qed

lemma triple_bytes:
  assumes "v = (of_char x * 256 + of_char y) * 256 + of_char z"
  shows "triple (v div 262144 mod 64) (v div 4096 mod 64) (v div 64 mod 64) (v mod 64) = [x, y, z]"
  using triple_of_digits [of v] three_bytes(1) [OF byte_less byte_less byte_less, of x y z]
  by (simp only: assms char_of_div)

lemma decode_encode_triple:
  assumes "goodAlphabet alphabet"
  shows "decodeQuads alphabet padded (encodeTriples alphabet padded (x # y # z # rest)) =
    map_option (\<lambda>t. x # y # z # t) (decodeQuads alphabet padded (encodeTriples alphabet padded rest))"
proof -
  define v :: nat where "v = (of_char x * 256 + of_char y) * 256 + of_char z"
  show ?thesis
    unfolding encodeTriples.simps(1) Let_def v_def [symmetric] append_Cons append_Nil decodeQuads.simps(1)
      sextet_digitAt [OF assms] option.case prod.case triple_bytes [OF v_def] ..
qed

lemma decode_encode_one:
  assumes "goodAlphabet alphabet"
  shows "decodeQuads alphabet padded (encodeTriples alphabet padded [x]) = Some [x]"
proof -
  define v :: nat where "v = of_char x * 65536"
  then have v: "v = (of_char x * 256 + of_char (CHR 0x00)) * 256 + of_char (CHR 0x00)" by simp
  have z: "v div 64 mod 64 = 0" "v mod 64 = 0" by (simp_all add: v_def)
  have "triple (v div 262144 mod 64) (v div 4096 mod 64) 0 0 = [x, CHR 0x00, CHR 0x00]"
    using triple_bytes [OF v] unfolding z .
  then show ?thesis
    by (simp add: Let_def sextet_digitAt [OF assms] sextet_pad [OF assms] flip: v_def)
qed

lemma decode_encode_two:
  assumes "goodAlphabet alphabet"
  shows "decodeQuads alphabet padded (encodeTriples alphabet padded [x, y]) = Some [x, y]"
proof -
  define v :: nat where "v = (of_char x * 256 + of_char y) * 256"
  then have v: "v = (of_char x * 256 + of_char y) * 256 + of_char (CHR 0x00)" by simp
  have z: "v mod 64 = 0" by (simp add: v_def)
  have "triple (v div 262144 mod 64) (v div 4096 mod 64) (v div 64 mod 64) 0 = [x, y, CHR 0x00]"
    using triple_bytes [OF v] unfolding z .
  then show ?thesis
    by (simp only: encodeTriples.simps Let_def v_def [symmetric])
      (simp add: sextet_digitAt [OF assms] sextet_pad [OF assms])
qed

lemma decode_encode:
  assumes "goodAlphabet alphabet"
  shows "decodeQuads alphabet padded (encodeTriples alphabet padded s) = Some s"
  using assms
proof (induction alphabet padded s rule: encodeTriples.induct)
  case (1 alphabet padded x y z rest)
  then show ?case by (simp only: decode_encode_triple option.map)
next
  case (3 alphabet padded x)
  then show ?case by (rule decode_encode_one)
next
  case (4 alphabet padded x y)
  then show ?case by (rule decode_encode_two)
qed simp

lemma encoded_chars:
  "goodAlphabet alphabet \<Longrightarrow> c \<in> set (encodeTriples alphabet padded s) \<Longrightarrow> c \<in> set alphabet \<or> c = CHR ''=''"
  by (induction alphabet padded s rule: encodeTriples.induct) (auto simp: Let_def digitAt_in split: if_splits)

lemma encoded_chars_raw: "goodAlphabet alphabet \<Longrightarrow> c \<in> set (encodeTriples alphabet False s) \<Longrightarrow> c \<in> set alphabet"
  by (induction alphabet "False" s rule: encodeTriples.induct) (auto simp: Let_def digitAt_in)

lemma no_breaks: "goodAlphabet alphabet \<Longrightarrow> filter (\<lambda>c. \<not> lineBreak c) (encodeTriples alphabet padded s) =
    encodeTriples alphabet padded s"
proof (rule filter_True, rule ballI)
  fix c assume g: "goodAlphabet alphabet" and "c \<in> set (encodeTriples alphabet padded s)"
  then have "c \<in> set alphabet \<or> c = CHR ''=''" by (rule encoded_chars)
  with g show "\<not> lineBreak c" by (auto simp: goodAlphabet_def list_all_iff lineBreak_def)
qed

lemma stdDecode_stdEncode [simp]: "stdDecode (stdEncode s) = Some s"
  using good_alphabets(1) by (simp add: stdDecode_def stdEncode_def no_breaks decode_encode)

lemma rawURLDecode_rawURLEncode [simp]: "rawURLDecode (rawURLEncode s) = Some s"
  using good_alphabets(2) by (simp add: rawURLDecode_def rawURLEncode_def no_breaks decode_encode)

lemma rawURLEncode_no_dot: "CHR ''.'' \<notin> set (rawURLEncode s)"
proof
  assume "CHR ''.'' \<in> set (rawURLEncode s)"
  then have "CHR ''.'' \<in> set urlAlphabet"
    unfolding rawURLEncode_def using good_alphabets(2) encoded_chars_raw by blast
  moreover have "CHR ''.'' \<notin> set urlAlphabet" by code_simp
  ultimately show False by simp
qed

text \<open>Encodings have no blanks.\<close>

lemma encoded_not_space:
  "c \<in> set (stdEncode s) \<Longrightarrow> \<not> spaceChar c" "c \<in> set (rawURLEncode s) \<Longrightarrow> \<not> spaceChar c"
proof -
  have a: "\<forall>c \<in> set stdAlphabet \<union> set urlAlphabet \<union> {CHR ''=''}. \<not> spaceChar c" by code_simp
  {
    assume "c \<in> set (stdEncode s)"
    then have "c \<in> set stdAlphabet \<union> set urlAlphabet \<union> {CHR ''=''}"
      using encoded_chars [OF good_alphabets(1), of c True s] unfolding stdEncode_def by blast
    with a show "\<not> spaceChar c" by (rule bspec)
  next
    assume "c \<in> set (rawURLEncode s)"
    then have "c \<in> set stdAlphabet \<union> set urlAlphabet \<union> {CHR ''=''}"
      using encoded_chars_raw [OF good_alphabets(2), of c s] unfolding rawURLEncode_def by blast
    with a show "\<not> spaceChar c" by (rule bspec)
  }
qed

end
