(* ===== verification/Jwt.thy ===== *)
theory Jwt
  imports WireJson Base64
begin

text \<open>
  JSON Web Tokens (\<^verbatim>\<open>auth/jwt.go\<close>): the validator with its policy, the structure of a token, the check
  of its signature against candidate keys and the registered claims. The primitives of Go's \<^verbatim>\<open>crypto\<close> packages
  are the record \<open>jwsCrypto\<close>; the claims keep their JSON. The instant of a NumericDate is the argument
  \<open>unixOf\<close>: of a number literal, the seconds that \<^verbatim>\<open>time.Unix\<close> makes of its float64, and nothing when the
  literal is out of the range of a float64, which the JSON reader refuses.
\<close>

section \<open>Algorithms and keys\<close>

datatype hashFunction = SHA256 | SHA384 | SHA512
datatype algFamily = FamilyHMAC | FamilyRSA | FamilyECDSA

definition algProperties :: "string \<Rightarrow> (hashFunction \<times> algFamily) option" where
  "algProperties alg = map_of
    [(''HS256'', (SHA256, FamilyHMAC)), (''HS384'', (SHA384, FamilyHMAC)), (''HS512'', (SHA512, FamilyHMAC)),
     (''RS256'', (SHA256, FamilyRSA)), (''RS384'', (SHA384, FamilyRSA)), (''RS512'', (SHA512, FamilyRSA)),
     (''ES256'', (SHA256, FamilyECDSA)), (''ES384'', (SHA384, FamilyECDSA)), (''ES512'', (SHA512, FamilyECDSA))] alg"

datatype curve = P256 | P384 | P521

fun bitSize :: "curve \<Rightarrow> nat" where
  "bitSize P256 = 256"
| "bitSize P384 = 384"
| "bitSize P521 = 521"

record rsaPublicKey =
  rsa_N :: nat
  rsa_E :: nat

record ecdsaPublicKey =
  ec_Curve :: curve
  ec_X :: nat
  ec_Y :: nat

record verificationKey =
  vk_HMAC :: "string option"
  vk_RSA :: "rsaPublicKey option"
  vk_ECDSA :: "ecdsaPublicKey option"

text \<open>
  \<^verbatim>\<open>crypto/hmac\<close>, the SHA-2 hashes, \<^verbatim>\<open>rsa.VerifyPKCS1v15\<close>, \<^verbatim>\<open>ecdsa.Verify\<close> and \<^verbatim>\<open>Curve.IsOnCurve\<close>.
\<close>

record jwsCrypto =
  cr_mac :: "hashFunction \<Rightarrow> string \<Rightarrow> string \<Rightarrow> string"
  cr_digest :: "hashFunction \<Rightarrow> string \<Rightarrow> string"
  cr_rsa :: "rsaPublicKey \<Rightarrow> hashFunction \<Rightarrow> string \<Rightarrow> string \<Rightarrow> bool"
  cr_ecdsa :: "ecdsaPublicKey \<Rightarrow> string \<Rightarrow> nat \<Rightarrow> nat \<Rightarrow> bool"
  cr_onCurve :: "curve \<Rightarrow> nat \<Rightarrow> nat \<Rightarrow> bool"

section \<open>Errors\<close>

definition ErrMalformedToken :: goerr where
  "ErrMalformedToken = ErrSentinel ''auth.ErrMalformedToken'' ''jwt: malformed token''"
definition ErrAlgorithmNotAllowed :: goerr where
  "ErrAlgorithmNotAllowed = ErrSentinel ''auth.ErrAlgorithmNotAllowed'' ''jwt: signing algorithm not allowed''"
definition ErrUnknownAlgorithm :: goerr where
  "ErrUnknownAlgorithm = ErrSentinel ''auth.ErrUnknownAlgorithm'' ''jwt: unknown or unsupported signing algorithm''"
definition ErrCriticalHeaderUnsupported :: goerr where
  "ErrCriticalHeaderUnsupported = ErrSentinel ''auth.ErrCriticalHeaderUnsupported''
     ''jwt: token uses an unsupported critical header extension''"
definition ErrNoKey :: goerr where
  "ErrNoKey = ErrSentinel ''auth.ErrNoKey'' ''jwt: no verification key for token''"
definition ErrSignatureInvalid :: goerr where
  "ErrSignatureInvalid = ErrSentinel ''auth.ErrSignatureInvalid'' ''jwt: signature is invalid''"
definition ErrMissingExpiration :: goerr where
  "ErrMissingExpiration = ErrSentinel ''auth.ErrMissingExpiration'' ''jwt: token has no expiration and one is required''"
definition ErrTokenExpired :: goerr where
  "ErrTokenExpired = ErrSentinel ''auth.ErrTokenExpired'' ''jwt: token is expired''"
definition ErrTokenNotYetValid :: goerr where
  "ErrTokenNotYetValid = ErrSentinel ''auth.ErrTokenNotYetValid'' ''jwt: token is not valid yet''"
definition ErrIssuedInFuture :: goerr where
  "ErrIssuedInFuture = ErrSentinel ''auth.ErrIssuedInFuture'' ''jwt: token was issued in the future''"
definition ErrIssuerNotAllowed :: goerr where
  "ErrIssuerNotAllowed = ErrSentinel ''auth.ErrIssuerNotAllowed'' ''jwt: issuer is not allowed''"
definition ErrAudienceNotAllowed :: goerr where
  "ErrAudienceNotAllowed = ErrSentinel ''auth.ErrAudienceNotAllowed'' ''jwt: audience is not allowed''"
definition errKeyWrongFamily :: goerr where
  "errKeyWrongFamily = ErrSentinel ''auth.errKeyWrongFamily'' ''jwt: key is not of the algorithm's family''"

text \<open>\<^verbatim>\<open>fmt.Errorf\<close> of a sentinel with \<^verbatim>\<open>%w\<close> and more text.\<close>

definition wrapError :: "goerr \<Rightarrow> string \<Rightarrow> goerr" where
  "wrapError e detail = ErrWrap (errorText e @ '': '' @ detail) [e]"

section \<open>Headers and claims\<close>

record jwtHeader =
  hd_Alg :: string
  hd_Typ :: string
  hd_Kid :: string
  hd_Crit :: "string list"

text \<open>A slice of strings: elements decode into those the slice already has, then into fresh ones.\<close>

fun decodeStringElems :: "json list \<Rightarrow> string list \<Rightarrow> (string \<times> bool) list" where
  "decodeStringElems [] old = []"
| "decodeStringElems (j # js) [] = decodeString j '''' # decodeStringElems js []"
| "decodeStringElems (j # js) (p # ps) = decodeString j p # decodeStringElems js ps"

fun decodeStrings :: "string list decoder" where
  "decodeStrings (JArr js) old = (map fst (decodeStringElems js old), list_all snd (decodeStringElems js old))"
| "decodeStrings JNull old = ([], True)"
| "decodeStrings _ old = (old, False)"

definition jwtHeaderField :: "string \<Rightarrow> jwtHeader decoder" where
  "jwtHeaderField f =
    (if f = ''alg'' then into hd_Alg_update hd_Alg decodeString
     else if f = ''typ'' then into hd_Typ_update hd_Typ decodeString
     else if f = ''kid'' then into hd_Kid_update hd_Kid decodeString
     else into hd_Crit_update hd_Crit decodeStrings)"

definition unmarshalHeader :: "string \<Rightarrow> jwtHeader option" where
  "unmarshalHeader data =
    (case unmarshal (decodeStruct [''alg'', ''typ'', ''kid'', ''crit''] jwtHeaderField)
        \<lparr>hd_Alg = '''', hd_Typ = '''', hd_Kid = '''', hd_Crit = []\<rparr> data of
       (h, True) \<Rightarrow> Some h
     | (_, False) \<Rightarrow> None)"

type_synonym claims = "(string \<times> json) list"

text \<open>Decoding into \<^verbatim>\<open>any\<close> turns every number into a float64.\<close>

fun numbersFit :: "(string \<Rightarrow> int option) \<Rightarrow> json \<Rightarrow> bool" where
  "numbersFit unixOf (JNum n) = (unixOf n \<noteq> None)"
| "numbersFit unixOf (JArr js) = list_all (numbersFit unixOf) js"
| "numbersFit unixOf (JObj ms) = list_all (\<lambda>(k, j). numbersFit unixOf j) ms"
| "numbersFit unixOf j = True"

definition unmarshalClaims :: "(string \<Rightarrow> int option) \<Rightarrow> string \<Rightarrow> claims option" where
  "unmarshalClaims unixOf data = (case jparse data of
      Some JNull \<Rightarrow> Some []
    | Some (JObj ms) \<Rightarrow> if numbersFit unixOf (JObj ms) then Some (rawMembers ms) else None
    | _ \<Rightarrow> None)"

definition Claims_String :: "claims \<Rightarrow> string \<Rightarrow> string \<times> bool" where
  "Claims_String c name = (case map_of c name of Some (JStr s) \<Rightarrow> (s, True) | _ \<Rightarrow> ('''', False))"

text \<open>The strings of an array; other elements are left out.\<close>

fun stringsOf :: "json list \<Rightarrow> string list" where
  "stringsOf [] = []"
| "stringsOf (JStr s # js) = s # stringsOf js"
| "stringsOf (j # js) = stringsOf js"

definition audiencesOf :: "claims \<Rightarrow> string list" where
  "audiencesOf c = (case map_of c ''aud'' of
      Some (JStr s) \<Rightarrow> [s]
    | Some (JArr js) \<Rightarrow> stringsOf js
    | _ \<Rightarrow> [])"

text \<open>In nanoseconds.\<close>

definition numericDate :: "(string \<Rightarrow> int option) \<Rightarrow> claims \<Rightarrow> string \<Rightarrow> int option" where
  "numericDate unixOf c name = (case map_of c name of
      Some (JNum n) \<Rightarrow> map_option (\<lambda>t. t * 1000000000) (unixOf n)
    | _ \<Rightarrow> None)"

section \<open>The structure of a token\<close>

definition decodeSegment :: "string \<Rightarrow> string option" where
  "decodeSegment seg = rawURLDecode seg"

text \<open>Header, claims, signing input and signature.\<close>

definition parseToken ::
  "(string \<Rightarrow> int option) \<Rightarrow> string \<Rightarrow> goerr + (jwtHeader \<times> claims \<times> string \<times> string)" where
  "parseToken unixOf token = (case splitOn (CHR ''.'') token of
      [p0, p1, p2] \<Rightarrow> (case decodeSegment p0 of
          None \<Rightarrow> Inl (wrapError ErrMalformedToken ''header not base64url'')
        | Some headerBytes \<Rightarrow> (case unmarshalHeader headerBytes of
            None \<Rightarrow> Inl (wrapError ErrMalformedToken ''header not JSON'')
          | Some hdr \<Rightarrow> (case decodeSegment p1 of
              None \<Rightarrow> Inl (wrapError ErrMalformedToken ''payload not base64url'')
            | Some payloadBytes \<Rightarrow> (case unmarshalClaims unixOf payloadBytes of
                None \<Rightarrow> Inl (wrapError ErrMalformedToken ''payload not JSON'')
              | Some c \<Rightarrow> (case decodeSegment p2 of
                  None \<Rightarrow> Inl (wrapError ErrMalformedToken ''signature not base64url'')
                | Some sig \<Rightarrow> Inr (hdr, c, p0 @ ''.'' @ p1, sig))))))
    | _ \<Rightarrow> Inl ErrMalformedToken)"

section \<open>Signatures\<close>

definition bigInt :: "string \<Rightarrow> nat" where
  "bigInt bytes = fold (\<lambda>c n. 256 * n + of_char c) bytes 0"

definition hashBytes :: "jwsCrypto \<Rightarrow> hashFunction \<Rightarrow> string \<Rightarrow> string" where
  "hashBytes cr h data = cr_digest cr h data"

definition verifyECDSA ::
  "jwsCrypto \<Rightarrow> hashFunction \<Rightarrow> ecdsaPublicKey \<Rightarrow> string \<Rightarrow> string \<Rightarrow> bool" where
  "verifyECDSA cr h pub signingInput sig =
    (let keyBytes = (bitSize (ec_Curve pub) + 7) div 8 in
     if length sig \<noteq> 2 * keyBytes then False
     else (let r = bigInt (take keyBytes sig); s = bigInt (drop keyBytes sig) in
       cr_ecdsa cr pub (hashBytes cr h signingInput) r s))"

definition verify ::
  "jwsCrypto \<Rightarrow> string \<Rightarrow> string \<Rightarrow> string \<Rightarrow> verificationKey \<Rightarrow> goerr + bool" where
  "verify cr alg signingInput sig key = (case algProperties alg of
      None \<Rightarrow> Inl ErrUnknownAlgorithm
    | Some (h, FamilyHMAC) \<Rightarrow> (case vk_HMAC key of
        None \<Rightarrow> Inl errKeyWrongFamily
      | Some secret \<Rightarrow> Inr (sig = cr_mac cr h secret signingInput))
    | Some (h, FamilyRSA) \<Rightarrow> (case vk_RSA key of
        None \<Rightarrow> Inl errKeyWrongFamily
      | Some pub \<Rightarrow> Inr (cr_rsa cr pub h (hashBytes cr h signingInput) sig))
    | Some (h, FamilyECDSA) \<Rightarrow> (case vk_ECDSA key of
        None \<Rightarrow> Inl errKeyWrongFamily
      | Some pub \<Rightarrow> Inr (verifyECDSA cr h pub signingInput sig)))"

text \<open>\<open>None\<close> is success.\<close>

fun verifyFrom ::
  "jwsCrypto \<Rightarrow> string \<Rightarrow> string \<Rightarrow> string \<Rightarrow> bool \<Rightarrow> verificationKey list \<Rightarrow> goerr option" where
  "verifyFrom cr alg signingInput sig anyRightFamily [] =
     (if \<not> anyRightFamily then Some ErrNoKey else Some ErrSignatureInvalid)"
| "verifyFrom cr alg signingInput sig anyRightFamily (key # keys) =
     (case verify cr alg signingInput sig key of
        Inl err \<Rightarrow>
          if errorsIs err errKeyWrongFamily then verifyFrom cr alg signingInput sig anyRightFamily keys
          else Some err
      | Inr valid \<Rightarrow> if valid then None else verifyFrom cr alg signingInput sig True keys)"

definition verifyAny :: "jwsCrypto \<Rightarrow> string \<Rightarrow> string \<Rightarrow> string \<Rightarrow> verificationKey list \<Rightarrow> goerr option" where
  "verifyAny cr alg signingInput sig keys = verifyFrom cr alg signingInput sig False keys"

section \<open>The validator\<close>

text \<open>The clock and the rest of the world, which a key resolver may read and change.\<close>

type_synonym 'w authState = "int \<times> 'w"

type_synonym 'w keyResolver =
  "ctx \<Rightarrow> string \<Rightarrow> 'w authState \<Rightarrow> (goerr + verificationKey list) outcome \<times> 'w authState"

record 'w validator =
  va_allowedAlgs :: "string list"
  va_issuers :: "string list"
  va_audiences :: "string list"
  va_keys :: "'w keyResolver"
  va_clockSkew :: int
  va_requireExp :: bool
  va_now :: "'w authState \<Rightarrow> int"

type_synonym 'w validatorOption = "'w validator \<Rightarrow> 'w validator"

definition WithRequireExpiration :: "bool \<Rightarrow> 'w validatorOption" where
  "WithRequireExpiration required v = v\<lparr>va_requireExp := required\<rparr>"

definition WithClockSkew :: "int \<Rightarrow> 'w validatorOption" where
  "WithClockSkew d v = v\<lparr>va_clockSkew := d\<rparr>"

definition WithClock :: "('w authState \<Rightarrow> int) \<Rightarrow> 'w validatorOption" where
  "WithClock now v = v\<lparr>va_now := now\<rparr>"

definition NewValidator ::
  "string list \<Rightarrow> string list \<Rightarrow> string list \<Rightarrow> 'w keyResolver option \<Rightarrow> 'w validatorOption list \<Rightarrow>
   'w validator outcome" where
  "NewValidator allowedAlgs issuers audiences keys opts =
    (if allowedAlgs = [] then Panic (''auth: NewValidator requires at least one allowed algorithm '' @
       ''(an empty allowlist would trust the token's own alg - RFC 8725 '' @ [CHR 0xC2, CHR 0xA7] @ ''3.1)'')
     else if issuers = [] then Panic (''auth: NewValidator requires at least one trusted issuer '' @
       ''(an empty list would accept any issuer)'')
     else if audiences = [] then Panic (''auth: NewValidator requires at least one accepted audience '' @
       ''(an empty list would accept a token minted for any audience)'')
     else (case keys of
         None \<Rightarrow> Panic ''auth: NewValidator requires a non-nil KeyResolver''
       | Some resolver \<Rightarrow> (case find (\<lambda>a. algProperties a = None) allowedAlgs of
           Some a \<Rightarrow> Panic (''auth: NewValidator got an unsupported algorithm '' @ goQuote a @
             '' (supported: HS/RS/ES 256/384/512)'')
         | None \<Rightarrow> Return (fold (\<lambda>opt v. opt v) opts
             \<lparr>va_allowedAlgs = allowedAlgs, va_issuers = issuers, va_audiences = audiences,
              va_keys = resolver, va_clockSkew = 2 * 60 * 1000000000, va_requireExp = True,
              va_now = fst\<rparr>))))"

definition validateClaims ::
  "(string \<Rightarrow> int option) \<Rightarrow> 'w validator \<Rightarrow> claims \<Rightarrow> 'w authState \<Rightarrow> goerr option" where
  "validateClaims unixOf v c s =
    (let now = va_now v s; skew = va_clockSkew v; exp = numericDate unixOf c ''exp'' in
     if va_requireExp v \<and> exp = None then Some ErrMissingExpiration
     else if (case exp of None \<Rightarrow> False | Some t \<Rightarrow> now > t + skew) then Some ErrTokenExpired
     else if (case numericDate unixOf c ''nbf'' of None \<Rightarrow> False | Some t \<Rightarrow> now < t - skew)
       then Some ErrTokenNotYetValid
     else if (case numericDate unixOf c ''iat'' of None \<Rightarrow> False | Some t \<Rightarrow> now < t - skew)
       then Some ErrIssuedInFuture
     else (let iss = fst (Claims_String c ''iss'') in
       if iss \<notin> set (va_issuers v) then Some (wrapError ErrIssuerNotAllowed (goQuote iss))
       else if \<not> list_ex (\<lambda>aud. aud \<in> set (va_audiences v)) (audiencesOf c)
         then Some (wrapError ErrAudienceNotAllowed (''['' @ join '' '' (audiencesOf c) @ '']''))
       else None))"

definition Validator_Validate ::
  "(string \<Rightarrow> int option) \<Rightarrow> jwsCrypto \<Rightarrow> 'w validator \<Rightarrow> ctx \<Rightarrow> string \<Rightarrow> 'w authState \<Rightarrow>
   (goerr + claims) outcome \<times> 'w authState" where
  "Validator_Validate unixOf cr v c token s = (case parseToken unixOf token of
      Inl err \<Rightarrow> (Return (Inl err), s)
    | Inr (hdr, cl, signingInput, sig) \<Rightarrow>
        if hd_Crit hdr \<noteq> [] then (Return (Inl ErrCriticalHeaderUnsupported), s)
        else if hd_Alg hdr \<notin> set (va_allowedAlgs v)
          then (Return (Inl (wrapError ErrAlgorithmNotAllowed (goQuote (hd_Alg hdr)))), s)
        else andThen (va_keys v c (hd_Kid hdr) s) (\<lambda>resolved s1. (Return (case resolved of
            Inl err \<Rightarrow> Inl err
          | Inr keys \<Rightarrow>
              if keys = [] then Inl ErrNoKey
              else (case verifyAny cr (hd_Alg hdr) signingInput sig keys of
                  Some err \<Rightarrow> Inl err
                | None \<Rightarrow> (case validateClaims unixOf v cl s1 of Some err \<Rightarrow> Inl err | None \<Rightarrow> Inr cl))), s1)))"

section \<open>What an accepted token is\<close>

text \<open>The signature is one that the key verifies, by the field of the algorithm's family.\<close>

definition signedBy :: "jwsCrypto \<Rightarrow> string \<Rightarrow> string \<Rightarrow> string \<Rightarrow> verificationKey \<Rightarrow> bool" where
  "signedBy cr alg signingInput sig key = (case algProperties alg of
      None \<Rightarrow> False
    | Some (h, FamilyHMAC) \<Rightarrow> (case vk_HMAC key of
        None \<Rightarrow> False | Some secret \<Rightarrow> sig = cr_mac cr h secret signingInput)
    | Some (h, FamilyRSA) \<Rightarrow> (case vk_RSA key of
        None \<Rightarrow> False | Some pub \<Rightarrow> cr_rsa cr pub h (cr_digest cr h signingInput) sig)
    | Some (h, FamilyECDSA) \<Rightarrow> (case vk_ECDSA key of
        None \<Rightarrow> False
      | Some pub \<Rightarrow> (let n = (bitSize (ec_Curve pub) + 7) div 8 in length sig = 2 * n \<and>
          cr_ecdsa cr pub (cr_digest cr h signingInput) (bigInt (take n sig)) (bigInt (drop n sig)))))"

text \<open>The claims that a policy allows at an instant.\<close>

definition claimsAllowed ::
  "(string \<Rightarrow> int option) \<Rightarrow> bool \<Rightarrow> int \<Rightarrow> string list \<Rightarrow> string list \<Rightarrow> claims \<Rightarrow> int \<Rightarrow> bool" where
  "claimsAllowed unixOf requireExp skew issuers audiences c now \<longleftrightarrow>
     (case numericDate unixOf c ''exp'' of None \<Rightarrow> \<not> requireExp | Some t \<Rightarrow> now \<le> t + skew) \<and>
     (case numericDate unixOf c ''nbf'' of None \<Rightarrow> True | Some t \<Rightarrow> t - skew \<le> now) \<and>
     (case numericDate unixOf c ''iat'' of None \<Rightarrow> True | Some t \<Rightarrow> t - skew \<le> now) \<and>
     fst (Claims_String c ''iss'') \<in> set issuers \<and> set (audiencesOf c) \<inter> set audiences \<noteq> {}"

lemma verify_signed: "verify cr alg i sig key = Inr True \<longleftrightarrow> signedBy cr alg i sig key"
  by (auto simp: verify_def signedBy_def verifyECDSA_def hashBytes_def Let_def
      split: option.splits prod.splits algFamily.splits)

lemma verify_error:
  "algProperties alg \<noteq> None \<Longrightarrow> verify cr alg i sig key = Inl err \<Longrightarrow> err = errKeyWrongFamily"
  by (auto simp: verify_def split: option.splits prod.splits algFamily.splits)

lemma verifyAny_None:
  assumes "algProperties alg \<noteq> None"
  shows "verifyAny cr alg i sig keys = None \<longleftrightarrow> (\<exists>key \<in> set keys. signedBy cr alg i sig key)"
proof -
  have "verifyFrom cr alg i sig b keys = None \<longleftrightarrow> (\<exists>key \<in> set keys. signedBy cr alg i sig key)" for b
  proof (induction keys arbitrary: b)
    case (Cons key keys)
    show ?case
    proof (cases "verify cr alg i sig key")
      case (Inl err)
      then have "\<not> signedBy cr alg i sig key" by (simp flip: verify_signed)
      with Inl verify_error [OF assms Inl] Cons show ?thesis by simp
    next
      case (Inr valid)
      then show ?thesis using Cons verify_signed [of cr alg i sig key] by (cases valid) auto
    qed
  qed simp
  then show ?thesis by (simp add: verifyAny_def)
qed

lemma validateClaims_None:
  "validateClaims unixOf v c s = None \<longleftrightarrow>
    claimsAllowed unixOf (va_requireExp v) (va_clockSkew v) (va_issuers v) (va_audiences v) c (va_now v s)"
  by (auto simp: validateClaims_def claimsAllowed_def Let_def list_ex_iff not_less split: option.splits)

text \<open>What \<^verbatim>\<open>NewValidator\<close> and its options fix.\<close>

definition policyOptions :: "'w validatorOption set" where
  "policyOptions = range WithRequireExpiration \<union> range WithClockSkew \<union> range WithClock"

lemma options_keep:
  "set opts \<subseteq> policyOptions \<Longrightarrow> v' = fold (\<lambda>opt v. opt v) opts v \<Longrightarrow>
    va_allowedAlgs v' = va_allowedAlgs v \<and> va_issuers v' = va_issuers v \<and>
    va_audiences v' = va_audiences v \<and> va_keys v' = va_keys v"
proof (induction opts arbitrary: v)
  case (Cons opt opts)
  have "va_allowedAlgs (opt v) = va_allowedAlgs v \<and> va_issuers (opt v) = va_issuers v \<and>
      va_audiences (opt v) = va_audiences v \<and> va_keys (opt v) = va_keys v"
    using Cons.prems(1)
    by (auto simp: policyOptions_def WithRequireExpiration_def WithClockSkew_def WithClock_def)
  with Cons show ?case by simp
qed simp

lemma NewValidator_Return:
  assumes "NewValidator algs issuers audiences keys opts = Return v" and "set opts \<subseteq> policyOptions"
  obtains resolver where "keys = Some resolver" "algs \<noteq> []" "issuers \<noteq> []" "audiences \<noteq> []"
    "va_allowedAlgs v = algs" "va_issuers v = issuers" "va_audiences v = audiences" "va_keys v = resolver"
    "\<forall>a \<in> set algs. algProperties a \<noteq> None"
proof -
  obtain resolver where r: "keys = Some resolver" "algs \<noteq> []" "issuers \<noteq> []" "audiences \<noteq> []"
    "find (\<lambda>a. algProperties a = None) algs = None"
    "v = fold (\<lambda>opt v. opt v) opts
             \<lparr>va_allowedAlgs = algs, va_issuers = issuers, va_audiences = audiences,
              va_keys = resolver, va_clockSkew = 2 * 60 * 1000000000, va_requireExp = True, va_now = fst\<rparr>"
    using assms(1) by (auto simp: NewValidator_def split: if_splits option.splits)
  show ?thesis
    using options_keep [OF assms(2) r(6)] r(1-5) by (intro that) (auto simp: find_None_iff)
qed

lemma parseToken_Inr:
  assumes "parseToken unixOf token = Inr (hdr, cl, i, sig)"
  shows "\<exists>p0 p1 p2. token = p0 @ ''.'' @ p1 @ ''.'' @ p2 \<and> i = p0 @ ''.'' @ p1 \<and>
    Option.bind (rawURLDecode p0) unmarshalHeader = Some hdr \<and>
    Option.bind (rawURLDecode p1) (unmarshalClaims unixOf) = Some cl \<and> rawURLDecode p2 = Some sig"
proof -
  from assms obtain p0 p1 p2 where s: "splitOn (CHR ''.'') token = [p0, p1, p2]"
    and rest: "Option.bind (rawURLDecode p0) unmarshalHeader = Some hdr"
      "Option.bind (rawURLDecode p1) (unmarshalClaims unixOf) = Some cl" "rawURLDecode p2 = Some sig"
      "i = p0 @ ''.'' @ p1"
    by (auto simp: parseToken_def decodeSegment_def split: list.splits option.splits)
  have "token = p0 @ ''.'' @ p1 @ ''.'' @ p2"
    using join_splitOn [of "CHR ''.''" token] by (simp add: s)
  with rest show ?thesis by blast
qed

lemma validate_Inr:
  assumes "\<forall>a \<in> set (va_allowedAlgs v). algProperties a \<noteq> None"
  shows "Validator_Validate unixOf cr v c token s = (Return (Inr cl), s1) \<longleftrightarrow>
    (\<exists>hdr i sig keys. parseToken unixOf token = Inr (hdr, cl, i, sig) \<and> hd_Crit hdr = [] \<and>
      hd_Alg hdr \<in> set (va_allowedAlgs v) \<and> va_keys v c (hd_Kid hdr) s = (Return (Inr keys), s1) \<and>
      (\<exists>key \<in> set keys. signedBy cr (hd_Alg hdr) i sig key) \<and>
      claimsAllowed unixOf (va_requireExp v) (va_clockSkew v) (va_issuers v) (va_audiences v) cl (va_now v s1))"
    (is "?l \<longleftrightarrow> ?r")
proof
  assume ?l
  then obtain hdr i sig where p: "parseToken unixOf token = Inr (hdr, cl, i, sig)" "hd_Crit hdr = []"
      "hd_Alg hdr \<in> set (va_allowedAlgs v)"
    by (auto simp: Validator_Validate_def andThen_def split: sum.splits if_splits prod.splits outcome.splits option.splits)
  obtain r s2 where r: "va_keys v c (hd_Kid hdr) s = (r, s2)" by (rule prod.exhaust)
  with \<open>?l\<close> p obtain keys where keys: "r = Return (Inr keys)" "s2 = s1" "keys \<noteq> []"
      "verifyAny cr (hd_Alg hdr) i sig keys = None" "validateClaims unixOf v cl s1 = None"
    by (auto simp: Validator_Validate_def andThen_def split: sum.splits if_splits outcome.splits option.splits)
  with p r show ?r
    unfolding verifyAny_None [OF bspec [OF assms p(3)]] validateClaims_None by blast
next
  assume ?r
  then obtain hdr i sig keys where p: "parseToken unixOf token = Inr (hdr, cl, i, sig)" "hd_Crit hdr = []"
      "hd_Alg hdr \<in> set (va_allowedAlgs v)" "va_keys v c (hd_Kid hdr) s = (Return (Inr keys), s1)"
    and k: "\<exists>key \<in> set keys. signedBy cr (hd_Alg hdr) i sig key"
      "claimsAllowed unixOf (va_requireExp v) (va_clockSkew v) (va_issuers v) (va_audiences v) cl (va_now v s1)"
    by blast
  have "keys \<noteq> []" using k(1) by auto
  moreover have "verifyAny cr (hd_Alg hdr) i sig keys = None"
    using k(1) verifyAny_None [OF bspec [OF assms p(3)]] by blast
  moreover have "validateClaims unixOf v cl s1 = None" using k(2) by (simp add: validateClaims_None)
  ultimately show ?l using p by (simp add: Validator_Validate_def)
qed


section \<open>Issuing a token\<close>

text \<open>A token as an issuer writes it; with HS256, signed under a secret.\<close>

definition issueHeader :: "string \<Rightarrow> string \<Rightarrow> string" where
  "issueHeader alg kid = jprint (JObj [(''alg'', JStr alg), (''kid'', JStr kid), (''typ'', JStr ''JWT'')])"

definition issuePayload :: "claims \<Rightarrow> string" where
  "issuePayload cl = jprint (JObj cl)"

definition issueInput :: "string \<Rightarrow> string \<Rightarrow> claims \<Rightarrow> string" where
  "issueInput alg kid cl = rawURLEncode (issueHeader alg kid) @ ''.'' @ rawURLEncode (issuePayload cl)"

definition compactToken :: "string \<Rightarrow> string \<Rightarrow> string" where
  "compactToken i sig = i @ ''.'' @ rawURLEncode sig"

definition issueToken :: "jwsCrypto \<Rightarrow> string \<Rightarrow> string \<Rightarrow> claims \<Rightarrow> string" where
  "issueToken cr kid secret cl =
    compactToken (issueInput ''HS256'' kid cl) (cr_mac cr SHA256 secret (issueInput ''HS256'' kid cl))"

text \<open>Claims that an encoder can have written.\<close>

definition issuable :: "(string \<Rightarrow> int option) \<Rightarrow> claims \<Rightarrow> bool" where
  "issuable unixOf cl \<longleftrightarrow> jvalid (JObj cl) \<and> distinct (map fst cl) \<and> numbersFit unixOf (JObj cl)"

lemma unmarshalHeader_issued:
  assumes "validText alg" "validText kid"
  shows "unmarshalHeader (issueHeader alg kid) =
    Some \<lparr>hd_Alg = alg, hd_Typ = ''JWT'', hd_Kid = kid, hd_Crit = []\<rparr>"
proof -
  have "jvalid (JObj [(''alg'', JStr alg), (''kid'', JStr kid), (''typ'', JStr ''JWT'')])"
    using assms by (simp add: validText_ascii byteIn_def)
  from jparse_jprint [OF this] show ?thesis
    by (simp add: unmarshalHeader_def issueHeader_def unmarshal_def decodeStruct_fold memberStep_def
        jwtHeaderField_def into_def)
qed

lemma unmarshalClaims_issued:
  assumes "issuable unixOf cl"
  shows "unmarshalClaims unixOf (issuePayload cl) = Some cl"
proof -
  have "jparse (issuePayload cl) = Some (JObj cl)" "distinct (map fst cl)" "numbersFit unixOf (JObj cl)"
    using assms jparse_jprint unfolding issuable_def issuePayload_def by blast+
  then show ?thesis by (simp add: unmarshalClaims_def rawMembers_distinct)
qed

lemma parseToken_compact:
  assumes "validText alg" "validText kid" "issuable unixOf cl"
  shows "parseToken unixOf (compactToken (issueInput alg kid cl) sig) =
    Inr (\<lparr>hd_Alg = alg, hd_Typ = ''JWT'', hd_Kid = kid, hd_Crit = []\<rparr>, cl, issueInput alg kid cl, sig)"
proof -
  have "splitOn (CHR ''.'') (compactToken (issueInput alg kid cl) sig) =
      [rawURLEncode (issueHeader alg kid), rawURLEncode (issuePayload cl), rawURLEncode sig]"
    using rawURLEncode_no_dot by (simp add: compactToken_def issueInput_def splitOn_append splitOn_piece)
  then show ?thesis
    using assms by (simp add: parseToken_def decodeSegment_def unmarshalHeader_issued unmarshalClaims_issued)
       (simp add: issueInput_def)
qed

lemma parseToken_issued:
  "validText kid \<Longrightarrow> issuable unixOf cl \<Longrightarrow> parseToken unixOf (issueToken cr kid secret cl) =
    Inr (\<lparr>hd_Alg = ''HS256'', hd_Typ = ''JWT'', hd_Kid = kid, hd_Crit = []\<rparr>, cl, issueInput ''HS256'' kid cl,
      cr_mac cr SHA256 secret (issueInput ''HS256'' kid cl))"
  unfolding issueToken_def by (rule parseToken_compact) (simp_all add: validText_ascii byteIn_def)

lemma HS256_signed: "vk_HMAC key = Some secret \<Longrightarrow> signedBy cr ''HS256'' i (cr_mac cr SHA256 secret i) key"
  by (simp add: signedBy_def algProperties_def)

section \<open>Properties\<close>

text \<open>C9 (safety). A validator that \<^verbatim>\<open>NewValidator\<close> returned accepts a token exactly when its three
  parts decode, no critical extension is named, its algorithm is on the allowlist, one of the keys
  that the resolver returned for its key id verifies the signature with the field of the algorithm's
  family, and its claims are within the policy at the validator's instant: an allowed issuer, a shared
  audience, not expired, not early and, unless the option says otherwise, with an expiration.\<close>

theorem token_accepted_iff:
  assumes "NewValidator algs issuers audiences (Some resolver) opts = Return v" and "set opts \<subseteq> policyOptions"
  shows "Validator_Validate unixOf cr v c token s = (Return (Inr cl), s1) \<longleftrightarrow>
    (\<exists>hdr i sig keys. parseToken unixOf token = Inr (hdr, cl, i, sig) \<and> hd_Crit hdr = [] \<and>
      hd_Alg hdr \<in> set algs \<and> resolver c (hd_Kid hdr) s = (Return (Inr keys), s1) \<and>
      (\<exists>key \<in> set keys. signedBy cr (hd_Alg hdr) i sig key) \<and>
      claimsAllowed unixOf (va_requireExp v) (va_clockSkew v) issuers audiences cl (va_now v s1))"
proof -
  obtain r where r: "Some resolver = Some r" "va_allowedAlgs v = algs" "va_issuers v = issuers"
    "va_audiences v = audiences" "va_keys v = r" "\<forall>a \<in> set algs. algProperties a \<noteq> None"
    by (rule NewValidator_Return [OF assms]) (rule that)
  have alg: "\<forall>a \<in> set (va_allowedAlgs v). algProperties a \<noteq> None" using r(2,6) by simp
  have "va_keys v = resolver" using r(1,5) by simp
  from validate_Inr [OF alg, where unixOf = unixOf and cr = cr and c = c and token = token and s = s and cl = cl
      and ?s1.0 = s1] show ?thesis
    unfolding r(2-4) \<open>va_keys v = resolver\<close> .
qed

definition witnessResolver :: "string \<Rightarrow> 'w keyResolver" where
  "witnessResolver secret c kid s = (Return (Inr
     [\<lparr>vk_HMAC = Some secret, vk_RSA = None, vk_ECDSA = None\<rparr>]), s)"

definition witnessValidator :: "string \<Rightarrow> 'w validator" where
  "witnessValidator secret = \<lparr>va_allowedAlgs = [''HS256''], va_issuers = [''idp''], va_audiences = [''orders''],
     va_keys = witnessResolver secret, va_clockSkew = 0, va_requireExp = True, va_now = fst\<rparr>"

lemma witnessValidator_built:
  "NewValidator [''HS256''] [''idp''] [''orders''] (Some (witnessResolver secret)) [WithClockSkew 0] =
    Return (witnessValidator secret)"
  by (simp add: NewValidator_def algProperties_def WithClockSkew_def witnessValidator_def)

definition witnessClaims :: claims where
  "witnessClaims = [(''aud'', JStr ''orders''), (''exp'', JNum ''100''), (''iss'', JStr ''idp'')]"

lemma parseInt_100: "parseInt ''100'' = Some 100"
  by code_simp

lemma witnessClaims_issuable: "issuable parseInt witnessClaims"
proof -
  have "validNumber ''100''" "list_all numberChar ''100''" by code_simp+
  then show ?thesis
    by (simp add: issuable_def witnessClaims_def parseInt_100 validText_ascii byteIn_def)
qed

lemma witnessClaims_allowed:
  "claimsAllowed parseInt True 0 [''idp''] [''orders''] witnessClaims now \<longleftrightarrow> now \<le> 100000000000"
  by (simp add: claimsAllowed_def witnessClaims_def numericDate_def Claims_String_def audiencesOf_def parseInt_100)

theorem token_accepted_iff_witness:
  "\<forall>cr t. Validator_Validate parseInt cr (witnessValidator ''s3cr3t'') background
      (issueToken cr ''k1'' ''s3cr3t'' witnessClaims) (t, ()) = (Return (Inr witnessClaims), (t, ())) \<longleftrightarrow>
    t \<le> 100000000000"
proof (intro allI)
  fix cr t
  have opts: "set [WithClockSkew 0] \<subseteq> (policyOptions :: unit validatorOption set)"
    by (simp add: policyOptions_def)
  have k: "validText ''k1''" by (simp add: validText_ascii byteIn_def)
  show "Validator_Validate parseInt cr (witnessValidator ''s3cr3t'') background
      (issueToken cr ''k1'' ''s3cr3t'' witnessClaims) (t, ()) = (Return (Inr witnessClaims), (t, ())) \<longleftrightarrow>
    t \<le> 100000000000"
    unfolding token_accepted_iff [OF witnessValidator_built opts] parseToken_issued [OF k witnessClaims_issuable]
    by (simp add: witnessResolver_def HS256_signed witnessValidator_def witnessClaims_allowed)
qed

end
