(* ===== verification/JwtKeys.thy ===== *)
theory JwtKeys
  imports Jwt
begin

text \<open>
  Verification keys (\<^verbatim>\<open>auth/jwtkeys.go\<close>): the fixed set of keys and the keys of a JWKS document, with the
  interface \<^verbatim>\<open>KeyResolver\<close> as a locale. \<open>corrupt\<close> and \<open>jsonError\<close> are the errors of \<^verbatim>\<open>encoding/base64\<close> and
  \<^verbatim>\<open>encoding/json\<close> for a text they refuse.
\<close>

section \<open>Static keys\<close>

record staticKeys =
  sk_byKid :: "(string \<times> verificationKey) list"
  sk_keyless :: "verificationKey list"

definition NewStaticKeys :: staticKeys where
  "NewStaticKeys = \<lparr>sk_byKid = [], sk_keyless = []\<rparr>"

definition staticAdd :: "staticKeys \<Rightarrow> string \<Rightarrow> verificationKey \<Rightarrow> staticKeys" where
  "staticAdd sk kid key =
    (if kid = '''' then sk\<lparr>sk_keyless := sk_keyless sk @ [key]\<rparr>
     else sk\<lparr>sk_byKid := AList.update kid key (sk_byKid sk)\<rparr>)"

text \<open>The zero key: no field is set.\<close>

definition noKey :: verificationKey where
  "noKey = \<lparr>vk_HMAC = None, vk_RSA = None, vk_ECDSA = None\<rparr>"

definition AddHMAC :: "staticKeys \<Rightarrow> string \<Rightarrow> string option \<Rightarrow> staticKeys" where
  "AddHMAC sk kid secret = staticAdd sk kid (noKey\<lparr>vk_HMAC := secret\<rparr>)"

definition AddRSA :: "staticKeys \<Rightarrow> string \<Rightarrow> rsaPublicKey option \<Rightarrow> staticKeys" where
  "AddRSA sk kid key = staticAdd sk kid (noKey\<lparr>vk_RSA := key\<rparr>)"

definition AddECDSA :: "staticKeys \<Rightarrow> string \<Rightarrow> ecdsaPublicKey option \<Rightarrow> staticKeys" where
  "AddECDSA sk kid key = staticAdd sk kid (noKey\<lparr>vk_ECDSA := key\<rparr>)"

definition staticLookup :: "staticKeys \<Rightarrow> string \<Rightarrow> verificationKey list" where
  "staticLookup sk kid =
    (if kid \<noteq> '''' then (case map_of (sk_byKid sk) kid of Some k \<Rightarrow> [k] | None \<Rightarrow> []) else []) @ sk_keyless sk"

definition StaticKeys_ResolveKeys :: "staticKeys \<Rightarrow> 'w keyResolver" where
  "StaticKeys_ResolveKeys sk c kid s = (Return (Inr (staticLookup sk kid)), s)"

section \<open>JSON Web Keys\<close>

record jwk =
  jwk_Kty :: string
  jwk_Kid :: string
  jwk_Use :: string
  jwk_Alg :: string
  jwk_N :: string
  jwk_E :: string
  jwk_Crv :: string
  jwk_X :: string
  jwk_Y :: string

definition zeroJwk :: jwk where
  "zeroJwk = \<lparr>jwk_Kty = '''', jwk_Kid = '''', jwk_Use = '''', jwk_Alg = '''', jwk_N = '''', jwk_E = '''',
     jwk_Crv = '''', jwk_X = '''', jwk_Y = ''''\<rparr>"

definition jwkField :: "string \<Rightarrow> jwk decoder" where
  "jwkField f =
    (if f = ''kty'' then into jwk_Kty_update jwk_Kty decodeString
     else if f = ''kid'' then into jwk_Kid_update jwk_Kid decodeString
     else if f = ''use'' then into jwk_Use_update jwk_Use decodeString
     else if f = ''alg'' then into jwk_Alg_update jwk_Alg decodeString
     else if f = ''n'' then into jwk_N_update jwk_N decodeString
     else if f = ''e'' then into jwk_E_update jwk_E decodeString
     else if f = ''crv'' then into jwk_Crv_update jwk_Crv decodeString
     else if f = ''x'' then into jwk_X_update jwk_X decodeString
     else into jwk_Y_update jwk_Y decodeString)"

definition decodeJwk :: "jwk decoder" where
  "decodeJwk = decodeStruct [''kty'', ''kid'', ''use'', ''alg'', ''n'', ''e'', ''crv'', ''x'', ''y''] jwkField"

fun decodeJwkElems :: "json list \<Rightarrow> jwk list \<Rightarrow> (jwk \<times> bool) list" where
  "decodeJwkElems [] old = []"
| "decodeJwkElems (j # js) [] = decodeJwk j zeroJwk # decodeJwkElems js []"
| "decodeJwkElems (j # js) (p # ps) = decodeJwk j p # decodeJwkElems js ps"

fun decodeJwks :: "jwk list decoder" where
  "decodeJwks (JArr js) old = (map fst (decodeJwkElems js old), list_all snd (decodeJwkElems js old))"
| "decodeJwks JNull old = ([], True)"
| "decodeJwks _ old = (old, False)"

definition errUnsupportedJWK :: goerr where
  "errUnsupportedJWK = ErrSentinel ''auth.errUnsupportedJWK'' ''jwt: unsupported or malformed JWK''"

definition minRSABits :: nat where "minRSABits = 2048"
definition maxRSABits :: nat where "maxRSABits = 16384"
definition maxRSAExponent :: nat where "maxRSAExponent = 2 ^ 31 - 1"

fun bitLen :: "nat \<Rightarrow> nat" where
  "bitLen n = (if n = 0 then 0 else Suc (bitLen (n div 2)))"

declare bitLen.simps [simp del]

definition curveFor :: "string \<Rightarrow> curve option" where
  "curveFor crv = map_of [(''P-256'', P256), (''P-384'', P384), (''P-521'', P521)] crv"

definition decodeBigInt :: "(string \<Rightarrow> goerr) \<Rightarrow> string \<Rightarrow> goerr + nat" where
  "decodeBigInt corrupt s = (case rawURLDecode s of
      None \<Rightarrow> Inl (corrupt s)
    | Some b \<Rightarrow> if b = '''' then Inl (ErrNew ''empty'') else Inr (bigInt b))"

definition badJWK :: "string \<Rightarrow> goerr \<Rightarrow> goerr" where
  "badJWK what err = ErrWrap (''jwt: bad '' @ what @ '' in JWK: '' @ errorText err) [err]"

definition toVerificationKey ::
  "(string \<Rightarrow> goerr) \<Rightarrow> jwsCrypto \<Rightarrow> jwk \<Rightarrow> goerr + verificationKey" where
  "toVerificationKey corrupt cr k =
    (if jwk_Use k = ''enc'' then Inl errUnsupportedJWK
     else if jwk_Kty k = ''RSA'' then (case decodeBigInt corrupt (jwk_N k) of
         Inl err \<Rightarrow> Inl (badJWK ''RSA modulus'' err)
       | Inr n \<Rightarrow>
           if bitLen n < minRSABits \<or> maxRSABits < bitLen n then
             Inl (ErrNew (''jwt: RSA modulus of '' @ natText (bitLen n) @ '' bits is outside the allowed ['' @
               natText minRSABits @ '','' @ natText maxRSABits @ '']''))
           else (case rawURLDecode (jwk_E k) of
               None \<Rightarrow> Inl (badJWK ''RSA exponent'' (corrupt (jwk_E k)))
             | Some eBytes \<Rightarrow> (let e = bigInt eBytes in
                 if e \<ge> 2 ^ 63 \<or> e < 3 \<or> e > maxRSAExponent then Inl (ErrNew ''jwt: implausible RSA exponent in JWK'')
                 else Inr (noKey\<lparr>vk_RSA := Some \<lparr>rsa_N = n, rsa_E = e\<rparr>\<rparr>))))
     else if jwk_Kty k = ''EC'' then (case curveFor (jwk_Crv k) of
         None \<Rightarrow> Inl (ErrNew (''jwt: unsupported EC curve '' @ goQuote (jwk_Crv k) @ '' in JWK''))
       | Some crv \<Rightarrow> (case decodeBigInt corrupt (jwk_X k) of
           Inl err \<Rightarrow> Inl (badJWK ''EC x'' err)
         | Inr x \<Rightarrow> (case decodeBigInt corrupt (jwk_Y k) of
             Inl err \<Rightarrow> Inl (badJWK ''EC y'' err)
           | Inr y \<Rightarrow>
               if \<not> cr_onCurve cr crv x y then
                 Inl (ErrNew (''jwt: EC point in JWK is not on curve '' @ goQuote (jwk_Crv k)))
               else Inr (noKey\<lparr>vk_ECDSA := Some \<lparr>ec_Curve = crv, ec_X = x, ec_Y = y\<rparr>\<rparr>))))
     else Inl errUnsupportedJWK)"

text \<open>Keys by kid, in the order of the document, and the keys without one.\<close>

type_synonym keySet = "(string \<times> verificationKey list) list \<times> verificationKey list"

fun collectKeys :: "(string \<Rightarrow> goerr) \<Rightarrow> jwsCrypto \<Rightarrow> jwk list \<Rightarrow> keySet \<Rightarrow> goerr + keySet" where
  "collectKeys corrupt cr [] ks = Inr ks"
| "collectKeys corrupt cr (k # rest) (byKid, keyless) = (case toVerificationKey corrupt cr k of
      Inl err \<Rightarrow> if errorsIs err errUnsupportedJWK then collectKeys corrupt cr rest (byKid, keyless) else Inl err
    | Inr vk \<Rightarrow> collectKeys corrupt cr rest
        (if jwk_Kid k = '''' then (byKid, keyless @ [vk])
         else (AList.update (jwk_Kid k) (goIndex byKid (jwk_Kid k) [] @ [vk]) byKid, keyless)))"

definition parseJWKSet ::
  "(string \<Rightarrow> goerr) \<Rightarrow> (string \<Rightarrow> goerr) \<Rightarrow> jwsCrypto \<Rightarrow> string \<Rightarrow> goerr + keySet" where
  "parseJWKSet corrupt jsonError cr body =
    (case unmarshal (decodeStruct [''keys''] (\<lambda>f. decodeJwks)) [] body of
       (_, False) \<Rightarrow> Inl (ErrWrap (''jwt: JWKS is not valid JSON: '' @ errorText (jsonError body)) [jsonError body])
     | (ks, True) \<Rightarrow> collectKeys corrupt cr ks ([], []))"

section \<open>The interface\<close>

text \<open>
  A key resolver hands out keys of its own trust only. What a validator accepts is then signed under a
  trusted key.
\<close>

locale key_resolver =
  fixes resolve :: "'w keyResolver" and trusted :: "'w authState \<Rightarrow> verificationKey set"
  assumes resolve_trusted: "resolve c kid s = (Return (Inr keys), s') \<Longrightarrow> set keys \<subseteq> trusted s'"
begin

lemma accepted_signed:
  assumes v: "NewValidator algs issuers audiences (Some resolve) opts = Return v" "set opts \<subseteq> policyOptions"
    and a: "Validator_Validate unixOf cr v c token s = (Return (Inr cl), s')"
  shows "\<exists>hdr i sig. \<exists>key \<in> trusted s'. parseToken unixOf token = Inr (hdr, cl, i, sig) \<and>
    hd_Alg hdr \<in> set algs \<and> signedBy cr (hd_Alg hdr) i sig key"
proof -
  obtain resolver where r: "Some resolve = Some resolver" "va_allowedAlgs v = algs" "va_keys v = resolver"
    "\<forall>a \<in> set algs. algProperties a \<noteq> None"
    by (rule NewValidator_Return [OF v]) (rule that)
  have alg: "\<forall>a \<in> set (va_allowedAlgs v). algProperties a \<noteq> None" using r(2,4) by simp
  have res: "va_keys v = resolve" using r(1,3) by simp
  from a [unfolded validate_Inr [OF alg]] obtain hdr i sig keys key
    where p: "parseToken unixOf token = Inr (hdr, cl, i, sig)" "hd_Alg hdr \<in> set algs"
      "resolve c (hd_Kid hdr) s = (Return (Inr keys), s')" "key \<in> set keys" "signedBy cr (hd_Alg hdr) i sig key"
    unfolding res r(2) by blast
  have "key \<in> trusted s'" using resolve_trusted [OF p(3)] p(4) by blast
  with p(1,2,5) show ?thesis by blast
qed

end

definition staticTrust :: "staticKeys \<Rightarrow> verificationKey set" where
  "staticTrust sk = snd ` set (sk_byKid sk) \<union> set (sk_keyless sk)"

lemma staticLookup_trusted: "set (staticLookup sk kid) \<subseteq> staticTrust sk"
proof
  fix k
  assume "k \<in> set (staticLookup sk kid)"
  then have "map_of (sk_byKid sk) kid = Some k \<or> k \<in> set (sk_keyless sk)"
    by (cases "map_of (sk_byKid sk) kid"; cases "kid = ''''") (auto simp: staticLookup_def)
  then show "k \<in> staticTrust sk" unfolding staticTrust_def by (metis UnI1 UnI2 image_eqI map_of_SomeD snd_conv)
qed

interpretation static_keys: key_resolver "StaticKeys_ResolveKeys sk" "\<lambda>s. staticTrust sk" for sk
  using staticLookup_trusted by unfold_locales (auto simp: StaticKeys_ResolveKeys_def)

section \<open>What a JWKS document yields\<close>

text \<open>A public key within the bounds of the parser; never a shared secret.\<close>

definition publicKey :: "jwsCrypto \<Rightarrow> verificationKey \<Rightarrow> bool" where
  "publicKey cr key \<longleftrightarrow> vk_HMAC key = None \<and>
    (case vk_RSA key of None \<Rightarrow> True | Some k \<Rightarrow>
       minRSABits \<le> bitLen (rsa_N k) \<and> bitLen (rsa_N k) \<le> maxRSABits \<and> 3 \<le> rsa_E k \<and> rsa_E k \<le> maxRSAExponent) \<and>
    (case vk_ECDSA key of None \<Rightarrow> True | Some k \<Rightarrow> cr_onCurve cr (ec_Curve k) (ec_X k) (ec_Y k))"

definition keysOf :: "keySet \<Rightarrow> verificationKey set" where
  "keysOf ks = \<Union> (set ` snd ` set (fst ks)) \<union> set (snd ks)"

lemma toVerificationKey_public: "toVerificationKey corrupt cr k = Inr vk \<Longrightarrow> publicKey cr vk"
  by (auto simp: toVerificationKey_def publicKey_def noKey_def Let_def split: if_splits sum.splits option.splits)

lemma update_values: "snd ` set (AList.update k v m) \<subseteq> insert v (snd ` set m)"
  by (induction m) auto

lemma goIndex_values: "goIndex m k z \<in> insert z (snd ` set m)"
proof (cases "map_of m k")
  case (Some v)
  then show ?thesis by (auto simp: goIndex_def dest: map_of_SomeD intro: rev_image_eqI)
qed (simp add: goIndex_def)

lemma keysOf_add:
  "keysOf (AList.update k (goIndex m k [] @ [vk]) m, keyless) \<subseteq> insert vk (keysOf (m, keyless))"
proof -
  have "\<Union> (set ` snd ` set (AList.update k (goIndex m k [] @ [vk]) m)) \<subseteq>
      \<Union> (set ` insert (goIndex m k [] @ [vk]) (snd ` set m))"
    using update_values [of k "goIndex m k [] @ [vk]" m] by blast
  also have "\<dots> \<subseteq> insert vk (\<Union> (set ` snd ` set m))" using goIndex_values [of m k "[]"] by auto
  finally show ?thesis by (auto simp: keysOf_def)
qed

lemma collectKeys_public:
  "collectKeys corrupt cr ks acc = Inr res \<Longrightarrow> \<forall>vk \<in> keysOf acc. publicKey cr vk \<Longrightarrow>
    \<forall>vk \<in> keysOf res. publicKey cr vk"
proof (induction ks arbitrary: acc)
  case (Cons k ks)
  obtain m keyless where acc: "acc = (m, keyless)" by (rule prod.exhaust)
  show ?case
  proof (cases "toVerificationKey corrupt cr k")
    case (Inl err)
    with Cons acc show ?thesis by (auto split: if_splits)
  next
    case (Inr vk)
    let ?acc = "if jwk_Kid k = '''' then (m, keyless @ [vk])
      else (AList.update (jwk_Kid k) (goIndex m (jwk_Kid k) [] @ [vk]) m, keyless)"
    have "keysOf ?acc \<subseteq> insert vk (keysOf acc)"
      using keysOf_add [of "jwk_Kid k" m vk keyless] by (auto simp: acc keysOf_def)
    then have "\<forall>vk \<in> keysOf ?acc. publicKey cr vk"
      using Cons.prems(2) toVerificationKey_public [OF Inr] by blast
    moreover have "collectKeys corrupt cr ks ?acc = Inr res" using Cons.prems(1) by (simp add: acc Inr)
    ultimately show ?thesis by (rule Cons.IH [rotated])
  qed
qed simp

lemma parseJWKSet_public:
  assumes "parseJWKSet corrupt jsonError cr body = Inr ks" "vk \<in> keysOf ks"
  shows "publicKey cr vk"
proof -
  obtain js b where u: "unmarshal (decodeStruct [''keys''] (\<lambda>f. decodeJwks)) [] body = (js, b)"
    by (rule prod.exhaust)
  with assms(1) have "collectKeys corrupt cr js ([], []) = Inr ks"
    by (cases b) (simp_all add: parseJWKSet_def)
  from collectKeys_public [OF this] assms(2) show ?thesis by (simp add: keysOf_def)
qed

lemma publicKey_not_HMAC:
  assumes "publicKey cr key" "signedBy cr alg i sig key"
  shows "alg \<notin> set [''HS256'', ''HS384'', ''HS512'']"
proof
  assume "alg \<in> set [''HS256'', ''HS384'', ''HS512'']"
  then obtain h where "algProperties alg = Some (h, FamilyHMAC)" by (auto simp: algProperties_def)
  with assms show False by (simp add: signedBy_def publicKey_def)
qed

lemma byte_BA: "rawURLDecode ''BA'' = Some [CHR 0x04]"
proof -
  have s: "sextet urlAlphabet (CHR ''B'') = Some 1" "sextet urlAlphabet (CHR ''A'') = Some 0" by code_simp+
  have "rawURLDecode ''BA'' = Some [char_of (4::nat)]"
    by (simp add: rawURLDecode_def lineBreak_def s triple_def)
  then show ?thesis by (simp add: char_of_def bit_simps)
qed

text \<open>An even exponent, which no RSA key pair has, passes the check for a sane odd one.\<close>

lemma even_exponent_accepted:
  assumes "decodeBigInt corrupt (jwk_N k) = Inr n" "2048 \<le> bitLen n" "bitLen n \<le> 16384"
    and "jwk_Kty k = ''RSA''" "jwk_Use k = ''sig''" "jwk_E k = ''BA''"
  shows "toVerificationKey corrupt cr k = Inr (noKey\<lparr>vk_RSA := Some \<lparr>rsa_N = n, rsa_E = 4\<rparr>\<rparr>)"
proof -
  have e: "rawURLDecode (jwk_E k) = Some [CHR 0x04]" unfolding assms(6) by (rule byte_BA)
  have bits: "\<not> (bitLen n < minRSABits \<or> maxRSABits < bitLen n)"
    using assms(2,3) by (simp add: minRSABits_def maxRSABits_def)
  have four: "bigInt [CHR 0x04] = 4" "\<not> (4 \<ge> (2::nat) ^ 63 \<or> 4 < (3::nat) \<or> 4 > maxRSAExponent)"
    by (simp_all add: bigInt_def maxRSAExponent_def)
  have use: "''sig'' \<noteq> ''enc''" by simp
  show ?thesis
    by (simp only: toVerificationKey_def assms(1,4,5) e bits four use if_False if_True Let_def sum.case option.case
        refl)
qed

section \<open>Properties\<close>

text \<open>C33 (roundtrip). A token issued with HS256 under a secret that was added to the static keys, with
  a key id or without one, is accepted by a validator that allows HS256 and resolves from these keys,
  exactly while its claims are within the policy, and the claims returned are the claims issued.\<close>

theorem issued_token_accepted:
  assumes "NewValidator algs issuers audiences
      (Some (StaticKeys_ResolveKeys (AddHMAC sk kid (Some secret)))) opts = Return v"
    and "set opts \<subseteq> policyOptions" and "''HS256'' \<in> set algs" and "validText kid" and "issuable unixOf cl"
  shows "Validator_Validate unixOf cr v c (issueToken cr kid secret cl) s = (Return (Inr cl), s) \<longleftrightarrow>
    claimsAllowed unixOf (va_requireExp v) (va_clockSkew v) issuers audiences cl (va_now v s)"
proof -
  obtain r where r: "Some (StaticKeys_ResolveKeys (AddHMAC sk kid (Some secret))) = Some r" "va_allowedAlgs v = algs"
    "va_issuers v = issuers" "va_audiences v = audiences" "va_keys v = r" "\<forall>a \<in> set algs. algProperties a \<noteq> None"
    by (rule NewValidator_Return [OF assms(1,2)]) (rule that)
  have alg: "\<forall>a \<in> set (va_allowedAlgs v). algProperties a \<noteq> None" using r(2,6) by simp
  have res: "va_keys v = StaticKeys_ResolveKeys (AddHMAC sk kid (Some secret))" using r(1,5) by simp
  have "noKey\<lparr>vk_HMAC := Some secret\<rparr> \<in> set (staticLookup (AddHMAC sk kid (Some secret)) kid)"
    by (cases "kid = ''''") (simp_all add: staticLookup_def AddHMAC_def staticAdd_def)
  then have "\<exists>key \<in> set (staticLookup (AddHMAC sk kid (Some secret)) kid).
      signedBy cr ''HS256'' i (cr_mac cr SHA256 secret i) key" for i
    by (rule rev_bexI) (simp add: HS256_signed)
  then show ?thesis
    unfolding validate_Inr [OF alg] parseToken_issued [OF assms(4,5)] res r(2-4)
    using assms(3) by (simp add: StaticKeys_ResolveKeys_def)
qed

theorem issued_token_accepted_witness:
  "\<forall>cr. \<exists>v. NewValidator [''HS256''] [''idp''] [''orders'']
      (Some (StaticKeys_ResolveKeys (AddHMAC NewStaticKeys ''k1'' (Some ''s3cr3t'')))) [] = Return v \<and>
    Validator_Validate parseInt cr v background (issueToken cr ''k1'' ''s3cr3t'' witnessClaims) (42, ()) =
      (Return (Inr witnessClaims), (42, ()))"
proof
  fix cr
  let ?r = "StaticKeys_ResolveKeys (AddHMAC NewStaticKeys ''k1'' (Some ''s3cr3t'')) :: unit keyResolver"
  let ?v = "\<lparr>va_allowedAlgs = [''HS256''], va_issuers = [''idp''], va_audiences = [''orders''], va_keys = ?r,
    va_clockSkew = 2 * 60 * 1000000000, va_requireExp = True, va_now = fst\<rparr>"
  have v: "NewValidator [''HS256''] [''idp''] [''orders''] (Some ?r) [] = Return ?v"
    by (simp add: NewValidator_def algProperties_def)
  have allowed: "claimsAllowed parseInt True (2 * 60 * 1000000000) [''idp''] [''orders''] witnessClaims 42"
    using witnessClaims_allowed [of 42]
    by (auto simp: claimsAllowed_def witnessClaims_def numericDate_def split: option.splits)
  have "Validator_Validate parseInt cr ?v background (issueToken cr ''k1'' ''s3cr3t'' witnessClaims) (42, ()) =
      (Return (Inr witnessClaims), (42, ()))"
    using issued_token_accepted [OF v, of parseInt witnessClaims cr background "(42, ())"] allowed
      witnessClaims_issuable by (simp add: validText_ascii byteIn_def)
  with v show "\<exists>v. NewValidator [''HS256''] [''idp''] [''orders''] (Some ?r) [] = Return v \<and>
    Validator_Validate parseInt cr v background (issueToken cr ''k1'' ''s3cr3t'' witnessClaims) (42, ()) =
      (Return (Inr witnessClaims), (42, ()))" by blast
qed

end
