(* ===== verification/Jwks.thy ===== *)
theory Jwks
  imports JwtKeys GoURL
begin

text \<open>
  The keys of an identity provider (\<^verbatim>\<open>auth/jwks.go\<close>): the resolver that fetches a JWKS document and
  caches it, and the discovery of its URL. The HTTP client is a function on the clock and the network;
  a response is its status code and its body, or the error of reading the body. \<open>libErr p x\<close> is the
  error of the package \<open>p\<close> (\<^verbatim>\<open>url\<close>, \<^verbatim>\<open>json\<close>, \<^verbatim>\<open>base64\<close>) on the input \<open>x\<close> it refuses. The mutex makes
  a call to \<^verbatim>\<open>ResolveKeys\<close> one step.
\<close>

section \<open>The resolver\<close>

type_synonym 'n client =
  "ctx \<Rightarrow> string \<Rightarrow> int \<times> 'n \<Rightarrow> (goerr + nat \<times> (goerr + string)) outcome \<times> (int \<times> 'n)"

record jwksCache =
  jw_byKid :: "(string \<times> verificationKey list) list"
  jw_keyless :: "verificationKey list"
  jw_fetched :: bool
  jw_lastAttempt :: int

record 'n jwksResolver =
  jr_url :: string
  jr_client :: "'n client"
  jr_requireHTTPS :: bool
  jr_minRefetch :: int
  jr_now :: "int \<times> 'n \<Rightarrow> int"

type_synonym 'n jwksOption = "'n jwksResolver \<Rightarrow> 'n jwksResolver"

definition WithHTTPClient :: "'n client \<Rightarrow> 'n jwksOption" where
  "WithHTTPClient client r = r\<lparr>jr_client := client\<rparr>"

definition WithRequireHTTPS :: "bool \<Rightarrow> 'n jwksOption" where
  "WithRequireHTTPS require r = r\<lparr>jr_requireHTTPS := require\<rparr>"

definition WithMinRefetchInterval :: "int \<Rightarrow> 'n jwksOption" where
  "WithMinRefetchInterval d r = r\<lparr>jr_minRefetch := d\<rparr>"

definition withJWKSClock :: "(int \<times> 'n \<Rightarrow> int) \<Rightarrow> 'n jwksOption" where
  "withJWKSClock now r = r\<lparr>jr_now := now\<rparr>"

text \<open>The zero \<^verbatim>\<open>time.Time\<close>, the first day of the year 1, and \<^verbatim>\<open>Time.Sub\<close>, which saturates.\<close>

definition zeroTime :: int where "zeroTime = - 62135596800 * 1000000000"

definition timeSub :: "int \<Rightarrow> int \<Rightarrow> int" where
  "timeSub t u = max (- (2 ^ 63)) (min (2 ^ 63 - 1) (t - u))"

definition emptyCache :: jwksCache where
  "emptyCache = \<lparr>jw_byKid = [], jw_keyless = [], jw_fetched = False, jw_lastAttempt = zeroTime\<rparr>"

text \<open>The resolver before its options; the client with a timeout of ten seconds is an argument.\<close>

definition baseResolver :: "'n client \<Rightarrow> string \<Rightarrow> 'n jwksResolver" where
  "baseResolver defaultClient u =
    \<lparr>jr_url = u, jr_client = defaultClient, jr_requireHTTPS = True, jr_minRefetch = 5 * 60 * 1000000000,
     jr_now = fst\<rparr>"

definition checkScheme :: "bool \<Rightarrow> string \<Rightarrow> goerr option" where
  "checkScheme requireHTTPS rawURL = (case urlParse rawURL of
      None \<Rightarrow> Some (ErrNew (''jwt: invalid URL '' @ goQuote rawURL))
    | Some u \<Rightarrow>
        if url_Host u = '''' then Some (ErrNew (''jwt: invalid URL '' @ goQuote rawURL))
        else if requireHTTPS \<and> url_Scheme u \<noteq> ''https'' then
          Some (ErrNew (''jwt: URL '' @ goQuote rawURL @
            '' must be https (set WithRequireHTTPS(false) only for local testing)''))
        else None)"

definition NewJWKSResolver :: "'n client \<Rightarrow> string \<Rightarrow> 'n jwksOption list \<Rightarrow> goerr + 'n jwksResolver" where
  "NewJWKSResolver defaultClient jwksURL opts =
    (let r = fold (\<lambda>opt r. opt r) opts (baseResolver defaultClient jwksURL) in
     case checkScheme (jr_requireHTTPS r) jwksURL of Some err \<Rightarrow> Inl err | None \<Rightarrow> Inr r)"

section \<open>Fetching\<close>

definition jwks_get ::
  "(string \<Rightarrow> string \<Rightarrow> goerr) \<Rightarrow> 'n jwksResolver \<Rightarrow> ctx \<Rightarrow> string \<Rightarrow> int \<times> 'n \<Rightarrow>
   (goerr + string) outcome \<times> (int \<times> 'n)" where
  "jwks_get libErr r c rawURL s = (case urlParse rawURL of
      None \<Rightarrow> (Return (Inl (let err = libErr ''url'' rawURL in
        ErrWrap (''jwt: bad JWKS URL '' @ goQuote rawURL @ '': '' @ errorText err) [err])), s)
    | Some _ \<Rightarrow> andThen (jr_client r c rawURL s) (\<lambda>resp s'. (Return (case resp of
        Inl err \<Rightarrow> Inl (ErrWrap (''jwt: fetching '' @ goQuote rawURL @ '': '' @ errorText err) [err])
      | Inr (code, body) \<Rightarrow>
          if code \<noteq> 200 then
            Inl (ErrNew (''jwt: fetching '' @ goQuote rawURL @ '' returned status '' @ natText code))
          else (case body of
              Inl err \<Rightarrow> Inl (ErrWrap (''jwt: reading '' @ goQuote rawURL @ '': '' @ errorText err) [err])
            | Inr b \<Rightarrow> Inr b)), s')))"

type_synonym 'n jwksState = "(jwksCache \<times> 'n) authState"

definition onNetwork ::
  "(int \<times> 'n \<Rightarrow> 'a outcome \<times> (int \<times> 'n)) \<Rightarrow> 'n jwksState \<Rightarrow> 'a outcome \<times> 'n jwksState" where
  "onNetwork m s = (case s of (t, cache, n) \<Rightarrow> (case m (t, n) of (r, t', n') \<Rightarrow> (r, t', cache, n')))"

text \<open>\<open>None\<close> is success.\<close>

definition jwks_fetch ::
  "(string \<Rightarrow> string \<Rightarrow> goerr) \<Rightarrow> jwsCrypto \<Rightarrow> 'n jwksResolver \<Rightarrow> ctx \<Rightarrow> 'n jwksState \<Rightarrow>
   goerr option outcome \<times> 'n jwksState" where
  "jwks_fetch libErr cr r c s =
    andThen (onNetwork (jwks_get libErr r c (jr_url r)) s) (\<lambda>got (t, cache, n). (case got of
        Inl err \<Rightarrow> (Return (Some err), t, cache, n)
      | Inr body \<Rightarrow> (case parseJWKSet (libErr ''base64'') (libErr ''json'') cr body of
          Inl err \<Rightarrow> (Return (Some err), t, cache, n)
        | Inr (byKid, keyless) \<Rightarrow>
            (Return None, t, cache\<lparr>jw_byKid := byKid, jw_keyless := keyless, jw_fetched := True\<rparr>, n))))"

definition lookupLocked :: "jwksCache \<Rightarrow> string \<Rightarrow> verificationKey list" where
  "lookupLocked cache kid = (if kid \<noteq> '''' then goIndex (jw_byKid cache) kid [] else []) @ jw_keyless cache"

text \<open>What the call returns once no fetch is due, or after one.\<close>

definition afterFetch :: "jwksCache \<Rightarrow> string \<Rightarrow> goerr + verificationKey list" where
  "afterFetch cache kid = (if \<not> jw_fetched cache then Inr [] else Inr (lookupLocked cache kid))"

definition JWKS_ResolveKeys ::
  "(string \<Rightarrow> string \<Rightarrow> goerr) \<Rightarrow> jwsCrypto \<Rightarrow> 'n jwksResolver \<Rightarrow> (jwksCache \<times> 'n) keyResolver" where
  "JWKS_ResolveKeys libErr cr r c kid s = (case s of (t, cache, n) \<Rightarrow>
    if jw_fetched cache \<and> lookupLocked cache kid \<noteq> [] then (Return (Inr (lookupLocked cache kid)), s)
    else (let now = jr_now r (t, n) in
      if (\<not> jw_fetched cache \<or> kid \<noteq> '''') \<and> timeSub now (jw_lastAttempt cache) \<ge> jr_minRefetch r then
        andThen (jwks_fetch libErr cr r c (t, cache\<lparr>jw_lastAttempt := now\<rparr>, n)) (\<lambda>err (t', cache', n').
          (Return (if err \<noteq> None \<and> \<not> jw_fetched cache' then Inl (the err) else afterFetch cache' kid),
           t', cache', n'))
      else (Return (afterFetch cache kid), s)))"

section \<open>Discovery\<close>

definition trimRightSlash :: "string \<Rightarrow> string" where
  "trimRightSlash s = rev (dropWhile (\<lambda>ch. ch = CHR ''/'') (rev s))"

record discoveryDoc =
  dd_Issuer :: string
  dd_JWKSURI :: string

definition discoveryField :: "string \<Rightarrow> discoveryDoc decoder" where
  "discoveryField f =
    (if f = ''issuer'' then into dd_Issuer_update dd_Issuer decodeString
     else into dd_JWKSURI_update dd_JWKSURI decodeString)"

definition discoverJWKSURL ::
  "(string \<Rightarrow> string \<Rightarrow> goerr) \<Rightarrow> 'n jwksResolver \<Rightarrow> ctx \<Rightarrow> string \<Rightarrow> string \<Rightarrow> int \<times> 'n \<Rightarrow>
   (goerr + string) outcome \<times> (int \<times> 'n)" where
  "discoverJWKSURL libErr r c authority discoveryURL s =
    andThen (jwks_get libErr r c discoveryURL s) (\<lambda>got s'. (Return (case got of
        Inl err \<Rightarrow> Inl err
      | Inr body \<Rightarrow> (case unmarshal (decodeStruct [''issuer'', ''jwks_uri''] discoveryField)
            \<lparr>dd_Issuer = '''', dd_JWKSURI = ''''\<rparr> body of
          (doc, False) \<Rightarrow> Inl (let err = libErr ''json'' body in
            ErrWrap (''jwt: OIDC discovery document is not valid JSON: '' @ errorText err) [err])
        | (doc, True) \<Rightarrow>
            if trimRightSlash (dd_Issuer doc) \<noteq> trimRightSlash authority then
              Inl (ErrNew (''jwt: OIDC discovery issuer '' @ goQuote (dd_Issuer doc) @
                '' does not match the configured authority '' @ goQuote authority))
            else if dd_JWKSURI doc = '''' then Inl (ErrNew ''jwt: OIDC discovery document has no jwks_uri'')
            else Inr (dd_JWKSURI doc))), s'))"

definition NewJWKSFromAuthority ::
  "(string \<Rightarrow> string \<Rightarrow> goerr) \<Rightarrow> 'n client \<Rightarrow> ctx \<Rightarrow> string \<Rightarrow> 'n jwksOption list \<Rightarrow> int \<times> 'n \<Rightarrow>
   (goerr + 'n jwksResolver) outcome \<times> (int \<times> 'n)" where
  "NewJWKSFromAuthority libErr defaultClient c authority opts s =
    (let tmp = fold (\<lambda>opt r. opt r) opts (baseResolver defaultClient '''');
         discoveryURL = trimRightSlash authority @ ''/.well-known/openid-configuration'' in
     case checkScheme (jr_requireHTTPS tmp) discoveryURL of
       Some err \<Rightarrow> (Return (Inl err), s)
     | None \<Rightarrow> andThen (discoverJWKSURL libErr tmp c authority discoveryURL s) (\<lambda>found s'. (Return (case found of
         Inl err \<Rightarrow> Inl err
       | Inr jwksURL \<Rightarrow> NewJWKSResolver defaultClient jwksURL opts), s')))"

section \<open>Lemmas\<close>

text \<open>The keys of a cache; what the resolver returns is among those of the cache it leaves.\<close>

definition cachedKeys :: "jwksCache \<Rightarrow> verificationKey set" where
  "cachedKeys cache = keysOf (jw_byKid cache, jw_keyless cache)"

lemma lookup_cached: "set (lookupLocked cache kid) \<subseteq> cachedKeys cache"
  using goIndex_values [of "jw_byKid cache" kid "[]"]
  by (auto simp: lookupLocked_def cachedKeys_def keysOf_def)

lemma afterFetch_cached: "afterFetch cache kid = Inr keys \<Longrightarrow> set keys \<subseteq> cachedKeys cache"
  using lookup_cached by (auto simp: afterFetch_def split: if_splits)

text \<open>The four ways a call goes.\<close>

lemma resolve_cases:
  assumes "JWKS_ResolveKeys libErr cr r c kid (t, cache, n) = (out, s')"
  obtains
    (hit) "out = Return (Inr (lookupLocked cache kid))" "s' = (t, cache, n)" "jw_fetched cache"
  | (kept) "out = Return (afterFetch cache kid)" "s' = (t, cache, n)"
  | (panicked) m t' cache' n' where
      "jwks_fetch libErr cr r c (t, cache\<lparr>jw_lastAttempt := jr_now r (t, n)\<rparr>, n) = (Panic m, t', cache', n')"
      "out = Panic m" "s' = (t', cache', n')" "jr_minRefetch r \<le> timeSub (jr_now r (t, n)) (jw_lastAttempt cache)"
  | (fetched) err t' cache' n' where
      "jwks_fetch libErr cr r c (t, cache\<lparr>jw_lastAttempt := jr_now r (t, n)\<rparr>, n) = (Return err, t', cache', n')"
      "out = Return (if err \<noteq> None \<and> \<not> jw_fetched cache' then Inl (the err) else afterFetch cache' kid)"
      "s' = (t', cache', n')" "jr_minRefetch r \<le> timeSub (jr_now r (t, n)) (jw_lastAttempt cache)"
proof -
  obtain o' t' cache' n' where f: "jwks_fetch libErr cr r c (t, cache\<lparr>jw_lastAttempt := jr_now r (t, n)\<rparr>, n) =
      (o', t', cache', n')" by (metis prod_cases4)
  show thesis
  proof (cases "jw_fetched cache \<and> lookupLocked cache kid \<noteq> []")
    case True
    then show thesis using assms by (intro hit) (simp_all add: JWKS_ResolveKeys_def)
  next
    case miss: False
    show thesis
    proof (cases "(\<not> jw_fetched cache \<or> kid \<noteq> '''') \<and> jr_minRefetch r \<le> timeSub (jr_now r (t, n)) (jw_lastAttempt cache)")
      case False
      with miss show thesis using assms by (intro kept) (auto simp: JWKS_ResolveKeys_def Let_def)
    next
      case True
      show thesis
      proof (cases o')
        case (Return err)
        with True miss f show thesis using assms by (intro fetched) (auto simp: JWKS_ResolveKeys_def Let_def)
      next
        case (Panic m)
        with True miss f show thesis using assms by (intro panicked) (auto simp: JWKS_ResolveKeys_def Let_def)
      qed
    qed
  qed
qed

text \<open>A fetch replaces the keys by those of a document, or leaves the cache as it is.\<close>

lemma fetch_cases:
  assumes "jwks_fetch libErr cr r c (t, cache, n) = (out, t', cache', n')"
  obtains (failed) "cache' = cache" "out \<noteq> Return None"
  | (replaced) body ks where "parseJWKSet (libErr ''base64'') (libErr ''json'') cr body = Inr ks" "out = Return None"
      "cache' = cache\<lparr>jw_byKid := fst ks, jw_keyless := snd ks, jw_fetched := True\<rparr>"
proof -
  obtain g t1 n1 where g: "jwks_get libErr r c (jr_url r) (t, n) = (g, t1, n1)" by (metis prod_cases3)
  note step = assms [unfolded jwks_fetch_def onNetwork_def, simplified, unfolded g, simplified]
  show thesis
  proof (cases g)
    case (Panic m)
    with step show thesis by (intro failed) auto
  next
    case (Return got)
    show thesis
    proof (cases got)
      case (Inl err)
      with Return step show thesis by (intro failed) auto
    next
      case (Inr body)
      show thesis
      proof (cases "parseJWKSet (libErr ''base64'') (libErr ''json'') cr body")
        case (Inl err)
        with Return Inr step show thesis by (intro failed) auto
      next
        case (Inr ks)
        with Return \<open>got = Inr body\<close> step show thesis by (intro replaced [OF Inr]) (auto split: prod.splits)
      qed
    qed
  qed
qed

interpretation jwks: key_resolver "JWKS_ResolveKeys libErr cr r" "\<lambda>s. cachedKeys (fst (snd s))" for libErr cr r
proof
  fix c kid s keys s'
  assume res: "JWKS_ResolveKeys libErr cr r c kid s = (Return (Inr keys), s')"
  obtain t cache n where s: "s = (t, cache, n)" by (metis prod_cases3)
  from res [unfolded s] show "set keys \<subseteq> cachedKeys (fst (snd s'))"
    by (rule resolve_cases) (use lookup_cached afterFetch_cached in \<open>auto split: if_splits\<close>)
qed

section \<open>A resolver in service\<close>

text \<open>A client that notes the instant of every request, the latest first.\<close>

definition logged :: "'m client \<Rightarrow> (int list \<times> 'm) client" where
  "logged base c u s = (case s of (t, noted, m) \<Rightarrow>
    (case base c u (t, m) of (resp, t', m') \<Rightarrow> (resp, t', t # noted, m')))"

text \<open>A client that keeps every document it was given: the URL, the status and the body.\<close>

definition transcribed :: "'m client \<Rightarrow> ((string \<times> nat \<times> string) list \<times> 'm) client" where
  "transcribed base c u s = (case s of (t, seen, m) \<Rightarrow>
    (case base c u (t, m) of (resp, t', m') \<Rightarrow>
      (resp, t', (case resp of Return (Inr (code, Inr body)) \<Rightarrow> (u, code, body) # seen | _ \<Rightarrow> seen), m')))"

text \<open>Calls with any context and key id, at any instants, while the network changes as it likes.\<close>

inductive serving ::
  "(string \<Rightarrow> string \<Rightarrow> goerr) \<Rightarrow> jwsCrypto \<Rightarrow> ('g list \<times> 'm) jwksResolver \<Rightarrow> ('g list \<times> 'm) jwksState \<Rightarrow> bool"
  for libErr cr r where
  start: "serving libErr cr r (t, emptyCache, [], m)"
| idle: "serving libErr cr r (t, cache, noted, m) \<Longrightarrow> t \<le> t' \<Longrightarrow> serving libErr cr r (t', cache, noted, m')"
| call: "serving libErr cr r s \<Longrightarrow> JWKS_ResolveKeys libErr cr r c kid s = (out, s') \<Longrightarrow> serving libErr cr r s'"

definition soundCache :: "jwsCrypto \<Rightarrow> jwksCache \<Rightarrow> bool" where
  "soundCache cr cache \<longleftrightarrow> (\<forall>key \<in> cachedKeys cache. publicKey cr key)"

lemma cachedKeys_fields:
  "cachedKeys (cache\<lparr>jw_lastAttempt := x\<rparr>) = cachedKeys cache"
  "cachedKeys (cache\<lparr>jw_byKid := fst ks, jw_keyless := snd ks, jw_fetched := b\<rparr>) = keysOf ks"
  by (simp_all add: cachedKeys_def)

lemma fetch_sound:
  assumes "jwks_fetch libErr cr r c (t, cache, n) = (out, t', cache', n')" "soundCache cr cache"
  shows "soundCache cr cache'"
  using assms(1)
  by (rule fetch_cases) (use assms(2) parseJWKSet_public in \<open>auto simp: soundCache_def cachedKeys_fields\<close>)

lemma resolve_sound:
  assumes "JWKS_ResolveKeys libErr cr r c kid (t, cache, n) = (out, t', cache', n')" "soundCache cr cache"
  shows "soundCache cr cache'"
proof -
  have stamped: "soundCache cr (cache\<lparr>jw_lastAttempt := jr_now r (t, n)\<rparr>)"
    using assms(2) by (simp add: soundCache_def cachedKeys_fields)
  from assms(1) show ?thesis
    by (rule resolve_cases) (use assms(2) fetch_sound [OF _ stamped] in auto)
qed

lemma serving_sound: "serving libErr cr r s \<Longrightarrow> soundCache cr (fst (snd s))"
proof (induction rule: serving.induct)
  case (call s c kid out s')
  obtain t cache n t' cache' n' where "s = (t, cache, n)" "s' = (t', cache', n')" by (metis prod_cases3)
  with call resolve_sound show ?case by (metis fst_conv snd_conv)
qed (simp_all add: soundCache_def emptyCache_def cachedKeys_def keysOf_def)

text \<open>Where the cached keys come from.\<close>

definition fromDocuments ::
  "(string \<Rightarrow> string \<Rightarrow> goerr) \<Rightarrow> jwsCrypto \<Rightarrow> string \<Rightarrow> (string \<times> nat \<times> string) list \<Rightarrow> verificationKey \<Rightarrow> bool" where
  "fromDocuments libErr cr u seen key \<longleftrightarrow> (\<exists>body ks. (u, 200, body) \<in> set seen \<and>
     parseJWKSet (libErr ''base64'') (libErr ''json'') cr body = Inr ks \<and> key \<in> keysOf ks)"

lemma get_documents:
  assumes "jwks_get libErr r c u (t, seen, m) = (got, t', seen', m')" "jr_client r = transcribed base"
  shows "set seen \<subseteq> set seen'" "got = Return (Inr body) \<Longrightarrow> (u, 200, body) \<in> set seen'"
  using assms by (auto simp: jwks_get_def transcribed_def andThen_def split: option.splits prod.splits outcome.splits
      sum.splits if_splits)

lemma fetch_documents:
  assumes "jwks_fetch libErr cr r c (t, cache, seen, m) = (out, t', cache', seen', m')" "jr_client r = transcribed base"
    and "\<forall>key \<in> cachedKeys cache. fromDocuments libErr cr (jr_url r) seen key"
  shows "\<forall>key \<in> cachedKeys cache'. fromDocuments libErr cr (jr_url r) seen' key"
proof -
  obtain g t1 seen1 m1 where g: "jwks_get libErr r c (jr_url r) (t, seen, m) = (g, t1, seen1, m1)"
    by (metis prod_cases4)
  note doc = get_documents [OF g assms(2)]
  have seen: "seen' = seen1"
    using assms(1) g by (auto simp: jwks_fetch_def onNetwork_def andThen_def split: outcome.splits sum.splits prod.splits)
  have kept: "\<forall>key \<in> cachedKeys cache. fromDocuments libErr cr (jr_url r) seen' key"
    using assms(3) doc(1) unfolding fromDocuments_def seen by blast
  show ?thesis
  proof (cases "cache' = cache")
    case False
    then obtain body ks where "g = Return (Inr body)" "parseJWKSet (libErr ''base64'') (libErr ''json'') cr body = Inr ks"
      "cache' = cache\<lparr>jw_byKid := fst ks, jw_keyless := snd ks, jw_fetched := True\<rparr>"
      using assms(1) g
      by (auto simp: jwks_fetch_def onNetwork_def andThen_def split: outcome.splits sum.splits prod.splits)
    moreover from this doc(2) have "(jr_url r, 200, body) \<in> set seen'" "cachedKeys cache' = keysOf ks"
      by (simp_all add: cachedKeys_fields seen)
    ultimately show ?thesis unfolding fromDocuments_def by blast
  qed (use kept in simp)
qed

lemma resolve_documents:
  assumes "JWKS_ResolveKeys libErr cr r c kid (t, cache, seen, m) = (out, t', cache', seen', m')"
    "jr_client r = transcribed base" "\<forall>key \<in> cachedKeys cache. fromDocuments libErr cr (jr_url r) seen key"
  shows "\<forall>key \<in> cachedKeys cache'. fromDocuments libErr cr (jr_url r) seen' key"
proof -
  have stamped: "\<forall>key \<in> cachedKeys (cache\<lparr>jw_lastAttempt := x\<rparr>). fromDocuments libErr cr (jr_url r) seen key" for x
    using assms(3) by (simp add: cachedKeys_fields)
  from assms(1) show ?thesis
    by (rule resolve_cases) (use assms(2,3) fetch_documents [OF _ assms(2) stamped] in auto)
qed

lemma serving_documents:
  assumes "serving libErr cr r s" "jr_client r = transcribed base"
  shows "\<forall>key \<in> cachedKeys (fst (snd s)). fromDocuments libErr cr (jr_url r) (fst (snd (snd s))) key"
  using assms(1)
proof (induction rule: serving.induct)
  case (call s c kid out s')
  obtain t cache seen m t' cache' seen' m' where "s = (t, cache, seen, m)" "s' = (t', cache', seen', m')"
    by (metis prod_cases4)
  with call resolve_documents [OF _ assms(2)] show ?case by (metis fst_conv snd_conv)
qed (simp_all add: emptyCache_def cachedKeys_def keysOf_def)

lemma built_resolver:
  assumes "NewJWKSResolver client u opts = Inr r"
    and "set opts \<subseteq> range WithRequireHTTPS \<union> range WithMinRefetchInterval \<union> range withJWKSClock"
  shows "jr_client r = client" "jr_url r = u"
proof -
  have "jr_client (fold (\<lambda>opt r. opt r) opts r0) = jr_client r0 \<and> jr_url (fold (\<lambda>opt r. opt r) opts r0) = jr_url r0" for r0
    using assms(2) by (induction opts arbitrary: r0) (auto simp: WithRequireHTTPS_def WithMinRefetchInterval_def withJWKSClock_def)
  moreover have "r = fold (\<lambda>opt r. opt r) opts (baseResolver client u)"
    using assms(1) by (auto simp: NewJWKSResolver_def Let_def split: option.splits)
  ultimately show "jr_client r = client" "jr_url r = u" by (simp_all add: baseResolver_def)
qed

text \<open>What the log says of the last attempt.\<close>

fun logSound :: "int \<Rightarrow> (int list \<times> 'm) jwksState \<Rightarrow> bool" where
  "logSound d (t, cache, noted, m) \<longleftrightarrow>
     sorted_wrt (\<lambda>later earlier. earlier + d \<le> later) noted \<and> (\<forall>x \<in> set noted. x \<le> jw_lastAttempt cache) \<and>
     (noted \<noteq> [] \<longrightarrow> jw_lastAttempt cache \<le> t)"

lemma timeSub_le: "0 \<le> d \<Longrightarrow> d \<le> timeSub t u \<Longrightarrow> u + d \<le> t"
  by (auto simp: timeSub_def)

definition steadyClient :: "'m client \<Rightarrow> bool" where
  "steadyClient base \<longleftrightarrow> (\<forall>c u t m. t \<le> fst (snd (base c u (t, m))))"

lemma get_log:
  assumes "jwks_get libErr r c u (t, noted, m) = (got, t', noted', m')" "jr_client r = logged base" "steadyClient base"
  shows "t \<le> t' \<and> (noted' = noted \<or> noted' = t # noted)"
proof -
  obtain resp t1 m1 where b: "base c u (t, m) = (resp, t1, m1)" by (metis prod_cases3)
  have "t \<le> t1" using assms(3) b unfolding steadyClient_def by (metis fst_conv snd_conv)
  with assms(1,2) b show ?thesis
    by (cases resp) (auto simp: jwks_get_def logged_def split: option.splits)
qed

lemma fetch_log:
  assumes "jwks_fetch libErr cr r c (t, cache, noted, m) = (out, t', cache', noted', m')"
    "jr_client r = logged base" "steadyClient base"
  shows "t \<le> t' \<and> (noted' = noted \<or> noted' = t # noted) \<and> jw_lastAttempt cache' = jw_lastAttempt cache"
proof -
  obtain g t1 noted1 m1 where g: "jwks_get libErr r c (jr_url r) (t, noted, m) = (g, t1, noted1, m1)"
    by (metis prod_cases4)
  have "t' = t1" "noted' = noted1"
    using assms(1) g by (auto simp: jwks_fetch_def onNetwork_def andThen_def split: outcome.splits sum.splits prod.splits)
  with get_log [OF g assms(2,3)] show ?thesis
    using assms(1) by (auto elim: fetch_cases)
qed

lemma resolve_log:
  assumes "JWKS_ResolveKeys libErr cr r c kid s = (out, s')" "jr_client r = logged base" "steadyClient base"
    "jr_now r = fst" "0 \<le> jr_minRefetch r" "logSound (jr_minRefetch r) s"
  shows "logSound (jr_minRefetch r) s'"
proof -
  obtain t cache noted m where s: "s = (t, cache, noted, m)" by (metis prod_cases4)
  have step: "logSound (jr_minRefetch r) (t', cache', n')"
    if f: "jwks_fetch libErr cr r c (t, cache\<lparr>jw_lastAttempt := jr_now r (t, noted, m)\<rparr>, noted, m) = (o', t', cache', n')"
      and due: "jr_minRefetch r \<le> timeSub (jr_now r (t, noted, m)) (jw_lastAttempt cache)" for o' t' cache' n'
  proof -
    obtain noted' m' where n': "n' = (noted', m')" by (rule prod.exhaust)
    have gap: "jw_lastAttempt cache + jr_minRefetch r \<le> t" using timeSub_le [OF assms(5) due] assms(4) by simp
    have older: "x + jr_minRefetch r \<le> t" "x \<le> t" if "x \<in> set noted" for x
      using that gap assms(5,6) by (fastforce simp: s)+
    show ?thesis
      using fetch_log [OF f [unfolded n'] assms(2,3)] older assms(4-6) by (auto simp: s n')
  qed
  from assms(1) [unfolded s] show ?thesis
    by (rule resolve_cases) (use step assms(6) in \<open>auto simp: s\<close>)
qed

lemma serving_log:
  assumes "serving libErr cr r s" "jr_client r = logged base" "steadyClient base" "jr_now r = fst"
    "0 \<le> jr_minRefetch r"
  shows "logSound (jr_minRefetch r) s"
  using assms(1)
proof (induction rule: serving.induct)
  case (call s c kid out s')
  then show ?case using resolve_log assms(2-5) by blast
qed auto

text \<open>A status in the 2xx range other than 200 is refused, although the comment asks for a 2xx status.\<close>

lemma get_refuses_203:
  assumes "urlParse u \<noteq> None" "jr_client r c u s = (Return (Inr (203, body)), s')"
  shows "jwks_get libErr r c u s =
    (Return (Inl (ErrNew (''jwt: fetching '' @ goQuote u @ '' returned status 203''))), s')"
proof -
  have "natText 203 = ''203''" by code_simp
  with assms show ?thesis by (auto simp: jwks_get_def)
qed

section \<open>Properties\<close>

text \<open>C11 (bounds). However many calls arrive, with whatever key ids and whenever they arrive, and however
  the identity provider answers, any two requests that a resolver sends for its document are at least
  the minimal refetch interval apart: no traffic makes the service hammer the endpoint.\<close>

theorem fetches_are_spaced:
  assumes "NewJWKSResolver (logged base) u opts = Inr r" and "set opts \<subseteq> range WithRequireHTTPS \<union> range WithMinRefetchInterval"
    and "steadyClient base" and "0 \<le> jr_minRefetch r" and "serving libErr cr r (t, cache, noted, m)"
  shows "sorted_wrt (\<lambda>later earlier. earlier + jr_minRefetch r \<le> later) noted"
proof -
  have keep: "jr_client (fold (\<lambda>opt r. opt r) opts r0) = jr_client r0 \<and> jr_now (fold (\<lambda>opt r. opt r) opts r0) = jr_now r0"
    for r0 using assms(2)
    by (induction opts arbitrary: r0) (auto simp: WithRequireHTTPS_def WithMinRefetchInterval_def)
  have "r = fold (\<lambda>opt r. opt r) opts (baseResolver (logged base) u)"
    using assms(1) by (auto simp: NewJWKSResolver_def Let_def split: option.splits)
  then have "jr_client r = logged base" "jr_now r = fst" using keep by (simp_all add: baseResolver_def)
  from serving_log [OF assms(5) this(1) assms(3) this(2) assms(4)] show ?thesis by simp
qed

definition witnessClient :: "unit client" where
  "witnessClient c u s = (Return (Inl (ErrNew ''refused'')), s)"

lemma witnessURL: "urlParse ''https://idp'' = Some \<lparr>url_Scheme = ''https'', url_Host = ''idp''\<rparr>"
  by code_simp

definition witnessJWKS :: "(int list \<times> unit) jwksResolver" where
  "witnessJWKS = (baseResolver (logged witnessClient) ''https://idp'')\<lparr>jr_minRefetch := 10\<rparr>"

lemma witnessJWKS_built: "NewJWKSResolver (logged witnessClient) ''https://idp'' [WithMinRefetchInterval 10] = Inr witnessJWKS"
  by (simp add: NewJWKSResolver_def checkScheme_def witnessURL WithMinRefetchInterval_def baseResolver_def witnessJWKS_def)

theorem fetches_are_spaced_witness:
  "\<forall>libErr cr. \<exists>s. JWKS_ResolveKeys libErr cr witnessJWKS background ''k'' (100, emptyCache, [], ()) = s \<and>
    fst (snd (snd (snd s))) = [100] \<and> sorted_wrt (\<lambda>later earlier. earlier + 10 \<le> later) (fst (snd (snd (snd s))))"
proof (intro allI)
  fix libErr cr
  let ?s = "JWKS_ResolveKeys libErr cr witnessJWKS background ''k'' (100, emptyCache, [], ())"
  obtain out t cache noted m where s: "?s = (out, t, cache, noted, m)" by (metis prod_cases5)
  have due: "10 \<le> timeSub 100 zeroTime" by (simp add: timeSub_def zeroTime_def)
  have fst: "noted = [100]"
    using s due
    by (simp add: JWKS_ResolveKeys_def witnessJWKS_def baseResolver_def emptyCache_def jwks_fetch_def onNetwork_def
        jwks_get_def witnessURL logged_def witnessClient_def Let_def)
  have opts: "set [WithMinRefetchInterval 10] \<subseteq> range WithRequireHTTPS \<union> (range WithMinRefetchInterval :: (int list \<times> unit) jwksOption set)"
    by simp
  have steady: "steadyClient witnessClient" by (simp add: steadyClient_def witnessClient_def)
  have pos: "0 \<le> jr_minRefetch witnessJWKS" by (simp add: witnessJWKS_def)
  have "serving libErr cr witnessJWKS (t, cache, noted, m)"
    by (rule serving.call [OF serving.start s])
  from fetches_are_spaced [OF witnessJWKS_built opts steady pos this] fst s
  show "\<exists>s. ?s = s \<and> fst (snd (snd (snd s))) = [100] \<and>
      sorted_wrt (\<lambda>later earlier. earlier + 10 \<le> later) (fst (snd (snd (snd s))))"
    by (simp add: witnessJWKS_def)
qed

text \<open>C32 (safety). Keys from an identity provider verify public-key signatures only, and come from it: whatever
  calls a resolver has served and whatever the client gave it, the key that verifies a token which a validator over the
  resolver accepts is one of the keys of a document that the client returned, with status 200, for a
  request to the resolver's own URL; its modulus and exponent are in the allowed range, or its point is
  on its curve; and the token's algorithm is no HMAC, so a public key is never taken for a shared
  secret. Policy options of the validator only, and a resolver that keeps its client.\<close>

theorem provider_keys_are_public:
  assumes "NewJWKSResolver (transcribed base) u ropts = Inr r"
    and "set ropts \<subseteq> range WithRequireHTTPS \<union> range WithMinRefetchInterval \<union> range withJWKSClock"
    and "serving libErr cr r s"
    and "NewValidator algs issuers audiences (Some (JWKS_ResolveKeys libErr cr r)) opts = Return v"
    and "set opts \<subseteq> policyOptions"
    and "Validator_Validate unixOf cr v c token s = (Return (Inr cl), t', cache', seen', m')"
  shows "\<exists>hdr i sig key body ks. parseToken unixOf token = Inr (hdr, cl, i, sig) \<and> signedBy cr (hd_Alg hdr) i sig key \<and>
    (u, 200, body) \<in> set seen' \<and> parseJWKSet (libErr ''base64'') (libErr ''json'') cr body = Inr ks \<and> key \<in> keysOf ks \<and>
    hd_Alg hdr \<notin> set [''HS256'', ''HS384'', ''HS512''] \<and> publicKey cr key"
proof -
  obtain hdr i sig key where k: "key \<in> cachedKeys cache'" "parseToken unixOf token = Inr (hdr, cl, i, sig)"
    "signedBy cr (hd_Alg hdr) i sig key"
    using jwks.accepted_signed [OF assms(4-6)] by auto
  from assms(6) k(2) have "(t', cache', seen', m') = snd (va_keys v c (hd_Kid hdr) s)"
    by (auto simp: Validator_Validate_def andThen_def split: if_splits outcome.splits prod.splits)
  moreover have "va_keys v = JWKS_ResolveKeys libErr cr r"
    by (rule NewValidator_Return [OF assms(4,5)]) simp
  ultimately have call: "(t', cache', seen', m') = snd (JWKS_ResolveKeys libErr cr r c (hd_Kid hdr) s)" by simp
  have "serving libErr cr r (t', cache', seen', m')"
    unfolding call by (rule serving.call [OF assms(3), where out = "fst (JWKS_ResolveKeys libErr cr r c (hd_Kid hdr) s)"]) simp
  from serving_sound [OF this] serving_documents [OF this built_resolver(1) [OF assms(1,2)]] k(1)
  have "publicKey cr key" "fromDocuments libErr cr u seen' key"
    using built_resolver(2) [OF assms(1,2)] by (auto simp: soundCache_def)
  with publicKey_not_HMAC [OF this(1) k(3)] k show ?thesis unfolding fromDocuments_def by blast
qed

text \<open>A provider with one key of its own choosing, and a signature scheme that accepts it.\<close>

definition witnessJwksBody :: string where
  "witnessJwksBody = jprint (JObj [(''keys'', JArr [JObj [(''kty'', JStr ''EC''), (''kid'', JStr ''k1''),
     (''crv'', JStr ''P-256''), (''x'', JStr ''BA''), (''y'', JStr ''BA'')]])])"

definition witnessProvider :: "unit client" where
  "witnessProvider c u s = (Return (Inr (200, Inr witnessJwksBody)), s)"

definition witnessCrypto :: jwsCrypto where
  "witnessCrypto = \<lparr>cr_mac = (\<lambda>h k d. ''''), cr_digest = (\<lambda>h d. ''''), cr_rsa = (\<lambda>k h d sig. False),
     cr_ecdsa = (\<lambda>k d x y. True), cr_onCurve = (\<lambda>crv x y. True)\<rparr>"

definition providerJWKS :: "((string \<times> nat \<times> string) list \<times> unit) jwksResolver" where
  "providerJWKS = baseResolver (transcribed witnessProvider) ''https://idp''"

lemma providerJWKS_built: "NewJWKSResolver (transcribed witnessProvider) ''https://idp'' [] = Inr providerJWKS"
  by (simp add: NewJWKSResolver_def checkScheme_def witnessURL baseResolver_def providerJWKS_def)

definition providerToken :: string where
  "providerToken = compactToken (issueInput ''ES256'' ''k1'' witnessClaims) (replicate 64 (CHR ''s''))"

lemma witnessJwks_parsed:
  "\<exists>key. parseJWKSet corrupt jsonError witnessCrypto witnessJwksBody = Inr ([(''k1'', [key])], []) \<and> vk_ECDSA key \<noteq> None \<and>
    ec_Curve (the (vk_ECDSA key)) = P256"
proof -
  have v: "jvalid (JObj [(''keys'', JArr [JObj [(''kty'', JStr ''EC''), (''kid'', JStr ''k1''),
     (''crv'', JStr ''P-256''), (''x'', JStr ''BA''), (''y'', JStr ''BA'')]])])"
    by (simp add: validText_ascii byteIn_def)
  obtain b where "rawURLDecode ''BA'' = Some b" "b \<noteq> ''''"
    using byte_BA by blast
  with jparse_jprint [OF v] show ?thesis
    by (simp add: parseJWKSet_def unmarshal_def witnessJwksBody_def decodeStruct_fold memberStep_def decodeJwk_def
        jwkField_def into_def zeroJwk_def toVerificationKey_def decodeBigInt_def curveFor_def witnessCrypto_def
        noKey_def goIndex_def)
qed

lemma providerJWKS_instant:
  assumes "JWKS_ResolveKeys libErr cr providerJWKS background ''k1'' (0, emptyCache, [], ()) = (out, s')"
  shows "fst s' = 0"
proof -
  obtain out' t' cache' noted' m' where f: "jwks_fetch libErr cr providerJWKS background
      (0, emptyCache\<lparr>jw_lastAttempt := 0\<rparr>, [], ()) = (out', t', cache', noted', m')" by (metis prod_cases5)
  have "t' = 0"
    using f by (auto simp: jwks_fetch_def onNetwork_def jwks_get_def providerJWKS_def baseResolver_def witnessURL
        transcribed_def witnessProvider_def split: sum.splits)
  from assms show ?thesis
    by (rule resolve_cases) (use f \<open>t' = 0\<close> in \<open>auto simp: providerJWKS_def baseResolver_def\<close>)
qed

lemma providerJWKS_resolves:
  "\<exists>key s'. JWKS_ResolveKeys libErr witnessCrypto providerJWKS background ''k1'' (0, emptyCache, [], ()) =
    (Return (Inr [key]), s') \<and> vk_ECDSA key \<noteq> None \<and> ec_Curve (the (vk_ECDSA key)) = P256"
proof -
  obtain key where key: "parseJWKSet (libErr ''base64'') (libErr ''json'') witnessCrypto witnessJwksBody =
      Inr ([(''k1'', [key])], [])" "vk_ECDSA key \<noteq> None" "ec_Curve (the (vk_ECDSA key)) = P256"
    using witnessJwks_parsed by blast
  have due: "5 * 60 * 1000000000 \<le> timeSub 0 zeroTime" by (simp add: timeSub_def zeroTime_def)
  show ?thesis
    using key due by (simp add: JWKS_ResolveKeys_def providerJWKS_def baseResolver_def emptyCache_def jwks_fetch_def
        onNetwork_def jwks_get_def witnessURL transcribed_def witnessProvider_def Let_def afterFetch_def lookupLocked_def goIndex_def)
qed

theorem provider_keys_are_public_witness:
  "\<forall>libErr. \<exists>v s' key ks. NewValidator [''ES256''] [''idp''] [''orders'']
      (Some (JWKS_ResolveKeys libErr witnessCrypto providerJWKS)) [] = Return v \<and>
    Validator_Validate parseInt witnessCrypto v background providerToken (0, emptyCache, [], ()) =
      (Return (Inr witnessClaims), s') \<and> publicKey witnessCrypto key \<and>
    (\<exists>body. (''https://idp'', 200, body) \<in> set (fst (snd (snd s'))) \<and>
      parseJWKSet (libErr ''base64'') (libErr ''json'') witnessCrypto body = Inr ks \<and> key \<in> keysOf ks)"
proof
  fix libErr
  let ?res = "JWKS_ResolveKeys libErr witnessCrypto providerJWKS"
  let ?v = "\<lparr>va_allowedAlgs = [''ES256''], va_issuers = [''idp''], va_audiences = [''orders''], va_keys = ?res,
    va_clockSkew = 2 * 60 * 1000000000, va_requireExp = True, va_now = fst\<rparr>"
  have v: "NewValidator [''ES256''] [''idp''] [''orders''] (Some ?res) [] = Return ?v"
    by (simp add: NewValidator_def algProperties_def)
  have alg: "\<forall>a \<in> set (va_allowedAlgs ?v). algProperties a \<noteq> None" by (simp add: algProperties_def)
  obtain key s' where key: "?res background ''k1'' (0, emptyCache, [], ()) = (Return (Inr [key]), s')"
      "vk_ECDSA key \<noteq> None" "ec_Curve (the (vk_ECDSA key)) = P256"
    using providerJWKS_resolves by blast
  obtain pub where pub: "vk_ECDSA key = Some pub" "ec_Curve pub = P256" using key(2,3) by auto
  have signed: "signedBy witnessCrypto ''ES256'' i (replicate 64 (CHR ''s'')) key" for i
    by (simp add: signedBy_def algProperties_def pub witnessCrypto_def)
  have allowed: "claimsAllowed parseInt True (2 * 60 * 1000000000) [''idp''] [''orders''] witnessClaims now"
    if "now \<le> 100000000000" for now
    using witnessClaims_allowed [of now] that
    by (auto simp: claimsAllowed_def witnessClaims_def numericDate_def split: option.splits)
  have "parseToken parseInt providerToken = Inr (\<lparr>hd_Alg = ''ES256'', hd_Typ = ''JWT'', hd_Kid = ''k1'', hd_Crit = []\<rparr>,
      witnessClaims, issueInput ''ES256'' ''k1'' witnessClaims, replicate 64 (CHR ''s''))"
    unfolding providerToken_def
    by (rule parseToken_compact) (simp_all add: validText_ascii byteIn_def witnessClaims_issuable)
  moreover have "fst s' \<le> 100000000000" using providerJWKS_instant [OF key(1)] by simp
  ultimately have accepted: "Validator_Validate parseInt witnessCrypto ?v background providerToken (0, emptyCache, [], ()) =
      (Return (Inr witnessClaims), s')"
    unfolding validate_Inr [OF alg] using key(1) signed allowed by simp
  obtain t1 cache1 seen1 m1 where s': "s' = (t1, cache1, seen1, m1)" by (metis prod_cases4)
  from provider_keys_are_public [OF providerJWKS_built _ serving.start v _ accepted [unfolded s']]
  obtain k body ks where "publicKey witnessCrypto k" "(''https://idp'', 200, body) \<in> set seen1"
    "parseJWKSet (libErr ''base64'') (libErr ''json'') witnessCrypto body = Inr ks" "k \<in> keysOf ks" by auto
  with v accepted show "\<exists>v s' key ks. NewValidator [''ES256''] [''idp''] [''orders''] (Some ?res) [] = Return v \<and>
    Validator_Validate parseInt witnessCrypto v background providerToken (0, emptyCache, [], ()) =
      (Return (Inr witnessClaims), s') \<and> publicKey witnessCrypto key \<and>
    (\<exists>body. (''https://idp'', 200, body) \<in> set (fst (snd (snd s'))) \<and>
      parseJWKSet (libErr ''base64'') (libErr ''json'') witnessCrypto body = Inr ks \<and> key \<in> keysOf ks)"
    unfolding s' by (metis fst_conv snd_conv)
qed

text \<open>While an identity provider is out of reach, a resolver that has fetched once goes on
  serving the keys it has: a call returns them, never an error, and leaves them in the cache.\<close>

definition outOfReach :: "'n client \<Rightarrow> bool" where
  "outOfReach client \<longleftrightarrow> (\<forall>c u s. \<exists>s'. (\<exists>err. client c u s = (Return (Inl err), s')) \<or>
     (\<exists>code body. code \<noteq> 200 \<and> client c u s = (Return (Inr (code, body)), s')))"

theorem outage_serves_cached_keys:
  assumes "outOfReach (jr_client r)" and "jw_fetched cache"
  shows "\<exists>t' cache' n'. JWKS_ResolveKeys libErr cr r c kid (t, cache, n) =
      (Return (Inr (lookupLocked cache kid)), t', cache', n') \<and>
    jw_fetched cache' \<and> jw_byKid cache' = jw_byKid cache \<and> jw_keyless cache' = jw_keyless cache"
proof -
  have failing: "\<exists>err s'. jwks_get libErr r c (jr_url r) s = (Return (Inl err), s')" for s
  proof -
    obtain s' where "(\<exists>err. jr_client r c (jr_url r) s = (Return (Inl err), s')) \<or>
        (\<exists>code body. code \<noteq> 200 \<and> jr_client r c (jr_url r) s = (Return (Inr (code, body)), s'))"
      using assms(1) unfolding outOfReach_def by blast
    then show ?thesis by (auto simp: jwks_get_def split: option.splits)
  qed
  let ?cache = "cache\<lparr>jw_lastAttempt := jr_now r (t, n)\<rparr>"
  obtain err t1 n1 where "jwks_get libErr r c (jr_url r) (t, n) = (Return (Inl err), t1, n1)"
    using failing by (metis prod.exhaust)
  then have "jwks_fetch libErr cr r c (t, ?cache, n) = (Return (Some err), t1, ?cache, n1)"
    by (simp add: jwks_fetch_def onNetwork_def)
  moreover have "lookupLocked ?cache kid = lookupLocked cache kid" by (simp add: lookupLocked_def)
  ultimately show ?thesis using assms(2) by (simp add: JWKS_ResolveKeys_def Let_def afterFetch_def)
qed

theorem outage_serves_cached_keys_witness:
  "\<forall>libErr cr key t. outOfReach witnessClient \<and> fst (JWKS_ResolveKeys libErr cr
      (baseResolver witnessClient ''https://idp'') background ''new''
      (t, \<lparr>jw_byKid = [(''k1'', [key])], jw_keyless = [key], jw_fetched = True, jw_lastAttempt = 0\<rparr>, ())) =
    Return (Inr [key])"
proof (intro allI conjI)
  fix libErr cr key t
  show down: "outOfReach witnessClient" by (simp add: outOfReach_def witnessClient_def)
  let ?cache = "\<lparr>jw_byKid = [(''k1'', [key])], jw_keyless = [key], jw_fetched = True, jw_lastAttempt = 0\<rparr>"
  have "jw_fetched ?cache" and c: "jr_client (baseResolver witnessClient ''https://idp'') = witnessClient"
    by (simp_all add: baseResolver_def)
  from outage_serves_cached_keys [where r = "baseResolver witnessClient ''https://idp''", unfolded c, OF down this(1),
      of libErr cr background "''new''" t "()"]
  show "fst (JWKS_ResolveKeys libErr cr (baseResolver witnessClient ''https://idp'') background ''new'' (t, ?cache, ())) =
    Return (Inr [key])"
    by (auto simp: lookupLocked_def goIndex_def)
qed

end
