(* ===== verification/Auth.thy ===== *)
theory Auth
  imports Jwks Router
begin

text \<open>
  Authentication and authorization (\<^verbatim>\<open>auth/auth.go\<close>, \<^verbatim>\<open>auth/basic.go\<close>, \<^verbatim>\<open>auth/bearer.go\<close>): the principal on the
  context, the two middlewares that set it from the \<^verbatim>\<open>Authorization\<close> header, and those that gate on it.
  A validator and an \<^verbatim>\<open>OnError\<close> hook run in the world of the pipeline. White space is that of
  \<^verbatim>\<open>unicode.IsSpace\<close>, by its UTF-8 encodings.
\<close>

section \<open>The principal (auth.go)\<close>

definition HasRole :: "principal \<Rightarrow> string \<Rightarrow> bool" where
  "HasRole p role \<longleftrightarrow> list_ex (\<lambda>r. r = role) (pr_Roles p)"

definition principalClaim :: "principal \<Rightarrow> string \<Rightarrow> string \<times> bool" where
  "principalClaim p name = (goIndex (pr_Claims p) name '''', hasKey (pr_Claims p) name)"

definition ContextWithPrincipal :: "ctx \<Rightarrow> principal \<Rightarrow> ctx" where
  "ContextWithPrincipal c p = c\<lparr>carries_principal := Some p\<rparr>"

definition PrincipalFromContext :: "ctx \<Rightarrow> principal option" where
  "PrincipalFromContext c = carries_principal c"

definition Authorize :: "(principal \<Rightarrow> bool) \<Rightarrow> ('v, 'w) middleware" where
  "Authorize authorized c nx s = (case PrincipalFromContext c of
      None \<Rightarrow> andThen (Unauthorized [''not authenticated''], s) (\<lambda>r s1. (Return None, setResult (ResultAny r) s1))
    | Some p \<Rightarrow>
        if \<not> authorized p then
          andThen (Forbidden [''caller is not authorized''], s) (\<lambda>r s1. (Return None, setResult (ResultAny r) s1))
        else nx c s)"

definition RequireRole :: "string \<Rightarrow> ('v, 'w) middleware" where
  "RequireRole role = Authorize (\<lambda>p. HasRole p role)"

section \<open>White space\<close>

text \<open>The encodings of the white space of \<^verbatim>\<open>unicode.IsSpace\<close> that are longer than a byte.\<close>

definition wideSpaces :: "string list" where
  "wideSpaces = [[CHR 0xC2, CHR 0x85], [CHR 0xC2, CHR 0xA0], [CHR 0xE1, CHR 0x9A, CHR 0x80],
     [CHR 0xE2, CHR 0x80, CHR 0xA8], [CHR 0xE2, CHR 0x80, CHR 0xA9], [CHR 0xE2, CHR 0x80, CHR 0xAF],
     [CHR 0xE2, CHR 0x81, CHR 0x9F], [CHR 0xE3, CHR 0x80, CHR 0x80],
     [CHR 0xE2, CHR 0x80, CHR 0x80], [CHR 0xE2, CHR 0x80, CHR 0x81], [CHR 0xE2, CHR 0x80, CHR 0x82],
     [CHR 0xE2, CHR 0x80, CHR 0x83], [CHR 0xE2, CHR 0x80, CHR 0x84], [CHR 0xE2, CHR 0x80, CHR 0x85],
     [CHR 0xE2, CHR 0x80, CHR 0x86], [CHR 0xE2, CHR 0x80, CHR 0x87], [CHR 0xE2, CHR 0x80, CHR 0x88],
     [CHR 0xE2, CHR 0x80, CHR 0x89], [CHR 0xE2, CHR 0x80, CHR 0x8A]]"

text \<open>How many bytes of white space a text starts with, none or one character.\<close>

definition spaceLen :: "string \<Rightarrow> nat" where
  "spaceLen s = (if s \<noteq> [] \<and> spaceChar (hd s) then 1
     else (case find (hasPrefix s) wideSpaces of None \<Rightarrow> 0 | Some e \<Rightarrow> length e))"

text \<open>The same at its end.\<close>

definition spaceEnd :: "string \<Rightarrow> nat" where
  "spaceEnd s = (if s \<noteq> [] \<and> spaceChar (last s) then 1
     else (case find (hasSuffix s) wideSpaces of None \<Rightarrow> 0 | Some e \<Rightarrow> length e))"

fun dropSpaces :: "nat \<Rightarrow> string \<Rightarrow> string" where
  "dropSpaces 0 s = s"
| "dropSpaces (Suc n) s = (if spaceLen s = 0 then s else dropSpaces n (drop (spaceLen s) s))"

fun dropSpacesEnd :: "nat \<Rightarrow> string \<Rightarrow> string" where
  "dropSpacesEnd 0 s = s"
| "dropSpacesEnd (Suc n) s = (if spaceEnd s = 0 then s else dropSpacesEnd n (take (length s - spaceEnd s) s))"

text \<open>\<^verbatim>\<open>strings.TrimSpace\<close>: each round drops a byte at least, so the length is fuel enough.\<close>

definition trimSpaces :: "string \<Rightarrow> string" where
  "trimSpaces s = (let t = dropSpaces (length s) s in dropSpacesEnd (length t) t)"

text \<open>\<^verbatim>\<open>strings.Fields\<close>: \<open>skip\<close> bytes of a white space character are still to pass.\<close>

fun fieldsFrom :: "nat \<Rightarrow> string \<Rightarrow> string \<Rightarrow> string list" where
  "fieldsFrom skip field [] = (if field = [] then [] else [rev field])"
| "fieldsFrom (Suc skip) field (ch # s) = fieldsFrom skip field s"
| "fieldsFrom 0 field (ch # s) =
    (let n = spaceLen (ch # s) in
     if n = 0 then fieldsFrom 0 (ch # field) s
     else (if field = [] then [] else [rev field]) @ fieldsFrom (n - 1) [] s)"

definition goFields :: "string \<Rightarrow> string list" where
  "goFields s = fieldsFrom 0 [] s"

section \<open>Basic authentication (basic.go)\<close>

text \<open>The range over the headers stops at the first entry that matches.\<close>

definition authorizationHeader :: "headers \<Rightarrow> string" where
  "authorizationHeader hs = (case map_of hs ''authorization'' of
      Some v \<Rightarrow> v
    | None \<Rightarrow> (case find (\<lambda>(name, v). equalFold name ''authorization'') hs of None \<Rightarrow> '''' | Some (name, v) \<Rightarrow> v))"

definition basicScheme :: string where "basicScheme = ''Basic ''"

definition challenge :: "string \<Rightarrow> string \<Rightarrow> ('v, 'w) run" where
  "challenge realm detail s =
    andThen (Unauthorized [detail],
        s\<lparr>ic := ic_SetResponseHeader (ic s) ''WWW-Authenticate'' (''Basic realm=\"'' @ realm @ ''\"'')\<rparr>)
      (\<lambda>r s1. (Return None, setResult (ResultAny r) s1))"

text \<open>The text after the scheme, or nothing when the header does not start with it.\<close>

definition afterScheme :: "string \<Rightarrow> string \<Rightarrow> string option" where
  "afterScheme scheme header =
    (if length header < length scheme \<or> \<not> equalFold (take (length scheme) header) scheme then None
     else Some (trimSpaces (drop (length scheme) header)))"

definition BasicAuth ::
  "(string \<Rightarrow> string \<Rightarrow> ('v, 'w) st \<Rightarrow> (principal \<times> bool) outcome \<times> ('v, 'w) st) \<Rightarrow> string \<Rightarrow>
   ('v, 'w) middleware" where
  "BasicAuth validate realm c nx s = (case afterScheme basicScheme (authorizationHeader (ic_Headers (ic s))) of
      None \<Rightarrow> challenge realm ''missing or malformed Authorization header'' s
    | Some encoded \<Rightarrow> (case stdDecode encoded of
        None \<Rightarrow> challenge realm ''malformed Basic credentials'' s
      | Some decoded \<Rightarrow> (case indexByte decoded (CHR '':'') of
          None \<Rightarrow> challenge realm ''malformed Basic credentials'' s
        | Some i \<Rightarrow> andThen (validate (take i decoded) (drop (Suc i) decoded) s) (\<lambda>(p, ok) s1.
            if \<not> ok then challenge realm ''invalid credentials'' s1
            else nx (ContextWithPrincipal c p) s1))))"

section \<open>Bearer authentication (bearer.go)\<close>

definition bearerScheme :: string where "bearerScheme = ''Bearer ''"

record ('v, 'w) bearerConfig =
  bc_subjectClaim :: string
  bc_rolesClaim :: string
  bc_onError :: "(goerr \<Rightarrow> ('v, 'w) st \<Rightarrow> unit outcome \<times> ('v, 'w) st) option"

type_synonym ('v, 'w) bearerOption = "('v, 'w) bearerConfig \<Rightarrow> ('v, 'w) bearerConfig"

definition WithSubjectClaim :: "string \<Rightarrow> ('v, 'w) bearerOption" where
  "WithSubjectClaim name c = c\<lparr>bc_subjectClaim := name\<rparr>"

definition WithRolesClaim :: "string \<Rightarrow> ('v, 'w) bearerOption" where
  "WithRolesClaim name c = c\<lparr>bc_rolesClaim := name\<rparr>"

definition WithOnError :: "(goerr \<Rightarrow> ('v, 'w) st \<Rightarrow> unit outcome \<times> ('v, 'w) st) \<Rightarrow> ('v, 'w) bearerOption" where
  "WithOnError hook c = c\<lparr>bc_onError := Some hook\<rparr>"

text \<open>A string by its white space, an array by its strings.\<close>

definition stringOrArray :: "json option \<Rightarrow> string list" where
  "stringOrArray v = (case v of
      Some (JStr s) \<Rightarrow> goFields s
    | Some (JArr js) \<Rightarrow> stringsOf js
    | _ \<Rightarrow> [])"

definition GrantedScopes :: "claims \<Rightarrow> string list" where
  "GrantedScopes cl =
    (let scopes = remdups (stringOrArray (map_of cl ''scope'') @ stringOrArray (map_of cl ''scp'')) in
     if scopes = [] then [] else sort scopes)"

fun stringClaims :: "claims \<Rightarrow> (string \<times> string) list \<Rightarrow> (string \<times> string) list" where
  "stringClaims [] m = m"
| "stringClaims ((name, JStr s) # cl) m = stringClaims cl (AList.update name s m)"
| "stringClaims ((name, j) # cl) m = stringClaims cl m"

definition principalFromClaims :: "claims \<Rightarrow> ('v, 'w) bearerConfig \<Rightarrow> principal" where
  "principalFromClaims cl cfg =
    (let scopes = GrantedScopes cl; named = stringClaims cl [] in
     \<lparr>pr_Name = fst (Claims_String cl (bc_subjectClaim cfg)),
      pr_Roles = stringOrArray (map_of cl (bc_rolesClaim cfg)),
      pr_Claims = (if scopes \<noteq> [] then AList.update ''scope'' (join '' '' scopes) named else named)\<rparr>)"

definition bearerChallenge :: "('v, 'w) bearerConfig \<Rightarrow> goerr \<Rightarrow> ('v, 'w) run" where
  "bearerChallenge cfg cause s =
    andThen (case bc_onError cfg of None \<Rightarrow> (Return (), s) | Some hook \<Rightarrow> hook cause s) (\<lambda>_ s1.
    andThen (Unauthorized [''invalid bearer token''],
        s1\<lparr>ic := ic_SetResponseHeader (ic s1) ''WWW-Authenticate'' ''Bearer''\<rparr>)
      (\<lambda>r s2. (Return None, setResult (ResultAny r) s2)))"

text \<open>The validator reads and changes the clock and the world of the pipeline.\<close>

definition inWorld ::
  "('w authState \<Rightarrow> 'a outcome \<times> 'w authState) \<Rightarrow> ('v, 'w) st \<Rightarrow> 'a outcome \<times> ('v, 'w) st" where
  "inWorld m s = (case m (clock s, env s) of (r, t, w) \<Rightarrow> (r, s\<lparr>clock := t, env := w\<rparr>))"

definition bearerDefaults :: "('v, 'w) bearerConfig" where
  "bearerDefaults = \<lparr>bc_subjectClaim = ''sub'', bc_rolesClaim = ''roles'', bc_onError = None\<rparr>"

definition BearerAuth ::
  "(string \<Rightarrow> int option) \<Rightarrow> jwsCrypto \<Rightarrow> 'w validator \<Rightarrow> ('v, 'w) bearerOption list \<Rightarrow> ('v, 'w) middleware" where
  "BearerAuth unixOf cr v opts c nx s =
    (let cfg = fold (\<lambda>opt c. opt c) opts bearerDefaults in
     case afterScheme bearerScheme (authorizationHeader (ic_Headers (ic s))) of
       None \<Rightarrow> bearerChallenge cfg ErrMalformedToken s
     | Some token \<Rightarrow>
         if token = '''' then bearerChallenge cfg ErrMalformedToken s
         else andThen (inWorld (Validator_Validate unixOf cr v c token) s) (\<lambda>validated s1. case validated of
             Inl err \<Rightarrow> bearerChallenge cfg err s1
           | Inr cl \<Rightarrow> nx (ContextWithPrincipal c (principalFromClaims cl cfg)) s1))"

definition RequireScope :: "string \<Rightarrow> ('v, 'w) middleware" where
  "RequireScope scope = Authorize (\<lambda>p. list_ex (\<lambda>s. s = scope) (goFields (fst (principalClaim p ''scope''))))"

section \<open>Lemmas\<close>

lemma wideSpaces_bytes:
  assumes "e \<in> set wideSpaces"
  shows "e \<noteq> []" "CHR '' '' \<notin> set e" "hd e \<notin> set (stdAlphabet @ ''='')" "last e \<notin> set (stdAlphabet @ ''='')"
proof -
  have "\<forall>e \<in> set wideSpaces. e \<noteq> [] \<and> CHR '' '' \<notin> set e" by code_simp
  moreover have "\<forall>e \<in> set wideSpaces. hd e \<notin> set (stdAlphabet @ ''='')" by code_simp
  moreover have "\<forall>e \<in> set wideSpaces. last e \<notin> set (stdAlphabet @ ''='')" by code_simp
  ultimately show "e \<noteq> []" "CHR '' '' \<notin> set e" "hd e \<notin> set (stdAlphabet @ ''='')" "last e \<notin> set (stdAlphabet @ ''='')"
    using assms by blast+
qed

lemma find_None_iff': "(case find P xs of None \<Rightarrow> 0 | Some e \<Rightarrow> length e) = 0 \<longleftrightarrow> (\<forall>e \<in> set xs. P e \<longrightarrow> e = [])"
  if "\<forall>e \<in> set xs. e \<noteq> ([] :: 'a list)" for xs
proof (cases "find P xs")
  case None
  moreover from this have "\<forall>e \<in> set xs. \<not> P e" by (simp add: find_None_iff)
  ultimately show ?thesis by simp
next
  case (Some e)
  then have "e \<in> set xs" "P e" by (auto simp: find_Some_iff)
  with Some that show ?thesis by auto
qed

lemma spaceLen_0:
  "spaceLen s = 0 \<longleftrightarrow> (s = [] \<or> \<not> spaceChar (hd s)) \<and> (\<forall>e \<in> set wideSpaces. \<not> hasPrefix s e)"
proof -
  have "\<forall>e \<in> set wideSpaces. e \<noteq> []" using wideSpaces_bytes(1) by blast
  from find_None_iff' [OF this, of "hasPrefix s"] this show ?thesis by (auto simp: spaceLen_def)
qed

lemma spaceEnd_0:
  "spaceEnd s = 0 \<longleftrightarrow> (s = [] \<or> \<not> spaceChar (last s)) \<and> (\<forall>e \<in> set wideSpaces. \<not> hasSuffix s e)"
proof -
  have "\<forall>e \<in> set wideSpaces. e \<noteq> []" using wideSpaces_bytes(1) by blast
  from find_None_iff' [OF this, of "hasSuffix s"] this show ?thesis by (auto simp: spaceEnd_def)
qed

lemma trimSpaces_stable: "spaceLen s = 0 \<Longrightarrow> spaceEnd s = 0 \<Longrightarrow> trimSpaces s = s"
  by (cases "length s") (simp_all add: trimSpaces_def)

lemma trimSpaces_encoded: "trimSpaces (stdEncode s) = stdEncode s"
proof (cases "stdEncode s = []")
  case False
  have ends: "hd (stdEncode s) \<in> set (stdEncode s)" "last (stdEncode s) \<in> set (stdEncode s)"
    using False by simp_all
  have alphabet: "ch \<in> set (stdAlphabet @ ''='')" if "ch \<in> set (stdEncode s)" for ch
    using encoded_chars [OF good_alphabets(1), of ch True s] that unfolding stdEncode_def by auto
  have "\<not> hasPrefix (stdEncode s) e" "\<not> hasSuffix (stdEncode s) e" if "e \<in> set wideSpaces" for e
  proof -
    have e: "e \<noteq> []" "hd e \<notin> set (stdAlphabet @ ''='')" "last e \<notin> set (stdAlphabet @ ''='')"
      using wideSpaces_bytes [OF that] by blast+
    show "\<not> hasPrefix (stdEncode s) e"
    proof
      assume "hasPrefix (stdEncode s) e"
      then have "hd e = hd (stdEncode s)"
        unfolding hasPrefix_def using e(1) by (metis hd_take length_greater_0_conv)
      with alphabet [OF ends(1)] e(2) show False by metis
    qed
    show "\<not> hasSuffix (stdEncode s) e"
    proof
      assume "hasSuffix (stdEncode s) e"
      then have "last e = last (stdEncode s)"
        unfolding hasSuffix_def using e(1) by (metis last_drop drop_eq_Nil length_drop not_le length_0_conv leI)
      with alphabet [OF ends(2)] e(3) show False by metis
    qed
  qed
  moreover have "\<not> spaceChar (hd (stdEncode s))" "\<not> spaceChar (last (stdEncode s))"
    using encoded_not_space(1) ends by blast+
  ultimately show ?thesis by (intro trimSpaces_stable) (simp_all add: spaceLen_0 spaceEnd_0)
qed (simp add: trimSpaces_def)

text \<open>A field without white space, and fields joined by blanks.\<close>

definition cleanField :: "string \<Rightarrow> bool" where
  "cleanField f \<longleftrightarrow> f \<noteq> [] \<and> (\<forall>i < length f. spaceLen (drop i f) = 0)"

lemma spaceLen_before_blank: "f \<noteq> [] \<Longrightarrow> spaceLen f = 0 \<Longrightarrow> spaceLen (f @ CHR '' '' # r) = 0"
proof -
  assume f: "f \<noteq> []" "spaceLen f = 0"
  have "\<not> hasPrefix (f @ CHR '' '' # r) e" if "e \<in> set wideSpaces" for e
  proof
    assume p: "hasPrefix (f @ CHR '' '' # r) e"
    have "length e \<le> length f"
    proof (rule ccontr)
      assume "\<not> length e \<le> length f"
      with p have "e = f @ CHR '' '' # take (length e - length f - 1) r"
        unfolding hasPrefix_def by (cases "length e - length f") auto
      then have "CHR '' '' \<in> set e" by (metis in_set_conv_decomp)
      with wideSpaces_bytes(2) [OF that] show False by simp
    qed
    with p have "hasPrefix f e" by (simp add: hasPrefix_def)
    with f(2) that show False by (simp add: spaceLen_0)
  qed
  with f show ?thesis by (simp add: spaceLen_0)
qed

lemma fieldsFrom_clean:
  "(\<forall>i < length f. spaceLen (drop i f) = 0) \<Longrightarrow> field @ f \<noteq> [] \<Longrightarrow>
    fieldsFrom 0 (rev field) f = [field @ f] \<and>
    fieldsFrom 0 (rev field) (f @ CHR '' '' # r) = (field @ f) # fieldsFrom 0 [] r"
proof (induction f arbitrary: field)
  case Nil
  have "spaceLen (CHR '' '' # r) = 1" by (simp add: spaceLen_def spaceChar_def)
  with Nil show ?case by (simp add: Let_def)
next
  case (Cons ch f)
  have zero: "spaceLen (ch # f) = 0"
    using Cons.prems(1) by (metis drop0 length_greater_0_conv list.distinct(1))
  have rest: "(\<forall>i < length f. spaceLen (drop i f) = 0)"
    using Cons.prems(1) by (metis Suc_less_eq drop_Suc_Cons length_Cons)
  have "spaceLen (ch # f @ CHR '' '' # r) = 0"
    using spaceLen_before_blank [of "ch # f"] zero by simp
  with zero Cons.IH [OF rest, of "field @ [ch]"] show ?case by (simp add: Let_def)
qed

lemma goFields_join: "list_all cleanField fs \<Longrightarrow> goFields (join '' '' fs) = fs"
proof (induction fs)
  case (Cons f fs)
  have f: "f \<noteq> []" "(\<forall>i < length f. spaceLen (drop i f) = 0)"
    using Cons.prems by (simp_all add: cleanField_def)
  show ?case
  proof (cases "fs = []")
    case True
    then show ?thesis using fieldsFrom_clean [OF f(2), of "[]"] f(1) by (simp add: goFields_def)
  next
    case False
    with Cons fieldsFrom_clean [OF f(2), of "[]" "join '' '' fs"] f(1)
    show ?thesis by (simp add: goFields_def join_Cons)
  qed
qed (simp add: goFields_def)

text \<open>The strings that go into the claims of a principal.\<close>

lemma stringClaims_keeps: "\<forall>j. (name, j) \<notin> set cl \<Longrightarrow> map_of (stringClaims cl m) name = map_of m name"
proof (induction cl arbitrary: m)
  case (Cons kj cl)
  obtain k j where kj: "kj = (k, j)" by (rule prod.exhaust)
  show ?case using Cons by (cases j) (auto simp: kj)
qed simp

lemma stringClaims_map:
  assumes "distinct (map fst cl)"
  shows "map_of (stringClaims cl m) name = (case map_of cl name of Some (JStr s) \<Rightarrow> Some s | _ \<Rightarrow> map_of m name)"
  using assms
proof (induction cl arbitrary: m)
  case (Cons kj cl)
  obtain k j where kj: "kj = (k, j)" by (rule prod.exhaust)
  have fresh: "\<forall>j. (k, j) \<notin> set cl" using Cons.prems by (force simp: kj)
  show ?case
  proof (cases "k = name")
    case True
    then show ?thesis using stringClaims_keeps [OF fresh] by (cases j) (simp_all add: kj)
  next
    case False
    then have "map_of (stringClaims (kj # cl) m) name =
        (case map_of cl name of Some (JStr s) \<Rightarrow> Some s | _ \<Rightarrow> map_of m name)"
      using Cons by (cases j) (simp_all add: kj split: option.splits json.splits)
    with False show ?thesis by (simp add: kj)
  qed
qed simp

lemma goFields_scopeless:
  assumes "GrantedScopes cl = []" "distinct (map fst cl)"
  shows "goFields (fst (principalClaim (principalFromClaims cl cfg) ''scope'')) = []"
proof -
  have "set (GrantedScopes cl) = set (stringOrArray (map_of cl ''scope'')) \<union> set (stringOrArray (map_of cl ''scp''))"
    by (simp add: GrantedScopes_def)
  then have "stringOrArray (map_of cl ''scope'') = []" using assms(1) by simp
  moreover have "goFields '''' = []" by (simp add: goFields_def)
  moreover have "goIndex (stringClaims cl []) ''scope'' '''' =
      (case map_of cl ''scope'' of Some (JStr s) \<Rightarrow> s | _ \<Rightarrow> '''')"
    using stringClaims_map [OF assms(2), of "[]" "''scope''"]
    by (auto simp: goIndex_def split: option.splits json.splits)
  ultimately show ?thesis
    using assms(1) by (auto simp: principalClaim_def principalFromClaims_def stringOrArray_def split: option.splits json.splits)
qed

lemma claims_scopes:
  assumes "distinct (map fst cl)" "list_all cleanField (GrantedScopes cl)"
  shows "goFields (fst (principalClaim (principalFromClaims cl cfg) ''scope'')) = GrantedScopes cl"
proof (cases "GrantedScopes cl = []")
  case True
  then show ?thesis using goFields_scopeless [OF True assms(1)] by simp
next
  case False
  then show ?thesis using goFields_join [OF assms(2)] by (simp add: principalClaim_def principalFromClaims_def Let_def)
qed

text \<open>Words of ASCII characters have no white space.\<close>

definition asciiWord :: "string \<Rightarrow> bool" where
  "asciiWord f \<longleftrightarrow> f \<noteq> [] \<and> list_all (\<lambda>ch. CHR ''!'' \<le> ch \<and> ch \<le> CHR ''~'') f"

lemma asciiWord_clean:
  assumes "asciiWord f"
  shows "cleanField f"
proof -
  have bytes: "\<forall>e \<in> set wideSpaces. \<not> hd e \<le> CHR ''~''" by code_simp
  have "spaceLen (drop i f) = 0" if "i < length f" for i
  proof -
    have d: "drop i f = f ! i # drop (Suc i) f" using that by (simp add: Cons_nth_drop_Suc)
    have ch: "CHR ''!'' \<le> f ! i" "f ! i \<le> CHR ''~''" using assms that by (auto simp: asciiWord_def list_all_length)
    have "\<not> hasPrefix (drop i f) e" if "e \<in> set wideSpaces" for e
    proof
      assume "hasPrefix (drop i f) e"
      then have "hd e = f ! i"
        unfolding hasPrefix_def d using wideSpaces_bytes(1) [OF that]
        by (metis hd_take length_greater_0_conv list.sel(1))
      with bytes that ch(2) show False by metis
    qed
    moreover have "\<not> spaceChar (f ! i)"
      using ch(1) by (simp add: spaceChar_def less_eq_char_def Let_def)
    ultimately show ?thesis by (simp add: spaceLen_0 d)
  qed
  with assms show ?thesis by (simp add: cleanField_def asciiWord_def)
qed

section \<open>Properties\<close>

definition quietHook :: "('v, 'w) bearerConfig \<Rightarrow> bool" where
  "quietHook cfg \<longleftrightarrow> (case bc_onError cfg of None \<Rightarrow> True
     | Some hook \<Rightarrow> \<forall>e s. \<exists>s1. hook e s = (Return (), s1) \<and> ic s1 = ic s)"

text \<open>The answer to every rejected message.\<close>

definition bearerRejection :: "'v invocation \<Rightarrow> 'v invocation" where
  "bearerRejection i = (ic_SetResponseHeader i ''WWW-Authenticate'' ''Bearer'')
     \<lparr>ic_Result := Some (ResultAny (failed StatusUnauthorized [''invalid bearer token'']))\<rparr>"

lemma bearerChallenge_quiet:
  "quietHook cfg \<Longrightarrow> \<exists>s'. bearerChallenge cfg e s = (Return None, s') \<and> ic s' = bearerRejection (ic s)"
proof (cases "bc_onError cfg")
  case None
  then show ?thesis by (simp add: bearerChallenge_def bearerRejection_def setResult_def)
next
  case (Some hook)
  assume "quietHook cfg"
  with Some obtain s1 where "hook e s = (Return (), s1)" "ic s1 = ic s" unfolding quietHook_def by fastforce
  with Some show ?thesis by (simp add: bearerChallenge_def bearerRejection_def setResult_def)
qed

text \<open>C10 (safety). Behind bearer authentication the rest of the pipeline runs only for a message whose
  header carries a token that the validator accepts, and then with the principal made of the claims of
  this token; every other message, whatever is wrong with it, is answered with one and the same
  unauthorized result and challenge, so that the answer tells nothing about the cause.\<close>

theorem bearer_gate:
  assumes "cfg = fold (\<lambda>opt c. opt c) opts bearerDefaults" and "quietHook cfg"
    and "\<forall>token s m. fst (Validator_Validate unixOf cr v c token s) \<noteq> Panic m"
  shows "(\<exists>token cl t w. afterScheme bearerScheme (authorizationHeader (ic_Headers (ic s))) = Some token \<and>
      Validator_Validate unixOf cr v c token (clock s, env s) = (Return (Inr cl), t, w) \<and>
      BearerAuth unixOf cr v opts c nx s =
        nx (ContextWithPrincipal c (principalFromClaims cl cfg)) (s\<lparr>clock := t, env := w\<rparr>)) \<or>
    (\<exists>s'. BearerAuth unixOf cr v opts c nx s = (Return None, s') \<and> ic s' = bearerRejection (ic s))"
proof -
  note quiet = bearerChallenge_quiet [OF assms(2)]
  show ?thesis
  proof (cases "afterScheme bearerScheme (authorizationHeader (ic_Headers (ic s)))")
    case None
    then show ?thesis using quiet by (simp add: BearerAuth_def assms(1))
  next
    case (Some token)
    obtain out t w where val: "Validator_Validate unixOf cr v c token (clock s, env s) = (out, t, w)"
      by (metis prod_cases3)
    then obtain r where out: "out = Return r" using assms(3) by (cases out) (metis fst_conv)+
    show ?thesis
    proof (cases "token = '''' \<or> (\<exists>err. r = Inl err)")
      case True
      then show ?thesis
        using quiet [of _ s] quiet [of _ "s\<lparr>clock := t, env := w\<rparr>"] Some val out
        by (auto simp: BearerAuth_def assms(1) inWorld_def Let_def)
    next
      case False
      then obtain cl where "r = Inr cl" by (cases r) auto
      then have "BearerAuth unixOf cr v opts c nx s =
          nx (ContextWithPrincipal c (principalFromClaims cl cfg)) (s\<lparr>clock := t, env := w\<rparr>)"
        using False Some val out by (simp add: BearerAuth_def assms(1) inWorld_def Let_def)
      then show ?thesis using Some val out \<open>r = Inr cl\<close> by blast
    qed
  qed
qed

definition bearerMessage :: "string \<Rightarrow> (nat, unit) st" where
  "bearerMessage header = \<lparr>ic = NewInvocationContext (NewTopic ''order:get'') [(''authorization'', header)] NilAny None,
     clock = 0, env = ()\<rparr>"

lemma witnessValidator_returns: "fst (Validator_Validate unixOf cr (witnessValidator k) c token s) \<noteq> Panic m"
  by (auto simp: Validator_Validate_def witnessValidator_def witnessResolver_def split: sum.splits)

theorem bearer_gate_witness:
  "\<forall>cr. \<exists>s'. BearerAuth parseInt cr (witnessValidator ''s3cr3t'') [] background (\<lambda>c s. (Return None, s))
      (bearerMessage ''Bearer junk'') = (Return None, s') \<and> ic s' = bearerRejection (ic (bearerMessage ''Bearer junk''))"
proof
  fix cr
  let ?v = "witnessValidator ''s3cr3t''" and ?s = "bearerMessage ''Bearer junk''"
  have quiet: "quietHook (bearerDefaults :: (nat, unit) bearerConfig)" by (simp add: quietHook_def bearerDefaults_def)
  have header: "authorizationHeader (ic_Headers (ic ?s)) = ''Bearer junk''"
    by (simp add: authorizationHeader_def bearerMessage_def NewInvocationContext_def)
  have token: "afterScheme bearerScheme ''Bearer junk'' = Some ''junk''" by code_simp
  have "splitOn (CHR ''.'') ''junk'' = [''junk'']" by code_simp
  then have "parseToken parseInt ''junk'' = Inl ErrMalformedToken" by (simp only: parseToken_def list.case)
  then have bad: "Validator_Validate parseInt cr ?v background ''junk'' s = (Return (Inl ErrMalformedToken), s)" for s
    by (simp only: Validator_Validate_def sum.case)
  have returns: "\<forall>token s m. fst (Validator_Validate parseInt cr ?v background token s) \<noteq> Panic m"
    using witnessValidator_returns by blast
  have none: "fold (\<lambda>opt c. opt c) [] bearerDefaults = bearerDefaults" by simp
  show "\<exists>s'. BearerAuth parseInt cr ?v [] background (\<lambda>c s. (Return None, s)) ?s = (Return None, s') \<and>
      ic s' = bearerRejection (ic ?s)"
    using bearer_gate [OF none [symmetric] quiet returns, where s = ?s and nx = "\<lambda>c s. (Return None, s)"]
    unfolding header token by (auto simp: bad)
qed

text \<open>A message with Basic credentials, however the scheme is spelled and whatever bytes
  the user name without a colon and the password have, asks the credential check for exactly this
  user name and password; it goes on with the principal returned when they are right, and is answered
  with a challenge for the realm when they are wrong.\<close>

theorem basic_credentials_arrive:
  assumes "map_of (ic_Headers (ic s)) ''authorization'' = Some (scheme @ stdEncode (user @ '':'' @ password))"
    and "equalFold scheme ''Basic ''" and "CHR '':'' \<notin> set user"
    and "validate user password s = (Return (p, ok), s1)"
  shows "BasicAuth validate realm c nx s =
    (if ok then nx (ContextWithPrincipal c p) s1 else challenge realm ''invalid credentials'' s1)"
proof -
  have "map toLowerChar scheme = map toLowerChar basicScheme"
    using assms(2) by (simp only: equalFold_def toLower_def basicScheme_def)
  then have "length scheme = length basicScheme" by (rule map_eq_imp_length_eq)
  then have scheme: "afterScheme basicScheme (authorizationHeader (ic_Headers (ic s))) =
      Some (stdEncode (user @ '':'' @ password))"
    using assms(1,2) by (simp add: authorizationHeader_def afterScheme_def basicScheme_def trimSpaces_encoded)
  have cut: "indexByte (user @ '':'' @ password) (CHR '':'') = Some (length user)"
    using indexByte_append [OF assms(3), of password] by simp
  show ?thesis
    unfolding BasicAuth_def scheme using cut assms(4) by simp
qed

definition witnessCheck :: "string \<Rightarrow> string \<Rightarrow> (nat, unit) st \<Rightarrow> (principal \<times> bool) outcome \<times> (nat, unit) st" where
  "witnessCheck u p s = (Return (\<lparr>pr_Name = u, pr_Roles = [], pr_Claims = []\<rparr>, p = ''s3cr3t:x''), s)"

theorem basic_credentials_arrive_witness:
  "BasicAuth witnessCheck ''api'' background
      (\<lambda>c s. (Return (Some (ErrNew (pr_Name (the (PrincipalFromContext c))))), s))
      (bearerMessage (''bAsIc '' @ stdEncode ''ada:s3cr3t:x'')) =
    (Return (Some (ErrNew ''ada'')), bearerMessage (''bAsIc '' @ stdEncode ''ada:s3cr3t:x''))"
proof -
  let ?s = "bearerMessage (''bAsIc '' @ stdEncode (''ada'' @ '':'' @ ''s3cr3t:x''))"
  have header: "map_of (ic_Headers (ic ?s)) ''authorization'' = Some (''bAsIc '' @ stdEncode (''ada'' @ '':'' @ ''s3cr3t:x''))"
    by (simp add: bearerMessage_def NewInvocationContext_def)
  have fold: "equalFold ''bAsIc '' ''Basic ''" by code_simp
  have user: "CHR '':'' \<notin> set ''ada''" by simp
  have check: "witnessCheck ''ada'' ''s3cr3t:x'' ?s =
    (Return (\<lparr>pr_Name = ''ada'', pr_Roles = [], pr_Claims = []\<rparr>, True), ?s)" by (simp add: witnessCheck_def)
  from basic_credentials_arrive [where validate = witnessCheck and user = "''ada''" and password = "''s3cr3t:x''"
      and s = ?s and scheme = "''bAsIc ''" and realm = "''api''" and c = background
      and nx = "\<lambda>c s. (Return (Some (ErrNew (pr_Name (the (PrincipalFromContext c))))), s)",
      OF header fold user check]
  show ?thesis by (simp add: ContextWithPrincipal_def PrincipalFromContext_def)
qed

text \<open>For a caller with a bearer token, \<^verbatim>\<open>RequireScope\<close> lets a message pass exactly when
  the scope is among those that \<^verbatim>\<open>GrantedScopes\<close> reads from the claims, which a handler may ask itself,
  and answers forbidden otherwise; this needs scopes without white space in an array of them.\<close>

theorem scope_gate:
  assumes "PrincipalFromContext c = Some (principalFromClaims cl cfg)"
    and "distinct (map fst cl)" and "list_all cleanField (GrantedScopes cl)"
  shows "RequireScope scope c nx s =
    (if scope \<in> set (stringOrArray (map_of cl ''scope'')) \<union> set (stringOrArray (map_of cl ''scp'')) then nx c s
     else (Return None, setResult (ResultAny (failed StatusForbidden [''caller is not authorized''])) s))"
proof -
  have "set (GrantedScopes cl) = set (stringOrArray (map_of cl ''scope'')) \<union> set (stringOrArray (map_of cl ''scp''))"
    by (simp add: GrantedScopes_def)
  then show ?thesis
    using assms(1) claims_scopes [OF assms(2,3), of cfg]
    by (auto simp: RequireScope_def Authorize_def list_ex_iff)
qed

definition scopedClaims :: claims where
  "scopedClaims = [(''scope'', JStr ''orders:read orders:write''), (''scp'', JArr [JStr ''admin'', JNull])]"

theorem scope_gate_witness:
  "\<forall>s. RequireScope ''admin'' (ContextWithPrincipal background (principalFromClaims scopedClaims (bearerDefaults :: (nat, unit) bearerConfig)))
      (\<lambda>c s. (Return None, s)) (s :: (nat, unit) st) = (Return None, s)"
proof
  fix s :: "(nat, unit) st"
  let ?cfg = "bearerDefaults :: (nat, unit) bearerConfig"
  let ?c = "ContextWithPrincipal background (principalFromClaims scopedClaims ?cfg)"
  have p: "PrincipalFromContext ?c = Some (principalFromClaims scopedClaims ?cfg)"
    by (simp add: PrincipalFromContext_def ContextWithPrincipal_def)
  have d: "distinct (map fst scopedClaims)" by code_simp
  have g: "set (GrantedScopes scopedClaims) =
      set (stringOrArray (map_of scopedClaims ''scope'') @ stringOrArray (map_of scopedClaims ''scp''))"
    by (simp add: GrantedScopes_def)
  have "list_all asciiWord [''orders:read'', ''orders:write'']" by code_simp
  then have w: "list_all cleanField [''orders:read'', ''orders:write'']" "cleanField ''admin''"
    by (simp_all add: asciiWord_clean) (simp add: asciiWord_clean asciiWord_def)
  have "stringOrArray (map_of scopedClaims ''scope'') = [''orders:read'', ''orders:write'']"
    using goFields_join [OF w(1)] by (simp add: scopedClaims_def stringOrArray_def)
  moreover have "stringOrArray (map_of scopedClaims ''scp'') = [''admin'']"
    by (simp add: scopedClaims_def stringOrArray_def)
  ultimately have clean: "list_all cleanField (GrantedScopes scopedClaims)"
    unfolding list_all_iff g using w by (simp add: list_all_iff)
  have "''admin'' \<in> set (stringOrArray (map_of scopedClaims ''scp''))" by code_simp
  with scope_gate [OF p d clean, of "''admin''" "\<lambda>c s. (Return None, s)" s]
  show "RequireScope ''admin'' ?c (\<lambda>c s. (Return None, s)) s = (Return None, s)" by simp
qed

text \<open>
  Without that: a single scope that contains a blank passes as two others, neither of which
  \<^verbatim>\<open>GrantedScopes\<close> has.
\<close>

lemma blank_in_scope_grants_more:
  "GrantedScopes [(''scp'', JArr [JStr ''read write''])] = [''read write'']"
  "list_ex (\<lambda>s. s = ''write'') (goFields (fst (principalClaim
     (principalFromClaims [(''scp'', JArr [JStr ''read write''])] cfg) ''scope'')))"
proof -
  show g: "GrantedScopes [(''scp'', JArr [JStr ''read write''])] = [''read write'']"
    by (simp add: GrantedScopes_def stringOrArray_def)
  have "asciiWord ''read''" "asciiWord ''write''" by (simp_all add: asciiWord_def)
  then have "list_all cleanField [''read'', ''write'']" using asciiWord_clean by simp
  from goFields_join [OF this] have f: "goFields ''read write'' = [''read'', ''write'']" by simp
  have "fst (principalClaim (principalFromClaims [(''scp'', JArr [JStr ''read write''])] cfg) ''scope'') = ''read write''"
    unfolding principalFromClaims_def g by (simp add: principalClaim_def Let_def goIndex_def)
  with f show "list_ex (\<lambda>s. s = ''write'') (goFields (fst (principalClaim
     (principalFromClaims [(''scp'', JArr [JStr ''read write''])] cfg) ''scope'')))" by simp
qed

end
