(* ===== verification/Batch.thy ===== *)
theory Batch
  imports Envelope WireJson Base64
begin

text \<open>
  What the bindings of batches of messages share: the decoding of events with \<^verbatim>\<open>encoding/json\<close>, the
  dispatch of one message through a settlement, and two interfaces. \<open>queue_settlement\<close> is a loop that
  dispatches every message of a batch and reports on each by itself; \<open>stream_settlement\<close> is one that
  stops at the first message its settlement does not acknowledge.
\<close>

section \<open>Decoding\<close>

fun decodeElemsWith :: "'a decoder \<Rightarrow> 'a \<Rightarrow> json list \<Rightarrow> 'a list \<Rightarrow> ('a \<times> bool) list" where
  "decodeElemsWith d zero [] old = []"
| "decodeElemsWith d zero (j # js) [] = d j zero # decodeElemsWith d zero js []"
| "decodeElemsWith d zero (j # js) (p # ps) = d j p # decodeElemsWith d zero js ps"

fun decodeSlice :: "'a decoder \<Rightarrow> 'a \<Rightarrow> 'a list decoder" where
  "decodeSlice d zero (JArr js) old =
    (map fst (decodeElemsWith d zero js old), list_all Product_Type.snd (decodeElemsWith d zero js old))"
| "decodeSlice d zero JNull old = ([], True)"
| "decodeSlice d zero _ old = (old, False)"

text \<open>A value of a map decodes into a fresh zero value.\<close>

fun decodeMapOf :: "'a decoder \<Rightarrow> 'a \<Rightarrow> (string \<times> 'a) list decoder" where
  "decodeMapOf d zero (JObj ms) old =
    (fold (\<lambda>(k, j) m. AList.update k (fst (d j zero)) m) ms old, list_all (\<lambda>(k, j). Product_Type.snd (d j zero)) ms)"
| "decodeMapOf d zero JNull old = ([], True)"
| "decodeMapOf d zero _ old = (old, False)"

definition decodePtr :: "'a decoder \<Rightarrow> 'a \<Rightarrow> 'a option decoder" where
  "decodePtr d zero j old = (if j = JNull then (None, True)
     else (case d j (case old of None \<Rightarrow> zero | Some a \<Rightarrow> a) of (a, ok) \<Rightarrow> (Some a, ok)))"

fun decodeInt :: "int decoder" where
  "decodeInt (JNum n) old = (case parseInt n of Some i \<Rightarrow> (i, True) | None \<Rightarrow> (old, False))"
| "decodeInt JNull old = (old, True)"
| "decodeInt _ old = (old, False)"

text \<open>A struct with one string field, as that string.\<close>

definition decodeWrapped :: "string \<Rightarrow> string decoder" where
  "decodeWrapped f = decodeStruct [f] (\<lambda>_. into (\<lambda>g. g) (\<lambda>s. s) decodeString)"

text \<open>An error of \<^verbatim>\<open>json.Unmarshal\<close> with the words of the binding before it.\<close>

definition malformed :: "string \<Rightarrow> (string \<Rightarrow> goerr) \<Rightarrow> string \<Rightarrow> goerr" where
  "malformed what jsonError event =
    ErrWrap (what @ '': '' @ errorText (jsonError event)) [jsonError event]"

section \<open>Dispatching one message\<close>

text \<open>The clock and the world between two messages.\<close>

type_synonym 'w world = "int \<times> 'w"

definition deliver ::
  "settlement \<Rightarrow> 'v marshaller \<Rightarrow> ('v, 'w) middleware list option \<Rightarrow> ctx \<Rightarrow> request \<Rightarrow> 'w world \<Rightarrow>
   settledOutcome outcome \<times> 'w world" where
  "deliver sm marshal pipeline c req x =
    (case Settlement_Dispatch sm marshal pipeline c req (fst x) (Product_Type.snd x) of (o1, s) \<Rightarrow> (o1, clock s, env s))"

definition mergeHeaders :: "headers \<Rightarrow> headers \<Rightarrow> headers" where
  "mergeHeaders extra hs = fold (\<lambda>(k, v) m. AList.update k v m) extra hs"

text \<open>The topic of the metadata, or else of an envelope in the body.\<close>

definition attributesOrEnvelope :: "string \<Rightarrow> headers \<Rightarrow> string \<Rightarrow> request" where
  "attributesOrEnvelope topicKey metadata body =
    (case ResolveMetadataTopic metadata topicKey of (topic, hs) \<Rightarrow>
      if topic \<noteq> '''' then \<lparr>rq_Topic = topic, rq_Headers = hs, rq_Body = body\<rparr>
      else (case UnmarshalRequest body of (req, ok) \<Rightarrow>
        if ok \<and> rq_Topic req \<noteq> '''' then
          \<lparr>rq_Topic = rq_Topic req, rq_Headers = mergeHeaders (rq_Headers req) hs, rq_Body = rq_Body req\<rparr>
        else \<lparr>rq_Topic = '''', rq_Headers = hs, rq_Body = body\<rparr>))"

text \<open>The options of a binding.\<close>

type_synonym settlementOption = "settlement \<Rightarrow> settlement"

definition WithSettlement :: "settlement \<Rightarrow> settlementOption" where
  "WithSettlement sm s = sm"

definition zeroSettlement :: settlement where
  "zeroSettlement = \<lparr>sm_Delivery = BindingDefault, IgnoreUnmatchedTopics = False\<rparr>"

definition newOptions :: "settlementOption list \<Rightarrow> settlement" where
  "newOptions opts = fold (\<lambda>opt s. opt s) opts zeroSettlement"

section \<open>The interfaces\<close>

text \<open>Every message of a batch, one after the other, and what each came to.\<close>

fun settleEach :: "('r \<Rightarrow> 'x \<Rightarrow> 'o outcome \<times> 'x) \<Rightarrow> 'r list \<Rightarrow> 'x \<Rightarrow> 'o list outcome \<times> 'x" where
  "settleEach settle1 [] x = (Return [], x)"
| "settleEach settle1 (r # rs) x = andThen (settle1 r x) (\<lambda>o1 x1.
     andThen (settleEach settle1 rs x1) (\<lambda>os x2. (Return (o1 # os), x2)))"

definition reports :: "('r \<Rightarrow> 'o \<Rightarrow> 'i option) \<Rightarrow> 'r list \<Rightarrow> 'o list \<Rightarrow> 'i list" where
  "reports report rs os = List.map_filter (\<lambda>(r, o1). report r o1) (zip rs os)"

lemma reports_simps [simp]:
  "reports report [] os = []"
  "reports report (r # rs) (o1 # os) =
    (case report r o1 of None \<Rightarrow> reports report rs os | Some i \<Rightarrow> i # reports report rs os)"
  by (simp_all add: reports_def List.map_filter_simps split: option.split)

lemma settleEach_length: "settleEach settle1 rs x = (Return os, x') \<Longrightarrow> length os = length rs"
proof (induction rs arbitrary: x os)
  case (Cons r rs)
  then show ?case by (auto simp: andThen_def split: prod.splits outcome.splits)
qed simp

locale queue_settlement =
  fixes loop :: "'r list \<Rightarrow> 'x \<Rightarrow> 'i list outcome \<times> 'x"
    and settle1 :: "'r \<Rightarrow> 'x \<Rightarrow> 'o outcome \<times> 'x"
    and report :: "'r \<Rightarrow> 'o \<Rightarrow> 'i option"
  assumes loop_Nil: "loop [] x = (Return [], x)"
    and loop_Cons: "loop (r # rs) x = andThen (settle1 r x) (\<lambda>o1 x1. andThen (loop rs x1)
      (\<lambda>is x2. (Return (case report r o1 of None \<Rightarrow> is | Some i \<Rightarrow> i # is), x2)))"
begin

text \<open>The loop settles each message once, in order, and its report is that of each by itself.\<close>

lemma loop_reports: "loop rs x = andThen (settleEach settle1 rs x) (\<lambda>os x'. (Return (reports report rs os), x'))"
proof (induction rs arbitrary: x)
  case Nil
  then show ?case by (simp add: loop_Nil)
next
  case (Cons r rs)
  show ?case
    by (simp add: loop_Cons Cons andThen_def split: prod.splits outcome.splits option.splits)
qed

end

text \<open>The messages before the first that is not acknowledged.\<close>

fun acknowledgedRun ::
  "('r \<Rightarrow> 'x \<Rightarrow> bool outcome \<times> 'x) \<Rightarrow> 'r list \<Rightarrow> 'x \<Rightarrow> 'x \<Rightarrow> bool" where
  "acknowledgedRun settle1 [] x y \<longleftrightarrow> x = y"
| "acknowledgedRun settle1 (r # rs) x y \<longleftrightarrow>
     (case settle1 r x of (Return True, x1) \<Rightarrow> acknowledgedRun settle1 rs x1 y | _ \<Rightarrow> False)"

text \<open>Where a run stops: what was acknowledged before, the message that was not, and the rest.\<close>

definition stopsAt ::
  "('r \<Rightarrow> 'x \<Rightarrow> bool outcome \<times> 'x) \<Rightarrow> 'r list \<Rightarrow> 'x \<Rightarrow> 'r \<Rightarrow> 'x \<Rightarrow> bool" where
  "stopsAt settle1 rs x r y \<longleftrightarrow> (\<exists>before rest x1. rs = before @ r # rest \<and> acknowledgedRun settle1 before x x1 \<and>
     settle1 r x1 = (Return False, y))"

lemma stopsAt_Nil: "\<not> stopsAt settle1 [] x r y"
  by (simp add: stopsAt_def)

lemma stopsAt_Cons:
  "stopsAt settle1 (a # rs) x r y \<longleftrightarrow>
    (settle1 a x = (Return False, y) \<and> r = a) \<or> (\<exists>x1. settle1 a x = (Return True, x1) \<and> stopsAt settle1 rs x1 r y)"
  (is "?l \<longleftrightarrow> ?r")
proof
  assume ?l
  then obtain before rest x1 where b: "a # rs = before @ r # rest" "acknowledgedRun settle1 before x x1"
      "settle1 r x1 = (Return False, y)"
    unfolding stopsAt_def by blast
  show ?r
  proof (cases before)
    case Nil
    with b show ?thesis by simp
  next
    case (Cons a' before')
    with b obtain x2 where "settle1 a x = (Return True, x2)" "acknowledgedRun settle1 before' x2 x1"
      by (auto split: prod.splits outcome.splits bool.splits)
    with b(1,3) Cons show ?thesis unfolding stopsAt_def by auto
  qed
next
  assume ?r
  then show ?l
  proof (elim disjE exE conjE)
    assume "settle1 a x = (Return False, y)" "r = a"
    then have "a # rs = [] @ r # rs \<and> acknowledgedRun settle1 [] x x \<and> settle1 r x = (Return False, y)" by simp
    then show ?l unfolding stopsAt_def by blast
  next
    fix x1
    assume a: "settle1 a x = (Return True, x1)" "stopsAt settle1 rs x1 r y"
    then obtain before rest x2 where "rs = before @ r # rest" "acknowledgedRun settle1 before x1 x2"
        "settle1 r x2 = (Return False, y)"
      unfolding stopsAt_def by blast
    with a(1) have "a # rs = (a # before) @ r # rest \<and> acknowledgedRun settle1 (a # before) x x2 \<and>
        settle1 r x2 = (Return False, y)" by simp
    then show ?l unfolding stopsAt_def by blast
  qed
qed

locale stream_settlement =
  fixes loop :: "'r list \<Rightarrow> 'x \<Rightarrow> 'i option outcome \<times> 'x"
    and settle1 :: "'r \<Rightarrow> 'x \<Rightarrow> bool outcome \<times> 'x"
    and ident :: "'r \<Rightarrow> 'i"
  assumes loop_Nil: "loop [] x = (Return None, x)"
    and loop_Cons: "loop (r # rs) x =
      andThen (settle1 r x) (\<lambda>ack x1. if ack then loop rs x1 else (Return (Some (ident r)), x1))"
begin

lemma loop_None: "loop rs x = (Return None, y) \<longleftrightarrow> acknowledgedRun settle1 rs x y"
proof (induction rs arbitrary: x)
  case Nil
  then show ?case by (simp add: loop_Nil)
next
  case (Cons r rs)
  show ?case
    by (auto simp: loop_Cons Cons andThen_def split: prod.splits outcome.splits bool.splits)
qed

text \<open>What is reported is the first message not acknowledged; none after it was touched.\<close>

lemma loop_Some: "loop rs x = (Return (Some i), y) \<longleftrightarrow> (\<exists>r. stopsAt settle1 rs x r y \<and> i = ident r)"
proof (induction rs arbitrary: x)
  case Nil
  then show ?case by (simp add: loop_Nil stopsAt_Nil)
next
  case (Cons r rs)
  obtain o1 x1 where s: "settle1 r x = (o1, x1)" by (rule prod.exhaust)
  show ?case
  proof (cases o1)
    case (Panic m)
    with s show ?thesis by (simp add: loop_Cons stopsAt_Cons)
  next
    case (Return ack)
    with s Cons [of x1] show ?thesis by (cases ack) (auto simp: loop_Cons stopsAt_Cons)
  qed
qed

end

end
