(* ===== verification/Lambda.thy ===== *)
theory Lambda
  imports Batch
begin

text \<open>
  AWS Lambda functions: the envelope entry points (\<^verbatim>\<open>awslambda/envelope.go\<close>), and those behind an SQS
  queue (\<^verbatim>\<open>awssqs/sqs.go\<close>), an SNS topic (\<^verbatim>\<open>awssns/sns.go\<close>) and S3 notifications (\<^verbatim>\<open>awss3/s3.go\<close>).
  A handler takes the event of the invocation and returns its response or a Go error, which makes
  Lambda retry. \<open>jsonError\<close> is the error of \<^verbatim>\<open>json.Unmarshal\<close> for a text it refuses. The builder is its
  pipeline and its reserved names.
\<close>

section \<open>Envelopes (awslambda/envelope.go)\<close>

type_synonym ('v, 'w) lambdaHandler = "ctx \<Rightarrow> string \<Rightarrow> 'w world \<Rightarrow> (goerr + string) outcome \<times> 'w world"

definition responseText :: "response \<Rightarrow> string" where
  "responseText resp = MarshalResponse False resp"

definition EnvelopeHandler ::
  "(string \<Rightarrow> goerr) \<Rightarrow> 'v marshaller \<Rightarrow> ('v, 'w) middleware list option \<Rightarrow> ('v, 'w) lambdaHandler" where
  "EnvelopeHandler jsonError marshal pipeline c event x =
    (case UnmarshalRequest event of
       (_, False) \<Rightarrow> (Return (Inl (malformed ''awslambda: malformed envelope'' jsonError event)), x)
     | (req, True) \<Rightarrow> (case Dispatch marshal pipeline c req (fst x) (Product_Type.snd x) of
         (o1, s) \<Rightarrow> (map_outcome (\<lambda>resp. Inr (responseText resp)) o1, clock s, env s)))"

definition AsyncEnvelopeHandler ::
  "(string \<Rightarrow> goerr) \<Rightarrow> 'v marshaller \<Rightarrow> ('v, 'w) middleware list option \<Rightarrow> settlementOption list \<Rightarrow>
   ('v, 'w) lambdaHandler" where
  "AsyncEnvelopeHandler jsonError marshal pipeline opts c event x =
    (case UnmarshalRequest event of
       (_, False) \<Rightarrow> (Return (Inl (malformed ''awslambda: malformed envelope'' jsonError event)), x)
     | (req, True) \<Rightarrow> andThen (deliver (newOptions opts) marshal pipeline c req x) (\<lambda>o1 x1.
         (Return (if \<not> oc_Acknowledge o1 then
             Inl (ErrNew (''awslambda: envelope for topic '' @ goQuote (rq_Topic req) @ '' was not successful ('' @
               rs_StatusCode (oc_Response o1) @ '')''))
           else Inr (responseText (oc_Response o1))), x1)))"

section \<open>SQS (awssqs/sqs.go)\<close>

record sqsRecord =
  sq_MessageID :: string
  sq_Body :: string
  sq_MessageAttributes :: headers

definition sqsRecordField :: "string \<Rightarrow> sqsRecord decoder" where
  "sqsRecordField f =
    (if f = ''messageId'' then into sq_MessageID_update sq_MessageID decodeString
     else if f = ''body'' then into sq_Body_update sq_Body decodeString
     else into sq_MessageAttributes_update sq_MessageAttributes (decodeMapOf (decodeWrapped ''stringValue'') ''''))"

definition sqsEvent :: "string \<Rightarrow> sqsRecord list \<times> bool" where
  "sqsEvent event = unmarshal (decodeStruct [''Records''] (\<lambda>_. into (\<lambda>g. g) (\<lambda>rs. rs)
     (decodeSlice (decodeStruct [''messageId'', ''body'', ''messageAttributes''] sqsRecordField)
       \<lparr>sq_MessageID = '''', sq_Body = '''', sq_MessageAttributes = []\<rparr>))) [] event"

text \<open>A nil slice of failures is written as null.\<close>

definition sqsBatchResponse :: "string list \<Rightarrow> string" where
  "sqsBatchResponse failures = jprint (JObj [(''batchItemFailures'',
     if failures = [] then JNull else JArr (map (\<lambda>i. JObj [(''itemIdentifier'', JStr i)]) failures))])"

definition sqs_resolveRequest :: "sqsRecord \<Rightarrow> string \<Rightarrow> request" where
  "sqs_resolveRequest record topicKey =
    attributesOrEnvelope topicKey (sq_MessageAttributes record) (sq_Body record)"

fun sqsLoop :: "(request \<Rightarrow> 'x \<Rightarrow> settledOutcome outcome \<times> 'x) \<Rightarrow> string \<Rightarrow> sqsRecord list \<Rightarrow> 'x \<Rightarrow>
  string list outcome \<times> 'x" where
  "sqsLoop send topicKey [] x = (Return [], x)"
| "sqsLoop send topicKey (record # records) x =
    andThen (send (sqs_resolveRequest record topicKey) x) (\<lambda>o1 x1.
    andThen (sqsLoop send topicKey records x1) (\<lambda>failures x2.
      (Return (if \<not> oc_Acknowledge o1 then sq_MessageID record # failures else failures), x2)))"

definition SqsHandler ::
  "(string \<Rightarrow> goerr) \<Rightarrow> 'v marshaller \<Rightarrow> ('v, 'w) middleware list option \<Rightarrow> reserved_names \<Rightarrow>
   settlementOption list \<Rightarrow> ('v, 'w) lambdaHandler" where
  "SqsHandler jsonError marshal pipeline names opts c event x =
    (case sqsEvent event of
       (_, False) \<Rightarrow> (Return (Inl (malformed ''awssqs: malformed SQS event'' jsonError event)), x)
     | (records, True) \<Rightarrow>
         andThen (sqsLoop (deliver (newOptions opts) marshal pipeline c) (names_Topic names) records x)
           (\<lambda>failures x1. (Return (Inr (sqsBatchResponse failures)), x1)))"

section \<open>SNS (awssns/sns.go)\<close>

record snsMessage =
  sn_MessageID :: string
  sn_Message :: string
  sn_MessageAttributes :: headers

definition zeroSnsMessage :: snsMessage where
  "zeroSnsMessage = \<lparr>sn_MessageID = '''', sn_Message = '''', sn_MessageAttributes = []\<rparr>"

definition snsMessageField :: "string \<Rightarrow> snsMessage decoder" where
  "snsMessageField f =
    (if f = ''MessageId'' then into sn_MessageID_update sn_MessageID decodeString
     else if f = ''Message'' then into sn_Message_update sn_Message decodeString
     else into sn_MessageAttributes_update sn_MessageAttributes (decodeMapOf (decodeWrapped ''Value'') ''''))"

text \<open>A record is its one member.\<close>

definition decodeSnsRecord :: "snsMessage decoder" where
  "decodeSnsRecord = decodeStruct [''Sns''] (\<lambda>_. into (\<lambda>g. g) (\<lambda>m. m)
     (decodeStruct [''MessageId'', ''Message'', ''MessageAttributes''] snsMessageField))"

definition snsEvent :: "string \<Rightarrow> snsMessage list \<times> bool" where
  "snsEvent event = unmarshal (decodeStruct [''Records''] (\<lambda>_. into (\<lambda>g. g) (\<lambda>rs. rs)
     (decodeSlice decodeSnsRecord zeroSnsMessage))) [] event"

definition sns_resolveRequest :: "snsMessage \<Rightarrow> string \<Rightarrow> request" where
  "sns_resolveRequest m topicKey = attributesOrEnvelope topicKey (sn_MessageAttributes m) (sn_Message m)"

fun snsLoop :: "(request \<Rightarrow> 'x \<Rightarrow> settledOutcome outcome \<times> 'x) \<Rightarrow> string \<Rightarrow> snsMessage list \<Rightarrow> 'x \<Rightarrow>
  string list outcome \<times> 'x" where
  "snsLoop send topicKey [] x = (Return [], x)"
| "snsLoop send topicKey (m # ms) x =
    andThen (send (sns_resolveRequest m topicKey) x) (\<lambda>o1 x1.
    andThen (snsLoop send topicKey ms x1) (\<lambda>failures x2.
      (Return (if \<not> oc_Acknowledge o1
        then (sn_MessageID m @ '': '' @ rs_StatusCode (oc_Response o1)) # failures else failures), x2)))"

definition SnsHandler ::
  "(string \<Rightarrow> goerr) \<Rightarrow> 'v marshaller \<Rightarrow> ('v, 'w) middleware list option \<Rightarrow> reserved_names \<Rightarrow>
   settlementOption list \<Rightarrow> ('v, 'w) lambdaHandler" where
  "SnsHandler jsonError marshal pipeline names opts c event x =
    (case snsEvent event of
       (_, False) \<Rightarrow> (Return (Inl (malformed ''awssns: malformed SNS event'' jsonError event)), x)
     | (messages, True) \<Rightarrow>
         andThen (snsLoop (deliver (newOptions opts) marshal pipeline c) (names_Topic names) messages x)
           (\<lambda>failures x1. (Return (if failures \<noteq> [] then
               Inl (ErrNew (''awssns: '' @ natText (length failures) @ '' of '' @ natText (length messages) @
                 '' notification(s) failed: '' @ join ''; '' failures))
             else Inr ''{}''), x1)))"

section \<open>S3 (awss3/s3.go)\<close>

record s3Record =
  s3_EventName :: string
  s3_AwsRegion :: string
  s3_Bucket :: string
  s3_Key :: string
  s3_Size :: int
  s3_ETag :: string

definition zeroS3Record :: s3Record where
  "zeroS3Record = \<lparr>s3_EventName = '''', s3_AwsRegion = '''', s3_Bucket = '''', s3_Key = '''', s3_Size = 0, s3_ETag = ''''\<rparr>"

definition s3ObjectField :: "string \<Rightarrow> s3Record decoder" where
  "s3ObjectField f =
    (if f = ''key'' then into s3_Key_update s3_Key decodeString
     else if f = ''size'' then into s3_Size_update s3_Size decodeInt
     else into s3_ETag_update s3_ETag decodeString)"

definition s3EntityField :: "string \<Rightarrow> s3Record decoder" where
  "s3EntityField f =
    (if f = ''bucket'' then decodeStruct [''name''] (\<lambda>_. into s3_Bucket_update s3_Bucket decodeString)
     else decodeStruct [''key'', ''size'', ''eTag''] s3ObjectField)"

text \<open>The event source is decoded, as a string, and not used.\<close>

definition s3RecordField :: "string \<Rightarrow> s3Record decoder" where
  "s3RecordField f =
    (if f = ''eventSource'' then (\<lambda>j r. (r, Product_Type.snd (decodeString j '''')))
     else if f = ''eventName'' then into s3_EventName_update s3_EventName decodeString
     else if f = ''awsRegion'' then into s3_AwsRegion_update s3_AwsRegion decodeString
     else decodeStruct [''bucket'', ''object''] s3EntityField)"

definition s3Event :: "string \<Rightarrow> s3Record list \<times> bool" where
  "s3Event event = unmarshal (decodeStruct [''Records''] (\<lambda>_. into (\<lambda>g. g) (\<lambda>rs. rs)
     (decodeSlice (decodeStruct [''eventSource'', ''eventName'', ''awsRegion'', ''s3''] s3RecordField) zeroS3Record))) [] event"

text \<open>\<^verbatim>\<open>url.QueryUnescape\<close>.\<close>

fun queryUnescape :: "string \<Rightarrow> string option" where
  "queryUnescape [] = Some []"
| "queryUnescape (ch # s) =
    (if ch = CHR ''%'' then (case s of
         a # b # rest \<Rightarrow> (case (hexVal a, hexVal b) of
             (Some i, Some j) \<Rightarrow> map_option (\<lambda>t. char_of (16 * i + j) # t) (queryUnescape rest)
           | _ \<Rightarrow> None)
       | _ \<Rightarrow> None)
     else map_option (\<lambda>t. (if ch = CHR ''+'' then CHR '' '' else ch) # t) (queryUnescape s))"

definition decodeKey :: "string \<Rightarrow> string" where
  "decodeKey raw = (case queryUnescape raw of Some decoded \<Rightarrow> decoded | None \<Rightarrow> raw)"

text \<open>A header is added when its value is not empty.\<close>

definition addHeader :: "string \<times> string \<Rightarrow> headers \<Rightarrow> headers" where
  "addHeader kv hs = (if snd kv \<noteq> '''' then AList.update (fst kv) (snd kv) hs else hs)"

definition s3_recordHeaders :: "s3Record \<Rightarrow> string \<Rightarrow> headers" where
  "s3_recordHeaders r key = fold addHeader
     ([(''s3-event-name'', s3_EventName r), (''s3-aws-region'', s3_AwsRegion r), (''s3-bucket'', s3_Bucket r),
       (''s3-key'', key)] @ (if s3_Size r > 0 then [(''s3-size'', intText (s3_Size r))] else []) @
      [(''s3-etag'', s3_ETag r)]) []"

definition s3Notification :: "s3Record \<Rightarrow> string \<Rightarrow> string" where
  "s3Notification r key = jprint (JObj [(''eventName'', JStr (s3_EventName r)), (''awsRegion'', JStr (s3_AwsRegion r)),
     (''bucketName'', JStr (s3_Bucket r)), (''key'', JStr key), (''size'', JNum (intText (s3_Size r))),
     (''etag'', JStr (s3_ETag r))])"

definition s3_resolveRequest :: "s3Record \<Rightarrow> request" where
  "s3_resolveRequest r = (let key = decodeKey (s3_Key r) in
    \<lparr>rq_Topic = (if s3_Bucket r \<noteq> '''' then s3_Bucket r @ '':'' @ s3_EventName r else s3_EventName r),
     rq_Headers = s3_recordHeaders r key, rq_Body = s3Notification r key\<rparr>)"

fun s3Loop :: "(request \<Rightarrow> 'x \<Rightarrow> settledOutcome outcome \<times> 'x) \<Rightarrow> s3Record list \<Rightarrow> 'x \<Rightarrow>
  goerr option outcome \<times> 'x" where
  "s3Loop send [] x = (Return None, x)"
| "s3Loop send (r # rs) x = andThen (send (s3_resolveRequest r) x) (\<lambda>o1 x1.
    if \<not> oc_Acknowledge o1 then
      (Return (Some (ErrNew (''awss3: handling S3 event '' @ goQuote (s3_EventName r) @ '' for '' @ s3_Bucket r @ ''/'' @
        s3_Key r @ '' was not successful ('' @ rs_StatusCode (oc_Response o1) @ '')''))), x1)
    else s3Loop send rs x1)"

text \<open>On success there is no response: the empty text.\<close>

definition S3Handler ::
  "(string \<Rightarrow> goerr) \<Rightarrow> 'v marshaller \<Rightarrow> ('v, 'w) middleware list option \<Rightarrow> settlementOption list \<Rightarrow>
   ('v, 'w) lambdaHandler" where
  "S3Handler jsonError marshal pipeline opts c event x =
    (case s3Event event of
       (_, False) \<Rightarrow> (Return (Inl (malformed ''awss3: malformed S3 event'' jsonError event)), x)
     | (records, True) \<Rightarrow>
         andThen (s3Loop (deliver (newOptions opts) marshal pipeline c) records x)
           (\<lambda>failure x1. (Return (case failure of Some err \<Rightarrow> Inl err | None \<Rightarrow> Inr ''''), x1)))"

section \<open>The interface\<close>

interpretation sqs: queue_settlement "sqsLoop send topicKey" "\<lambda>r. send (sqs_resolveRequest r topicKey)"
  "\<lambda>r o1. if oc_Acknowledge o1 then None else Some (sq_MessageID r)" for send topicKey
  by unfold_locales (simp_all add: andThen_def split: prod.splits outcome.splits)

interpretation sns: queue_settlement "snsLoop send topicKey" "\<lambda>m. send (sns_resolveRequest m topicKey)"
  "\<lambda>m o1. if oc_Acknowledge o1 then None else Some (sn_MessageID m @ '': '' @ rs_StatusCode (oc_Response o1))"
  for send topicKey
  by unfold_locales (simp_all add: andThen_def split: prod.splits outcome.splits)

section \<open>Properties\<close>

text \<open>A dispatch before it is settled: the response, whether it was successful, whether no handler
  serves the topic.\<close>

definition dispatched :: "'v marshaller \<Rightarrow> ('v, 'w) middleware list option \<Rightarrow> ctx \<Rightarrow> request \<Rightarrow> 'w world \<Rightarrow>
  (response \<times> bool \<times> bool) outcome \<times> 'w world" where
  "dispatched marshal pipeline c req x =
    (case envelopeDispatch marshal pipeline c (NewTopic (rq_Topic req)) (rq_Headers req) (rq_Body req)
       (fst x) (Product_Type.snd x) of (o1, s) \<Rightarrow> (o1, clock s, env s))"

definition settledAs :: "settlement \<Rightarrow> response \<times> bool \<times> bool \<Rightarrow> settledOutcome" where
  "settledAs sm = (\<lambda>(resp, successful, isUnmatched). \<lparr>oc_Response = resp, oc_Successful = successful,
     oc_Acknowledge = successful \<or> sm_Delivery sm = AtMostOnce \<or> (IgnoreUnmatchedTopics sm \<and> isUnmatched)\<rparr>)"

lemma deliver_dispatched:
  "deliver sm marshal pipeline c req x =
    andThen (dispatched marshal pipeline c req x) (\<lambda>d x1. (Return (settledAs sm d), x1))"
  by (auto simp: deliver_def dispatched_def settledAs_def Settlement_Dispatch_def Settlement_DispatchTopic_def
      andThen_def split: prod.splits outcome.splits)

lemma settleEach_mapped:
  "settleEach (\<lambda>r x. andThen (f r x) (\<lambda>d x1. (Return (h d), x1))) rs x = (Return os, x') \<Longrightarrow>
    \<exists>ds. settleEach f rs x = (Return ds, x') \<and> os = map h ds"
proof (induction rs arbitrary: x os)
  case (Cons r rs)
  then show ?case
    by (fastforce simp: andThen_def split: prod.splits outcome.splits)
qed simp

lemma reports_filter:
  "length os = length rs \<Longrightarrow> reports (\<lambda>r o1. if ok o1 then None else Some (f r o1)) rs os =
    map (\<lambda>(r, o1). f r o1) (filter (\<lambda>(r, o1). \<not> ok o1) (zip rs os))"
  by (induction rs os rule: list_induct2') auto

text \<open>C13 (safety). A function behind a queue dispatches every message of the batch, in order, whatever
  happens to the others, and its response names as failed exactly the messages its settlement does not
  acknowledge: those whose dispatch was not successful, unless delivery is at most once, or unmatched
  topics are ignored and no handler serves the message's topic. By default these are exactly the
  messages whose dispatch was not successful; at most once, none. The named messages are delivered
  again, all others are deleted from the queue.\<close>

theorem sqs_redelivers_failures:
  assumes "sqsEvent event = (records, True)"
    and "SqsHandler jsonError marshal pipeline names opts c event x = (Return (Inr body), x')"
  shows "\<exists>ds. settleEach (\<lambda>r. dispatched marshal pipeline c (sqs_resolveRequest r (names_Topic names)))
      records x = (Return ds, x') \<and> length ds = length records \<and>
    body = sqsBatchResponse (map (\<lambda>(r, d). sq_MessageID r)
      (filter (\<lambda>(r, (resp, successful, isUnmatched)). \<not> successful \<and>
         sm_Delivery (newOptions opts) \<noteq> AtMostOnce \<and>
         \<not> (IgnoreUnmatchedTopics (newOptions opts) \<and> isUnmatched)) (zip records ds))) \<and>
    (opts = [] \<longrightarrow> body = sqsBatchResponse (map (\<lambda>(r, d). sq_MessageID r)
      (filter (\<lambda>(r, (resp, successful, isUnmatched)). \<not> successful) (zip records ds)))) \<and>
    (sm_Delivery (newOptions opts) = AtMostOnce \<longrightarrow> body = sqsBatchResponse [])"
proof -
  let ?settle = "\<lambda>r. deliver (newOptions opts) marshal pipeline c (sqs_resolveRequest r (names_Topic names))"
  let ?report = "\<lambda>r o1. if oc_Acknowledge o1 then None else Some (sq_MessageID r)"
  obtain os where run: "settleEach ?settle records x = (Return os, x')"
    and body: "body = sqsBatchResponse (reports ?report records os)"
    using assms(2) by (auto simp: SqsHandler_def assms(1) sqs.loop_reports andThen_def
        split: prod.splits outcome.splits)
  then obtain ds where ds: "settleEach (\<lambda>r. dispatched marshal pipeline c
      (sqs_resolveRequest r (names_Topic names))) records x = (Return ds, x')"
    and os: "os = map (settledAs (newOptions opts)) ds"
    using settleEach_mapped [where f = "\<lambda>r. dispatched marshal pipeline c (sqs_resolveRequest r (names_Topic names))",
        OF run [unfolded deliver_dispatched]] by blast
  have len: "length ds = length records" by (rule settleEach_length [OF ds])
  have "filter (\<lambda>(r, o1). \<not> oc_Acknowledge o1) (zip records os) =
      map (\<lambda>(r, d). (r, settledAs (newOptions opts) d))
        (filter (\<lambda>(r, d). \<not> oc_Acknowledge (settledAs (newOptions opts) d)) (zip records ds))"
    unfolding os zip_map2 filter_map by (simp add: comp_def case_prod_unfold)
  then have "body = sqsBatchResponse (map (\<lambda>(r, d). sq_MessageID r)
      (filter (\<lambda>(r, d). \<not> oc_Acknowledge (settledAs (newOptions opts) d)) (zip records ds)))"
    using len reports_filter [of os records oc_Acknowledge "\<lambda>r o1. sq_MessageID r"]
    by (simp add: body os case_prod_unfold comp_def)
  then show ?thesis using ds len
    by (intro exI [of _ ds])
      (auto simp: settledAs_def case_prod_unfold newOptions_def zeroSettlement_def)
qed

definition witnessBatch :: string where
  "witnessBatch = jprint (JObj [(''Records'', JArr [JObj [(''messageId'', JStr ''m1''), (''body'', JStr ''hi'')]])])"

lemma witnessBatch_decoded:
  "sqsEvent witnessBatch = ([\<lparr>sq_MessageID = ''m1'', sq_Body = ''hi'', sq_MessageAttributes = []\<rparr>], True)"
proof -
  have "jvalid (JObj [(''Records'', JArr [JObj [(''messageId'', JStr ''m1''), (''body'', JStr ''hi'')]])])"
    by (simp add: validText_ascii byteIn_def)
  from jparse_jprint [OF this] show ?thesis
    by (simp add: sqsEvent_def unmarshal_def witnessBatch_def decodeStruct_fold memberStep_def into_def sqsRecordField_def)
qed

theorem sqs_redelivers_failures_witness:
  "\<forall>jsonError (marshal :: nat marshaller) names. \<exists>body x'.
    SqsHandler jsonError marshal None names [] background witnessBatch (0, ()) = (Return (Inr body), x') \<and>
    body = sqsBatchResponse [''m1'']"
proof (intro allI)
  fix jsonError and marshal :: "nat marshaller" and names
  let ?r = "\<lparr>sq_MessageID = ''m1'', sq_Body = ''hi'', sq_MessageAttributes = []\<rparr>"
  obtain o1 x1 where d: "deliver zeroSettlement marshal None background (sqs_resolveRequest ?r (names_Topic names)) (0, ()) =
      (Return o1, x1)" "\<not> oc_Acknowledge o1"
    by (auto simp: deliver_def Settlement_Dispatch_def Settlement_DispatchTopic_def envelopeDispatch_def Run_def
        errorResponseOf_def zeroSettlement_def)
  have run: "SqsHandler jsonError marshal None names [] background witnessBatch (0, ()) =
      (Return (Inr (sqsBatchResponse [''m1''])), x1)"
    using d by (simp add: SqsHandler_def witnessBatch_decoded newOptions_def)
  from sqs_redelivers_failures [OF witnessBatch_decoded run] run
  show "\<exists>body x'. SqsHandler jsonError marshal None names [] background witnessBatch (0, ()) = (Return (Inr body), x') \<and>
      body = sqsBatchResponse [''m1'']" by blast
qed

end
