(* ===== verification/Streams.thy ===== *)
theory Streams
  imports Lambda
begin

text \<open>
  AWS Lambda functions behind an ordered stream: Kinesis (\<^verbatim>\<open>awskinesis/kinesis.go\<close>) and Kafka
  (\<^verbatim>\<open>awskafka/kafka.go\<close>). The response of a function is the position at which the stream resumes.
  \<open>floatText\<close> gives, of a number literal, the text that \<^verbatim>\<open>strconv.FormatFloat\<close> writes of its float64, empty
  for zero, and nothing when the literal is out of range; \<open>rangeOrder\<close> is the order in which Go ranges
  over the partitions of an event.
\<close>

section \<open>Kinesis\<close>

record kinesisData =
  kd_PartitionKey :: string
  kd_SequenceNumber :: string
  kd_Data :: string
  kd_Timestamp :: string

record kinesisRecord =
  kr_EventID :: string
  kr_EventName :: string
  kr_EventSource :: string
  kr_EventSourceArn :: string
  kr_AwsRegion :: string
  kr_Kinesis :: "kinesisData option"

definition zeroKinesisData :: kinesisData where
  "zeroKinesisData = \<lparr>kd_PartitionKey = '''', kd_SequenceNumber = '''', kd_Data = '''', kd_Timestamp = ''''\<rparr>"

definition zeroKinesisRecord :: kinesisRecord where
  "zeroKinesisRecord = \<lparr>kr_EventID = '''', kr_EventName = '''', kr_EventSource = '''', kr_EventSourceArn = '''',
     kr_AwsRegion = '''', kr_Kinesis = None\<rparr>"

fun decodeFloat :: "(string \<Rightarrow> string option) \<Rightarrow> string decoder" where
  "decodeFloat floatText (JNum n) old = (case floatText n of Some t \<Rightarrow> (t, True) | None \<Rightarrow> (old, False))"
| "decodeFloat floatText JNull old = (old, True)"
| "decodeFloat floatText _ old = (old, False)"

definition kinesisDataField :: "(string \<Rightarrow> string option) \<Rightarrow> string \<Rightarrow> kinesisData decoder" where
  "kinesisDataField floatText f =
    (if f = ''partitionKey'' then into kd_PartitionKey_update kd_PartitionKey decodeString
     else if f = ''sequenceNumber'' then into kd_SequenceNumber_update kd_SequenceNumber decodeString
     else if f = ''data'' then into kd_Data_update kd_Data decodeString
     else into kd_Timestamp_update kd_Timestamp (decodeFloat floatText))"

definition kinesisRecordField :: "(string \<Rightarrow> string option) \<Rightarrow> string \<Rightarrow> kinesisRecord decoder" where
  "kinesisRecordField floatText f =
    (if f = ''eventID'' then into kr_EventID_update kr_EventID decodeString
     else if f = ''eventName'' then into kr_EventName_update kr_EventName decodeString
     else if f = ''eventSource'' then into kr_EventSource_update kr_EventSource decodeString
     else if f = ''eventSourceARN'' then into kr_EventSourceArn_update kr_EventSourceArn decodeString
     else if f = ''awsRegion'' then into kr_AwsRegion_update kr_AwsRegion decodeString
     else into kr_Kinesis_update kr_Kinesis (decodePtr
       (decodeStruct [''partitionKey'', ''sequenceNumber'', ''data'', ''approximateArrivalTimestamp'']
         (kinesisDataField floatText)) zeroKinesisData))"

definition kinesisEvent :: "(string \<Rightarrow> string option) \<Rightarrow> string \<Rightarrow> kinesisRecord list \<times> bool" where
  "kinesisEvent floatText event = unmarshal (decodeStruct [''Records''] (\<lambda>_. into (\<lambda>g. g) (\<lambda>rs. rs)
     (decodeSlice (decodeStruct [''eventID'', ''eventName'', ''eventSource'', ''eventSourceARN'', ''awsRegion'', ''kinesis'']
       (kinesisRecordField floatText)) zeroKinesisRecord))) [] event"

text \<open>\<^verbatim>\<open>strings.SplitN\<close> at a character.\<close>

fun splitN :: "nat \<Rightarrow> char \<Rightarrow> string \<Rightarrow> string list" where
  "splitN 0 sep s = []"
| "splitN (Suc 0) sep s = [s]"
| "splitN (Suc (Suc n)) sep s = (case indexByte s sep of
      None \<Rightarrow> [s]
    | Some i \<Rightarrow> take i s # splitN (Suc n) sep (drop (Suc i) s))"

definition streamName :: "string \<Rightarrow> string" where
  "streamName eventSourceArn =
    (if eventSourceArn = '''' then ''''
     else (let arnParts = splitN 6 (CHR '':'') eventSourceArn in
       if length arnParts < 6 then ''''
       else (let resourceParts = splitN 2 (CHR ''/'') (arnParts ! 5) in
         if length resourceParts < 2 \<or> resourceParts ! 0 \<noteq> ''stream'' \<or> resourceParts ! 1 = '''' then ''''
         else resourceParts ! 1)))"

definition kinesis_recordHeaders :: "kinesisRecord \<Rightarrow> string \<Rightarrow> headers" where
  "kinesis_recordHeaders r stream = fold addHeader
     ([(''kinesis-event-id'', kr_EventID r), (''kinesis-event-name'', kr_EventName r), (''kinesis-stream'', stream)] @
      (case kr_Kinesis r of None \<Rightarrow> [] | Some d \<Rightarrow>
        [(''kinesis-partition-key'', kd_PartitionKey d), (''kinesis-sequence-number'', kd_SequenceNumber d),
         (''kinesis-approximate-arrival-timestamp'', kd_Timestamp d)]) @
      [(''kinesis-event-source-arn'', kr_EventSourceArn r), (''kinesis-aws-region'', kr_AwsRegion r)]) []"

text \<open>\<open>None\<close> is a record whose data does not decode.\<close>

definition kinesis_resolveRequest :: "kinesisRecord \<Rightarrow> request option" where
  "kinesis_resolveRequest r =
    (let stream = streamName (kr_EventSourceArn r);
         topic = (if stream \<noteq> '''' then stream else kr_EventName r);
         body = (case kr_Kinesis r of None \<Rightarrow> Some ''''
           | Some d \<Rightarrow> if kd_Data d = '''' then Some '''' else stdDecode (kd_Data d)) in
     map_option (\<lambda>b. \<lparr>rq_Topic = topic, rq_Headers = kinesis_recordHeaders r stream, rq_Body = b\<rparr>) body)"

definition kinesis_identifier :: "kinesisRecord \<Rightarrow> string" where
  "kinesis_identifier r = (case kr_Kinesis r of
      Some d \<Rightarrow> if kd_SequenceNumber d \<noteq> '''' then kd_SequenceNumber d else kr_EventID r
    | None \<Rightarrow> kr_EventID r)"

definition streamBatchResponse :: "json list \<Rightarrow> string" where
  "streamBatchResponse failures = jprint (JObj [(''batchItemFailures'', JArr (map (\<lambda>i. JObj [(''itemIdentifier'', i)]) failures))])"

definition kinesis_failAt :: "string \<Rightarrow> string" where
  "kinesis_failAt identifier = streamBatchResponse [JStr identifier]"

fun kinesisLoop ::
  "settlement \<Rightarrow> (request \<Rightarrow> 'x \<Rightarrow> settledOutcome outcome \<times> 'x) \<Rightarrow> kinesisRecord list \<Rightarrow> 'x \<Rightarrow>
   string option outcome \<times> 'x" where
  "kinesisLoop sm send [] x = (Return None, x)"
| "kinesisLoop sm send (r # rs) x = (case kinesis_resolveRequest r of
      None \<Rightarrow>
        if sm_Delivery sm = AtMostOnce then kinesisLoop sm send rs x
        else (Return (Some (kinesis_identifier r)), x)
    | Some req \<Rightarrow> andThen (send req x) (\<lambda>o1 x1.
        if \<not> oc_Acknowledge o1 then (Return (Some (kinesis_identifier r)), x1)
        else kinesisLoop sm send rs x1))"

definition KinesisHandler ::
  "(string \<Rightarrow> goerr) \<Rightarrow> (string \<Rightarrow> string option) \<Rightarrow> 'v marshaller \<Rightarrow> ('v, 'w) middleware list option \<Rightarrow>
   settlementOption list \<Rightarrow> ('v, 'w) lambdaHandler" where
  "KinesisHandler jsonError floatText marshal pipeline opts c event x =
    (case kinesisEvent floatText event of
       (_, False) \<Rightarrow> (Return (Inl (malformed ''awskinesis: malformed Kinesis stream event'' jsonError event)), x)
     | (records, True) \<Rightarrow>
         andThen (kinesisLoop (newOptions opts) (deliver (newOptions opts) marshal pipeline c) records x)
           (\<lambda>failure x1. (Return (Inr (case failure of
               None \<Rightarrow> streamBatchResponse [] | Some identifier \<Rightarrow> kinesis_failAt identifier)), x1)))"

section \<open>Kafka\<close>

record kafkaRecord =
  ka_Topic :: string
  ka_Partition :: int
  ka_Offset :: int
  ka_Timestamp :: int
  ka_Key :: string
  ka_Value :: string
  ka_Headers :: "(string \<times> int list) list list"

definition zeroKafkaRecord :: kafkaRecord where
  "zeroKafkaRecord = \<lparr>ka_Topic = '''', ka_Partition = 0, ka_Offset = 0, ka_Timestamp = 0, ka_Key = '''',
     ka_Value = '''', ka_Headers = []\<rparr>"

definition kafkaRecordField :: "string \<Rightarrow> kafkaRecord decoder" where
  "kafkaRecordField f =
    (if f = ''topic'' then into ka_Topic_update ka_Topic decodeString
     else if f = ''partition'' then into ka_Partition_update ka_Partition decodeInt
     else if f = ''offset'' then into ka_Offset_update ka_Offset decodeInt
     else if f = ''timestamp'' then into ka_Timestamp_update ka_Timestamp decodeInt
     else if f = ''key'' then into ka_Key_update ka_Key decodeString
     else if f = ''value'' then into ka_Value_update ka_Value decodeString
     else into ka_Headers_update ka_Headers (decodeSlice (decodeMapOf (decodeSlice decodeInt 0) []) []))"

definition kafkaEventField :: "string \<Rightarrow> (string \<times> kafkaRecord list) list decoder" where
  "kafkaEventField f =
    (if f = ''eventSource'' then (\<lambda>j m. (m, snd (decodeString j '''')))
     else into (\<lambda>g. g) (\<lambda>m. m) (decodeMapOf (decodeSlice
       (decodeStruct [''topic'', ''partition'', ''offset'', ''timestamp'', ''key'', ''value'', ''headers'']
         kafkaRecordField) zeroKafkaRecord) []))"

definition kafkaEvent :: "string \<Rightarrow> (string \<times> kafkaRecord list) list \<times> bool" where
  "kafkaEvent event = unmarshal (decodeStruct [''eventSource'', ''records''] kafkaEventField) [] event"

definition bytesFromInts :: "int list \<Rightarrow> string" where
  "bytesFromInts vs = map (\<lambda>v. char_of (nat (v mod 256))) vs"

definition kafka_recordHeaders :: "kafkaRecord \<Rightarrow> headers" where
  "kafka_recordHeaders r =
     fold (\<lambda>headerMap hs. fold (\<lambda>(name, v) hs. AList.update name (bytesFromInts v) hs) headerMap hs) (ka_Headers r) []"

definition kafka_resolveRequest :: "kafkaRecord \<Rightarrow> string \<Rightarrow> request option" where
  "kafka_resolveRequest r topicKey = (case stdDecode (ka_Value r) of
      None \<Rightarrow> None
    | Some v \<Rightarrow> (case ResolveMetadataTopic (kafka_recordHeaders r) topicKey of (topic, hs) \<Rightarrow>
        Some \<lparr>rq_Topic = (if topic = '''' then ka_Topic r else topic), rq_Headers = hs, rq_Body = v\<rparr>))"

text \<open>One partition: the offset of its failure, if any.\<close>

fun partitionLoop ::
  "settlement \<Rightarrow> (request \<Rightarrow> 'x \<Rightarrow> settledOutcome outcome \<times> 'x) \<Rightarrow> string \<Rightarrow> kafkaRecord list \<Rightarrow> 'x \<Rightarrow>
   int option outcome \<times> 'x" where
  "partitionLoop sm send topicKey [] x = (Return None, x)"
| "partitionLoop sm send topicKey (r # rs) x = (case kafka_resolveRequest r topicKey of
      None \<Rightarrow>
        if sm_Delivery sm = AtMostOnce then partitionLoop sm send topicKey rs x
        else (Return (Some (ka_Offset r)), x)
    | Some req \<Rightarrow> andThen (send req x) (\<lambda>o1 x1.
        if \<not> oc_Acknowledge o1 then (Return (Some (ka_Offset r)), x1)
        else partitionLoop sm send topicKey rs x1))"

fun kafkaLoop ::
  "settlement \<Rightarrow> (request \<Rightarrow> 'x \<Rightarrow> settledOutcome outcome \<times> 'x) \<Rightarrow> string \<Rightarrow> (string \<times> kafkaRecord list) list \<Rightarrow> 'x \<Rightarrow>
   (string \<times> int) list outcome \<times> 'x" where
  "kafkaLoop sm send topicKey [] x = (Return [], x)"
| "kafkaLoop sm send topicKey ((partitionKey, records) # partitions) x =
    andThen (partitionLoop sm send topicKey (sort_key ka_Offset records) x) (\<lambda>failure x1.
    andThen (kafkaLoop sm send topicKey partitions x1) (\<lambda>failures x2.
      (Return (case failure of None \<Rightarrow> failures | Some offset \<Rightarrow> (partitionKey, offset) # failures), x2)))"

definition kafkaIdentifier :: "string \<times> int \<Rightarrow> json" where
  "kafkaIdentifier failure = JObj [(''partition'', JStr (fst failure)), (''offset'', JNum (intText (snd failure)))]"

definition KafkaHandler ::
  "(string \<Rightarrow> goerr) \<Rightarrow> ((string \<times> kafkaRecord list) list \<Rightarrow> (string \<times> kafkaRecord list) list) \<Rightarrow> 'v marshaller \<Rightarrow>
   ('v, 'w) middleware list option \<Rightarrow> reserved_names \<Rightarrow> settlementOption list \<Rightarrow> ('v, 'w) lambdaHandler" where
  "KafkaHandler jsonError rangeOrder marshal pipeline names opts c event x =
    (case kafkaEvent event of
       (_, False) \<Rightarrow> (Return (Inl (malformed ''awskafka: malformed Kafka event'' jsonError event)), x)
     | (partitions, True) \<Rightarrow>
         andThen (kafkaLoop (newOptions opts) (deliver (newOptions opts) marshal pipeline c) (names_Topic names)
             (rangeOrder partitions) x)
           (\<lambda>failures x1. (Return (Inr (streamBatchResponse (map kafkaIdentifier failures))), x1)))"

section \<open>The interface\<close>

text \<open>One record: acknowledged by its settlement, or a poison record of a service that drops them.\<close>

definition settleRecord ::
  "settlement \<Rightarrow> (request \<Rightarrow> 'x \<Rightarrow> settledOutcome outcome \<times> 'x) \<Rightarrow> request option \<Rightarrow> 'x \<Rightarrow> bool outcome \<times> 'x" where
  "settleRecord sm send req x = (case req of
      None \<Rightarrow> (Return (sm_Delivery sm = AtMostOnce), x)
    | Some r \<Rightarrow> andThen (send r x) (\<lambda>o1 x1. (Return (oc_Acknowledge o1), x1)))"

interpretation kinesis: stream_settlement "kinesisLoop sm send" "\<lambda>r. settleRecord sm send (kinesis_resolveRequest r)"
  kinesis_identifier for sm send
  by unfold_locales (auto simp: settleRecord_def andThen_def split: option.splits prod.splits outcome.splits)

interpretation partition_stream: stream_settlement "partitionLoop sm send topicKey"
  "\<lambda>r. settleRecord sm send (kafka_resolveRequest r topicKey)" ka_Offset for sm send topicKey
  by unfold_locales (auto simp: settleRecord_def andThen_def split: option.splits prod.splits outcome.splits)

interpretation s3: stream_settlement "\<lambda>rs x. map_prod (map_outcome (map_option (\<lambda>_. ()))) (\<lambda>x. x) (s3Loop send rs x)"
  "\<lambda>r. settleRecord sm send (Some (s3_resolveRequest r))" "\<lambda>_. ()" for sm send
  by unfold_locales (auto simp: settleRecord_def andThen_def split: option.splits prod.splits outcome.splits)

interpretation kafka: queue_settlement "kafkaLoop sm send topicKey"
  "\<lambda>p. partitionLoop sm send topicKey (sort_key ka_Offset (snd p))"
  "\<lambda>p failure. map_option (Pair (fst p)) failure" for sm send topicKey
  by unfold_locales (auto simp: andThen_def split: option.splits prod.splits outcome.splits)

section \<open>Properties\<close>

text \<open>C12 (safety). A function behind an ordered stream never lets the stream move past a record that did
  not get settled: every record before the one whose sequence number the response reports was
  acknowledged, this one was not, or could not be decoded, and no record after it was dispatched; when
  the response reports none, every record of the batch was acknowledged.\<close>

theorem kinesis_never_skips:
  assumes "kinesisEvent floatText event = (records, True)"
    and "KinesisHandler jsonError floatText marshal pipeline opts c event x = (Return (Inr body), x')"
    and "settle = (\<lambda>r. settleRecord (newOptions opts) (deliver (newOptions opts) marshal pipeline c) (kinesis_resolveRequest r))"
  shows "(body = streamBatchResponse [] \<and> acknowledgedRun settle records x x') \<or>
    (\<exists>r. body = kinesis_failAt (kinesis_identifier r) \<and> stopsAt settle records x r x')"
proof -
  obtain failure where "kinesisLoop (newOptions opts) (deliver (newOptions opts) marshal pipeline c) records x = (Return failure, x')"
    "body = (case failure of None \<Rightarrow> streamBatchResponse [] | Some identifier \<Rightarrow> kinesis_failAt identifier)"
    using assms(2) by (auto simp: KinesisHandler_def assms(1) andThen_def split: prod.splits outcome.splits)
  then show ?thesis
    by (cases failure) (simp_all add: assms(3) kinesis.loop_None kinesis.loop_Some, blast)
qed

definition witnessShard :: string where
  "witnessShard = jprint (JObj [(''Records'', JArr [JObj [(''eventID'', JStr ''e1''),
     (''kinesis'', JObj [(''sequenceNumber'', JStr ''7''), (''data'', JStr ''!'')])]])])"

definition poisonRecord :: kinesisRecord where
  "poisonRecord = zeroKinesisRecord\<lparr>kr_EventID := ''e1'',
     kr_Kinesis := Some (zeroKinesisData\<lparr>kd_SequenceNumber := ''7'', kd_Data := ''!''\<rparr>)\<rparr>"

lemma witnessShard_decoded: "kinesisEvent floatText witnessShard = ([poisonRecord], True)"
proof -
  have "jvalid (JObj [(''Records'', JArr [JObj [(''eventID'', JStr ''e1''),
     (''kinesis'', JObj [(''sequenceNumber'', JStr ''7''), (''data'', JStr ''!'')])]])])"
    by (simp add: validText_ascii byteIn_def)
  from jparse_jprint [OF this] show ?thesis
    by (simp add: kinesisEvent_def unmarshal_def witnessShard_def decodeStruct_fold memberStep_def into_def
        kinesisRecordField_def kinesisDataField_def decodePtr_def poisonRecord_def zeroKinesisRecord_def zeroKinesisData_def)
qed

theorem kinesis_never_skips_witness:
  "\<forall>jsonError floatText (marshal :: nat marshaller). \<exists>body.
    KinesisHandler jsonError floatText marshal None [] background witnessShard (0, ()) = (Return (Inr body), (0, ())) \<and>
    body = kinesis_failAt ''7''"
proof (intro allI)
  fix jsonError floatText and marshal :: "nat marshaller"
  let ?sm = "newOptions []"
  let ?send = "deliver ?sm marshal None background"
  have "stdDecode ''!'' = None" by code_simp
  then have poison: "kinesis_resolveRequest poisonRecord = None"
    by (simp add: kinesis_resolveRequest_def poisonRecord_def zeroKinesisData_def Let_def)
  have i: "kinesis_identifier poisonRecord = ''7''" by (simp add: kinesis_identifier_def poisonRecord_def)
  have run: "KinesisHandler jsonError floatText marshal None [] background witnessShard (0, ()) =
      (Return (Inr (kinesis_failAt ''7'')), (0, ()))"
    by (simp add: KinesisHandler_def witnessShard_decoded poison newOptions_def zeroSettlement_def i)
  have "settleRecord ?sm ?send (kinesis_resolveRequest poisonRecord) y = (Return False, y)" for y
    by (simp add: settleRecord_def poison newOptions_def zeroSettlement_def)
  then have stop: "stopsAt (\<lambda>r. settleRecord ?sm ?send (kinesis_resolveRequest r)) [poisonRecord] (0, ()) r (0, ()) \<Longrightarrow>
      r = poisonRecord" for r by (simp add: stopsAt_Cons stopsAt_Nil)
  from kinesis_never_skips [OF witnessShard_decoded run refl] stop i run
  show "\<exists>body. KinesisHandler jsonError floatText marshal None [] background witnessShard (0, ()) = (Return (Inr body), (0, ())) \<and>
    body = kinesis_failAt ''7''" by blast
qed

text \<open>Every partition of a Kafka event is settled by itself, whatever the order in which they
  are visited: a failure is reported at the offset of the first record, in the order of offsets, that
  was not acknowledged, records of this partition after it are not dispatched, and no partition keeps
  another from being processed.\<close>

theorem kafka_partitions_independent:
  assumes "kafkaEvent event = (partitions, True)"
    and "KafkaHandler jsonError rangeOrder marshal pipeline names opts c event x = (Return (Inr body), x')"
    and "send = deliver (newOptions opts) marshal pipeline c"
  shows "\<exists>os. settleEach (\<lambda>p. partitionLoop (newOptions opts) send (names_Topic names) (sort_key ka_Offset (snd p)))
      (rangeOrder partitions) x = (Return os, x') \<and> length os = length (rangeOrder partitions) \<and>
    body = streamBatchResponse (map kafkaIdentifier
      (reports (\<lambda>p failure. map_option (Pair (fst p)) failure) (rangeOrder partitions) os)) \<and>
    (\<forall>p y z offset. partitionLoop (newOptions opts) send (names_Topic names) (sort_key ka_Offset (snd p)) y =
        (Return (Some offset), z) \<longleftrightarrow>
      (\<exists>r. stopsAt (\<lambda>r. settleRecord (newOptions opts) send (kafka_resolveRequest r (names_Topic names)))
         (sort_key ka_Offset (snd p)) y r z \<and> offset = ka_Offset r))"
proof -
  let ?settle = "\<lambda>p. partitionLoop (newOptions opts) send (names_Topic names) (sort_key ka_Offset (snd p))"
  obtain os where os: "settleEach ?settle (rangeOrder partitions) x = (Return os, x')"
    and body: "body = streamBatchResponse (map kafkaIdentifier
      (reports (\<lambda>p failure. map_option (Pair (fst p)) failure) (rangeOrder partitions) os))"
    using assms(2) unfolding assms(3)
    by (auto simp: KafkaHandler_def assms(1) kafka.loop_reports andThen_def split: prod.splits outcome.splits)
  have len: "length os = length (rangeOrder partitions)" by (rule settleEach_length [OF os])
  show ?thesis
    using os body len by (intro exI [of _ os] conjI allI partition_stream.loop_Some) simp_all
qed

definition witnessTopics :: string where
  "witnessTopics = jprint (JObj [(''records'', JObj [(''orders-0'', JArr [JObj [(''value'', JStr ''!'')]])])])"

definition poisonMessage :: kafkaRecord where
  "poisonMessage = zeroKafkaRecord\<lparr>ka_Value := ''!''\<rparr>"

lemma witnessTopics_decoded: "kafkaEvent witnessTopics = ([(''orders-0'', [poisonMessage])], True)"
proof -
  have "jvalid (JObj [(''records'', JObj [(''orders-0'', JArr [JObj [(''value'', JStr ''!'')]])])])"
    by (simp add: validText_ascii byteIn_def)
  from jparse_jprint [OF this] show ?thesis
    by (simp add: kafkaEvent_def unmarshal_def witnessTopics_def decodeStruct_fold memberStep_def into_def
        kafkaEventField_def kafkaRecordField_def poisonMessage_def zeroKafkaRecord_def)
qed

theorem kafka_partitions_independent_witness:
  "\<forall>jsonError (marshal :: nat marshaller) names. \<exists>body.
    KafkaHandler jsonError rev marshal None names [] background witnessTopics (0, ()) = (Return (Inr body), (0, ())) \<and>
    body = streamBatchResponse [kafkaIdentifier (''orders-0'', 0)]"
proof (intro allI)
  fix jsonError names and marshal :: "nat marshaller"
  let ?send = "deliver (newOptions []) marshal None background"
  have "stdDecode ''!'' = None" by code_simp
  then have poison: "kafka_resolveRequest poisonMessage k = None" for k
    by (simp add: kafka_resolveRequest_def poisonMessage_def)
  have zero: "ka_Offset poisonMessage = 0" "sm_Delivery (newOptions []) = BindingDefault"
    by (simp_all add: newOptions_def zeroSettlement_def poisonMessage_def zeroKafkaRecord_def)
  have run: "KafkaHandler jsonError rev marshal None names [] background witnessTopics (0, ()) =
      (Return (Inr (streamBatchResponse [kafkaIdentifier (''orders-0'', 0)])), (0, ()))"
    by (simp add: KafkaHandler_def witnessTopics_decoded poison zero)
  from kafka_partitions_independent [OF witnessTopics_decoded run refl] run
  show "\<exists>body. KafkaHandler jsonError rev marshal None names [] background witnessTopics (0, ()) = (Return (Inr body), (0, ())) \<and>
    body = streamBatchResponse [kafkaIdentifier (''orders-0'', 0)]" by blast
qed

end
