(* ===== verification/ResponseEvents.thy ===== *)
theory ResponseEvents
  imports Batch Client GoURL
begin

text \<open>
  Republishing a handler's response as follow-up events (\<^verbatim>\<open>responseevents/mapping.go\<close>,
  \<^verbatim>\<open>responseevents/responseevents.go\<close>). A mapping is its three functions; predicates and projections are
  pure, as the code asks of them. Publishing runs on the clock and the world of the pipeline.
  \<open>marshal\<close> is \<^verbatim>\<open>json.Marshal\<close>.
\<close>

section \<open>Mappings (mapping.go)\<close>

type_synonym 'v publication = "topic \<times> 'v any"

record 'v mapping =
  mp_Resolve :: "topic \<Rightarrow> 'v resultInfo \<Rightarrow> 'v publication option"
  mp_Covers :: "topic \<Rightarrow> bool"
  mp_Description :: string

record 'v explicitMapping =
  em_source :: string
  em_event :: string
  em_when :: "('v resultInfo \<Rightarrow> bool) option"
  em_project :: "('v any \<Rightarrow> 'v any) option"

type_synonym 'v mapOption = "'v explicitMapping \<Rightarrow> 'v explicitMapping"

definition When :: "('v resultInfo \<Rightarrow> bool) \<Rightarrow> 'v mapOption" where
  "When predicate m = m\<lparr>em_when := Some predicate\<rparr>"

definition Project :: "('v any \<Rightarrow> 'v any) \<Rightarrow> 'v mapOption" where
  "Project project m = m\<lparr>em_project := Some project\<rparr>"

definition explicit_Resolve :: "'v explicitMapping \<Rightarrow> topic \<Rightarrow> 'v resultInfo \<Rightarrow> 'v publication option" where
  "explicit_Resolve m sourceTopic result =
    (if \<not> equalFold (ID sourceTopic) (em_source m) then None
     else (let fires = (case em_when m of None \<Rightarrow> resultSuccessful result | Some predicate \<Rightarrow> predicate result) in
       if \<not> fires then None
       else (let payload = ResultPayload result in
         if payload = NilAny then None
         else (case em_project m of
             None \<Rightarrow> Some (NewTopic (em_event m), payload)
           | Some project \<Rightarrow> (let projected = project payload in
               if projected = NilAny then None else Some (NewTopic (em_event m), projected))))))"

definition explicit_Covers :: "'v explicitMapping \<Rightarrow> topic \<Rightarrow> bool" where
  "explicit_Covers m sourceTopic = equalFold (ID sourceTopic) (em_source m)"

definition explicit_Description :: "'v explicitMapping \<Rightarrow> string" where
  "explicit_Description m = em_source m @ '' -> '' @ em_event m @ (if em_when m \<noteq> None then '' [conditional]'' else '''')"

definition MapTopic :: "string \<Rightarrow> string \<Rightarrow> 'v mapOption list \<Rightarrow> 'v mapping" where
  "MapTopic sourceTopic eventTopic opts =
    (let m = fold (\<lambda>opt m. opt m) opts
       \<lparr>em_source = sourceTopic, em_event = eventTopic, em_when = None, em_project = None\<rparr> in
     \<lparr>mp_Resolve = explicit_Resolve m, mp_Covers = explicit_Covers m, mp_Description = explicit_Description m\<rparr>)"

definition crudVerbToStatus :: "(string \<times> status) list" where
  "crudVerbToStatus = [(''create'', StatusCreated), (''update'', StatusUpdated), (''delete'', StatusDeleted)]"

definition crudVerb :: "topic \<Rightarrow> string" where
  "crudVerb t = (case lastIndexByte (ID t) (CHR '':'') of Some i \<Rightarrow> drop (Suc i) (ID t) | None \<Rightarrow> ID t)"

definition crud_Resolve :: "topic \<Rightarrow> 'v resultInfo \<Rightarrow> 'v publication option" where
  "crud_Resolve sourceTopic result = (case map_of crudVerbToStatus (toLower (crudVerb sourceTopic)) of
      None \<Rightarrow> None
    | Some requiredStatus \<Rightarrow>
        if ResultStatus result \<noteq> requiredStatus then None
        else (let payload = ResultPayload result in
          if payload = NilAny then None else Some (NewTopic (ID sourceTopic @ ''d''), payload)))"

definition crud_Covers :: "topic \<Rightarrow> bool" where
  "crud_Covers sourceTopic = hasKey crudVerbToStatus (toLower (crudVerb sourceTopic))"

definition crud_Description :: string where
  "crud_Description =
    ''CRUD convention: <entity>:create|update|delete -> <entity>:created|updated|deleted on created/updated/deleted''"

definition CrudConvention :: "'v mapping" where
  "CrudConvention = \<lparr>mp_Resolve = crud_Resolve, mp_Covers = crud_Covers, mp_Description = crud_Description\<rparr>"

section \<open>Publishing (responseevents.go)\<close>

datatype publishFailureMode = FailMessage | LogAndContinue

text \<open>\<open>None\<close> is a nil error.\<close>

type_synonym ('v, 'w) publisher =
  "ctx \<Rightarrow> topic \<Rightarrow> 'v any \<Rightarrow> 'w clientState \<Rightarrow> goerr option outcome \<times> 'w clientState"

definition marshalPayload :: "('v any \<Rightarrow> goerr + string) \<Rightarrow> 'v any \<Rightarrow> goerr + string" where
  "marshalPayload marshal payload = (case payload of
      RawMessage s \<Rightarrow> Inr s
    | ByteSlice s \<Rightarrow> Inr s
    | _ \<Rightarrow> marshal payload)"

definition NewSenderPublisher :: "('v any \<Rightarrow> goerr + string) \<Rightarrow> ('u, 'w) sender \<Rightarrow> ('v, 'w) publisher" where
  "NewSenderPublisher marshal send c eventTopic payload s =
    (case marshalPayload marshal payload of
       Inl err \<Rightarrow> (Return (Some (ErrWrap (''marshal event payload for '' @ topicString eventTopic @ '': '' @ errorText err) [err])), s)
     | Inr body \<Rightarrow> andThen (send c eventTopic [] body s) (\<lambda>result s1. (Return (
         if IsSuccessful result then None
         else (let messages = map pe_Message (r_Errors result) in
           if length messages > 0 then
             Some (ErrNew (''publish to '' @ topicString eventTopic @ '' returned status '' @ goQuote (r_Status result) @
               '': '' @ join ''; '' messages))
           else Some (ErrNew (''publish to '' @ topicString eventTopic @ '' returned status '' @ goQuote (r_Status result))))), s1)))"

record 'w eventsConfig =
  ev_failureMode :: publishFailureMode
  ev_onError :: "(topic \<Rightarrow> topic \<Rightarrow> goerr \<Rightarrow> 'w clientState \<Rightarrow> unit outcome \<times> 'w clientState) option"

type_synonym 'w eventsOption = "'w eventsConfig \<Rightarrow> 'w eventsConfig"

definition OnPublishFailure :: "publishFailureMode \<Rightarrow> 'w eventsOption" where
  "OnPublishFailure mode cfg = cfg\<lparr>ev_failureMode := mode\<rparr>"

definition OnPublishError ::
  "(topic \<Rightarrow> topic \<Rightarrow> goerr \<Rightarrow> 'w clientState \<Rightarrow> unit outcome \<times> 'w clientState) \<Rightarrow> 'w eventsOption" where
  "OnPublishError hook cfg = cfg\<lparr>ev_onError := Some hook\<rparr>"

definition eventsDefaults :: "'w eventsConfig" where
  "eventsDefaults = \<lparr>ev_failureMode = FailMessage, ev_onError = None\<rparr>"

text \<open>The loop over the mappings: the message of the failure that stopped it, if one did.\<close>

fun publishLoop ::
  "('v, 'w) publisher \<Rightarrow> 'w eventsConfig \<Rightarrow> ctx \<Rightarrow> topic \<Rightarrow> 'v resultInfo \<Rightarrow> 'v mapping list \<Rightarrow> 'w clientState \<Rightarrow>
   string option outcome \<times> 'w clientState" where
  "publishLoop publisher cfg c t result [] s = (Return None, s)"
| "publishLoop publisher cfg c t result (m # ms) s = (case mp_Resolve m t result of
      None \<Rightarrow> publishLoop publisher cfg c t result ms s
    | Some (eventTopic, payload) \<Rightarrow> andThen (publisher c eventTopic payload s) (\<lambda>err s1. case err of
        None \<Rightarrow> publishLoop publisher cfg c t result ms s1
      | Some e \<Rightarrow> andThen (case ev_onError cfg of None \<Rightarrow> (Return (), s1) | Some hook \<Rightarrow> hook t eventTopic e s1) (\<lambda>_ s2.
          if ev_failureMode cfg = FailMessage then
            (Return (Some (''failed to publish response event '' @ goQuote (topicString eventTopic) @ '': '' @ errorText e)), s2)
          else publishLoop publisher cfg c t result ms s2)))"

definition onClient ::
  "('w clientState \<Rightarrow> 'a outcome \<times> 'w clientState) \<Rightarrow> ('v, 'w) st \<Rightarrow> 'a outcome \<times> ('v, 'w) st" where
  "onClient m s = (case m \<lparr>cl_now = clock s, cl_world = env s\<rparr> of (r, cs) \<Rightarrow> (r, s\<lparr>clock := cl_now cs, env := cl_world cs\<rparr>))"

definition responseEvents ::
  "('v, 'w) publisher \<Rightarrow> 'v mapping list \<Rightarrow> 'w eventsOption list \<Rightarrow> ('v, 'w) middleware" where
  "responseEvents publisher mappings opts c nx s =
    (let cfg = fold (\<lambda>opt cfg. opt cfg) opts eventsDefaults in
     andThen (nx c s) (\<lambda>err s1. case err of
         Some e \<Rightarrow> (Return (Some e), s1)
       | None \<Rightarrow> (case ic_Result (ic s1) of
           None \<Rightarrow> (Return None, s1)
         | Some result \<Rightarrow>
             andThen (onClient (publishLoop publisher cfg c (ic_Topic (ic s1)) result mappings) s1) (\<lambda>failure s2. case failure of
               None \<Rightarrow> (Return None, s2)
             | Some message \<Rightarrow> andThen (UnexpectedError [message], s2) (\<lambda>r s3. (Return None, setResult (ResultAny r) s3))))))"

section \<open>The interface\<close>

text \<open>One mapping: it has nothing to publish, or its event was published, or the loss is accepted.\<close>

definition settleMapping ::
  "('v, 'w) publisher \<Rightarrow> 'w eventsConfig \<Rightarrow> ctx \<Rightarrow> topic \<Rightarrow> 'v resultInfo \<Rightarrow> 'v mapping \<Rightarrow> 'w clientState \<Rightarrow>
   bool outcome \<times> 'w clientState" where
  "settleMapping publisher cfg c t result m s = (case mp_Resolve m t result of
      None \<Rightarrow> (Return True, s)
    | Some (eventTopic, payload) \<Rightarrow> andThen (publisher c eventTopic payload s) (\<lambda>err s1. case err of
        None \<Rightarrow> (Return True, s1)
      | Some e \<Rightarrow> andThen (case ev_onError cfg of None \<Rightarrow> (Return (), s1) | Some hook \<Rightarrow> hook t eventTopic e s1) (\<lambda>_ s2.
          (Return (ev_failureMode cfg \<noteq> FailMessage), s2))))"

interpretation events: stream_settlement
  "\<lambda>ms s. map_prod (map_outcome (map_option (\<lambda>_. ()))) (\<lambda>x. x) (publishLoop publisher cfg c t result ms s)"
  "settleMapping publisher cfg c t result" "\<lambda>_. ()" for publisher cfg c t result
  by unfold_locales (auto simp: settleMapping_def andThen_def split: option.splits prod.splits outcome.splits)

section \<open>Properties\<close>

text \<open>C34 (safety). With the default failure mode, a message whose handler answered keeps this answer only
  when every event that its mappings call for was published, in the order of the mappings; otherwise the
  first event that was not published turns the answer into an unexpected error, so that the message is
  delivered again and no event is silently lost.\<close>

theorem answered_means_published:
  assumes "nx c s = (Return None, s1)" and "ic_Result (ic s1) = Some result"
    and "responseEvents publisher mappings [] c nx s = (out, s2)"
    and "\<forall>m. out \<noteq> Panic m"
    and "settle = settleMapping publisher eventsDefaults c (ic_Topic (ic s1)) result"
    and "w1 = \<lparr>cl_now = clock s1, cl_world = env s1\<rparr>" and "w2 = \<lparr>cl_now = clock s2, cl_world = env s2\<rparr>"
  shows "out = Return None \<and>
    ((ic_Result (ic s2) = Some result \<and> acknowledgedRun settle mappings w1 w2) \<or>
     (\<exists>m msg. ic_Result (ic s2) = Some (ResultAny (failed StatusUnexpectedError [msg])) \<and> stopsAt settle mappings w1 m w2))"
proof -
  obtain o1 cs where loop: "publishLoop publisher eventsDefaults c (ic_Topic (ic s1)) result mappings w1 = (o1, cs)"
    by (rule prod.exhaust)
  have "\<forall>m. o1 \<noteq> Panic m"
  proof (intro allI notI)
    fix m
    assume "o1 = Panic m"
    with assms(1-4) loop show False by (auto simp: responseEvents_def onClient_def assms(6))
  qed
  then obtain failure where o1: "o1 = Return failure" by (cases o1) auto
  show ?thesis
  proof (cases failure)
    case None
    then have "out = Return None" "s2 = s1\<lparr>clock := cl_now cs, env := cl_world cs\<rparr>"
      using assms(1-3) loop o1 by (auto simp: responseEvents_def onClient_def assms(6))
    moreover from this have "w2 = cs" by (simp add: assms(7))
    moreover have "acknowledgedRun settle mappings w1 cs"
      unfolding assms(5) using loop o1 None by (simp flip: events.loop_None)
    ultimately show ?thesis using assms(2) by simp
  next
    case (Some message)
    then have "out = Return None" "s2 = setResult (ResultAny (failed StatusUnexpectedError [message]))
        (s1\<lparr>clock := cl_now cs, env := cl_world cs\<rparr>)"
      using assms(1-3) loop o1 by (auto simp: responseEvents_def onClient_def assms(6))
    moreover from this have "w2 = cs" by (simp add: assms(7) setResult_def)
    moreover have "\<exists>m. stopsAt settle mappings w1 m cs"
      using loop o1 Some events.loop_Some [of publisher eventsDefaults c "ic_Topic (ic s1)" result mappings w1 "()" cs]
      unfolding assms(5) by simp
    ultimately show ?thesis by (auto simp: setResult_def)
  qed
qed

definition refusingPublisher :: "(nat, unit) publisher" where
  "refusingPublisher c t payload s = (Return (Some (ErrNew ''broker down'')), s)"

definition createdOrder :: "nat resultInfo" where
  "createdOrder = ResultAny ((resultOf StatusCreated)\<lparr>r_Payload := Some (Val ''order'' 7)\<rparr>)"

definition orderState :: "(nat, unit) st" where
  "orderState = \<lparr>ic = NewInvocationContext (NewTopic ''order:create'') [] NilAny None, clock = 0, env = ()\<rparr>"

lemma crud_order: "mp_Resolve CrudConvention (NewTopic ''order:create'') createdOrder = Some (NewTopic ''order:created'', Val ''order'' 7)"
proof -
  have v: "crudVerb (NewTopic ''order:create'') = ''create''" by code_simp
  have l: "toLower ''create'' = ''create''" by code_simp
  have s: "ResultStatus createdOrder = StatusCreated" "ResultPayload createdOrder = Val ''order'' 7"
    by (simp_all add: createdOrder_def resultOf_def)
  show ?thesis by (simp add: CrudConvention_def crud_Resolve_def v l s crudVerbToStatus_def)
qed

theorem answered_means_published_witness:
  "\<exists>s2 msg. responseEvents refusingPublisher [CrudConvention] [] background (\<lambda>c s. (Return None, setResult createdOrder s))
      orderState = (Return None, s2) \<and> ic_Result (ic s2) = Some (ResultAny (failed StatusUnexpectedError [msg]))"
proof -
  let ?nx = "\<lambda>c s. (Return None, setResult createdOrder s)"
  have t: "ic_Topic (ic (setResult createdOrder orderState)) = NewTopic ''order:create''"
    by (simp add: setResult_def orderState_def NewInvocationContext_def)
  have r: "ic_Result (ic (setResult createdOrder orderState)) = Some createdOrder" by (simp add: setResult_def)
  obtain out s2 where run: "responseEvents refusingPublisher [CrudConvention] [] background ?nx orderState = (out, s2)"
    by (rule prod.exhaust)
  then have ret: "out = Return None"
    by (auto simp: responseEvents_def onClient_def setResult_def orderState_def NewInvocationContext_def crud_order
        refusingPublisher_def eventsDefaults_def Let_def)
  then have noPanic: "\<forall>m. out \<noteq> Panic m" by simp
  let ?settle = "settleMapping refusingPublisher eventsDefaults background
    (ic_Topic (ic (setResult createdOrder orderState))) createdOrder"
  have "\<not> acknowledgedRun ?settle [CrudConvention] w w'" for w w'
    by (simp add: settleMapping_def setResult_def orderState_def NewInvocationContext_def crud_order refusingPublisher_def
        eventsDefaults_def)
  with answered_means_published [where nx = ?nx and c = background and s = orderState, OF refl r run noPanic refl refl refl]
  have "\<exists>msg. ic_Result (ic s2) = Some (ResultAny (failed StatusUnexpectedError [msg]))" by blast
  with run ret show ?thesis by blast
qed

text \<open>The static coverage of the two ready-made mappings misses no event.\<close>

lemma resolve_covered:
  "mp_Resolve CrudConvention t result = Some p \<Longrightarrow> mp_Covers CrudConvention t"
  "mp_Resolve (MapTopic source event opts) t result = Some p \<Longrightarrow> mp_Covers (MapTopic source event opts) t"
  by (auto simp: CrudConvention_def crud_Resolve_def crud_Covers_def hasKey_def MapTopic_def explicit_Resolve_def
      explicit_Covers_def Let_def split: option.splits if_splits)

end
