(* ===== verification/SqsConsumer.thy ===== *)
theory SqsConsumer
  imports Lambda
begin

text \<open>
  The self-hosted SQS poller (\<^verbatim>\<open>awssqs/consumer.go\<close>). The two operations of the SQS client are a record of
  functions on the clock and the world; a nil string pointer is \<open>None\<close>. The backoff is \<^verbatim>\<open>sleepContext\<close>.
\<close>

section \<open>The consumer\<close>

record sqsMessage =
  ms_MessageId :: "string option"
  ms_ReceiptHandle :: "string option"
  ms_Body :: "string option"
  ms_MessageAttributes :: "(string \<times> string option) list"

record receiveInput =
  ri_QueueUrl :: string
  ri_MaxNumberOfMessages :: int
  ri_WaitTimeSeconds :: int
  ri_VisibilityTimeout :: int

type_synonym deleteEntry = "string option \<times> string option"

text \<open>A delete returns the ids of the entries that failed.\<close>

record 'w receiveDeleteAPI =
  api_Receive :: "ctx \<Rightarrow> receiveInput \<Rightarrow> 'w world \<Rightarrow> (goerr + sqsMessage list) outcome \<times> 'w world"
  api_DeleteBatch :: "ctx \<Rightarrow> string \<Rightarrow> deleteEntry list \<Rightarrow> 'w world \<Rightarrow> (goerr + string option list) outcome \<times> 'w world"

record ('v, 'w) sqsConsumer =
  cn_API :: "'w receiveDeleteAPI option"
  cn_QueueURL :: string
  cn_Builder :: "(('v, 'w) middleware list option \<times> reserved_names) option"
  cn_MaxMessages :: int
  cn_WaitTimeSeconds :: int
  cn_VisibilityTimeout :: int
  cn_ErrorBackoff :: int
  cn_ReservedNames :: reserved_names
  cn_Settlement :: settlement
  cn_OnFailure :: "(string \<Rightarrow> response \<Rightarrow> 'w world \<Rightarrow> unit outcome \<times> 'w world) option"

definition errMissingDeps :: goerr where
  "errMissingDeps = ErrSentinel ''awssqs.errMissingDeps'' ''awssqs: Consumer requires API, QueueURL, and Builder''"

definition Consumer_Validate :: "('v, 'w) sqsConsumer \<Rightarrow> goerr option" where
  "Consumer_Validate cn =
    (if cn_API cn = None \<or> cn_QueueURL cn = '''' \<or> cn_Builder cn = None then Some errMissingDeps else None)"

definition maxMessages :: "('v, 'w) sqsConsumer \<Rightarrow> int" where
  "maxMessages cn = (if cn_MaxMessages cn \<le> 0 then 10 else cn_MaxMessages cn)"

definition waitTime :: "('v, 'w) sqsConsumer \<Rightarrow> int" where
  "waitTime cn = (if cn_WaitTimeSeconds cn \<le> 0 then 20 else cn_WaitTimeSeconds cn)"

definition errorBackoff :: "('v, 'w) sqsConsumer \<Rightarrow> int" where
  "errorBackoff cn = (if cn_ErrorBackoff cn = 0 then 1000000000 else cn_ErrorBackoff cn)"

definition consumer_topicKey :: "('v, 'w) sqsConsumer \<Rightarrow> reserved_names \<Rightarrow> string" where
  "consumer_topicKey cn builderNames =
    (if rn_TopicKey (cn_ReservedNames cn) \<noteq> '''' then rn_TopicKey (cn_ReservedNames cn) else names_Topic builderNames)"

definition toString :: "string option \<Rightarrow> string" where
  "toString p = (case p of None \<Rightarrow> '''' | Some s \<Rightarrow> s)"

definition resolveMessage :: "sqsMessage \<Rightarrow> string \<Rightarrow> request" where
  "resolveMessage m topicKey =
    attributesOrEnvelope topicKey (map (\<lambda>(name, v). (name, toString v)) (ms_MessageAttributes m)) (toString (ms_Body m))"

definition onFailure :: "('v, 'w) sqsConsumer \<Rightarrow> string \<Rightarrow> response \<Rightarrow> 'w world \<Rightarrow> unit outcome \<times> 'w world" where
  "onFailure cn i resp x = (case cn_OnFailure cn of None \<Rightarrow> (Return (), x) | Some hook \<Rightarrow> hook i resp x)"

text \<open>One message: dispatched, and its failure told.\<close>

definition handleMessage ::
  "('v, 'w) sqsConsumer \<Rightarrow> (request \<Rightarrow> 'w world \<Rightarrow> settledOutcome outcome \<times> 'w world) \<Rightarrow> string \<Rightarrow> sqsMessage \<Rightarrow>
   'w world \<Rightarrow> settledOutcome outcome \<times> 'w world" where
  "handleMessage cn send topicKey m x = andThen (send (resolveMessage m topicKey) x) (\<lambda>o1 x1.
    if \<not> oc_Successful o1 then
      andThen (onFailure cn (toString (ms_MessageId m)) (oc_Response o1) x1) (\<lambda>_ x2. (Return o1, x2))
    else (Return o1, x1))"

fun pollLoop ::
  "('v, 'w) sqsConsumer \<Rightarrow> (request \<Rightarrow> 'w world \<Rightarrow> settledOutcome outcome \<times> 'w world) \<Rightarrow> string \<Rightarrow> sqsMessage list \<Rightarrow>
   'w world \<Rightarrow> deleteEntry list outcome \<times> 'w world" where
  "pollLoop cn send topicKey [] x = (Return [], x)"
| "pollLoop cn send topicKey (m # ms) x =
    andThen (handleMessage cn send topicKey m x) (\<lambda>o1 x1.
    andThen (pollLoop cn send topicKey ms x1) (\<lambda>toDelete x2.
      (Return (if oc_Acknowledge o1 then (ms_MessageId m, ms_ReceiptHandle m) # toDelete else toDelete), x2)))"

definition undeleted :: response where
  "undeleted = \<lparr>rs_StatusCode = StatusServiceUnavailable, rs_Headers = [], rs_Body = '''', rs_IsSuccessful = None\<rparr>"

fun reportUndeleted ::
  "('v, 'w) sqsConsumer \<Rightarrow> string option list \<Rightarrow> 'w world \<Rightarrow> unit outcome \<times> 'w world" where
  "reportUndeleted cn [] x = (Return (), x)"
| "reportUndeleted cn (i # is) x =
    andThen (onFailure cn (toString i) undeleted x) (\<lambda>_ x1. reportUndeleted cn is x1)"

definition nilDereference :: string where
  "nilDereference = ''runtime error: invalid memory address or nil pointer dereference''"

text \<open>\<open>None\<close> is a nil error.\<close>

definition poll ::
  "'v marshaller \<Rightarrow> ctx \<Rightarrow> ('v, 'w) sqsConsumer \<Rightarrow> 'w world \<Rightarrow> goerr option outcome \<times> 'w world" where
  "poll marshal c cn x = (case cn_API cn of
      None \<Rightarrow> (Panic nilDereference, x)
    | Some api \<Rightarrow> andThen (api_Receive api c
          \<lparr>ri_QueueUrl = cn_QueueURL cn, ri_MaxNumberOfMessages = maxMessages cn, ri_WaitTimeSeconds = waitTime cn,
           ri_VisibilityTimeout = cn_VisibilityTimeout cn\<rparr> x) (\<lambda>got x1. case got of
        Inl err \<Rightarrow> (Return (Some err), x1)
      | Inr [] \<Rightarrow> (Return None, x1)
      | Inr ms \<Rightarrow> (case cn_Builder cn of
          None \<Rightarrow> (Panic nilDereference, x1)
        | Some (pipeline, names) \<Rightarrow>
            andThen (pollLoop cn (deliver (cn_Settlement cn) marshal pipeline c) (consumer_topicKey cn names) ms x1)
              (\<lambda>toDelete x2.
                if toDelete = [] then (Return None, x2)
                else andThen (api_DeleteBatch api (withoutCancel c) (cn_QueueURL cn) toDelete x2) (\<lambda>res x3.
                  case res of
                    Inl err \<Rightarrow> (Return (Some err), x3)
                  | Inr failedIds \<Rightarrow> andThen (reportUndeleted cn failedIds x3) (\<lambda>_ x4. (Return None, x4)))))))"

definition sleepContext :: "ctx \<Rightarrow> int \<Rightarrow> 'w world \<Rightarrow> 'w world" where
  "sleepContext c d x =
    ((case done_at c of
        None \<Rightarrow> fst x + max 0 d
      | Some (t, _) \<Rightarrow> max (fst x) (min t (fst x + max 0 d))), snd x)"

text \<open>The loop may run for ever: then it has no value.\<close>

partial_function (option) Consumer_Run ::
  "'v marshaller \<Rightarrow> ctx \<Rightarrow> ('v, 'w) sqsConsumer \<Rightarrow> 'w world \<Rightarrow> (goerr outcome \<times> 'w world) option" where
  "Consumer_Run marshal c cn x = (case ctxErr c (fst x) of
      Some e \<Rightarrow> Some (Return e, x)
    | None \<Rightarrow> (case poll marshal c cn x of (res, x1) \<Rightarrow> (case res of
        Panic m \<Rightarrow> Some (Panic m, x1)
      | Return None \<Rightarrow> Consumer_Run marshal c cn x1
      | Return (Some err) \<Rightarrow> (case ctxErr c (fst x1) of
          Some e \<Rightarrow> Some (Return e, x1)
        | None \<Rightarrow> Consumer_Run marshal c cn (sleepContext c (errorBackoff cn) x1)))))"

section \<open>What a poll deletes\<close>

interpretation poller: queue_settlement "pollLoop cn send topicKey" "handleMessage cn send topicKey"
  "\<lambda>m o1. if oc_Acknowledge o1 then Some (ms_MessageId m, ms_ReceiptHandle m) else None" for cn send topicKey
  by unfold_locales (auto simp: andThen_def split: option.splits prod.splits outcome.splits)

section \<open>Properties\<close>

lemma reports_entries:
  "length os = length ms \<Longrightarrow> reports (\<lambda>m o1. if ok o1 then Some (f m) else None) ms os =
    map (\<lambda>(m, o1). f m) (filter (\<lambda>(m, o1). ok o1) (zip ms os))"
  by (induction ms os rule: list_induct2') auto

text \<open>C14 (safety). A poll dispatches every message it received, in order, and then asks the queue to
  delete exactly those that its settlement acknowledged, in a context that a shutdown does not cancel;
  a message that is not acknowledged is never deleted, so the queue delivers it again.\<close>

theorem consumer_deletes_acknowledged:
  assumes "cn_API cn = Some api" and "cn_Builder cn = Some (pipeline, names)"
    and "api_Receive api c \<lparr>ri_QueueUrl = cn_QueueURL cn, ri_MaxNumberOfMessages = maxMessages cn,
      ri_WaitTimeSeconds = waitTime cn, ri_VisibilityTimeout = cn_VisibilityTimeout cn\<rparr> x = (Return (Inr (m # ms)), x1)"
    and "settleEach (handleMessage cn (deliver (cn_Settlement cn) marshal pipeline c) (consumer_topicKey cn names))
      (m # ms) x1 = (Return os, x2)"
    and "entries = map (\<lambda>(m, o1). (ms_MessageId m, ms_ReceiptHandle m))
      (filter (\<lambda>(m, o1). oc_Acknowledge o1) (zip (m # ms) os))"
  shows "poll marshal c cn x =
    (if entries = [] then (Return None, x2)
     else andThen (api_DeleteBatch api (withoutCancel c) (cn_QueueURL cn) entries x2) (\<lambda>res x3. case res of
         Inl err \<Rightarrow> (Return (Some err), x3)
       | Inr failedIds \<Rightarrow> andThen (reportUndeleted cn failedIds x3) (\<lambda>_ x4. (Return None, x4))))"
proof -
  have "pollLoop cn (deliver (cn_Settlement cn) marshal pipeline c) (consumer_topicKey cn names) (m # ms) x1 =
      (Return entries, x2)"
    unfolding poller.loop_reports assms(4) assms(5)
    using reports_entries [OF settleEach_length [OF assms(4)], of oc_Acknowledge "\<lambda>m. (ms_MessageId m, ms_ReceiptHandle m)"]
    by simp
  then show ?thesis using assms(1-3) by (simp add: poll_def del: pollLoop.simps)
qed

text \<open>An API that hands out one message and notes what is deleted.\<close>

definition witnessAPI :: "(deleteEntry list \<times> bool) receiveDeleteAPI" where
  "witnessAPI = \<lparr>api_Receive = (\<lambda>c i x. (Return (Inr [\<lparr>ms_MessageId = Some ''m1'', ms_ReceiptHandle = Some ''h1'',
       ms_Body = Some ''hi'', ms_MessageAttributes = []\<rparr>]), fst x + 1, snd x)),
     api_DeleteBatch = (\<lambda>c u es x. (Return (Inr []), fst x, fst (snd x) @ es, done_at c = None))\<rparr>"

definition witnessConsumer :: "settlement \<Rightarrow> (nat, deleteEntry list \<times> bool) sqsConsumer" where
  "witnessConsumer sm = \<lparr>cn_API = Some witnessAPI, cn_QueueURL = ''q'', cn_Builder = Some (None, \<lparr>rn_TopicKey = '''', rn_CorrelationKey = '''', rn_VersionKey = ''''\<rparr>),
     cn_MaxMessages = 0, cn_WaitTimeSeconds = 0, cn_VisibilityTimeout = 0, cn_ErrorBackoff = 0,
     cn_ReservedNames = \<lparr>rn_TopicKey = '''', rn_CorrelationKey = '''', rn_VersionKey = ''''\<rparr>, cn_Settlement = sm, cn_OnFailure = None\<rparr>"

text \<open>C37 (liveness). Whatever the queue does, a consumer whose polls return and take time stops when its
  context is cancelled, with the error of the context, and not before.\<close>

theorem consumer_stops_when_cancelled:
  assumes "done_at c = Some (T, e)" and "\<forall>x. \<exists>res x'. poll marshal c cn x = (Return res, x') \<and> fst x < fst x'"
  shows "\<exists>x'. Consumer_Run marshal c cn x = Some (Return e, x') \<and> T \<le> fst x' \<and> fst x \<le> fst x'"
proof (induction "nat (T - fst x)" arbitrary: x rule: less_induct)
  case less
  show ?case
  proof (cases "T \<le> fst x")
    case True
    then show ?thesis using assms(1) by (simp add: Consumer_Run.simps [of marshal c cn x] ctxErr_def)
  next
    case False
    obtain res x1 where p: "poll marshal c cn x = (Return res, x1)" "fst x < fst x1" using assms(2) by blast
    have slept: "fst x1 \<le> fst (sleepContext c d x1)" for d by (auto simp: sleepContext_def split: option.splits prod.splits)
    have step: "\<exists>x'. Consumer_Run marshal c cn y = Some (Return e, x') \<and> T \<le> fst x' \<and> fst x \<le> fst x'"
      if "fst x1 \<le> fst y" for y
      using less [of y] that p(2) False by fastforce
    have live: "ctxErr c (fst x) = None" using False assms(1) by (simp add: ctxErr_def)
    show ?thesis
    proof (cases res)
      case None
      then show ?thesis using step [of x1] p live by (simp add: Consumer_Run.simps [of marshal c cn x])
    next
      case (Some err)
      show ?thesis
      proof (cases "T \<le> fst x1")
        case True
        then have "ctxErr c (fst x1) = Some e" using assms(1) by (simp add: ctxErr_def)
        then show ?thesis using True p Some live by (simp add: Consumer_Run.simps [of marshal c cn x])
      next
        case False
        then have "ctxErr c (fst x1) = None" using assms(1) by (simp add: ctxErr_def)
        then show ?thesis
          using step [OF slept] p Some live by (simp add: Consumer_Run.simps [of marshal c cn x])
      qed
    qed
  qed
qed

section \<open>Witnesses\<close>

lemma witness_dispatch:
  "\<exists>o1. deliver sm marshal None c req x = (Return o1, x) \<and> \<not> oc_Successful o1 \<and>
    (oc_Acknowledge o1 \<longleftrightarrow> sm_Delivery sm = AtMostOnce)"
  by (cases x) (auto simp: deliver_def Settlement_Dispatch_def Settlement_DispatchTopic_def envelopeDispatch_def Run_def
      errorResponseOf_def)

definition witnessMessage :: sqsMessage where
  "witnessMessage = \<lparr>ms_MessageId = Some ''m1'', ms_ReceiptHandle = Some ''h1'', ms_Body = Some ''hi'',
     ms_MessageAttributes = []\<rparr>"

lemma witness_handled:
  "\<exists>o1. handleMessage (witnessConsumer sm) (deliver sm marshal None c) k witnessMessage x = (Return o1, x) \<and>
    (oc_Acknowledge o1 \<longleftrightarrow> sm_Delivery sm = AtMostOnce)"
proof -
  obtain o1 where "deliver sm marshal None c (resolveMessage witnessMessage k) x = (Return o1, x)" "\<not> oc_Successful o1"
      "oc_Acknowledge o1 \<longleftrightarrow> sm_Delivery sm = AtMostOnce"
    using witness_dispatch by blast
  then show ?thesis by (simp add: handleMessage_def onFailure_def witnessConsumer_def)
qed

lemma witness_received:
  "api_Receive witnessAPI c i x = (Return (Inr [witnessMessage]), fst x + 1, snd x)"
  by (simp add: witnessAPI_def witnessMessage_def)

theorem consumer_deletes_acknowledged_witness:
  "\<forall>marshal. poll marshal background (witnessConsumer \<lparr>sm_Delivery = AtMostOnce, IgnoreUnmatchedTopics = False\<rparr>) (0, [], False) =
    (Return None, 1, [(Some ''m1'', Some ''h1'')], True)"
proof
  fix marshal :: "nat marshaller"
  let ?sm = "\<lparr>sm_Delivery = AtMostOnce, IgnoreUnmatchedTopics = False\<rparr>"
  let ?cn = "witnessConsumer ?sm" and ?names = "\<lparr>rn_TopicKey = '''', rn_CorrelationKey = '''', rn_VersionKey = ''''\<rparr>"
  let ?x1 = "(1, [], False) :: (deleteEntry list \<times> bool) world"
  have cn: "cn_API ?cn = Some witnessAPI" "cn_Builder ?cn = Some (None, ?names)" "cn_Settlement ?cn = ?sm"
    "cn_QueueURL ?cn = ''q''"
    by (simp_all add: witnessConsumer_def)
  obtain o1 where h: "handleMessage ?cn (deliver ?sm marshal None background) (consumer_topicKey ?cn ?names) witnessMessage ?x1 =
      (Return o1, ?x1)" "oc_Acknowledge o1"
    using witness_handled [of ?sm marshal background "consumer_topicKey ?cn ?names" ?x1] by auto
  have got: "api_Receive witnessAPI background i (0, [], False) = (Return (Inr [witnessMessage]), ?x1)" for i
    by (simp add: witness_received)
  have settled: "settleEach (handleMessage ?cn (deliver (cn_Settlement ?cn) marshal None background) (consumer_topicKey ?cn ?names))
      [witnessMessage] ?x1 = (Return [o1], ?x1)"
    using h(1) by (simp add: cn(3))
  have entries: "[(Some ''m1'', Some ''h1'')] = map (\<lambda>(m, o1). (ms_MessageId m, ms_ReceiptHandle m))
      (filter (\<lambda>(m, o1). oc_Acknowledge o1) (zip [witnessMessage] [o1]))"
    using h(2) by (simp add: witnessMessage_def)
  have del: "api_DeleteBatch witnessAPI (withoutCancel background) u es ?x1 = (Return (Inr []), 1, es, True)" for u es
    by (simp add: witnessAPI_def withoutCancel_def)
  note deletes = consumer_deletes_acknowledged [where cn = ?cn and api = witnessAPI and pipeline = None and names = ?names
      and c = background and x = "(0, [], False)" and m = witnessMessage and ms = "[]" and ?x1.0 = ?x1 and ?x2.0 = ?x1
      and marshal = marshal and os = "[o1]" and entries = "[(Some ''m1'', Some ''h1'')]", OF cn(1,2) got settled entries]
  from deletes
  show "poll marshal background ?cn (0, [], False) = (Return None, 1, [(Some ''m1'', Some ''h1'')], True)"
    by (simp add: del)
qed

lemma witness_poll:
  "\<exists>res x'. poll marshal c (witnessConsumer sm) x = (Return res, x') \<and> fst x < fst x'"
proof -
  let ?cn = "witnessConsumer sm" and ?names = "\<lparr>rn_TopicKey = '''', rn_CorrelationKey = '''', rn_VersionKey = ''''\<rparr>"
  obtain o1 where h: "handleMessage ?cn (deliver sm marshal None c) (consumer_topicKey ?cn ?names) witnessMessage (fst x + 1, snd x) =
      (Return o1, fst x + 1, snd x)"
    using witness_handled by blast
  have cn: "cn_API ?cn = Some witnessAPI" "cn_Builder ?cn = Some (None, ?names)" "cn_Settlement ?cn = sm"
    by (simp_all add: witnessConsumer_def)
  have del: "api_DeleteBatch witnessAPI c' u es x1 = (Return (Inr []), fst x1, fst (snd x1) @ es, done_at c' = None)" for c' u es x1
    by (simp add: witnessAPI_def)
  show ?thesis using h by (simp add: poll_def cn witness_received del)
qed

theorem consumer_stops_when_cancelled_witness:
  "\<forall>marshal. \<exists>x'. Consumer_Run marshal (background\<lparr>done_at := Some (3, ErrCanceled)\<rparr>)
      (witnessConsumer \<lparr>sm_Delivery = AtLeastOnce, IgnoreUnmatchedTopics = False\<rparr>) (0, [], False) =
    Some (Return ErrCanceled, x') \<and> 3 \<le> fst x'"
proof
  fix marshal :: "nat marshaller"
  let ?c = "background\<lparr>done_at := Some (3, ErrCanceled)\<rparr>"
  let ?cn = "witnessConsumer \<lparr>sm_Delivery = AtLeastOnce, IgnoreUnmatchedTopics = False\<rparr>"
  have d: "done_at ?c = Some (3, ErrCanceled)" by simp
  have "\<forall>x. \<exists>res x'. poll marshal ?c ?cn x = (Return res, x') \<and> fst x < fst x'" using witness_poll by blast
  from consumer_stops_when_cancelled [OF d this, of "(0, [], False)"]
  show "\<exists>x'. Consumer_Run marshal ?c ?cn (0, [], False) = Some (Return ErrCanceled, x') \<and> 3 \<le> fst x'" by auto
qed

end
