(* ===== verification/Consumers.thy ===== *)
theory Consumers
  imports SqsConsumer
begin

text \<open>
  The self-hosted consumers of RabbitMQ (\<^verbatim>\<open>rabbitmq/consumer.go\<close>), Kafka (\<^verbatim>\<open>kafka/kafka.go\<close>) and Azure
  Service Bus (\<^verbatim>\<open>azureservicebus/worker.go\<close>). The clients of the brokers are records of functions on the
  clock and the world. \<open>sprint\<close> is \<^verbatim>\<open>fmt.Sprint\<close> of a header value that is neither bytes nor a string.
  The builder is its pipeline and its reserved names, and is set, as \<^verbatim>\<open>Validate\<close> asks.
\<close>

section \<open>RabbitMQ\<close>

datatype 'h amqpValue = AmqpNil | AmqpBytes string | AmqpString string | AmqpOther 'h

record 'h amqpDelivery =
  dl_Headers :: "(string \<times> 'h amqpValue) list"
  dl_RoutingKey :: string
  dl_Body :: string
  dl_Redelivered :: bool

fun headerString :: "('h \<Rightarrow> string) \<Rightarrow> 'h amqpValue \<Rightarrow> string" where
  "headerString sprint AmqpNil = ''''"
| "headerString sprint (AmqpBytes b) = b"
| "headerString sprint (AmqpString s) = s"
| "headerString sprint (AmqpOther h) = sprint h"

text \<open>Settling a delivery; the error of the broker is dropped.\<close>

record ('h, 'w) amqpChannel =
  ch_Ack :: "'h amqpDelivery \<Rightarrow> 'w world \<Rightarrow> goerr option \<times> 'w world"
  ch_Nack :: "'h amqpDelivery \<Rightarrow> bool \<Rightarrow> 'w world \<Rightarrow> goerr option \<times> 'w world"

record ('v, 'h, 'w) rabbitConsumer =
  rb_Channel :: "('h, 'w) amqpChannel"
  rb_Pipeline :: "('v, 'w) middleware list option"
  rb_BuilderNames :: reserved_names
  rb_NoRequeue :: bool
  rb_Settlement :: settlement
  rb_ReservedNames :: reserved_names
  rb_OnFailure :: "(ctx \<Rightarrow> 'h amqpDelivery \<Rightarrow> response \<Rightarrow> 'w world \<Rightarrow> unit outcome \<times> 'w world) option"

definition rabbit_topicKey :: "('v, 'h, 'w) rabbitConsumer \<Rightarrow> string" where
  "rabbit_topicKey cn =
    (if rn_TopicKey (rb_ReservedNames cn) \<noteq> '''' then rn_TopicKey (rb_ReservedNames cn) else names_Topic (rb_BuilderNames cn))"

definition rabbit_resolveRequest :: "('h \<Rightarrow> string) \<Rightarrow> ('v, 'h, 'w) rabbitConsumer \<Rightarrow> 'h amqpDelivery \<Rightarrow> request" where
  "rabbit_resolveRequest sprint cn d =
    (case ResolveMetadataTopic (map (\<lambda>(name, v). (name, headerString sprint v)) (dl_Headers d)) (rabbit_topicKey cn) of
       (topic, hs) \<Rightarrow>
         if topic \<noteq> '''' then \<lparr>rq_Topic = topic, rq_Headers = hs, rq_Body = dl_Body d\<rparr>
         else if dl_RoutingKey d \<noteq> '''' then \<lparr>rq_Topic = dl_RoutingKey d, rq_Headers = hs, rq_Body = dl_Body d\<rparr>
         else (case UnmarshalRequest (dl_Body d) of (req, ok) \<Rightarrow>
           if ok \<and> rq_Topic req \<noteq> '''' then
             \<lparr>rq_Topic = rq_Topic req, rq_Headers = mergeHeaders (rq_Headers req) hs, rq_Body = rq_Body req\<rparr>
           else \<lparr>rq_Topic = '''', rq_Headers = hs, rq_Body = dl_Body d\<rparr>))"

definition rabbit_handle ::
  "('h \<Rightarrow> string) \<Rightarrow> 'v marshaller \<Rightarrow> ctx \<Rightarrow> ('v, 'h, 'w) rabbitConsumer \<Rightarrow> 'h amqpDelivery \<Rightarrow> 'w world \<Rightarrow>
   unit outcome \<times> 'w world" where
  "rabbit_handle sprint marshal c cn d x =
    andThen (deliver (rb_Settlement cn) marshal (rb_Pipeline cn) c (rabbit_resolveRequest sprint cn d) x) (\<lambda>o1 x1.
    andThen (case rb_OnFailure cn of
        Some hook \<Rightarrow> if \<not> oc_Successful o1 then hook c d (oc_Response o1) x1 else (Return (), x1)
      | None \<Rightarrow> (Return (), x1)) (\<lambda>_ x2.
    if oc_Acknowledge o1 then (Return (), snd (ch_Ack (rb_Channel cn) d x2))
    else (Return (), snd (ch_Nack (rb_Channel cn) d (\<not> rb_NoRequeue cn \<and> \<not> dl_Redelivered d) x2))))"

section \<open>Kafka\<close>

record kafkaMessage =
  km_Topic :: string
  km_Headers :: "(string \<times> string) list"
  km_Value :: string

record 'w messageSource =
  src_Fetch :: "ctx \<Rightarrow> 'w world \<Rightarrow> (goerr + kafkaMessage) \<times> 'w world"
  src_Commit :: "ctx \<Rightarrow> kafkaMessage \<Rightarrow> 'w world \<Rightarrow> goerr option \<times> 'w world"

record ('v, 'w) kafkaConsumer =
  kc_Source :: "'w messageSource"
  kc_Pipeline :: "('v, 'w) middleware list option"
  kc_BuilderNames :: reserved_names
  kc_Settlement :: settlement
  kc_ErrorBackoff :: int
  kc_OnFailure :: "(ctx \<Rightarrow> kafkaMessage \<Rightarrow> response \<Rightarrow> 'w world \<Rightarrow> unit outcome \<times> 'w world) option"
  kc_ReservedNames :: reserved_names

definition kafka_topicKey :: "('v, 'w) kafkaConsumer \<Rightarrow> string" where
  "kafka_topicKey cn =
    (if rn_TopicKey (kc_ReservedNames cn) \<noteq> '''' then rn_TopicKey (kc_ReservedNames cn) else names_Topic (kc_BuilderNames cn))"

definition kafka_errorBackoff :: "('v, 'w) kafkaConsumer \<Rightarrow> int" where
  "kafka_errorBackoff cn = (if kc_ErrorBackoff cn = 0 then 1000000000 else kc_ErrorBackoff cn)"

text \<open>Of duplicate header names the last wins.\<close>

definition kafkaMessage_resolveRequest :: "kafkaMessage \<Rightarrow> string \<Rightarrow> request" where
  "kafkaMessage_resolveRequest msg topicKey =
    (case ResolveMetadataTopic (mergeHeaders (km_Headers msg) []) topicKey of (topic, hs) \<Rightarrow>
      \<lparr>rq_Topic = (if topic = '''' then km_Topic msg else topic), rq_Headers = hs, rq_Body = km_Value msg\<rparr>)"

definition kafka_settlement :: "('v, 'w) kafkaConsumer \<Rightarrow> settlement" where
  "kafka_settlement cn =
    (if sm_Delivery (kc_Settlement cn) = BindingDefault then (kc_Settlement cn)\<lparr>sm_Delivery := AtMostOnce\<rparr>
     else kc_Settlement cn)"

text \<open>One attempt: whether the message is acknowledged.\<close>

definition kafka_attempt ::
  "'v marshaller \<Rightarrow> ctx \<Rightarrow> ('v, 'w) kafkaConsumer \<Rightarrow> kafkaMessage \<Rightarrow> 'w world \<Rightarrow> bool outcome \<times> 'w world" where
  "kafka_attempt marshal c cn msg x =
    andThen (deliver (kafka_settlement cn) marshal (kc_Pipeline cn) c
        (kafkaMessage_resolveRequest msg (kafka_topicKey cn)) x) (\<lambda>o1 x1.
    andThen (case kc_OnFailure cn of
        Some hook \<Rightarrow> if \<not> oc_Successful o1 then hook c msg (oc_Response o1) x1 else (Return (), x1)
      | None \<Rightarrow> (Return (), x1)) (\<lambda>_ x2. (Return (oc_Acknowledge o1), x2)))"

text \<open>The inner loop may not end: \<open>Some (Return True)\<close> goes on to the commit, \<open>Some (Return False)\<close> is a shutdown.\<close>

partial_function (option) kafka_redeliver ::
  "'v marshaller \<Rightarrow> ctx \<Rightarrow> ('v, 'w) kafkaConsumer \<Rightarrow> kafkaMessage \<Rightarrow> 'w world \<Rightarrow> (bool outcome \<times> 'w world) option" where
  "kafka_redeliver marshal c cn msg x = (case kafka_attempt marshal c cn msg x of (res, x1) \<Rightarrow> (case res of
      Panic m \<Rightarrow> Some (Panic m, x1)
    | Return acknowledged \<Rightarrow>
        if acknowledged then Some (Return True, x1)
        else (case sleepContext c (kafka_errorBackoff cn) x1 of x2 \<Rightarrow>
          if ctxErr c (fst x2) \<noteq> None then Some (Return False, x2)
          else kafka_redeliver marshal c cn msg x2)))"

text \<open>\<open>None\<close> inside is the nil error of a clean shutdown.\<close>

partial_function (option) kafka_Run ::
  "'v marshaller \<Rightarrow> ctx \<Rightarrow> ('v, 'w) kafkaConsumer \<Rightarrow> 'w world \<Rightarrow> (goerr option outcome \<times> 'w world) option" where
  "kafka_Run marshal c cn x = (case src_Fetch (kc_Source cn) c x of (got, x1) \<Rightarrow> (case got of
      Inl err \<Rightarrow> Some (Return (if ctxErr c (fst x1) \<noteq> None then None
        else Some (ErrWrap (''kafka: fetch failed: '' @ errorText err) [err])), x1)
    | Inr msg \<Rightarrow> (case kafka_redeliver marshal c cn msg x1 of
        None \<Rightarrow> None
      | Some (res, x2) \<Rightarrow> (case res of
          Panic m \<Rightarrow> Some (Panic m, x2)
        | Return acknowledged \<Rightarrow> if \<not> acknowledged then Some (Return None, x2)
          else (case src_Commit (kc_Source cn) c msg x2 of (err, x3) \<Rightarrow> (case err of
            None \<Rightarrow> kafka_Run marshal c cn x3
          | Some e \<Rightarrow> Some (Return (if ctxErr c (fst x3) \<noteq> None then None
              else Some (ErrWrap (''kafka: commit failed: '' @ errorText e) [e])), x3)))))))"

section \<open>Azure Service Bus\<close>

datatype ackMode = AckModeAbandon | AckModeDeadLetter

datatype 'p busValue = BusString string | BusOther 'p

record 'p busMessage =
  bm_MessageID :: string
  bm_Properties :: "(string \<times> 'p busValue) list"
  bm_Body :: string

record ('p, 'w) receiverAPI =
  rc_Receive :: "ctx \<Rightarrow> int \<Rightarrow> 'w world \<Rightarrow> (goerr + 'p busMessage list) \<times> 'w world"
  rc_Complete :: "ctx \<Rightarrow> 'p busMessage \<Rightarrow> 'w world \<Rightarrow> goerr option \<times> 'w world"
  rc_Abandon :: "ctx \<Rightarrow> 'p busMessage \<Rightarrow> 'w world \<Rightarrow> goerr option \<times> 'w world"
  rc_DeadLetter :: "ctx \<Rightarrow> 'p busMessage \<Rightarrow> string option \<Rightarrow> string option \<Rightarrow> 'w world \<Rightarrow> goerr option \<times> 'w world"

record ('v, 'p, 'w) busWorker =
  bw_API :: "('p, 'w) receiverAPI"
  bw_Pipeline :: "('v, 'w) middleware list option"
  bw_BuilderNames :: reserved_names
  bw_MaxMessages :: int
  bw_ErrorBackoff :: int
  bw_ReservedNames :: reserved_names
  bw_AckMode :: ackMode
  bw_DeadLetterReason :: string
  bw_DeadLetterDescription :: string
  bw_Settlement :: settlement
  bw_OnFailure :: "(string \<Rightarrow> response \<Rightarrow> 'w world \<Rightarrow> unit outcome \<times> 'w world) option"

definition bus_maxMessages :: "('v, 'p, 'w) busWorker \<Rightarrow> int" where
  "bus_maxMessages w = (if bw_MaxMessages w \<le> 0 then 10 else bw_MaxMessages w)"

definition bus_errorBackoff :: "('v, 'p, 'w) busWorker \<Rightarrow> int" where
  "bus_errorBackoff w = (if bw_ErrorBackoff w = 0 then 1000000000 else bw_ErrorBackoff w)"

definition bus_topicKey :: "('v, 'p, 'w) busWorker \<Rightarrow> string" where
  "bus_topicKey w =
    (if rn_TopicKey (bw_ReservedNames w) \<noteq> '''' then rn_TopicKey (bw_ReservedNames w) else names_Topic (bw_BuilderNames w))"

fun stringProperties :: "(string \<times> 'p busValue) list \<Rightarrow> headers" where
  "stringProperties [] = []"
| "stringProperties ((name, BusString s) # ps) = (name, s) # stringProperties ps"
| "stringProperties ((name, BusOther p) # ps) = stringProperties ps"

definition bus_resolveMessage :: "'p busMessage \<Rightarrow> string \<Rightarrow> request" where
  "bus_resolveMessage m topicKey = attributesOrEnvelope topicKey (stringProperties (bm_Properties m)) (bm_Body m)"

definition bus_reportFailure ::
  "('v, 'p, 'w) busWorker \<Rightarrow> 'p busMessage \<Rightarrow> response \<Rightarrow> 'w world \<Rightarrow> unit outcome \<times> 'w world" where
  "bus_reportFailure w m resp x = (case bw_OnFailure w of None \<Rightarrow> (Return (), x) | Some hook \<Rightarrow> hook (bm_MessageID m) resp x)"

definition optionalString :: "string \<Rightarrow> string option" where
  "optionalString s = (if s = '''' then None else Some s)"

definition bus_settle ::
  "('v, 'p, 'w) busWorker \<Rightarrow> ctx \<Rightarrow> 'p busMessage \<Rightarrow> settledOutcome \<Rightarrow> 'w world \<Rightarrow> unit outcome \<times> 'w world" where
  "bus_settle w c m o1 x = (let settleCtx = withoutCancel c in
    andThen (if \<not> oc_Successful o1 then bus_reportFailure w m (oc_Response o1) x else (Return (), x)) (\<lambda>_ x1.
      if oc_Acknowledge o1 then (case rc_Complete (bw_API w) settleCtx m x1 of
          (Some err, x2) \<Rightarrow> bus_reportFailure w m undeleted x2
        | (None, x2) \<Rightarrow> (Return (), x2))
      else if bw_AckMode w = AckModeDeadLetter then
        (Return (), snd (rc_DeadLetter (bw_API w) settleCtx m (optionalString (bw_DeadLetterReason w))
          (optionalString (bw_DeadLetterDescription w)) x1))
      else (Return (), snd (rc_Abandon (bw_API w) settleCtx m x1))))"

fun bus_messages ::
  "'v marshaller \<Rightarrow> ctx \<Rightarrow> ('v, 'p, 'w) busWorker \<Rightarrow> 'p busMessage list \<Rightarrow> 'w world \<Rightarrow> unit outcome \<times> 'w world" where
  "bus_messages marshal c w [] x = (Return (), x)"
| "bus_messages marshal c w (m # ms) x =
    andThen (deliver (bw_Settlement w) marshal (bw_Pipeline w) c (bus_resolveMessage m (bus_topicKey w)) x) (\<lambda>o1 x1.
    andThen (bus_settle w c m o1 x1) (\<lambda>_ x2. bus_messages marshal c w ms x2))"

definition bus_poll ::
  "'v marshaller \<Rightarrow> ctx \<Rightarrow> ('v, 'p, 'w) busWorker \<Rightarrow> 'w world \<Rightarrow> goerr option outcome \<times> 'w world" where
  "bus_poll marshal c w x = (case rc_Receive (bw_API w) c (bus_maxMessages w) x of
      (Inl err, x1) \<Rightarrow> (Return (Some err), x1)
    | (Inr ms, x1) \<Rightarrow> andThen (bus_messages marshal c w ms x1) (\<lambda>_ x2. (Return None, x2)))"

partial_function (option) bus_Run ::
  "'v marshaller \<Rightarrow> ctx \<Rightarrow> ('v, 'p, 'w) busWorker \<Rightarrow> 'w world \<Rightarrow> (goerr outcome \<times> 'w world) option" where
  "bus_Run marshal c w x = (case ctxErr c (fst x) of
      Some e \<Rightarrow> Some (Return e, x)
    | None \<Rightarrow> (case bus_poll marshal c w x of (res, x1) \<Rightarrow> (case res of
        Panic m \<Rightarrow> Some (Panic m, x1)
      | Return None \<Rightarrow> bus_Run marshal c w x1
      | Return (Some err) \<Rightarrow> (case ctxErr c (fst x1) of
          Some e \<Rightarrow> Some (Return e, x1)
        | None \<Rightarrow> bus_Run marshal c w (sleepContext c (bus_errorBackoff w) x1)))))"

section \<open>Properties\<close>

text \<open>A broker of one message: it notes how each delivery was settled, and delivers again what was requeued.\<close>

datatype verdict = Acked | Nacked bool

definition notingChannel :: "('h, verdict list \<times> 'w) amqpChannel" where
  "notingChannel = \<lparr>ch_Ack = (\<lambda>d x. (None, fst x, Acked # fst (snd x), snd (snd x))),
     ch_Nack = (\<lambda>d requeue x. (None, fst x, Nacked requeue # fst (snd x), snd (snd x)))\<rparr>"

text \<open>\<open>redelivered sprint marshal c cn d n\<close>: the delivery \<open>d\<close> is in the queue after \<open>n\<close> dispatches of its message.\<close>

inductive redelivered ::
  "('h \<Rightarrow> string) \<Rightarrow> 'v marshaller \<Rightarrow> ctx \<Rightarrow> ('v, 'h, verdict list \<times> 'w) rabbitConsumer \<Rightarrow> 'h amqpDelivery \<Rightarrow> nat \<Rightarrow> bool"
  for sprint marshal c cn where
  sent: "\<not> dl_Redelivered d \<Longrightarrow> redelivered sprint marshal c cn d 0"
| again: "redelivered sprint marshal c cn d n \<Longrightarrow>
    rabbit_handle sprint marshal c cn d x = (Return (), t, Nacked True # noted, w) \<Longrightarrow> fst (snd x) = noted \<Longrightarrow>
    redelivered sprint marshal c cn (d\<lparr>dl_Redelivered := True\<rparr>) (Suc n)"

definition quietDispatch ::
  "('h \<Rightarrow> string) \<Rightarrow> 'v marshaller \<Rightarrow> ctx \<Rightarrow> ('v, 'h, verdict list \<times> 'w) rabbitConsumer \<Rightarrow> bool" where
  "quietDispatch sprint marshal c cn \<longleftrightarrow> rb_OnFailure cn = None \<and>
     (\<forall>d x. fst (snd (snd (deliver (rb_Settlement cn) marshal (rb_Pipeline cn) c (rabbit_resolveRequest sprint cn d) x))) = fst (snd x))"

lemma handle_requeues:
  assumes "rb_Channel cn = notingChannel" "quietDispatch sprint marshal c cn"
    and "rabbit_handle sprint marshal c cn d x = (Return (), t, Nacked True # noted, w)" "fst (snd x) = noted"
  shows "\<not> rb_NoRequeue cn \<and> \<not> dl_Redelivered d"
proof -
  obtain o1 t1 n1 w1 where s: "deliver (rb_Settlement cn) marshal (rb_Pipeline cn) c (rabbit_resolveRequest sprint cn d) x =
      (o1, t1, n1, w1)" by (metis prod_cases4)
  have n1: "n1 = noted" using assms(2,4) s unfolding quietDispatch_def by (metis fst_conv snd_conv)
  have "rb_OnFailure cn = None" using assms(2) by (simp add: quietDispatch_def)
  then show ?thesis
    using assms(1,3) s n1
    by (cases o1) (auto simp: rabbit_handle_def notingChannel_def split: if_splits)
qed

text \<open>C35 (bounds). A message whose handler always fails does not loop: however often the broker returns
  what is requeued, a RabbitMQ consumer dispatches one message at most twice, and only once when
  requeueing is switched off.\<close>

theorem poison_message_bounded:
  assumes "rb_Channel cn = notingChannel" and "quietDispatch sprint marshal c cn"
    and "redelivered sprint marshal c cn d n"
  shows "n \<le> 1 \<and> (rb_NoRequeue cn \<longrightarrow> n = 0)"
proof -
  from assms(3) have "n \<le> 1 \<and> (rb_NoRequeue cn \<longrightarrow> n = 0) \<and> (n = 1 \<longrightarrow> dl_Redelivered d)"
  proof (induction rule: redelivered.induct)
    case (again d n x t noted w)
    with handle_requeues [OF assms(1,2) again.hyps(2,3)] show ?case by auto
  qed simp
  then show ?thesis by simp
qed

definition witnessRabbit :: "(nat, unit, verdict list \<times> unit) rabbitConsumer" where
  "witnessRabbit = \<lparr>rb_Channel = notingChannel, rb_Pipeline = None,
     rb_BuilderNames = \<lparr>rn_TopicKey = '''', rn_CorrelationKey = '''', rn_VersionKey = ''''\<rparr>, rb_NoRequeue = False,
     rb_Settlement = zeroSettlement, rb_ReservedNames = \<lparr>rn_TopicKey = '''', rn_CorrelationKey = '''', rn_VersionKey = ''''\<rparr>,
     rb_OnFailure = None\<rparr>"

definition witnessDelivery :: "unit amqpDelivery" where
  "witnessDelivery = \<lparr>dl_Headers = [], dl_RoutingKey = ''orders'', dl_Body = '''', dl_Redelivered = False\<rparr>"

theorem poison_message_bounded_witness:
  "\<forall>sprint marshal. redelivered sprint marshal background witnessRabbit (witnessDelivery\<lparr>dl_Redelivered := True\<rparr>) 1 \<and>
    (\<forall>n. redelivered sprint marshal background witnessRabbit (witnessDelivery\<lparr>dl_Redelivered := True\<rparr>) n \<longrightarrow> n \<le> 1)"
proof (intro allI conjI impI)
  fix sprint :: "unit \<Rightarrow> string" and marshal :: "nat marshaller" and n
  have quiet: "quietDispatch sprint marshal background witnessRabbit"
    unfolding quietDispatch_def
  proof (intro conjI allI)
    show "rb_OnFailure witnessRabbit = None" by (simp add: witnessRabbit_def)
    fix d :: "unit amqpDelivery" and x :: "(verdict list \<times> unit) world"
    obtain o1 where "deliver zeroSettlement marshal None background (rabbit_resolveRequest sprint witnessRabbit d) x = (Return o1, x)"
      using witness_dispatch by blast
    then show "fst (snd (snd (deliver (rb_Settlement witnessRabbit) marshal (rb_Pipeline witnessRabbit) background
        (rabbit_resolveRequest sprint witnessRabbit d) x))) = fst (snd x)" by (simp add: witnessRabbit_def)
  qed
  obtain o1 where d: "deliver zeroSettlement marshal None background (rabbit_resolveRequest sprint witnessRabbit witnessDelivery) (0, [], ()) =
      (Return o1, 0, [] :: verdict list, ())" "\<not> oc_Acknowledge o1"
    using witness_dispatch [of zeroSettlement marshal background "rabbit_resolveRequest sprint witnessRabbit witnessDelivery"
        "(0, [] :: verdict list, ())"]
    by (auto simp: zeroSettlement_def)
  have fields: "rb_Settlement witnessRabbit = zeroSettlement" "rb_Pipeline witnessRabbit = None"
    "rb_OnFailure witnessRabbit = None" "rb_Channel witnessRabbit = notingChannel" "\<not> rb_NoRequeue witnessRabbit"
    "\<not> dl_Redelivered witnessDelivery"
    by (simp_all add: witnessRabbit_def witnessDelivery_def)
  have "rabbit_handle sprint marshal background witnessRabbit witnessDelivery (0, [], ()) = (Return (), 0, [Nacked True], ())"
    using d by (simp add: rabbit_handle_def fields) (simp add: notingChannel_def)
  from redelivered.again [OF redelivered.sent this]
  show "redelivered sprint marshal background witnessRabbit (witnessDelivery\<lparr>dl_Redelivered := True\<rparr>) 1"
    by (simp add: witnessDelivery_def)
  have ch: "rb_Channel witnessRabbit = notingChannel" by (simp add: witnessRabbit_def)
  assume "redelivered sprint marshal background witnessRabbit (witnessDelivery\<lparr>dl_Redelivered := True\<rparr>) n"
  from poison_message_bounded [OF ch quiet this] show "n \<le> 1" by simp
qed

text \<open>The redelivery in place goes on to the commit only from an acknowledged attempt.\<close>

lemma redeliver_acknowledged:
  assumes "kafka_redeliver marshal c cn msg x = Some (Return True, y)"
  shows "\<exists>z. kafka_attempt marshal c cn msg z = (Return True, y)"
proof -
  have "fst (Return True, y) = Return True \<longrightarrow> (\<exists>z. kafka_attempt marshal c cn msg z = (Return True, snd (Return True, y)))"
  proof (rule kafka_redeliver.raw_induct [where xa = "((((marshal, c), cn), msg), x)" and y = "(Return True, y)"
        and P = "\<lambda>marshal c cn msg x r. fst r = Return True \<longrightarrow> (\<exists>z. kafka_attempt marshal c cn msg z = (Return True, snd r))",
        unfolded prod.case, OF _ assms], goal_cases)
    case (1 f marshal c cn msg x r)
    note IH = 1(1) and body = 1(2)
    obtain res x1 where k: "kafka_attempt marshal c cn msg x = (res, x1)" by (rule prod.exhaust)
    show ?case
    proof (cases "res = Return False")
      case True
      let ?x2 = "sleepContext c (kafka_errorBackoff cn) x1"
      show ?thesis
      proof (cases "ctxErr c (fst ?x2) = None")
        case live: True
        have "f marshal c cn msg ?x2 = Some r" using body k True live by simp
        from IH [OF this] show ?thesis .
      next
        case False
        then have "r = (Return False, ?x2)" using body k True by simp
        then show ?thesis by simp
      qed
    next
      case False
      then have "r = (res, x1)" using body k by (cases res) auto
      then show ?thesis using k by (auto simp del: split_paired_Ex)
    qed
  qed
  then show ?thesis by simp
qed

text \<open>With redelivery on, what a consumer goes on to commit was handled successfully.\<close>

lemma commits_only_successes:
  assumes "kc_Settlement cn = \<lparr>sm_Delivery = AtLeastOnce, IgnoreUnmatchedTopics = False\<rparr>"
    and "kafka_redeliver marshal c cn msg x = Some (Return True, y)"
  shows "\<exists>z o1 z1. deliver (kc_Settlement cn) marshal (kc_Pipeline cn) c
      (kafkaMessage_resolveRequest msg (kafka_topicKey cn)) z = (Return o1, z1) \<and> oc_Successful o1"
proof -
  obtain z where k: "kafka_attempt marshal c cn msg z = (Return True, y)" using redeliver_acknowledged [OF assms(2)] by blast
  obtain o' z1 where d: "deliver (kc_Settlement cn) marshal (kc_Pipeline cn) c
      (kafkaMessage_resolveRequest msg (kafka_topicKey cn)) z = (o', z1)" by (rule prod.exhaust)
  have sm: "kafka_settlement cn = kc_Settlement cn" using assms(1) by (simp add: kafka_settlement_def)
  obtain o1 where o': "o' = Return o1"
    using k d sm by (cases o') (auto simp: kafka_attempt_def)
  have "oc_Acknowledge o1"
    using k d sm o' by (auto simp: kafka_attempt_def andThen_def split: option.splits prod.splits outcome.splits if_splits)
  moreover have "oc_Acknowledge o1 \<longleftrightarrow> oc_Successful o1"
    using d o' assms(1) by (auto simp: deliver_def Settlement_Dispatch_def Settlement_DispatchTopic_def andThen_def
        split: prod.splits outcome.splits)
  ultimately show ?thesis using d o' by blast
qed

end
