(* ===== verification/Jcs.thy ===== *)
theory Jcs
  imports WireJson GoStrings Complex_Main
begin

text \<open>
  Canonical JSON (\<^verbatim>\<open>internal/jcs/jcs.go\<close>), the scheme of RFC 8785: the check for lone surrogates, the
  decoding that refuses duplicate names, the order of names by their UTF-16 code units, and the
  canonical text of strings, numbers and values. A finite float64 is known by what
  \<^verbatim>\<open>strconv.FormatFloat(f, 'e', -1, 64)\<close> tells of it, its sign, its shortest digits and its decimal
  exponent; \<^verbatim>\<open>strconv.ParseFloat\<close>, the conversion of an integer to a float64 and the error for a
  malformed text are arguments.
\<close>

section \<open>UTF-16\<close>

text \<open>The code point of one well-formed UTF-8 sequence.\<close>

definition runeOf :: "string \<Rightarrow> nat" where
  "runeOf r = (case r of
      [a] \<Rightarrow> of_char a
    | [a, b] \<Rightarrow> (of_char a - 192) * 64 + (of_char b - 128)
    | [a, b, c] \<Rightarrow> (of_char a - 224) * 4096 + (of_char b - 128) * 64 + (of_char c - 128)
    | [a, b, c, d] \<Rightarrow> (of_char a - 240) * 262144 + (of_char b - 128) * 4096 + (of_char c - 128) * 64 + (of_char d - 128)
    | _ \<Rightarrow> 65533)"

text \<open>\<^verbatim>\<open>[]rune(s)\<close>: a byte that starts no well-formed sequence is U+FFFD.\<close>

function runes :: "string \<Rightarrow> nat list" where
  "runes [] = []"
| "runes (c # cs) = (case runeLen (c # cs) of
      0 \<Rightarrow> 65533 # runes cs
    | Suc n \<Rightarrow> runeOf (c # take n cs) # runes (drop n cs))"
  by pat_completeness auto
termination by (relation "measure length") auto

declare runes.simps [simp del]

text \<open>\<^verbatim>\<open>utf16.Encode\<close>.\<close>

definition utf16Rune :: "nat \<Rightarrow> nat list" where
  "utf16Rune r =
    (if r < 55296 \<or> 57344 \<le> r \<and> r < 65536 then [r]
     else if 65536 \<le> r \<and> r < 1114112
       then [55296 + (r - 65536) div 1024, 56320 + (r - 65536) mod 1024]
     else [65533])"

definition utf16Units :: "string \<Rightarrow> nat list" where
  "utf16Units s = concat (map utf16Rune (runes s))"

text \<open>The loop of the comparison: the first unit that differs decides, then the length.\<close>

fun unitsLess :: "nat list \<Rightarrow> nat list \<Rightarrow> bool" where
  "unitsLess (a # as') (b # bs) = (if a \<noteq> b then a < b else unitsLess as' bs)"
| "unitsLess as' bs = (length as' < length bs)"

lemma unitsLess_less: "unitsLess a b \<longleftrightarrow> a < b"
proof (induction a b rule: unitsLess.induct, goal_cases)
  case (2 bs)
  show ?case by (cases bs) simp_all
qed auto

definition sortUTF16 :: "string list \<Rightarrow> string list" where
  "sortUTF16 keys = sort_key utf16Units keys"

section \<open>Lone surrogates\<close>

definition errLoneSurrogate :: goerr where
  "errLoneSurrogate = ErrNew ''jcs: a string holds a lone UTF-16 surrogate''"

definition hex4At :: "string \<Rightarrow> nat option" where
  "hex4At s = (case s of a # b # c # d # _ \<Rightarrow> hex4 a b c d | _ \<Rightarrow> None)"

text \<open>The loop at one index: whether it is inside a string literal, and the rest of the input.\<close>

function surrogatesFrom :: "bool \<Rightarrow> string \<Rightarrow> goerr option" where
  "surrogatesFrom inString [] = None"
| "surrogatesFrom inString (c # cs) =
    (if \<not> inString then surrogatesFrom (c = quoteC) cs
     else if c = quoteC then surrogatesFrom False cs
     else if c = backslashC then
       (if cs \<noteq> [] \<and> hd cs = CHR ''u'' then (case hex4At (tl cs) of
            None \<Rightarrow> surrogatesFrom True (tl cs)
          | Some r \<Rightarrow>
              if 55296 \<le> r \<and> r \<le> 56319 then
                (case (if take 2 (drop 5 cs) = [backslashC, CHR ''u''] then hex4At (drop 7 cs) else None) of
                   None \<Rightarrow> Some errLoneSurrogate
                 | Some low \<Rightarrow>
                     if low < 56320 \<or> low > 57343 then Some errLoneSurrogate
                     else surrogatesFrom True (drop 7 cs))
              else if 56320 \<le> r \<and> r \<le> 57343 then Some errLoneSurrogate
              else surrogatesFrom True (tl cs))
        else surrogatesFrom True (tl cs))
     else surrogatesFrom True cs)"
  by pat_completeness auto
termination by (relation "measure (length \<circ> snd)") auto

declare surrogatesFrom.simps [simp del]

definition checkSurrogates :: "string \<Rightarrow> goerr option" where
  "checkSurrogates input = surrogatesFrom False input"

section \<open>Numbers\<close>

text \<open>
  A float64: its sign, the shortest digits that round-trip, and the exponent of the first digit. The
  sign of a zero, which no operation below looks at, is left out.
\<close>

datatype double = NaN | Infinite bool | Zero | Finite bool string int

definition doubleText :: "double \<Rightarrow> string" where
  "doubleText f = (case f of NaN \<Rightarrow> ''NaN'' | Infinite neg \<Rightarrow> (if neg then ''-Inf'' else ''+Inf'') | _ \<Rightarrow> '''')"

text \<open>\<^verbatim>\<open>strconv.FormatFloat(f, 'e', -1, 64)\<close>: the exponent has a sign and at least two digits.\<close>

definition formatE :: "string \<Rightarrow> int \<Rightarrow> string" where
  "formatE ds x = hd ds # (if length ds > 1 then CHR ''.'' # tl ds else []) @
    CHR ''e'' # (if x < 0 then CHR ''-'' else CHR ''+'') #
    (if \<bar>x\<bar> < 10 then ''0'' else []) @ natText (nat \<bar>x\<bar>)"

text \<open>\<^verbatim>\<open>strconv.Atoi\<close> of an exponent.\<close>

definition atoi :: "string \<Rightarrow> int" where
  "atoi s = (case s of
      [] \<Rightarrow> 0
    | c # cs \<Rightarrow> if c = CHR ''-'' then - int (natOf cs) else if c = CHR ''+'' then int (natOf cs) else int (natOf s))"

definition appendNumber :: "string \<Rightarrow> double \<Rightarrow> goerr + string" where
  "appendNumber buf f = (case f of
      NaN \<Rightarrow> Inl (ErrNew (''jcs: '' @ doubleText f @ '' is not a JSON number''))
    | Infinite _ \<Rightarrow> Inl (ErrNew (''jcs: '' @ doubleText f @ '' is not a JSON number''))
    | Zero \<Rightarrow> Inr (buf @ ''0'')
    | Finite neg shortest exponent \<Rightarrow>
       (let buf = (if neg then buf @ ''-'' else buf);
            e = formatE shortest exponent;
            mantissa = takeWhile (\<lambda>c. c \<noteq> CHR ''e'') e;
            digits = takeWhile (\<lambda>c. c \<noteq> CHR ''.'') mantissa @ drop 1 (dropWhile (\<lambda>c. c \<noteq> CHR ''.'') mantissa);
            x = atoi (drop 1 (dropWhile (\<lambda>c. c \<noteq> CHR ''e'') e));
            k = int (length digits);
            n = x + 1 in
        Inr (if k \<le> n \<and> n \<le> 21 then buf @ digits @ replicate (nat (n - k)) (CHR ''0'')
          else if 0 < n \<and> n \<le> 21 then buf @ take (nat n) digits @ ''.'' @ drop (nat n) digits
          else if -6 < n \<and> n \<le> 0 then buf @ ''0.'' @ replicate (nat (- n)) (CHR ''0'') @ digits
          else buf @ [hd digits] @ (if k > 1 then ''.'' @ tl digits else []) @ ''e'' @
            (if n - 1 \<ge> 0 then ''+'' else []) @ intText (n - 1))))"

section \<open>Values\<close>

text \<open>The generic trees that \<^verbatim>\<open>Append\<close> accepts; any other value is known by its type.\<close>

datatype generic =
    GNil
  | GBool bool
  | GString string
  | GNumber string
  | GFloat double
  | GInt int
  | GMap "(string \<times> generic) list"
  | GSlice "generic list"
  | GMaps "(string \<times> generic) list list"
  | GStrings "string list"
  | GOther string

record floats =
  fl_parse :: "string \<Rightarrow> goerr + double"
  fl_ofInt :: "int \<Rightarrow> double"

definition hexDigits :: string where "hexDigits = ''0123456789abcdef''"

definition appendChar :: "char \<Rightarrow> string" where
  "appendChar c =
    (if c = quoteC then [backslashC, quoteC]
     else if c = backslashC then [backslashC, backslashC]
     else if c = CHR 0x08 then [backslashC, CHR ''b'']
     else if c = CHR 0x09 then [backslashC, CHR ''t'']
     else if c = CHR 0x0A then [backslashC, CHR ''n'']
     else if c = CHR 0x0C then [backslashC, CHR ''f'']
     else if c = CHR 0x0D then [backslashC, CHR ''r'']
     else if (of_char c :: nat) < 32
       then [backslashC, CHR ''u'', CHR ''0'', CHR ''0'', hexDigits ! (of_char c div 16), hexDigits ! (of_char c mod 16)]
     else [c])"

definition appendString :: "string \<Rightarrow> string \<Rightarrow> string" where
  "appendString buf s = buf @ [quoteC] @ concat (map appendChar s) @ [quoteC]"

text \<open>A loop over elements that writes a comma before every one but the first and stops at an error.\<close>

fun appendEach :: "('a \<Rightarrow> string \<Rightarrow> goerr + string) \<Rightarrow> bool \<Rightarrow> 'a list \<Rightarrow> string \<Rightarrow> goerr + string" where
  "appendEach f first [] buf = Inr buf"
| "appendEach f first (x # xs) buf = (case f x (if first then buf else buf @ '','') of
      Inl err \<Rightarrow> Inl err
    | Inr buf' \<Rightarrow> appendEach f False xs buf')"

lemma appendEach_cong [fundef_cong]:
  "xs = ys \<Longrightarrow> buf = buf' \<Longrightarrow> first = first' \<Longrightarrow> (\<And>x b. x \<in> set ys \<Longrightarrow> f x b = g x b) \<Longrightarrow>
   appendEach f first xs buf = appendEach g first' ys buf'"
proof (induction xs arbitrary: ys buf buf' first first')
  case (Cons x xs)
  then obtain zs where "ys = x # zs" "zs = xs" by auto
  moreover have "f x b = g x b" for b using Cons.prems(4) calculation by simp
  moreover have "appendEach f False xs b = appendEach g False xs b" for b
    using Cons.IH [of xs b b False False] Cons.prems(4) calculation by simp
  ultimately show ?case using Cons.prems(2,3) by (simp split: sum.split)
qed simp

function Append :: "floats \<Rightarrow> string \<Rightarrow> generic \<Rightarrow> goerr + string" where
  "Append fl buf GNil = Inr (buf @ ''null'')"
| "Append fl buf (GBool t) = Inr (buf @ (if t then ''true'' else ''false''))"
| "Append fl buf (GString t) = Inr (appendString buf t)"
| "Append fl buf (GNumber t) = (case fl_parse fl t of
      Inl err \<Rightarrow> Inl (ErrWrap (''jcs: number '' @ t @ '': '' @ errorText err) [err])
    | Inr f \<Rightarrow> appendNumber buf f)"
| "Append fl buf (GFloat t) = appendNumber buf t"
| "Append fl buf (GInt t) = appendNumber buf (fl_ofInt fl t)"
| "Append fl buf (GMap t) = (case appendEach (\<lambda>(k, v) b. Append fl (appendString b k @ '':'') v) True
       (sort_key (utf16Units \<circ> fst) t) (buf @ ''{'') of
      Inl err \<Rightarrow> Inl err
    | Inr b \<Rightarrow> Inr (b @ ''}''))"
| "Append fl buf (GSlice t) = (case appendEach (\<lambda>e b. Append fl b e) True t (buf @ ''['') of
      Inl err \<Rightarrow> Inl err
    | Inr b \<Rightarrow> Inr (b @ '']''))"
| "Append fl buf (GMaps t) = (case appendEach (\<lambda>m b. Append fl b (GMap m)) True t (buf @ ''['') of
      Inl err \<Rightarrow> Inl err
    | Inr b \<Rightarrow> Inr (b @ '']''))"
| "Append fl buf (GStrings t) = (case appendEach (\<lambda>e b. Append fl b (GString e)) True t (buf @ ''['') of
      Inl err \<Rightarrow> Inl err
    | Inr b \<Rightarrow> Inr (b @ '']''))"
| "Append fl buf (GOther typ) = Inl (ErrNew (''jcs: unsupported value of type '' @ typ))"
  by pat_completeness auto
termination
proof (relation "measures [\<lambda>(fl, buf, g). size g, \<lambda>(fl, buf, g). case g of GStrings _ \<Rightarrow> 1 | _ \<Rightarrow> 0]", auto)
  fix t :: "(string \<times> generic) list" and k v
  assume "(k, v) \<in> set t"
  then show "size v < Suc (size_list (size_prod (\<lambda>x. 0) size) t)"
    by (induction t) auto
next
  fix t :: "generic list" and e
  assume "e \<in> set t"
  then show "size e < Suc (size_list size t)" by (induction t) auto
next
  fix t :: "(string \<times> generic) list list" and m
  assume "m \<in> set t"
  then show "size_list (size_prod (\<lambda>x. 0) size) m < size_list (size_list (size_prod (\<lambda>x. 0) size)) t"
    by (induction t) auto
qed

declare Append.simps [simp del]

section \<open>Decoding\<close>

text \<open>
  \<^verbatim>\<open>decodeValue\<close> over the tokens of a well-formed value: a name that an object has already is refused
  before its value is read.
\<close>

fun decodeValue :: "json \<Rightarrow> goerr + generic"
  and decodeElements :: "json list \<Rightarrow> goerr + generic list"
  and decodeMembers :: "string list \<Rightarrow> (string \<times> json) list \<Rightarrow> goerr + (string \<times> generic) list" where
  "decodeValue JNull = Inr GNil"
| "decodeValue (JBool b) = Inr (GBool b)"
| "decodeValue (JNum t) = Inr (GNumber t)"
| "decodeValue (JStr t) = Inr (GString t)"
| "decodeValue (JArr js) = (case decodeElements js of Inl err \<Rightarrow> Inl err | Inr arr \<Rightarrow> Inr (GSlice arr))"
| "decodeValue (JObj ms) = (case decodeMembers [] ms of Inl err \<Rightarrow> Inl err | Inr obj \<Rightarrow> Inr (GMap obj))"
| "decodeElements [] = Inr []"
| "decodeElements (j # js) = (case decodeValue j of
      Inl err \<Rightarrow> Inl err
    | Inr v \<Rightarrow> (case decodeElements js of Inl err \<Rightarrow> Inl err | Inr arr \<Rightarrow> Inr (v # arr)))"
| "decodeMembers seen [] = Inr []"
| "decodeMembers seen ((key, j) # ms) =
    (if key \<in> set seen then Inl (ErrNew (''jcs: duplicate member name '' @ goQuote key))
     else (case decodeValue j of
         Inl err \<Rightarrow> Inl err
       | Inr v \<Rightarrow> (case decodeMembers (key # seen) ms of Inl err \<Rightarrow> Inl err | Inr obj \<Rightarrow> Inr ((key, v) # obj))))"

text \<open>
  A text that is not JSON up to the end of its first value is refused with the decoder's error.
\<close>

definition Transform :: "(string \<Rightarrow> goerr) \<Rightarrow> floats \<Rightarrow> string \<Rightarrow> goerr + string" where
  "Transform decoderError fl input =
    (if \<not> validText input then Inl (ErrNew ''jcs: input is not valid UTF-8'')
     else (case checkSurrogates input of
         Some err \<Rightarrow> Inl err
       | None \<Rightarrow> (case parseValue (2 * length input + 2) input of
           None \<Rightarrow> Inl (ErrWrap (''jcs: '' @ errorText (decoderError input)) [decoderError input])
         | Some (j, rest) \<Rightarrow> (case decodeValue j of
             Inl err \<Rightarrow> Inl err
           | Inr v \<Rightarrow>
               if skipBlanks rest \<noteq> [] then Inl (ErrNew ''jcs: trailing data after the JSON value'')
               else Append fl [] v))))"

section \<open>What a number literal denotes\<close>

definition exponentOf :: "string \<Rightarrow> int" where
  "exponentOf s = (case s of [] \<Rightarrow> 0 | e # ds \<Rightarrow> atoi ds)"

definition literalValue :: "string \<Rightarrow> rat" where
  "literalValue s =
    (let neg = s \<noteq> [] \<and> hd s = CHR ''-'';
         u = (if neg then tl s else s);
         ip = takeWhile isDigit u;
         r = dropWhile isDigit u;
         dot = r \<noteq> [] \<and> hd r = CHR ''.'';
         fp = (if dot then takeWhile isDigit (tl r) else []);
         ex = (if dot then dropWhile isDigit (tl r) else r) in
     (if neg then -1 else 1) * of_nat (natOf (ip @ fp)) * 10 powi (exponentOf ex - int (length fp)))"

text \<open>A literal put together from its sign, the digits around the point and its exponent.\<close>

definition literalOf :: "bool \<Rightarrow> string \<Rightarrow> string \<Rightarrow> string \<Rightarrow> string" where
  "literalOf neg ip fp ex = (if neg then ''-'' else []) @ ip @ (if fp = [] then [] else CHR ''.'' # fp) @ ex"

definition properParts :: "string \<Rightarrow> string \<Rightarrow> string \<Rightarrow> bool" where
  "properParts ip fp ex \<longleftrightarrow> ip \<noteq> [] \<and> list_all isDigit ip \<and> (hd ip \<noteq> CHR ''0'' \<or> length ip = 1) \<and>
    list_all isDigit fp \<and> validExponent ex"

lemma exponent_head: "validExponent ex \<Longrightarrow> ex = [] \<or> (\<exists>ds. ex = CHR ''e'' # ds \<or> ex = CHR ''E'' # ds)"
  by (auto simp: validExponent_def split: list.splits)

lemma run_exponent:
  assumes "list_all isDigit ds" "validExponent ex"
  shows "takeWhile isDigit (ds @ ex) = ds" "dropWhile isDigit (ds @ ex) = ex"
    "takeWhile isDigit (ds @ CHR ''.'' # r) = ds" "dropWhile isDigit (ds @ CHR ''.'' # r) = CHR ''.'' # r"
proof -
  have dot: "\<not> isDigit (CHR ''.'')" by (simp add: isDigit_def)
  have "ex = [] \<or> \<not> isDigit (hd ex)" using exponent_head [OF assms(2)] by (auto simp: isDigit_def)
  then have "takeWhile isDigit ex = []" "dropWhile isDigit ex = ex" by (cases ex; simp)+
  with assms(1) dot show "takeWhile isDigit (ds @ ex) = ds" "dropWhile isDigit (ds @ ex) = ex"
    "takeWhile isDigit (ds @ CHR ''.'' # r) = ds" "dropWhile isDigit (ds @ CHR ''.'' # r) = CHR ''.'' # r"
    by (simp_all add: list_all_iff)
qed

lemma digit_not_sign: "list_all isDigit ip \<Longrightarrow> ip \<noteq> [] \<Longrightarrow> hd ip \<noteq> CHR ''-''"
  by (cases ip) (auto simp: isDigit_def)

lemma literal_run:
  assumes "properParts ip fp ex"
  shows "validNumber (literalOf neg ip fp ex)" and "list_all numberChar ex \<Longrightarrow> list_all numberChar (literalOf neg ip fp ex)"
    and "literalValue (literalOf neg ip fp ex) =
      (if neg then -1 else 1) * of_nat (natOf (ip @ fp)) * 10 powi (exponentOf ex - int (length fp))"
proof -
  have p: "ip \<noteq> []" "list_all isDigit ip" "hd ip \<noteq> CHR ''0'' \<or> length ip = 1" "list_all isDigit fp" "validExponent ex"
    using assms by (simp_all add: properParts_def)
  note runs = run_exponent [OF p(2) p(5)] run_exponent [OF p(4) p(5)]
  obtain c cs where ip: "ip = c # cs" using p(1) by (cases ip) auto
  have c: "c \<noteq> CHR ''-''" using digit_not_sign [OF p(2,1)] ip by simp
  have noDot: "ex \<noteq> [] \<Longrightarrow> hd ex \<noteq> CHR ''.''" using exponent_head [OF p(5)] by auto
  define tail where "tail = (if fp = [] then [] else CHR ''.'' # fp) @ ex"
  have strip: "(case literalOf neg ip fp ex of c # cs \<Rightarrow> if c = CHR ''-'' then cs else literalOf neg ip fp ex | [] \<Rightarrow> []) = ip @ tail"
    using c by (simp add: literalOf_def tail_def ip)
  have run: "takeWhile isDigit (ip @ tail) = ip" "dropWhile isDigit (ip @ tail) = tail"
    using runs by (simp_all add: tail_def)
  have frac: "validFraction tail"
    using p(4,5) runs noDot by (auto simp: tail_def validFraction_def split: list.splits)
  show "validNumber (literalOf neg ip fp ex)"
    unfolding validNumber_def Let_def strip run using p(1,3) frac by simp
  show "list_all numberChar (literalOf neg ip fp ex)" if "list_all numberChar ex"
    using that p(2,4) by (auto simp: literalOf_def numberChar_def list_all_iff)
  have neg: "(literalOf neg ip fp ex \<noteq> [] \<and> hd (literalOf neg ip fp ex) = CHR ''-'') = neg"
    and u: "(if neg then tl (literalOf neg ip fp ex) else literalOf neg ip fp ex) = ip @ tail"
    using c by (auto simp: literalOf_def tail_def ip)
  have dot: "(tail \<noteq> [] \<and> hd tail = CHR ''.'') = (fp \<noteq> [])" using noDot by (auto simp: tail_def)
  show "literalValue (literalOf neg ip fp ex) =
      (if neg then -1 else 1) * of_nat (natOf (ip @ fp)) * 10 powi (exponentOf ex - int (length fp))"
    unfolding literalValue_def Let_def neg u run dot using runs by (simp add: tail_def)
qed

section \<open>The text of a number\<close>

definition properDigits :: "string \<Rightarrow> bool" where
  "properDigits ds \<longleftrightarrow> ds \<noteq> [] \<and> list_all isDigit ds \<and> hd ds \<noteq> CHR ''0''"

definition exponentText :: "int \<Rightarrow> string" where
  "exponentText x = CHR ''e'' # (if x < 0 then CHR ''-'' else CHR ''+'') #
    (if \<bar>x\<bar> < 10 then ''0'' else []) @ natText (nat \<bar>x\<bar>)"

lemma digits_padded: "list_all isDigit ((if b then ''0'' else []) @ natText n)"
  "natOf ((if b then ''0'' else []) @ natText n) = n"
  using natText_digits [of n] natOf_natText [of n] by (simp_all add: isDigit_def natOf_def)

lemma exponentText_valid:
  "validExponent (exponentText x)" "list_all numberChar (exponentText x)" "exponentOf (exponentText x) = x"
proof -
  show "validExponent (exponentText x)"
    using digits_padded(1) [of "\<bar>x\<bar> < 10" "nat \<bar>x\<bar>"] natText_digits [of "nat \<bar>x\<bar>"]
    by (simp add: exponentText_def validExponent_def allDigits_def)
  show "list_all numberChar (exponentText x)"
    using digits_padded(1) [of "\<bar>x\<bar> < 10" "nat \<bar>x\<bar>"]
    by (auto simp: exponentText_def numberChar_def list_all_iff)
  show "exponentOf (exponentText x) = x"
    using digits_padded(2) [of "\<bar>x\<bar> < 10" "nat \<bar>x\<bar>"]
    by (auto simp: exponentText_def exponentOf_def atoi_def)
qed

lemma formatE_parts: "ds \<noteq> [] \<Longrightarrow> formatE ds x = literalOf False [hd ds] (tl ds) (exponentText x)"
  by (cases ds) (auto simp: formatE_def literalOf_def exponentText_def)

text \<open>Cutting the formatted number apart gives its digits and its exponent back.\<close>

lemma formatE_cut:
  assumes "properDigits ds"
  shows "takeWhile (\<lambda>c. c \<noteq> CHR ''e'') (formatE ds x) = hd ds # (if tl ds = [] then [] else CHR ''.'' # tl ds)"
    and "atoi (drop 1 (dropWhile (\<lambda>c. c \<noteq> CHR ''e'') (formatE ds x))) = x"
proof -
  define m where "m = hd ds # (if tl ds = [] then [] else CHR ''.'' # tl ds)"
  obtain d dr where ds: "ds = d # dr" using assms by (cases ds) (auto simp: properDigits_def)
  have f: "formatE ds x = m @ exponentText x"
    using assms by (simp add: formatE_parts properDigits_def literalOf_def m_def ds)
  have "\<forall>c \<in> set m. c \<noteq> CHR ''e''"
    using assms by (auto simp: properDigits_def list_all_iff m_def ds isDigit_def)
  then have "takeWhile (\<lambda>c. c \<noteq> CHR ''e'') (formatE ds x) = m"
    and d: "dropWhile (\<lambda>c. c \<noteq> CHR ''e'') (formatE ds x) = exponentText x"
    unfolding f by (simp_all add: exponentText_def)
  then show "takeWhile (\<lambda>c. c \<noteq> CHR ''e'') (formatE ds x) = hd ds # (if tl ds = [] then [] else CHR ''.'' # tl ds)"
    by (simp add: m_def)
  show "atoi (drop 1 (dropWhile (\<lambda>c. c \<noteq> CHR ''e'') (formatE ds x))) = x"
    using exponentText_valid(3) [of x] unfolding d by (simp add: exponentText_def exponentOf_def)
qed

lemma mantissa_digits:
  assumes "properDigits ds"
  shows "(let m = hd ds # (if tl ds = [] then [] else CHR ''.'' # tl ds) in
    takeWhile (\<lambda>c. c \<noteq> CHR ''.'') m @ drop 1 (dropWhile (\<lambda>c. c \<noteq> CHR ''.'') m)) = ds"
  using assms by (cases ds) (auto simp: properDigits_def isDigit_def Let_def)

text \<open>The layouts, by the number \<open>n\<close> of digits before the point.\<close>

definition plainDigits :: "string \<Rightarrow> int \<Rightarrow> string" where
  "plainDigits ds x = (let k = int (length ds); n = x + 1 in
    if k \<le> n \<and> n \<le> 21 then ds @ replicate (nat (n - k)) (CHR ''0'')
    else if 0 < n \<and> n \<le> 21 then take (nat n) ds @ ''.'' @ drop (nat n) ds
    else if -6 < n \<and> n \<le> 0 then ''0.'' @ replicate (nat (- n)) (CHR ''0'') @ ds
    else [hd ds] @ (if k > 1 then ''.'' @ tl ds else []) @ ''e'' @ (if n - 1 \<ge> 0 then ''+'' else []) @ intText (n - 1))"

lemma appendNumber_Finite:
  assumes "properDigits ds"
  shows "appendNumber buf (Finite neg ds x) = Inr (buf @ (if neg then ''-'' else []) @ plainDigits ds x)"
  unfolding appendNumber_def double.case Let_def formatE_cut(1) [OF assms] formatE_cut(2) [OF assms]
    mantissa_digits [OF assms, unfolded Let_def] plainDigits_def
  by (cases neg) simp_all

lemma natOf_append: "natOf (a @ b) = natOf a * 10 ^ length b + natOf b"
proof (induction b rule: rev_induct)
  case (snoc c b)
  have "natOf (a @ b @ [c]) = natOf ((a @ b) @ [c])" by simp
  then show ?case unfolding natOf_snoc using snoc by (simp add: algebra_simps)
qed (simp add: natOf_def)

lemma natOf_zeros: "natOf (replicate n (CHR ''0'')) = 0"
  by (induction n) (simp_all add: natOf_def)

lemma plain_layout:
  assumes "properDigits ds"
  obtains ip fp ex where "properParts ip fp ex" "list_all numberChar ex"
    "\<And>neg. (if neg then ''-'' else []) @ plainDigits ds x = literalOf neg ip fp ex"
    "(of_nat (natOf (ip @ fp)) :: rat) * 10 powi (exponentOf ex - int (length fp)) =
      of_nat (natOf ds) * 10 powi (x - int (length (tl ds)))"
proof -
  define k where "k = int (length ds)"
  have ds: "ds \<noteq> []" "list_all isDigit ds" "hd ds \<noteq> CHR ''0''" using assms by (simp_all add: properDigits_def)
  have k: "k \<ge> 1" "int (length (tl ds)) = k - 1" using ds(1) by (cases ds; simp add: k_def)+
  have none: "validExponent []" "exponentOf [] = 0" by (simp_all add: validExponent_def exponentOf_def)
  have zeros: "list_all isDigit (replicate m (CHR ''0''))" for m by (simp add: isDigit_def list_all_iff)
  consider (whole) "k \<le> x + 1" "x + 1 \<le> 21" | (inside) "x + 1 < k" "0 < x + 1" "x + 1 \<le> 21"
    | (small) "-6 < x + 1" "x + 1 \<le> 0" | (scientific) "\<not> (k \<le> x + 1 \<and> x + 1 \<le> 21)" "\<not> (0 < x + 1 \<and> x + 1 \<le> 21)" "\<not> (-6 < x + 1 \<and> x + 1 \<le> 0)"
    by linarith
  then show ?thesis
  proof cases
    case whole
    define z where "z = replicate (nat (x + 1 - k)) (CHR ''0'')"
    have "properParts (ds @ z) [] []" using ds none zeros by (simp add: properParts_def z_def)
    moreover have "(if neg then ''-'' else []) @ plainDigits ds x = literalOf neg (ds @ z) [] []" for neg
      using whole by (simp add: plainDigits_def Let_def literalOf_def z_def k_def)
    moreover have "x - int (length (tl ds)) = int (length z)" using whole k(2) by (simp add: z_def)
    then have "of_nat (natOf ds) * (10::rat) powi (x - int (length (tl ds))) = of_nat (natOf (ds @ z))"
      by (simp add: natOf_append z_def natOf_zeros power_int_def)
    ultimately show ?thesis using that [of "ds @ z" "[]" "[]"] none by simp
  next
    case inside
    define n where "n = nat (x + 1)"
    have n: "0 < n" "n < length ds" "int n = x + 1" using inside k by (auto simp: n_def k_def)
    have "list_all isDigit (take n ds)" "list_all isDigit (drop n ds)" "hd (take n ds) = hd ds"
      using ds(2) n(1) by (auto simp: list_all_iff hd_take dest: in_set_takeD in_set_dropD)
    then have "properParts (take n ds) (drop n ds) []" using ds n none by (simp add: properParts_def)
    moreover have "(if neg then ''-'' else []) @ plainDigits ds x = literalOf neg (take n ds) (drop n ds) []" for neg
      using inside n by (simp add: plainDigits_def Let_def literalOf_def k_def n_def [symmetric])
    moreover have "x - int (length (tl ds)) = - int (length (drop n ds))" using n k(2) by (simp add: k_def)
    ultimately show ?thesis using that [of "take n ds" "drop n ds" "[]"] none by simp
  next
    case small
    define z where "z = replicate (nat (- (x + 1))) (CHR ''0'')"
    have zero: "list_all isDigit ''0''" by (simp add: isDigit_def)
    have "properParts ''0'' (z @ ds) []" using ds none zeros zero by (simp add: properParts_def z_def)
    moreover have "(if neg then ''-'' else []) @ plainDigits ds x = literalOf neg ''0'' (z @ ds) []" for neg
      using small k ds(1) by (simp add: plainDigits_def Let_def literalOf_def z_def k_def)
    moreover have "natOf (''0'' @ z @ ds) = natOf ds"
      unfolding natOf_append z_def natOf_zeros by (simp add: natOf_def)
    moreover have "x - int (length (tl ds)) = - int (length (z @ ds))" using small k(2) by (simp add: z_def k_def)
    ultimately show ?thesis using that [of "''0''" "z @ ds" "[]"] none by simp
  next
    case scientific
    define ex where "ex = ''e'' @ (if x \<ge> 0 then ''+'' else []) @ intText x"
    have nt: "list_all isDigit (natText m)" "natText m \<noteq> []" for m using natText_digits by auto
    have ex: "validExponent ex" "list_all numberChar ex" "exponentOf ex = x"
      using nt natOf_natText [of "nat (- x)"] natOf_natText [of "nat x"] intText_number [of x]
      by (auto simp: ex_def validExponent_def allDigits_def intText_def exponentOf_def atoi_def numberChar_def)
    have "list_all isDigit (tl ds)" "isDigit (hd ds)" using ds(1,2) by (cases ds; simp)+
    then have "properParts [hd ds] (tl ds) ex" using ds ex by (simp add: properParts_def)
    moreover have "k > 1 \<longleftrightarrow> tl ds \<noteq> []" using ds(1) by (cases ds) (auto simp: k_def)
    then have "(if neg then ''-'' else []) @ plainDigits ds x = literalOf neg [hd ds] (tl ds) ex" for neg
      using scientific unfolding plainDigits_def Let_def k_def [symmetric] by (auto simp: literalOf_def ex_def)
    moreover have "[hd ds] @ tl ds = ds" using ds(1) by simp
    ultimately show ?thesis using that [of "[hd ds]" "tl ds" ex] ex by simp
  qed
qed

section \<open>The text of a string\<close>

abbreviation jcsEscape :: "string \<Rightarrow> string" where "jcsEscape s \<equiv> concat (map appendChar s)"

abbreviation highByte :: "char \<Rightarrow> bool" where "highByte c \<equiv> \<not> byteIn 0 127 c"

lemma runeTail_high:
  "runeTail n b cs = Suc m \<Longrightarrow> 128 \<le> fst b \<Longrightarrow> list_all highByte (take m cs)"
  by (cases cs) (fastforce simp: runeTail_def byteIn_def list_all_iff split: if_splits)+

lemma runeLen_high:
  assumes "runeLen (c # cs) = Suc n"
  shows "list_all highByte (take n cs)"
proof -
  define P where "P r \<longleftrightarrow> (r = Suc n \<longrightarrow> list_all highByte (take n cs))" for r
  have either: "P x \<Longrightarrow> P y \<Longrightarrow> P (if b then x else y)" for b x y by simp
  have tails: "P (runeTail m (lo, hi) cs)" if "128 \<le> lo" for m lo hi
    using runeTail_high [of m "(lo, hi)" cs n] that by (simp add: P_def)
  have "P 0" "P 1" by (simp_all add: P_def)
  then have "P (runeLen (c # cs))"
    unfolding runeLen_def list.case by (intro either tails) simp_all
  with assms show ?thesis by (simp add: P_def)
qed

lemma appendChar_high:
  assumes "highByte c"
  shows "appendChar c = [c]"
proof -
  have n: "127 < (of_char c :: nat)" using assms by (simp add: byteIn_def)
  have "c \<noteq> d" if "(of_char d :: nat) \<le> 127" for d using n that by auto
  with n show ?thesis by (simp add: appendChar_def)
qed

lemma jcsEscape_high: "list_all highByte s \<Longrightarrow> jcsEscape s = s"
  by (induction s) (simp_all add: appendChar_high)

lemma hexDigits_nth: "n < 16 \<Longrightarrow> hexDigits ! n = hexDigit n"
  by (simp add: hexDigits_def hexDigit_def)

lemma unescape_appendChar:
  assumes "byteIn 0 127 c"
  shows "unescape (appendChar c @ rest) = prepend [c] (unescape rest)"
proof -
  have n: "(of_char c :: nat) < 128" using assms by (simp add: byteIn_def)
  have simple: "unescape (backslashC # e # rest) = prepend [x] (unescape rest)"
    if "simpleEscape e = Some x" "e \<noteq> CHR ''u''" for e x
    using that by (simp add: unescape.simps(2) [of backslashC])
  show ?thesis
    using unescape_hex [OF n, of rest] unescape_plain [of c rest] assms
    by (auto simp: appendChar_def simple simpleEscape_def byteIn_def hexDigits_nth)
qed

interpretation jcs_printer: string_printer jcsEscape
proof
  fix s and rest :: string
  assume "validText s"
  then show "unescape (jcsEscape s @ quoteC # rest) = Some (s, rest)"
  proof (induction s rule: validText.induct)
    case 1
    show ?case by (simp add: unescape.simps)
  next
    case (2 c cs)
    then obtain n where n: "runeLen (c # cs) = Suc n" "validText (drop n cs)"
      by (auto simp: validText.simps(2) split: nat.splits)
    note ih = 2(1) [OF n]
    show ?case
    proof (cases "byteIn 0 127 c")
      case True
      with n(1) ih show ?thesis by (simp add: runeLen_def unescape_appendChar)
    next
      case False
      have "jcsEscape (c # cs) = c # take n cs @ jcsEscape (drop n cs)"
        using runeLen_high [OF n(1)] False jcsEscape_high [of "take n cs"]
        by (simp add: appendChar_high) (metis append_take_drop_id concat_append map_append)
      with unescape_rune [OF False n(1), of "jcsEscape (drop n cs) @ quoteC # rest"] ih show ?thesis
        by simp
    qed
  qed
qed

section \<open>The canonical value\<close>

definition numberText :: "floats \<Rightarrow> string \<Rightarrow> string" where
  "numberText fl t = (case fl_parse fl t of
      Inr (Finite neg ds x) \<Rightarrow> (if neg then ''-'' else []) @ plainDigits ds x
    | _ \<Rightarrow> ''0'')"

fun canon :: "floats \<Rightarrow> json \<Rightarrow> json" where
  "canon fl (JNum t) = JNum (numberText fl t)"
| "canon fl (JArr js) = JArr (map (canon fl) js)"
| "canon fl (JObj ms) = JObj (sort_key (utf16Units \<circ> fst) (map (\<lambda>(k, j). (k, canon fl j)) ms))"
| "canon fl j = j"

fun tree :: "json \<Rightarrow> generic" where
  "tree JNull = GNil"
| "tree (JBool b) = GBool b"
| "tree (JNum t) = GNumber t"
| "tree (JStr t) = GString t"
| "tree (JArr js) = GSlice (map tree js)"
| "tree (JObj ms) = GMap (map (\<lambda>(k, j). (k, tree j)) ms)"

fun distinctNames :: "json \<Rightarrow> bool" where
  "distinctNames (JArr js) = list_all distinctNames js"
| "distinctNames (JObj ms) = (distinct (map fst ms) \<and> list_all (\<lambda>(k, j). distinctNames j) ms)"
| "distinctNames j = True"

fun floatsFit :: "floats \<Rightarrow> json \<Rightarrow> bool" where
  "floatsFit fl (JNum t) = (\<not> isl (fl_parse fl t))"
| "floatsFit fl (JArr js) = list_all (floatsFit fl) js"
| "floatsFit fl (JObj ms) = list_all (\<lambda>(k, j). floatsFit fl j) ms"
| "floatsFit fl j = True"

lemma not_isl [simp]: "\<not> isl x \<longleftrightarrow> (\<exists>d. x = Inr d)"
  by (cases x) auto

text \<open>
  What the library documents of \<^verbatim>\<open>ParseFloat\<close> and of the shortest formatting: a literal is rounded by
  the number it denotes, to a finite value, and the shortest digits of a value read back as the value.
\<close>

definition faithfulDouble :: "floats \<Rightarrow> double \<Rightarrow> bool" where
  "faithfulDouble fl d = (case d of
      Finite neg ds x \<Rightarrow> properDigits ds \<and> fl_parse fl ((if neg then ''-'' else []) @ formatE ds x) = Inr d
    | Zero \<Rightarrow> fl_parse fl ''0'' = Inr Zero
    | _ \<Rightarrow> False)"

definition exactFloats :: "floats \<Rightarrow> bool" where
  "exactFloats fl \<longleftrightarrow>
    (\<forall>s t d. validNumber s \<and> validNumber t \<and> literalValue s = literalValue t \<and> fl_parse fl s = Inr d \<longrightarrow>
       fl_parse fl t = Inr d) \<and>
    (\<forall>s d. validNumber s \<and> fl_parse fl s = Inr d \<longrightarrow> faithfulDouble fl d)"

lemma bind_Inr:
  "(case x of Inl err \<Rightarrow> Inl err | Inr a \<Rightarrow> f a) = Inr v \<longleftrightarrow> (\<exists>a. x = Inr a \<and> f a = Inr v)"
  by (cases x) auto

lemma decodeValue_tree:
  "\<And>v. decodeValue j = Inr v \<longleftrightarrow> distinctNames j \<and> v = tree j"
  "\<And>vs. decodeElements js = Inr vs \<longleftrightarrow> list_all distinctNames js \<and> vs = map tree js"
  "\<And>vs. decodeMembers seen ms = Inr vs \<longleftrightarrow> distinct (map fst ms) \<and> set seen \<inter> fst ` set ms = {} \<and>
      list_all (\<lambda>(k, j). distinctNames j) ms \<and> vs = map (\<lambda>(k, j). (k, tree j)) ms"
proof (induction j and js and seen ms rule: decodeValue_decodeElements_decodeMembers.induct)
  case (5 js)
  then show ?case by (auto simp: bind_Inr)
next
  case (6 ms)
  then show ?case by (auto simp: bind_Inr)
next
  case (8 j js)
  then show ?case by (auto simp: bind_Inr)
next
  case (10 seen key j ms)
  show ?case
  proof (cases "key \<in> set seen")
    case True
    then show ?thesis by auto
  next
    case False
    note ih = 10(1) [OF False] 10(2) [OF False]
    show ?thesis
      using False ih by (auto simp: bind_Inr)
  qed
qed auto

section \<open>The text of a value\<close>

lemma insort_key_map: "insort_key f (g x) (map g xs) = map g (insort_key (\<lambda>x. f (g x)) x xs)"
  by (induction xs) auto

lemma sort_key_map: "sort_key f (map g xs) = map g (sort_key (\<lambda>x. f (g x)) xs)"
  by (induction xs) (simp_all add: insort_key_map)

text \<open>Sorting the members by their names visits the names in the order of \<^verbatim>\<open>sortUTF16\<close>.\<close>

lemma names_sorted: "map fst (sort_key (utf16Units \<circ> fst) ms) = sortUTF16 (map fst ms)"
  by (simp add: sortUTF16_def sort_key_map comp_def)

lemma appendEach_Inr:
  assumes "\<And>x b s. x \<in> set xs \<Longrightarrow> f x b = Inr s \<longleftrightarrow> P x \<and> s = b @ g x"
  shows "appendEach f first xs buf = Inr s \<longleftrightarrow>
    (\<forall>x \<in> set xs. P x) \<and> s = buf @ (if first then [] else if xs = [] then [] else '','') @ join '','' (map g xs)"
  using assms
proof (induction xs arbitrary: first buf)
  case (Cons x xs)
  have ih: "appendEach f False xs b = Inr s \<longleftrightarrow>
      (\<forall>x \<in> set xs. P x) \<and> s = b @ (if xs = [] then [] else '','') @ join '','' (map g xs)" for b
    using Cons.IH [of False b] Cons.prems by simp
  have x: "f x b = Inr r \<longleftrightarrow> P x \<and> r = b @ g x" for b r using Cons.prems by simp
  show ?case by (auto simp: bind_Inr ih x join_Cons)
qed auto

lemma appendEach_map: "appendEach f first (map h xs) buf = appendEach (\<lambda>x. f (h x)) first xs buf"
  by (induction xs arbitrary: first buf) (auto split: sum.split)

lemma canon_members:
  "canon fl (JObj ms) = JObj (map (\<lambda>(k, j). (k, canon fl j)) (sort_key (utf16Units \<circ> fst) ms))"
  by (simp add: sort_key_map comp_def case_prod_beta)

lemma canonical_number:
  assumes "exactFloats fl" "validNumber t" "fl_parse fl t = Inr d"
  shows "appendNumber buf d = Inr (buf @ numberText fl t)" and "validNumber (numberText fl t)"
    and "list_all numberChar (numberText fl t)" and "fl_parse fl (numberText fl t) = Inr d"
proof -
  have exact: "faithfulDouble fl d" using assms unfolding exactFloats_def by blast
  have zero: "validNumber ''0''" "list_all numberChar ''0''" by code_simp+
  have "appendNumber buf d = Inr (buf @ numberText fl t) \<and> validNumber (numberText fl t) \<and>
    list_all numberChar (numberText fl t) \<and> fl_parse fl (numberText fl t) = Inr d"
  proof (cases d)
    case (Finite neg ds x)
    with exact have ds: "properDigits ds" and again: "fl_parse fl ((if neg then ''-'' else []) @ formatE ds x) = Inr d"
      by (simp_all add: faithfulDouble_def)
    have ne: "ds \<noteq> []" "isDigit (hd ds)" "list_all isDigit (tl ds)"
      using ds by (cases ds; simp add: properDigits_def)+
    have e: "(if neg then ''-'' else []) @ formatE ds x = literalOf neg [hd ds] (tl ds) (exponentText x)"
      using ne(1) by (simp add: formatE_parts literalOf_def)
    have parts: "properParts [hd ds] (tl ds) (exponentText x)"
      using ne exponentText_valid by (simp add: properParts_def)
    obtain ip fp ex where p: "properParts ip fp ex" "list_all numberChar ex"
      and t: "\<And>neg. (if neg then ''-'' else []) @ plainDigits ds x = literalOf neg ip fp ex"
      and v: "(of_nat (natOf (ip @ fp)) :: rat) * 10 powi (exponentOf ex - int (length fp)) =
        of_nat (natOf ds) * 10 powi (x - int (length (tl ds)))"
      using plain_layout [OF ds] by metis
    have same: "numberText fl t = literalOf neg ip fp ex" using assms(3) Finite t by (simp add: numberText_def)
    have "literalValue (literalOf neg [hd ds] (tl ds) (exponentText x)) = literalValue (literalOf neg ip fp ex)"
      using v ne(1) exponentText_valid(3) [of x]
      by (simp add: literal_run(3) [OF parts] literal_run(3) [OF p(1)])
    then have "fl_parse fl (literalOf neg ip fp ex) = Inr d"
      using assms(1) again literal_run(1) [OF parts] literal_run(1) [OF p(1)] unfolding exactFloats_def e by blast
    with literal_run(1,2) [OF p(1)] p(2) same show ?thesis
      by (simp add: Finite appendNumber_Finite [OF ds] t)
  qed (use exact assms(3) zero in \<open>auto simp: numberText_def appendNumber_def faithfulDouble_def\<close>)
  then show "appendNumber buf d = Inr (buf @ numberText fl t)" "validNumber (numberText fl t)"
    "list_all numberChar (numberText fl t)" "fl_parse fl (numberText fl t) = Inr d" by auto
qed

lemma Append_tree:
  assumes "exactFloats fl"
  shows "jvalid j \<Longrightarrow> Append fl buf (tree j) = Inr s \<longleftrightarrow>
    floatsFit fl j \<and> s = buf @ jprintWith jcsEscape (canon fl j)"
proof (induction j arbitrary: buf s)
  case (JNum t)
  then show ?case
    using canonical_number(1) [OF assms, of t] by (auto simp: Append.simps bind_Inr split: sum.splits)
next
  case (JArr js)
  have each: "appendEach (\<lambda>j b. Append fl b (tree j)) True js b = Inr r \<longleftrightarrow>
      (\<forall>j \<in> set js. floatsFit fl j) \<and>
      r = b @ join '','' (map (\<lambda>j. jprintWith jcsEscape (canon fl j)) js)" for b r
    using JArr by (subst appendEach_Inr [where P = "floatsFit fl" and g = "\<lambda>j. jprintWith jcsEscape (canon fl j)"])
      (auto simp: list_all_iff)
  show ?case
    by (auto simp: Append.simps bind_Inr appendEach_map each list_all_iff comp_def)
next
  case (JObj ms)
  have each: "appendEach (\<lambda>m b. Append fl (appendString b (fst m) @ '':'') (tree (snd m))) True
        (sort_key (utf16Units \<circ> fst) ms) b = Inr r \<longleftrightarrow>
      (\<forall>m \<in> set ms. floatsFit fl (snd m)) \<and>
      r = b @ join '','' (map (\<lambda>m. appendString [] (fst m) @ '':'' @ jprintWith jcsEscape (canon fl (snd m)))
        (sort_key (utf16Units \<circ> fst) ms))" for b r
    using JObj by (subst appendEach_Inr [where P = "\<lambda>m. floatsFit fl (snd m)"
          and g = "\<lambda>m. appendString [] (fst m) @ '':'' @ jprintWith jcsEscape (canon fl (snd m))"])
      (auto simp: list_all_iff appendString_def prod_set_simps snds.simps)
  show ?case
    unfolding tree.simps canon_members Append.simps
    using each [unfolded appendString_def comp_def, simplified]
    by (auto simp: bind_Inr sort_key_map appendEach_map list_all_iff comp_def case_prod_beta appendString_def)
qed (auto simp: Append.simps appendString_def)

section \<open>What the reader returns\<close>

lemma jcs_validText_ascii [simp]: "byteIn 0 127 c \<Longrightarrow> validText (c # s) = validText s"
  by (simp add: validText.simps(2) runeLen_def)

lemma jcs_validText_append:
  "validText a \<Longrightarrow> validText b \<Longrightarrow> validText (a @ b)"
proof (induction a rule: validText.induct)
  case (2 c cs)
  then obtain n where n: "runeLen (c # cs) = Suc n" "validText (drop n cs)"
    by (auto simp: validText.simps(2) split: nat.splits)
  have len: "n \<le> length cs" using runeLen_take [OF n(1)] by blast
  have "runeLen (c # take n cs @ drop n cs @ b) = Suc n" using runeLen_take [OF n(1), of "drop n cs @ b"] by blast
  moreover have "take n cs @ drop n cs @ b = cs @ b" by simp
  ultimately have "runeLen (c # cs @ b) = Suc n" by metis
  moreover have "drop n (cs @ b) = drop n cs @ b" using len by simp
  ultimately show ?case using 2(1) [OF n(1) n(2) 2(3)] by (simp add: validText.simps(2))
qed simp

lemma validText_rune:
  assumes "runeLen (c # cs) = Suc n"
  shows "validText (c # take n cs)"
  using runeLen_take [OF assms, of "[]"] by (simp add: validText.simps(2))

lemma validText_replacement: "validText replacement"
  by (simp add: replacement_def validText.simps runeLen_def byteIn_def runeTail_def)

lemma byte_of: "n < 256 \<Longrightarrow> byteIn lo hi (char_of n) \<longleftrightarrow> lo \<le> n \<and> n \<le> hi"
  by (simp add: byteIn_def)

lemma validText_utf8:
  assumes "u < 1114112"
  shows "validText (utf8 u)"
proof -
  consider (one) "u < 128" | (two) "128 \<le> u" "u < 2048" | (surrogate) "55296 \<le> u" "u < 57344"
    | (three) "2048 \<le> u" "u < 65536" "\<not> (55296 \<le> u \<and> u < 57344)" | (four) "65536 \<le> u" by linarith
  then show ?thesis
  proof cases
    case one
    then show ?thesis by (simp add: utf8_def byte_of)
  next
    case two
    define a b where "a = 192 + u div 64" and "b = 128 + u mod 64"
    have "194 \<le> a" "a \<le> 223" "128 \<le> b" "b \<le> 191" using two by (auto simp: a_def b_def)
    moreover have "utf8 u = [char_of a, char_of b]" using two by (simp add: utf8_def a_def b_def)
    ultimately show ?thesis by (simp add: validText.simps(2) runeLen_def runeTail_def byte_of)
  next
    case surrogate
    then have "utf8 u = replacement" by (simp add: utf8_def replacement_def)
    with validText_replacement show ?thesis by simp
  next
    case three
    define a b c where "a = 224 + u div 4096" and "b = 128 + u div 64 mod 64" and "c = 128 + u mod 64"
    have r: "224 \<le> a" "a \<le> 239" "128 \<le> b" "b \<le> 191" "128 \<le> c" "c \<le> 191"
      using three by (auto simp: a_def b_def c_def)
    define q where "q = u div 64"
    have q: "32 \<le> q" "q < 1024" "\<not> (864 \<le> q \<and> q < 896)" "a = 224 + q div 64" "b = 128 + q mod 64"
      using three by (auto simp: q_def a_def b_def div_mult2_eq [of u 64 64, simplified])
    have "q div 64 * 64 + q mod 64 = q" "q mod 64 < 64" by simp_all
    with q have ab: "a = 224 \<longrightarrow> 160 \<le> b" "a = 237 \<longrightarrow> b \<le> 159" by linarith+
    have u: "utf8 u = [char_of a, char_of b, char_of c]"
      using three by (auto simp: utf8_def a_def b_def c_def)
    consider "a = 224" | "a = 237" | "225 \<le> a" "a \<noteq> 237" using r(1) by linarith
    then show ?thesis
      using r ab unfolding u by cases (simp_all add: validText.simps(2) runeLen_def runeTail_def byte_of)
  next
    case four
    define a b c d where "a = 240 + u div 262144" and "b = 128 + u div 4096 mod 64"
      and "c = 128 + u div 64 mod 64" and "d = 128 + u mod 64"
    have r: "240 \<le> a" "a \<le> 244" "128 \<le> b" "b \<le> 191" "128 \<le> c" "c \<le> 191" "128 \<le> d" "d \<le> 191"
      using four assms by (auto simp: a_def b_def c_def d_def)
    define q where "q = u div 4096"
    have q: "16 \<le> q" "q < 272" "a = 240 + q div 64" "b = 128 + q mod 64"
      using four assms by (simp_all add: q_def a_def b_def div_mult2_eq [of u 4096 64, simplified] less_mult_imp_div_less)
    have "q div 64 * 64 + q mod 64 = q" "q mod 64 < 64" by simp_all
    with q have ab: "a = 240 \<longrightarrow> 144 \<le> b" "a = 244 \<longrightarrow> b \<le> 143" by linarith+
    have u: "utf8 u = [char_of a, char_of b, char_of c, char_of d]"
      using four by (simp add: utf8_def a_def b_def c_def d_def)
    consider "a = 240" | "a = 244" | "241 \<le> a" "a \<le> 243" using r(1,2) by linarith
    then show ?thesis
      using r ab unfolding u by cases (simp_all add: validText.simps(2) runeLen_def runeTail_def byte_of)
  qed
qed

lemma hex4_less:
  assumes "hex4 a b c d = Some u"
  shows "u < 65536"
proof -
  have hv: "n < 16" if "hexVal x = Some n" for x n using that by (auto simp: hexVal_def Let_def split: if_splits)
  obtain w x y z where v: "hexVal a = Some w" "hexVal b = Some x" "hexVal c = Some y" "hexVal d = Some z"
    "u = ((w * 16 + x) * 16 + y) * 16 + z"
    using assms by (auto simp: hex4_def split: option.splits)
  have "w \<le> 15" "x \<le> 15" "y \<le> 15" "z \<le> 15" using hv v(1-4) by fastforce+
  then show ?thesis using v(5) by (simp add: algebra_simps)
qed

lemma surrogate_pair_range:
  assumes "55296 \<le> u" "u < 56320" "56320 \<le> l" "l < (57344::nat)"
  shows "65536 + (u - 55296) * 1024 + (l - 56320) < 1114112"
proof -
  obtain k m where "u = 55296 + k" "l = 56320 + m" using assms(1,3) le_Suc_ex by metis
  with assms show ?thesis by simp
qed

lemma lowSurrogate_range: "lowSurrogate a b c d = Some l \<Longrightarrow> 56320 \<le> l \<and> l < 57344"
  by (auto simp: lowSurrogate_def split: option.splits if_splits)

lemma simpleEscape_ascii: "simpleEscape e = Some x \<Longrightarrow> byteIn 0 127 x"
  by (auto simp: simpleEscape_def byteIn_def split: if_splits)

lemma unescape_malformed:
  assumes "\<not> byteIn 0 127 c" and "runeLen (c # cs) = 0"
  shows "unescape (c # cs) = prepend replacement (unescape cs)"
proof -
  have "32 \<le> (of_char c :: nat)" "c \<noteq> quoteC" "c \<noteq> backslashC"
    using assms(1) by (auto simp: byteIn_def)
  with assms show ?thesis by (simp add: unescape.simps(2))
qed

text \<open>A string that was read is well-formed text, whatever bytes it was read from.\<close>

lemma unescape_valid: "unescape s = Some (v, r) \<Longrightarrow> validText v"
proof (induction s arbitrary: v r rule: measure_induct_rule [of length])
  case (less s)
  show ?case
  proof (cases s)
    case Nil
    with less.prems show ?thesis by (simp add: unescape.simps)
  next
    case (Cons c cs)
    have ih: "validText k" if "prepend b (unescape t) = Some (k, r)" "validText b" "length t \<le> length cs" for b t k
      using that less.IH [of t] Cons by (auto simp: prepend_Some intro: jcs_validText_append)
    consider "c = quoteC" | (escaped) "c \<noteq> quoteC" "c = backslashC" | (control) "c \<noteq> quoteC" "c \<noteq> backslashC" "(of_char c :: nat) < 32"
      | (ascii) "c \<noteq> quoteC" "c \<noteq> backslashC" "byteIn 32 127 c"
      | (rune) "c \<noteq> quoteC" "c \<noteq> backslashC" "32 \<le> (of_char c :: nat)" "\<not> byteIn 0 127 c"
      unfolding byteIn_def by force
    then show ?thesis
    proof cases
      case escaped
      then obtain e es where es: "cs = e # es" using less.prems Cons by (cases cs) (simp_all add: unescape.simps(2))
      show ?thesis
      proof (cases "e = CHR ''u''")
        case False
        then obtain x where x: "simpleEscape e = Some x" "prepend [x] (unescape es) = Some (v, r)"
          using less.prems escaped Cons es by (auto simp: unescape.simps(2) split: option.splits)
        have "validText [x]" using simpleEscape_ascii [OF x(1)] by simp
        then show ?thesis by (rule ih [OF x(2)]) (simp add: es)
      next
        case True
        then obtain h1 h2 h3 h4 rest u where u: "es = h1 # h2 # h3 # h4 # rest" "hex4 h1 h2 h3 h4 = Some u"
          using less.prems escaped Cons es
          by (auto simp: unescape.simps(2) split: option.splits list.splits)
        have small: "validText (utf8 u)" using hex4_less [OF u(2)] by (intro validText_utf8) simp
        have plain: "validText v" if "prepend (utf8 u) (unescape rest) = Some (v, r)"
          by (rule ih [OF that small]) (simp add: es u)
        have pair: "validText v"
          if "prepend (utf8 (65536 + (u - 55296) * 1024 + (l - 56320))) (unescape rest2) = Some (v, r)"
            "55296 \<le> u" "u < 56320" "lowSurrogate a b c d = Some l" "rest = p # q # a # b # c # d # rest2"
          for l rest2 a b c d p q
          by (rule ih [OF that(1)], rule validText_utf8, rule surrogate_pair_range)
            (use that(2,3,5) lowSurrogate_range [OF that(4)] in \<open>simp_all add: es u\<close>)
        define isPair where "isPair \<longleftrightarrow> (\<exists>a b c d rest2 l. 55296 \<le> u \<and> u < 56320 \<and>
          rest = backslashC # CHR ''u'' # a # b # c # d # rest2 \<and> lowSurrogate a b c d = Some l)"
        show ?thesis
        proof (cases isPair)
          case True
          then obtain a b c d rest2 l where p: "55296 \<le> u" "u < 56320"
            "rest = backslashC # CHR ''u'' # a # b # c # d # rest2" "lowSurrogate a b c d = Some l"
            by (auto simp: isPair_def)
          have "prepend (utf8 (65536 + (u - 55296) * 1024 + (l - 56320))) (unescape rest2) = Some (v, r)"
            using less.prems p(1,2,4) u(2) unfolding Cons es u(1) p(3) escaped(2) \<open>e = CHR ''u''\<close>
            by (simp add: unescape.simps(2) [of backslashC])
          then show ?thesis using p by (intro pair)
        next
          case False
          have "prepend (utf8 u) (unescape rest) = Some (v, r)"
            using less.prems u(2) False unfolding Cons es u(1) escaped(2) \<open>e = CHR ''u''\<close> isPair_def
            by (auto simp: unescape.simps(2) [of backslashC] split: if_split_asm list.split_asm option.split_asm)
          then show ?thesis by (rule plain)
        qed
      qed
    next
      case control
      with less.prems Cons show ?thesis by (simp add: unescape.simps(2))
    next
      case ascii
      have p: "prepend [c] (unescape cs) = Some (v, r)"
        using less.prems unescape_plain [OF ascii(3,1,2), of cs] unfolding Cons by metis
      have "byteIn 0 127 c" using ascii(3) unfolding byteIn_def by linarith
      then have "validText [c]" by simp
      then show ?thesis by (rule ih [OF p]) simp
    next
      case rune
      show ?thesis
      proof (cases "runeLen (c # cs)")
        case 0
        have p: "prepend replacement (unescape cs) = Some (v, r)"
          using less.prems unescape_malformed [OF rune(4) 0] unfolding Cons by metis
        show ?thesis by (rule ih [OF p validText_replacement]) simp
      next
        case (Suc n)
        have p: "prepend (c # take n cs) (unescape (drop n cs)) = Some (v, r)"
          using less.prems unescape_rune [OF rune(4) Suc, of "drop n cs"] unfolding Cons append_take_drop_id by metis
        show ?thesis by (rule ih [OF p validText_rune [OF Suc]]) simp
      qed
    qed (use less.prems Cons in \<open>simp add: unescape.simps(2)\<close>)
  qed
qed

lemma parseNumber_valid: "parseNumber s = Some (j, r) \<Longrightarrow> jvalid j"
  by (auto simp: parseNumber_def list_all_iff split: if_splits dest: set_takeWhileD)

lemma parse_valid:
  "parseValue n s = Some (j, r) \<Longrightarrow> jvalid j"
  "parseElems n s = Some (js, r) \<Longrightarrow> list_all jvalid js"
  "parseMembers n s = Some (ms, r) \<Longrightarrow> list_all (\<lambda>(k, j). validText k \<and> jvalid j) ms"
proof (induction n s and n s and n s arbitrary: j r and js r and ms r rule: parseValue_parseElems_parseMembers.induct)
  case (2 n s)
  then show ?case
    by (auto simp: keyword_at_def dest: unescape_valid parseNumber_valid split: list.splits if_splits)
next
  case (4 n s)
  then show ?case by (auto simp: prepend_Some split: option.splits list.splits if_splits)
next
  case (6 n s)
  then show ?case
    by (auto simp: prepend_Some dest!: unescape_valid split: option.splits list.splits if_splits)
qed simp_all

section \<open>The canonical text is canonical\<close>

lemma sort_key_sorted: "sorted (map f xs) \<Longrightarrow> sort_key f xs = xs"
  by (induction xs) (simp_all add: insort_is_Cons)

lemma canon_facts:
  assumes "exactFloats fl"
  shows "jvalid j \<Longrightarrow> floatsFit fl j \<Longrightarrow>
    jvalid (canon fl j) \<and> floatsFit fl (canon fl j) \<and> canon fl (canon fl j) = canon fl j"
proof (induction j)
  case (JNum t)
  then obtain d where d: "fl_parse fl t = Inr d" by auto
  have n: "validNumber t" using JNum by simp
  note facts = canonical_number [OF assms n d]
  have "numberText fl (numberText fl t) = numberText fl t"
    using facts(4) d by (simp add: numberText_def [of fl "numberText fl t"]) (simp add: numberText_def)
  with facts show ?case by simp
next
  case (JArr js)
  then show ?case by (auto simp: list_all_iff)
next
  case (JObj ms)
  have ih: "jvalid (canon fl j) \<and> floatsFit fl (canon fl j) \<and> canon fl (canon fl j) = canon fl j" if "(k, j) \<in> set ms" for k j
    using JObj.IH [of "(k, j)" j] JObj.prems that by (auto simp: list_all_iff)
  have "map (\<lambda>(k, j). (k, canon fl j)) (map (\<lambda>(k, j). (k, canon fl j)) (sort_key (utf16Units \<circ> fst) ms)) =
      map (\<lambda>(k, j). (k, canon fl j)) (sort_key (utf16Units \<circ> fst) ms)"
    using ih by (auto simp: split_def)
  moreover have "sorted (map (utf16Units \<circ> fst) (map (\<lambda>(k, j). (k, canon fl j)) (sort_key (utf16Units \<circ> fst) ms)))"
    by (simp add: comp_def case_prod_beta)
  ultimately have "canon fl (canon fl (JObj ms)) = canon fl (JObj ms)"
    unfolding canon_members by (simp add: sort_key_sorted comp_def)
  moreover have "jvalid (canon fl (JObj ms))" "floatsFit fl (canon fl (JObj ms))"
    using ih JObj.prems unfolding canon_members by (auto simp: list_all_iff)
  ultimately show ?case by blast
qed simp_all

lemma canon_distinct: "distinctNames j \<Longrightarrow> distinctNames (canon fl j)"
proof (induction j)
  case (JObj ms)
  have "map fst (map (\<lambda>(k, j). (k, canon fl j)) xs) = map fst xs" for xs by (simp add: split_def)
  moreover have "distinct (map fst (sort_key (utf16Units \<circ> fst) ms))"
    using JObj.prems by (simp add: names_sorted sortUTF16_def)
  ultimately have "distinct (map fst (map (\<lambda>(k, j). (k, canon fl j)) (sort_key (utf16Units \<circ> fst) ms)))"
    by metis
  moreover have "list_all (\<lambda>(k, j). distinctNames j) (map (\<lambda>(k, j). (k, canon fl j)) ms)"
    using JObj by (fastforce simp: list_all_iff)
  ultimately show ?case unfolding canon_members by (simp add: list_all_iff)
qed (simp_all add: list_all_iff)

text \<open>Canonical text has no escape of a surrogate.\<close>

lemma surrogates_plain: "c \<noteq> quoteC \<Longrightarrow> surrogatesFrom False (c # s) = surrogatesFrom False s"
  "c \<noteq> quoteC \<Longrightarrow> c \<noteq> backslashC \<Longrightarrow> surrogatesFrom True (c # s) = surrogatesFrom True s"
  "surrogatesFrom False (quoteC # s) = surrogatesFrom True s" "surrogatesFrom True (quoteC # s) = surrogatesFrom False s"
  "e \<noteq> CHR ''u'' \<Longrightarrow> surrogatesFrom True (backslashC # e # s) = surrogatesFrom True s"
  by (simp_all add: surrogatesFrom.simps(2))

lemma hexDigit_plain: "n < 16 \<Longrightarrow> hexDigit n \<noteq> quoteC \<and> hexDigit n \<noteq> backslashC"
proof -
  have "\<forall>n \<in> set [0..<16]. hexDigit n \<noteq> quoteC \<and> hexDigit n \<noteq> backslashC" by code_simp
  then show "n < 16 \<Longrightarrow> hexDigit n \<noteq> quoteC \<and> hexDigit n \<noteq> backslashC" by simp
qed

lemma surrogates_hex:
  assumes "n < 32"
  shows "surrogatesFrom True (backslashC # CHR ''u'' # CHR ''0'' # CHR ''0'' # hexDigit (n div 16) # hexDigit (n mod 16) # s) =
    surrogatesFrom True s"
proof -
  have "hex4 CHR ''0'' CHR ''0'' (hexDigit (n div 16)) (hexDigit (n mod 16)) = Some n"
    using assms by (simp add: hex4_def hexVal_0 hexVal_hexDigit)
  then have "surrogatesFrom True (backslashC # CHR ''u'' # CHR ''0'' # CHR ''0'' # hexDigit (n div 16) # hexDigit (n mod 16) # s) =
      surrogatesFrom True (CHR ''0'' # CHR ''0'' # hexDigit (n div 16) # hexDigit (n mod 16) # s)"
    using assms by (simp add: surrogatesFrom.simps(2) [of True backslashC] hex4At_def)
  then show ?thesis
    using assms hexDigit_plain [of "n div 16"] hexDigit_plain [of "n mod 16"] by (simp add: surrogates_plain)
qed

lemma surrogates_char: "surrogatesFrom True (appendChar c @ s) = surrogatesFrom True s"
proof (cases "(of_char c :: nat) < 32")
  case True
  then show ?thesis
    using surrogates_hex [of "of_char c" s] by (simp add: appendChar_def surrogates_plain hexDigits_nth)
next
  case False
  then show ?thesis by (auto simp: appendChar_def surrogates_plain)
qed

lemma surrogates_string: "surrogatesFrom True (jcsEscape s @ quoteC # r) = surrogatesFrom False r"
  by (induction s) (simp_all add: surrogates_char surrogates_plain)


lemma surrogates_number: "list_all numberChar t \<Longrightarrow> surrogatesFrom False (t @ r) = surrogatesFrom False r"
proof (induction t)
  case (Cons c t)
  then have "c \<noteq> quoteC" by (auto simp: numberChar_def isDigit_def)
  with Cons show ?case by (simp add: surrogates_plain)
qed simp

lemma surrogates_join:
  assumes "\<And>x r. x \<in> set xs \<Longrightarrow> surrogatesFrom False (g x @ r) = surrogatesFrom False r"
  shows "surrogatesFrom False (join '','' (map g xs) @ r) = surrogatesFrom False r"
  using assms by (induction xs) (simp_all add: join_Cons surrogates_plain)

lemma surrogates_text:
  "jvalid j \<Longrightarrow> surrogatesFrom False (jprintWith jcsEscape j @ r) = surrogatesFrom False r"
proof (induction j arbitrary: r)
  case (JArr js)
  then show ?case by (simp add: surrogates_plain surrogates_join list_all_iff)
next
  case (JObj ms)
  have "surrogatesFrom False (([quoteC] @ jcsEscape k @ [quoteC] @ '':'' @ jprintWith jcsEscape j) @ r) = surrogatesFrom False r"
    if "(k, j) \<in> set ms" for k j r
    using JObj.IH [of "(k, j)" j r] JObj.prems that
    by (auto simp: list_all_iff surrogates_plain surrogates_string)
  then show ?case by (simp add: surrogates_plain surrogates_join split_def)
qed (auto simp: surrogates_plain surrogates_string surrogates_number)

text \<open>It is well-formed text, and it is read back as what it was written from.\<close>

lemma hexDigit_ascii: "byteIn 0 127 (hexDigit n)"
proof -
  have "\<forall>n \<in> set [0..<16]. byteIn 0 127 (hexDigit n)" by code_simp
  moreover have "hexDigit n = hexDigit (n mod 16)" by (simp add: hexDigit_def)
  ultimately show ?thesis by simp
qed

lemma jcsEscape_valid: "validText s \<Longrightarrow> validText (jcsEscape s)"
proof (induction s rule: validText.induct)
  case (2 c cs)
  then obtain n where n: "runeLen (c # cs) = Suc n" "validText (drop n cs)"
    by (auto simp: validText.simps(2) split: nat.splits)
  have ih: "validText (jcsEscape (drop n cs))" using 2(1) [OF n] .
  show ?case
  proof (cases "byteIn 0 127 c")
    case True
    then have "validText (appendChar c)"
      using hexDigit_ascii by (simp add: appendChar_def hexDigits_nth) (simp add: byteIn_def)
    with ih n(1) True show ?thesis by (simp add: runeLen_def jcs_validText_append)
  next
    case False
    have "jcsEscape (c # cs) = (c # take n cs) @ jcsEscape (drop n cs)"
      using runeLen_high [OF n(1)] False jcsEscape_high [of "take n cs"]
      by (simp add: appendChar_high) (metis append_take_drop_id concat_append map_append)
    then show ?thesis using jcs_validText_append [OF validText_rune [OF n(1)] ih] by simp
  qed
qed simp


lemma validText_ascii_all: "list_all (byteIn 0 127) s \<Longrightarrow> validText s"
  by (induction s) simp_all

lemma jcs_validText_join:
  "(\<And>x. x \<in> set xs \<Longrightarrow> validText (g x)) \<Longrightarrow> validText (join '','' (map g xs))"
  by (induction xs) (simp_all add: join_Cons jcs_validText_append byteIn_def)

lemma text_valid: "jvalid j \<Longrightarrow> validText (jprintWith jcsEscape j)"
proof (induction j)
  case (JNum t)
  have "numberChar c \<Longrightarrow> byteIn 0 127 c" for c by (auto simp: numberChar_def isDigit_def byteIn_def)
  with JNum show ?case by (auto simp: list_all_iff intro: validText_ascii_all)
next
  case (JArr js)
  have "validText (join '','' (map (jprintWith jcsEscape) js))"
    using JArr by (intro jcs_validText_join) (auto simp: list_all_iff)
  then show ?case by (simp add: jcs_validText_append byteIn_def)
next
  case (JObj ms)
  have "validText ([quoteC] @ jcsEscape k @ [quoteC] @ '':'' @ jprintWith jcsEscape j)" if "(k, j) \<in> set ms" for k j
    using JObj.IH [of "(k, j)" j] JObj.prems that
    by (auto simp: list_all_iff byteIn_def intro!: jcs_validText_append jcsEscape_valid)
  then have "validText (join '','' (map (\<lambda>(k, j). [quoteC] @ jcsEscape k @ [quoteC] @ '':'' @ jprintWith jcsEscape j) ms))"
    by (intro jcs_validText_join) auto
  then show ?case by (simp add: jcs_validText_append byteIn_def)
next
  case (JStr t)
  then show ?case by (simp add: byteIn_def jcs_validText_append jcsEscape_valid)
qed (auto simp: byteIn_def)

text \<open>What \<^verbatim>\<open>Transform\<close> accepts, and what it returns.\<close>

lemma Transform_Inr:
  assumes "exactFloats fl" and "Transform decoderError fl input = Inr s"
  obtains j where "jparse input = Some j" "jvalid j" "distinctNames j" "floatsFit fl j"
    "s = jprintWith jcsEscape (canon fl j)"
proof -
  obtain j rest v where p: "parseValue (2 * length input + 2) input = Some (j, rest)" "decodeValue j = Inr v"
    "skipBlanks rest = []" "Append fl [] v = Inr s"
    using assms(2) by (auto simp: Transform_def split: if_splits option.splits sum.splits simp del: parseValue.simps)
  have valid: "jvalid j" by (rule parse_valid(1) [OF p(1)])
  have v: "distinctNames j" "v = tree j" using p(2) by (simp_all add: decodeValue_tree)
  have "floatsFit fl j \<and> s = jprintWith jcsEscape (canon fl j)"
    using p(4) Append_tree [OF assms(1) valid, of "[]"] by (simp add: v(2))
  moreover have "jparse input = Some j" using p(1,3) by (simp add: jparse_def del: parseValue.simps)
  ultimately show ?thesis using that valid v(1) by blast
qed

lemma Transform_text:
  assumes "exactFloats fl" and "jvalid j" "distinctNames j" "floatsFit fl j"
  shows "Transform decoderError fl (jprintWith jcsEscape j) = Inr (jprintWith jcsEscape (canon fl j))"
proof -
  let ?s = "jprintWith jcsEscape j"
  have "checkSurrogates ?s = None"
    using surrogates_text [OF assms(2), of "[]"] by (simp add: checkSurrogates_def surrogatesFrom.simps(1))
  moreover have "jparse ?s = Some j" by (rule jcs_printer.jparse_text [OF assms(2)])
  then obtain rest where "parseValue (2 * length ?s + 2) ?s = Some (j, rest)" "skipBlanks rest = []"
    by (auto simp: jparse_def split: option.splits if_splits simp del: parseValue.simps)
  moreover have "decodeValue j = Inr (tree j)" using assms(3) by (simp add: decodeValue_tree)
  moreover have "Append fl [] (tree j) = Inr (jprintWith jcsEscape (canon fl j))"
    using Append_tree [OF assms(1,2), of "[]"] assms(4) by simp
  ultimately show ?thesis
    using text_valid [OF assms(2)] by (simp add: Transform_def del: parseValue.simps)
qed

section \<open>The order of names tells names apart\<close>

definition scalarValue :: "nat \<Rightarrow> bool" where
  "scalarValue u \<longleftrightarrow> u < 55296 \<or> 57344 \<le> u \<and> u < 1114112"

lemma runeTail_bytes:
  assumes "runeTail k (lo, hi) cs = Suc n"
  shows "n = Suc k \<and> (\<exists>d ds. cs = d # ds \<and> byteIn lo hi d \<and> k \<le> length ds \<and> list_all (byteIn 128 191) (take k ds))"
  using assms by (cases cs) (auto simp: runeTail_def split: if_splits)

lemma runeLen_bytes:
  assumes "runeLen (c # cs) = Suc n"
  obtains "byteIn 0 127 c" "n = 0"
  | d where "n = 1" "take n cs = [d]" "byteIn 194 223 c" "byteIn 128 191 d"
  | d e where "n = 2" "take n cs = [d, e]" "byteIn 224 239 c" "byteIn 128 191 d" "byteIn 128 191 e"
      "byteIn 224 224 c \<Longrightarrow> byteIn 160 191 d" "byteIn 237 237 c \<Longrightarrow> byteIn 128 159 d"
  | d e f where "n = 3" "take n cs = [d, e, f]" "byteIn 240 244 c" "byteIn 128 191 d" "byteIn 128 191 e"
      "byteIn 128 191 f" "byteIn 240 240 c \<Longrightarrow> byteIn 144 191 d" "byteIn 244 244 c \<Longrightarrow> byteIn 128 143 d"
proof -
  have one: "\<exists>d. take 1 cs = [d] \<and> byteIn lo hi d \<and> n = 1" if "runeTail 0 (lo, hi) cs = Suc n" for lo hi
    using runeTail_bytes [OF that] by auto
  have two: "\<exists>d e. take 2 cs = [d, e] \<and> byteIn lo hi d \<and> byteIn 128 191 e \<and> n = 2"
    if "runeTail 1 (lo, hi) cs = Suc n" for lo hi
  proof -
    from runeTail_bytes [OF that] obtain d ds where d: "cs = d # ds" "byteIn lo hi d" "1 \<le> length ds"
      "list_all (byteIn 128 191) (take 1 ds)" "n = 2" by auto
    then obtain e es where "ds = e # es" by (cases ds) auto
    with d show ?thesis by simp
  qed
  have three: "\<exists>d e f. take 3 cs = [d, e, f] \<and> byteIn lo hi d \<and> byteIn 128 191 e \<and> byteIn 128 191 f \<and> n = 3"
    if "runeTail 2 (lo, hi) cs = Suc n" for lo hi
  proof -
    from runeTail_bytes [OF that] obtain d ds where d: "cs = d # ds" "byteIn lo hi d" "2 \<le> length ds"
      "list_all (byteIn 128 191) (take 2 ds)" "n = 3" by auto
    then obtain e f es where "ds = e # f # es" by (cases ds; cases "tl ds") auto
    with d show ?thesis by (simp add: numeral_2_eq_2 numeral_3_eq_3)
  qed
  have widen: "byteIn lo hi x \<Longrightarrow> lo' \<le> lo \<Longrightarrow> hi \<le> hi' \<Longrightarrow> byteIn lo' hi' x" for lo hi lo' hi' x
    by (simp add: byteIn_def)
  have apart: "byteIn lo hi x \<Longrightarrow> byteIn lo' hi' x \<Longrightarrow> hi < lo' \<or> hi' < lo \<Longrightarrow> False" for lo hi lo' hi' x
    by (auto simp: byteIn_def)
  from assms consider (a) "byteIn 0 127 c" "n = 0" | (b) "byteIn 194 223 c" "runeTail 0 (128, 191) cs = Suc n"
    | (c1) "byteIn 224 224 c" "runeTail 1 (160, 191) cs = Suc n" | (c2) "byteIn 237 237 c" "runeTail 1 (128, 159) cs = Suc n"
    | (c3) "byteIn 225 239 c" "\<not> byteIn 237 237 c" "runeTail 1 (128, 191) cs = Suc n"
    | (d1) "byteIn 240 240 c" "runeTail 2 (144, 191) cs = Suc n" | (d2) "byteIn 244 244 c" "runeTail 2 (128, 143) cs = Suc n"
    | (d3) "byteIn 241 243 c" "runeTail 2 (128, 191) cs = Suc n"
    unfolding runeLen_def list.case by (metis One_nat_def nat.inject nat.distinct(1))
  then show ?thesis
  proof cases
    case a then show ?thesis by (rule that(1))
  next
    case b
    then show ?thesis using one [OF b(2)] that(2) by auto
  next
    case c1
    obtain d e where "take 2 cs = [d, e]" "byteIn 160 191 d" "byteIn 128 191 e" "n = 2" using two [OF c1(2)] by auto
    then show ?thesis using c1 by (intro that(3) [of d e]) (auto intro: widen dest: apart)
  next
    case c2
    obtain d e where "take 2 cs = [d, e]" "byteIn 128 159 d" "byteIn 128 191 e" "n = 2" using two [OF c2(2)] by auto
    then show ?thesis using c2 by (intro that(3) [of d e]) (auto intro: widen dest: apart)
  next
    case c3
    obtain d e where "take 2 cs = [d, e]" "byteIn 128 191 d" "byteIn 128 191 e" "n = 2" using two [OF c3(3)] by auto
    then show ?thesis using c3 by (intro that(3) [of d e]) (auto intro: widen dest: apart)
  next
    case d1
    obtain d e f where "take 3 cs = [d, e, f]" "byteIn 144 191 d" "byteIn 128 191 e" "byteIn 128 191 f" "n = 3"
      using three [OF d1(2)] by auto
    then show ?thesis using d1 by (intro that(4) [of d e f]) (auto intro: widen dest: apart)
  next
    case d2
    obtain d e f where "take 3 cs = [d, e, f]" "byteIn 128 143 d" "byteIn 128 191 e" "byteIn 128 191 f" "n = 3"
      using three [OF d2(2)] by auto
    then show ?thesis using d2 by (intro that(4) [of d e f]) (auto intro: widen dest: apart)
  next
    case d3
    obtain d e f where "take 3 cs = [d, e, f]" "byteIn 128 191 d" "byteIn 128 191 e" "byteIn 128 191 f" "n = 3"
      using three [OF d3(2)] by auto
    then show ?thesis using d3 by (intro that(4) [of d e f]) (auto intro: widen dest: apart)
  qed
qed

lemma digit64: "y < 64 \<Longrightarrow> (x * 64 + y) div 64 = x" "y < 64 \<Longrightarrow> (x * 64 + y) mod 64 = (y::nat)"
  by simp_all

lemma rune_scalar:
  assumes "runeLen (c # cs) = Suc n"
  shows "utf8 (runeOf (c # take n cs)) = c # take n cs \<and> scalarValue (runeOf (c # take n cs))"
  using assms
proof (cases rule: runeLen_bytes)
  case 1
  then show ?thesis by (simp add: runeOf_def utf8_def scalarValue_def byteIn_def)
next
  case (2 d)
  define a b where "a = (of_char c :: nat) - 192" and "b = (of_char d :: nat) - 128"
  have chars: "char_of (192 + a) = c" "char_of (128 + b) = d" using 2 by (simp_all add: a_def b_def byteIn_def)
  have r: "2 \<le> a" "a \<le> 31" "b < 64" using 2 by (auto simp: a_def b_def byteIn_def)
  have u: "runeOf (c # take n cs) = a * 64 + b" using 2 by (simp add: runeOf_def a_def b_def)
  have "\<not> a * 64 + b < 128" "a * 64 + b < 2048" using r by linarith+
  with r chars 2(2) show ?thesis unfolding u by (simp add: utf8_def scalarValue_def)
next
  case (3 d e)
  define a b b2 where "a = (of_char c :: nat) - 224" and "b = (of_char d :: nat) - 128" and "b2 = (of_char e :: nat) - 128"
  have chars: "char_of (224 + a) = c" "char_of (128 + b) = d" "char_of (128 + b2) = e"
    using 3 by (simp_all add: a_def b_def b2_def byteIn_def)
  have "byteIn 237 237 c" if "a = 13" using that 3(3) unfolding a_def byteIn_def by linarith
  then have r: "a < 16" "b < 64" "b2 < 64" "a = 0 \<longrightarrow> 32 \<le> b" "a = 13 \<longrightarrow> b < 32"
    using 3 by (auto simp: a_def b_def b2_def byteIn_def)
  define u where "u = (a * 64 + b) * 64 + b2"
  have rune: "runeOf (c # take n cs) = u" using 3 by (simp add: runeOf_def a_def b_def b2_def u_def algebra_simps)
  have digits: "u div 4096 = a" "u div 64 mod 64 = b" "u mod 64 = b2"
  proof -
    have u1: "u div 64 = a * 64 + b" "u mod 64 = b2" using digit64 [OF r(3)] by (simp_all only: u_def)
    have u2: "u div 64 div 64 = a" "u div 64 mod 64 = b" using digit64 [OF r(2)] by (simp_all only: u1)
    show "u div 4096 = a" "u div 64 mod 64 = b" "u mod 64 = b2"
      using u1(2) u2 by (simp_all add: div_mult2_eq [symmetric])
  qed
  have e: "u = 4096 * a + 64 * b + b2" by (simp add: u_def algebra_simps)
  have "u < 65536" using r(1-3) unfolding e by linarith
  moreover have "\<not> u < 2048" using r(4) unfolding e by (cases "a = 0") auto
  moreover have "\<not> (55296 \<le> u \<and> u < 57344)"
    using r(2,3,5) unfolding e by (cases a "13::nat" rule: linorder_cases) (linarith, simp, linarith)
  moreover note digits
  ultimately show ?thesis using chars 3(2) unfolding rune by (auto simp: utf8_def scalarValue_def)
next
  case (4 d e f)
  define a b b2 b3 where "a = (of_char c :: nat) - 240" and "b = (of_char d :: nat) - 128"
    and "b2 = (of_char e :: nat) - 128" and "b3 = (of_char f :: nat) - 128"
  have chars: "char_of (240 + a) = c" "char_of (128 + b) = d" "char_of (128 + b2) = e" "char_of (128 + b3) = f"
    using 4 by (simp_all add: a_def b_def b2_def b3_def byteIn_def)
  have "byteIn 244 244 c" if "a = 4" using that 4(3) unfolding a_def byteIn_def by linarith
  then have r: "a < 5" "b < 64" "b2 < 64" "b3 < 64" "a = 0 \<longrightarrow> 16 \<le> b" "a = 4 \<longrightarrow> b < 16"
    using 4 by (auto simp: a_def b_def b2_def b3_def byteIn_def)
  define u where "u = ((a * 64 + b) * 64 + b2) * 64 + b3"
  have rune: "runeOf (c # take n cs) = u" using 4 by (simp add: runeOf_def a_def b_def b2_def b3_def u_def algebra_simps)
  have digits: "u div 262144 = a" "u div 4096 mod 64 = b" "u div 64 mod 64 = b2" "u mod 64 = b3"
  proof -
    have u1: "u div 64 = (a * 64 + b) * 64 + b2" "u mod 64 = b3" using digit64 [OF r(4)] by (simp_all only: u_def)
    have u2: "u div 64 div 64 = a * 64 + b" "u div 64 mod 64 = b2" using digit64 [OF r(3)] by (simp_all only: u1)
    have u3: "u div 64 div 64 div 64 = a" "u div 64 div 64 mod 64 = b" using digit64 [OF r(2)] by (simp_all only: u2)
    show "u div 262144 = a" "u div 4096 mod 64 = b" "u div 64 mod 64 = b2" "u mod 64 = b3"
      using u1(2) u2(2) u3 by (simp_all add: div_mult2_eq [symmetric])
  qed
  have e: "u = 262144 * a + 4096 * b + 64 * b2 + b3" by (simp add: u_def algebra_simps)
  have "65536 \<le> u" using r(5) unfolding e by (cases "a = 0") auto
  moreover have "u < 1114112" using r(1-4,6) unfolding e by (cases "a = 4") auto
  moreover note digits
  ultimately show ?thesis using chars 4(2) unfolding rune by (simp add: utf8_def scalarValue_def)
qed

lemma runes_utf8: "validText s \<Longrightarrow> concat (map utf8 (runes s)) = s \<and> list_all scalarValue (runes s)"
proof (induction s rule: validText.induct)
  case (2 c cs)
  then obtain n where n: "runeLen (c # cs) = Suc n" "validText (drop n cs)"
    by (auto simp: validText.simps(2) split: nat.splits)
  have ih: "concat (map utf8 (runes (drop n cs))) = drop n cs \<and> list_all scalarValue (runes (drop n cs))"
    using 2(1) [OF n] .
  have "runes (c # cs) = runeOf (c # take n cs) # runes (drop n cs)" using n(1) by (simp add: runes.simps(2))
  with ih rune_scalar [OF n(1)] show ?case by simp
qed (simp add: runes.simps)

lemma utf16Rune_prefix:
  assumes "scalarValue r" "scalarValue q" "utf16Rune r @ a = utf16Rune q @ b"
  shows "r = q \<and> a = b"
proof -
  have high: "utf16Rune r = [55296 + (r - 65536) div 1024, 56320 + (r - 65536) mod 1024]" if "65536 \<le> r" "scalarValue r" for r
    using that by (simp add: utf16Rune_def scalarValue_def)
  have low: "utf16Rune r = [r]" if "\<not> 65536 \<le> r" "scalarValue r" for r
    using that by (auto simp: utf16Rune_def scalarValue_def)
  have lead: "55296 \<le> 55296 + (r - 65536) div 1024 \<and> 55296 + (r - 65536) div 1024 < (57344::nat)" if "scalarValue r" for r
    using that by (auto simp: scalarValue_def)
  consider "65536 \<le> r" "65536 \<le> q" | "65536 \<le> r" "\<not> 65536 \<le> q" | "\<not> 65536 \<le> r" "65536 \<le> q" | "\<not> 65536 \<le> r" "\<not> 65536 \<le> q" by blast
  then show ?thesis
  proof cases
    case 1
    with assms high have d: "(r - 65536) div 1024 = (q - 65536) div 1024" "(r - 65536) mod 1024 = (q - 65536) mod 1024" "a = b"
      by auto
    then have "r - 65536 = q - 65536" by (metis div_mult_mod_eq)
    with 1 d(3) show ?thesis by simp
  next
    case 2
    then show ?thesis using assms high low lead [OF assms(1)] by (auto simp: scalarValue_def)
  next
    case 3
    then show ?thesis using assms high low lead [OF assms(2)] by (auto simp: scalarValue_def)
  next
    case 4
    then show ?thesis using assms low by simp
  qed
qed

lemma utf16_inject:
  "list_all scalarValue rs \<Longrightarrow> list_all scalarValue qs \<Longrightarrow>
   concat (map utf16Rune rs) = concat (map utf16Rune qs) \<Longrightarrow> rs = qs"
proof (induction rs arbitrary: qs)
  case Nil
  then show ?case by (cases qs) (auto simp: utf16Rune_def split: if_splits)
next
  case (Cons r rs)
  then obtain q qs' where qs: "qs = q # qs'"
    by (cases qs) (auto simp: utf16Rune_def split: if_splits)
  have "r = q \<and> concat (map utf16Rune rs) = concat (map utf16Rune qs')"
    using Cons.prems by (intro utf16Rune_prefix) (simp_all add: qs)
  with Cons qs show ?case by auto
qed

lemma utf16Units_inject: "validText s \<Longrightarrow> validText t \<Longrightarrow> utf16Units s = utf16Units t \<longleftrightarrow> s = t"
  using utf16_inject [of "runes s" "runes t"] runes_utf8 [of s] runes_utf8 [of t]
  by (metis utf16Units_def)

section \<open>Equal values have equal text\<close>

text \<open>
  When two JSON values are the same: numbers of the same double, objects with the same names and the
  same value under each, in whatever order their members were written.
\<close>

function sameValue :: "floats \<Rightarrow> json \<Rightarrow> json \<Rightarrow> bool" where
  "sameValue fl (JArr xs) j = (case j of
      JArr js \<Rightarrow> length xs = length js \<and> (\<forall>(a, b) \<in> set (zip xs js). sameValue fl a b)
    | _ \<Rightarrow> False)"
| "sameValue fl (JObj ms) j = (case j of
      JObj ns \<Rightarrow> fst ` set ms = fst ` set ns \<and> (\<forall>(k, a) \<in> set ms. \<forall>(l, b) \<in> set ns. k = l \<longrightarrow> sameValue fl a b)
    | _ \<Rightarrow> False)"
| "sameValue fl (JNum s) j = (case j of JNum t \<Rightarrow> fl_parse fl s = fl_parse fl t | _ \<Rightarrow> False)"
| "sameValue fl (JStr s) j = (j = JStr s)"
| "sameValue fl (JBool b) j = (j = JBool b)"
| "sameValue fl JNull j = (j = JNull)"
  by pat_completeness auto
termination
proof (relation "measure (\<lambda>(fl, i, j). size i)", auto)
  fix xs js :: "json list" and a b
  assume "(a, b) \<in> set (zip xs js)"
  then have "a \<in> set xs" by (rule set_zip_leftD)
  then show "size a < Suc (size_list size xs)" by (induction xs) auto
next
  fix ms :: "(string \<times> json) list" and k a
  assume "(k, a) \<in> set ms"
  then show "size a < Suc (size_list (size_prod (\<lambda>x. 0) size) ms)" by (induction ms) auto
qed

lemma numberText_inject:
  assumes "exactFloats fl" "validNumber s" "validNumber t" "fl_parse fl s = Inr a" "fl_parse fl t = Inr b"
  shows "numberText fl s = numberText fl t \<longleftrightarrow> a = b"
proof
  assume "numberText fl s = numberText fl t"
  with canonical_number(4) [OF assms(1,2,4)] canonical_number(4) [OF assms(1,3,5)] show "a = b" by simp
next
  assume "a = b"
  with assms(4,5) show "numberText fl s = numberText fl t" by (simp add: numberText_def)
qed

lemma sort_key_unique:
  assumes "set xs = set ys" "distinct (map f xs)" "distinct (map f ys)"
  shows "sort_key f xs = sort_key f ys"
proof -
  have inj: "inj_on f (set (sort_key f xs) \<union> set (sort_key f ys))"
    using assms by (simp add: distinct_map)
  have "map f (sort_key f xs) = sort (map f xs)" "map f (sort_key f ys) = sort (map f ys)"
    by (simp_all add: sort_key_map)
  moreover have "sort (map f xs) = sort (map f ys)"
    using assms by (intro sorted_distinct_set_unique) simp_all
  ultimately show ?thesis using inj_on_map_eq_map [OF inj] by simp
qed

lemma members_equal:
  assumes "\<And>m. fst (f m) = fst m" and "\<And>m n. f m = f n \<longleftrightarrow> fst m = fst n \<and> g m = g n"
    and "\<And>m n. m \<in> N \<Longrightarrow> n \<in> N \<Longrightarrow> fst m = fst n \<Longrightarrow> m = n"
  shows "f ` M = f ` N \<longleftrightarrow> fst ` M = fst ` N \<and> (\<forall>m \<in> M. \<forall>n \<in> N. fst m = fst n \<longrightarrow> g m = g n)"
proof
  assume same: "f ` M = f ` N"
  have "fst ` f ` X = fst ` X" for X using assms(1) by (simp add: image_image)
  with same have "fst ` M = fst ` N" by metis
  moreover have "g m = g n" if "m \<in> M" "n \<in> N" "fst m = fst n" for m n
  proof -
    from same that(1) obtain n' where "n' \<in> N" "f m = f n'" by blast
    with assms(2,3) that(2,3) show ?thesis by metis
  qed
  ultimately show "fst ` M = fst ` N \<and> (\<forall>m \<in> M. \<forall>n \<in> N. fst m = fst n \<longrightarrow> g m = g n)" by blast
next
  assume r: "fst ` M = fst ` N \<and> (\<forall>m \<in> M. \<forall>n \<in> N. fst m = fst n \<longrightarrow> g m = g n)"
  have "f m \<in> f ` N" if m: "m \<in> M" for m
  proof -
    from m r have "fst m \<in> fst ` N" by blast
    then obtain n where "n \<in> N" "fst m = fst n" by blast
    with m r have "f m = f n" unfolding assms(2) by blast
    with \<open>n \<in> N\<close> show ?thesis by blast
  qed
  moreover have "f n \<in> f ` M" if n: "n \<in> N" for n
  proof -
    from n r have "fst n \<in> fst ` M" by blast
    then obtain m where "m \<in> M" "fst m = fst n" by auto
    with n r have "f m = f n" unfolding assms(2) by blast
    with \<open>m \<in> M\<close> show ?thesis by (metis imageI)
  qed
  ultimately show "f ` M = f ` N" by blast
qed

lemma canon_same:
  assumes "exactFloats fl"
  shows "jvalid i \<Longrightarrow> distinctNames i \<Longrightarrow> floatsFit fl i \<Longrightarrow> jvalid j \<Longrightarrow> distinctNames j \<Longrightarrow> floatsFit fl j \<Longrightarrow>
    canon fl i = canon fl j \<longleftrightarrow> sameValue fl i j"
proof (induction i arbitrary: j)
  case (JNum s)
  then show ?case
    using numberText_inject [OF assms] by (cases j) auto
next
  case (JArr xs)
  show ?case
  proof (cases j)
    case (JArr js)
    have "canon fl a = canon fl b \<longleftrightarrow> sameValue fl a b" if "(a, b) \<in> set (zip xs js)" for a b
      using JArr.IH [of a b] JArr.prems set_zip_leftD [OF that] set_zip_rightD [OF that] \<open>j = JArr js\<close>
      by (auto simp: list_all_iff)
    then have "(\<forall>(a, b) \<in> set (zip xs js). canon fl a = canon fl b) \<longleftrightarrow> (\<forall>(a, b) \<in> set (zip xs js). sameValue fl a b)"
      by auto
    moreover have "map (canon fl) xs = map (canon fl) js \<longleftrightarrow>
        length xs = length js \<and> (\<forall>(a, b) \<in> set (zip xs js). canon fl a = canon fl b)"
      by (induction xs js rule: list_induct2') auto
    ultimately show ?thesis by (simp add: \<open>j = JArr js\<close>)
  qed (use JArr in auto)
next
  case (JObj ms)
  show ?case
  proof (cases j)
    case (JObj ns)
    have valid: "\<forall>m \<in> set ms. validText (fst m)" "\<forall>m \<in> set ns. validText (fst m)"
      "distinct (map fst ms)" "distinct (map fst ns)"
      using JObj.prems \<open>j = JObj ns\<close> by (auto simp: list_all_iff)
    have ih: "canon fl a = canon fl b \<longleftrightarrow> sameValue fl a b" if "(k, a) \<in> set ms" "(l, b) \<in> set ns" for k a l b
    proof -
      have "jvalid a" "distinctNames a" "floatsFit fl a" "jvalid b" "distinctNames b" "floatsFit fl b"
        using JObj.prems that \<open>j = JObj ns\<close> by (fastforce simp: list_all_iff)+
      then show ?thesis using JObj.IH [of "(k, a)" a b] that by simp
    qed
    define f where "f = (\<lambda>(k, j). (k :: string, canon fl j))"
    have keys: "map (utf16Units \<circ> fst) (map f xs) = map utf16Units (map fst xs)" for xs by (simp add: f_def split_def)
    have distinct: "distinct (map (utf16Units \<circ> fst) (map f xs))"
      if "distinct (map fst xs)" "\<forall>m \<in> set xs. validText (fst m)" for xs
      unfolding keys using that utf16Units_inject by (auto simp: distinct_map inj_on_def)
    have "canon fl (JObj ms) = canon fl (JObj ns) \<longleftrightarrow> set (map f ms) = set (map f ns)"
      using sort_key_unique [OF _ distinct [OF valid(3,1)] distinct [OF valid(4,2)]]
      by (simp add: f_def [symmetric]) (metis set_map set_sort)
    also have "\<dots> \<longleftrightarrow> fst ` set ms = fst ` set ns \<and>
        (\<forall>m \<in> set ms. \<forall>n \<in> set ns. fst m = fst n \<longrightarrow> canon fl (snd m) = canon fl (snd n))"
      unfolding set_map
    proof (rule members_equal)
      show "fst (f m) = fst m" and "f m = f n \<longleftrightarrow> fst m = fst n \<and> canon fl (snd m) = canon fl (snd n)" for m n
        by (auto simp: f_def split_def)
      show "m = n" if "m \<in> set ns" "n \<in> set ns" "fst m = fst n" for m n
        using that valid(4) unfolding distinct_map inj_on_def by blast
    qed
    also have "\<dots> \<longleftrightarrow> sameValue fl (JObj ms) (JObj ns)"
    proof -
      have "canon fl (snd m) = canon fl (snd n) \<longleftrightarrow> sameValue fl (snd m) (snd n)" if "m \<in> set ms" "n \<in> set ns" for m n
        using ih [of "fst m" "snd m" "fst n" "snd n"] that by simp
      then show ?thesis by (simp add: split_def)
    qed
    finally show ?thesis by (simp add: \<open>j = JObj ns\<close>)
  qed (use JObj in auto)
next
  case JNull
  then show ?case by (cases j) auto
next
  case (JBool x)
  then show ?case by (cases j) auto
next
  case (JStr x)
  then show ?case by (cases j) auto
qed

section \<open>Properties\<close>

text \<open>A float format of three values, to which a number is rounded by its sign.\<close>

definition signFloats :: floats where
  "signFloats = \<lparr>fl_parse = (\<lambda>s. Inr (if literalValue s = 0 then Zero else Finite (literalValue s < 0) ''1'' 0)),
     fl_ofInt = (\<lambda>i. if i = 0 then Zero else Finite (i < 0) ''1'' 0)\<rparr>"

lemma signFloats_exact: "exactFloats signFloats"
proof -
  have p: "properParts ''1'' [] (exponentText 0)"
    using exponentText_valid by (simp add: properParts_def isDigit_def)
  have "(if neg then ''-'' else []) @ formatE ''1'' 0 = literalOf neg ''1'' [] (exponentText 0)" for neg
    by (simp add: formatE_parts literalOf_def)
  then have v: "literalValue ((if neg then ''-'' else []) @ formatE ''1'' 0) = (if neg then -1 else 1)" for neg
    using literal_run(3) [OF p, of neg] exponentText_valid(3) [of 0] by (simp add: natOf_def)
  have z: "literalValue ''0'' = 0"
    by (simp add: literalValue_def isDigit_def natOf_def)
  have one: "properDigits ''1''" by (simp add: properDigits_def isDigit_def)
  show ?thesis
    using v z one by (auto simp: exactFloats_def faithfulDouble_def signFloats_def)
qed

text \<open>Canonical text is a fixed point: what \<^verbatim>\<open>Transform\<close> returns for a text is well-formed
  JSON for the value that it read, with the members of every object in the order of their names and the
  numbers in their canonical form, and transforming it again returns it unchanged. So two services that
  pass a document on in canonical form keep its hash.\<close>

theorem canonical_text_is_fixed:
  assumes "exactFloats fl" and "Transform decoderError fl input = Inr s"
  shows "Transform decoderError' fl s = Inr s \<and>
    jparse s = map_option (canon fl) (jparse input)"
proof -
  obtain j where j: "jparse input = Some j" "jvalid j" "distinctNames j" "floatsFit fl j"
    "s = jprintWith jcsEscape (canon fl j)"
    using Transform_Inr [OF assms] .
  note c = canon_facts [OF assms(1) j(2,4)] canon_distinct [OF j(3), of fl]
  have "Transform decoderError' fl s = Inr s"
    unfolding j(5) using Transform_text [OF assms(1), of "canon fl j"] c by simp
  moreover have "jparse s = Some (canon fl j)" unfolding j(5) using c by (intro jcs_printer.jparse_text) simp
  ultimately show ?thesis by (simp add: j(1))
qed

definition flagsBA :: json where "flagsBA = JObj [(''b'', JNull), (''a'', JBool True)]"
definition flagsAB :: json where "flagsAB = JObj [(''a'', JBool True), (''b'', JNull)]"

lemma flags_facts:
  "jvalid flagsBA" "distinctNames flagsBA" "floatsFit fl flagsBA"
  "jvalid flagsAB" "distinctNames flagsAB" "floatsFit fl flagsAB"
  by code_simp+

lemma flags_text:
  "jprintWith jcsEscape flagsBA = ''{\"b\":null,\"a\":true}''" "jprintWith jcsEscape flagsAB = ''{\"a\":true,\"b\":null}''"
  by code_simp+

lemmas flags_transform = Transform_text [OF signFloats_exact flags_facts(1-3), unfolded flags_text]
  Transform_text [OF signFloats_exact flags_facts(4-6), unfolded flags_text]

theorem canonical_text_is_fixed_witness:
  "\<exists>s. Transform (\<lambda>_. ErrCanceled) signFloats ''{\"b\":null,\"a\":true}'' = Inr s \<and> Transform (\<lambda>_. ErrCanceled) signFloats s = Inr s"
  using canonical_text_is_fixed [OF signFloats_exact flags_transform(1)] flags_transform(1) by blast

text \<open>Two texts have the same canonical text exactly when they denote the same JSON
  value: the same strings and constants, numbers that are the same double, arrays of the same values and
  objects with the same value under every name, whatever the order of members, the blanks between
  tokens, the escapes in strings and the way a number was written.\<close>

theorem canonical_text_identifies_value:
  assumes "exactFloats fl" and "Transform decoderError fl a = Inr s" "Transform decoderError fl b = Inr t"
    and "jparse a = Some i" "jparse b = Some j"
  shows "s = t \<longleftrightarrow> sameValue fl i j"
proof -
  from Transform_Inr [OF assms(1,2)] assms(4) have i: "jvalid i" "distinctNames i" "floatsFit fl i"
    "s = jprintWith jcsEscape (canon fl i)" by auto
  from Transform_Inr [OF assms(1,3)] assms(5) have j: "jvalid j" "distinctNames j" "floatsFit fl j"
    "t = jprintWith jcsEscape (canon fl j)" by auto
  have "jparse s = Some (canon fl i)" "jparse t = Some (canon fl j)"
    unfolding i(4) j(4) using canon_facts [OF assms(1) i(1,3)] canon_facts [OF assms(1) j(1,3)]
    by (simp_all add: jcs_printer.jparse_text)
  then have "s = t \<longleftrightarrow> canon fl i = canon fl j" using i(4) j(4) by (metis option.inject)
  with canon_same [OF assms(1) i(1-3) j(1-3)] show ?thesis by simp
qed

theorem canonical_text_identifies_value_witness:
  "\<exists>s. Transform (\<lambda>_. ErrCanceled) signFloats ''{\"b\":null,\"a\":true}'' = Inr s \<and>
     Transform (\<lambda>_. ErrCanceled) signFloats ''{\"a\":true,\"b\":null}'' = Inr s"
proof -
  have "sameValue signFloats flagsBA flagsAB" by code_simp
  then have "jprintWith jcsEscape (canon signFloats flagsBA) = jprintWith jcsEscape (canon signFloats flagsAB)"
    using canonical_text_identifies_value [OF signFloats_exact flags_transform
        jcs_printer.jparse_text [OF flags_facts(1), unfolded flags_text]
        jcs_printer.jparse_text [OF flags_facts(4), unfolded flags_text]] by blast
  with flags_transform show ?thesis by metis
qed

end
