(* ===== verification/ContractHash.thy ===== *)
theory ContractHash
  imports Contract Jcs "HOL-Library.Multiset" "HOL-Library.Product_Lexorder"
begin

text \<open>
  The two hashes of a Contract Document (\<^verbatim>\<open>contract/hash.go\<close>): the projection of a document, which keeps
  the members that make up the interface, dereferences schemas and removes annotations, and the hash of
  its canonical JSON. A generic tree that the code decodes is a \<open>json\<close> value, an object of it a map with
  distinct names; SHA-256 and the error for a malformed text are arguments, the float64 functions those of
  theory Jcs.
\<close>

section \<open>Generic trees\<close>

text \<open>What \<^verbatim>\<open>encoding/json\<close> decodes a value into: of two members with one name the last one stays.\<close>

fun decodeTree :: "json \<Rightarrow> json" where
  "decodeTree (JArr js) = JArr (map decodeTree js)"
| "decodeTree (JObj ms) = JObj (foldl (\<lambda>m (k, v). AList.update k v m) [] (map (\<lambda>(k, v). (k, decodeTree v)) ms))"
| "decodeTree j = j"

text \<open>Type assertions whose result is the zero value when they fail.\<close>

definition asMap :: "json \<Rightarrow> (string \<times> json) list" where
  "asMap j = (case j of JObj m \<Rightarrow> m | _ \<Rightarrow> [])"

definition asSlice :: "json \<Rightarrow> json list" where
  "asSlice j = (case j of JArr js \<Rightarrow> js | _ \<Rightarrow> [])"

definition asString :: "json \<Rightarrow> string" where
  "asString j = (case j of JStr s \<Rightarrow> s | _ \<Rightarrow> [])"

text \<open>The first value of the text, which has to be an object; the decoder does not look past it.\<close>

definition decodeGeneric :: "(string \<Rightarrow> goerr) \<Rightarrow> string \<Rightarrow> goerr + (string \<times> json) list" where
  "decodeGeneric jsonError raw =
    (let failed = Inl (ErrWrap (''contract: hash: decode document: '' @ errorText (jsonError raw)) [jsonError raw]) in
     case parseValue (2 * length raw + 2) raw of
       Some (JObj ms, _) \<Rightarrow> Inr (asMap (decodeTree (JObj ms)))
     | Some (JNull, _) \<Rightarrow> Inl (ErrNew ''contract: hash: the document is not a JSON object'')
     | _ \<Rightarrow> failed)"

section \<open>Orders\<close>

definition lessUTF16 :: "string \<Rightarrow> string \<Rightarrow> bool" where
  "lessUTF16 a b = (if a = b then False else unitsLess (utf16Units a) (utf16Units b))"

text \<open>\<^verbatim>\<open>sort.SliceStable\<close> by a comparison.\<close>

fun insertBy :: "('a \<Rightarrow> 'a \<Rightarrow> bool) \<Rightarrow> 'a \<Rightarrow> 'a list \<Rightarrow> 'a list" where
  "insertBy lt x [] = [x]"
| "insertBy lt x (y # ys) = (if lt y x then y # insertBy lt x ys else x # y # ys)"

definition stableSort :: "('a \<Rightarrow> 'a \<Rightarrow> bool) \<Rightarrow> 'a list \<Rightarrow> 'a list" where
  "stableSort lt xs = foldr (insertBy lt) xs []"

definition sortedStrings :: "json \<Rightarrow> json list option" where
  "sortedStrings v = (case v of
      JArr raw \<Rightarrow>
        if list_all (\<lambda>item. case item of JStr _ \<Rightarrow> True | _ \<Rightarrow> False) raw
        then Some (map JStr (stableSort lessUTF16 (map asString raw))) else None
    | _ \<Rightarrow> None)"

definition entryLess :: "(string \<times> json) list \<Rightarrow> (string \<times> json) list \<Rightarrow> bool" where
  "entryLess a b =
    (let ta = asString (goIndex a ''topic'' JNull); tb = asString (goIndex b ''topic'' JNull) in
     if ta \<noteq> tb then lessUTF16 ta tb
     else if hasKey a ''version'' \<noteq> hasKey b ''version'' then \<not> hasKey a ''version''
     else lessUTF16 (asString (goIndex a ''version'' JNull)) (asString (goIndex b ''version'' JNull)))"

section \<open>Schemas\<close>

definition annotations :: "string list" where
  "annotations = [''title'', ''description'', ''default'', ''examples'', ''example'', ''deprecated'', ''readOnly'',
     ''writeOnly'', ''$comment'', ''$id'', ''$schema'', ''format'']"

definition isAnnotation :: "string \<Rightarrow> bool" where
  "isAnnotation key \<longleftrightarrow> key \<in> set annotations \<or> hasPrefix key ''x-''"

definition isNullableWrapper :: "(string \<times> json) list \<Rightarrow> bool" where
  "isNullableWrapper s = (if goIndex s ''nullable'' JNull \<noteq> JBool True then False
     else list_all (\<lambda>(key, _). key \<in> set [''nullable'', ''allOf'', ''type'']) s)"

lemma size_member: "(k, v) \<in> set ms \<Longrightarrow> size v < size (JObj ms)"
  by (induction ms) auto

lemma size_element: "v \<in> set js \<Longrightarrow> size v < size (JArr js)"
  by (induction js) auto

lemma card_expanding:
  assumes "map_of schemas name = Some target" and "name \<notin> set path"
  shows "card (fst ` set schemas - set (path @ [name])) < card (fst ` set schemas - set path)"
proof (rule psubset_card_mono)
  have "name \<in> fst ` set schemas" using assms(1) by (force dest: map_of_SomeD)
  with assms(2) show "fst ` set schemas - set (path @ [name]) \<subset> fst ` set schemas - set path" by auto
qed simp

text \<open>
  \<open>normalizeKeyword\<close> is one turn of the loop over a schema's keywords: what it stores under the keyword,
  and whether it sets \<^verbatim>\<open>wrapsCut\<close>. A component is expanded at most once on a path, and everything
  else is a part of the schema, so the walk ends.
\<close>

function normalizeSchema :: "(string \<times> json) list \<Rightarrow> string list \<Rightarrow> json \<Rightarrow> json \<times> bool"
  and normalizeKeyword :: "(string \<times> json) list \<Rightarrow> string list \<Rightarrow> string \<Rightarrow> json \<Rightarrow> json option \<times> bool" where
  "normalizeSchema schemas path value1 = (case value1 of
      JObj s \<Rightarrow> (case map_of s ''$ref'' of
          Some ref \<Rightarrow>
            if \<not> hasPrefix (asString ref) RefPrefix then (JObj [], False)
            else (let name = drop (length RefPrefix) (asString ref) in
              if name \<in> set path then (JObj [], True)
              else (case map_of schemas name of
                  None \<Rightarrow> (JObj [], False)
                | Some target \<Rightarrow> (fst (normalizeSchema schemas (path @ [name]) target), False)))
        | None \<Rightarrow>
            (let turns = map (\<lambda>(key, v). (key, normalizeKeyword schemas path key v)) s;
                 result = concat (map (\<lambda>(key, stored, _). case stored of None \<Rightarrow> [] | Some v \<Rightarrow> [(key, v)]) turns);
                 wrapsCut = list_ex (\<lambda>(key, _, cut). cut) turns in
             if wrapsCut \<and> isNullableWrapper result then (JObj [], False) else (JObj result, False)))
    | _ \<Rightarrow> (value1, False))"
| "normalizeKeyword schemas path key v =
    (if isAnnotation key then (None, False)
     else if key = ''properties'' then (case v of
         JObj props \<Rightarrow>
           if props = [] then (None, False)
           else (Some (JObj (map (\<lambda>(name, prop). (name, fst (normalizeSchema schemas path prop))) props)), False)
       | _ \<Rightarrow> (Some v, False))
     else if key \<in> set [''items'', ''additionalProperties'', ''not''] then
       (Some (fst (normalizeSchema schemas path v)), False)
     else if key \<in> set [''allOf'', ''anyOf'', ''oneOf''] then (case v of
         JArr members \<Rightarrow>
           (let normalized = map (\<lambda>m. normalizeSchema schemas path m) members in
            (Some (JArr (map fst normalized)), key = ''allOf'' \<and> length members = 1 \<and> list_ex snd normalized))
       | _ \<Rightarrow> (Some v, False))
     else if key = ''required'' then (case sortedStrings v of
         None \<Rightarrow> (Some v, False)
       | Some required \<Rightarrow> (if required \<noteq> [] then Some (JArr required) else None, False))
     else if key = ''discriminator'' then (case v of
         JObj d \<Rightarrow> (Some (JObj (filter (\<lambda>(dk, _). dk \<noteq> ''mapping'') d)), False)
       | _ \<Rightarrow> (Some v, False))
     else (Some v, False))"
  by pat_completeness auto
termination
proof (relation "measures
    [case_sum (\<lambda>(schemas, path, v). card (fst ` set schemas - set path)) (\<lambda>(schemas, path, key, v). card (fst ` set schemas - set path)),
     case_sum (\<lambda>(schemas, path, v). size v) (\<lambda>(schemas, path, key, v). size v),
     case_sum (\<lambda>_. 0) (\<lambda>_. 1)]", goal_cases)
  case 1
  show ?case by simp
next
  case (2 schemas path value1 s kv key v)
  then have "size v < size value1" using size_member [of key v s] by simp
  then show ?case by simp
next
  case (3 schemas path value1 s ref name target)
  then show ?case using card_expanding [of schemas name target path] by simp
next
  case (4 schemas path key v props kv name p)
  then have "size p < size v" using size_member [of name p props] by simp
  then show ?case by simp
next
  case (5 schemas path key v)
  show ?case by simp
next
  case (6 schemas path key v members m)
  then have "size m < size v" using size_element [of m members] by simp
  then show ?case by simp
qed

declare normalizeSchema.simps [simp del] normalizeKeyword.simps [simp del]

section \<open>The projection\<close>

definition entryMembers :: "(string \<times> string list) list" where
  "entryMembers =
    [(''requests'', [''topic'', ''version'', ''httpMappings'', ''request'', ''response'']),
     (''events'', [''topic'', ''version'', ''message'']),
     (''sends'', [''topic'', ''version'', ''request'', ''response''])]"

definition schemaMembers :: "string list" where
  "schemaMembers = [''request'', ''response'', ''message'']"

definition mappingLess :: "string \<times> string \<Rightarrow> string \<times> string \<Rightarrow> bool" where
  "mappingLess a b = (if fst a \<noteq> fst b then lessUTF16 (fst a) (fst b) else lessUTF16 (snd a) (snd b))"

definition normalizeMappings :: "json \<Rightarrow> json" where
  "normalizeMappings v = (case v of
      JArr raw \<Rightarrow>
        (let mappings = concat (map (\<lambda>item. case item of
             JObj m \<Rightarrow> [(toUpper (asString (goIndex m ''method'' JNull)), asString (goIndex m ''path'' JNull))]
           | _ \<Rightarrow> []) raw) in
         JArr (map (\<lambda>(verb, path). JObj [(''method'', JStr verb), (''path'', JStr path)]) (stableSort mappingLess mappings)))
    | _ \<Rightarrow> v)"

definition projectMember :: "(string \<times> json) list \<Rightarrow> string \<Rightarrow> json \<Rightarrow> json" where
  "projectMember schemas m v =
    (if m \<in> set schemaMembers then fst (normalizeSchema schemas [] v)
     else if m = ''httpMappings'' then normalizeMappings v else v)"

text \<open>One entry of a list, or none for an item that is no object and for a reserved topic.\<close>

definition projectEntry :: "(string \<times> json) list \<Rightarrow> string list \<Rightarrow> json \<Rightarrow> (string \<times> json) list list" where
  "projectEntry schemas members item = (case item of
      JObj entry \<Rightarrow>
        if IsReserved (asString (goIndex entry ''topic'' JNull)) then []
        else [concat (map (\<lambda>m. case map_of entry m of None \<Rightarrow> [] | Some v \<Rightarrow> [(m, projectMember schemas m v)]) members)]
    | _ \<Rightarrow> [])"

definition Projection :: "(string \<times> json) list \<Rightarrow> bool \<Rightarrow> (string \<times> json) list" where
  "Projection doc withSends =
    (let components = asMap (goIndex doc ''components'' JNull);
         schemas = asMap (goIndex components ''schemas'' JNull);
         lists = [''requests'', ''events''] @ (if withSends then [''sends''] else []) in
     map (\<lambda>list. (list, JArr (map JObj (stableSort entryLess
       (concat (map (projectEntry schemas (goIndex entryMembers list [])) (asSlice (goIndex doc list JNull)))))))) lists)"

section \<open>The hashes\<close>

definition HashPrefix :: string where "HashPrefix = ''sha256:''"

definition hashOf :: "(string \<Rightarrow> string) \<Rightarrow> floats \<Rightarrow> (string \<times> json) list \<Rightarrow> goerr + string" where
  "hashOf sha fl p = (case Append fl [] (tree (JObj p)) of
      Inl err \<Rightarrow> Inl (ErrWrap (''contract: hash: '' @ errorText err) [err])
    | Inr canonical \<Rightarrow> Inr (HashPrefix @ hexEncode (sha canonical)))"

definition HashDocument ::
  "(string \<Rightarrow> goerr) \<Rightarrow> (string \<Rightarrow> string) \<Rightarrow> floats \<Rightarrow> string \<Rightarrow> goerr + string \<times> string" where
  "HashDocument jsonError sha fl raw = (case decodeGeneric jsonError raw of
      Inl err \<Rightarrow> Inl err
    | Inr doc \<Rightarrow> (case hashOf sha fl (Projection doc False) of
        Inl err \<Rightarrow> Inl err
      | Inr contractHash \<Rightarrow> (case hashOf sha fl (Projection doc True) of
          Inl err \<Rightarrow> Inl err
        | Inr registrationHash \<Rightarrow> Inr (contractHash, registrationHash))))"

section \<open>Sorting\<close>

lemma lessUTF16_less: "lessUTF16 a b \<longleftrightarrow> utf16Units a < utf16Units b"
  by (auto simp: lessUTF16_def unitsLess_less)

lemma insertBy_key:
  assumes "\<And>y. y \<in> set ys \<Longrightarrow> lt y x \<longleftrightarrow> k y < k x"
  shows "insertBy lt x ys = insort_key k x ys"
  using assms by (induction ys) auto

lemma stableSort_key:
  assumes "\<And>a b. a \<in> set xs \<Longrightarrow> b \<in> set xs \<Longrightarrow> lt a b \<longleftrightarrow> k a < k b"
  shows "stableSort lt xs = sort_key k xs"
  using assms
proof (induction xs)
  case (Cons x xs)
  have ih: "stableSort lt xs = sort_key k xs" using Cons by simp
  have "insertBy lt x (sort_key k xs) = insort_key k x (sort_key k xs)"
    by (rule insertBy_key) (use Cons.prems in simp)
  with ih show ?case by (simp add: stableSort_def)
qed (simp add: stableSort_def)

lemma set_insertBy [simp]: "set (insertBy lt x ys) = insert x (set ys)"
  by (induction ys) auto

lemma set_stableSort [simp]: "set (stableSort lt xs) = set xs"
  by (induction xs) (auto simp: stableSort_def)

lemma sortedStrings_sorted:
  assumes "sortedStrings v = Some r"
  shows "sortedStrings (JArr r) = Some r"
proof -
  have key: "stableSort lessUTF16 xs = sort_key utf16Units xs" for xs
    by (rule stableSort_key) (rule lessUTF16_less)
  from assms obtain raw where r: "r = map JStr (sort_key utf16Units (map asString raw))"
    by (auto simp: sortedStrings_def key split: json.splits if_splits)
  have strings: "list_all (\<lambda>item. case item of JStr _ \<Rightarrow> True | _ \<Rightarrow> False) r" "map asString r = sort_key utf16Units (map asString raw)"
    by (simp_all add: r list_all_iff asString_def comp_def)
  have "sort_key utf16Units (sort_key utf16Units (map asString raw)) = sort_key utf16Units (map asString raw)"
    by (rule sort_key_sorted) simp
  with strings show ?thesis by (simp add: sortedStrings_def key r)
qed

section \<open>Normal schemas\<close>

text \<open>A schema that needs no components: no reference, no annotation, and every list in its order.\<close>

function normalSchema :: "json \<Rightarrow> bool" and normalKeyword :: "string \<Rightarrow> json \<Rightarrow> bool" where
  "normalSchema v = (case v of
      JObj s \<Rightarrow> map_of s ''$ref'' = None \<and> (\<forall>(key, w) \<in> set s. normalKeyword key w)
    | _ \<Rightarrow> True)"
| "normalKeyword key v = (\<not> isAnnotation key \<and>
    (if key = ''properties'' then (case v of JObj props \<Rightarrow> props \<noteq> [] \<and> (\<forall>(name, p) \<in> set props. normalSchema p) | _ \<Rightarrow> True)
     else if key \<in> set [''items'', ''additionalProperties'', ''not''] then normalSchema v
     else if key \<in> set [''allOf'', ''anyOf'', ''oneOf''] then (case v of JArr ms \<Rightarrow> \<forall>m \<in> set ms. normalSchema m | _ \<Rightarrow> True)
     else if key = ''required'' then (case sortedStrings v of None \<Rightarrow> True | Some r \<Rightarrow> r \<noteq> [] \<and> v = JArr r)
     else if key = ''discriminator'' then (case v of JObj d \<Rightarrow> map_of d ''mapping'' = None | _ \<Rightarrow> True)
     else True))"
  by pat_completeness auto
termination
proof (relation "measures [case_sum size (\<lambda>(key, v). size v), case_sum (\<lambda>_. 0) (\<lambda>_. 1)]", goal_cases)
  case 1
  show ?case by simp
next
  case (2 v s kw key w)
  then have "size w < size v" using size_member [of key w s] by simp
  with 2(3) show ?case by auto
next
  case (3 key v props np name p)
  then have "size p < size v" using size_member [of name p props] by simp
  then show ?case by simp
next
  case (4 key v)
  show ?case by simp
next
  case (5 key v ms m)
  then have "size m < size v" using size_element [of m ms] by simp
  then show ?case by simp
qed

declare normalSchema.simps [simp del] normalKeyword.simps [simp del]

lemma normalSchema_empty: "normalSchema (JObj [])"
  by (simp add: normalSchema.simps)

lemma sortedStrings_result: "sortedStrings v = Some r \<Longrightarrow> \<exists>raw. v = JArr raw"
  by (auto simp: sortedStrings_def split: json.splits if_splits)

lemma normalKeyword_kept:
  "\<not> isAnnotation key \<Longrightarrow> key \<notin> set [''properties'', ''items'', ''additionalProperties'', ''not'', ''allOf'', ''anyOf'', ''oneOf'',
     ''required'', ''discriminator''] \<Longrightarrow> normalKeyword key v"
  by (simp add: normalKeyword.simps)

lemma normalizeKeyword_several:
  assumes "\<not> isAnnotation key" "key \<in> set [''allOf'', ''anyOf'', ''oneOf'']"
  shows "normalizeKeyword schemas path key v = (case v of
      JArr members \<Rightarrow>
        (let normalized = map (\<lambda>m. normalizeSchema schemas path m) members in
         (Some (JArr (map fst normalized)), key = ''allOf'' \<and> length members = 1 \<and> list_ex snd normalized))
    | _ \<Rightarrow> (Some v, False))"
proof -
  have "key \<noteq> ''properties''" "key \<notin> set [''items'', ''additionalProperties'', ''not'']" using assms(2) by auto
  with assms show ?thesis unfolding normalizeKeyword.simps by (simp only: if_True if_False refl simp_thms)
qed

lemma normalKeyword_several:
  assumes "key \<in> set [''allOf'', ''anyOf'', ''oneOf'']"
  shows "normalKeyword key v \<longleftrightarrow> \<not> isAnnotation key \<and>
    (case v of JArr ms \<Rightarrow> \<forall>m \<in> set ms. normalSchema m | _ \<Rightarrow> True)"
proof -
  have "key \<noteq> ''properties''" "key \<notin> set [''items'', ''additionalProperties'', ''not'']" using assms by auto
  with assms show ?thesis unfolding normalKeyword.simps by (simp only: if_True if_False refl simp_thms)
qed

lemma kept_member:
  "(key, w) \<in> set (concat (map (\<lambda>(key, stored, _). case stored of None \<Rightarrow> [] | Some v \<Rightarrow> [(key, v)])
      (map (\<lambda>(key, v). (key, f key v)) s))) \<longleftrightarrow> (\<exists>v c. (key, v) \<in> set s \<and> f key v = (Some w, c))"
proof (induction s)
  case (Cons kb s)
  obtain k b stored c where kb: "kb = (k, b)" "f k b = (stored, c)" by (metis surj_pair)
  with Cons show ?case by (cases stored) auto
qed simp

lemma normalize_normal:
  "normalSchema (fst (normalizeSchema schemas path v))"
  "normalizeKeyword schemas path key w = (Some u, c) \<Longrightarrow> normalKeyword key u"
proof (induction schemas path v and schemas path key w arbitrary: and u c rule: normalizeSchema_normalizeKeyword.induct)
  case (1 schemas path v)
  show ?case
  proof (cases v)
    case (JObj s)
    show ?thesis
    proof (cases "map_of s ''$ref''")
      case None
      define turns where "turns = map (\<lambda>(key, v). (key, normalizeKeyword schemas path key v)) s"
      define result where "result = concat (map (\<lambda>(key, stored, _). case stored of None \<Rightarrow> [] | Some v \<Rightarrow> [(key, v)]) turns)"
      have kept: "\<exists>v c. (key, v) \<in> set s \<and> normalizeKeyword schemas path key v = (Some w, c)"
        if "(key, w) \<in> set result" for key w
        using that unfolding result_def turns_def kept_member .
      have "normalKeyword key w" if "(key, w) \<in> set result" for key w
        using kept [OF that] 1(1) [OF JObj None] by blast
      moreover have "''$ref'' \<notin> fst ` set result" using kept None by (force simp: map_of_eq_None_iff)
      ultimately have "normalSchema (JObj result)" by (auto simp: normalSchema.simps map_of_eq_None_iff)
      with JObj None show ?thesis
        by (simp add: normalizeSchema.simps Let_def turns_def [symmetric] result_def [symmetric] normalSchema_empty)
    next
      case (Some ref)
      show ?thesis
        using 1(2) [OF JObj Some] JObj Some
        by (auto simp: normalizeSchema.simps Let_def normalSchema_empty split: option.split)
    qed
  qed (simp_all add: normalizeSchema.simps normalSchema.simps)
next
  case (2 schemas path key v)
  have na: "\<not> isAnnotation key" using 2(4) by (auto simp: normalizeKeyword.simps)
  consider (properties) "key = ''properties''" | (schema) "key \<noteq> ''properties''" "key \<in> set [''items'', ''additionalProperties'', ''not'']"
    | (several) "key \<noteq> ''properties''" "key \<notin> set [''items'', ''additionalProperties'', ''not'']" "key \<in> set [''allOf'', ''anyOf'', ''oneOf'']"
    | (required) "key = ''required''" | (discriminator) "key = ''discriminator''"
    | (other) "key \<notin> set [''properties'', ''items'', ''additionalProperties'', ''not'', ''allOf'', ''anyOf'', ''oneOf'',
        ''required'', ''discriminator'']"
    by fastforce
  then show ?case
  proof cases
    case properties
    show ?thesis
    proof (cases v)
      case (JObj props)
      with properties 2(4) na have u: "props \<noteq> []" "u = JObj (map (\<lambda>(name, p). (name, fst (normalizeSchema schemas path p))) props)"
        by (auto simp: normalizeKeyword.simps split: if_splits)
      have "normalSchema (fst (normalizeSchema schemas path p))" if "(name, p) \<in> set props" for name p
        using 2(1) [OF na properties JObj u(1) that] by simp
      with u na properties show ?thesis by (auto simp: normalKeyword.simps)
    qed (use 2(4) na properties in \<open>auto simp: normalizeKeyword.simps normalKeyword.simps\<close>)
  next
    case schema
    with 2(2) [OF na schema] 2(4) na show ?thesis
      by (auto simp: normalizeKeyword.simps normalKeyword.simps)
  next
    case several
    show ?thesis
    proof (cases v)
      case (JArr ms)
      have "normalSchema (fst (normalizeSchema schemas path m))" if "m \<in> set ms" for m
        using 2(3) [OF na several JArr that] .
      moreover have "u = JArr (map (\<lambda>m. fst (normalizeSchema schemas path m)) ms)"
        using 2(4) JArr by (simp add: normalizeKeyword_several [OF na several(3)] Let_def comp_def)
      ultimately show ?thesis by (simp add: normalKeyword_several [OF several(3)] na)
    next
      case (JObj d)
      then show ?thesis using 2(4) by (auto simp: normalizeKeyword_several [OF na several(3)] normalKeyword_several [OF several(3)] na)
    qed (use 2(4) in \<open>auto simp: normalizeKeyword_several [OF na several(3)] normalKeyword_several [OF several(3)] na\<close>)
  next
    case required
    then show ?thesis
      using 2(4) na by (auto simp: normalizeKeyword.simps normalKeyword.simps sortedStrings_sorted split: option.splits if_splits)
  next
    case discriminator
    show ?thesis
    proof (cases v)
      case (JObj d)
      with discriminator 2(4) na have "u = JObj (filter (\<lambda>(dk, _). dk \<noteq> ''mapping'') d)"
        by (simp add: normalizeKeyword.simps)
      with discriminator na show ?thesis by (auto simp: normalKeyword.simps map_of_eq_None_iff)
    qed (use 2(4) na discriminator in \<open>auto simp: normalizeKeyword.simps normalKeyword.simps\<close>)
  next
    case other
    then show ?thesis using na by (rule normalKeyword_kept [rotated])
  qed
qed

lemma kept_all:
  assumes "\<And>key v. (key, v) \<in> set s \<Longrightarrow> f key v = (Some v, False)"
  shows "concat (map (\<lambda>(key, stored, _). case stored of None \<Rightarrow> [] | Some v \<Rightarrow> [(key, v)]) (map (\<lambda>(key, v). (key, f key v)) s)) = s"
    and "\<not> list_ex (\<lambda>(key, _, c). c) (map (\<lambda>(key, v). (key, f key v)) s)"
  using assms by (induction s) auto

lemma normal_fixed:
  "normalSchema v \<Longrightarrow> normalizeSchema schemas path v = (v, False)"
  "normalKeyword key w \<Longrightarrow> normalizeKeyword schemas path key w = (Some w, False)"
proof (induction v and key w rule: normalSchema_normalKeyword.induct)
  case (1 v)
  show ?case
  proof (cases v)
    case (JObj s)
    with 1(2) have s: "map_of s ''$ref'' = None" "\<forall>(key, w) \<in> set s. normalKeyword key w"
      by (auto simp: normalSchema.simps)
    have "normalizeKeyword schemas path key w = (Some w, False)" if "(key, w) \<in> set s" for key w
      using 1(1) [OF JObj that] s(2) that by auto
    note all = kept_all [of s "normalizeKeyword schemas path", OF this]
    show ?thesis using all s(1) by (simp add: JObj normalizeSchema.simps Let_def)
  qed (simp_all add: normalizeSchema.simps)
next
  case (2 key v)
  have na: "\<not> isAnnotation key" using 2(4) by (simp add: normalKeyword.simps)
  consider (properties) "key = ''properties''" | (schema) "key \<noteq> ''properties''" "key \<in> set [''items'', ''additionalProperties'', ''not'']"
    | (several) "key \<noteq> ''properties''" "key \<notin> set [''items'', ''additionalProperties'', ''not'']" "key \<in> set [''allOf'', ''anyOf'', ''oneOf'']"
    | (required) "key = ''required''" | (discriminator) "key = ''discriminator''"
    | (other) "key \<notin> set [''properties'', ''items'', ''additionalProperties'', ''not'', ''allOf'', ''anyOf'', ''oneOf'',
        ''required'', ''discriminator'']"
    by fastforce
  then show ?case
  proof cases
    case properties
    show ?thesis
    proof (cases v)
      case (JObj props)
      with properties 2(4) na have p: "props \<noteq> []" "\<forall>(name, p) \<in> set props. normalSchema p"
        by (simp_all add: normalKeyword.simps)
      have "normalizeSchema schemas path p = (p, False)" if "(name, p) \<in> set props" for name p
        using 2(1) [OF properties JObj that refl] p(2) that by auto
      then have "map (\<lambda>(name, p). (name, fst (normalizeSchema schemas path p))) props = props"
        by (intro map_idI) auto
      with p(1) JObj na properties show ?thesis by (simp add: normalizeKeyword.simps)
    qed (use na properties in \<open>simp_all add: normalizeKeyword.simps\<close>)
  next
    case schema
    have "normalSchema v" using 2(4) schema by (auto simp: normalKeyword.simps)
    with 2(2) [OF schema] have "normalizeSchema schemas path v = (v, False)" .
    with na schema show ?thesis by (auto simp: normalizeKeyword.simps)
  next
    case several
    show ?thesis
    proof (cases v)
      case (JArr ms)
      have fixed: "normalizeSchema schemas path m = (m, False)" if "m \<in> set ms" for m
        using 2(3) [OF several JArr that] 2(4) that JArr by (simp add: normalKeyword_several [OF several(3)])
      define n where "n = map (\<lambda>m. normalizeSchema schemas path m) ms"
      have "map fst n = ms" "\<not> list_ex snd n"
        unfolding n_def using fixed by (auto simp: list_ex_iff intro: map_idI)
      then show ?thesis
        unfolding JArr normalizeKeyword_several [OF na several(3)] json.case Let_def n_def [symmetric] by simp
    qed (simp_all add: normalizeKeyword_several [OF na several(3)])
  next
    case required
    with 2(4) na show ?thesis by (auto simp: normalizeKeyword.simps normalKeyword.simps split: option.splits)
  next
    case discriminator
    show ?thesis
    proof (cases v)
      case (JObj d)
      with discriminator 2(4) have "map_of d ''mapping'' = None" by (simp add: normalKeyword.simps)
      then have "filter (\<lambda>(dk, _). dk \<noteq> ''mapping'') d = d"
        by (intro filter_True) (force simp: map_of_eq_None_iff)
      with na discriminator JObj show ?thesis by (simp add: normalizeKeyword.simps)
    qed (use na discriminator in \<open>simp_all add: normalizeKeyword.simps\<close>)
  next
    case other
    with na show ?thesis by (simp add: normalizeKeyword.simps)
  qed
qed

section \<open>Properties\<close>

text \<open>What the hash is taken of needs nothing but itself: whatever a document says, a projected schema has no
  reference, no annotation, no empty list of properties or required names and every required list in
  order, at every position; and projecting it once more, over any other components and at any place of an
  expansion, changes nothing and cuts nothing.\<close>

theorem schema_projection_is_self_contained:
  "normalSchema (fst (normalizeSchema schemas path v)) \<and>
    normalizeSchema schemas' path' (fst (normalizeSchema schemas path v)) =
      (fst (normalizeSchema schemas path v), False)"
  using normalize_normal(1) normal_fixed(1) by blast

text \<open>Members of a document outside its interface, its own two hashes among them, never reach the hash.\<close>

lemma projection_ignores_member:
  assumes "key \<notin> {''components'', ''requests'', ''events'', ''sends''}"
  shows "Projection (AList.update key v doc) withSends = Projection doc withSends"
  using assms by (auto simp: Projection_def Let_def goIndex_def)

theorem stale_hashes_are_ignored:
  assumes "decodeGeneric jsonError raw = Inr doc"
    and "decodeGeneric jsonError stamped =
      Inr (AList.update ''registrationHash'' (JStr h2) (AList.update ''contractHash'' (JStr h1) doc))"
  shows "HashDocument jsonError sha fl stamped = HashDocument jsonError sha fl raw"
proof -
  have "Projection (AList.update ''registrationHash'' (JStr h2) (AList.update ''contractHash'' (JStr h1) doc)) withSends =
      Projection doc withSends" for withSends
    by (simp add: projection_ignores_member)
  then show ?thesis by (simp only: HashDocument_def assms sum.case)
qed

theorem stale_hashes_are_ignored_witness:
  "HashDocument (\<lambda>_. ErrCanceled) (\<lambda>s. s) fl ''{\"contractHash\":\"old\",\"registrationHash\":\"old\"}'' =
    HashDocument (\<lambda>_. ErrCanceled) (\<lambda>s. s) fl ''{}''"
proof (rule stale_hashes_are_ignored)
  show "decodeGeneric (\<lambda>_. ErrCanceled) ''{}'' = Inr []" by code_simp
  show "decodeGeneric (\<lambda>_. ErrCanceled) ''{\"contractHash\":\"old\",\"registrationHash\":\"old\"}'' =
      Inr (AList.update ''registrationHash'' (JStr ''old'') (AList.update ''contractHash'' (JStr ''old'') []))"
    by code_simp
qed

end
