(* ===== verification/Spec2Isabelle.thy ===== *)
theory Spec2Isabelle
  imports Http Bulkhead CircuitBreaker RateLimiting Idempotency Saga Cache Client Routing MeshLaws Announce Validation Cors ClientHealth Auth Streams ResponseEvents Consumers ContractHash
begin

text \<open>
  A verification development for benzene-go, a Go framework that routes messages of any transport
  (HTTP, gRPC, queues, functions) to typed handlers, and for the services built on it: retries and
  breakers, idempotency, sagas, health, and a mesh of services that report to a collector.

  \<^bold>\<open>How the program fits together.\<close> A binding turns a delivery of its transport into a wire
  envelope (\<^verbatim>\<open>wire/envelope.go\<close>) and hands it to \<^verbatim>\<open>envelope.Dispatch\<close>, which builds an
  \<^verbatim>\<open>InvocationContext\<close> with a fresh scope and runs the application's pipeline. The pipeline is an onion
  of middlewares (tracing, contract, health, retries, limits, idempotency) whose innermost layer is the
  router; the router resolves topic and version in the registry, decodes the body and calls the
  handler. The result goes back through the status tables to HTTP or gRPC, or settles the delivery of a
  queue. Outbound calls go through a stack of \<^verbatim>\<open>client.Sender\<close> decorators. A service reports its spans,
  issues, contract and heartbeats to the collector \<^verbatim>\<open>meshd\<close>, itself a service of this framework.

  \<^bold>\<open>Which theory models what.\<close> A definition has the name of the Go function or type it models, with the
  receiver's type in front where two methods share a name; a record has the fields of the struct in
  their order; a branch of a definition is a branch of the code.
  \<^item> Prelude: Go itself. Panics, errors and \<^verbatim>\<open>errors.Is\<close>, \<^verbatim>\<open>context.Context\<close>, \<^verbatim>\<open>time.Duration\<close> as a 64-bit
    word, ASCII case folding, maps. GoStrings: the functions of \<^verbatim>\<open>strings\<close> and \<^verbatim>\<open>net/http\<close> that the HTTP
    binding uses. Concurrency: goroutines that are started together and waited for, as interleavings
    of atomic actions under an arbitrary schedule.
  \<^item> Status: \<^verbatim>\<open>status.go\<close>, \<^verbatim>\<open>httpstatus/mapping.go\<close>, \<^verbatim>\<open>grpcstatus/mapping.go\<close>. Wire:
    \<^verbatim>\<open>wire/envelope.go\<close>, \<^verbatim>\<open>wire/metadata.go\<close>, \<^verbatim>\<open>wire/problem.go\<close>. Json: the grammar, the printer and the
    reader of \<^verbatim>\<open>encoding/json\<close>; WireJson: the codecs of the wire types on top of it. Results:
    \<^verbatim>\<open>result.go\<close>. Http: \<^verbatim>\<open>httpstatus.Response\<close>. Jcs: canonical JSON, \<^verbatim>\<open>internal/jcs/\<close>.
  \<^item> Pipeline: \<^verbatim>\<open>topic.go\<close>, \<^verbatim>\<open>context.go\<close>, \<^verbatim>\<open>middleware.go\<close>. Registry, Router, Container, App: \<^verbatim>\<open>registry.go\<close>,
    \<^verbatim>\<open>router.go\<close>, \<^verbatim>\<open>scope.go\<close>, \<^verbatim>\<open>app.go\<close>. Envelope: \<^verbatim>\<open>envelope/dispatch.go\<close>, \<^verbatim>\<open>envelope/settlement.go\<close>.
    Routing: \<^verbatim>\<open>httpbinding/httpbinding.go\<close>.
  \<^item> Resilience, Bulkhead: \<^verbatim>\<open>resilience/\<close>. CircuitBreaker, RateLimiting, Idempotency, Cache, Client: the
    packages of those names. Saga: \<^verbatim>\<open>saga/\<close>.
  \<^item> Health: \<^verbatim>\<open>healthcheck/\<close>. Contract: the document and the middleware of \<^verbatim>\<open>contract/\<close>; ContractHash:
    its two hashes, \<^verbatim>\<open>contract/hash.go\<close>. ClientHealth:
    \<^verbatim>\<open>clienthealthcheck/\<close>. Inprocess: \<^verbatim>\<open>inprocess/\<close>. Validation: \<^verbatim>\<open>validation/\<close>.
  \<^item> Cors: \<^verbatim>\<open>cors/\<close>, over GoURL, the functions of \<^verbatim>\<open>net/url\<close> it uses. Auth: the principal, the Basic
    and bearer middleware and the scopes of \<^verbatim>\<open>auth/\<close>; Jwt: its validator; JwtKeys: static keys and JWK
    sets; Jwks: the resolver that fetches and caches a provider's keys; Base64: \<^verbatim>\<open>encoding/base64\<close>.
  \<^item> Batch: what the batch sources share. Lambda: \<^verbatim>\<open>awslambda/envelope.go\<close>, \<^verbatim>\<open>awssqs/sqs.go\<close> and
    \<^verbatim>\<open>awssns/sns.go\<close>. Streams: \<^verbatim>\<open>awss3/\<close>, \<^verbatim>\<open>awskinesis/\<close>, \<^verbatim>\<open>awskafka/\<close>. SqsConsumer:
    \<^verbatim>\<open>awssqs/consumer.go\<close>. Consumers: \<^verbatim>\<open>rabbitmq/consumer.go\<close>, \<^verbatim>\<open>kafka/kafka.go\<close> and
    \<^verbatim>\<open>azureservicebus/worker.go\<close>. ResponseEvents: \<^verbatim>\<open>responseevents/\<close>.
  \<^item> Mesh, MeshIssues, Announce: the service's side of the mesh (\<^verbatim>\<open>mesh/\<close>). MeshStore: the collector's
    store (\<^verbatim>\<open>meshd/store.go\<close>); MeshGraph, MeshLaws: its invariants and properties. Collector: its
    handlers (\<^verbatim>\<open>meshd/meshd.go\<close>).

  \<^bold>\<open>State.\<close> An object the code mutates is a record that its operations return updated: the invocation
  context, a registry, a container with the instances of its scopes, a token bucket, an idempotency
  store, the collector's store. Where the code mutates an object through several pointers (the steps of
  a saga, the exporter's channel) the model has an explicit store or an explicit state machine. Code
  that goroutines run concurrently is a step relation (bulkhead, container) or an interleaving under
  every schedule (saga, health checks). A handler or a middleware of an application is an argument: any
  function from the state to a value, an error or a panic and the new state.

  \<^bold>\<open>Interfaces.\<close> The interfaces \<^verbatim>\<open>cache.Store\<close>, \<^verbatim>\<open>idempotency.Store\<close>, \<^verbatim>\<open>ratelimiting.Limiter\<close>, \<^verbatim>\<open>saga.StateStore\<close>
  and \<^verbatim>\<open>auth.KeyResolver\<close> are locales: their operations are fixed, their documented contract is assumed,
  and the properties of the code that uses them are proved from it. Each is interpreted on the
  repository's own implementations: the in-memory stores, the token bucket, the static keys and the
  resolver of a provider's keys. Two more locales state what the loops over deliveries share: one for
  a source that settles every delivery by itself (queues, topics, the poller, the partitions of
  Kafka), one for a stream or a list that stops at the first delivery that was not settled (Kinesis,
  a Kafka partition, S3, the publication of events), each interpreted on every loop of that kind. A last
  one is a printer of JSON strings, interpreted on the escaping of \<^verbatim>\<open>encoding/json\<close> and on that of canonical
  JSON: the reader reads back what either has written.

  \<^bold>\<open>What the lemmas show.\<close> Refinement of an abstract table by the registry and of the onion by the
  pipeline; an answer of the router on every error path; settlement of a delivery exactly when it was
  handled; the round trip of an envelope and of a problem document through JSON text; routes: the
  compiled table against the rule for one route, and parameters that a caller cannot spoof; for sagas,
  under every schedule of a stage's goroutines, completion of all steps or compensation of exactly
  those that committed; at most as many attempts as configured, and the arithmetic of a backoff at its
  width; at most one execution of a redelivered message within its lease; the limits of bulkhead and
  bucket; agreement of racing resolvers; one report per check; a trace that survives any number of
  hops, an exporter that loses events only by its stated limits and flushes on close, and a collector
  whose graph, ring, statistics and drift are those of the sequence of messages it received. A token is
  accepted exactly when it has an allowed algorithm, a signature under a key of the resolver and claims
  within the policy, and no handler behind the middleware runs without one; a batch source reports,
  and a consumer leaves, exactly the deliveries that were not settled, and a stream is never moved past
  one. The canonical text of a value is a fixed point and tells values apart, and a projected schema is
  complete in itself.

  \<^bold>\<open>Bounds.\<close> A loop of the code is a structural recursion or has a measure. The JSON reader has fuel
  \<open>2 * length + 2\<close>, which theory Json shows to be enough for every text. The announcer's heartbeats go on for
  ever, so its loop takes the number of heartbeats to run. A sequence of collector messages or a
  schedule of goroutines is a list, over all lists. The loop of a
  consumer is a partial function, so that not returning is a value. Durations, counts and sizes that
  can wrap are words of their Go width.

  \<^bold>\<open>Arguments of the model.\<close> Code outside the repository, and what the language leaves open, is an
  argument: the JSON of an application's own types and the text of a JSON error, the order in which a Go
  map is visited, the clock, random bytes and ids, SHA-256, floating-point rounding, the printing of a
  duration, \<^verbatim>\<open>gobreaker\<close>'s Execute, dialling and requests of the health checks, the disk
  usage of a path, the environment and host name of an announcer, reflection on a request type,
  the primitives of \<^verbatim>\<open>crypto\<close>, the seconds of a floating-point date, the float64 that a numeral denotes with its shortest
  digits, an HTTP client, a broker's or a
  queue's client. A property that relies on one of them says so in a hypothesis and has a witness with
  a concrete function in its place.

  \<^bold>\<open>Not modelled.\<close> Text outside ASCII is carried as bytes and case folding is the ASCII one. The bindings
  to cloud SDKs and brokers are adapters between third-party event types and the settlement that is
  modelled here; DynamoDB, EventBridge and CloudEvents hand on parts of a JSON text verbatim, which the
  parsed JSON of theory Json does not keep; OpenAPI, AsyncAPI, the derivation of contracts and code generation
  read Go types by reflection and print documents for tools; logging and diagnostics only write.
\<close>

end
